(* ===== verification/Prelude.thy ===== *)
theory Prelude
  imports Main "HOL-Library.AList" "HOL-Library.Char_ord" "HOL-Library.List_Lexorder"
    "HOL-Library.Multiset"
begin

text \<open>
  Shared vocabulary of the development: Python exceptions as values, the error-or-value
  type and its sequencing, dictionaries as insertion-ordered association lists, the list
  slices the readers use, and the hint collections that carry the component proofs.
\<close>

named_theorems dict_simps "lookup after an update or a removal in a Python dictionary"
named_theorems step_simps "equations that unfold one operation of a component"

section \<open>Errors as values\<close>

datatype py_error =
    TypeError
  | ValueError string
  | KeyError string
  | AttributeError
  | JSONDecodeError
  | OSError
  | OverflowError

type_synonym 'a res = "py_error + 'a"

fun ebind :: "'e + 'a \<Rightarrow> ('a \<Rightarrow> 'e + 'b) \<Rightarrow> 'e + 'b" where
  "ebind (Inl e) f = Inl e"
| "ebind (Inr x) f = f x"

fun is_ok :: "'e + 'a \<Rightarrow> bool" where
  "is_ok (Inl e) = False"
| "is_ok (Inr x) = True"

lemma ebind_Inr [simp]: "ebind m f = Inr y \<longleftrightarrow> (\<exists>x. m = Inr x \<and> f x = Inr y)"
  by (cases m) auto

lemma ebind_Inl [simp]:
  "ebind m f = Inl e \<longleftrightarrow> m = Inl e \<or> (\<exists>x. m = Inr x \<and> f x = Inl e)"
  by (cases m) auto

lemma is_ok_iff: "is_ok m \<longleftrightarrow> (\<exists>x. m = Inr x)"
  by (cases m) auto

text \<open>A loop that calls a fallible function on each element and stops at the first error.\<close>

fun emap :: "('a \<Rightarrow> 'e + 'b) \<Rightarrow> 'a list \<Rightarrow> 'e + 'b list" where
  "emap f [] = Inr []"
| "emap f (x # xs) = ebind (f x) (\<lambda>y. ebind (emap f xs) (\<lambda>ys. Inr (y # ys)))"

lemma emap_append:
  "emap f (xs @ ys) = ebind (emap f xs) (\<lambda>us. ebind (emap f ys) (\<lambda>vs. Inr (us @ vs)))"
proof (induction xs)
  case Nil
  then show ?case by (cases "emap f ys") auto
next
  case (Cons x xs)
  then show ?case
    by (cases "f x"; cases "emap f xs"; cases "emap f ys") auto
qed

lemma emap_length: "emap f xs = Inr ys \<Longrightarrow> length ys = length xs"
  by (induction xs arbitrary: ys) auto

lemma ebind_assoc: "ebind (ebind m f) g = ebind m (\<lambda>x. ebind (f x) g)"
  by (cases m) simp_all

text \<open>Sequencing of calls that return a value or an exception and leave a state either way.\<close>

definition ethen :: "('e + 'a) \<times> 's \<Rightarrow> ('a \<Rightarrow> 's \<Rightarrow> ('e + 'b) \<times> 's) \<Rightarrow> ('e + 'b) \<times> 's" where
  "ethen r k = (case r of (Inl e, s) \<Rightarrow> (Inl e, s) | (Inr x, s) \<Rightarrow> k x s)"

lemma ethen_simps [simp]: "ethen (Inl e, s) k = (Inl e, s)" "ethen (Inr x, s) k = k x s"
  by (simp_all add: ethen_def)

lemma ethen_Inr:
  "ethen r k = (Inr y, t) \<longleftrightarrow> (\<exists>x s. r = (Inr x, s) \<and> k x s = (Inr y, t))"
  by (cases r; cases "fst r") (auto simp: ethen_def)

lemma ethen_assoc: "ethen (ethen r k) h = ethen r (\<lambda>x s. ethen (k x s) h)"
  by (cases r; cases "fst r") (auto simp: ethen_def)

section \<open>Dictionaries\<close>

text \<open>
  A Python dictionary keeps its insertion order: assigning an existing key keeps its
  place, a new key goes to the end. That is \<open>AList.update\<close>; \<open>dict.pop\<close> and
  \<open>del\<close> are \<open>AList.delete\<close>, \<open>dict.get\<close> is \<open>map_of\<close>.
\<close>

type_synonym ('k, 'v) dict = "('k \<times> 'v) list"

abbreviation dget :: "('k, 'v) dict \<Rightarrow> 'k \<Rightarrow> 'v option" where
  "dget d k \<equiv> map_of d k"

abbreviation dput :: "'k \<Rightarrow> 'v \<Rightarrow> ('k, 'v) dict \<Rightarrow> ('k, 'v) dict" where
  "dput k v d \<equiv> AList.update k v d"

definition dget_or :: "('k, 'v) dict \<Rightarrow> 'k \<Rightarrow> 'v \<Rightarrow> 'v" where
  "dget_or d k dflt = (case dget d k of None \<Rightarrow> dflt | Some v \<Rightarrow> v)"

definition keys :: "('k, 'v) dict \<Rightarrow> 'k list" where
  "keys d = map fst d"

lemma dget_dput [dict_simps, simp]: "dget (dput k v d) k' = (if k' = k then Some v else dget d k')"
  by (simp add: update_conv)

lemma dget_delete [dict_simps, simp]:
  "dget (AList.delete k d) k' = (if k' = k then None else dget d k')"
  by (simp add: delete_conv')

lemma dget_or_dput [dict_simps, simp]:
  "dget_or (dput k v d) k' dflt = (if k' = k then v else dget_or d k' dflt)"
  by (simp add: dget_or_def)

lemma dget_append: "dget (d @ e) k = (case dget d k of None \<Rightarrow> dget e k | Some v \<Rightarrow> Some v)"
  by (simp add: map_add_def)

lemma dput_new: "dget d k = None \<Longrightarrow> dput k v d = d @ [(k, v)]"
  by (induction d) (auto split: if_splits)

section \<open>Counting with a dictionary\<close>

text \<open>\<open>counts[key] = counts.get(key, 0) + 1\<close> for every key of a sequence.\<close>

definition bump :: "'k \<Rightarrow> ('k, nat) dict \<Rightarrow> ('k, nat) dict" where
  "bump k d = dput k (dget_or d k 0 + 1) d"

definition tally :: "'k list \<Rightarrow> ('k, nat) dict" where
  "tally ks = foldl (\<lambda>d k. bump k d) [] ks"

lemma dget_or_bump [simp]: "dget_or (bump k d) k' 0 = dget_or d k' 0 + (if k' = k then 1 else 0)"
  by (auto simp: bump_def)

lemma tally_foldl:
  "dget_or (foldl (\<lambda>d k. bump k d) d ks) k 0 = dget_or d k 0 + count_list ks k"
  by (induction ks arbitrary: d) auto

lemma tally_count: "dget_or (tally ks) k 0 = count_list ks k"
  unfolding tally_def by (simp only: tally_foldl) (simp add: dget_or_def)

section \<open>Slices\<close>

text \<open>\<open>xs[-limit:]\<close>: for a positive limit the last elements, for 0 the whole list
  (\<open>-0\<close> is \<open>0\<close>), for a negative limit the list without its first elements.\<close>

definition slice_last :: "int \<Rightarrow> 'a list \<Rightarrow> 'a list" where
  "slice_last n xs =
     (if n \<le> 0 then drop (nat (- n)) xs else drop (length xs - nat n) xs)"

lemma slice_last_suffix: "\<exists>ys. xs = ys @ slice_last n xs"
  by (metis append_take_drop_id slice_last_def)

lemma slice_last_length: "0 < n \<Longrightarrow> length (slice_last n xs) = min (nat n) (length xs)"
  by (auto simp: slice_last_def)

section \<open>Strings\<close>

text \<open>
  \<open>str.strip\<close>, \<open>str.lower\<close>, \<open>str.upper\<close> and \<open>str.startswith\<close> on the
  code points below 256 (\<open>upper\<close> turns the sharp s into two letters; the micro sign and
  y-diaeresis, whose upper case lies outside that range, are left alone).
\<close>

definition is_space :: "char \<Rightarrow> bool" where
  "is_space c \<longleftrightarrow>
     (let n = (of_char c :: nat)
      in (9 \<le> n \<and> n \<le> 13) \<or> (28 \<le> n \<and> n \<le> 32) \<or> n = 133 \<or> n = 160)"

definition py_strip :: "string \<Rightarrow> string" where
  "py_strip s = rev (dropWhile is_space (rev (dropWhile is_space s)))"

definition lower_char :: "char \<Rightarrow> char" where
  "lower_char c =
     (let n = (of_char c :: nat)
      in if (65 \<le> n \<and> n \<le> 90) \<or> (192 \<le> n \<and> n \<le> 222 \<and> n \<noteq> 215) then char_of (n + 32) else c)"

definition py_lower :: "string \<Rightarrow> string" where
  "py_lower s = map lower_char s"

definition upper_char :: "char \<Rightarrow> string" where
  "upper_char c =
     (let n = (of_char c :: nat)
      in if (97 \<le> n \<and> n \<le> 122) \<or> (224 \<le> n \<and> n \<le> 254 \<and> n \<noteq> 247) then [char_of (n - 32)]
         else if n = 223 then ''SS'' else [c])"

definition py_upper :: "string \<Rightarrow> string" where
  "py_upper s = concat (map upper_char s)"

definition startswith :: "string \<Rightarrow> string \<Rightarrow> bool" where
  "startswith s p \<longleftrightarrow> take (length p) s = p"

lemma startswith_iff: "startswith s p \<longleftrightarrow> (\<exists>t. s = p @ t)"
  unfolding startswith_def by (metis append_eq_conv_conj append_take_drop_id)

section \<open>Calls that may fail inside any and all\<close>

text \<open>\<open>any(f(x) for x in xs)\<close> and \<open>all(f(x) for x in xs)\<close>, which stop at the first answer that decides or at an exception\<close>

fun any_res :: "('a \<Rightarrow> 'e + bool) \<Rightarrow> 'a list \<Rightarrow> 'e + bool" where
  "any_res f [] = Inr False"
| "any_res f (x # xs) = ebind (f x) (\<lambda>b. if b then Inr True else any_res f xs)"

fun all_res :: "('a \<Rightarrow> 'e + bool) \<Rightarrow> 'a list \<Rightarrow> 'e + bool" where
  "all_res f [] = Inr True"
| "all_res f (x # xs) = ebind (f x) (\<lambda>b. if b then all_res f xs else Inr False)"

lemma any_res_False: "any_res f xs = Inr False \<longleftrightarrow> (\<forall>x \<in> set xs. f x = Inr False)"
  by (induction xs) auto

lemma any_res_True: "any_res f xs = Inr True \<Longrightarrow> \<exists>x \<in> set xs. f x = Inr True"
  by (induction xs) (auto split: if_splits)

lemma all_res_True: "all_res f xs = Inr True \<longleftrightarrow> (\<forall>x \<in> set xs. f x = Inr True)"
  by (induction xs) auto

lemma any_res_cong: "(\<And>x. x \<in> set xs \<Longrightarrow> f x = g x) \<Longrightarrow> any_res f xs = any_res g xs"
proof (induction xs)
  case (Cons x xs)
  then show ?case by (cases "g x") auto
qed simp

section \<open>Splitting at a character\<close>

lemma drop_shorter: "dropWhile P s \<noteq> [] \<Longrightarrow> length (tl (dropWhile P s)) < length s"
  using length_dropWhile_le [of P s] by (cases "dropWhile P s") simp_all

text \<open>\<open>s.split(sep)\<close> for a separator of one character\<close>

function split_char :: "char \<Rightarrow> string \<Rightarrow> string list" where
  "split_char sep s =
     (let f = takeWhile (\<lambda>c. c \<noteq> sep) s; r = dropWhile (\<lambda>c. c \<noteq> sep) s
      in if r = [] then [f] else f # split_char sep (tl r))"
  by auto
termination
  by (relation "measure (length \<circ> snd)") (simp_all add: drop_shorter del: dropWhile_eq_Nil_conv length_tl)

declare split_char.simps [simp del]

lemma split_char_last: "sep \<notin> set s \<Longrightarrow> split_char sep s = [s]"
  by (subst split_char.simps) (simp add: Let_def takeWhile_eq_all_conv [THEN iffD2] dropWhile_eq_Nil_conv [THEN iffD2])

lemma split_char_cons: "sep \<notin> set a \<Longrightarrow> split_char sep (a @ sep # s) = a # split_char sep s"
proof -
  assume "sep \<notin> set a"
  then have "takeWhile (\<lambda>c. c \<noteq> sep) (a @ sep # s) = a" "dropWhile (\<lambda>c. c \<noteq> sep) (a @ sep # s) = sep # s"
    by (induction a) auto
  then show ?thesis by (subst split_char.simps) (simp only: Let_def, simp)
qed

section \<open>Stable sorting by a key\<close>

text \<open>\<open>sorted(xs, key=f)[0]\<close> is the first element with the least key; without it the rest
  sorts to the tail.\<close>

lemma sort_key_remove_min:
  assumes us: "\<forall>u \<in> set us. f c < f u" and vs: "\<forall>v \<in> set vs. f c \<le> f v"
  shows "sort_key f (us @ c # vs) = c # sort_key f (us @ vs)"
proof (rule properties_for_sort_key)
  fix k
  have "filter (\<lambda>x. f k = f x) us = []" if "f k = f c"
    using us that by (auto simp: filter_empty_conv)
  moreover have "filter (\<lambda>x. f k = f x) (sort_key f (us @ vs)) = filter (\<lambda>x. f k = f x) (us @ vs)"
    using sort_key_stable [of f "f k" "us @ vs"] by (simp add: eq_commute)
  ultimately show "filter (\<lambda>x. f k = f x) (c # sort_key f (us @ vs)) = filter (\<lambda>x. f k = f x) (us @ c # vs)"
    by auto
qed (use us vs in \<open>auto simp: less_imp_le\<close>)

lemma sort_key_hd_split:
  assumes "sort_key f xs = c # rest"
  obtains us vs where "xs = us @ c # vs" "\<forall>u \<in> set us. f c < f u" "\<forall>v \<in> set vs. f c \<le> f v"
proof -
  have le: "\<forall>x \<in> set xs. f c \<le> f x"
  proof -
    have "sorted (map f (c # rest))" using assms by (metis sorted_sort_key)
    moreover have "set xs = set (c # rest)" using assms by (metis set_sort)
    ultimately show ?thesis by auto
  qed
  have "filter (\<lambda>y. f y = f c) xs = c # filter (\<lambda>y. f y = f c) rest"
    using sort_key_stable [of f "f c" xs] assms by simp
  then obtain us vs where "xs = us @ c # vs" "\<forall>u \<in> set us. f u \<noteq> f c"
    by (auto dest: filter_eq_ConsD)
  moreover from this le have "\<forall>u \<in> set us. f c < f u" "\<forall>v \<in> set vs. f c \<le> f v"
    by (auto simp: order_less_le)
  ultimately show thesis using that by blast
qed

section \<open>Draining a priority buffer\<close>

text \<open>Taking elements until the buffer is empty.\<close>

fun drain :: "('s \<Rightarrow> ('e \<times> 's) option) \<Rightarrow> nat \<Rightarrow> 's \<Rightarrow> 'e list" where
  "drain tk 0 s = []"
| "drain tk (Suc n) s = (case tk s of None \<Rightarrow> [] | Some (e, s') \<Rightarrow> e # drain tk n s')"

text \<open>A buffer that always gives out the first of its least elements.\<close>

locale priority_buffer =
  fixes good :: "'s \<Rightarrow> bool"
    and waiting :: "'s \<Rightarrow> 'e list"
    and key :: "'e \<Rightarrow> 'k :: linorder"
    and tk :: "'s \<Rightarrow> ('e \<times> 's) option"
  assumes take_none: "good s \<Longrightarrow> tk s = None \<longleftrightarrow> waiting s = []"
    and take_some: "good s \<Longrightarrow> tk s = Some (e, s') \<Longrightarrow>
      good s' \<and> (\<exists>us vs. waiting s = us @ e # vs \<and> waiting s' = us @ vs \<and>
        (\<forall>u \<in> set us. key e < key u) \<and> (\<forall>v \<in> set vs. key e \<le> key v))"
begin

lemma take_best: "good s \<Longrightarrow> tk s = Some (e, s') \<Longrightarrow> x \<in> set (waiting s) \<Longrightarrow> key e \<le> key x"
  using take_some [of s e s'] by (auto simp: less_imp_le)

lemma drain_sorts: "good s \<Longrightarrow> drain tk (length (waiting s)) s = sort_key key (waiting s)"
proof (induction "length (waiting s)" arbitrary: s)
  case 0
  then show ?case by simp
next
  case (Suc n)
  then obtain e s' where t: "tk s = Some (e, s')" using take_none by (cases "tk s") fastforce+
  from take_some [OF Suc.prems t] obtain us vs where g: "good s'"
    and w: "waiting s = us @ e # vs" "waiting s' = us @ vs"
    and k: "\<forall>u \<in> set us. key e < key u" "\<forall>v \<in> set vs. key e \<le> key v" by blast
  from Suc.hyps(2) w have n: "n = length (waiting s')" by simp
  have "drain tk (length (waiting s)) s = e # drain tk n s'"
    using Suc.hyps(2) [symmetric] t by simp
  also have "\<dots> = e # sort_key key (us @ vs)" using Suc.hyps(1) [OF n g] n w(2) by simp
  also have "\<dots> = sort_key key (waiting s)" using sort_key_remove_min [OF k] w(1) by simp
  finally show ?case .
qed

end

section \<open>Machines that only climb\<close>

text \<open>A machine whose every step raises a rank visits no state twice and stops.\<close>

locale ranked_machine =
  fixes step :: "'s \<Rightarrow> 's \<Rightarrow> bool"
    and rank :: "'s \<Rightarrow> nat"
  assumes climbs: "step s t \<Longrightarrow> rank s < rank t"
begin

lemma run_length: "successively step (s # run) \<Longrightarrow> rank s + length run \<le> rank (last (s # run))"
proof (induction run arbitrary: s)
  case (Cons t run)
  then have "rank t + length run \<le> rank (last (t # run))" "rank s < rank t" using climbs by simp_all
  then show ?case by simp
qed simp

lemma run_climbs: "successively step (s # run) \<Longrightarrow> t \<in> set run \<Longrightarrow> rank s < rank t"
proof (induction run arbitrary: s)
  case (Cons u run)
  then have "rank s < rank u" using climbs by simp
  then show ?case using Cons.IH [of u] Cons.prems by (cases "t = u") (auto intro: less_trans)
qed simp

lemma run_distinct: "successively step run \<Longrightarrow> distinct run"
proof (induction run)
  case (Cons s run)
  then have "s \<notin> set run" using run_climbs [of s run s] by blast
  then show ?case using Cons by (auto simp: successively_Cons)
qed simp

end

text \<open>\<open>str.isascii\<close>, which \<open>hmac.compare_digest\<close> asks of its texts.\<close>

definition plain_text :: "string \<Rightarrow> bool" where
  "plain_text = list_all (\<lambda>c. (of_char c :: nat) < 128)"

lemma plain_append [simp]: "plain_text (s @ t) \<longleftrightarrow> plain_text s \<and> plain_text t"
  by (simp add: plain_text_def)

end
