(* ===== verification/Json.thy ===== *)
theory Json
  imports Prelude
begin

text \<open>
  JSON values and the canonical text that every governance hash is computed over
  (\<open>runtime/governance/foundation/canonical.py\<close>, \<open>hashing.py\<close>, and the
  private \<open>_canonical_bytes\<close> of the ledgers): \<open>json.dumps\<close> with sorted keys and
  the compact separators, with and without \<open>ensure_ascii\<close>. The main result is that the
  canonical text determines the value up to the order of object keys, which is what makes a
  hash over it evidence for the value. A \<open>char\<close> stands for a code point below 256;
  floats do not occur in the payloads the modelled components hash.
\<close>

section \<open>Values\<close>

datatype json =
    JNull
  | JBool bool
  | JInt int
  | JStr string
  | JList "json list"
  | JObj "(string \<times> json) list"

type_synonym obj = "(string, json) dict"

fun truthy :: "json \<Rightarrow> bool" where
  "truthy JNull = False"
| "truthy (JBool b) = b"
| "truthy (JInt i) = (i \<noteq> 0)"
| "truthy (JStr s) = (s \<noteq> [])"
| "truthy (JList xs) = (xs \<noteq> [])"
| "truthy (JObj kvs) = (kvs \<noteq> [])"

text \<open>\<open>d.get(k) or dflt\<close>\<close>

definition get_or_truthy :: "obj \<Rightarrow> string \<Rightarrow> json \<Rightarrow> json" where
  "get_or_truthy d k dflt =
     (case dget d k of None \<Rightarrow> dflt | Some v \<Rightarrow> if truthy v then v else dflt)"

fun as_obj :: "json \<Rightarrow> obj res" where
  "as_obj (JObj kvs) = Inr kvs"
| "as_obj _ = Inl AttributeError"

fun as_str :: "json \<Rightarrow> string option" where
  "as_str (JStr s) = Some s"
| "as_str _ = None"

lemma as_obj_Inr [simp]: "as_obj v = Inr kvs \<longleftrightarrow> v = JObj kvs"
  by (cases v) auto

lemma as_str_Some [simp]: "as_str v = Some s \<longleftrightarrow> v = JStr s"
  by (cases v) auto

section \<open>Decimal integers\<close>

definition digit :: "nat \<Rightarrow> char" where
  "digit n = char_of (48 + n)"

fun nat_str :: "nat \<Rightarrow> string" where
  "nat_str n = (if n < 10 then [digit n] else nat_str (n div 10) @ [digit (n mod 10)])"

declare nat_str.simps [simp del]

definition int_str :: "int \<Rightarrow> string" where
  "int_str i = (if i < 0 then CHR ''-'' # nat_str (nat (- i)) else nat_str (nat i))"

definition is_digit :: "char \<Rightarrow> bool" where
  "is_digit c \<longleftrightarrow> 48 \<le> (of_char c :: nat) \<and> (of_char c :: nat) \<le> 57"

definition digit_val :: "char \<Rightarrow> nat" where
  "digit_val c = of_char c - 48"

definition nat_val :: "string \<Rightarrow> nat" where
  "nat_val s = foldl (\<lambda>n c. 10 * n + digit_val c) 0 s"

lemma of_char_digit: "n < 10 \<Longrightarrow> (of_char (digit n) :: nat) = 48 + n"
  by (simp add: digit_def)

lemma digit_val_digit [simp]: "n < 10 \<Longrightarrow> digit_val (digit n) = n"
  by (simp add: digit_val_def of_char_digit)

lemma is_digit_digit [simp]: "n < 10 \<Longrightarrow> is_digit (digit n)"
  by (simp add: is_digit_def of_char_digit)

lemma nat_str_digits: "\<forall>c \<in> set (nat_str n). is_digit c"
proof (induction n rule: nat_str.induct)
  case (1 n)
  then show ?case by (subst nat_str.simps) auto
qed

lemma nat_str_nonempty [simp]: "nat_str n \<noteq> []"
  by (subst nat_str.simps) simp

lemma nat_val_nat_str [simp]: "nat_val (nat_str n) = n"
proof (induction n rule: nat_str.induct)
  case (1 n)
  then show ?case by (subst nat_str.simps) (auto simp: nat_val_def)
qed

lemma nat_str_inj [simp]: "nat_str m = nat_str n \<longleftrightarrow> m = n"
  by (metis nat_val_nat_str)

section \<open>String escapes\<close>

definition hexdig :: "nat \<Rightarrow> char" where
  "hexdig n = (if n < 10 then char_of (48 + n) else char_of (87 + n))"

definition hexval :: "char \<Rightarrow> nat" where
  "hexval c = (if of_char c < (58::nat) then of_char c - 48 else of_char c - 87)"

lemma hexval_hexdig [simp]: "n < 16 \<Longrightarrow> hexval (hexdig n) = n"
  by (auto simp: hexval_def hexdig_def)

text \<open>
  \<open>json.dumps\<close> escapes the quote, the backslash and the control characters; with
  \<open>ensure_ascii\<close> also everything outside the printable ASCII range.
\<close>

definition esc :: "bool \<Rightarrow> char \<Rightarrow> string" where
  "esc ascii c =
     (if c = CHR 0x22 then [CHR 0x5C, CHR 0x22]
      else if c = CHR 0x5C then [CHR 0x5C, CHR 0x5C]
      else if c = CHR 0x0A then [CHR 0x5C, CHR ''n'']
      else if c = CHR 0x0D then [CHR 0x5C, CHR ''r'']
      else if c = CHR 0x09 then [CHR 0x5C, CHR ''t'']
      else if c = CHR 0x0C then [CHR 0x5C, CHR ''f'']
      else if c = CHR 0x08 then [CHR 0x5C, CHR ''b'']
      else if of_char c < (32::nat) \<or> (ascii \<and> (126::nat) < of_char c)
        then [CHR 0x5C, CHR ''u'', CHR ''0'', CHR ''0'',
              hexdig (of_char c div 16), hexdig (of_char c mod 16)]
      else [c])"

definition quote :: "bool \<Rightarrow> string \<Rightarrow> string" where
  "quote ascii s = CHR 0x22 # concat (map (esc ascii) s) @ [CHR 0x22]"

text \<open>One escape decoded: the left inverse that shows the escapes form a prefix code.\<close>

definition unesc :: "string \<Rightarrow> char \<times> string" where
  "unesc s =
     (if s \<noteq> [] \<and> hd s = CHR 0x5C then
        (let c = s ! 1 in
         if c = CHR ''n'' then (CHR 0x0A, drop 2 s)
         else if c = CHR ''r'' then (CHR 0x0D, drop 2 s)
         else if c = CHR ''t'' then (CHR 0x09, drop 2 s)
         else if c = CHR ''f'' then (CHR 0x0C, drop 2 s)
         else if c = CHR ''b'' then (CHR 0x08, drop 2 s)
         else if c = CHR ''u'' then (char_of (16 * hexval (s ! 4) + hexval (s ! 5)), drop 6 s)
         else (c, drop 2 s))
      else (hd s, tl s))"

lemma unesc_esc: "unesc (esc a c @ s) = (c, s)"
proof -
  have "char_of (16 * hexval (hexdig (of_char c div 16)) + hexval (hexdig (of_char c mod 16))) = c"
    by (simp add: less_mult_imp_div_less)
  then show ?thesis
    by (auto simp: esc_def unesc_def Let_def)
qed

lemma esc_prefix_code: "esc a c @ s = esc a d @ t \<Longrightarrow> c = d \<and> s = t"
  by (metis unesc_esc prod.inject)

lemma esc_not_quote: "esc a c \<noteq> [] \<and> hd (esc a c) \<noteq> CHR 0x22"
  by (auto simp: esc_def)

section \<open>Serialisation\<close>

definition join :: "string \<Rightarrow> string list \<Rightarrow> string" where
  "join sep xs = (case xs of [] \<Rightarrow> [] | y # ys \<Rightarrow> y @ concat (map (\<lambda>z. sep @ z) ys))"

text \<open>\<open>json.dumps(v, separators=(",", ":"), ensure_ascii=ascii)\<close>\<close>

fun dumps :: "bool \<Rightarrow> json \<Rightarrow> string" where
  "dumps a JNull = ''null''"
| "dumps a (JBool b) = (if b then ''true'' else ''false'')"
| "dumps a (JInt i) = int_str i"
| "dumps a (JStr s) = quote a s"
| "dumps a (JList xs) = ''['' @ join '','' (map (dumps a) xs) @ '']''"
| "dumps a (JObj kvs) =
     ''{'' @ join '','' (map (\<lambda>(k, v). quote a k @ '':'' @ dumps a v) kvs) @ ''}''"

text \<open>\<open>sort_keys=True\<close>: every object, at every depth, in the order of its keys.\<close>

fun norm :: "json \<Rightarrow> json" where
  "norm (JList xs) = JList (map norm xs)"
| "norm (JObj kvs) = JObj (sort_key fst (map (\<lambda>(k, v). (k, norm v)) kvs))"
| "norm v = v"

definition canonical :: "bool \<Rightarrow> json \<Rightarrow> string" where
  "canonical ascii v = dumps ascii (norm v)"

section \<open>The serialised text determines the value\<close>

text \<open>What may follow a value inside a list or an object, or at the end of the text.\<close>

definition closing :: "string \<Rightarrow> bool" where
  "closing r \<longleftrightarrow> r = [] \<or> hd r \<in> {CHR '','', CHR '']'', CHR ''}''}"

lemma digits_prefix:
  assumes "ds @ r = es @ s" "\<forall>c \<in> set ds. is_digit c" "\<forall>c \<in> set es. is_digit c"
    and "closing r" "closing s"
  shows "ds = es \<and> r = s"
proof -
  have nd: "takeWhile is_digit t = []" if "closing t" for t
    using that by (cases t) (auto simp: closing_def is_digit_def)
  have "takeWhile is_digit (ds @ r) = ds"
    using assms(2) nd [OF assms(4)] by (simp add: takeWhile_append2)
  moreover have "takeWhile is_digit (es @ s) = es"
    using assms(3) nd [OF assms(5)] by (simp add: takeWhile_append2)
  ultimately have "ds = es" using assms(1) by metis
  with assms(1) show ?thesis by simp
qed

lemma int_str_prefix:
  assumes "int_str i @ r = int_str j @ s" "closing r" "closing s"
  shows "i = j \<and> r = s"
proof -
  have m: "nat_str n @ u \<noteq> CHR ''-'' # v" for n u v
  proof -
    obtain c cs where c: "nat_str n = c # cs" by (metis nat_str_nonempty neq_Nil_conv)
    then have "is_digit c" using nat_str_digits [of n] by simp
    then have "c \<noteq> CHR ''-''" by (auto simp: is_digit_def)
    with c show ?thesis by simp
  qed
  show ?thesis
  proof (cases "(i < 0) = (j < 0)")
    case True
    then have "nat_str (nat \<bar>i\<bar>) @ r = nat_str (nat \<bar>j\<bar>) @ s"
      using assms(1) by (auto simp: int_str_def split: if_splits)
    from digits_prefix [OF this nat_str_digits nat_str_digits assms(2,3)]
    have "nat_str (nat \<bar>i\<bar>) = nat_str (nat \<bar>j\<bar>)" and rs: "r = s" by blast+
    then have "\<bar>i\<bar> = \<bar>j\<bar>" by simp
    with True rs show ?thesis by arith
  next
    case False
    then show ?thesis
    proof (cases "i < 0")
      case True
      with False assms(1) have "nat_str (nat j) @ s = CHR ''-'' # nat_str (nat (- i)) @ r"
        by (simp add: int_str_def)
      with m show ?thesis by blast
    next
      case False
      with \<open>(i < 0) \<noteq> (j < 0)\<close> assms(1)
      have "nat_str (nat i) @ r = CHR ''-'' # nat_str (nat (- j)) @ s"
        by (simp add: int_str_def)
      with m show ?thesis by blast
    qed
  qed
qed

lemma quote_body_prefix:
  "concat (map (esc a) s) @ CHR 0x22 # r = concat (map (esc a) t) @ CHR 0x22 # q \<Longrightarrow> s = t \<and> r = q"
proof (induction s arbitrary: t)
  case Nil
  show ?case
  proof (cases t)
    case Nil
    with Nil.prems show ?thesis by simp
  next
    case (Cons d t')
    with Nil.prems esc_not_quote [of a d] show ?thesis by (cases "esc a d") auto
  qed
next
  case (Cons c s)
  show ?case
  proof (cases t)
    case Nil
    then show ?thesis using Cons.prems esc_not_quote [of a c] by (cases "esc a c") auto
  next
    case (Cons d t')
    with Cons.prems
    have "esc a c @ concat (map (esc a) s) @ CHR 0x22 # r =
        esc a d @ concat (map (esc a) t') @ CHR 0x22 # q"
      by simp
    from esc_prefix_code [OF this] Cons.IH [of t'] Cons show ?thesis by simp
  qed
qed

lemma quote_prefix: "quote a s @ r = quote a t @ q \<Longrightarrow> s = t \<and> r = q"
  using quote_body_prefix [of a s r t q] by (simp add: quote_def)

text \<open>
  Lists and objects: elements separated by commas and closed by a bracket are determined
  by the text when every element is (\<open>elem_code\<close>), whatever may follow.
\<close>

definition elem_code :: "('a \<Rightarrow> string) \<Rightarrow> 'a \<Rightarrow> bool" where
  "elem_code f x \<longleftrightarrow>
     (\<forall>y r s. f x @ r = f y @ s \<longrightarrow> closing r \<longrightarrow> closing s \<longrightarrow> x = y \<and> r = s)"

lemma elem_codeD:
  "elem_code f x \<Longrightarrow> f x @ r = f y @ s \<Longrightarrow> closing r \<Longrightarrow> closing s \<Longrightarrow> x = y \<and> r = s"
  by (simp add: elem_code_def)

lemma closing_tail:
  "cl \<in> {CHR '']'', CHR ''}''} \<Longrightarrow> closing (concat (map (\<lambda>z. '','' @ f z) xs) @ cl # r)"
  by (cases xs) (auto simp: closing_def)

lemma sep_tail_inj:
  assumes cl: "cl \<in> {CHR '']'', CHR ''}''}" and "\<forall>x \<in> set xs. elem_code f x"
    and "concat (map (\<lambda>z. '','' @ f z) xs) @ cl # r = concat (map (\<lambda>z. '','' @ f z) ys) @ cl # s"
  shows "xs = ys \<and> r = s"
  using assms(2,3)
proof (induction xs arbitrary: ys)
  case Nil
  then show ?case using cl by (cases ys) auto
next
  case (Cons x xs)
  from Cons.prems(2) cl obtain y ys' where ys: "ys = y # ys'" by (cases ys) auto
  with Cons.prems(2)
  have eq: "f x @ concat (map (\<lambda>z. '','' @ f z) xs) @ cl # r =
      f y @ concat (map (\<lambda>z. '','' @ f z) ys') @ cl # s"
    by simp
  have "elem_code f x" using Cons.prems(1) by simp
  from elem_codeD [OF this eq closing_tail [OF cl] closing_tail [OF cl]]
  show ?case using Cons.IH [of ys'] Cons.prems(1) ys by simp
qed

lemma join_inj:
  assumes cl: "cl \<in> {CHR '']'', CHR ''}''}" and code: "\<forall>x \<in> set xs. elem_code f x"
    and start: "\<And>x. f x \<noteq> [] \<and> hd (f x) \<noteq> cl"
    and eq: "join '','' (map f xs) @ cl # r = join '','' (map f ys) @ cl # s"
  shows "xs = ys \<and> r = s"
proof (cases xs)
  case Nil
  show ?thesis
  proof (cases ys)
    case Nil
    with eq \<open>xs = []\<close> show ?thesis by (simp add: join_def)
  next
    case (Cons y ys')
    with eq \<open>xs = []\<close> start [of y] show ?thesis by (cases "f y") (auto simp: join_def)
  qed
next
  case (Cons x xs')
  show ?thesis
  proof (cases ys)
    case Nil
    with eq Cons start [of x] show ?thesis by (cases "f x") (auto simp: join_def)
  next
    case (Cons y ys')
    with \<open>xs = x # xs'\<close> eq
    have eq': "f x @ concat (map (\<lambda>z. '','' @ f z) xs') @ cl # r =
        f y @ concat (map (\<lambda>z. '','' @ f z) ys') @ cl # s"
      by (simp add: join_def comp_def)
    have "elem_code f x" using code \<open>xs = x # xs'\<close> by simp
    from elem_codeD [OF this eq' closing_tail [OF cl] closing_tail [OF cl]]
    show ?thesis using sep_tail_inj [OF cl, of xs' f r ys' s] code Cons \<open>xs = x # xs'\<close> by simp
  qed
qed

text \<open>The first character tells the constructor.\<close>

fun kind :: "json \<Rightarrow> char \<Rightarrow> bool" where
  "kind JNull c = (c = CHR ''n'')"
| "kind (JBool b) c = (c = (if b then CHR ''t'' else CHR ''f''))"
| "kind (JInt i) c = (is_digit c \<or> c = CHR ''-'')"
| "kind (JStr s) c = (c = CHR 0x22)"
| "kind (JList xs) c = (c = CHR ''['')"
| "kind (JObj kvs) c = (c = CHR ''{'')"

lemma dumps_start: "\<exists>c cs. dumps a v = c # cs \<and> kind v c"
proof (cases v)
  case (JInt i)
  have "\<exists>c cs. nat_str n = c # cs \<and> is_digit c" for n
    using nat_str_digits [of n] nat_str_nonempty [of n] by (cases "nat_str n") auto
  with JInt show ?thesis by (auto simp: int_str_def) blast+
qed (auto simp: quote_def)

fun same_ctor :: "json \<Rightarrow> json \<Rightarrow> bool" where
  "same_ctor JNull w = (w = JNull)"
| "same_ctor (JBool b) w = (w = JBool b)"
| "same_ctor (JInt i) w = (\<exists>j. w = JInt j)"
| "same_ctor (JStr s) w = (\<exists>t. w = JStr t)"
| "same_ctor (JList xs) w = (\<exists>ys. w = JList ys)"
| "same_ctor (JObj ps) w = (\<exists>qs. w = JObj qs)"

lemma is_digit_letter [simp]:
  "\<not> is_digit (CHR ''n'')" "\<not> is_digit (CHR ''t'')" "\<not> is_digit (CHR ''f'')"
  "\<not> is_digit (CHR 0x22)" "\<not> is_digit (CHR ''['')" "\<not> is_digit (CHR ''{'')" "\<not> is_digit (CHR '']'')"
  by (simp_all add: is_digit_def)

lemma kind_same_ctor: "kind v c \<Longrightarrow> kind w c \<Longrightarrow> same_ctor v w"
  by (cases v; cases w; simp split: if_splits)

lemma kind_cases:
  assumes "kind v c" "kind w c"
  obtains "v = w" | i j where "v = JInt i" "w = JInt j" | s t where "v = JStr s" "w = JStr t"
    | xs ys where "v = JList xs" "w = JList ys" | ps qs where "v = JObj ps" "w = JObj qs"
proof -
  have "same_ctor v w" using assms by (rule kind_same_ctor)
  then show thesis using that by (cases v) auto
qed

lemma dumps_start_not_closing: "dumps a v \<noteq> [] \<and> hd (dumps a v) \<noteq> CHR '']''"
proof -
  obtain c cs where c: "dumps a v = c # cs" "kind v c" using dumps_start by blast
  have "c \<noteq> CHR '']''" using c(2) by (cases v) (auto split: if_splits)
  with c(1) show ?thesis by simp
qed

lemma dumps_same_kind: "dumps a v @ r = dumps a w @ s \<Longrightarrow> \<exists>c. kind v c \<and> kind w c"
  using dumps_start [of a v] dumps_start [of a w] by auto

lemma elem_codeI:
  assumes "\<And>w r s c. dumps a v @ r = dumps a w @ s \<Longrightarrow> closing r \<Longrightarrow> closing s \<Longrightarrow>
    kind v c \<Longrightarrow> kind w c \<Longrightarrow> v = w \<and> r = s"
  shows "elem_code (dumps a) v"
  unfolding elem_code_def
proof (intro allI impI)
  fix w r s
  assume *: "dumps a v @ r = dumps a w @ s" "closing r" "closing s"
  from dumps_same_kind [OF *(1)] obtain c where "kind v c" "kind w c" by blast
  with * show "v = w \<and> r = s" by (rule assms)
qed

definition dump_pair :: "bool \<Rightarrow> string \<times> json \<Rightarrow> string" where
  "dump_pair a p = quote a (fst p) @ '':'' @ dumps a (snd p)"

lemma dumps_JObj: "dumps a (JObj kvs) = ''{'' @ join '','' (map (dump_pair a) kvs) @ ''}''"
  by (simp add: dump_pair_def [abs_def] case_prod_unfold)

lemma dump_pair_code: "elem_code (dumps a) (snd p) \<Longrightarrow> elem_code (dump_pair a) p"
  unfolding elem_code_def dump_pair_def
  by (auto dest!: quote_prefix intro: prod_eqI)

lemma dump_pair_start: "dump_pair a p \<noteq> [] \<and> hd (dump_pair a p) \<noteq> CHR ''}''"
  by (simp add: dump_pair_def quote_def)

lemma elem_code_JList:
  assumes "\<And>ys r s. dumps a (JList xs) @ r = dumps a (JList ys) @ s \<Longrightarrow> xs = ys \<and> r = s"
  shows "elem_code (dumps a) (JList xs)"
proof (rule elem_codeI)
  fix w r s c
  assume eq: "dumps a (JList xs) @ r = dumps a w @ s" and "kind (JList xs) c" "kind w c"
  then obtain ys where w: "w = JList ys" using kind_same_ctor [of "JList xs" c w] by auto
  from assms [OF eq [unfolded w]] w show "JList xs = w \<and> r = s" by simp
qed

lemma elem_code_JObj:
  assumes "\<And>qs r s. dumps a (JObj ps) @ r = dumps a (JObj qs) @ s \<Longrightarrow> ps = qs \<and> r = s"
  shows "elem_code (dumps a) (JObj ps)"
proof (rule elem_codeI)
  fix w r s c
  assume eq: "dumps a (JObj ps) @ r = dumps a w @ s" and "kind (JObj ps) c" "kind w c"
  then obtain qs where w: "w = JObj qs" using kind_same_ctor [of "JObj ps" c w] by auto
  from assms [OF eq [unfolded w]] w show "JObj ps = w \<and> r = s" by simp
qed

lemma dumps_code: "elem_code (dumps a) v"
proof (induction v)
  case (JInt i)
  show ?case
    by (rule elem_codeI, erule (1) kind_cases) (auto dest!: int_str_prefix)
next
  case (JStr s)
  show ?case
    by (rule elem_codeI, erule (1) kind_cases) (auto dest!: quote_prefix)
next
  case (JList xs)
  have "xs = ys \<and> r = s" if "dumps a (JList xs) @ r = dumps a (JList ys) @ s" for ys r s
    using that JList dumps_start_not_closing
    by (intro join_inj [where f = "dumps a" and cl = "CHR '']''"]) simp_all
  then show ?case by (rule elem_code_JList)
next
  case (JObj kvs)
  have code: "\<forall>p \<in> set kvs. elem_code (dump_pair a) p"
    using JObj by (auto intro!: dump_pair_code simp: snds.simps)
  have "kvs = qs \<and> r = s" if "dumps a (JObj kvs) @ r = dumps a (JObj qs) @ s" for qs r s
    using that code dump_pair_start unfolding dumps_JObj
    by (intro join_inj [where f = "dump_pair a" and cl = "CHR ''}''"]) simp_all
  then show ?case by (rule elem_code_JObj)
qed (rule elem_codeI, erule (1) kind_cases; simp)+

theorem dumps_inj: "dumps a v = dumps a w \<Longrightarrow> v = w"
  using elem_codeD [OF dumps_code, of a v "[]" w "[]"] by (simp add: closing_def)

theorem canonical_determines: "canonical a v = canonical a w \<longleftrightarrow> norm v = norm w"
  by (auto simp: canonical_def dest: dumps_inj)

section \<open>Conversions: int(), list(), str()\<close>

text \<open>
  \<open>int(text)\<close>: surrounding blanks, an optional sign, decimal digits with single
  underscores between them.
\<close>

fun digits_ok :: "string \<Rightarrow> bool" where
  "digits_ok [] = False"
| "digits_ok [c] = is_digit c"
| "digits_ok (c # d # cs) =
     (is_digit c \<and> (if d = CHR ''_'' then digits_ok cs else digits_ok (d # cs)))"

definition parse_nat :: "string \<Rightarrow> nat option" where
  "parse_nat s = (if digits_ok s then Some (nat_val (filter is_digit s)) else None)"

definition parse_int :: "string \<Rightarrow> int option" where
  "parse_int s =
     (case py_strip s of
        [] \<Rightarrow> None
      | c # cs \<Rightarrow>
          if c = CHR ''-'' then map_option (\<lambda>n. - int n) (parse_nat cs)
          else if c = CHR ''+'' then map_option int (parse_nat cs)
          else map_option int (parse_nat (c # cs)))"

fun py_int :: "json \<Rightarrow> int res" where
  "py_int (JInt i) = Inr i"
| "py_int (JBool b) = Inr (if b then 1 else 0)"
| "py_int (JStr s) = (case parse_int s of Some i \<Rightarrow> Inr i | None \<Rightarrow> Inl (ValueError ''int''))"
| "py_int _ = Inl TypeError"

text \<open>\<open>list(value)\<close>: the characters of a string, the keys of a dictionary.\<close>

fun py_list :: "json \<Rightarrow> json list res" where
  "py_list (JList xs) = Inr xs"
| "py_list (JStr s) = Inr (map (\<lambda>c. JStr [c]) s)"
| "py_list (JObj kvs) = Inr (map (\<lambda>p. JStr (fst p)) kvs)"
| "py_list _ = Inl TypeError"

text \<open>\<open>repr(value)\<close> and \<open>str(value)\<close>\<close>

definition repr_char :: "char \<Rightarrow> char \<Rightarrow> string" where
  "repr_char q c =
     (let n = (of_char c :: nat)
      in if c = q \<or> c = CHR 0x5C then [CHR 0x5C, c]
         else if n = 10 then [CHR 0x5C, CHR ''n'']
         else if n = 13 then [CHR 0x5C, CHR ''r'']
         else if n = 9 then [CHR 0x5C, CHR ''t'']
         else if n < 32 \<or> (127 \<le> n \<and> n \<le> 160) \<or> n = 173
           then [CHR 0x5C, CHR ''x'', hexdig (n div 16), hexdig (n mod 16)]
         else [c])"

definition repr_str :: "string \<Rightarrow> string" where
  "repr_str s =
     (let q = (if CHR 0x27 \<in> set s \<and> CHR 0x22 \<notin> set s then CHR 0x22 else CHR 0x27)
      in q # concat (map (repr_char q) s) @ [q])"

fun py_repr :: "json \<Rightarrow> string" where
  "py_repr JNull = ''None''"
| "py_repr (JBool b) = (if b then ''True'' else ''False'')"
| "py_repr (JInt i) = int_str i"
| "py_repr (JStr s) = repr_str s"
| "py_repr (JList xs) = ''['' @ join '', '' (map py_repr xs) @ '']''"
| "py_repr (JObj kvs) =
     ''{'' @ join '', '' (map (\<lambda>(k, v). repr_str k @ '': '' @ py_repr v) kvs) @ ''}''"

fun py_str :: "json \<Rightarrow> string" where
  "py_str (JStr s) = s"
| "py_str v = py_repr v"

text \<open>An f-string hole holding an integer.\<close>

lemma digits_ok_nat_str: "digits_ok (nat_str n)"
proof -
  have "digits_ok s" if "s \<noteq> []" "\<forall>c \<in> set s. is_digit c" for s
    using that by (induction s rule: digits_ok.induct) (auto simp: is_digit_def)
  then show ?thesis using nat_str_digits by simp
qed

section \<open>Lines of a JSONL file\<close>

text \<open>
  A non-blank line of a JSONL file is what \<open>json.loads\<close> makes of it: a value, or text
  it rejects. A file that does not exist is \<open>None\<close>. Blank lines, which every reader
  skips, are left out.
\<close>

datatype line = Row json | Garbled

type_synonym jsonl = "line list option"

fun loads :: "line \<Rightarrow> json res" where
  "loads (Row v) = Inr v"
| "loads Garbled = Inl JSONDecodeError"

fun file_lines :: "jsonl \<Rightarrow> line list" where
  "file_lines None = []"
| "file_lines (Some ls) = ls"

definition append_line :: "json \<Rightarrow> jsonl \<Rightarrow> jsonl" where
  "append_line v f = Some (file_lines f @ [Row v])"

text \<open>Readers that skip what they cannot parse.\<close>

definition parsed :: "line list \<Rightarrow> json list" where
  "parsed ls = concat (map (\<lambda>l. case l of Row v \<Rightarrow> [v] | Garbled \<Rightarrow> []) ls)"

lemma parsed_append [simp]: "parsed (xs @ ys) = parsed xs @ parsed ys"
  by (simp add: parsed_def)

lemma parsed_simps [simp]:
  "parsed [] = []" "parsed (Row v # ls) = v # parsed ls" "parsed (Garbled # ls) = parsed ls"
  by (simp_all add: parsed_def)

lemma file_lines_append [simp]: "file_lines (append_line v f) = file_lines f @ [Row v]"
  by (simp add: append_line_def)

lemma emap_loads_Row [simp]: "emap loads (map Row vs) = Inr vs"
  by (induction vs) auto

lemma emap_loads_Inr [simp]: "emap loads ls = Inr vs \<longleftrightarrow> ls = map Row vs"
proof (induction ls arbitrary: vs)
  case Nil
  then show ?case by auto
next
  case (Cons l ls)
  then show ?case by (cases l) (auto simp: Cons_eq_map_conv)
qed

text \<open>What an append can do: succeed, fail before the line reaches the file, or fail after
  it did (the write went through, \<open>flush\<close> or \<open>fsync\<close> raised).\<close>

datatype io = IoOk | IoLost | IoWritten

fun io_append :: "io \<Rightarrow> json \<Rightarrow> jsonl \<Rightarrow> jsonl" where
  "io_append IoLost v f = f"
| "io_append IoOk v f = append_line v f"
| "io_append IoWritten v f = append_line v f"

end
