(* ===== verification/HashChain.thy ===== *)
theory HashChain
  imports Json
begin

text \<open>
  Hash chains: the shape that every governance ledger of the runtime shares. A row stores
  the hash of the row before it and a hash of its own canonical content; verification
  recomputes both. The locale states what a ledger has to provide (its material determines
  its content, its content includes the back link) and proves once what chaining gives:
  two chains that verify and end in the same hash have the same contents, or exhibit two
  different texts with the same SHA-256 digest. The collision is given by the rows
  themselves, so the disjunct is a concrete event and not the (true) fact that collisions
  exist.
\<close>

section \<open>Digests\<close>

text \<open>
  \<open>sha\<close> stands for \<open>hashlib.sha256(text.encode()).hexdigest()\<close>; the prefixed form is
  \<open>sha256_prefixed_digest\<close>.
\<close>

definition sha256_prefixed :: "(string \<Rightarrow> string) \<Rightarrow> string \<Rightarrow> string" where
  "sha256_prefixed sha text = ''sha256:'' @ sha text"

definition ZERO_HASH :: string where
  "ZERO_HASH = ''sha256:'' @ replicate 64 (CHR ''0'')"

lemma sha256_prefixed_eq [simp]: "sha256_prefixed sha x = sha256_prefixed sha y \<longleftrightarrow> sha x = sha y"
  by (simp add: sha256_prefixed_def)

section \<open>Chains\<close>

text \<open>Following the links of a row list from a given previous hash.\<close>

fun chain_linked ::
  "('r \<Rightarrow> string option) \<Rightarrow> ('r \<Rightarrow> string option) \<Rightarrow> ('r \<Rightarrow> string) \<Rightarrow> string \<Rightarrow> 'r list \<Rightarrow> bool"
where
  "chain_linked prev own dig p [] = True"
| "chain_linked prev own dig p (r # rs) =
     (prev r = Some p \<and> own r = Some (dig r) \<and> chain_linked prev own dig (dig r) rs)"

text \<open>The hash the next row has to link to.\<close>

fun chain_head :: "('r \<Rightarrow> string) \<Rightarrow> string \<Rightarrow> 'r list \<Rightarrow> string" where
  "chain_head dig p [] = p"
| "chain_head dig p (r # rs) = chain_head dig (dig r) rs"

text \<open>Two aligned rows with different material and the same digest.\<close>

definition collides :: "(string \<Rightarrow> string) \<Rightarrow> string \<Rightarrow> string \<Rightarrow> bool" where
  "collides sha x y \<longleftrightarrow> x \<noteq> y \<and> sha x = sha y"

definition chain_collision ::
  "(string \<Rightarrow> string) \<Rightarrow> ('r \<Rightarrow> string) \<Rightarrow> 'r list \<Rightarrow> 'r list \<Rightarrow> bool"
where
  "chain_collision sha mat rs ss = list_ex (\<lambda>(r, s). collides sha (mat r) (mat s)) (zip rs ss)"

lemma chain_linked_append [simp]:
  "chain_linked prev own dig p (rs @ ss) \<longleftrightarrow>
     chain_linked prev own dig p rs \<and> chain_linked prev own dig (chain_head dig p rs) ss"
  by (induction rs arbitrary: p) auto

lemma chain_head_append [simp]:
  "chain_head dig p (rs @ ss) = chain_head dig (chain_head dig p rs) ss"
  by (induction rs arbitrary: p) auto

lemma chain_collision_Cons [simp]:
  "chain_collision sha mat (r # rs) (s # ss) \<longleftrightarrow>
     collides sha (mat r) (mat s) \<or> chain_collision sha mat rs ss"
  by (simp add: chain_collision_def)

lemma chain_collision_snoc [simp]:
  "length rs = length ss \<Longrightarrow> chain_collision sha mat (rs @ [r]) (ss @ [s]) \<longleftrightarrow>
     chain_collision sha mat rs ss \<or> collides sha (mat r) (mat s)"
  by (simp add: chain_collision_def)

lemma chain_head_own:
  "chain_linked prev own dig p rs \<Longrightarrow> rs \<noteq> [] \<Longrightarrow> own (last rs) = Some (chain_head dig p rs)"
  by (induction rs arbitrary: p) auto

locale hash_chain =
  fixes sha :: "string \<Rightarrow> string"
    and material :: "'r \<Rightarrow> string"
    and seal :: "string \<Rightarrow> string"
    and prev :: "'r \<Rightarrow> string option"
    and own :: "'r \<Rightarrow> string option"
    and content :: "'r \<Rightarrow> 'c"
  assumes seal_inj: "seal x = seal y \<Longrightarrow> x = y"
    and material_content: "material r = material s \<Longrightarrow> content r = content s"
    and content_prev: "content r = content s \<Longrightarrow> prev r = prev s"
begin

lemma digest_content:
  assumes "seal (sha (material r)) = seal (sha (material s))"
  shows "content r = content s \<or> collides sha (material r) (material s)"
  using seal_inj [OF assms] material_content [of r s] by (auto simp: collides_def)

text \<open>Equal heads and equal lengths force equal contents, back to front.\<close>

lemma contents_eq:
  assumes "length rs = length ss"
    and "chain_linked prev own (\<lambda>r. seal (sha (material r))) p rs"
    and "chain_linked prev own (\<lambda>r. seal (sha (material r))) p ss"
    and "chain_head (\<lambda>r. seal (sha (material r))) p rs = chain_head (\<lambda>r. seal (sha (material r))) p ss"
  shows "map content rs = map content ss \<or> chain_collision sha material rs ss"
  using assms
proof (induction rs arbitrary: ss rule: rev_induct)
  case Nil
  then show ?case by simp
next
  case (snoc r rs)
  from snoc.prems(1) obtain s ss' where ss: "ss = ss' @ [s]" and len: "length rs = length ss'"
    by (cases ss rule: rev_cases) auto
  have eq: "seal (sha (material r)) = seal (sha (material s))"
    using snoc.prems(4) ss by simp
  show ?case
  proof (cases "collides sha (material r) (material s)")
    case True
    with ss len show ?thesis by simp
  next
    case False
    with digest_content [OF eq] have c: "content r = content s" by blast
    have heads: "chain_head (\<lambda>r. seal (sha (material r))) p rs = chain_head (\<lambda>r. seal (sha (material r))) p ss'"
      using snoc.prems(2,3) ss content_prev [OF c] by simp
    have "chain_linked prev own (\<lambda>r. seal (sha (material r))) p rs"
      "chain_linked prev own (\<lambda>r. seal (sha (material r))) p ss'"
      using snoc.prems(2,3) ss by simp_all
    from snoc.IH [OF len this heads] ss c len show ?thesis by auto
  qed
qed

text \<open>Consequence for a tampered row: if one content differs, some hash differs at the end
  or a collision was found.\<close>

lemma tampering_shows:
  assumes "length rs = length ss"
    and "chain_linked prev own (\<lambda>r. seal (sha (material r))) p rs"
    and "chain_linked prev own (\<lambda>r. seal (sha (material r))) p ss"
    and "i < length rs" "content (rs ! i) \<noteq> content (ss ! i)"
    and "\<not> chain_collision sha material rs ss"
  shows "chain_head (\<lambda>r. seal (sha (material r))) p rs \<noteq> chain_head (\<lambda>r. seal (sha (material r))) p ss"
proof
  assume "chain_head (\<lambda>r. seal (sha (material r))) p rs = chain_head (\<lambda>r. seal (sha (material r))) p ss"
  from contents_eq [OF assms(1-3) this] assms(6) have eq: "map content rs = map content ss" by blast
  have "content (rs ! i) = map content rs ! i" using assms(4) by simp
  also have "\<dots> = content (ss ! i)" using assms(1,4) eq by simp
  finally show False using assms(5) by blast
qed

end

section \<open>Rows that are JSON objects with a list of covered fields\<close>

text \<open>\<open>{k: rec[k] for k in fields if k in rec}\<close>\<close>

definition covered :: "string list \<Rightarrow> obj \<Rightarrow> obj" where
  "covered fs rec = concat (map (\<lambda>k. case dget rec k of None \<Rightarrow> [] | Some v \<Rightarrow> [(k, v)]) fs)"

text \<open>\<open>_canonical_bytes\<close>: default \<open>ensure_ascii\<close>, sorted keys, compact separators.\<close>

definition canonical_bytes :: "obj \<Rightarrow> string" where
  "canonical_bytes o' = canonical True (JObj o')"

text \<open>A string field, as the comparisons of the verifiers see it.\<close>

definition str_field :: "string \<Rightarrow> obj \<Rightarrow> string option" where
  "str_field k rec = Option.bind (dget rec k) as_str"

text \<open>What the hash of a row covers: its covered fields up to key order.\<close>

definition covered_content :: "string list \<Rightarrow> obj \<Rightarrow> string \<Rightarrow> json option" where
  "covered_content fs rec = (\<lambda>k. if k \<in> set fs then map_option norm (dget rec k) else None)"

lemma dget_covered: "dget (covered fs rec) k = (if k \<in> set fs then dget rec k else None)"
proof (induction fs)
  case Nil
  then show ?case by (simp add: covered_def)
next
  case (Cons f fs)
  have "covered (f # fs) rec = (case dget rec f of None \<Rightarrow> [] | Some v \<Rightarrow> [(f, v)]) @ covered fs rec"
    by (simp add: covered_def)
  with Cons.IH show ?case by (auto split: option.splits)
qed

lemma keys_covered: "distinct fs \<Longrightarrow> distinct (map fst (covered fs rec)) \<and> set (map fst (covered fs rec)) \<subseteq> set fs"
proof (induction fs)
  case Nil
  then show ?case by (simp add: covered_def)
next
  case (Cons f fs)
  have "covered (f # fs) rec = (case dget rec f of None \<Rightarrow> [] | Some v \<Rightarrow> [(f, v)]) @ covered fs rec"
    by (simp add: covered_def)
  with Cons show ?case by (auto split: option.splits)
qed

lemma dget_norm_obj:
  assumes "distinct (map fst kvs)" "norm (JObj kvs) = JObj kvs'"
  shows "dget kvs' k = map_option norm (dget kvs k)"
proof -
  let ?m = "map (\<lambda>(k, v). (k, norm v)) kvs"
  have "mset kvs' = mset ?m" using assms(2) by auto
  moreover have "distinct (map fst ?m)" using assms(1) by (simp add: comp_def case_prod_unfold)
  ultimately have "map_of kvs' = map_of ?m"
    by (metis map_of_inject_set mset_eq_imp_distinct_iff mset_map set_mset_mset)
  then show ?thesis by (simp add: map_of_map)
qed

lemma canonical_covered:
  assumes "distinct fs" "canonical_bytes (covered fs r) = canonical_bytes (covered fs s)"
  shows "covered_content fs r = covered_content fs s"
proof -
  have eq: "norm (JObj (covered fs r)) = norm (JObj (covered fs s))"
    using assms(2) by (simp add: canonical_bytes_def canonical_determines)
  have same: "map_option norm (dget (covered fs r) k) = map_option norm (dget (covered fs s) k)" for k
    using dget_norm_obj keys_covered [OF assms(1)] eq by (metis norm.simps(2))
  show ?thesis
  proof
    fix k
    show "covered_content fs r k = covered_content fs s k"
      using same [of k] by (simp add: covered_content_def dget_covered split: if_splits)
  qed
qed

lemma norm_JStr [simp]: "norm v = JStr s \<longleftrightarrow> v = JStr s"
  by (cases v) auto

lemma covered_content_str_field:
  assumes "k \<in> set fs" "covered_content fs r = covered_content fs s"
  shows "str_field k r = str_field k s"
proof -
  have "map_option norm (dget r k) = map_option norm (dget s k)"
    using fun_cong [OF assms(2), of k] assms(1) by (simp add: covered_content_def)
  moreover have "(\<exists>t. norm v = JStr t) \<longleftrightarrow> (\<exists>t. v = JStr t)" for v by auto
  ultimately show ?thesis
    by (cases "dget r k"; cases "dget s k")
      (auto simp: str_field_def, (metis as_str.simps norm_JStr as_str_Some not_None_eq)+)
qed

end
