(* ===== verification/RowLedger.thy ===== *)
theory RowLedger
  imports HashChain
begin

text \<open>
  The ledger object that \<open>gate_decision_ledger.py\<close> and \<open>certifier_scan_ledger.py\<close>
  both contain: a JSONL file, a sequence counter and the hash to link to; opening an existing
  file, appending a record, verifying the chain. The record builder and the covered fields
  are what differs, so they are the parameters of the operations and of the locale
  \<open>row_ledger\<close> that collects the laws a builder has to satisfy.
\<close>

section \<open>Verification\<close>

definition row_digest :: "(string \<Rightarrow> string) \<Rightarrow> string list \<Rightarrow> obj \<Rightarrow> string" where
  "row_digest sha fs rec = sha256_prefixed sha (canonical_bytes (covered fs rec))"

text \<open>
  \<open>_verify_chain_records\<close>: the flag, the sequence number of the first bad row and the
  message, or the exception that a malformed row raises.
\<close>

fun verify_rows ::
  "(string \<Rightarrow> string) \<Rightarrow> string list \<Rightarrow> string \<Rightarrow> json list \<Rightarrow> (bool \<times> int \<times> string) res"
where
  "verify_rows sha fs prev_hash [] = Inr (True, -1, [])"
| "verify_rows sha fs prev_hash (row # rows) =
     ebind (as_obj row) (\<lambda>rec.
     ebind (py_int (dget_or rec ''sequence'' (JInt (-1)))) (\<lambda>seq.
       if dget_or rec ''prev_hash'' JNull \<noteq> JStr prev_hash then
         Inr (False, seq, ''prev_hash mismatch at seq '' @ int_str seq)
       else
         (let expected = row_digest sha fs rec in
          if dget_or rec ''record_hash'' JNull \<noteq> JStr expected then
            Inr (False, seq, ''record_hash mismatch at seq '' @ int_str seq)
          else verify_rows sha fs expected rows)))"

abbreviation row_prev :: "obj \<Rightarrow> string option" where
  "row_prev \<equiv> str_field ''prev_hash''"

abbreviation row_own :: "obj \<Rightarrow> string option" where
  "row_own \<equiv> str_field ''record_hash''"

abbreviation row_linked :: "(string \<Rightarrow> string) \<Rightarrow> string list \<Rightarrow> string \<Rightarrow> obj list \<Rightarrow> bool" where
  "row_linked sha fs \<equiv> chain_linked row_prev row_own (row_digest sha fs)"

definition seq_readable :: "obj \<Rightarrow> bool" where
  "seq_readable rec = is_ok (py_int (dget_or rec ''sequence'' (JInt (-1))))"

lemma str_field_eq: "str_field k rec = Some s \<longleftrightarrow> dget_or rec k JNull = JStr s"
  by (auto simp: str_field_def dget_or_def split: option.splits)

lemma verify_rows_ok:
  "verify_rows sha fs p rows = Inr (True, n, d) \<longleftrightarrow>
     n = -1 \<and> d = [] \<and>
     (\<exists>recs. rows = map JObj recs \<and> list_all seq_readable recs \<and> row_linked sha fs p recs)"
proof (induction rows arbitrary: p)
  case Nil
  then show ?case by auto
next
  case (Cons row rows)
  show ?case
  proof (cases row)
    case (JObj rec)
    then show ?thesis
      using Cons.IH [of "row_digest sha fs rec"]
      by (auto simp: Let_def seq_readable_def is_ok_iff Cons_eq_map_conv str_field_eq split: if_splits)
  qed (auto simp: Cons_eq_map_conv)
qed

lemma map_JObj_eq [simp]: "map JObj xs = map JObj ys \<longleftrightarrow> xs = ys"
  by (simp add: inj_map_eq_map inj_def)

lemma verify_rows_objs:
  "verify_rows sha fs p (map JObj recs) = Inr (True, n, d) \<longleftrightarrow>
     n = -1 \<and> d = [] \<and> list_all seq_readable recs \<and> row_linked sha fs p recs"
  unfolding verify_rows_ok by (metis map_JObj_eq)

section \<open>The ledger object\<close>

datatype ledger_error =
    ChainError int string
  | WriteError int py_error
  | PyError py_error

record row_ledger =
  rl_active :: bool
  rl_file :: jsonl
  rl_sequence :: int
  rl_prev :: json

definition load_records :: "jsonl \<Rightarrow> json list res" where
  "load_records f = emap loads (file_lines f)"

text \<open>\<open>last["sequence"]\<close>: subscripting anything but a dictionary with a string raises.\<close>

fun subscript :: "json \<Rightarrow> string \<Rightarrow> json res" where
  "subscript (JObj kvs) k = (case dget kvs k of None \<Rightarrow> Inl (KeyError k) | Some v \<Rightarrow> Inr v)"
| "subscript _ k = Inl TypeError"

fun raise_py :: "'a res \<Rightarrow> ledger_error + 'a" where
  "raise_py (Inl e) = Inl (PyError e)"
| "raise_py (Inr x) = Inr x"

lemma raise_py_Inr [simp]: "raise_py m = Inr x \<longleftrightarrow> m = Inr x"
  by (cases m) auto

definition rl_new :: row_ledger where
  "rl_new = \<lparr>rl_active = True, rl_file = None, rl_sequence = 0, rl_prev = JStr ZERO_HASH\<rparr>"

text \<open>The constructor: \<open>path\<close> is \<open>None\<close> for an inactive ledger, else the state of
  the file.\<close>

definition rl_open ::
  "(string \<Rightarrow> string) \<Rightarrow> string list \<Rightarrow> bool \<Rightarrow> jsonl option \<Rightarrow> ledger_error + row_ledger"
where
  "rl_open sha fs chain_verify_on_open path =
     (case path of
        None \<Rightarrow> Inr (rl_new\<lparr>rl_active := False\<rparr>)
      | Some None \<Rightarrow> Inr rl_new
      | Some (Some ls) \<Rightarrow>
          ebind (raise_py (load_records (Some ls))) (\<lambda>existing.
          ebind (if chain_verify_on_open \<and> existing \<noteq> []
                 then ebind (raise_py (verify_rows sha fs ZERO_HASH existing))
                   (\<lambda>(ok, fail_seq, detail). if ok then Inr () else Inl (ChainError fail_seq detail))
                 else Inr ()) (\<lambda>_.
          if existing = [] then Inr (rl_new\<lparr>rl_file := Some ls\<rparr>)
          else
            ebind (raise_py (ebind (subscript (last existing) ''sequence'') py_int)) (\<lambda>seq.
            ebind (raise_py (subscript (last existing) ''record_hash'')) (\<lambda>h.
            Inr \<lparr>rl_active = True, rl_file = Some ls, rl_sequence = seq + 1, rl_prev = h\<rparr>)))))"

text \<open>
  \<open>emit\<close>: build the record, append it, advance. An exception leaves the counter and the
  link as they were; what the caller sees of it is decided by \<open>raises\<close>.
\<close>

definition rl_emit ::
  "(int \<Rightarrow> json \<Rightarrow> obj \<Rightarrow> string \<Rightarrow> obj res) \<Rightarrow> bool \<Rightarrow> io \<Rightarrow> string \<Rightarrow> obj \<Rightarrow> row_ledger \<Rightarrow>
   ledger_error option \<times> row_ledger"
where
  "rl_emit build raises io timestamp payload l =
     (if \<not> rl_active l then (None, l)
      else
        (let failed = (\<lambda>e. if raises then Some (WriteError (rl_sequence l) e) else None) in
         case build (rl_sequence l) (rl_prev l) payload timestamp of
           Inl e \<Rightarrow> (failed e, l)
         | Inr rec \<Rightarrow>
             (let l' = l\<lparr>rl_file := io_append io (JObj rec) (rl_file l)\<rparr> in
              if io = IoOk then
                (None, l'\<lparr>rl_prev := dget_or rec ''record_hash'' JNull,
                          rl_sequence := rl_sequence l + 1\<rparr>)
              else (failed OSError, l'))))"

fun rl_emits ::
  "(int \<Rightarrow> json \<Rightarrow> obj \<Rightarrow> string \<Rightarrow> obj res) \<Rightarrow> bool \<Rightarrow> (io \<times> string \<times> obj) list \<Rightarrow> row_ledger \<Rightarrow> row_ledger"
where
  "rl_emits build raises [] l = l"
| "rl_emits build raises ((io, ts, payload) # es) l =
     rl_emits build raises es (snd (rl_emit build raises io ts payload l))"

definition rl_verify_chain :: "(string \<Rightarrow> string) \<Rightarrow> string list \<Rightarrow> row_ledger \<Rightarrow> bool" where
  "rl_verify_chain sha fs l =
     (if \<not> rl_active l \<or> rl_file l = None then True
      else case ebind (load_records (rl_file l)) (verify_rows sha fs ZERO_HASH) of
             Inl e \<Rightarrow> False
           | Inr (ok, s, d) \<Rightarrow> ok)"

lemma verdict_True:
  "(case m of Inl e \<Rightarrow> False | Inr (ok, s, d) \<Rightarrow> ok) \<longleftrightarrow> (\<exists>s d. m = Inr (True, s, d))"
  by (auto split: sum.splits)

lemma rl_verify_chain_objs:
  assumes "rl_file l = Some (map Row (map JObj recs))" "rl_active l"
  shows "rl_verify_chain sha fs l \<longleftrightarrow> list_all seq_readable recs \<and> row_linked sha fs ZERO_HASH recs"
proof -
  have "load_records (rl_file l) = Inr (map JObj recs)"
    unfolding load_records_def assms(1) by (simp only: file_lines.simps emap_loads_Row)
  then have "ebind (load_records (rl_file l)) (verify_rows sha fs ZERO_HASH) =
      verify_rows sha fs ZERO_HASH (map JObj recs)"
    by (simp only: ebind.simps)
  with assms show ?thesis
    unfolding rl_verify_chain_def verdict_True by (simp add: verify_rows_objs)
qed

section \<open>The invariants of an open ledger\<close>

text \<open>
  \<open>rl_ok\<close>: the file is a verified chain and the ledger will link to its last row.
  \<open>rl_numbered\<close>: the rows are numbered from 0 and the counter is their number. Opening
  a file establishes the first; the second also needs the file to be numbered, which the
  verifier of this family of ledgers does not check.
\<close>

fun file_objs :: "jsonl \<Rightarrow> obj list res" where
  "file_objs f = emap (\<lambda>l. ebind (loads l) as_obj) (file_lines f)"

definition rl_ok :: "(string \<Rightarrow> string) \<Rightarrow> string list \<Rightarrow> row_ledger \<Rightarrow> bool" where
  "rl_ok sha fs l =
     (case file_objs (rl_file l) of
        Inl e \<Rightarrow> False
      | Inr recs \<Rightarrow>
          row_linked sha fs ZERO_HASH recs \<and> list_all seq_readable recs \<and>
          rl_prev l = JStr (chain_head (row_digest sha fs) ZERO_HASH recs))"

definition rl_numbered :: "row_ledger \<Rightarrow> bool" where
  "rl_numbered l =
     (case file_objs (rl_file l) of
        Inl e \<Rightarrow> False
      | Inr recs \<Rightarrow>
          map (\<lambda>r. dget r ''sequence'') recs = map (\<lambda>i. Some (JInt (int i))) [0..<length recs] \<and>
          rl_sequence l = int (length recs))"

lemma file_objs_Inr: "file_objs f = Inr recs \<longleftrightarrow> file_lines f = map (\<lambda>r. Row (JObj r)) recs"
proof -
  have "emap (\<lambda>l. ebind (loads l) as_obj) ls = Inr recs \<longleftrightarrow> ls = map (\<lambda>r. Row (JObj r)) recs" for ls
  proof (induction ls arbitrary: recs)
    case (Cons l ls)
    then show ?case by (cases l) (auto simp: Cons_eq_map_conv)
  qed auto
  then show ?thesis by simp
qed

declare file_objs.simps [simp del]

lemma rl_okE:
  assumes "rl_ok sha fs l"
  obtains recs where "file_lines (rl_file l) = map (\<lambda>r. Row (JObj r)) recs"
    and "row_linked sha fs ZERO_HASH recs" and "list_all seq_readable recs"
    and "rl_prev l = JStr (chain_head (row_digest sha fs) ZERO_HASH recs)"
  using assms file_objs_Inr unfolding rl_ok_def by (auto split: sum.splits)

lemma rl_okI:
  assumes "file_lines (rl_file l) = map (\<lambda>r. Row (JObj r)) recs"
    and "row_linked sha fs ZERO_HASH recs" and "list_all seq_readable recs"
    and "rl_prev l = JStr (chain_head (row_digest sha fs) ZERO_HASH recs)"
  shows "rl_ok sha fs l"
proof -
  have "file_objs (rl_file l) = Inr recs" using assms(1) file_objs_Inr by blast
  with assms show ?thesis unfolding rl_ok_def by simp
qed

lemma rl_ok_new: "rl_ok sha fs (rl_new\<lparr>rl_active := b\<rparr>)"
  by (rule rl_okI [where recs = "[]"]) (simp_all add: rl_new_def)

lemma rl_numbered_new: "rl_numbered (rl_new\<lparr>rl_active := b\<rparr>)"
  by (simp add: rl_numbered_def rl_new_def file_objs.simps)

lemma map_Row_objs: "map (\<lambda>r. Row (JObj r)) recs = map Row (map JObj recs)"
  by simp

lemma rl_ok_verifies: "rl_ok sha fs l \<Longrightarrow> rl_verify_chain sha fs l"
proof (elim rl_okE)
  fix recs
  assume r: "file_lines (rl_file l) = map (\<lambda>r. Row (JObj r)) recs"
    "row_linked sha fs ZERO_HASH recs" "list_all seq_readable recs"
  show ?thesis
  proof (cases "rl_active l \<and> rl_file l \<noteq> None")
    case True
    then obtain ls where "rl_file l = Some ls" by auto
    with r(1) have "rl_file l = Some (map Row (map JObj recs))" by simp
    with True r(2,3) show ?thesis using rl_verify_chain_objs by blast
  next
    case False
    then show ?thesis by (auto simp: rl_verify_chain_def)
  qed
qed

text \<open>Opening an existing file with verification, and reopening what a ledger wrote.\<close>

lemma last_linked:
  assumes "row_linked sha fs p recs" "recs \<noteq> []"
  shows "subscript (JObj (last recs)) ''record_hash'' = Inr (JStr (chain_head (row_digest sha fs) p recs))"
  using chain_head_own [OF assms] by (auto simp: str_field_def split: bind_splits)

lemma rl_open_ok:
  assumes "rl_open sha fs True path = Inr l"
  shows "rl_ok sha fs l \<and> rl_file l = (case path of None \<Rightarrow> None | Some f \<Rightarrow> f)"
proof (cases "\<exists>ls. path = Some (Some ls)")
  case False
  with assms have "path = None \<and> l = rl_new\<lparr>rl_active := False\<rparr> \<or> path = Some None \<and> l = rl_new\<lparr>rl_active := True\<rparr>"
    by (auto simp: rl_open_def rl_new_def split: option.splits)
  then show ?thesis using rl_ok_new by (auto simp: rl_new_def)
next
  case True
  then obtain ls where path: "path = Some (Some ls)" by blast
  from assms obtain existing where load: "ls = map Row existing"
    by (auto simp: path rl_open_def load_records_def)
  show ?thesis
  proof (cases "existing = []")
    case True
    with assms load path have "l = rl_new\<lparr>rl_file := Some []\<rparr>"
      by (simp add: rl_open_def load_records_def)
    then show ?thesis using path load True by (auto intro!: rl_okI [where recs = "[]"] simp: rl_new_def)
  next
    case False
    with assms load path obtain n d where "verify_rows sha fs ZERO_HASH existing = Inr (True, n, d)"
      by (auto simp: rl_open_def load_records_def split: if_splits)
    then obtain recs where r: "existing = map JObj recs" "list_all seq_readable recs"
      "row_linked sha fs ZERO_HASH recs"
      unfolding verify_rows_ok by blast
    with False have "recs \<noteq> []" by simp
    have ex: "load_records (Some ls) = Inr (map JObj recs)"
      by (simp only: load_records_def load r(1) file_lines.simps emap_loads_Row)
    have "verify_rows sha fs ZERO_HASH (map JObj recs) = Inr (True, -1, [])"
      using r by (simp add: verify_rows_objs)
    with last_linked [OF r(3) \<open>recs \<noteq> []\<close>] ex assms \<open>recs \<noteq> []\<close>
    have "rl_file l = Some ls" "rl_prev l = JStr (chain_head (row_digest sha fs) ZERO_HASH recs)"
      by (auto simp: rl_open_def path last_map)
    then show ?thesis using r load path by (auto intro!: rl_okI [where recs = recs])
  qed
qed

lemma rl_reopen:
  assumes "rl_ok sha fs l" "rl_numbered l" "rl_active l"
  shows "rl_open sha fs b (Some (rl_file l)) = Inr l"
  using assms(1)
proof (elim rl_okE)
  fix recs
  assume r: "file_lines (rl_file l) = map (\<lambda>r. Row (JObj r)) recs"
    "row_linked sha fs ZERO_HASH recs" "list_all seq_readable recs"
    "rl_prev l = JStr (chain_head (row_digest sha fs) ZERO_HASH recs)"
  have "file_objs (rl_file l) = Inr recs" using r(1) file_objs_Inr by blast
  with assms(2) have num: "map (\<lambda>r. dget r ''sequence'') recs = map (\<lambda>i. Some (JInt (int i))) [0..<length recs]"
    "rl_sequence l = int (length recs)"
    by (simp_all add: rl_numbered_def)
  show ?thesis
  proof (cases "recs = []")
    case True
    then show ?thesis
      using r num assms(3) by (cases "rl_file l") (auto simp: rl_open_def load_records_def rl_new_def)
  next
    case False
    then obtain ls where f: "rl_file l = Some ls" using r(1) by (cases "rl_file l") auto
    with r(1) have ls: "ls = map Row (map JObj recs)" by simp
    have "load_records (Some ls) = Inr (map JObj recs)"
      unfolding load_records_def ls by (simp only: file_lines.simps emap_loads_Row)
    moreover have "verify_rows sha fs ZERO_HASH (map JObj recs) = Inr (True, -1, [])"
      using r by (simp add: verify_rows_objs)
    moreover have "dget (last recs) ''sequence'' = Some (JInt (int (length recs) - 1))"
    proof -
      have "dget (last recs) ''sequence'' = last (map (\<lambda>r. dget r ''sequence'') recs)"
        using False by (simp add: last_map)
      then show ?thesis unfolding num(1) using False by (simp add: last_map of_nat_diff Suc_leI)
    qed
    ultimately show ?thesis
      using last_linked [OF r(2) False] False f r(4) num(2) assms(3)
      by (simp add: rl_open_def last_map)
  qed
qed

section \<open>Ledgers with a lawful builder\<close>

locale row_ledger_ops =
  fixes build :: "(string \<Rightarrow> string) \<Rightarrow> int \<Rightarrow> json \<Rightarrow> obj \<Rightarrow> string \<Rightarrow> obj res"
    and fs :: "string list"
  assumes fields_distinct: "distinct fs"
    and prev_covered: "''prev_hash'' \<in> set fs"
    and own_not_covered: "''record_hash'' \<notin> set fs"
    and build_sequence: "build sha n p payload ts = Inr rec \<Longrightarrow> dget rec ''sequence'' = Some (JInt n)"
    and build_prev: "build sha n p payload ts = Inr rec \<Longrightarrow> dget rec ''prev_hash'' = Some p"
    and build_hash: "build sha n p payload ts = Inr rec \<Longrightarrow>
      dget rec ''record_hash'' = Some (JStr (row_digest sha fs rec))"
    and build_clock: "build sha n p payload ts = Inr rec \<Longrightarrow>
      \<exists>rec'. build sha n p payload ts' = Inr rec' \<and> covered fs rec' = covered fs rec"
begin

sublocale chain: hash_chain sha "\<lambda>r. canonical_bytes (covered fs r)" "(@) ''sha256:''"
  row_prev row_own "covered_content fs" for sha
proof unfold_locales
  show "x = y" if "''sha256:'' @ x = ''sha256:'' @ y" for x y :: string
    using that by simp
  show "covered_content fs r = covered_content fs s"
    if "canonical_bytes (covered fs r) = canonical_bytes (covered fs s)" for r s
    using fields_distinct that by (rule canonical_covered)
  show "row_prev r = row_prev s" if "covered_content fs r = covered_content fs s" for r s
    using prev_covered that by (rule covered_content_str_field)
qed

text \<open>Two verified files of equal length and equal last hash.\<close>

lemma tamper_evident:
  assumes "verify_rows sha fs ZERO_HASH (map JObj rs) = Inr (True, n, d)"
    and "verify_rows sha fs ZERO_HASH (map JObj ss) = Inr (True, n', d')"
    and "length rs = length ss" and "rs \<noteq> []"
    and "dget (last rs) ''record_hash'' = dget (last ss) ''record_hash''"
  shows "(\<forall>i < length rs. \<forall>k \<in> set fs.
            map_option norm (dget (rs ! i) k) = map_option norm (dget (ss ! i) k)) \<or>
         chain_collision sha (\<lambda>r. canonical_bytes (covered fs r)) rs ss"
proof -
  have linked: "row_linked sha fs ZERO_HASH rs" "row_linked sha fs ZERO_HASH ss"
    using assms(1,2) by (simp_all add: verify_rows_objs)
  have "ss \<noteq> []" using assms(3,4) by auto
  have "row_own (last rs) = row_own (last ss)" using assms(5) by (simp add: str_field_def)
  then have "chain_head (row_digest sha fs) ZERO_HASH rs = chain_head (row_digest sha fs) ZERO_HASH ss"
    using chain_head_own [OF linked(1) assms(4)] chain_head_own [OF linked(2) \<open>ss \<noteq> []\<close>] by simp
  with chain.contents_eq [OF assms(3), of sha ZERO_HASH] linked
  have "map (covered_content fs) rs = map (covered_content fs) ss \<or>
      chain_collision sha (\<lambda>r. canonical_bytes (covered fs r)) rs ss"
    by (simp add: row_digest_def [abs_def] sha256_prefixed_def)
  then show ?thesis
  proof
    assume eq: "map (covered_content fs) rs = map (covered_content fs) ss"
    have "map_option norm (dget (rs ! i) k) = map_option norm (dget (ss ! i) k)"
      if "i < length rs" "k \<in> set fs" for i k
      using arg_cong [OF eq, of "\<lambda>l. (l ! i) k"] that assms(3) by (simp add: covered_content_def)
    then show ?thesis by blast
  qed simp
qed

lemma build_readable: "build sha n p payload ts = Inr rec \<Longrightarrow> seq_readable rec"
  using build_sequence by (fastforce simp: seq_readable_def dget_or_def)

text \<open>A successful emit appends one linked and numbered row; a lost one changes nothing.\<close>

lemma emit_cases:
  assumes "io \<noteq> IoWritten"
  obtains "snd (rl_emit (build sha) raises io ts payload l) = l"
  | rec where "rl_active l" "build sha (rl_sequence l) (rl_prev l) payload ts = Inr rec"
      "snd (rl_emit (build sha) raises io ts payload l) =
         l\<lparr>rl_file := append_line (JObj rec) (rl_file l),
           rl_prev := JStr (row_digest sha fs rec), rl_sequence := rl_sequence l + 1\<rparr>"
proof (cases "rl_active l \<and> io = IoOk \<and> (\<exists>rec. build sha (rl_sequence l) (rl_prev l) payload ts = Inr rec)")
  case True
  then obtain rec where b: "build sha (rl_sequence l) (rl_prev l) payload ts = Inr rec" by blast
  have "snd (rl_emit (build sha) raises io ts payload l) =
         l\<lparr>rl_file := append_line (JObj rec) (rl_file l),
           rl_prev := JStr (row_digest sha fs rec), rl_sequence := rl_sequence l + 1\<rparr>"
    using True b build_hash [OF b] by (simp add: rl_emit_def dget_or_def)
  with True b show thesis using that(2) by blast
next
  case False
  then have "snd (rl_emit (build sha) raises io ts payload l) = l"
    using assms by (cases io) (auto simp: rl_emit_def Let_def split: sum.splits)
  then show thesis by (rule that(1))
qed

lemma emit_ok:
  assumes ok: "rl_ok sha fs l" and "io \<noteq> IoWritten"
  shows "rl_ok sha fs (snd (rl_emit (build sha) raises io ts payload l))"
  using assms(2)
proof (rule emit_cases)
  assume "snd (rl_emit (build sha) raises io ts payload l) = l"
  with ok show ?thesis by simp
next
  fix rec
  assume b: "build sha (rl_sequence l) (rl_prev l) payload ts = Inr rec"
    and new: "snd (rl_emit (build sha) raises io ts payload l) =
         l\<lparr>rl_file := append_line (JObj rec) (rl_file l),
           rl_prev := JStr (row_digest sha fs rec), rl_sequence := rl_sequence l + 1\<rparr>"
  from ok show ?thesis
  proof (elim rl_okE)
    fix recs
    assume r: "file_lines (rl_file l) = map (\<lambda>r. Row (JObj r)) recs"
      "row_linked sha fs ZERO_HASH recs" "list_all seq_readable recs"
      "rl_prev l = JStr (chain_head (row_digest sha fs) ZERO_HASH recs)"
    show ?thesis unfolding new
      using r build_prev [OF b] build_hash [OF b] build_readable [OF b]
      by (intro rl_okI [where recs = "recs @ [rec]"]) (simp_all add: str_field_def)
  qed
qed

lemma emit_numbered:
  assumes num: "rl_numbered l" and "io \<noteq> IoWritten"
  shows "rl_numbered (snd (rl_emit (build sha) raises io ts payload l))"
  using assms(2)
proof (rule emit_cases)
  assume "snd (rl_emit (build sha) raises io ts payload l) = l"
  with num show ?thesis by simp
next
  fix rec
  assume b: "build sha (rl_sequence l) (rl_prev l) payload ts = Inr rec"
    and new: "snd (rl_emit (build sha) raises io ts payload l) =
         l\<lparr>rl_file := append_line (JObj rec) (rl_file l),
           rl_prev := JStr (row_digest sha fs rec), rl_sequence := rl_sequence l + 1\<rparr>"
  from num obtain recs where recs: "file_objs (rl_file l) = Inr recs"
    by (auto simp: rl_numbered_def split: sum.splits)
  then have "file_objs (append_line (JObj rec) (rl_file l)) = Inr (recs @ [rec])"
    by (simp add: file_objs_Inr)
  with num recs build_sequence [OF b] show ?thesis
    unfolding new by (simp add: rl_numbered_def)
qed

text \<open>A whole run of emits, each with its I/O outcome, clock reading and payload.\<close>

lemma emits_ok:
  assumes "\<forall>(io, ts, payload) \<in> set es. io \<noteq> IoWritten" and "rl_ok sha fs l"
  shows "rl_ok sha fs (rl_emits (build sha) raises es l)"
  using assms
proof (induction es arbitrary: l)
  case (Cons e es)
  then show ?case by (cases e) (auto simp: emit_ok)
qed simp

lemma emits_numbered:
  assumes "\<forall>(io, ts, payload) \<in> set es. io \<noteq> IoWritten" and "rl_numbered l"
  shows "rl_numbered (rl_emits (build sha) raises es l)"
  using assms
proof (induction es arbitrary: l)
  case (Cons e es)
  then show ?case by (cases e) (auto simp: emit_numbered)
qed simp

text \<open>A row written without the ledger noticing makes the next row a fork.\<close>

lemma lost_ack_forks:
  assumes ok: "rl_ok sha fs l" and act: "rl_active l" and p: "rl_prev l = JStr p"
    and b1: "build sha (rl_sequence l) (rl_prev l) payload1 ts1 = Inr rec1"
    and b2: "build sha (rl_sequence l) (rl_prev l) payload2 ts2 = Inr rec2"
  shows "rl_verify_chain sha fs
      (snd (rl_emit (build sha) raises IoOk ts2 payload2
        (snd (rl_emit (build sha) raises IoWritten ts1 payload1 l)))) \<longleftrightarrow>
    row_digest sha fs rec1 = p"
  using ok
proof (elim rl_okE)
  fix recs
  assume fl: "file_lines (rl_file l) = map (\<lambda>r. Row (JObj r)) recs"
    and linked: "row_linked sha fs ZERO_HASH recs"
    and seqs: "list_all seq_readable recs"
    and head: "rl_prev l = JStr (chain_head (row_digest sha fs) ZERO_HASH recs)"
  let ?l = "snd (rl_emit (build sha) raises IoOk ts2 payload2
        (snd (rl_emit (build sha) raises IoWritten ts1 payload1 l)))"
  let ?recs = "recs @ [rec1, rec2]"
  have l: "rl_file ?l = Some (map Row (map JObj ?recs))" "rl_active ?l"
    using act b1 b2 fl by (simp_all add: rl_emit_def Let_def append_line_def)
  have "list_all seq_readable ?recs"
    using seqs build_readable [OF b1] build_readable [OF b2] by simp
  moreover have "row_linked sha fs ZERO_HASH ?recs \<longleftrightarrow> row_digest sha fs rec1 = p"
    using linked head p build_prev [OF b1] build_prev [OF b2] build_hash [OF b1] build_hash [OF b2]
    by (auto simp: str_field_def)
  ultimately show ?thesis unfolding rl_verify_chain_objs [OF l] by blast
qed

end

end
