(* ===== verification/GateLedger.thy ===== *)
theory GateLedger
  imports RowLedger
begin

text \<open>
  \<open>runtime/governance/gate_decision_ledger.py\<close>: the audit ledger of governance-gate
  decisions and its read-only analytics. Builder, verifier, constructor and \<open>emit\<close> are the
  file's; their shared shape is in RowLedger. The rates the reader derives from the counts
  by float division are not modelled.
\<close>

section \<open>Records\<close>

definition VALID_DECISIONS :: "string list" where
  "VALID_DECISIONS = [''pass'', ''deny'', ''override_pass'', ''parallel_pass'']"

definition gate_fields :: "string list" where
  "gate_fields = [''ledger_version'', ''sequence'', ''prev_hash'', ''approved'', ''decision'',
     ''mutation_id'', ''trust_mode'', ''failed_rule_count'', ''reason_code_count'',
     ''human_override'', ''gate_mode'', ''decision_id'']"

definition build_gate_record ::
  "(string \<Rightarrow> string) \<Rightarrow> int \<Rightarrow> json \<Rightarrow> obj \<Rightarrow> string \<Rightarrow> obj res"
where
  "build_gate_record sha sequence prev_hash p timestamp_iso =
     (let approved = truthy (dget_or p ''approved'' (JBool False));
          decision = py_str (get_or_truthy p ''decision'' (JStr ''deny'')) in
      ebind (py_list (get_or_truthy p ''failed_rules'' (JList []))) (\<lambda>failed_rules.
      ebind (py_list (get_or_truthy p ''reason_codes'' (JList []))) (\<lambda>reason_codes.
      let chained =
        [(''ledger_version'', JStr ''35.0''),
         (''sequence'', JInt sequence),
         (''prev_hash'', prev_hash),
         (''approved'', JBool approved),
         (''decision'', JStr (if decision \<in> set VALID_DECISIONS then decision else ''deny'')),
         (''mutation_id'', JStr (py_str (get_or_truthy p ''mutation_id'' (JStr '''')))),
         (''trust_mode'', JStr (py_str (get_or_truthy p ''trust_mode'' (JStr ''standard'')))),
         (''failed_rule_count'', JInt (int (length failed_rules))),
         (''reason_code_count'', JInt (int (length reason_codes))),
         (''human_override'', JBool (truthy (dget_or p ''human_override'' (JBool False)))),
         (''gate_mode'', JStr (py_str (get_or_truthy p ''gate_mode'' (JStr ''serial'')))),
         (''decision_id'', JStr (py_str (get_or_truthy p ''decision_id'' (JStr ''''))))]
      in Inr (chained @
        [(''record_hash'', JStr (sha256_prefixed sha (canonical_bytes chained))),
         (''timestamp'', JStr timestamp_iso),
         (''failed_rules'', JList failed_rules),
         (''reason_codes'', JList reason_codes)]))))"

definition gate_verify_chain_records :: "(string \<Rightarrow> string) \<Rightarrow> json list \<Rightarrow> (bool \<times> int \<times> string) res" where
  "gate_verify_chain_records sha records = verify_rows sha gate_fields ZERO_HASH records"

text \<open>The covered part of a freshly built record is what its hash was computed over.\<close>

lemma gate_build_covered:
  assumes "build_gate_record sha n p payload ts = Inr rec"
  shows "covered gate_fields rec = take 12 rec \<and>
    dget rec ''record_hash'' = Some (JStr (sha256_prefixed sha (canonical_bytes (take 12 rec))))"
  using assms by (auto simp: build_gate_record_def Let_def covered_def gate_fields_def)

interpretation gate: row_ledger_ops build_gate_record gate_fields
proof unfold_locales
  show "distinct gate_fields" "''prev_hash'' \<in> set gate_fields" "''record_hash'' \<notin> set gate_fields"
    by (simp_all add: gate_fields_def)
next
  fix sha n p payload ts rec
  assume b: "build_gate_record sha n p payload ts = Inr rec"
  show "dget rec ''sequence'' = Some (JInt n)" "dget rec ''prev_hash'' = Some p"
    using b by (auto simp: build_gate_record_def Let_def)
  show "dget rec ''record_hash'' = Some (JStr (row_digest sha gate_fields rec))"
    using gate_build_covered [OF b] by (simp add: row_digest_def)
  fix ts'
  show "\<exists>rec'. build_gate_record sha n p payload ts' = Inr rec' \<and>
      covered gate_fields rec' = covered gate_fields rec"
    using b by (auto simp: build_gate_record_def Let_def covered_def gate_fields_def)
qed

section \<open>The ledger\<close>

definition gate_open ::
  "(string \<Rightarrow> string) \<Rightarrow> bool \<Rightarrow> jsonl option \<Rightarrow> ledger_error + row_ledger"
where
  "gate_open sha chain_verify_on_open path = rl_open sha gate_fields chain_verify_on_open path"

definition gate_emit ::
  "(string \<Rightarrow> string) \<Rightarrow> bool \<Rightarrow> io \<Rightarrow> string \<Rightarrow> obj \<Rightarrow> row_ledger \<Rightarrow> ledger_error option \<times> row_ledger"
where
  "gate_emit sha fail_closed io now payload l = rl_emit (build_gate_record sha) fail_closed io now payload l"

definition gate_verify_chain :: "(string \<Rightarrow> string) \<Rightarrow> row_ledger \<Rightarrow> bool" where
  "gate_verify_chain sha l = rl_verify_chain sha gate_fields l"

definition gate_emits ::
  "(string \<Rightarrow> string) \<Rightarrow> bool \<Rightarrow> (io \<times> string \<times> obj) list \<Rightarrow> row_ledger \<Rightarrow> row_ledger"
where
  "gate_emits sha fail_closed es l = rl_emits (build_gate_record sha) fail_closed es l"

section \<open>The reader\<close>

record gate_aggregates =
  ga_approved :: nat
  ga_overrides :: nat
  ga_decisions :: "(string, nat) dict"
  ga_failed_rules :: "(string, nat) dict"
  ga_trust_modes :: "(string, nat) dict"
  ga_total :: nat

definition ga_empty :: gate_aggregates where
  "ga_empty = \<lparr>ga_approved = 0, ga_overrides = 0, ga_decisions = [], ga_failed_rules = [],
     ga_trust_modes = [], ga_total = 0\<rparr>"

text \<open>One turn of the loop of \<open>_compute_aggregates\<close>.\<close>

definition ga_step :: "obj \<Rightarrow> gate_aggregates \<Rightarrow> gate_aggregates res" where
  "ga_step rec a =
     ebind (py_list (get_or_truthy rec ''failed_rules'' (JList []))) (\<lambda>rules.
       Inr (a\<lparr>ga_approved := ga_approved a + (if truthy (dget_or rec ''approved'' (JBool False)) then 1 else 0),
           ga_decisions := bump (py_str (get_or_truthy rec ''decision'' (JStr ''deny''))) (ga_decisions a),
           ga_trust_modes := bump (py_str (get_or_truthy rec ''trust_mode'' (JStr ''standard''))) (ga_trust_modes a),
           ga_overrides := ga_overrides a + (if truthy (dget_or rec ''human_override'' (JBool False)) then 1 else 0),
           ga_failed_rules := foldl (\<lambda>d r. bump (py_str r) d) (ga_failed_rules a) rules,
           ga_total := ga_total a + 1\<rparr>))"

fun compute_aggregates :: "gate_aggregates \<Rightarrow> json list \<Rightarrow> gate_aggregates res" where
  "compute_aggregates a [] = Inr a"
| "compute_aggregates a (row # rows) =
     ebind (as_obj row) (\<lambda>rec. ebind (ga_step rec a) (\<lambda>a'. compute_aggregates a' rows))"

text \<open>\<open>history(limit, denied_only)\<close>\<close>

fun eselect :: "(obj \<Rightarrow> bool) \<Rightarrow> json list \<Rightarrow> json list res" where
  "eselect P [] = Inr []"
| "eselect P (row # rows) =
     ebind (as_obj row) (\<lambda>r. ebind (eselect P rows) (\<lambda>rs. Inr (if P r then row # rs else rs)))"

definition gate_history :: "int option \<Rightarrow> bool \<Rightarrow> jsonl \<Rightarrow> json list res" where
  "gate_history limit denied_only f =
     ebind (load_records f) (\<lambda>recs.
     ebind (if denied_only then eselect (\<lambda>r. \<not> truthy (dget_or r ''approved'' (JBool True))) recs
            else Inr recs) (\<lambda>recs.
     Inr (case limit of None \<Rightarrow> recs | Some n \<Rightarrow> slice_last n recs)))"

definition dict_total :: "('k, nat) dict \<Rightarrow> nat" where
  "dict_total d = sum_list (map snd d)"

lemma dict_total_bump: "dict_total (bump k d) = dict_total d + 1"
proof -
  have "sum_list (map snd (dput k v d)) + dget_or d k 0 = sum_list (map snd d) + v" for v
    by (induction d) (auto simp: dget_or_def split: if_splits)
  from this [of "dget_or d k 0 + 1"] show ?thesis by (simp add: dict_total_def bump_def)
qed

lemma dict_total_bumps: "dict_total (foldl (\<lambda>d r. bump (g r) d) d rs) = dict_total d + length rs"
  by (induction rs arbitrary: d) (simp_all add: dict_total_bump)

lemma eselect_map: "eselect P (map JObj recs) = Inr (map JObj (filter P recs))"
  by (induction recs) auto

text \<open>Every record is counted once under one decision and one trust mode.\<close>

lemma ga_step_totals:
  assumes "ga_step rec a = Inr a'"
  shows "ga_total a' = ga_total a + 1"
    and "dict_total (ga_decisions a') = dict_total (ga_decisions a) + 1"
    and "dict_total (ga_trust_modes a') = dict_total (ga_trust_modes a) + 1"
    and "ga_approved a' \<le> ga_approved a + 1" "ga_overrides a' \<le> ga_overrides a + 1"
  using assms by (auto simp: ga_step_def dict_total_bump)

lemma compute_aggregates_totals:
  assumes "compute_aggregates a rows = Inr a'"
  shows "ga_total a' = ga_total a + length rows"
    and "dict_total (ga_decisions a') = dict_total (ga_decisions a) + length rows"
    and "dict_total (ga_trust_modes a') = dict_total (ga_trust_modes a) + length rows"
    and "ga_approved a' \<le> ga_approved a + length rows"
  using assms
proof (induction rows arbitrary: a)
  case (Cons row rows)
  {
    case 1
    with Cons.IH(1) show ?case by (auto simp: ga_step_totals)
  next
    case 2
    with Cons.IH(2) show ?case by (auto simp: ga_step_totals)
  next
    case 3
    with Cons.IH(3) show ?case by (auto simp: ga_step_totals)
  next
    case 4
    then obtain r b where "row = JObj r" "ga_step r a = Inr b" "compute_aggregates b rows = Inr a'" by auto
    with Cons.IH(4) [of b] ga_step_totals(4) [of r a b] show ?case by simp
  }
qed simp_all

section \<open>Properties\<close>

lemma covered_uncovered: "k \<notin> set fs \<Longrightarrow> covered fs (dput k v rec) = covered fs rec"
  unfolding covered_def by (intro arg_cong [where f = concat] map_cong) auto

lemma verify_rows_uncovered:
  assumes "k \<notin> set fs" "k \<noteq> ''sequence''" "k \<noteq> ''prev_hash''" "k \<noteq> ''record_hash''"
  shows "verify_rows sha fs p (map JObj (rs[i := dput k v (rs ! i)])) = verify_rows sha fs p (map JObj rs)"
proof (induction rs arbitrary: i p)
  case (Cons r rs)
  then show ?case
    using assms by (cases i) (simp_all add: row_digest_def covered_uncovered Let_def cong: if_cong)
qed simp

lemma gate_open_ok: "gate_open sha True path = Inr l \<Longrightarrow> rl_ok sha gate_fields l"
  unfolding gate_open_def using rl_open_ok by blast

lemma gate_fresh: "gate_open sha b (Some None) = Inr rl_new"
  by (simp add: gate_open_def rl_open_def)

text \<open>
  C26 (invariant): a ledger opened on a new file, or on an existing one of whole lines, with verification on, then
  used for any sequence of emits whatever the payloads and clock readings, as long as no
  append raises after its line reached the file (\<open>gate_failed_fsync_forks\<close> is that case), verifies its chain at the end.
\<close>

theorem gate_emits_verify:
  assumes "gate_open sha True path = Inr l"
    and "\<forall>(io, ts, payload) \<in> set es. io \<noteq> IoWritten"
  shows "gate_verify_chain sha (gate_emits sha fail_closed es l)"
  unfolding gate_verify_chain_def gate_emits_def
  using gate.emits_ok [OF assms(2) gate_open_ok [OF assms(1)]] by (rule rl_ok_verifies)

theorem gate_emits_verify_witness:
  "gate_verify_chain (\<lambda>s. s)
     (gate_emits (\<lambda>s. s) True
       [(IoOk, ''t0'', [(''approved'', JBool True)]), (IoLost, ''t1'', []), (IoOk, ''t2'', [])] rl_new)"
  by (rule gate_emits_verify [OF gate_fresh]) simp

text \<open>
  C35 (safety): two gate-decision files that both verify, hold equally many records, at least one, and end
  in the same record hash agree, record by record, on every field the hash covers; otherwise
  two aligned records exhibit a SHA-256 collision. Files of different lengths, a truncated or extended ledger, are not compared.
\<close>

theorem gate_tamper_evident:
  assumes "gate_verify_chain_records sha (map JObj rs) = Inr (True, n, d)"
    and "gate_verify_chain_records sha (map JObj ss) = Inr (True, n', d')"
    and "length rs = length ss" and "rs \<noteq> []"
    and "dget (last rs) ''record_hash'' = dget (last ss) ''record_hash''"
  shows "(\<forall>i < length rs. \<forall>k \<in> set gate_fields.
            map_option norm (dget (rs ! i) k) = map_option norm (dget (ss ! i) k)) \<or>
         chain_collision sha (\<lambda>r. canonical_bytes (covered gate_fields r)) rs ss"
  using gate.tamper_evident assms unfolding gate_verify_chain_records_def by blast

theorem gate_tamper_evident_witness:
  "let r = [(''prev_hash'', JStr ZERO_HASH), (''record_hash'', JStr ''sha256:h''), (''timestamp'', JStr ''t'')];
       s = [(''record_hash'', JStr ''sha256:h''), (''prev_hash'', JStr ZERO_HASH)]
   in (\<forall>i < length [r]. \<forall>k \<in> set gate_fields.
            map_option norm (dget ([r] ! i) k) = map_option norm (dget ([s] ! i) k)) \<or>
      chain_collision (\<lambda>_. ''h'') (\<lambda>r. canonical_bytes (covered gate_fields r)) [r] [s]"
  unfolding Let_def
  by (rule gate_tamper_evident [where n = "-1" and d = "[]" and n' = "-1" and d' = "[]"])
    (simp_all add: gate_verify_chain_records_def dget_or_def row_digest_def sha256_prefixed_def)

text \<open>
  The hash covers how many rules failed and how many reason codes there were,
  but not which: rewriting the stored \<open>failed_rules\<close> or \<open>reason_codes\<close> of any record, to
  anything, leaves the verifier's answer unchanged.
\<close>

theorem gate_rule_lists_unprotected:
  "gate_verify_chain_records sha (map JObj (rs[i := dput ''failed_rules'' v (rs ! i)])) =
     gate_verify_chain_records sha (map JObj rs)
   \<and> gate_verify_chain_records sha (map JObj (rs[i := dput ''reason_codes'' v (rs ! i)])) =
     gate_verify_chain_records sha (map JObj rs)"
  unfolding gate_verify_chain_records_def
  by (intro conjI verify_rows_uncovered) (simp_all add: gate_fields_def)

text \<open>
  When an append raises after its line reached the file (a failing fsync), the
  ledger object keeps the old link and counter, so its next successful emit writes a second
  row with the same link: from then on the chain verifies only if the lost record's hash is
  the link itself.
\<close>

theorem gate_failed_fsync_forks:
  assumes "gate_open sha True (Some f) = Inr l" and "rl_prev l = JStr p"
    and "build_gate_record sha (rl_sequence l) (rl_prev l) payload1 ts1 = Inr rec1"
    and "build_gate_record sha (rl_sequence l) (rl_prev l) payload2 ts2 = Inr rec2"
  shows "fst (gate_emit sha True IoWritten ts1 payload1 l) = Some (WriteError (rl_sequence l) OSError)
    \<and> gate_verify_chain sha
         (snd (gate_emit sha True IoOk ts2 payload2 (snd (gate_emit sha True IoWritten ts1 payload1 l))))
       = (row_digest sha gate_fields rec1 = p)"
proof
  have act: "rl_active l"
    using assms(1) by (auto simp: gate_open_def rl_open_def rl_new_def Let_def split: option.splits if_splits)
  then show "fst (gate_emit sha True IoWritten ts1 payload1 l) = Some (WriteError (rl_sequence l) OSError)"
    using assms(3) by (simp add: gate_emit_def rl_emit_def)
  show "gate_verify_chain sha
         (snd (gate_emit sha True IoOk ts2 payload2 (snd (gate_emit sha True IoWritten ts1 payload1 l))))
       = (row_digest sha gate_fields rec1 = p)"
    unfolding gate_verify_chain_def gate_emit_def
    using gate.lost_ack_forks [OF gate_open_ok [OF assms(1)] act assms(2-4)] by simp
qed

theorem gate_failed_fsync_forks_witness:
  "\<not> gate_verify_chain (\<lambda>s. ''h'')
       (snd (gate_emit (\<lambda>s. ''h'') True IoOk ''t2'' []
         (snd (gate_emit (\<lambda>s. ''h'') True IoWritten ''t1'' [] rl_new))))"
proof -
  obtain rec where "build_gate_record (\<lambda>s. ''h'') 0 (JStr ZERO_HASH) [] ''t1'' = Inr rec"
    by (simp add: build_gate_record_def get_or_truthy_def Let_def)
  moreover obtain rec' where "build_gate_record (\<lambda>s. ''h'') 0 (JStr ZERO_HASH) [] ''t2'' = Inr rec'"
    by (simp add: build_gate_record_def get_or_truthy_def Let_def)
  moreover have "sha256_prefixed (\<lambda>s. ''h'') x \<noteq> ZERO_HASH" for x
    by (simp add: sha256_prefixed_def ZERO_HASH_def numeral_eq_Suc)
  ultimately show ?thesis
    using gate_failed_fsync_forks [OF gate_fresh, of ZERO_HASH "\<lambda>s. ''h''" "[]" "''t1''" rec "[]" "''t2''" rec']
    by (simp add: rl_new_def row_digest_def)
qed

end
