(* ===== verification/CertifierLedger.thy ===== *)
theory CertifierLedger
  imports RowLedger
begin

text \<open>
  \<open>runtime/governance/certifier_scan_ledger.py\<close>: the audit ledger of certifier scans. The
  constructor, \<open>emit\<close> (which swallows every exception) and the verifier have the shape of
  RowLedger; the builder and the reader's counts are here. The reader's float rates are not
  modelled.
\<close>

definition VALID_STATUSES :: "string list" where
  "VALID_STATUSES = [''CERTIFIED'', ''REJECTED'']"

definition certifier_fields :: "string list" where
  "certifier_fields = [''ledger_version'', ''sequence'', ''prev_hash'', ''status'', ''passed'',
     ''file_path'', ''escalation'', ''mutation_blocked'', ''fail_closed'',
     ''import_ok'', ''token_ok'', ''ast_ok'', ''auth_ok'']"

text \<open>
  \<open>dict(value)\<close>: a dictionary, or a sequence of two-element sequences. Only string keys
  are looked up afterwards, so an item with another hashable key is dropped; an unhashable
  key raises.
\<close>

fun dict_item :: "json \<Rightarrow> obj \<Rightarrow> obj res" where
  "dict_item (JList [JStr k, v]) d = Inr (dput k v d)"
| "dict_item (JList [JList ks, v]) d = Inl TypeError"
| "dict_item (JList [JObj ks, v]) d = Inl TypeError"
| "dict_item (JList [k, v]) d = Inr d"
| "dict_item (JList xs) d = Inl (ValueError ''dict'')"
| "dict_item (JStr [a, b]) d = Inr (dput [a] (JStr [b]) d)"
| "dict_item (JStr s) d = Inl (ValueError ''dict'')"
| "dict_item (JObj [(a, v), (b, w)]) d = Inr (dput a (JStr b) d)"
| "dict_item (JObj kvs) d = Inl (ValueError ''dict'')"
| "dict_item v d = Inl TypeError"

fun dict_items :: "json list \<Rightarrow> obj \<Rightarrow> obj res" where
  "dict_items [] d = Inr d"
| "dict_items (x # xs) d = ebind (dict_item x d) (dict_items xs)"

fun py_dict :: "json \<Rightarrow> obj res" where
  "py_dict (JObj kvs) = Inr kvs"
| "py_dict (JList xs) = dict_items xs []"
| "py_dict (JStr s) = (if s = [] then Inr [] else Inl (ValueError ''dict''))"
| "py_dict v = Inl TypeError"

definition build_certifier_record ::
  "(string \<Rightarrow> string) \<Rightarrow> int \<Rightarrow> json \<Rightarrow> obj \<Rightarrow> string \<Rightarrow> obj res"
where
  "build_certifier_record sha sequence prev_hash scan timestamp_iso =
     (let status = py_str (get_or_truthy scan ''status'' (JStr ''REJECTED''));
          passed = truthy (dget_or scan ''passed'' (JBool False)) in
      ebind (py_dict (get_or_truthy scan ''checks'' (JObj []))) (\<lambda>checks.
      let chained =
        [(''ledger_version'', JStr ''33.0''),
         (''sequence'', JInt sequence),
         (''prev_hash'', prev_hash),
         (''status'', JStr (if status \<in> set VALID_STATUSES then status else ''REJECTED'')),
         (''passed'', JBool passed),
         (''file_path'', JStr (py_str (get_or_truthy scan ''file'' (JStr '''')))),
         (''escalation'', JStr (py_str (get_or_truthy scan ''escalation'' (JStr ''advisory'')))),
         (''mutation_blocked'', JBool (truthy (dget_or scan ''mutation_blocked'' (JBool False)))),
         (''fail_closed'', JBool (truthy (dget_or scan ''fail_closed'' (JBool False)))),
         (''import_ok'', JBool (truthy (dget_or checks ''import_ok'' (JBool True)))),
         (''token_ok'', JBool (truthy (dget_or checks ''token_ok'' (JBool True)))),
         (''ast_ok'', JBool (truthy (dget_or checks ''ast_ok'' (JBool True)))),
         (''auth_ok'', JBool (truthy (dget_or checks ''auth_ok'' (JBool False))))]
      in Inr (chained @
        [(''record_hash'', JStr (sha256_prefixed sha (canonical_bytes chained))),
         (''timestamp'', JStr timestamp_iso)])))"

definition certifier_verify_chain_records ::
  "(string \<Rightarrow> string) \<Rightarrow> json list \<Rightarrow> (bool \<times> int \<times> string) res"
where
  "certifier_verify_chain_records sha records = verify_rows sha certifier_fields ZERO_HASH records"

lemma certifier_build_covered:
  assumes "build_certifier_record sha n p payload ts = Inr rec"
  shows "covered certifier_fields rec = take 13 rec \<and>
    dget rec ''record_hash'' = Some (JStr (sha256_prefixed sha (canonical_bytes (take 13 rec))))"
  using assms by (auto simp: build_certifier_record_def Let_def covered_def certifier_fields_def)

interpretation certifier: row_ledger_ops build_certifier_record certifier_fields
proof unfold_locales
  show "distinct certifier_fields" "''prev_hash'' \<in> set certifier_fields"
    "''record_hash'' \<notin> set certifier_fields"
    by (simp_all add: certifier_fields_def)
next
  fix sha n p payload ts rec
  assume b: "build_certifier_record sha n p payload ts = Inr rec"
  show "dget rec ''sequence'' = Some (JInt n)" "dget rec ''prev_hash'' = Some p"
    using b by (auto simp: build_certifier_record_def Let_def)
  show "dget rec ''record_hash'' = Some (JStr (row_digest sha certifier_fields rec))"
    using certifier_build_covered [OF b] by (simp add: row_digest_def)
  fix ts'
  show "\<exists>rec'. build_certifier_record sha n p payload ts' = Inr rec' \<and>
      covered certifier_fields rec' = covered certifier_fields rec"
    using b by (auto simp: build_certifier_record_def Let_def covered_def certifier_fields_def)
qed

definition certifier_open ::
  "(string \<Rightarrow> string) \<Rightarrow> bool \<Rightarrow> jsonl option \<Rightarrow> ledger_error + row_ledger"
where
  "certifier_open sha chain_verify_on_open path = rl_open sha certifier_fields chain_verify_on_open path"

definition certifier_emit ::
  "(string \<Rightarrow> string) \<Rightarrow> io \<Rightarrow> string \<Rightarrow> obj \<Rightarrow> row_ledger \<Rightarrow> ledger_error option \<times> row_ledger"
where
  "certifier_emit sha io now scan l = rl_emit (build_certifier_record sha) False io now scan l"

definition certifier_verify_chain :: "(string \<Rightarrow> string) \<Rightarrow> row_ledger \<Rightarrow> bool" where
  "certifier_verify_chain sha l = rl_verify_chain sha certifier_fields l"

lemma certifier_emit_silent: "fst (certifier_emit sha io now scan l) = None"
  by (simp add: certifier_emit_def rl_emit_def Let_def split: sum.splits)

section \<open>The reader\<close>

definition certifier_history :: "int option \<Rightarrow> bool \<Rightarrow> obj list \<Rightarrow> obj list" where
  "certifier_history limit rejected_only recs =
     (let recs' = (if rejected_only then filter (\<lambda>r. \<not> truthy (dget_or r ''passed'' (JBool True))) recs
                   else recs)
      in case limit of None \<Rightarrow> recs' | Some n \<Rightarrow> slice_last n recs')"

definition escalation_breakdown :: "obj list \<Rightarrow> (string, nat) dict" where
  "escalation_breakdown recs =
     tally (map (\<lambda>r. py_str (get_or_truthy r ''escalation'' (JStr ''advisory''))) recs)"

definition mutation_blocked_count :: "obj list \<Rightarrow> nat" where
  "mutation_blocked_count recs = length (filter (\<lambda>r. truthy (dget_or r ''mutation_blocked'' (JBool False))) recs)"

definition fail_closed_count :: "obj list \<Rightarrow> nat" where
  "fail_closed_count recs = length (filter (\<lambda>r. truthy (dget_or r ''fail_closed'' (JBool False))) recs)"

definition certifier_emits ::
  "(string \<Rightarrow> string) \<Rightarrow> (io \<times> string \<times> obj) list \<Rightarrow> row_ledger \<Rightarrow> row_ledger"
where
  "certifier_emits sha es l = rl_emits (build_certifier_record sha) False es l"

section \<open>Properties\<close>

lemma rl_emits_active: "rl_active (rl_emits build raises es l) = rl_active l"
proof (induction build raises es l rule: rl_emits.induct)
  case (2 build raises io ts payload es l)
  then show ?case by (simp add: rl_emit_def Let_def split: sum.splits)
qed simp

text \<open>
  Start on a fresh file and record any scans, where each append either
  succeeds or loses its line; the errors are swallowed. The file then verifies, and a new ledger
  object constructed on it, with or without verification, is in exactly the state of the old one:
  a restart continues the numbering and the chain without a gap.\<close>

theorem certifier_restart_resumes:
  assumes "\<forall>(io, ts, scan) \<in> set es. io \<noteq> IoWritten"
    and "certifier_open sha verify (Some None) = Inr l0"
    and "certifier_emits sha es l0 = l"
  shows "certifier_open sha verify' (Some (rl_file l)) = Inr l \<and> certifier_verify_chain sha l"
proof -
  have l0: "l0 = rl_new\<lparr>rl_active := True\<rparr>"
    using assms(2) by (auto simp: certifier_open_def rl_open_def rl_new_def)
  have ok: "rl_ok sha certifier_fields l" "rl_numbered l"
    using certifier.emits_ok [OF assms(1) rl_ok_new] certifier.emits_numbered [OF assms(1) rl_numbered_new]
      assms(3) unfolding certifier_emits_def l0 by blast+
  moreover have "rl_active l"
    using assms(3) by (auto simp: certifier_emits_def rl_emits_active l0)
  ultimately show ?thesis
    by (simp add: certifier_open_def certifier_verify_chain_def rl_reopen rl_ok_verifies)
qed

theorem certifier_restart_resumes_witness:
  "certifier_verify_chain (\<lambda>s. s) (certifier_emits (\<lambda>s. s)
     [(IoOk, ''t0'', [(''status'', JStr ''CERTIFIED'')]), (IoLost, ''t1'', []), (IoOk, ''t2'', [])]
     (rl_new\<lparr>rl_active := True\<rparr>))"
  by (rule certifier_restart_resumes [where verify = False, THEN conjunct2])
    (simp_all add: certifier_open_def rl_open_def rl_new_def)

text \<open>
  The escalation breakdown counts every record exactly once, under the
  level it was given (or \<open>advisory\<close>): the count of a level is the number of records with it.\<close>

theorem certifier_escalation_counts:
  "dget_or (escalation_breakdown recs) lvl 0 =
     length (filter (\<lambda>r. py_str (get_or_truthy r ''escalation'' (JStr ''advisory'')) = lvl) recs)"
  by (simp add: escalation_breakdown_def tally_count count_list_eq_length_filter filter_map comp_def eq_commute)

end
