(* ===== verification/MutationQueue.thy ===== *)
theory MutationQueue
  imports Json "HOL-Library.Product_Lexorder"
begin

text \<open>
  \<open>dorkllm/constitutional_mutation_queue.py\<close>: the priority queue of mutation candidates.
  The queue object is a state record; \<open>enqueue\<close>, \<open>dequeue\<close> and \<open>complete\<close> return
  the exception or the entry together with the state they leave behind (a failing ledger write
  raises after the queue was changed). The keyed HMAC is the parameter \<open>hm\<close>; the
  deterministic clock is a field of the state. An entry object is shared between the queue and
  the caller, so a status change is an update of the entry at its index.
\<close>

section \<open>Constants\<close>

definition GOVERNOR :: string where
  "GOVERNOR = ''DUSTIN L REID''"

definition VALID_AGENTS :: "string list" where
  "VALID_AGENTS = [''ArchitectAgent'', ''MutationAgent'', ''DreamAgent'', ''BeastAgent'', ''DEVADAAD'']"

definition VALID_BLAST_TIERS :: "int list" where
  "VALID_BLAST_TIERS = [0, 1, 2]"

definition HUMAN0_PRIORITY :: int where
  "HUMAN0_PRIORITY = 9999"

definition OBJECTIVE_WEIGHTS :: "(string, int) dict" where
  "OBJECTIVE_WEIGHTS =
    [(''HUMAN0_GATE'', 50), (''CEL_INTEGRITY'', 40), (''INVARIANT_ENFORCEMENT'', 40),
     (''LEDGER_IMMUTABILITY'', 35), (''REPLAY_VERIFIABILITY'', 30),
     (''CONSTITUTIONAL_COMPLIANCE'', 30), (''DETERMINISM'', 25), (''MUTATION_SAFETY'', 25),
     (''BLAST_RADIUS_CONTROL'', 20), (''ROLLBACK_CAPABILITY'', 20), (''AUDIT_COMPLETENESS'', 15),
     (''PROVENANCE_TRACING'', 15), (''AGENT_GOVERNANCE'', 10), (''CONSTITUTIONAL_EVOLUTION'', 10),
     (''INNOVATION_DELIVERY'', 5)]"

datatype cmq_error =
    CMQScopeUndeclared
  | CMQIntentLinkMissing
  | CMQAuthorInvalid
  | CMQHuman0Bypass
  | CMQBlastTierInvalid
  | CMQOverlapConflict
  | CMQChainBroken
  | CMQQueueStalled
  | CMQAuditGap
  | CMQError

datatype entry_status = QUEUED | IN_FLIGHT | COMPLETED | BLOCKED | STALLED

fun status_value :: "entry_status \<Rightarrow> string" where
  "status_value QUEUED = ''QUEUED''"
| "status_value IN_FLIGHT = ''IN_FLIGHT''"
| "status_value COMPLETED = ''COMPLETED''"
| "status_value BLOCKED = ''BLOCKED''"
| "status_value STALLED = ''STALLED''"

datatype completion_outcome = PROMOTED | ROLLED_BACK

fun outcome_value :: "completion_outcome \<Rightarrow> string" where
  "outcome_value PROMOTED = ''promoted''"
| "outcome_value ROLLED_BACK = ''rolled_back''"

section \<open>State\<close>

record queue_entry =
  mutation_id :: string
  intent_declaration_id :: string
  author :: string
  blast_tier :: int
  scope_paths :: "string list"
  governance_objectives :: "string list"
  governance_objective_weight :: int
  priority_score :: int
  human0_override :: bool
  enqueue_timestamp :: int
  status :: entry_status
  entry_hmac :: string

record cmq =
  q_entries :: "queue_entry list"
  q_in_flight :: "string list"
  q_state_hmac :: string
  q_version :: int
  q_ledger :: jsonl
  q_clock :: int

definition strs :: "string list \<Rightarrow> json" where
  "strs xs = JList (map JStr xs)"

definition entry_to_dict :: "queue_entry \<Rightarrow> obj" where
  "entry_to_dict e =
    [(''mutation_id'', JStr (mutation_id e)),
     (''intent_declaration_id'', JStr (intent_declaration_id e)),
     (''author'', JStr (author e)),
     (''blast_tier'', JInt (blast_tier e)),
     (''scope_paths'', strs (scope_paths e)),
     (''governance_objectives'', strs (governance_objectives e)),
     (''governance_objective_weight'', JInt (governance_objective_weight e)),
     (''priority_score'', JInt (priority_score e)),
     (''human0_override'', JBool (human0_override e)),
     (''enqueue_timestamp'', JInt (enqueue_timestamp e)),
     (''status'', JStr (status_value (status e))),
     (''hmac'', JStr (entry_hmac e))]"

definition cmq_new :: "(string \<Rightarrow> string) \<Rightarrow> jsonl \<Rightarrow> int \<Rightarrow> cmq" where
  "cmq_new hm f clock =
     \<lparr>q_entries = [], q_in_flight = [], q_state_hmac = hm ''CMQ-GENESIS'', q_version = 0,
      q_ledger = f, q_clock = clock\<rparr>"

section \<open>Helpers\<close>

definition objective_weight :: "string list \<Rightarrow> int" where
  "objective_weight objs = sum_list (map (\<lambda>x. dget_or OBJECTIVE_WEIGHTS x 0) objs)"

definition compute_priority :: "int \<Rightarrow> string list \<Rightarrow> bool \<Rightarrow> string \<Rightarrow> int \<times> int" where
  "compute_priority tier objs override auth =
     (if override \<and> auth = GOVERNOR then (HUMAN0_PRIORITY, 0)
      else (let obj_weight = objective_weight objs in ((3 - tier) * 100 + obj_weight, obj_weight)))"

text \<open>\<open>_find_entry\<close>: the first entry with the id; as an index, since callers mutate it.\<close>

fun find_entry :: "string \<Rightarrow> queue_entry list \<Rightarrow> nat option" where
  "find_entry mid [] = None"
| "find_entry mid (e # es) =
     (if mutation_id e = mid then Some 0 else map_option Suc (find_entry mid es))"

definition in_flight_paths :: "cmq \<Rightarrow> string list" where
  "in_flight_paths s =
     concat (map (\<lambda>mid. case find_entry mid (q_entries s) of
                          None \<Rightarrow> [] | Some i \<Rightarrow> scope_paths (q_entries s ! i)) (q_in_flight s))"

definition paths_overlap :: "string \<Rightarrow> string \<Rightarrow> bool" where
  "paths_overlap new existing \<longleftrightarrow> startswith new existing \<or> startswith existing new"

definition has_overlap :: "cmq \<Rightarrow> string list \<Rightarrow> bool" where
  "has_overlap s paths \<longleftrightarrow>
     list_ex (\<lambda>new. list_ex (paths_overlap new) (in_flight_paths s)) paths"

definition update_state_hmac :: "(string \<Rightarrow> string) \<Rightarrow> cmq \<Rightarrow> cmq" where
  "update_state_hmac hm s =
     s\<lparr>q_state_hmac := hm (q_state_hmac s @
          canonical True (JList (map (\<lambda>e. JObj (entry_to_dict e)) (q_entries s)))),
       q_version := q_version s + 1\<rparr>"

text \<open>\<open>_verify_chain\<close>: the running HMAC is computed and dropped; the result only tells
  whether every line parses.\<close>

definition cmq_verify_chain :: "cmq \<Rightarrow> bool" where
  "cmq_verify_chain s =
     (case q_ledger s of
        None \<Rightarrow> True
      | Some ls \<Rightarrow> is_ok (emap loads ls))"

definition now_ms :: "cmq \<Rightarrow> int \<times> cmq" where
  "now_ms s = (q_clock s + 1, s\<lparr>q_clock := q_clock s + 1\<rparr>)"

definition build_event :: "string \<Rightarrow> string \<Rightarrow> obj \<Rightarrow> cmq \<Rightarrow> json \<times> cmq" where
  "build_event event_type mid extra s =
     (let (ts, s') = now_ms s in
      (JObj (foldl (\<lambda>d (k, v). dput k v d)
        [(''event_type'', JStr event_type),
         (''mutation_id'', JStr mid),
         (''timestamp_deterministic'', JInt ts),
         (''queue_depth'', JInt (int (length (q_entries s)))),
         (''snapshot_version'', JInt (q_version s)),
         (''hmac'', JStr (q_state_hmac s))] extra), s'))"

text \<open>Build the event, then append it; \<open>wr\<close> says whether the write succeeds.\<close>

definition log_event ::
  "bool \<Rightarrow> string \<Rightarrow> string \<Rightarrow> obj \<Rightarrow> 'a \<Rightarrow> cmq \<Rightarrow> (cmq_error + 'a) \<times> cmq"
where
  "log_event wr event_type mid extra result s =
     (let (ev, s') = build_event event_type mid extra s in
      if wr then (Inr result, s'\<lparr>q_ledger := append_line ev (q_ledger s')\<rparr>)
      else (Inl CMQAuditGap, s'))"

definition queued_count :: "cmq \<Rightarrow> nat" where
  "queued_count s = length (filter (\<lambda>e. status e = QUEUED) (q_entries s))"

section \<open>Operations\<close>

record enqueue_args =
  a_mutation_id :: string
  a_intent :: string
  a_author :: string
  a_tier :: int
  a_scope :: "string list"
  a_objectives :: "string list"
  a_override :: bool

definition enqueue :: "(string \<Rightarrow> string) \<Rightarrow> bool \<Rightarrow> enqueue_args \<Rightarrow> cmq \<Rightarrow> (cmq_error + queue_entry) \<times> cmq" where
  "enqueue hm wr a s =
     (if a_scope a = [] then (Inl CMQScopeUndeclared, s)
      else if a_intent a = [] then (Inl CMQIntentLinkMissing, s)
      else if a_author a \<notin> set (GOVERNOR # VALID_AGENTS) then (Inl CMQAuthorInvalid, s)
      else if a_override a \<and> a_author a \<noteq> GOVERNOR then (Inl CMQHuman0Bypass, s)
      else if a_tier a \<notin> set VALID_BLAST_TIERS then (Inl CMQBlastTierInvalid, s)
      else if has_overlap s (a_scope a) then (Inl CMQOverlapConflict, s)
      else
        (let (score, weight) = compute_priority (a_tier a) (a_objectives a) (a_override a) (a_author a);
             (ts, s1) = now_ms s;
             e0 = \<lparr>mutation_id = a_mutation_id a, intent_declaration_id = a_intent a,
                   author = a_author a, blast_tier = a_tier a, scope_paths = a_scope a,
                   governance_objectives = a_objectives a, governance_objective_weight = weight,
                   priority_score = score, human0_override = a_override a,
                   enqueue_timestamp = ts, status = QUEUED, entry_hmac = ''''\<rparr>;
             e = e0\<lparr>entry_hmac := hm (canonical True (JObj (entry_to_dict e0)))\<rparr>;
             s2 = update_state_hmac hm (s1\<lparr>q_entries := q_entries s1 @ [e]\<rparr>)
         in log_event wr ''ENQUEUE'' (a_mutation_id a)
              [(''priority_score'', JInt score), (''blast_tier'', JInt (a_tier a)),
               (''human0_override'', JBool (a_override a)), (''author'', JStr (a_author a))] e s2))"

text \<open>The sort key \<open>(-priority_score, enqueue_timestamp)\<close>.\<close>

definition queue_key :: "queue_entry \<Rightarrow> int \<times> int" where
  "queue_key e = (- priority_score e, enqueue_timestamp e)"

text \<open>\<open>sorted(candidates, key=...)[0]\<close> with the index of the chosen entry.\<close>

definition candidates :: "queue_entry list \<Rightarrow> (nat \<times> queue_entry) list" where
  "candidates es = filter (\<lambda>(i, e). status e = QUEUED) (enumerate 0 es)"

definition select :: "queue_entry list \<Rightarrow> (nat \<times> queue_entry) option" where
  "select es =
     (case sort_key (\<lambda>(i, e). queue_key e) (candidates es) of [] \<Rightarrow> None | c # _ \<Rightarrow> Some c)"

definition peek :: "cmq \<Rightarrow> queue_entry option" where
  "peek s = map_option snd (select (q_entries s))"

definition dequeue :: "(string \<Rightarrow> string) \<Rightarrow> bool \<Rightarrow> cmq \<Rightarrow> (cmq_error + queue_entry) \<times> cmq" where
  "dequeue hm wr s =
     (if \<not> cmq_verify_chain s then (Inl CMQChainBroken, s)
      else case select (q_entries s) of
        None \<Rightarrow> (Inl CMQQueueStalled, s)
      | Some (i, e) \<Rightarrow>
          (let e' = e\<lparr>status := IN_FLIGHT\<rparr>;
               s1 = s\<lparr>q_entries := (q_entries s)[i := e'],
                      q_in_flight := q_in_flight s @ [mutation_id e]\<rparr>;
               s2 = update_state_hmac hm s1
           in log_event wr ''DEQUEUE'' (mutation_id e)
                [(''priority_score'', JInt (priority_score e)),
                 (''queue_depth_after'', JInt (int (queued_count s2)))] e' s2))"

definition complete ::
  "(string \<Rightarrow> string) \<Rightarrow> bool \<Rightarrow> string \<Rightarrow> completion_outcome \<Rightarrow> cmq \<Rightarrow> (cmq_error + queue_entry) \<times> cmq"
where
  "complete hm wr mid outcome s =
     (case find_entry mid (q_entries s) of
        None \<Rightarrow> (Inl CMQError, s)
      | Some i \<Rightarrow>
          (let e = q_entries s ! i in
           if status e \<noteq> IN_FLIGHT then (Inl CMQError, s)
           else
             (let e' = e\<lparr>status := COMPLETED\<rparr>;
                  s1 = s\<lparr>q_entries := (q_entries s)[i := e'], q_in_flight := remove1 mid (q_in_flight s)\<rparr>;
                  s2 = update_state_hmac hm s1
              in log_event wr ''COMPLETE'' mid
                   [(''outcome'', JStr (outcome_value outcome)),
                    (''queue_depth_after'', JInt (int (queued_count s2)))] e' s2)))"

definition export_ledger :: "cmq \<Rightarrow> json list res" where
  "export_ledger s = (case q_ledger s of None \<Rightarrow> Inr [] | Some ls \<Rightarrow> emap loads ls)"

section \<open>Steps and reachable queues\<close>

inductive cmq_step :: "(string \<Rightarrow> string) \<Rightarrow> cmq \<Rightarrow> cmq \<Rightarrow> bool" for hm where
  step_enqueue: "cmq_step hm s (snd (enqueue hm wr a s))"
| step_dequeue: "cmq_step hm s (snd (dequeue hm wr s))"
| step_complete: "cmq_step hm s (snd (complete hm wr mid outcome s))"

inductive cmq_reachable :: "(string \<Rightarrow> string) \<Rightarrow> cmq \<Rightarrow> bool" for hm where
  reach_new: "cmq_reachable hm (cmq_new hm f clock)"
| reach_step: "cmq_reachable hm s \<Longrightarrow> cmq_step hm s t \<Longrightarrow> cmq_reachable hm t"

inductive_cases cmq_stepE: "cmq_step hm s t"

section \<open>Frame lemmas\<close>

lemma log_event_state [simp]:
  "q_entries (snd (log_event wr ty mid ex r s)) = q_entries s"
  "q_in_flight (snd (log_event wr ty mid ex r s)) = q_in_flight s"
  "q_clock (snd (log_event wr ty mid ex r s)) = q_clock s + 1"
  "cmq_verify_chain (snd (log_event wr ty mid ex r s)) = cmq_verify_chain s"
  by (cases "q_ledger s"; simp add: log_event_def build_event_def now_ms_def Let_def case_prod_unfold
      cmq_verify_chain_def append_line_def emap_append is_ok_iff)+

lemma log_event_result: "fst (log_event wr ty mid ex r s) = (if wr then Inr r else Inl CMQAuditGap)"
  by (simp add: log_event_def build_event_def now_ms_def case_prod_unfold)

lemma update_state_hmac_state [simp]:
  "q_entries (update_state_hmac hm s) = q_entries s"
  "q_in_flight (update_state_hmac hm s) = q_in_flight s"
  "q_clock (update_state_hmac hm s) = q_clock s"
  "cmq_verify_chain (update_state_hmac hm s) = cmq_verify_chain s"
  by (simp_all add: update_state_hmac_def cmq_verify_chain_def)

lemma verify_chain_entries [simp]:
  "cmq_verify_chain (s\<lparr>q_entries := es, q_in_flight := fl\<rparr>) = cmq_verify_chain s"
  by (simp add: cmq_verify_chain_def)

section \<open>Selection\<close>

lemma candidates_upt:
  "candidates es = map (\<lambda>i. (i, es ! i)) (filter (\<lambda>i. status (es ! i) = QUEUED) [0..<length es])"
proof -
  have "enumerate 0 es = map (\<lambda>i. (i, es ! i)) [0..<length es]"
    by (rule nth_equalityI) (simp_all add: nth_enumerate_eq)
  then show ?thesis by (simp add: candidates_def filter_map comp_def)
qed

lemma snd_candidates: "map snd (candidates es) = filter (\<lambda>e. status e = QUEUED) es"
proof -
  have "filter (\<lambda>e. status e = QUEUED) (map ((!) es) [0..<length es]) =
      map ((!) es) (filter (\<lambda>i. status (es ! i) = QUEUED) [0..<length es])"
    by (simp add: filter_map comp_def)
  then show ?thesis by (simp add: candidates_upt map_nth comp_def)
qed

lemma in_candidates: "(i, e) \<in> set (candidates es) \<longleftrightarrow> i < length es \<and> es ! i = e \<and> status e = QUEUED"
  by (auto simp: candidates_upt)

lemma candidates_update:
  assumes "status e' \<noteq> QUEUED"
  shows "candidates (es[i := e']) = filter (\<lambda>p. fst p \<noteq> i) (candidates es)"
proof -
  have st: "status (es[i := e'] ! j) = QUEUED \<longleftrightarrow> status (es ! j) = QUEUED \<and> j \<noteq> i" if "j < length es" for j
    using assms that by (cases "j = i") auto
  have "filter (\<lambda>j. status (es[i := e'] ! j) = QUEUED) [0..<length es] =
      filter (\<lambda>j. status (es ! j) = QUEUED \<and> j \<noteq> i) [0..<length es]"
    using st by (intro filter_cong) auto
  then show ?thesis
    by (simp add: candidates_upt filter_map comp_def)
qed

lemma select_None: "select es = None \<longleftrightarrow> filter (\<lambda>e. status e = QUEUED) es = []"
proof -
  have "select es = None \<longleftrightarrow> sort_key (\<lambda>(i, e). queue_key e) (candidates es) = []"
    by (simp add: select_def split: list.splits)
  also have "\<dots> \<longleftrightarrow> candidates es = []" by (metis length_0_conv length_sort)
  also have "\<dots> \<longleftrightarrow> map snd (candidates es) = []" by simp
  finally show ?thesis by (simp only: snd_candidates)
qed

lemma select_SomeE:
  assumes "select es = Some (i, e)"
  obtains us vs where "i < length es" "es ! i = e" "status e = QUEUED"
    and "candidates es = us @ (i, e) # vs"
    and "\<forall>u \<in> set us. queue_key e < queue_key (snd u)"
    and "\<forall>v \<in> set vs. queue_key e \<le> queue_key (snd v)"
proof -
  obtain rest where "sort_key (\<lambda>(i, e). queue_key e) (candidates es) = (i, e) # rest"
    using assms by (auto simp: select_def split: list.splits)
  from sort_key_hd_split [OF this] obtain us vs where *: "candidates es = us @ (i, e) # vs"
    "\<forall>u \<in> set us. queue_key e < queue_key (snd u)" "\<forall>v \<in> set vs. queue_key e \<le> queue_key (snd v)"
    by (auto simp: case_prod_unfold)
  then have "(i, e) \<in> set (candidates es)" by simp
  with * that show thesis unfolding in_candidates by blast
qed

lemma select_waiting:
  assumes "select es = Some (i, e)" "status e' \<noteq> QUEUED"
  shows "\<exists>us vs. filter (\<lambda>e. status e = QUEUED) es = us @ e # vs
    \<and> filter (\<lambda>e. status e = QUEUED) (es[i := e']) = us @ vs
    \<and> (\<forall>u \<in> set us. queue_key e < queue_key u) \<and> (\<forall>v \<in> set vs. queue_key e \<le> queue_key v)"
  using assms(1)
proof (rule select_SomeE)
  fix us vs
  assume c: "candidates es = us @ (i, e) # vs"
    and k: "\<forall>u \<in> set us. queue_key e < queue_key (snd u)" "\<forall>v \<in> set vs. queue_key e \<le> queue_key (snd v)"
  have "distinct (map fst (candidates es))" by (simp add: candidates_upt comp_def)
  then have "i \<notin> fst ` set us" "i \<notin> fst ` set vs" using c by auto
  then have f: "filter (\<lambda>p. fst p \<noteq> i) us = us" "filter (\<lambda>p. fst p \<noteq> i) vs = vs"
    by (auto simp: filter_id_conv)
  have "candidates (es[i := e']) = us @ vs"
    unfolding candidates_update [OF assms(2)] c using f by simp
  then have "filter (\<lambda>e. status e = QUEUED) (es[i := e']) = map snd us @ map snd vs"
    unfolding snd_candidates [symmetric] by simp
  moreover have "filter (\<lambda>e. status e = QUEUED) es = map snd us @ e # map snd vs"
    unfolding snd_candidates [symmetric] c by simp
  ultimately show ?thesis using k
    by (intro exI [where x = "map snd us"] exI [where x = "map snd vs"]) auto
qed

section \<open>Taking the next mutation drains the queue in priority order\<close>

definition waiting_entries :: "cmq \<Rightarrow> queue_entry list" where
  "waiting_entries s = filter (\<lambda>e. status e = QUEUED) (q_entries s)"

text \<open>One \<open>dequeue\<close> whose ledger write succeeds; the entry as it was in the queue.\<close>

definition take_next :: "(string \<Rightarrow> string) \<Rightarrow> cmq \<Rightarrow> (queue_entry \<times> cmq) option" where
  "take_next hm s =
     (case dequeue hm True s of
        (Inr e, s') \<Rightarrow> Some (e\<lparr>status := QUEUED\<rparr>, s')
      | (Inl err, s') \<Rightarrow> None)"

lemma dequeue_select:
  assumes "cmq_verify_chain s" "select (q_entries s) = Some (i, e)"
  shows "fst (dequeue hm wr s) = (if wr then Inr (e\<lparr>status := IN_FLIGHT\<rparr>) else Inl CMQAuditGap)"
    and "q_entries (snd (dequeue hm wr s)) = (q_entries s)[i := e\<lparr>status := IN_FLIGHT\<rparr>]"
    and "q_in_flight (snd (dequeue hm wr s)) = q_in_flight s @ [mutation_id e]"
    and "q_clock (snd (dequeue hm wr s)) = q_clock s + 1"
    and "cmq_verify_chain (snd (dequeue hm wr s))"
  using assms by (simp_all add: dequeue_def Let_def log_event_result)

lemma dequeue_no_select:
  assumes "\<not> (cmq_verify_chain s \<and> select (q_entries s) \<noteq> None)"
  shows "snd (dequeue hm wr s) = s"
  using assms by (auto simp: dequeue_def split: option.splits)

interpretation queue_buffer: priority_buffer cmq_verify_chain waiting_entries queue_key "take_next hm" for hm
proof unfold_locales
  fix s
  assume g: "cmq_verify_chain s"
  show "take_next hm s = None \<longleftrightarrow> waiting_entries s = []"
  proof (cases "select (q_entries s)")
    case None
    then have "waiting_entries s = []" unfolding waiting_entries_def by (simp only: select_None)
    moreover have "take_next hm s = None" using g None by (simp add: take_next_def dequeue_def)
    ultimately show ?thesis by simp
  next
    case (Some p)
    then obtain i e where "select (q_entries s) = Some (i, e)" by (cases p) auto
    moreover from this have "waiting_entries s \<noteq> []"
      unfolding waiting_entries_def by (metis option.distinct(1) select_None)
    ultimately show ?thesis
      using dequeue_select(1) [OF g, of i e hm True]
      by (cases "dequeue hm True s") (simp add: take_next_def)
  qed
  fix e s'
  assume t: "take_next hm s = Some (e, s')"
  then obtain i d where sel: "select (q_entries s) = Some (i, d)"
    by (cases "select (q_entries s)") (auto simp: take_next_def dequeue_def g)
  note dq = dequeue_select [OF g sel, of hm True]
  have d: "status d = QUEUED" using sel by (rule select_SomeE)
  have restore: "d\<lparr>status := IN_FLIGHT\<rparr>\<lparr>status := QUEUED\<rparr> = d" using d by simp
  have "dequeue hm True s = (Inr (d\<lparr>status := IN_FLIGHT\<rparr>), snd (dequeue hm True s))"
    using dq(1) by (simp add: prod_eq_iff)
  then have "take_next hm s = Some (d\<lparr>status := IN_FLIGHT\<rparr>\<lparr>status := QUEUED\<rparr>, snd (dequeue hm True s))"
    unfolding take_next_def by (metis (no_types, lifting) case_prod_conv sum.case(2))
  with t restore have e: "e = d" and s': "s' = snd (dequeue hm True s)" by simp_all
  show "cmq_verify_chain s' \<and> (\<exists>us vs. waiting_entries s = us @ e # vs \<and>
      waiting_entries s' = us @ vs \<and> (\<forall>u \<in> set us. queue_key e < queue_key u) \<and>
      (\<forall>v \<in> set vs. queue_key e \<le> queue_key v))"
    using select_waiting [OF sel, of "d\<lparr>status := IN_FLIGHT\<rparr>"] dq(2,5)
    unfolding e s' waiting_entries_def by simp
qed

section \<open>The invariant of reachable queues\<close>

definition entry_ok :: "queue_entry \<Rightarrow> bool" where
  "entry_ok e \<longleftrightarrow>
     scope_paths e \<noteq> [] \<and> intent_declaration_id e \<noteq> [] \<and>
     author e \<in> set (GOVERNOR # VALID_AGENTS) \<and> blast_tier e \<in> set VALID_BLAST_TIERS \<and>
     (human0_override e \<longrightarrow> author e = GOVERNOR) \<and>
     (priority_score e, governance_objective_weight e) =
       compute_priority (blast_tier e) (governance_objectives e) (human0_override e) (author e)"

definition cmq_inv :: "cmq \<Rightarrow> bool" where
  "cmq_inv s \<longleftrightarrow>
     list_all entry_ok (q_entries s) \<and>
     sorted_wrt (<) (map enqueue_timestamp (q_entries s) @ [q_clock s + 1]) \<and>
     mset (q_in_flight s) = image_mset mutation_id (filter_mset (\<lambda>e. status e = IN_FLIGHT) (mset (q_entries s)))"

lemma cmq_inv_new: "cmq_inv (cmq_new hm f clock)"
  by (simp add: cmq_inv_def cmq_new_def)

lemma later_clock:
  fixes ts :: "int list"
  assumes "sorted_wrt (<) (ts @ [c + 1])"
  shows "sorted_wrt (<) (ts @ [c + 2])" and "sorted_wrt (<) ((ts @ [c + 1]) @ [c + 3])"
  using assms by (fastforce simp: sorted_wrt_append)+

text \<open>What an \<open>enqueue\<close> does: refuse and change nothing, or add one well-formed entry.\<close>

lemma enqueue_cases:
  obtains (refused) err where "enqueue hm wr a s = (Inl err, s)"
  | (added) e where "fst (enqueue hm wr a s) = (if wr then Inr e else Inl CMQAuditGap)"
      and "q_entries (snd (enqueue hm wr a s)) = q_entries s @ [e]"
      and "q_in_flight (snd (enqueue hm wr a s)) = q_in_flight s"
      and "q_clock (snd (enqueue hm wr a s)) = q_clock s + 2"
      and "entry_ok e" "status e = QUEUED" "enqueue_timestamp e = q_clock s + 1"
      and "mutation_id e = a_mutation_id a" "scope_paths e = a_scope a"
      and "\<not> has_overlap s (a_scope a)"
proof (cases "a_scope a = [] \<or> a_intent a = [] \<or> a_author a \<notin> set (GOVERNOR # VALID_AGENTS) \<or>
    (a_override a \<and> a_author a \<noteq> GOVERNOR) \<or> a_tier a \<notin> set VALID_BLAST_TIERS \<or> has_overlap s (a_scope a)")
  case True
  then have "\<exists>err. enqueue hm wr a s = (Inl err, s)" by (auto simp: enqueue_def)
  then show thesis using refused by blast
next
  case False
  obtain sc w where cp: "compute_priority (a_tier a) (a_objectives a) (a_override a) (a_author a) = (sc, w)"
    by fastforce
  let ?e0 = "\<lparr>mutation_id = a_mutation_id a, intent_declaration_id = a_intent a,
                   author = a_author a, blast_tier = a_tier a, scope_paths = a_scope a,
                   governance_objectives = a_objectives a, governance_objective_weight = w,
                   priority_score = sc, human0_override = a_override a,
                   enqueue_timestamp = q_clock s + 1, status = QUEUED, entry_hmac = ''''\<rparr>"
  let ?e = "?e0\<lparr>entry_hmac := hm (canonical True (JObj (entry_to_dict ?e0)))\<rparr>"
  have eq: "enqueue hm wr a s =
      log_event wr ''ENQUEUE'' (a_mutation_id a)
        [(''priority_score'', JInt sc), (''blast_tier'', JInt (a_tier a)),
         (''human0_override'', JBool (a_override a)), (''author'', JStr (a_author a))] ?e
        (update_state_hmac hm (s\<lparr>q_clock := q_clock s + 1, q_entries := q_entries s @ [?e]\<rparr>))"
    using False cp by (auto simp: enqueue_def now_ms_def Let_def)
  show thesis
    by (rule added [of ?e]) (use False cp in \<open>simp_all add: eq log_event_result entry_ok_def\<close>)
qed

lemma enqueue_inv: "cmq_inv s \<Longrightarrow> cmq_inv (snd (enqueue hm wr a s))"
proof (cases rule: enqueue_cases [of hm wr a s])
  case (added e)
  assume i: "cmq_inv s"
  from i have "sorted_wrt (<) (map enqueue_timestamp (q_entries s) @ [q_clock s + 1])"
    by (simp add: cmq_inv_def)
  from later_clock(2) [OF this] show ?thesis using i added by (simp add: cmq_inv_def add.assoc)
qed simp

text \<open>Changing the status of one entry, with the in-flight list kept in step.\<close>

lemma filter_mset_update:
  assumes "i < length es"
  shows "add_mset (es ! i) (mset (es[i := e'])) = add_mset e' (mset es)"
  using assms by (simp add: mset_update)

lemma status_change_inv:
  assumes "cmq_inv s" "i < length (q_entries s)"
    and "t_es = (q_entries s)[i := (q_entries s ! i)\<lparr>status := st\<rparr>]"
    and "q_entries t = t_es" "q_clock t = q_clock s + 1"
    and "mset (q_in_flight t) = image_mset mutation_id (filter_mset (\<lambda>e. status e = IN_FLIGHT) (mset t_es))"
  shows "cmq_inv t"
proof -
  have ok: "list_all entry_ok (q_entries s)"
    and srt: "sorted_wrt (<) (map enqueue_timestamp (q_entries s) @ [q_clock s + 1])"
    using assms(1) by (simp_all add: cmq_inv_def)
  have "entry_ok ((q_entries s ! i)\<lparr>status := st\<rparr>)"
    using ok assms(2) by (simp add: list_all_length entry_ok_def)
  then have "list_all entry_ok t_es" using ok assms(3)
    by (auto simp: list_all_iff dest!: set_update_subset_insert [THEN subsetD])
  moreover have "map enqueue_timestamp t_es = map enqueue_timestamp (q_entries s)"
    unfolding assms(3) using assms(2) by (simp add: map_update list_update_same_conv)
  ultimately show ?thesis
    using later_clock(1) [OF srt] assms(4-6) by (simp add: cmq_inv_def add.assoc)
qed

lemma in_flight_update:
  assumes "i < length es" "es ! i = e"
  shows "filter_mset P (mset (es[i := e'])) =
    filter_mset P (mset es) - (if P e then {#e#} else {#}) + (if P e' then {#e'#} else {#})"
proof -
  have "e \<in># mset es" using assms by (metis nth_mem set_mset_mset)
  then show ?thesis using assms by (simp add: mset_update filter_diff_mset)
qed

lemma dequeue_inv: "cmq_inv s \<Longrightarrow> cmq_inv (snd (dequeue hm wr s))"
proof (cases "cmq_verify_chain s \<and> select (q_entries s) \<noteq> None")
  case False
  then show "cmq_inv s \<Longrightarrow> ?thesis" by (simp add: dequeue_no_select)
next
  case True
  assume i: "cmq_inv s"
  from True obtain j e where g: "cmq_verify_chain s" and sel: "select (q_entries s) = Some (j, e)" by auto
  from sel have j: "j < length (q_entries s)" "q_entries s ! j = e" "status e = QUEUED"
    by (auto elim: select_SomeE)
  note dq = dequeue_select [OF g sel, of hm wr]
  show ?thesis
  proof (rule status_change_inv [OF i j(1) refl])
    show "q_entries (snd (dequeue hm wr s)) = (q_entries s)[j := (q_entries s ! j)\<lparr>status := IN_FLIGHT\<rparr>]"
      using dq(2) j(2) by simp
    show "q_clock (snd (dequeue hm wr s)) = q_clock s + 1" by (rule dq(4))
    show "mset (q_in_flight (snd (dequeue hm wr s))) = image_mset mutation_id
        (filter_mset (\<lambda>e. status e = IN_FLIGHT) (mset ((q_entries s)[j := (q_entries s ! j)\<lparr>status := IN_FLIGHT\<rparr>])))"
      using i j by (simp add: dq(3) in_flight_update [OF j(1,2)] cmq_inv_def)
  qed
qed

lemma find_entry_Some:
  "find_entry mid es = Some i \<Longrightarrow> i < length es \<and> mutation_id (es ! i) = mid \<and> (\<forall>j < i. mutation_id (es ! j) \<noteq> mid)"
proof (induction es arbitrary: i)
  case (Cons e es)
  show ?case
  proof (cases "mutation_id e = mid")
    case False
    then obtain k where k: "find_entry mid es = Some k" "i = Suc k" using Cons.prems by auto
    with Cons.IH [OF k(1)] False show ?thesis by (auto simp: less_Suc_eq_0_disj)
  qed (use Cons.prems in auto)
qed simp

lemma find_entry_None: "find_entry mid es = None \<longleftrightarrow> mid \<notin> mutation_id ` set es"
  by (induction es) auto

lemma complete_cases:
  obtains (refused) "complete hm wr mid out s = (Inl CMQError, s)"
  | (fin) i where "find_entry mid (q_entries s) = Some i" "i < length (q_entries s)"
      and "mutation_id (q_entries s ! i) = mid" "status (q_entries s ! i) = IN_FLIGHT"
      and "fst (complete hm wr mid out s) =
        (if wr then Inr ((q_entries s ! i)\<lparr>status := COMPLETED\<rparr>) else Inl CMQAuditGap)"
      and "q_entries (snd (complete hm wr mid out s)) = (q_entries s)[i := (q_entries s ! i)\<lparr>status := COMPLETED\<rparr>]"
      and "q_in_flight (snd (complete hm wr mid out s)) = remove1 mid (q_in_flight s)"
      and "q_clock (snd (complete hm wr mid out s)) = q_clock s + 1"
proof (cases "find_entry mid (q_entries s)")
  case None
  then show thesis using refused by (simp add: complete_def)
next
  case (Some i)
  show thesis
  proof (cases "status (q_entries s ! i) = IN_FLIGHT")
    case False
    then show thesis using Some refused by (simp add: complete_def Let_def)
  next
    case True
    then show thesis using fin [OF Some] find_entry_Some [OF Some] Some
      by (simp add: complete_def Let_def log_event_result)
  qed
qed

lemma complete_inv: "cmq_inv s \<Longrightarrow> cmq_inv (snd (complete hm wr mid out s))"
proof (cases rule: complete_cases [of hm wr mid out s])
  case (fin i)
  assume inv: "cmq_inv s"
  show ?thesis
  proof (rule status_change_inv [OF inv fin(2) refl fin(6) fin(8)])
    have "q_entries s ! i \<in># filter_mset (\<lambda>e. status e = IN_FLIGHT) (mset (q_entries s))"
      using fin(2,4) by simp
    then show "mset (q_in_flight (snd (complete hm wr mid out s))) = image_mset mutation_id
        (filter_mset (\<lambda>e. status e = IN_FLIGHT) (mset ((q_entries s)[i := (q_entries s ! i)\<lparr>status := COMPLETED\<rparr>])))"
      using inv fin(3,4,7) by (simp add: in_flight_update [OF fin(2) refl] cmq_inv_def image_mset_Diff)
  qed
qed simp

lemma cmq_step_inv: "cmq_step hm s t \<Longrightarrow> cmq_inv s \<Longrightarrow> cmq_inv t"
  by (auto elim!: cmq_stepE intro: enqueue_inv dequeue_inv complete_inv)

lemma reachable_inv: "cmq_reachable hm s \<Longrightarrow> cmq_inv s"
  by (induction rule: cmq_reachable.induct) (auto intro: cmq_inv_new cmq_step_inv)

section \<open>Scores\<close>

lemma objective_weight_nonneg: "0 \<le> objective_weight objs"
proof -
  have "0 \<le> dget_or OBJECTIVE_WEIGHTS x 0" for x by (simp add: dget_or_def OBJECTIVE_WEIGHTS_def)
  then show ?thesis unfolding objective_weight_def by (intro sum_list_nonneg) auto
qed

lemma objective_weight_distinct:
  assumes "distinct objs"
  shows "objective_weight objs \<le> 370"
proof -
  let ?w = "\<lambda>x. dget_or OBJECTIVE_WEIGHTS x 0"
  have nn: "0 \<le> ?w x" for x by (simp add: dget_or_def OBJECTIVE_WEIGHTS_def)
  have out: "?w x = 0" if "x \<notin> set (keys OBJECTIVE_WEIGHTS)" for x
    using that by (auto simp: dget_or_def keys_def map_of_eq_None_iff split: option.splits)
      (metis domI dom_map_of_conv_image_fst image_eqI)
  have "objective_weight objs = sum ?w (set objs)"
    unfolding objective_weight_def using assms by (simp add: sum_list_distinct_conv_sum_set)
  also have "\<dots> = sum ?w (set objs \<inter> set (keys OBJECTIVE_WEIGHTS))"
    by (rule sum.mono_neutral_right) (use out in auto)
  also have "\<dots> \<le> sum ?w (set (keys OBJECTIVE_WEIGHTS))"
    by (rule sum_mono2) (use nn in auto)
  also have "\<dots> = sum_list (map ?w (keys OBJECTIVE_WEIGHTS))"
    by (rule sum_list_distinct_conv_sum_set [symmetric]) (simp add: keys_def OBJECTIVE_WEIGHTS_def)
  also have "\<dots> = 370" by (simp add: keys_def OBJECTIVE_WEIGHTS_def dget_or_def)
  finally show ?thesis .
qed

lemma human0_score: "entry_ok e \<Longrightarrow> human0_override e \<Longrightarrow> priority_score e = HUMAN0_PRIORITY"
  by (auto simp: entry_ok_def compute_priority_def)

lemma ordinary_score:
  assumes "entry_ok e" "distinct (governance_objectives e)" "\<not> human0_override e"
  shows "priority_score e < HUMAN0_PRIORITY"
proof -
  have "priority_score e = (3 - blast_tier e) * 100 + objective_weight (governance_objectives e)"
    and "blast_tier e \<in> {0, 1, 2}"
    using assms(1,3) by (auto simp: entry_ok_def compute_priority_def Let_def VALID_BLAST_TIERS_def)
  then show ?thesis
    using objective_weight_distinct [OF assms(2)] by (auto simp: HUMAN0_PRIORITY_def)
qed

lemma take_next_waiting:
  assumes "cmq_verify_chain s" "take_next hm s = Some (e, s')"
  shows "e \<in> set (waiting_entries s)" and "\<And>x. x \<in> set (waiting_entries s) \<Longrightarrow> queue_key e \<le> queue_key x"
  using queue_buffer.take_some [OF assms] queue_buffer.take_best [OF assms] by auto

section \<open>Properties\<close>

text \<open>
  C1 Every reachable queue, after any run of \<open>enqueue\<close>, \<open>dequeue\<close> and \<open>complete\<close> with
  failing and succeeding ledger writes, holds only entries that passed the guards with the score
  their fields determine, in strictly increasing time order, and its in-flight list names exactly
  the entries whose status is \<open>IN_FLIGHT\<close>.\<close>

theorem cmq_reachable_well_formed:
  assumes "cmq_reachable hm s"
  shows "list_all entry_ok (q_entries s)
    \<and> sorted_wrt (<) (map enqueue_timestamp (q_entries s))
    \<and> mset (q_in_flight s) = image_mset mutation_id (filter_mset (\<lambda>e. status e = IN_FLIGHT) (mset (q_entries s)))"
  using reachable_inv [OF assms] by (simp add: cmq_inv_def sorted_wrt_append)

definition demo_args :: "string \<Rightarrow> string list \<Rightarrow> string list \<Rightarrow> bool \<Rightarrow> enqueue_args" where
  "demo_args mid scope objs ov =
     \<lparr>a_mutation_id = mid, a_intent = ''I-1'', a_author = (if ov then GOVERNOR else ''MutationAgent''),
      a_tier = (if ov then 2 else 0), a_scope = scope, a_objectives = objs, a_override = ov\<rparr>"

definition demo_queue :: "(string \<Rightarrow> string) \<Rightarrow> cmq" where
  "demo_queue hm =
     snd (enqueue hm True (demo_args ''m2'' [''b''] [] True)
       (snd (enqueue hm True (demo_args ''m1'' [''a''] [''DETERMINISM''] False) (cmq_new hm None 0))))"

lemma demo_reachable: "cmq_reachable hm (demo_queue hm)"
  unfolding demo_queue_def by (intro reach_step [OF _ step_enqueue] reach_new)

lemmas demo_simps = demo_args_def enqueue_def cmq_new_def has_overlap_def in_flight_paths_def
  compute_priority_def objective_weight_def OBJECTIVE_WEIGHTS_def dget_or_def VALID_AGENTS_def
  VALID_BLAST_TIERS_def now_ms_def log_event_def build_event_def update_state_hmac_def GOVERNOR_def Let_def

theorem cmq_reachable_well_formed_witness:
  "list_all entry_ok (q_entries (demo_queue (\<lambda>x. x)))
    \<and> sorted_wrt (<) (map enqueue_timestamp (q_entries (demo_queue (\<lambda>x. x))))
    \<and> mset (q_in_flight (demo_queue (\<lambda>x. x))) =
       image_mset mutation_id (filter_mset (\<lambda>e. status e = IN_FLIGHT) (mset (q_entries (demo_queue (\<lambda>x. x)))))"
  by (rule cmq_reachable_well_formed [OF demo_reachable])

text \<open>
  C33 Dequeuing until nothing waits gives out the waiting entries sorted by descending
  priority score and, for equal scores, by enqueue time: exactly the stable sort by the key of the
  code, whatever changes of state the dequeues make on the way.\<close>

theorem cmq_drains_by_priority:
  assumes "cmq_verify_chain s"
  shows "drain (take_next hm) (length (waiting_entries s)) s = sort_key queue_key (waiting_entries s)"
  using assms by (rule queue_buffer.drain_sorts)

lemma demo_verifies: "cmq_verify_chain (demo_queue hm)"
  unfolding demo_queue_def
  by (simp add: demo_simps cmq_verify_chain_def append_line_def is_ok_iff)

theorem cmq_drains_by_priority_witness:
  "drain (take_next (\<lambda>x. x)) (length (waiting_entries (demo_queue (\<lambda>x. x)))) (demo_queue (\<lambda>x. x))
     = sort_key queue_key (waiting_entries (demo_queue (\<lambda>x. x)))"
  by (rule cmq_drains_by_priority [OF demo_verifies])

text \<open>
  If no waiting mutation declares an objective twice, a waiting HUMAN-0 override is
  dequeued before every ordinary mutation.\<close>

theorem cmq_human0_first:
  assumes "cmq_reachable hm s" "cmq_verify_chain s"
    and "\<forall>e \<in> set (waiting_entries s). distinct (governance_objectives e)"
    and "\<exists>e \<in> set (waiting_entries s). human0_override e"
    and "take_next hm s = Some (e, s')"
  shows "human0_override e"
proof (rule ccontr)
  assume n: "\<not> human0_override e"
  obtain h where h: "h \<in> set (waiting_entries s)" "human0_override h" using assms(4) by blast
  have ok: "\<And>x. x \<in> set (waiting_entries s) \<Longrightarrow> entry_ok x"
    using reachable_inv [OF assms(1)] by (auto simp: cmq_inv_def list_all_iff waiting_entries_def)
  note e = take_next_waiting [OF assms(2,5)]
  have "priority_score e < HUMAN0_PRIORITY"
    using ordinary_score [OF ok [OF e(1)]] assms(3) e(1) n by blast
  moreover have "priority_score h = HUMAN0_PRIORITY"
    by (rule human0_score [OF ok [OF h(1)] h(2)])
  ultimately show False using e(2) [OF h(1)] by (simp add: queue_key_def)
qed

theorem cmq_human0_first_witness:
  "human0_override (fst (the (take_next (\<lambda>x. x) (demo_queue (\<lambda>x. x)))))"
proof -
  let ?q = "demo_queue (\<lambda>x. x)"
  have w: "map human0_override (waiting_entries ?q) = [False, True]"
    "map governance_objectives (waiting_entries ?q) = [[''DETERMINISM''], []]"
    by (simp_all add: demo_queue_def waiting_entries_def demo_simps)
  then have "waiting_entries ?q \<noteq> []" by auto
  then obtain e s' where t: "take_next (\<lambda>x. x) ?q = Some (e, s')"
    using queue_buffer.take_none [OF demo_verifies] by fastforce
  have "list_all distinct (map governance_objectives (waiting_entries ?q))" unfolding w(2) by simp
  then have o1: "\<forall>e \<in> set (waiting_entries ?q). distinct (governance_objectives e)"
    by (simp add: list_all_iff)
  have "True \<in> set (map human0_override (waiting_entries ?q))" unfolding w(1) by simp
  then have o2: "\<exists>e \<in> set (waiting_entries ?q). human0_override e" by auto
  show ?thesis using cmq_human0_first [OF demo_reachable demo_verifies o1 o2 t] t by simp
qed

definition stuffed_queue :: "(string \<Rightarrow> string) \<Rightarrow> cmq" where
  "stuffed_queue hm =
     snd (enqueue hm True (demo_args ''m1'' [''a''] (replicate 194 ''HUMAN0_GATE'') False)
       (snd (enqueue hm True (demo_args ''h'' [''b''] [] True) (cmq_new hm None 0))))"

lemma stuffed_queue_facts:
  "map (\<lambda>e. (mutation_id e, priority_score e)) (waiting_entries (stuffed_queue hm)) = [(''h'', 9999), (''m1'', 10000)]"
  "cmq_verify_chain (stuffed_queue hm)"
  by (simp_all add: stuffed_queue_def waiting_entries_def demo_simps HUMAN0_PRIORITY_def
      cmq_verify_chain_def append_line_def is_ok_iff sum_list_replicate)

text \<open>
  Without that side condition the override loses: the weight of an objective is added once
  per mention, and a \<open>MutationAgent\<close> candidate naming \<open>HUMAN0_GATE\<close> 194 times scores 10000 and is
  dequeued before the HUMAN-0 override of score 9999 that was enqueued earlier.\<close>

theorem cmq_repeated_objective_outranks_human0:
  "map_option (\<lambda>(e, s'). (mutation_id e, author e)) (take_next hm (stuffed_queue hm))
     = Some (''m1'', ''MutationAgent'')"
proof -
  let ?q = "stuffed_queue hm"
  have "waiting_entries ?q \<noteq> []" using stuffed_queue_facts(1) [of hm] by auto
  then obtain e s' where t: "take_next hm ?q = Some (e, s')"
    using queue_buffer.take_none [OF stuffed_queue_facts(2)] by fastforce
  note e = take_next_waiting [OF stuffed_queue_facts(2) t]
  have auth: "map author (waiting_entries ?q) = [GOVERNOR, ''MutationAgent'']"
    by (simp add: stuffed_queue_def waiting_entries_def demo_simps)
  obtain x y where w: "waiting_entries ?q = [x, y]"
    using stuffed_queue_facts(1) [of hm] by (auto simp: map_eq_Cons_conv)
  then have "e = y"
    using e stuffed_queue_facts(1) [of hm] by (fastforce simp: queue_key_def)
  then show ?thesis using t w auth stuffed_queue_facts(1) [of hm] by simp
qed

lemma in_flight_paths_complete:
  assumes "cmq_inv s" "distinct (map mutation_id (q_entries s))"
    and "d \<in> set (q_entries s)" "status d = IN_FLIGHT"
  shows "set (scope_paths d) \<subseteq> set (in_flight_paths s)"
proof -
  have "mutation_id d \<in># image_mset mutation_id (filter_mset (\<lambda>e. status e = IN_FLIGHT) (mset (q_entries s)))"
    using assms(3,4) by simp
  then have "mutation_id d \<in># mset (q_in_flight s)" using assms(1) by (simp only: cmq_inv_def)
  then have m: "mutation_id d \<in> set (q_in_flight s)" by simp
  obtain i where i: "find_entry (mutation_id d) (q_entries s) = Some i"
    using assms(3) find_entry_None by (metis imageI not_Some_eq)
  have "q_entries s ! i = d"
    using find_entry_Some [OF i] assms(2,3)
    by (metis (no_types, lifting) in_set_conv_nth length_map nth_eq_iff_index_eq nth_map)
  with i have "p \<in> set (in_flight_paths s)" if "p \<in> set (scope_paths d)" for p
    using that m unfolding in_flight_paths_def
    by (auto intro!: bexI [where x = "mutation_id d"])
  then show ?thesis by blast
qed

text \<open>
  An \<open>enqueue\<close> that is accepted has no path that overlaps a path of a mutation in flight,
  as long as mutation ids are unique in the queue (nothing in the code enforces that).\<close>

theorem cmq_accepted_scope_is_free:
  assumes "cmq_reachable hm s" "distinct (map mutation_id (q_entries s))"
    and "fst (enqueue hm wr a s) = Inr e"
    and "d \<in> set (q_entries s)" "status d = IN_FLIGHT" "p \<in> set (scope_paths e)" "q \<in> set (scope_paths d)"
  shows "\<not> startswith p q \<and> \<not> startswith q p"
proof (cases rule: enqueue_cases [of hm wr a s])
  case (added e')
  then have "e' = e" using assms(3) by (auto split: if_splits)
  have "q \<in> set (in_flight_paths s)"
    using in_flight_paths_complete [OF reachable_inv [OF assms(1)] assms(2,4,5)] assms(7) by blast
  then show ?thesis using added(9,10) assms(6) \<open>e' = e\<close>
    by (auto simp: has_overlap_def list_ex_iff paths_overlap_def)
qed (use assms(3) in auto)

definition flying_queue :: "(string \<Rightarrow> string) \<Rightarrow> cmq" where
  "flying_queue hm = snd (dequeue hm True
     (snd (enqueue hm True (demo_args ''m1'' [''src/a''] [] False) (cmq_new hm None 0))))"

lemma flying_reachable: "cmq_reachable hm (flying_queue hm)"
  unfolding flying_queue_def by (intro reach_step [OF _ step_enqueue] reach_step [OF _ step_dequeue] reach_new)

lemmas pick_simps = dequeue_def select_def candidates_def cmq_verify_chain_def append_line_def
  is_ok_iff queue_key_def

lemma flying_entries:
  "map (\<lambda>e. (mutation_id e, status e, scope_paths e)) (q_entries (flying_queue hm)) = [(''m1'', IN_FLIGHT, [''src/a''])]"
  by (simp add: flying_queue_def demo_simps pick_simps)

theorem cmq_accepted_scope_is_free_witness:
  "\<not> startswith ''docs/b'' ''src/a'' \<and> \<not> startswith ''src/a'' ''docs/b''"
proof -
  let ?q = "flying_queue (\<lambda>x. x)"
  obtain d where d: "q_entries ?q = [d]" "status d = IN_FLIGHT" "scope_paths d = [''src/a'']"
    using flying_entries [of "\<lambda>x. x"] by (auto simp: map_eq_Cons_conv)
  obtain e where e: "fst (enqueue (\<lambda>x. x) True (demo_args ''m2'' [''docs/b''] [] False) ?q) = Inr e"
    "scope_paths e = [''docs/b'']"
    by (simp add: flying_queue_def demo_simps pick_simps paths_overlap_def startswith_def)
  show ?thesis
    by (rule cmq_accepted_scope_is_free [OF flying_reachable _ e(1), of d]) (use d e(2) in simp_all)
qed

text \<open>
  The overlap check runs only against mutations in flight, and only at \<open>enqueue\<close>: two
  candidates that declare the same scope can both wait, and two dequeues put both in flight.\<close>

theorem cmq_same_scope_advances_twice:
  "map (\<lambda>e. (mutation_id e, status e, scope_paths e))
     (q_entries (snd (dequeue hm True (snd (dequeue hm True
       (snd (enqueue hm True (demo_args ''m2'' [''src/a''] [] False)
         (snd (enqueue hm True (demo_args ''m1'' [''src/a''] [] False) (cmq_new hm None 0))))))))))
   = [(''m1'', IN_FLIGHT, [''src/a'']), (''m2'', IN_FLIGHT, [''src/a''])]"
  by (simp add: demo_simps pick_simps)

text \<open>
  The check that guards \<open>dequeue\<close> accepts every ledger whose lines parse: whatever rows
  an attacker writes into the file, dequeuing goes on as before.\<close>

theorem cmq_verify_chain_accepts_rewriting:
  "cmq_verify_chain (s\<lparr>q_ledger := Some (map Row rows)\<rparr>)
    \<and> (fst (dequeue hm wr (s\<lparr>q_ledger := Some (map Row rows)\<rparr>)) \<noteq> Inl CMQChainBroken)"
proof -
  have v: "cmq_verify_chain (s\<lparr>q_ledger := Some (map Row rows)\<rparr>)" by (simp add: cmq_verify_chain_def)
  then show ?thesis
    by (auto simp: dequeue_def log_event_result Let_def split: option.splits)
qed

end
