(* ===== verification/IsoTime.thy ===== *)
theory IsoTime
  imports Json
begin

text \<open>
  \<open>datetime.fromisoformat\<close> of Python 3.11, the version the project asks for, as \<open>human_approval_gate.py\<close> uses it: dates by
  month and by week, with and without separators, any character between date and time, times down to fractions
  of any length, offsets down to seconds, and what the C implementation of it also lets through (a sixth pair of digits as a fraction,
  text behind the seventh digit of a time that an offset follows). The result is in microseconds since 1970-01-01 UTC; \<open>None\<close> where the function raises, and for a value
  without an offset, which cannot be subtracted from an aware one. A NUL inside of a text, which the C code takes for its end, is a
  character like others.
\<close>

section \<open>Digits\<close>

definition int_val :: "string \<Rightarrow> int" where
  "int_val s = foldl (\<lambda>n c. 10 * n + (of_char c - 48)) 0 s"

definition take_num :: "nat \<Rightarrow> string \<Rightarrow> (int \<times> string) option" where
  "take_num n s =
     (if length (take n s) = n \<and> list_all is_digit (take n s) then Some (int_val (take n s), drop n s)
      else None)"

definition char_at :: "nat \<Rightarrow> string \<Rightarrow> char option" where
  "char_at n s = (case drop n s of [] \<Rightarrow> None | c # r \<Rightarrow> Some c)"

definition skip_char :: "bool \<Rightarrow> char \<Rightarrow> string \<Rightarrow> string option" where
  "skip_char want c s = (if \<not> want then Some s else case s of [] \<Rightarrow> None | x # r \<Rightarrow> if x = c then Some r else None)"

section \<open>The date\<close>

definition leap :: "int \<Rightarrow> bool" where
  "leap y \<longleftrightarrow> y mod 4 = 0 \<and> (y mod 100 \<noteq> 0 \<or> y mod 400 = 0)"

definition days_in_month :: "int \<Rightarrow> nat \<Rightarrow> int" where
  "days_in_month y mo =
     (if mo = 2 \<and> leap y then 29 else [31, 28, 31, 30, 31, 30, 31, 31, 30, 31, 30, 31] ! (mo - 1))"

definition ordinal :: "int \<Rightarrow> nat \<Rightarrow> int \<Rightarrow> int" where
  "ordinal y mo d =
     (let p = y - 1
      in p * 365 + p div 4 - p div 100 + p div 400 + sum_list (map (days_in_month y) [1..<mo]) + d)"

definition MAX_ORDINAL :: int where
  "MAX_ORDINAL = 3652059"

text \<open>Day \<open>d\<close> of week \<open>w\<close>: week 1 has the first Thursday; week 53 is there when the year starts on a Thursday, or is a leap
  year and starts on a Wednesday.\<close>

definition week_day :: "int \<Rightarrow> int \<Rightarrow> int \<Rightarrow> int option" where
  "week_day y w d =
     (let jan = ordinal y 1 1; weekday = (jan + 6) mod 7;
          monday = jan - weekday + (if 3 < weekday then 7 else 0);
          day = monday + (w - 1) * 7 + d - 1
      in if 1 \<le> y \<and> 1 \<le> w \<and> (w \<le> 52 \<or> w = 53 \<and> (weekday = 3 \<or> weekday = 2 \<and> leap y)) \<and>
           1 \<le> d \<and> d \<le> 7 \<and> day \<le> MAX_ORDINAL
         then Some day else None)"

definition month_day :: "int \<Rightarrow> int \<Rightarrow> int \<Rightarrow> int option" where
  "month_day y mo d =
     (if 1 \<le> y \<and> 1 \<le> mo \<and> mo \<le> 12 \<and> 1 \<le> d \<and> d \<le> days_in_month y (nat mo) then Some (ordinal y (nat mo) d) else None)"

definition iso_date :: "string \<Rightarrow> int option" where
  "iso_date s =
     Option.bind (take_num 4 s) (\<lambda>(y, r).
       let dash = char_at 0 r = Some (CHR ''-''); r = (if dash then tl r else r)
       in if char_at 0 r = Some (CHR ''W'')
          then Option.bind (take_num 2 (tl r)) (\<lambda>(w, r).
                 if r = [] then week_day y w 1
                 else Option.bind (skip_char dash (CHR ''-'') r) (\<lambda>r.
                      Option.bind (take_num 1 r) (\<lambda>(d, r). week_day y w d)))
          else Option.bind (take_num 2 r) (\<lambda>(mo, r).
               Option.bind (skip_char dash (CHR ''-'') r) (\<lambda>r.
               Option.bind (take_num 2 r) (\<lambda>(d, r). month_day y mo d))))"

text \<open>Where the date ends.\<close>

definition separator_at :: "string \<Rightarrow> nat option" where
  "separator_at s =
     (if length s = 7 then Some 7
      else if char_at 4 s = Some (CHR ''-'') then
        (if char_at 5 s = Some (CHR ''W'') then
           (if char_at 8 s = Some (CHR ''-'') then
              (if length s = 9 then None
               else case char_at 10 s of
                 None \<Rightarrow> Some 10
               | Some c \<Rightarrow> Some (if is_digit c then 8 else 10))
            else Some 8)
         else Some 10)
      else if char_at 4 s = Some (CHR ''W'') then
        (let n = 7 + length (takeWhile is_digit (drop 7 s))
         in Some (if n < 9 then n else if even n then 7 else 8))
      else Some 8)"

section \<open>The time\<close>

text \<open>A time or an offset, as hours, minutes, seconds and microseconds, and whether all of the text was used: \<open>followed\<close> is set when
  something comes behind it, \<open>n\<close> counts the pairs still to read, \<open>sep\<close> says whether they are separated.\<close>

definition fraction :: "bool \<Rightarrow> string \<Rightarrow> (int list \<times> bool) option" where
  "fraction followed s =
     (let n = min 6 (length s)
      in map_option (\<lambda>(v, r). ([v * 10 ^ (6 - n)], dropWhile is_digit r = [] \<and> \<not> followed)) (take_num n s))"

definition put_first :: "int list \<Rightarrow> (int list \<times> bool) option \<Rightarrow> (int list \<times> bool) option" where
  "put_first vs x = map_option (\<lambda>(ws, whole). (vs @ ws, whole)) x"

fun clock_time :: "bool \<Rightarrow> nat \<Rightarrow> bool option \<Rightarrow> string \<Rightarrow> (int list \<times> bool) option" where
  "clock_time followed 0 sep s = fraction followed s"
| "clock_time followed (Suc n) sep s =
     (case take_num 2 s of
        None \<Rightarrow> None
      | Some (v, []) \<Rightarrow> Some (v # replicate (Suc n) 0, \<not> followed)
      | Some (v, c # r) \<Rightarrow>
          (let sp = (case sep of None \<Rightarrow> c = CHR '':'' | Some b \<Rightarrow> b)
           in if r = [] \<and> (of_char c :: nat) < 128 then Some (v # replicate (Suc n) 0, False)
              else if sp \<and> c = CHR '':'' then put_first [v] (clock_time followed n (Some sp) r)
              else if c = CHR ''.'' \<or> c = CHR '','' then put_first (v # replicate n 0) (fraction followed r)
              else if \<not> sp then put_first [v] (clock_time followed n (Some sp) (c # r))
              else None))"

definition utc_offset :: "string \<Rightarrow> int option" where
  "utc_offset s =
     (case s of
        [] \<Rightarrow> None
      | c # r \<Rightarrow>
          if c = CHR ''Z'' then (if r = [] then Some 0 else None)
          else
            case clock_time False 3 None r of
              Some ([h, mi, sec, us], True) \<Rightarrow>
                (let t = h * 3600 + mi * 60 + sec; off = (if t = 0 then 0 else t * 1000000 + us)
                 in if off < 86400000000 then Some (if c = CHR ''-'' then - off else off) else None)
            | _ \<Rightarrow> None)"

definition day_time :: "string \<Rightarrow> int option" where
  "day_time s =
     (case clock_time True 3 None s of
        Some ([h, mi, sec, us], whole) \<Rightarrow>
          if h \<le> 23 \<and> mi \<le> 59 \<and> sec \<le> 59 then Some (h * 3600000000 + mi * 60000000 + sec * 1000000 + us) else None
      | _ \<Rightarrow> None)"

definition zone_sign :: "char \<Rightarrow> bool" where
  "zone_sign c \<longleftrightarrow> c \<in> {CHR ''+'', CHR ''-'', CHR ''Z''}"

definition iso_micros :: "string \<Rightarrow> int option" where
  "iso_micros s =
     (if length s < 7 then None
      else Option.bind (separator_at s) (\<lambda>p.
           Option.bind (iso_date (take p s)) (\<lambda>day.
           let t = drop (p + 1) s
           in Option.bind (day_time (takeWhile (\<lambda>c. \<not> zone_sign c) t)) (\<lambda>us.
              map_option (\<lambda>off. (day - 719163) * 86400000000 + us - off) (utc_offset (dropWhile (\<lambda>c. \<not> zone_sign c) t))))))"

text \<open>The formats the code writes, the basic format, and a day of a week name the same moment.\<close>

lemma iso_examples:
  "iso_micros ''2026-01-01T00:00:00+00:00'' = Some 1767225600000000"
  "iso_micros ''20260101T000000+0000'' = Some 1767225600000000"
  "iso_micros ''2026-W01-4T00+00'' = Some 1767225600000000"
  "iso_micros ''2026-01-01T01:00:00.000000+01:00'' = Some 1767225600000000"
  "iso_micros ''2026-01-01T00:00:00'' = None" "iso_micros ''2026-13-01T00:00:00+00:00'' = None" "iso_micros ''yesterday'' = None"
  by code_simp+

end
