(* ===== verification/HumanApproval.thy ===== *)
theory HumanApproval
  imports IsoTime
begin

text \<open>
  \<open>runtime/governance/human_approval_gate.py\<close>: the human approval gate. Two append-only
  JSONL logs (queue and audit), an index file derived from them and an in-memory cache of the
  index. The gate object is a state record; every method returns its value or exception together
  with the new state. Clock readings are arguments, in the order the code takes them. A row
  stands for its value up to key order, which nothing here observes; the index file is either a
  state of the right shape or \<open>None\<close> (missing, unreadable, a key missing). File operations
  succeed, and the external \<open>audit_writer\<close>, whose errors are swallowed, is left out.
\<close>

section \<open>Timestamps\<close>

definition replace_char :: "char \<Rightarrow> string \<Rightarrow> string \<Rightarrow> string" where
  "replace_char c r s = concat (map (\<lambda>x. if x = c then r else [x]) s)"

section \<open>Constants and data\<close>

definition APPROVAL_EXPIRY_S :: int where
  "APPROVAL_EXPIRY_S = 86400 * 7"

definition HUMAN0_GPG_FINGERPRINT :: string where
  "HUMAN0_GPG_FINGERPRINT = ''4C95E2F99A775335B1CF3DAF247B015A1CCD95F6''"

text \<open>\<open>_STRICT_HUMAN0\<close> from the two environment variables (\<open>None\<close>: not set).\<close>

definition strict_human0 :: "string option \<Rightarrow> string option \<Rightarrow> bool" where
  "strict_human0 flag env \<longleftrightarrow>
     py_strip (case flag of None \<Rightarrow> ''0'' | Some v \<Rightarrow> v) = ''1'' \<or>
     py_lower (py_strip (case env of None \<Rightarrow> [] | Some v \<Rightarrow> v)) \<notin> {''dev'', ''test'', []}"

datatype approval_status = PENDING | APPROVED | REJECTED | REVOKED | EXPIRED

fun approval_value :: "approval_status \<Rightarrow> string" where
  "approval_value PENDING = ''pending''"
| "approval_value APPROVED = ''approved''"
| "approval_value REJECTED = ''rejected''"
| "approval_value REVOKED = ''revoked''"
| "approval_value EXPIRED = ''expired''"

datatype hapg_error = IdentityViolation | ApprovalIdNotFound string | HapgPy py_error

record approval_request =
  r_approval_id :: string
  r_mutation_id :: string
  r_epoch_id :: string
  r_reason :: string
  r_requested_at :: string
  r_metadata :: obj

definition request_payload :: "approval_request \<Rightarrow> obj" where
  "request_payload r =
    [(''approval_id'', JStr (r_approval_id r)), (''mutation_id'', JStr (r_mutation_id r)),
     (''epoch_id'', JStr (r_epoch_id r)), (''reason'', JStr (r_reason r)),
     (''requested_at'', JStr (r_requested_at r)), (''metadata'', JObj (r_metadata r))]"

text \<open>The mutation and epoch of a decision are whatever the stored request holds.\<close>

record approval_decision =
  d_approval_id :: string
  d_mutation_id :: json
  d_epoch_id :: json
  d_status :: string
  d_operator_id :: string
  d_decided_at :: string
  d_notes :: string
  d_digest :: string

definition decision_payload :: "approval_decision \<Rightarrow> obj" where
  "decision_payload d =
    [(''approval_id'', JStr (d_approval_id d)), (''mutation_id'', d_mutation_id d),
     (''epoch_id'', d_epoch_id d), (''status'', JStr (d_status d)),
     (''operator_id'', JStr (d_operator_id d)), (''decided_at'', JStr (d_decided_at d)),
     (''notes'', JStr (d_notes d)), (''decision_digest'', JStr (d_digest d))]"

definition decision_digest ::
  "(string \<Rightarrow> string) \<Rightarrow> string \<Rightarrow> json \<Rightarrow> string \<Rightarrow> string \<Rightarrow> string \<Rightarrow> string"
where
  "decision_digest sha aid mid status op decided_at =
     sha (canonical True (JObj
       [(''approval_id'', JStr aid), (''mutation_id'', mid), (''status'', JStr status),
        (''operator_id'', JStr op), (''decided_at'', JStr decided_at)]))"

section \<open>The index\<close>

record hstate =
  h_requests :: "string \<rightharpoonup> obj"
  h_status :: "string \<rightharpoonup> string"
  h_decided :: "string set"
  h_order :: "string list"
  h_queue_digest :: string
  h_audit_digest :: string

record hapg =
  g_queue :: "line list"
  g_audit :: "line list"
  g_index :: "hstate option"
  g_cache :: "hstate option"

definition digest_jsonl :: "(string \<Rightarrow> string) \<Rightarrow> line list \<Rightarrow> string" where
  "digest_jsonl sha ls = sha (concat (map (canonical True) (parsed ls)))"

text \<open>\<open>_apply_audit_to_state\<close>\<close>

definition apply_audit :: "json \<Rightarrow> json \<Rightarrow> hstate \<Rightarrow> hstate res" where
  "apply_audit event_type payload st =
     (if event_type = JStr ''approval_decision'' then
        ebind (as_obj payload) (\<lambda>p.
          (let st1 = (case dget p ''approval_id'' of
                        Some (JStr aid) \<Rightarrow> st\<lparr>h_decided := insert aid (h_decided st)\<rparr>
                      | _ \<Rightarrow> st)
           in Inr (case (dget p ''mutation_id'', dget p ''status'') of
                     (Some (JStr mid), Some (JStr status)) \<Rightarrow>
                        st1\<lparr>h_status := (h_status st1)(mid \<mapsto> status)\<rparr>
                   | _ \<Rightarrow> st1)))
      else if event_type = JStr ''approval_revoked'' then
        ebind (as_obj payload) (\<lambda>p.
          Inr (case dget p ''mutation_id'' of
                 Some (JStr mid) \<Rightarrow> st\<lparr>h_status := (h_status st)(mid \<mapsto> approval_value REVOKED)\<rparr>
               | _ \<Rightarrow> st))
      else Inr st)"

definition apply_row :: "json \<Rightarrow> hstate \<Rightarrow> hstate res" where
  "apply_row row st =
     ebind (as_obj row) (\<lambda>e.
       apply_audit (dget_or e ''event_type'' (JStr [])) (dget_or e ''payload'' (JObj [])) st)"

fun apply_rows :: "json list \<Rightarrow> hstate \<Rightarrow> hstate res" where
  "apply_rows [] st = Inr st"
| "apply_rows (row # rows) st = ebind (apply_row row st) (apply_rows rows)"

fun queue_rows :: "json list \<Rightarrow> hstate \<Rightarrow> hstate res" where
  "queue_rows [] st = Inr st"
| "queue_rows (row # rows) st =
     ebind (as_obj row) (\<lambda>e.
       queue_rows rows
         (case dget e ''approval_id'' of
            Some (JStr aid) \<Rightarrow>
              st\<lparr>h_requests := (h_requests st)(aid \<mapsto> e), h_order := h_order st @ [aid]\<rparr>
          | _ \<Rightarrow> st))"

definition h_empty :: hstate where
  "h_empty = \<lparr>h_requests = Map.empty, h_status = Map.empty, h_decided = {}, h_order = [],
     h_queue_digest = [], h_audit_digest = []\<rparr>"

definition replay_state :: "(string \<Rightarrow> string) \<Rightarrow> line list \<Rightarrow> line list \<Rightarrow> hstate res" where
  "replay_state sha queue audit =
     ebind (queue_rows (parsed queue) h_empty) (\<lambda>st.
     ebind (apply_rows (parsed audit) st) (\<lambda>st.
       Inr (st\<lparr>h_queue_digest := digest_jsonl sha queue, h_audit_digest := digest_jsonl sha audit\<rparr>)))"

definition write_index :: "hstate \<Rightarrow> hapg \<Rightarrow> hapg" where
  "write_index st g = g\<lparr>g_index := Some st, g_cache := Some st\<rparr>"

definition consistent_with_logs :: "(string \<Rightarrow> string) \<Rightarrow> hapg \<Rightarrow> hstate \<Rightarrow> bool" where
  "consistent_with_logs sha g st \<longleftrightarrow>
     h_queue_digest st = digest_jsonl sha (g_queue g) \<and> h_audit_digest st = digest_jsonl sha (g_audit g)"

text \<open>\<open>_load_index_or_rebuild\<close>\<close>

definition rebuild :: "(string \<Rightarrow> string) \<Rightarrow> hapg \<Rightarrow> (hapg_error + hstate) \<times> hapg" where
  "rebuild sha g =
     (case replay_state sha (g_queue g) (g_audit g) of
        Inl e \<Rightarrow> (Inl (HapgPy e), g)
      | Inr st \<Rightarrow> (Inr st, write_index st g))"

definition load_index :: "(string \<Rightarrow> string) \<Rightarrow> hapg \<Rightarrow> (hapg_error + hstate) \<times> hapg" where
  "load_index sha g =
     (case g_cache g of
        Some st \<Rightarrow> (Inr st, g)
      | None \<Rightarrow>
          (case g_index g of
             None \<Rightarrow> rebuild sha g
           | Some st \<Rightarrow>
               if consistent_with_logs sha g st then (Inr st, g\<lparr>g_cache := Some st\<rparr>)
               else rebuild sha g))"

text \<open>Construction on existing logs (\<open>_ensure_paths\<close>).\<close>

definition gate_new ::
  "(string \<Rightarrow> string) \<Rightarrow> line list \<Rightarrow> line list \<Rightarrow> hstate option \<Rightarrow> (hapg_error + unit) \<times> hapg"
where
  "gate_new sha queue audit index =
     (let g = \<lparr>g_queue = queue, g_audit = audit, g_index = index, g_cache = None\<rparr>
      in if index = None then (case rebuild sha g of (r, g') \<Rightarrow> (map_sum id (\<lambda>_. ()) r, g'))
         else (Inr (), g))"

section \<open>Operations\<close>

text \<open>\<open>_append_queue_with_state\<close>\<close>

definition append_queue :: "(string \<Rightarrow> string) \<Rightarrow> obj \<Rightarrow> hstate \<Rightarrow> hapg \<Rightarrow> hstate \<times> hapg" where
  "append_queue sha payload st g =
     (let g1 = g\<lparr>g_queue := g_queue g @ [Row (JObj payload)]\<rparr>;
          st1 = (case dget payload ''approval_id'' of
                   Some (JStr aid) \<Rightarrow>
                     st\<lparr>h_requests := (h_requests st)(aid \<mapsto> payload), h_order := h_order st @ [aid]\<rparr>
                 | _ \<Rightarrow> st);
          st2 = st1\<lparr>h_queue_digest := digest_jsonl sha (g_queue g1)\<rparr>
      in (st2, write_index st2 g1))"

text \<open>\<open>_write_audit_with_state\<close>\<close>

definition audit_entry :: "string \<Rightarrow> string \<Rightarrow> obj \<Rightarrow> json" where
  "audit_entry event_type now payload =
     JObj [(''event_type'', JStr event_type), (''timestamp'', JStr now), (''payload'', JObj payload)]"

definition write_audit_with_state ::
  "(string \<Rightarrow> string) \<Rightarrow> string \<Rightarrow> obj \<Rightarrow> string \<Rightarrow> hstate \<Rightarrow> hapg \<Rightarrow> (hapg_error + hstate) \<times> hapg"
where
  "write_audit_with_state sha event_type payload now st g =
     (let g1 = g\<lparr>g_audit := g_audit g @ [Row (audit_entry event_type now payload)]\<rparr>
      in case apply_audit (JStr event_type) (JObj payload) st of
           Inl e \<Rightarrow> (Inl (HapgPy e), g1)
         | Inr st1 \<Rightarrow>
             (let st2 = st1\<lparr>h_audit_digest := digest_jsonl sha (g_audit g1)\<rparr>
              in (Inr st2, write_index st2 g1)))"

definition write_audit ::
  "(string \<Rightarrow> string) \<Rightarrow> string \<Rightarrow> obj \<Rightarrow> string \<Rightarrow> hapg \<Rightarrow> (hapg_error + hstate) \<times> hapg"
where
  "write_audit sha event_type payload now g =
     ethen (load_index sha g) (write_audit_with_state sha event_type payload now)"

definition generate_approval_id :: "(string \<Rightarrow> string) \<Rightarrow> string \<Rightarrow> string \<Rightarrow> string \<Rightarrow> string" where
  "generate_approval_id sha mid epoch now = ''appr-'' @ take 16 (sha (mid @ '':'' @ epoch @ '':'' @ now))"

text \<open>\<open>_request_approval_with_state\<close>; \<open>t1\<close>, \<open>t2\<close>, \<open>t3\<close> are the clock readings for the id, the
  request and the audit row.\<close>

definition request_with_state ::
  "(string \<Rightarrow> string) \<Rightarrow> string \<Rightarrow> string \<Rightarrow> string \<Rightarrow> obj \<Rightarrow> string \<times> string \<times> string \<Rightarrow>
   hstate \<Rightarrow> hapg \<Rightarrow> (hapg_error + string \<times> hstate) \<times> hapg"
where
  "request_with_state sha mid epoch reason metadata ts st g =
     (let (t1, t2, t3) = ts;
          aid = generate_approval_id sha mid epoch t1;
          payload = request_payload \<lparr>r_approval_id = aid, r_mutation_id = mid, r_epoch_id = epoch,
            r_reason = reason, r_requested_at = t2, r_metadata = metadata\<rparr>;
          (st1, g1) = append_queue sha payload st g
      in ethen (write_audit_with_state sha ''approval_requested''
            (dput ''status'' (JStr (approval_value PENDING)) payload) t3 st1 g1)
          (\<lambda>st2 g2. (Inr (aid, st2), g2)))"

definition request_approval ::
  "(string \<Rightarrow> string) \<Rightarrow> string \<Rightarrow> string \<Rightarrow> string \<Rightarrow> obj \<Rightarrow> string \<times> string \<times> string \<Rightarrow>
   hapg \<Rightarrow> (hapg_error + string) \<times> hapg"
where
  "request_approval sha mid epoch reason metadata ts g =
     ethen (load_index sha g) (\<lambda>st g.
     ethen (request_with_state sha mid epoch reason metadata ts st g) (\<lambda>(aid, st) g. (Inr aid, g)))"

fun find_row :: "string \<Rightarrow> json list \<Rightarrow> obj option res" where
  "find_row aid [] = Inr None"
| "find_row aid (row # rows) =
     ebind (as_obj row) (\<lambda>e.
       if dget e ''approval_id'' = Some (JStr aid) then Inr (Some e) else find_row aid rows)"

definition find_request ::
  "(string \<Rightarrow> string) \<Rightarrow> string \<Rightarrow> hapg \<Rightarrow> (hapg_error + obj option) \<times> hapg"
where
  "find_request sha aid g =
     ethen (load_index sha g) (\<lambda>st g.
       case h_requests st aid of
         Some r \<Rightarrow> (Inr (Some r), g)
       | None \<Rightarrow> (map_sum HapgPy id (find_row aid (parsed (g_queue g))), g))"

definition canonical_op :: "string \<Rightarrow> string" where
  "canonical_op op = replace_char CHR '':'' [] (replace_char CHR '' '' [] (py_upper (py_strip op)))"

definition identity_ok :: "bool \<Rightarrow> string \<Rightarrow> bool" where
  "identity_ok strict op \<longleftrightarrow> \<not> (strict \<and> canonical_op op \<noteq> replace_char CHR '':'' [] HUMAN0_GPG_FINGERPRINT)"

text \<open>\<open>_record_decision_with_state\<close>; \<open>t1\<close> is \<open>decided_at\<close>, \<open>t2\<close> the time of the audit row.\<close>

definition decide_with_state ::
  "(string \<Rightarrow> string) \<Rightarrow> bool \<Rightarrow> string \<Rightarrow> bool \<Rightarrow> string \<Rightarrow> string \<Rightarrow> string \<times> string \<Rightarrow>
   hstate \<Rightarrow> hapg \<Rightarrow> (hapg_error + approval_decision \<times> hstate) \<times> hapg"
where
  "decide_with_state sha strict aid approved op notes ts st g =
     (let (t1, t2) = ts in
      if \<not> identity_ok strict op then
        ethen (write_audit_with_state sha ''identity_violation''
            [(''operator_id_received'', JStr op), (''expected_fingerprint'', JStr HUMAN0_GPG_FINGERPRINT),
             (''approval_id'', JStr aid), (''invariant'', JStr ''HAPG-IDENTITY-0'')] t2 st g)
          (\<lambda>st g. (Inl IdentityViolation, g))
      else
        ethen (find_request sha aid g) (\<lambda>found g.
          case (case h_requests st aid of Some r \<Rightarrow> Some r | None \<Rightarrow> found) of
            None \<Rightarrow> (Inl (ApprovalIdNotFound aid), g)
          | Some req \<Rightarrow>
              (case (dget req ''mutation_id'', dget req ''epoch_id'') of
                 (None, _) \<Rightarrow> (Inl (HapgPy (KeyError ''mutation_id'')), g)
               | (Some _, None) \<Rightarrow> (Inl (HapgPy (KeyError ''epoch_id'')), g)
               | (Some mid, Some epoch) \<Rightarrow>
                   (let status = approval_value (if approved then APPROVED else REJECTED);
                        d = \<lparr>d_approval_id = aid, d_mutation_id = mid, d_epoch_id = epoch,
                             d_status = status, d_operator_id = op, d_decided_at = t1, d_notes = notes,
                             d_digest = decision_digest sha aid mid status op t1\<rparr>
                    in ethen (write_audit_with_state sha ''approval_decision'' (decision_payload d) t2 st g)
                         (\<lambda>st g. (Inr (d, st), g))))))"

definition record_decision ::
  "(string \<Rightarrow> string) \<Rightarrow> bool \<Rightarrow> string \<Rightarrow> bool \<Rightarrow> string \<Rightarrow> string \<Rightarrow> string \<times> string \<Rightarrow>
   hapg \<Rightarrow> (hapg_error + approval_decision) \<times> hapg"
where
  "record_decision sha strict aid approved op notes ts g =
     ethen (load_index sha g) (\<lambda>st g.
     ethen (decide_with_state sha strict aid approved op notes ts st g) (\<lambda>(d, st) g. (Inr d, g)))"

text \<open>The loop of \<open>batch_approve\<close>; the clock readings come with each mutation id.\<close>

fun batch_loop ::
  "(string \<Rightarrow> string) \<Rightarrow> bool \<Rightarrow> string \<Rightarrow> string \<Rightarrow> string \<Rightarrow> obj \<Rightarrow>
   (string \<times> (string \<times> string \<times> string) \<times> string \<times> string) list \<Rightarrow>
   hstate \<Rightarrow> hapg \<Rightarrow> (hapg_error + approval_decision list) \<times> hapg"
where
  "batch_loop sha strict epoch op notes metadata [] st g = (Inr [], g)"
| "batch_loop sha strict epoch op notes metadata ((mid, ts, us) # ms) st g =
     ethen (request_with_state sha mid epoch ''ApprovalReason.BATCH_RELEASE'' metadata ts st g)
       (\<lambda>(aid, st) g.
     ethen (decide_with_state sha strict aid True op notes us st g) (\<lambda>(d, st) g.
     ethen (batch_loop sha strict epoch op notes metadata ms st g) (\<lambda>ds g. (Inr (d # ds), g))))"

definition batch_approve ::
  "(string \<Rightarrow> string) \<Rightarrow> bool \<Rightarrow> (string \<times> (string \<times> string \<times> string) \<times> string \<times> string) list \<Rightarrow>
   string \<Rightarrow> string \<Rightarrow> string \<Rightarrow> hapg \<Rightarrow> (hapg_error + approval_decision list) \<times> hapg"
where
  "batch_approve sha strict ms epoch op notes g =
     ethen (load_index sha g)
       (batch_loop sha strict epoch op notes [(''batch_size'', JInt (int (length ms)))] ms)"

definition revoke_approval ::
  "(string \<Rightarrow> string) \<Rightarrow> string \<Rightarrow> string \<Rightarrow> string \<Rightarrow> string \<times> string \<Rightarrow> hapg \<Rightarrow> (hapg_error + unit) \<times> hapg"
where
  "revoke_approval sha mid op reason ts g =
     (let (t1, t2) = ts in
      ethen (write_audit sha ''approval_revoked''
          [(''mutation_id'', JStr mid), (''operator_id'', JStr op), (''reason'', JStr reason),
           (''revoked_at'', JStr t1), (''status'', JStr (approval_value REVOKED))] t2 g)
        (\<lambda>st g. (Inr (), g)))"

text \<open>The age of an approval in microseconds; \<open>None\<close> where the code's \<open>try\<close> block raises.\<close>

definition approval_age :: "int \<Rightarrow> obj \<Rightarrow> int option" where
  "approval_age now p =
     (case dget p ''decided_at'' of
        Some (JStr t) \<Rightarrow> map_option (\<lambda>d. now - d) (iso_micros (replace_char CHR ''Z'' ''+00:00'' t))
      | _ \<Rightarrow> None)"

definition approves :: "string \<Rightarrow> obj \<Rightarrow> bool" where
  "approves mid p \<longleftrightarrow>
     dget p ''mutation_id'' = Some (JStr mid) \<and> dget p ''status'' = Some (JStr (approval_value APPROVED))"

text \<open>The loop of \<open>is_approved\<close>: the age of the first expired approval of the mutation.\<close>

fun first_expired :: "string \<Rightarrow> int \<Rightarrow> json list \<Rightarrow> int option res" where
  "first_expired mid now [] = Inr None"
| "first_expired mid now (row # rows) =
     ebind (as_obj row) (\<lambda>e.
       if dget e ''event_type'' \<noteq> Some (JStr ''approval_decision'') then first_expired mid now rows
       else ebind (as_obj (dget_or e ''payload'' (JObj []))) (\<lambda>p.
         if \<not> approves mid p then first_expired mid now rows
         else case approval_age now p of
                None \<Rightarrow> first_expired mid now rows
              | Some age \<Rightarrow>
                  if APPROVAL_EXPIRY_S * 1000000 < age then Inr (Some age)
                  else first_expired mid now rows))"

definition is_approved ::
  "(string \<Rightarrow> string) \<Rightarrow> string \<Rightarrow> int \<Rightarrow> string \<Rightarrow> hapg \<Rightarrow> (hapg_error + bool) \<times> hapg"
where
  "is_approved sha mid now t g =
     ethen (load_index sha g) (\<lambda>st g.
       if h_status st mid \<noteq> Some (approval_value APPROVED) then (Inr False, g)
       else case first_expired mid now (parsed (g_audit g)) of
         Inl e \<Rightarrow> (Inl (HapgPy e), g)
       | Inr None \<Rightarrow> (Inr True, g)
       | Inr (Some age) \<Rightarrow>
           ethen (write_audit sha ''approval_expired''
               [(''mutation_id'', JStr mid), (''status'', JStr (approval_value EXPIRED)),
                (''age_seconds'', JInt (age div 1000000)), (''expiry_threshold_s'', JInt APPROVAL_EXPIRY_S)] t g)
             (\<lambda>st g. (Inr False, g\<lparr>g_cache := None\<rparr>)))"

definition pending_queue :: "(string \<Rightarrow> string) \<Rightarrow> hapg \<Rightarrow> (hapg_error + obj list) \<times> hapg" where
  "pending_queue sha g =
     ethen (load_index sha g) (\<lambda>st g.
       (Inr (List.map_filter (\<lambda>aid. if aid \<in> h_decided st then None else h_requests st aid) (h_order st)), g))"

definition verify_index_consistency :: "(string \<Rightarrow> string) \<Rightarrow> hapg \<Rightarrow> (hapg_error + bool) \<times> hapg" where
  "verify_index_consistency sha g =
     ethen (load_index sha g) (\<lambda>st g.
       case replay_state sha (g_queue g) (g_audit g) of
         Inl e \<Rightarrow> (Inl (HapgPy e), g)
       | Inr r \<Rightarrow>
           (Inr (h_queue_digest st = h_queue_digest r \<and> h_audit_digest st = h_audit_digest r), g))"

fun trail :: "json \<Rightarrow> json list \<Rightarrow> json list res" where
  "trail mid [] = Inr []"
| "trail mid (row # rows) =
     ebind (as_obj row) (\<lambda>e. ebind (as_obj (dget_or e ''payload'' (JObj []))) (\<lambda>p.
     ebind (trail mid rows) (\<lambda>rs. Inr (if dget_or p ''mutation_id'' JNull = mid then row # rs else rs))))"

definition audit_trail :: "string option \<Rightarrow> hapg \<Rightarrow> json list res" where
  "audit_trail mid g =
     (case mid of None \<Rightarrow> Inr (parsed (g_audit g)) | Some m \<Rightarrow> trail (JStr m) (parsed (g_audit g)))"

section \<open>Replaying the logs\<close>

lemma queue_rows_append:
  "queue_rows (xs @ ys) st = ebind (queue_rows xs st) (queue_rows ys)"
proof (induction xs arbitrary: st)
  case (Cons x xs)
  then show ?case by (cases "as_obj x") auto
qed simp

text \<open>What one audit row does to the index, as a value: the approval id it decides and the status
  it gives to a mutation. The replay is the fold of these effects.\<close>

definition dstr :: "obj \<Rightarrow> string \<Rightarrow> string option" where
  "dstr d k = Option.bind (dget d k) as_str"

lemma dstr_case: "(case dget d k of Some (JStr s) \<Rightarrow> f s | _ \<Rightarrow> z) = (case dstr d k of Some s \<Rightarrow> f s | None \<Rightarrow> z)"
  by (simp add: dstr_def split: option.split json.split)

type_synonym effect = "string option \<times> (string \<times> string) option"

definition row_effect :: "json \<Rightarrow> json \<Rightarrow> effect res" where
  "row_effect event_type payload =
     (if event_type = JStr ''approval_decision'' then
        ebind (as_obj payload) (\<lambda>p. Inr (dstr p ''approval_id'',
          Option.bind (dstr p ''mutation_id'') (\<lambda>m. map_option (Pair m) (dstr p ''status''))))
      else if event_type = JStr ''approval_revoked'' then
        ebind (as_obj payload) (\<lambda>p. Inr (None,
          map_option (\<lambda>m. (m, approval_value REVOKED)) (dstr p ''mutation_id'')))
      else Inr (None, None))"

definition audit_effect :: "json \<Rightarrow> effect res" where
  "audit_effect row =
     ebind (as_obj row) (\<lambda>e.
       row_effect (dget_or e ''event_type'' (JStr [])) (dget_or e ''payload'' (JObj [])))"

definition set_status :: "(string \<times> string) option \<Rightarrow> (string \<rightharpoonup> string) \<Rightarrow> string \<rightharpoonup> string" where
  "set_status c m = (case c of None \<Rightarrow> m | Some (mid, s) \<Rightarrow> m(mid \<mapsto> s))"

definition apply_effect :: "effect \<Rightarrow> hstate \<Rightarrow> hstate" where
  "apply_effect e st =
     st\<lparr>h_decided := set_option (fst e) \<union> h_decided st, h_status := set_status (snd e) (h_status st)\<rparr>"

lemma apply_audit_effect:
  "apply_audit ty p st = ebind (row_effect ty p) (\<lambda>e. Inr (apply_effect e st))"
proof (cases "ty = JStr ''approval_decision'' \<or> ty = JStr ''approval_revoked''")
  case False
  then show ?thesis by (simp add: apply_audit_def row_effect_def apply_effect_def set_status_def)
next
  case True
  show ?thesis
  proof (cases "as_obj p")
    case (Inl e)
    then show ?thesis using True by (auto simp: apply_audit_def row_effect_def)
  next
    case (Inr d)
    then show ?thesis using True
      by (auto simp: apply_audit_def row_effect_def apply_effect_def set_status_def dstr_def Let_def
          split: option.split json.split)
  qed
qed

lemma apply_rows_effect:
  "apply_rows rows st = ebind (emap audit_effect rows) (\<lambda>es. Inr (foldl (\<lambda>s e. apply_effect e s) st es))"
proof (induction rows arbitrary: st)
  case (Cons row rows)
  have "apply_row row st = ebind (audit_effect row) (\<lambda>e. Inr (apply_effect e st))"
    by (cases "as_obj row") (simp_all add: apply_row_def audit_effect_def apply_audit_effect)
  then show ?case using Cons.IH
    by (cases "audit_effect row"; cases "emap audit_effect rows") simp_all
qed simp

lemma fold_effects:
  "foldl (\<lambda>s e. apply_effect e s) st es =
     st\<lparr>h_decided := \<Union> (set (map (set_option \<circ> fst) es)) \<union> h_decided st,
        h_status := foldl (\<lambda>m e. set_status (snd e) m) (h_status st) es\<rparr>"
  by (induction es arbitrary: st) (auto simp: apply_effect_def Un_ac)

lemma queue_rows_frame:
  "queue_rows rows st = Inr st' \<Longrightarrow>
     st' = st\<lparr>h_requests := h_requests st', h_order := h_order st'\<rparr>"
proof (induction rows arbitrary: st)
  case (Cons row rows)
  then obtain e where "row = JObj e" by auto
  with Cons.prems Cons.IH show ?case
    unfolding queue_rows.simps by (fastforce simp: dstr_case split: option.splits)
qed simp

text \<open>The replayed state, field by field.\<close>

definition replayed ::
  "(string \<Rightarrow> string) \<Rightarrow> line list \<Rightarrow> line list \<Rightarrow> hstate \<Rightarrow> effect list \<Rightarrow> hstate"
where
  "replayed sha queue audit st es =
     \<lparr>h_requests = h_requests st,
      h_status = foldl (\<lambda>m e. set_status (snd e) m) Map.empty es,
      h_decided = \<Union> (set (map (set_option \<circ> fst) es)),
      h_order = h_order st, h_queue_digest = digest_jsonl sha queue, h_audit_digest = digest_jsonl sha audit\<rparr>"

lemma replay_state_iff:
  "replay_state sha queue audit = Inr r \<longleftrightarrow>
     (\<exists>st es. queue_rows (parsed queue) h_empty = Inr st \<and> emap audit_effect (parsed audit) = Inr es
        \<and> r = replayed sha queue audit st es)"
proof -
  have "foldl (\<lambda>s e. apply_effect e s) st es\<lparr>h_queue_digest := qd, h_audit_digest := ad\<rparr> =
      \<lparr>h_requests = h_requests st, h_status = foldl (\<lambda>m e. set_status (snd e) m) Map.empty es,
       h_decided = \<Union> (set (map (set_option \<circ> fst) es)), h_order = h_order st,
       h_queue_digest = qd, h_audit_digest = ad\<rparr>" if "queue_rows (parsed queue) h_empty = Inr st" for st es qd ad
    unfolding fold_effects by (subst (1 2 3 4) queue_rows_frame [OF that]) (simp add: h_empty_def)
  then show ?thesis
    by (auto simp: replay_state_def apply_rows_effect replayed_def)
qed

section \<open>The specification: the last status event of a mutation\<close>

definition status_event :: "string \<Rightarrow> json \<Rightarrow> string option" where
  "status_event mid row =
     (case audit_effect row of
        Inr (_, Some (m, s)) \<Rightarrow> if m = mid then Some s else None
      | _ \<Rightarrow> None)"

definition latest :: "string \<Rightarrow> json list \<Rightarrow> string option" where
  "latest mid rows =
     foldl (\<lambda>s row. case status_event mid row of None \<Rightarrow> s | Some s' \<Rightarrow> Some s') None rows"

lemma latest_snoc [simp]:
  "latest mid (rows @ [row]) = (case status_event mid row of None \<Rightarrow> latest mid rows | Some s \<Rightarrow> Some s)"
  by (simp add: latest_def split: option.split)

lemma latest_Nil [simp]: "latest mid [] = None"
  by (simp add: latest_def)

lemma replay_latest:
  assumes "emap audit_effect rows = Inr es"
  shows "foldl (\<lambda>m e. set_status (snd e) m) Map.empty es mid = latest mid rows"
  using assms
proof (induction rows arbitrary: es rule: rev_induct)
  case (snoc row rows)
  then obtain es' e where *: "emap audit_effect rows = Inr es'" "audit_effect row = Inr e" "es = es' @ [e]"
    by (auto simp: emap_append)
  have "set_status (snd e) m mid = (case status_event mid row of None \<Rightarrow> m mid | Some s \<Rightarrow> Some s)" for m
    using *(2) by (cases e) (auto simp: set_status_def status_event_def split: option.split)
  with snoc.IH [OF *(1)] *(3) show ?case by (simp split: option.split)
qed simp

section \<open>The index follows the logs\<close>

definition synced :: "(string \<Rightarrow> string) \<Rightarrow> hapg \<Rightarrow> hstate \<Rightarrow> bool" where
  "synced sha g r \<longleftrightarrow>
     replay_state sha (g_queue g) (g_audit g) = Inr r \<and>
     (g_cache g = None \<or> g_cache g = Some r) \<and>
     (\<forall>st. g_index g = Some st \<longrightarrow> consistent_with_logs sha g st \<longrightarrow> st = r)"

lemma synced_status:
  assumes "synced sha g r"
  shows "h_status r mid = latest mid (parsed (g_audit g))"
proof -
  obtain st es where "emap audit_effect (parsed (g_audit g)) = Inr es"
      "r = replayed sha (g_queue g) (g_audit g) st es"
    using assms by (auto simp: synced_def replay_state_iff)
  then show ?thesis by (simp add: replayed_def replay_latest)
qed

lemma synced_write:
  "replay_state sha (g_queue g) (g_audit g) = Inr st \<Longrightarrow> synced sha (write_index st g) st"
  by (simp add: synced_def write_index_def)

text \<open>Loading: the replayed state, and nothing but index and cache change.\<close>

lemma rebuild_synced:
  "synced sha g r \<Longrightarrow> rebuild sha g = (Inr r, write_index r g)"
  by (simp add: rebuild_def synced_def)

lemma write_index_synced: "synced sha g r \<Longrightarrow> synced sha (write_index r g) r"
  by (simp add: synced_def write_index_def)

lemma load_synced:
  assumes "synced sha g r"
  obtains g' where "load_index sha g = (Inr r, g')" "synced sha g' r"
    "g_queue g' = g_queue g" "g_audit g' = g_audit g"
proof (cases "g_cache g = None \<and> (\<exists>st. g_index g = Some st \<and> consistent_with_logs sha g st)")
  case True
  with assms have "g_index g = Some r" by (auto simp: synced_def)
  with True assms that [of "g\<lparr>g_cache := Some r\<rparr>"] show thesis
    by (auto simp: load_index_def synced_def consistent_with_logs_def)
next
  case False
  show thesis
  proof (cases "g_cache g")
    case None
    with False have "load_index sha g = rebuild sha g" by (auto simp: load_index_def split: option.split)
    then show thesis
      using that [of "write_index r g"] rebuild_synced [OF assms] write_index_synced [OF assms]
      by (simp add: write_index_def)
  next
    case (Some st)
    with assms have "st = r" by (simp add: synced_def)
    with Some assms that [of g] show thesis by (simp add: load_index_def)
  qed
qed

lemma append_queue_synced:
  assumes "synced sha g st" and "append_queue sha p st g = (st', g')"
  shows "synced sha g' st'" "g_audit g' = g_audit g" "g_queue g' = g_queue g @ [Row (JObj p)]"
    and "\<And>aid. dget p ''approval_id'' = Some (JStr aid) \<Longrightarrow> h_requests st' aid = Some p"
proof -
  show "g_audit g' = g_audit g" "g_queue g' = g_queue g @ [Row (JObj p)]"
    using assms(2) by (auto simp: append_queue_def Let_def write_index_def)
  show "h_requests st' aid = Some p" if "dget p ''approval_id'' = Some (JStr aid)" for aid
    using assms(2) that by (auto simp: append_queue_def Let_def)
  obtain s0 es where r: "queue_rows (parsed (g_queue g)) h_empty = Inr s0"
      "emap audit_effect (parsed (g_audit g)) = Inr es" "st = replayed sha (g_queue g) (g_audit g) s0 es"
    using assms(1) by (auto simp: synced_def replay_state_iff)
  let ?g = "g\<lparr>g_queue := g_queue g @ [Row (JObj p)]\<rparr>"
  have "replay_state sha (g_queue ?g) (g_audit ?g) = Inr st'"
    using r assms(2)
    by (auto simp: replay_state_iff queue_rows_append replayed_def append_queue_def Let_def dstr_case
        split: option.splits)
  moreover have "g' = write_index st' ?g" using assms(2) by (auto simp: append_queue_def Let_def)
  ultimately show "synced sha g' st'" using synced_write by simp
qed

lemma write_audit_synced:
  assumes "synced sha g st"
  obtains st' g' where "write_audit_with_state sha ty p now st g = (Inr st', g')" "synced sha g' st'"
    and "g_queue g' = g_queue g" "g_audit g' = g_audit g @ [Row (audit_entry ty now p)]"
    and "h_requests st' = h_requests st"
proof -
  obtain s0 es where r: "queue_rows (parsed (g_queue g)) h_empty = Inr s0"
      "emap audit_effect (parsed (g_audit g)) = Inr es" "st = replayed sha (g_queue g) (g_audit g) s0 es"
    using assms by (auto simp: synced_def replay_state_iff)
  have "\<exists>e. row_effect (JStr ty) (JObj p) = Inr e" by (simp add: row_effect_def split: if_split)
  then obtain e where e: "row_effect (JStr ty) (JObj p) = Inr e" by blast
  then have ae: "audit_effect (audit_entry ty now p) = Inr e"
    by (simp add: audit_effect_def audit_entry_def dget_or_def)
  let ?g = "g\<lparr>g_audit := g_audit g @ [Row (audit_entry ty now p)]\<rparr>"
  let ?st = "apply_effect e st\<lparr>h_audit_digest := digest_jsonl sha (g_audit ?g)\<rparr>"
  have "write_audit_with_state sha ty p now st g = (Inr ?st, write_index ?st ?g)"
    by (simp add: write_audit_with_state_def apply_audit_effect e Let_def)
  moreover have "replay_state sha (g_queue ?g) (g_audit ?g) = Inr ?st"
    using r ae by (auto simp: replay_state_iff emap_append replayed_def apply_effect_def)
  ultimately show thesis using that [of ?st] synced_write [of sha ?g ?st]
    by (simp add: write_index_def apply_effect_def)
qed

section \<open>What the operations do to the logs\<close>

lemma audit_effect_entry:
  "audit_effect (audit_entry ty now p) = row_effect (JStr ty) (JObj p)"
  by (simp add: audit_effect_def audit_entry_def dget_or_def)

lemma dstr_Some: "dstr d k = Some s \<longleftrightarrow> dget d k = Some (JStr s)"
  by (auto simp: dstr_def bind_eq_Some_conv)

lemma status_event_entry:
  "status_event mid (audit_entry ''approval_decision'' now p) =
     (if dget p ''mutation_id'' = Some (JStr mid) then dstr p ''status'' else None)"
  "status_event mid (audit_entry ''approval_revoked'' now p) =
     (if dget p ''mutation_id'' = Some (JStr mid) then Some (approval_value REVOKED) else None)"
  "ty \<noteq> ''approval_decision'' \<Longrightarrow> ty \<noteq> ''approval_revoked'' \<Longrightarrow>
     status_event mid (audit_entry ty now p) = None"
  by (cases "dstr p ''mutation_id''"; cases "dstr p ''status''";
      auto simp: status_event_def audit_effect_entry row_effect_def dstr_Some [symmetric])+

lemma request_synced:
  assumes "synced sha g st"
  obtains aid st' g' now p where
      "request_with_state sha mid epoch reason metadata ts st g = (Inr (aid, st'), g')"
    and "synced sha g' st'"
    and "g_audit g' = g_audit g @ [Row (audit_entry ''approval_requested'' now p)]"
    and "\<exists>req. h_requests st' aid = Some req \<and> dget req ''mutation_id'' = Some (JStr mid)
           \<and> dget req ''epoch_id'' = Some (JStr epoch)"
proof -
  obtain t1 t2 t3 where ts: "ts = (t1, t2, t3)" by (cases ts) auto
  let ?aid = "generate_approval_id sha mid epoch t1"
  let ?p = "request_payload \<lparr>r_approval_id = ?aid, r_mutation_id = mid, r_epoch_id = epoch,
            r_reason = reason, r_requested_at = t2, r_metadata = metadata\<rparr>"
  obtain st1 g1 where q: "append_queue sha ?p st g = (st1, g1)" by fastforce
  note a = append_queue_synced [OF assms q]
  have "h_requests st1 ?aid = Some ?p" by (rule a(4)) (simp add: request_payload_def)
  moreover obtain st2 g2 where "write_audit_with_state sha ''approval_requested''
        (dput ''status'' (JStr (approval_value PENDING)) ?p) t3 st1 g1 = (Inr st2, g2)"
      "synced sha g2 st2" "h_requests st2 = h_requests st1"
      "g_audit g2 = g_audit g1 @ [Row (audit_entry ''approval_requested'' t3
         (dput ''status'' (JStr (approval_value PENDING)) ?p))]"
    using write_audit_synced [OF a(1)] by metis
  ultimately show thesis
    using that [of ?aid st2 g2 t3 "dput ''status'' (JStr (approval_value PENDING)) ?p"] q a(2)
    by (simp add: request_with_state_def ts Let_def request_payload_def)
qed

text \<open>A decision that passes the identity check and finds its request is recorded for the
  mutation of the request.\<close>

lemma decide_synced:
  assumes "synced sha g st" "identity_ok strict op" "h_requests st aid = Some req"
    and "dget req ''mutation_id'' = Some mid" "dget req ''epoch_id'' = Some epoch"
  obtains d st' g' where "decide_with_state sha strict aid approved op notes ts st g = (Inr (d, st'), g')"
    and "synced sha g' st'"
    and "g_audit g' = g_audit g @ [Row (audit_entry ''approval_decision'' (snd ts) (decision_payload d))]"
    and "d_mutation_id d = mid" "d_operator_id d = op"
    and "d_status d = approval_value (if approved then APPROVED else REJECTED)"
proof -
  obtain t1 t2 where ts: "ts = (t1, t2)" by (cases ts) auto
  obtain g1 where l: "load_index sha g = (Inr st, g1)" "synced sha g1 st" "g_audit g1 = g_audit g"
    using load_synced [OF assms(1)] by blast
  then have f: "find_request sha aid g = (Inr (Some req), g1)" by (simp add: find_request_def assms(3))
  let ?st = "approval_value (if approved then APPROVED else REJECTED)"
  let ?d = "\<lparr>d_approval_id = aid, d_mutation_id = mid, d_epoch_id = epoch, d_status = ?st,
    d_operator_id = op, d_decided_at = t1, d_notes = notes,
    d_digest = decision_digest sha aid mid ?st op t1\<rparr>"
  obtain st2 g2 where "write_audit_with_state sha ''approval_decision'' (decision_payload ?d) t2 st g1 = (Inr st2, g2)"
      "synced sha g2 st2"
      "g_audit g2 = g_audit g1 @ [Row (audit_entry ''approval_decision'' t2 (decision_payload ?d))]"
    using write_audit_synced [OF l(2)] by metis
  then show thesis
    using that [of ?d st2 g2] assms(2-5) f l(3) by (simp add: decide_with_state_def ts Let_def)
qed

lemma decide_refused:
  assumes "synced sha g st" "\<not> identity_ok strict op"
  obtains st' g' p where "decide_with_state sha strict aid approved op notes ts st g = (Inl IdentityViolation, g')"
    and "synced sha g' st'" "g_queue g' = g_queue g"
    and "g_audit g' = g_audit g @ [Row (audit_entry ''identity_violation'' (snd ts) p)]"
    and "dget p ''operator_id_received'' = Some (JStr op)" "dget p ''approval_id'' = Some (JStr aid)"
proof -
  obtain t1 t2 where ts: "ts = (t1, t2)" by (cases ts) auto
  let ?p = "[(''operator_id_received'', JStr op), (''expected_fingerprint'', JStr HUMAN0_GPG_FINGERPRINT),
             (''approval_id'', JStr aid), (''invariant'', JStr ''HAPG-IDENTITY-0'')]"
  obtain st2 g2 where "write_audit_with_state sha ''identity_violation'' ?p t2 st g = (Inr st2, g2)"
      "synced sha g2 st2" "g_queue g2 = g_queue g"
      "g_audit g2 = g_audit g @ [Row (audit_entry ''identity_violation'' t2 ?p)]"
    using write_audit_synced [OF assms(1)] by metis
  then show thesis
    using that [of g2 st2 ?p] assms(2) by (simp add: decide_with_state_def ts Let_def)
qed

text \<open>Whatever happens in a decision, the index stays the replay and the audit log only grows.\<close>

lemma decide_any:
  assumes "synced sha g st"
  shows "\<exists>st' g' rows r. decide_with_state sha strict aid approved op notes ts st g = (r, g') \<and>
    synced sha g' st' \<and> g_audit g' = g_audit g @ rows \<and> (\<forall>d s. r = Inr (d, s) \<longrightarrow> s = st')"
proof (cases "identity_ok strict op")
  case False
  obtain st' g' p where "decide_with_state sha strict aid approved op notes ts st g = (Inl IdentityViolation, g')"
    "synced sha g' st'" "g_audit g' = g_audit g @ [Row (audit_entry ''identity_violation'' (snd ts) p)]"
    using decide_refused [OF assms False] by blast
  then show ?thesis by blast
next
  case True
  obtain t1 t2 where ts: "ts = (t1, t2)" by (cases ts) auto
  obtain g1 where l: "load_index sha g = (Inr st, g1)" "synced sha g1 st" "g_audit g1 = g_audit g"
    using load_synced [OF assms] by blast
  obtain r where f: "find_request sha aid g = (r, g1)"
    using l(1) by (cases "h_requests st aid") (auto simp: find_request_def)
  have stay: ?thesis if "decide_with_state sha strict aid approved op notes ts st g = (Inl e, g1)" for e
    using that l(2,3) by (metis append_Nil2 sum.distinct(1))
  show ?thesis
  proof (cases r)
    case (Inl e)
    then show ?thesis using True f by (intro stay [of e]) (simp add: decide_with_state_def ts)
  next
    case (Inr found)
    let ?req = "case h_requests st aid of Some r \<Rightarrow> Some r | None \<Rightarrow> found"
    show ?thesis
    proof (cases ?req)
      case None
      then show ?thesis using True f Inr
        by (intro stay [of "ApprovalIdNotFound aid"]) (simp add: decide_with_state_def ts)
    next
      case (Some req)
      show ?thesis
      proof (cases "dget req ''mutation_id'' = None \<or> dget req ''epoch_id'' = None")
        case True
        then have "\<exists>e. decide_with_state sha strict aid approved op notes ts st g = (Inl e, g1)"
          using \<open>identity_ok strict op\<close> f Inr Some
          by (cases "dget req ''mutation_id''") (simp_all add: decide_with_state_def ts)
        then show ?thesis using stay by blast
      next
        case False
        then obtain mid epoch where me: "dget req ''mutation_id'' = Some mid" "dget req ''epoch_id'' = Some epoch"
          by auto
        obtain d where "decide_with_state sha strict aid approved op notes ts st g =
            ethen (write_audit_with_state sha ''approval_decision'' (decision_payload d) t2 st g1)
              (\<lambda>st g. (Inr (d, st), g))"
          using \<open>identity_ok strict op\<close> f Inr Some me by (simp add: decide_with_state_def ts Let_def)
        moreover obtain st2 g2 where "write_audit_with_state sha ''approval_decision'' (decision_payload d) t2 st g1 = (Inr st2, g2)"
            "synced sha g2 st2"
            "g_audit g2 = g_audit g1 @ [Row (audit_entry ''approval_decision'' t2 (decision_payload d))]"
          using write_audit_synced [OF l(2)] by metis
        ultimately show ?thesis using l(3) by auto
      qed
    qed
  qed
qed

section \<open>Reachable gates\<close>

text \<open>A gate object constructed on parseable logs without an index file, then used; a new process
  on the same files is a gate whose cache is empty.\<close>

inductive hapg_reachable :: "(string \<Rightarrow> string) \<Rightarrow> bool \<Rightarrow> hapg \<Rightarrow> bool" for sha strict where
  reach_new: "gate_new sha queue audit None = (Inr (), g) \<Longrightarrow> hapg_reachable sha strict g"
| reach_restart: "hapg_reachable sha strict g \<Longrightarrow> hapg_reachable sha strict (g\<lparr>g_cache := None\<rparr>)"
| reach_request: "hapg_reachable sha strict g \<Longrightarrow>
    hapg_reachable sha strict (snd (request_approval sha mid epoch reason metadata ts g))"
| reach_decide: "hapg_reachable sha strict g \<Longrightarrow>
    hapg_reachable sha strict (snd (record_decision sha strict aid approved op nts us g))"
| reach_batch: "hapg_reachable sha strict g \<Longrightarrow>
    hapg_reachable sha strict (snd (batch_approve sha strict ms epoch op nts g))"
| reach_revoke: "hapg_reachable sha strict g \<Longrightarrow>
    hapg_reachable sha strict (snd (revoke_approval sha mid op reason us g))"
| reach_query: "hapg_reachable sha strict g \<Longrightarrow>
    hapg_reachable sha strict (snd (is_approved sha mid now t g))"

lemma gate_new_audit: "g_audit (snd (gate_new sha queue audit None)) = audit"
  by (cases "replay_state sha queue audit") (simp_all add: gate_new_def rebuild_def write_index_def Let_def)

lemma gate_new_reachable:
  assumes "is_ok (replay_state sha queue audit)"
  shows "hapg_reachable sha strict (snd (gate_new sha queue audit None))"
proof -
  obtain r where "replay_state sha queue audit = Inr r" using assms by (auto simp: is_ok_iff)
  then have "fst (gate_new sha queue audit None) = Inr ()" by (simp add: gate_new_def rebuild_def Let_def)
  then show ?thesis
    by (intro reach_new [where queue = queue and audit = audit]) (simp add: prod_eq_iff)
qed

lemma synced_no_cache: "synced sha g r \<Longrightarrow> synced sha (g\<lparr>g_cache := None\<rparr>) r"
  by (simp add: synced_def consistent_with_logs_def)

lemma request_any:
  assumes "synced sha g r"
  shows "\<exists>st'. synced sha (snd (request_approval sha mid epoch reason metadata ts g)) st'"
proof -
  obtain g1 where l: "load_index sha g = (Inr r, g1)" "synced sha g1 r" using load_synced [OF assms] by blast
  show ?thesis
    using request_synced [OF l(2), of mid epoch reason metadata ts] l(1)
    by (metis (no_types, lifting) case_prod_conv ethen_simps(2) request_approval_def snd_conv)
qed

lemma record_any:
  assumes "synced sha g r"
  shows "\<exists>st' rows. synced sha (snd (record_decision sha strict aid approved op nts us g)) st'
    \<and> g_audit (snd (record_decision sha strict aid approved op nts us g)) = g_audit g @ rows"
proof -
  obtain g1 where l: "load_index sha g = (Inr r, g1)" "synced sha g1 r" "g_audit g1 = g_audit g"
    using load_synced [OF assms] by blast
  obtain st' g' rows res where d: "decide_with_state sha strict aid approved op nts us r g1 = (res, g')"
      "synced sha g' st'" "g_audit g' = g_audit g1 @ rows"
    using decide_any [OF l(2), of strict aid approved op nts us] by blast
  have "snd (record_decision sha strict aid approved op nts us g) = g'"
    using l(1) d(1) by (cases res) (auto simp: record_decision_def)
  then show ?thesis using d l(3) by auto
qed

lemma write_audit_any:
  assumes "synced sha g r"
  obtains st' g' where "write_audit sha ty p now g = (Inr st', g')" "synced sha g' st'"
    and "g_queue g' = g_queue g" "g_audit g' = g_audit g @ [Row (audit_entry ty now p)]"
proof -
  obtain g1 where l: "load_index sha g = (Inr r, g1)" "synced sha g1 r" "g_queue g1 = g_queue g" "g_audit g1 = g_audit g"
    using load_synced [OF assms] by blast
  obtain st' g' where "write_audit_with_state sha ty p now r g1 = (Inr st', g')" "synced sha g' st'"
      "g_queue g' = g_queue g1" "g_audit g' = g_audit g1 @ [Row (audit_entry ty now p)]"
    using write_audit_synced [OF l(2)] by blast
  with l that show thesis by (simp add: write_audit_def)
qed

lemma revoke_synced:
  assumes "synced sha g r"
  obtains st' g' p where "revoke_approval sha mid op reason us g = (Inr (), g')" "synced sha g' st'"
    and "g_audit g' = g_audit g @ [Row (audit_entry ''approval_revoked'' (snd us) p)]"
    and "dget p ''mutation_id'' = Some (JStr mid)"
proof -
  let ?p = "[(''mutation_id'', JStr mid), (''operator_id'', JStr op), (''reason'', JStr reason),
     (''revoked_at'', JStr (fst us)), (''status'', JStr (approval_value REVOKED))]"
  obtain st' g' where "write_audit sha ''approval_revoked'' ?p (snd us) g = (Inr st', g')" "synced sha g' st'"
      "g_audit g' = g_audit g @ [Row (audit_entry ''approval_revoked'' (snd us) ?p)]"
    using write_audit_any [OF assms] by blast
  then show thesis using that [of g' st' ?p] by (cases us) (simp add: revoke_approval_def)
qed

text \<open>A batch: each mutation gets a request and an approval.\<close>

lemma batch_loop_any:
  assumes "synced sha g st"
  shows "\<exists>st'. synced sha (snd (batch_loop sha strict epoch op nts metadata ms st g)) st'"
  using assms
proof (induction ms arbitrary: st g)
  case (Cons m ms)
  obtain mid ts us where m: "m = (mid, ts, us)" by (cases m) auto
  obtain aid st1 g1 where r: "request_with_state sha mid epoch ''ApprovalReason.BATCH_RELEASE'' metadata ts st g = (Inr (aid, st1), g1)"
      "synced sha g1 st1"
    using request_synced [OF Cons.prems, of mid epoch "''ApprovalReason.BATCH_RELEASE''" metadata ts] by metis
  obtain st2 g2 rows res where d: "decide_with_state sha strict aid True op nts us st1 g1 = (res, g2)"
      "synced sha g2 st2" "\<forall>d s. res = Inr (d, s) \<longrightarrow> s = st2"
    using decide_any [OF r(2)] by metis
  show ?case
  proof (cases res)
    case (Inl e)
    then show ?thesis using m r(1) d by auto
  next
    case (Inr x)
    then obtain dd where "res = Inr (dd, st2)" using d(3) by (cases x) auto
    moreover obtain st3 where "synced sha (snd (batch_loop sha strict epoch op nts metadata ms st2 g2)) st3"
      using Cons.IH [OF d(2)] by blast
    ultimately show ?thesis using m r(1) d(1)
      by (cases "batch_loop sha strict epoch op nts metadata ms st2 g2"; cases "fst (batch_loop sha strict epoch op nts metadata ms st2 g2)")
        auto
  qed
qed auto

section \<open>The answer of the gate\<close>

text \<open>The approvals of a mutation in the log, and the ones the code takes for expired.\<close>

definition row_approval :: "string \<Rightarrow> json \<Rightarrow> obj list" where
  "row_approval mid row =
     (case row of
        JObj e \<Rightarrow>
          (case (dget e ''event_type'', dget e ''payload'') of
             (Some ty, Some (JObj p)) \<Rightarrow>
               if ty = JStr ''approval_decision'' \<and> approves mid p then [p] else []
           | _ \<Rightarrow> [])
      | _ \<Rightarrow> [])"

definition approvals :: "string \<Rightarrow> json list \<Rightarrow> obj list" where
  "approvals mid rows = concat (map (row_approval mid) rows)"

definition expired :: "int \<Rightarrow> obj \<Rightarrow> bool" where
  "expired now p =
     (case approval_age now p of None \<Rightarrow> False | Some age \<Rightarrow> APPROVAL_EXPIRY_S * 1000000 < age)"

lemma first_expired_iff:
  assumes "emap audit_effect rows = Inr es"
  shows "\<exists>r. first_expired mid now rows = Inr r \<and> (r \<noteq> None \<longleftrightarrow> (\<exists>p \<in> set (approvals mid rows). expired now p))"
  using assms
proof (induction rows arbitrary: es)
  case (Cons row rows)
  then obtain eff es' where h: "audit_effect row = Inr eff" "emap audit_effect rows = Inr es'" by auto
  then obtain e where e: "row = JObj e" by (auto simp: audit_effect_def)
  from Cons.IH [OF h(2)] obtain r where r: "first_expired mid now rows = Inr r"
      "r \<noteq> None \<longleftrightarrow> (\<exists>p \<in> set (approvals mid rows). expired now p)" by blast
  have app: "approvals mid (JObj e # rows) = row_approval mid (JObj e) @ approvals mid rows"
    by (simp add: approvals_def)
  show ?case
  proof (cases "dget e ''event_type'' = Some (JStr ''approval_decision'')")
    case False
    then have "row_approval mid (JObj e) = []"
      by (simp add: row_approval_def e split: option.split json.split)
    then show ?thesis using False r e by (simp add: app)
  next
    case True
    have "\<exists>p. dget_or e ''payload'' (JObj []) = JObj p"
      using h(1) e True by (auto simp: audit_effect_def row_effect_def dget_or_def)
    then obtain p where p: "dget_or e ''payload'' (JObj []) = JObj p" by blast
    show ?thesis
    proof (cases "dget e ''payload''")
      case None
      then have "p = []" using p by (simp add: dget_or_def)
      moreover have "row_approval mid (JObj e) = []" using None by (simp add: row_approval_def e split: option.split)
      ultimately show ?thesis using True r e p by (simp add: app approves_def)
    next
      case (Some v)
      then have v: "v = JObj p" using p by (simp add: dget_or_def)
      then have "row_approval mid (JObj e) = (if approves mid p then [p] else [])"
        using Some True by (simp add: row_approval_def e)
      then show ?thesis using True r e p
        by (cases "approval_age now p") (auto simp: app expired_def)
    qed
  qed
qed (simp add: approvals_def)

lemma synced_effects:
  assumes "synced sha g r"
  obtains es where "emap audit_effect (parsed (g_audit g)) = Inr es"
  using assms by (auto simp: synced_def replay_state_iff)

lemma is_approved_synced:
  assumes "synced sha g r"
  obtains st' g' rows where "is_approved sha mid now t g =
      (Inr (latest mid (parsed (g_audit g)) = Some (approval_value APPROVED) \<and>
            \<not> (\<exists>p \<in> set (approvals mid (parsed (g_audit g))). expired now p)), g')"
    and "synced sha g' st'" and "g_audit g' = g_audit g @ rows"
proof -
  obtain g1 where l: "load_index sha g = (Inr r, g1)" "synced sha g1 r" "g_audit g1 = g_audit g"
    using load_synced [OF assms] by blast
  have st: "h_status r mid = latest mid (parsed (g_audit g))" using synced_status [OF assms] .
  obtain es where "emap audit_effect (parsed (g_audit g)) = Inr es" using synced_effects [OF assms] .
  from first_expired_iff [OF this, of mid now] obtain f where
    f: "first_expired mid now (parsed (g_audit g)) = Inr f"
      "f \<noteq> None \<longleftrightarrow> (\<exists>p \<in> set (approvals mid (parsed (g_audit g))). expired now p)" by blast
  show thesis
  proof (cases "h_status r mid = Some (approval_value APPROVED)")
    case False
    then show thesis using that [of g1 r "[]"] l st by (simp add: is_approved_def)
  next
    case True
    show thesis
    proof (cases f)
      case None
      then show thesis using that [of g1 r "[]"] l st f True by (simp add: is_approved_def)
    next
      case (Some age)
      let ?p = "[(''mutation_id'', JStr mid), (''status'', JStr (approval_value EXPIRED)),
                (''age_seconds'', JInt (age div 1000000)), (''expiry_threshold_s'', JInt APPROVAL_EXPIRY_S)]"
      obtain st' g' where w: "write_audit sha ''approval_expired'' ?p t g1 = (Inr st', g')" "synced sha g' st'"
          "g_audit g' = g_audit g1 @ [Row (audit_entry ''approval_expired'' t ?p)]"
        using write_audit_any [OF l(2)] by blast
      have "is_approved sha mid now t g = (Inr False, g'\<lparr>g_cache := None\<rparr>)"
        using l True f(1) Some w(1) by (simp add: is_approved_def)
      then show thesis
        using that [of "g'\<lparr>g_cache := None\<rparr>" st'] synced_no_cache [OF w(2)] w(3) l(3) f(2) Some
        by simp
    qed
  qed
qed

lemma reachable_synced: "hapg_reachable sha strict g \<Longrightarrow> \<exists>r. synced sha g r"
proof (induction rule: hapg_reachable.induct)
  case (reach_new queue audit g)
  then obtain r where "replay_state sha queue audit = Inr r"
      "g = write_index r \<lparr>g_queue = queue, g_audit = audit, g_index = None, g_cache = None\<rparr>"
    by (cases "replay_state sha queue audit") (auto simp: gate_new_def rebuild_def)
  then show ?case
    using synced_write [of sha "\<lparr>g_queue = queue, g_audit = audit, g_index = None, g_cache = None\<rparr>" r] by auto
next
  case (reach_batch g ms epoch op nts)
  then obtain r g1 where "load_index sha g = (Inr r, g1)" "synced sha g1 r" using load_synced by metis
  then show ?case using batch_loop_any by (simp add: batch_approve_def)
next
  case (reach_revoke g mid op reason us)
  then obtain r st' g' where "revoke_approval sha mid op reason us g = (Inr (), g')" "synced sha g' st'"
    using revoke_synced by metis
  then show ?case by auto
next
  case (reach_query g mid now t)
  then obtain r where "synced sha g r" by blast
  then obtain b st' g' where "is_approved sha mid now t g = (Inr b, g')" "synced sha g' st'"
    by (rule is_approved_synced [of sha g r mid now t]) blast
  then show ?case by auto
next
  case (reach_decide g aid approved op nts us)
  then obtain r where "synced sha g r" by blast
  from record_any [OF this, of strict aid approved op nts us] show ?case by blast
qed (use synced_no_cache request_any in \<open>blast+\<close>)

lemma approvals_append [simp]: "approvals mid (xs @ ys) = approvals mid xs @ approvals mid ys"
  by (simp add: approvals_def)

lemma reachable_is_approved:
  assumes "hapg_reachable sha strict g"
  shows "fst (is_approved sha mid now t g) =
    Inr (latest mid (parsed (g_audit g)) = Some (approval_value APPROVED) \<and>
         \<not> (\<exists>p \<in> set (approvals mid (parsed (g_audit g))). expired now p))"
proof -
  obtain r where "synced sha g r" using reachable_synced [OF assms] by blast
  then show ?thesis by (rule is_approved_synced [of sha g r mid now t]) simp
qed

lemma batch_loop_approves:
  assumes "synced sha g st" "identity_ok strict op"
  shows "\<exists>ds st' g'. batch_loop sha strict epoch op nts metadata ms st g = (Inr ds, g') \<and> synced sha g' st' \<and>
    map d_mutation_id ds = map (JStr \<circ> fst) ms \<and>
    (\<forall>mid. latest mid (parsed (g_audit g')) =
       (if mid \<in> fst ` set ms then Some (approval_value APPROVED) else latest mid (parsed (g_audit g))))"
  using assms(1)
proof (induction ms arbitrary: st g)
  case (Cons m ms)
  obtain mid ts us where m: "m = (mid, ts, us)" by (cases m) auto
  obtain aid st1 g1 now p req where r:
      "request_with_state sha mid epoch ''ApprovalReason.BATCH_RELEASE'' metadata ts st g = (Inr (aid, st1), g1)"
      "synced sha g1 st1" "g_audit g1 = g_audit g @ [Row (audit_entry ''approval_requested'' now p)]"
      "h_requests st1 aid = Some req" "dget req ''mutation_id'' = Some (JStr mid)" "dget req ''epoch_id'' = Some (JStr epoch)"
    using request_synced [OF Cons.prems, of mid epoch "''ApprovalReason.BATCH_RELEASE''" metadata ts] by metis
  obtain d st2 g2 where d: "decide_with_state sha strict aid True op nts us st1 g1 = (Inr (d, st2), g2)"
      "synced sha g2 st2"
      "g_audit g2 = g_audit g1 @ [Row (audit_entry ''approval_decision'' (snd us) (decision_payload d))]"
      "d_mutation_id d = JStr mid" "d_status d = approval_value APPROVED"
    using decide_synced [OF r(2) assms(2) r(4-6), of True nts us] unfolding if_True by blast
  obtain ds st3 g3 where b: "batch_loop sha strict epoch op nts metadata ms st2 g2 = (Inr ds, g3)"
      "synced sha g3 st3" "map d_mutation_id ds = map (JStr \<circ> fst) ms"
      "\<And>x. latest x (parsed (g_audit g3)) =
         (if x \<in> fst ` set ms then Some (approval_value APPROVED) else latest x (parsed (g_audit g2)))"
    using Cons.IH [OF d(2)] by blast
  have "latest x (parsed (g_audit g2)) =
      (if x = mid then Some (approval_value APPROVED) else latest x (parsed (g_audit g)))" for x
  proof -
    have "latest x (parsed (g_audit g2)) =
        (if x = mid then Some (approval_value APPROVED) else latest x (parsed (g_audit g1)))"
      using d(4,5) by (auto simp: d(3) status_event_entry decision_payload_def dstr_def)
    then show ?thesis by (simp add: r(3) status_event_entry)
  qed
  then show ?case using m r(1) d(1,4) b by auto
qed auto

section \<open>Properties\<close>

text \<open>
  C2 (refinement): the index is a faithful cache. A gate constructed on parseable logs and then
  used in any way, restarts included, always loads exactly the state a replay of the two logs gives,
  and loading never fails.\<close>

theorem hapg_index_is_the_replay:
  assumes "hapg_reachable sha strict g"
  shows "fst (load_index sha g) = map_sum HapgPy id (replay_state sha (g_queue g) (g_audit g))
    \<and> is_ok (fst (load_index sha g))"
proof -
  obtain r where r: "synced sha g r" using reachable_synced [OF assms] by blast
  then have "replay_state sha (g_queue g) (g_audit g) = Inr r" by (simp add: synced_def)
  with load_synced [OF r] show ?thesis by fastforce
qed

definition demo_gate :: "(string \<Rightarrow> string) \<Rightarrow> hapg" where
  "demo_gate sha =
     snd (batch_approve sha False [(''m1'', (''t1'', ''t2'', ''t3''), ''2026-01-01T00:00:00Z'', ''t5'')] ''e1'' ''op'' []
       (snd (gate_new sha [] [] None)))"

lemma demo_gate_reachable: "hapg_reachable sha False (demo_gate sha)"
  unfolding demo_gate_def
  by (intro reach_batch reach_new [where queue = "[]" and audit = "[]"])
    (simp add: gate_new_def rebuild_def replay_state_def)

theorem hapg_index_is_the_replay_witness:
  "fst (load_index (\<lambda>x. x) (demo_gate (\<lambda>x. x))) =
     map_sum HapgPy id (replay_state (\<lambda>x. x) (g_queue (demo_gate (\<lambda>x. x))) (g_audit (demo_gate (\<lambda>x. x))))
   \<and> is_ok (fst (load_index (\<lambda>x. x) (demo_gate (\<lambda>x. x))))"
  by (rule hapg_index_is_the_replay [OF demo_gate_reachable])

lemma demo_gate_approvals:
  "map (\<lambda>p. dget p ''decided_at'') (approvals ''m1'' (parsed (g_audit (demo_gate sha)))) =
     [Some (JStr ''2026-01-01T00:00:00Z'')]"
  by (simp add: demo_gate_def gate_new_def rebuild_def replay_state_def write_index_def load_index_def
      batch_approve_def request_with_state_def append_queue_def request_payload_def
      write_audit_with_state_def apply_audit_def h_empty_def Let_def decide_with_state_def
      identity_ok_def find_request_def decision_payload_def approvals_def row_approval_def
      audit_entry_def approves_def)

lemma demo_gate_latest: "latest ''m1'' (parsed (g_audit (demo_gate sha))) = Some (approval_value APPROVED)"
  by (simp add: demo_gate_def gate_new_def rebuild_def replay_state_def write_index_def load_index_def
      batch_approve_def request_with_state_def append_queue_def request_payload_def
      write_audit_with_state_def apply_audit_def h_empty_def Let_def decide_with_state_def
      identity_ok_def find_request_def decision_payload_def latest_def status_event_entry dstr_def)

lemma demo_moment:
  "iso_micros (replace_char CHR ''Z'' ''+00:00'' ''2026-01-01T00:00:00Z'') = Some 1767225600000000"
  "iso_micros (replace_char CHR ''Z'' ''+00:00'' ''yesterday'') = None"
  by code_simp+

text \<open>
  C34 (functional): the answer of \<open>is_approved\<close>, which is always a value. The gate says yes
  exactly when the last event of the log that gives the mutation a status is an approval (not a
  rejection, a revocation or nothing), and no approval of it anywhere in the log, however old, has a
  readable timestamp more than seven days back.\<close>

theorem hapg_is_approved_exactly:
  assumes "hapg_reachable sha strict g"
  shows "fst (is_approved sha mid now t g) =
    Inr (latest mid (parsed (g_audit g)) = Some (approval_value APPROVED) \<and>
         list_all (\<lambda>p. \<not> expired now p) (approvals mid (parsed (g_audit g))))"
  using reachable_is_approved [OF assms] by (simp add: list_all_iff)

theorem hapg_is_approved_exactly_witness:
  "fst (is_approved (\<lambda>x. x) ''m1'' 1767830400000000 ''t'' (demo_gate (\<lambda>x. x))) = Inr True \<and>
   fst (is_approved (\<lambda>x. x) ''m1'' 1767830400000001 ''t'' (demo_gate (\<lambda>x. x))) = Inr False"
proof -
  obtain p where p: "approvals ''m1'' (parsed (g_audit (demo_gate (\<lambda>x. x)))) = [p]"
      "dget p ''decided_at'' = Some (JStr ''2026-01-01T00:00:00Z'')"
    using demo_gate_approvals [of "\<lambda>x. x"] by (auto simp: map_eq_Cons_conv)
  have "expired now p \<longleftrightarrow> 1767830400000000 < now" for now
    using p(2) by (simp add: expired_def approval_age_def demo_moment APPROVAL_EXPIRY_S_def)
  then show ?thesis
    using hapg_is_approved_exactly [OF demo_gate_reachable, where sha = "\<lambda>x. x" and mid = "''m1''" and t = "''t''"] p(1) demo_gate_latest
    by simp
qed

text \<open>
  In strict mode a decision under any operator id other than the HUMAN-0
  fingerprint (up to case, blanks and colons) raises, changes no mutation's status and no request,
  and leaves exactly one audit row, which names the operator.\<close>

theorem hapg_identity_enforced:
  assumes "hapg_reachable sha True g" "canonical_op op \<noteq> HUMAN0_GPG_FINGERPRINT"
    and "record_decision sha True aid approved op nts us g = (r, g')"
  shows "r = Inl IdentityViolation \<and> g_queue g' = g_queue g \<and>
    latest mid (parsed (g_audit g')) = latest mid (parsed (g_audit g)) \<and>
    (\<exists>p. g_audit g' = g_audit g @ [Row (audit_entry ''identity_violation'' (snd us) p)] \<and>
         dget p ''operator_id_received'' = Some (JStr op))"
proof -
  have no: "\<not> identity_ok True op"
    using assms(2) by (simp add: identity_ok_def HUMAN0_GPG_FINGERPRINT_def replace_char_def)
  obtain s where "synced sha g s" using reachable_synced [OF assms(1)] by blast
  then obtain g1 where l: "load_index sha g = (Inr s, g1)" "synced sha g1 s" "g_queue g1 = g_queue g" "g_audit g1 = g_audit g"
    by (rule load_synced)
  obtain st' g2 p where d: "decide_with_state sha True aid approved op nts us s g1 = (Inl IdentityViolation, g2)"
      "g_queue g2 = g_queue g1" "g_audit g2 = g_audit g1 @ [Row (audit_entry ''identity_violation'' (snd us) p)]"
      "dget p ''operator_id_received'' = Some (JStr op)"
    using decide_refused [OF l(2) no] by metis
  have "r = Inl IdentityViolation" "g' = g2"
    using assms(3) l(1) d(1) by (simp_all add: record_decision_def)
  then show ?thesis using d l(3,4) by (auto simp: status_event_entry)
qed

definition fresh_gate :: "(string \<Rightarrow> string) \<Rightarrow> hapg" where
  "fresh_gate sha = snd (gate_new sha [] [] None)"

lemma fresh_gate_reachable: "hapg_reachable sha strict (fresh_gate sha)"
  unfolding fresh_gate_def
  by (intro reach_new [where queue = "[]" and audit = "[]"])
    (simp add: gate_new_def rebuild_def replay_state_def)

theorem hapg_identity_enforced_witness:
  "fst (record_decision (\<lambda>x. x) True ''a1'' True ''dreezy66'' [] (''t1'', ''t2'') (fresh_gate (\<lambda>x. x)))
     = Inl IdentityViolation"
  using hapg_identity_enforced [OF fresh_gate_reachable, of "''dreezy66''" "\<lambda>x. x" "''a1''" True "[]" "(''t1'', ''t2'')"]
  by (cases "record_decision (\<lambda>x. x) True ''a1'' True ''dreezy66'' [] (''t1'', ''t2'') (fresh_gate (\<lambda>x. x))")
    (simp add: canonical_op_def replace_char_def py_upper_def upper_char_def py_strip_def is_space_def
      HUMAN0_GPG_FINGERPRINT_def Let_def)

text \<open>
  Revocation denies. Whoever revokes a mutation, in strict mode too, since the
  operator id is only recorded, the gate answers no for it at any later time.\<close>

theorem hapg_revoked_is_denied:
  assumes "hapg_reachable sha strict g"
  shows "fst (is_approved sha mid now t (snd (revoke_approval sha mid op reason us g))) = Inr False"
proof -
  obtain s where "synced sha g s" using reachable_synced [OF assms] by blast
  then obtain g' p where "revoke_approval sha mid op reason us g = (Inr (), g')"
      "g_audit g' = g_audit g @ [Row (audit_entry ''approval_revoked'' (snd us) p)]"
      "dget p ''mutation_id'' = Some (JStr mid)"
    by (rule revoke_synced)
  then show ?thesis
    using reachable_is_approved [OF reach_revoke [OF assms], of mid now t mid op reason us]
    by (simp add: status_event_entry)
qed

theorem hapg_revoked_is_denied_witness:
  "fst (is_approved (\<lambda>x. x) ''m1'' 0 ''t'' (snd (revoke_approval (\<lambda>x. x) ''m1'' ''anyone'' ''r'' (''t1'', ''t2'')
     (demo_gate (\<lambda>x. x))))) = Inr False"
  by (rule hapg_revoked_is_denied [OF demo_gate_reachable])

text \<open>
  C39 A batch approval by an operator who passes the identity check always
  succeeds, returns one decision per mutation in order, makes every mutation of the batch approved in
  the log and gives no other mutation a new status.\<close>

theorem hapg_batch_approves_all:
  assumes "hapg_reachable sha strict g" "identity_ok strict op"
    and "batch_approve sha strict ms epoch op nts g = (r, g')"
  shows "(\<exists>ds. r = Inr ds \<and> map d_mutation_id ds = map (JStr \<circ> fst) ms) \<and>
    latest mid (parsed (g_audit g')) =
      (if mid \<in> fst ` set ms then Some (approval_value APPROVED) else latest mid (parsed (g_audit g)))"
proof -
  obtain s where "synced sha g s" using reachable_synced [OF assms(1)] by blast
  then obtain g1 where l: "load_index sha g = (Inr s, g1)" "synced sha g1 s" "g_audit g1 = g_audit g"
    by (rule load_synced)
  obtain ds st' g2 where b: "batch_loop sha strict epoch op nts [(''batch_size'', JInt (int (length ms)))] ms s g1 = (Inr ds, g2)"
      "map d_mutation_id ds = map (JStr \<circ> fst) ms"
      "latest mid (parsed (g_audit g2)) =
         (if mid \<in> fst ` set ms then Some (approval_value APPROVED) else latest mid (parsed (g_audit g1)))"
    using batch_loop_approves [OF l(2) assms(2)] by metis
  then have "r = Inr ds" "g' = g2" using assms(3) l(1) by (simp_all add: batch_approve_def)
  then show ?thesis using b(2,3) l(3) by simp
qed

theorem hapg_batch_approves_all_witness:
  "latest ''m1'' (parsed (g_audit (demo_gate (\<lambda>x. x)))) = Some (approval_value APPROVED)"
proof -
  let ?g = "fresh_gate (\<lambda>x. x)"
  let ?ms = "[(''m1'', (''t1'', ''t2'', ''t3''), ''2026-01-01T00:00:00Z'', ''t5'')]"
  obtain r g' where "batch_approve (\<lambda>x. x) False ?ms ''e1'' ''op'' [] ?g = (r, g')" by fastforce
  with hapg_batch_approves_all [OF fresh_gate_reachable _ this, of "''m1''"] show ?thesis
    by (simp add: demo_gate_def fresh_gate_def identity_ok_def)
qed

text \<open>
  An approval that has expired is never replaced. The gate looks at every approval
  of the mutation in the log, so a fresh approval (or any decision) recorded now leaves it denied.\<close>

theorem hapg_expired_blocks_reapproval:
  assumes "hapg_reachable sha strict g"
    and "p \<in> set (approvals mid (parsed (g_audit g)))" "expired now p"
  shows "fst (is_approved sha mid now t (snd (record_decision sha strict aid True op nts us g))) = Inr False"
proof -
  obtain s where "synced sha g s" using reachable_synced [OF assms(1)] by blast
  from record_any [OF this, of strict aid True op nts us] obtain rows where
    "g_audit (snd (record_decision sha strict aid True op nts us g)) = g_audit g @ rows" by blast
  then have "p \<in> set (approvals mid (parsed (g_audit (snd (record_decision sha strict aid True op nts us g)))))"
    using assms(2) by simp
  then show ?thesis
    using reachable_is_approved [OF reach_decide [OF assms(1)], of mid now t aid True op nts us] assms(3)
    by auto
qed

theorem hapg_expired_blocks_reapproval_witness:
  "fst (is_approved (\<lambda>x. x) ''m1'' 1780000000000000 ''t'' (snd (record_decision (\<lambda>x. x) False ''a'' True ''op'' []
     (''t1'', ''t2'') (demo_gate (\<lambda>x. x))))) = Inr False"
proof -
  obtain p where p: "p \<in> set (approvals ''m1'' (parsed (g_audit (demo_gate (\<lambda>x. x)))))"
      "dget p ''decided_at'' = Some (JStr ''2026-01-01T00:00:00Z'')"
    using demo_gate_approvals [of "\<lambda>x. x"] by (auto simp: map_eq_Cons_conv)
  have "expired 1780000000000000 p"
    using p(2) by (simp add: expired_def approval_age_def demo_moment APPROVAL_EXPIRY_S_def)
  from hapg_expired_blocks_reapproval [OF demo_gate_reachable p(1) this] show ?thesis .
qed

text \<open>
  A timestamp the gate cannot read never expires. If the log approves the mutation
  and none of its approvals has a readable timestamp, the gate answers yes at any time.\<close>

theorem hapg_malformed_timestamp_approves:
  assumes "hapg_reachable sha strict g"
    and "latest mid (parsed (g_audit g)) = Some (approval_value APPROVED)"
    and "list_all (\<lambda>p. approval_age now p = None) (approvals mid (parsed (g_audit g)))"
  shows "fst (is_approved sha mid now t g) = Inr True"
  using reachable_is_approved [OF assms(1), of mid now t] assms(2,3)
  by (auto simp: expired_def list_all_iff)

theorem hapg_malformed_timestamp_approves_witness:
  "fst (is_approved (\<lambda>x. x) ''m1'' 1780000000000000 ''t''
     (snd (gate_new (\<lambda>x. x) [] [Row (audit_entry ''approval_decision'' ''t0''
        [(''mutation_id'', JStr ''m1''), (''status'', JStr ''approved''), (''decided_at'', JStr ''yesterday'')])] None)))
   = Inr True"
proof (rule hapg_malformed_timestamp_approves [where strict = False, OF gate_new_reachable])
  let ?p = "[(''mutation_id'', JStr ''m1''), (''status'', JStr ''approved''), (''decided_at'', JStr ''yesterday'')]"
  let ?log = "[Row (audit_entry ''approval_decision'' ''t0'' ?p)]"
  show "is_ok (replay_state (\<lambda>x. x) [] ?log)"
    by (simp add: replay_state_def apply_row_def apply_audit_def audit_entry_def dget_or_def is_ok_iff)
  show "latest ''m1'' (parsed (g_audit (snd (gate_new (\<lambda>x. x) [] ?log None)))) = Some (approval_value APPROVED)"
    by (simp add: gate_new_audit latest_def status_event_entry dstr_def)
  show "list_all (\<lambda>p. approval_age 1780000000000000 p = None)
      (approvals ''m1'' (parsed (g_audit (snd (gate_new (\<lambda>x. x) [] ?log None)))))"
    by (simp add: gate_new_audit approvals_def row_approval_def audit_entry_def approval_age_def demo_moment)
qed

text \<open>
  The index is trusted beyond the logs. Its consistency check compares only the
  digests of the two logs, so an index file that carries them and says a mutation is approved makes
  the gate approve it although both logs are empty.\<close>

theorem hapg_index_overrides_empty_log:
  "fst (is_approved sha mid now t (snd (gate_new sha [] []
     (Some \<lparr>h_requests = Map.empty, h_status = [mid \<mapsto> ''approved''], h_decided = {}, h_order = [],
            h_queue_digest = digest_jsonl sha [], h_audit_digest = digest_jsonl sha []\<rparr>)))) = Inr True"
  by (simp add: gate_new_def is_approved_def load_index_def consistent_with_logs_def Let_def)

end
