(* ===== verification/Consensus.thy ===== *)
theory Consensus
  imports HashChain
begin

text \<open>
  \<open>runtime/governance/federation/consensus.py\<close>: leader election and the replicated log of the
  federation. One engine is a state record, every method a function on it. The journal callback is
  reduced to its outcome (returned, or raised an exception, or no callback given); election ids,
  clock readings (microseconds) and the SHA-256 function are arguments. The comparison of
  \<open>votes / total\<close> with the float 0.51 and the truncation of \<open>total * 0.51\<close> are the exact
  rational ones, which they agree with for any realistic number of nodes (below 10^13).
\<close>

section \<open>Data\<close>

datatype node_role = FOLLOWER | CANDIDATE | LEADER

datatype journal_failure_mode = FAIL_OPEN | FAIL_CLOSED_CRITICAL

datatype journal_outcome = NoJournal | Journaled | JournalRaised string string

record journal_status =
  js_event_type :: string
  js_ok :: bool
  js_mode :: journal_failure_mode
  js_exception :: "(string \<times> string) option"
  js_fail_closed :: bool

record log_entry =
  le_term :: int
  le_index :: int
  le_type :: string
  le_payload :: obj
  le_digest :: string
  le_committed :: bool

record engine =
  node_id :: string
  current_term :: int
  role :: node_role
  voted_for :: "string option"
  leader_id :: "string option"
  log :: "log_entry list"
  commit_index :: int
  last_heartbeat :: int
  peer_ids :: "string list"
  votes_received :: "(string, int) dict"
  failure_mode :: journal_failure_mode
  critical_events :: "string list"
  last_journal_status :: "journal_status option"

definition default_critical_events :: "string list" where
  "default_critical_events =
     [''federation_election_started.v1'', ''federation_leader_elected.v1'', ''federation_log_appended.v1'']"

text \<open>\<open>critical_journal_events or {...}\<close>: an empty set means the default.\<close>

definition engine_new ::
  "string \<Rightarrow> string list \<Rightarrow> journal_failure_mode \<Rightarrow> string list \<Rightarrow> int \<Rightarrow> engine"
where
  "engine_new nid peers mode critical now =
     \<lparr>node_id = nid, current_term = 0, role = FOLLOWER, voted_for = None, leader_id = None, log = [],
      commit_index = -1, last_heartbeat = now, peer_ids = peers, votes_received = [],
      failure_mode = mode,
      critical_events = (if critical = [] then default_critical_events else critical),
      last_journal_status = None\<rparr>"

definition recompute_digest :: "(string \<Rightarrow> string) \<Rightarrow> int \<Rightarrow> int \<Rightarrow> string \<Rightarrow> obj \<Rightarrow> string" where
  "recompute_digest sha tm idx ty payload =
     sha256_prefixed sha (canonical True (JObj
       [(''term'', JInt tm), (''index'', JInt idx), (''entry_type'', JStr ty),
        (''payload'', norm (JObj payload))]))"

definition verify_digest :: "(string \<Rightarrow> string) \<Rightarrow> log_entry \<Rightarrow> bool" where
  "verify_digest sha e \<longleftrightarrow>
     le_digest e = recompute_digest sha (le_term e) (le_index e) (le_type e) (le_payload e)"

definition build_entry :: "(string \<Rightarrow> string) \<Rightarrow> int \<Rightarrow> int \<Rightarrow> string \<Rightarrow> obj \<Rightarrow> log_entry" where
  "build_entry sha tm idx ty payload =
     \<lparr>le_term = tm, le_index = idx, le_type = ty, le_payload = payload,
      le_digest = recompute_digest sha tm idx ty payload, le_committed = False\<rparr>"

section \<open>Operations\<close>

text \<open>\<open>_journal\<close>: the status is stored; the exception is raised again only for a critical event
  under the fail-closed mode.\<close>

datatype consensus_error = JournalError string string

definition journal :: "journal_outcome \<Rightarrow> string \<Rightarrow> engine \<Rightarrow> (consensus_error + unit) \<times> engine" where
  "journal j ev s =
     (case j of
        JournalRaised cls msg \<Rightarrow>
          (let fc = (failure_mode s = FAIL_CLOSED_CRITICAL \<and> ev \<in> set (critical_events s));
               s' = s\<lparr>last_journal_status := Some \<lparr>js_event_type = ev, js_ok = False,
                      js_mode = failure_mode s, js_exception = Some (cls, msg), js_fail_closed = fc\<rparr>\<rparr>
           in (if fc then Inl (JournalError cls msg) else Inr (), s'))
      | _ \<Rightarrow>
          (Inr (), s\<lparr>last_journal_status := Some \<lparr>js_event_type = ev, js_ok = True,
                      js_mode = failure_mode s, js_exception = None, js_fail_closed = False\<rparr>\<rparr>))"

definition request_vote :: "string \<Rightarrow> int \<Rightarrow> engine \<Rightarrow> (bool \<times> int) \<times> engine" where
  "request_vote cand tm s =
     (if tm < current_term s then ((False, current_term s), s)
      else
        (let s1 = (if current_term s < tm
                   then s\<lparr>current_term := tm, role := FOLLOWER, voted_for := None\<rparr> else s)
         in if voted_for s1 = None \<or> voted_for s1 = Some cand
            then ((True, current_term s1), s1\<lparr>voted_for := Some cand\<rparr>)
            else ((False, current_term s1), s1)))"

definition start_election :: "string \<Rightarrow> journal_outcome \<Rightarrow> engine \<Rightarrow> (consensus_error + string) \<times> engine" where
  "start_election eid j s =
     (let s1 = s\<lparr>current_term := current_term s + 1, role := CANDIDATE, voted_for := Some (node_id s),
                 votes_received := dput eid 1 (votes_received s)\<rparr>
      in ethen (journal j ''federation_election_started.v1'' s1) (\<lambda>_ s. (Inr eid, s)))"

definition total_nodes :: "engine \<Rightarrow> int" where
  "total_nodes s = int (length (peer_ids s)) + 1"

text \<open>\<open>votes / total_nodes > 0.51\<close>\<close>

definition over_threshold :: "int \<Rightarrow> int \<Rightarrow> bool" where
  "over_threshold votes nodes \<longleftrightarrow> 51 * nodes < 100 * votes"

definition receive_vote ::
  "string \<Rightarrow> bool \<Rightarrow> journal_outcome \<Rightarrow> engine \<Rightarrow> (consensus_error + bool) \<times> engine"
where
  "receive_vote eid granted j s =
     (let s1 = (if granted
                then s\<lparr>votes_received := dput eid (dget_or (votes_received s) eid 0 + 1) (votes_received s)\<rparr>
                else s)
      in if over_threshold (dget_or (votes_received s1) eid 0) (total_nodes s1)
         then ethen (journal j ''federation_leader_elected.v1''
                (s1\<lparr>role := LEADER, leader_id := Some (node_id s1)\<rparr>)) (\<lambda>_ s. (Inr True, s))
         else (Inr False, s1))"

definition append_entry ::
  "(string \<Rightarrow> string) \<Rightarrow> string \<Rightarrow> obj \<Rightarrow> journal_outcome \<Rightarrow> engine \<Rightarrow>
   (consensus_error + log_entry option) \<times> engine"
where
  "append_entry sha ty payload j s =
     (if role s \<noteq> LEADER then (Inr None, s)
      else
        (let e = build_entry sha (current_term s) (int (length (log s))) ty payload
         in ethen (journal j ''federation_log_appended.v1'' (s\<lparr>log := log s @ [e]\<rparr>))
              (\<lambda>_ s. (Inr (Some e), s))))"

definition commit_entry :: "(string \<Rightarrow> string) \<Rightarrow> int \<Rightarrow> engine \<Rightarrow> bool \<times> engine" where
  "commit_entry sha i s =
     (if i < 0 \<or> int (length (log s)) \<le> i then (False, s)
      else
        (let e = log s ! nat i in
         if \<not> verify_digest sha e then (False, s)
         else (True, s\<lparr>log := (log s)[nat i := e\<lparr>le_committed := True\<rparr>],
                       commit_index := max (commit_index s) i\<rparr>)))"

definition receive_heartbeat :: "string \<Rightarrow> int \<Rightarrow> int \<Rightarrow> engine \<Rightarrow> engine" where
  "receive_heartbeat lid tm now s =
     (if current_term s \<le> tm
      then s\<lparr>current_term := tm, role := FOLLOWER, leader_id := Some lid, last_heartbeat := now\<rparr>
      else s)"

definition quorum_required_for :: "string \<Rightarrow> bool" where
  "quorum_required_for ty \<longleftrightarrow>
     ty \<in> {''policy_change'', ''node_join'', ''node_leave'', ''constitution_amendment''}"

definition quorum_size :: "engine \<Rightarrow> int" where
  "quorum_size s = 51 * total_nodes s div 100 + 1"

definition is_election_timeout :: "int \<Rightarrow> engine \<Rightarrow> bool" where
  "is_election_timeout now s \<longleftrightarrow> 5000000 < now - last_heartbeat s"

section \<open>Runs of one node\<close>

datatype cmd =
    RequestVote string int
  | StartElection string journal_outcome
  | ReceiveVote string bool journal_outcome
  | AppendEntry string obj journal_outcome
  | CommitEntry int
  | Heartbeat string int int

fun exec_cmd :: "(string \<Rightarrow> string) \<Rightarrow> cmd \<Rightarrow> engine \<Rightarrow> engine" where
  "exec_cmd sha (RequestVote cand tm) s = snd (request_vote cand tm s)"
| "exec_cmd sha (StartElection eid j) s = snd (start_election eid j s)"
| "exec_cmd sha (ReceiveVote eid granted j) s = snd (receive_vote eid granted j s)"
| "exec_cmd sha (AppendEntry ty payload j) s = snd (append_entry sha ty payload j s)"
| "exec_cmd sha (CommitEntry i) s = snd (commit_entry sha i s)"
| "exec_cmd sha (Heartbeat lid tm now) s = receive_heartbeat lid tm now s"

text \<open>The votes a command gives away: the reply to a request, and the vote for itself.\<close>

fun grants_of :: "cmd \<Rightarrow> engine \<Rightarrow> (int \<times> string) list" where
  "grants_of (RequestVote cand tm) s =
     (let (granted, reply_term) = fst (request_vote cand tm s)
      in if granted then [(reply_term, cand)] else [])"
| "grants_of (StartElection eid j) s = [(current_term (snd (start_election eid j s)), node_id s)]"
| "grants_of c s = []"

fun run :: "(string \<Rightarrow> string) \<Rightarrow> cmd list \<Rightarrow> engine \<Rightarrow> engine" where
  "run sha [] s = s"
| "run sha (c # cs) s = run sha cs (exec_cmd sha c s)"

fun grants :: "(string \<Rightarrow> string) \<Rightarrow> cmd list \<Rightarrow> engine \<Rightarrow> (int \<times> string) list" where
  "grants sha [] s = []"
| "grants sha (c # cs) s = grants_of c s @ grants sha cs (exec_cmd sha c s)"

section \<open>Frame lemmas\<close>

lemma journal_state [simp]:
  "current_term (snd (journal j ev s)) = current_term s"
  "role (snd (journal j ev s)) = role s"
  "voted_for (snd (journal j ev s)) = voted_for s"
  "leader_id (snd (journal j ev s)) = leader_id s"
  "log (snd (journal j ev s)) = log s"
  "commit_index (snd (journal j ev s)) = commit_index s"
  "node_id (snd (journal j ev s)) = node_id s"
  "peer_ids (snd (journal j ev s)) = peer_ids s"
  "votes_received (snd (journal j ev s)) = votes_received s"
  by (simp_all add: journal_def Let_def split: journal_outcome.split)

lemma snd_ethen_const [simp]: "snd (ethen r (\<lambda>_ s. (f s, s))) = snd r"
  by (cases r; cases "fst r") auto

lemma snd_start_election:
  "snd (start_election eid j s) = snd (journal j ''federation_election_started.v1''
     (s\<lparr>current_term := current_term s + 1, role := CANDIDATE, voted_for := Some (node_id s),
        votes_received := dput eid 1 (votes_received s)\<rparr>))"
  by (simp add: start_election_def)

lemma receive_vote_state [simp]:
  "current_term (snd (receive_vote eid g j s)) = current_term s"
  "voted_for (snd (receive_vote eid g j s)) = voted_for s"
  "log (snd (receive_vote eid g j s)) = log s"
  "commit_index (snd (receive_vote eid g j s)) = commit_index s"
  "peer_ids (snd (receive_vote eid g j s)) = peer_ids s"
  by (simp_all add: receive_vote_def Let_def)

lemma append_entry_state [simp]:
  "current_term (snd (append_entry sha ty p j s)) = current_term s"
  "voted_for (snd (append_entry sha ty p j s)) = voted_for s"
  "commit_index (snd (append_entry sha ty p j s)) = commit_index s"
  "peer_ids (snd (append_entry sha ty p j s)) = peer_ids s"
  by (simp_all add: append_entry_def Let_def)

lemma commit_entry_state [simp]:
  "current_term (snd (commit_entry sha i s)) = current_term s"
  "voted_for (snd (commit_entry sha i s)) = voted_for s"
  "peer_ids (snd (commit_entry sha i s)) = peer_ids s"
  by (simp_all add: commit_entry_def Let_def)

lemma request_vote_log [simp]:
  "log (snd (request_vote c t s)) = log s"
  "commit_index (snd (request_vote c t s)) = commit_index s"
  "peer_ids (snd (request_vote c t s)) = peer_ids s"
  by (simp_all add: request_vote_def Let_def)

lemma start_election_log [simp]:
  "log (snd (start_election eid j s)) = log s"
  "commit_index (snd (start_election eid j s)) = commit_index s"
  "peer_ids (snd (start_election eid j s)) = peer_ids s"
  by (simp_all add: snd_start_election)

lemma heartbeat_log [simp]:
  "log (receive_heartbeat l t now s) = log s"
  "commit_index (receive_heartbeat l t now s) = commit_index s"
  "voted_for (receive_heartbeat l t now s) = voted_for s"
  "peer_ids (receive_heartbeat l t now s) = peer_ids s"
  by (simp_all add: receive_heartbeat_def)

section \<open>One vote per term\<close>

text \<open>The votes given so far are for terms not in the future; in the current term they are for
  \<open>voted_for\<close>; no term has votes for two candidates.\<close>

definition votes_ok :: "(int \<times> string) set \<Rightarrow> engine \<Rightarrow> bool" where
  "votes_ok G s \<longleftrightarrow>
     (\<forall>(t, c) \<in> G. t \<le> current_term s \<and> (t = current_term s \<longrightarrow> voted_for s = Some c)) \<and>
     (\<forall>(t, c) \<in> G. \<forall>(t', c') \<in> G. t = t' \<longrightarrow> c = c')"

lemma votes_ok_same:
  "votes_ok G s \<Longrightarrow> current_term t = current_term s \<Longrightarrow> voted_for t = voted_for s \<Longrightarrow> votes_ok G t"
  by (simp add: votes_ok_def)

lemma votes_ok_later:
  "votes_ok G s \<Longrightarrow> current_term s < current_term t \<Longrightarrow> votes_ok G t"
  by (fastforce simp: votes_ok_def)

lemma votes_ok_insert:
  assumes "votes_ok G s" "voted_for s = Some c"
  shows "votes_ok (insert (current_term s, c) G) s"
  using assms by (fastforce simp: votes_ok_def)

lemma votes_ok_exec:
  assumes "votes_ok G s"
  shows "votes_ok (G \<union> set (grants_of c s)) (exec_cmd sha c s)"
proof (cases c)
  case (RequestVote cand tm)
  show ?thesis
  proof (cases "tm < current_term s")
    case True
    then show ?thesis using assms RequestVote by (simp add: request_vote_def)
  next
    case False
    obtain s1 where s1: "s1 = (if current_term s < tm
        then s\<lparr>current_term := tm, role := FOLLOWER, voted_for := None\<rparr> else s)" by simp
    have rv: "request_vote cand tm s =
        (if voted_for s1 = None \<or> voted_for s1 = Some cand
         then ((True, current_term s1), s1\<lparr>voted_for := Some cand\<rparr>)
         else ((False, current_term s1), s1))"
      using False by (simp add: request_vote_def s1 Let_def)
    have ok1: "votes_ok G s1" using assms votes_ok_later [of G s s1] by (auto simp: s1)
    show ?thesis
    proof (cases "voted_for s1 = None \<or> voted_for s1 = Some cand")
      case True
      then have r: "request_vote cand tm s = ((True, current_term s1), s1\<lparr>voted_for := Some cand\<rparr>)"
        using rv by simp
      have "votes_ok G (s1\<lparr>voted_for := Some cand\<rparr>)"
        using ok1 True by (fastforce simp: votes_ok_def)
      from votes_ok_insert [OF this, of cand] show ?thesis by (simp add: r RequestVote)
    next
      case no: False
      then have r: "request_vote cand tm s = ((False, current_term s1), s1)" using rv by simp
      then show ?thesis using ok1 by (simp add: r RequestVote)
    qed
  qed
next
  case (StartElection eid j)
  have "votes_ok G (snd (start_election eid j s))"
    by (rule votes_ok_later [OF assms]) (simp add: snd_start_election)
  from votes_ok_insert [OF this, of "node_id s"] show ?thesis
    by (simp add: StartElection snd_start_election)
next
  case (Heartbeat lid tm now)
  have "votes_ok G (receive_heartbeat lid tm now s)"
    by (cases "current_term s < tm")
      (auto intro: votes_ok_later [OF assms] votes_ok_same [OF assms] simp: receive_heartbeat_def)
  then show ?thesis by (simp add: Heartbeat)
qed (auto intro: votes_ok_same [OF assms])

lemma votes_ok_run:
  "votes_ok G s \<Longrightarrow> votes_ok (G \<union> set (grants sha cs s)) (run sha cs s)"
proof (induction cs arbitrary: G s)
  case (Cons c cs)
  from Cons.IH [OF votes_ok_exec [OF Cons.prems]] show ?case by (simp add: Un_assoc)
qed simp

lemma run_grants_functional:
  assumes "(t, c) \<in> set (grants sha cs s)" "(t, c') \<in> set (grants sha cs s)"
  shows "c = c'"
proof -
  have "votes_ok {} s" by (simp add: votes_ok_def)
  from votes_ok_run [OF this, of sha cs] assms show ?thesis by (auto simp: votes_ok_def)
qed

section \<open>The log\<close>

definition log_ok :: "(string \<Rightarrow> string) \<Rightarrow> engine \<Rightarrow> bool" where
  "log_ok sha s \<longleftrightarrow>
     map le_index (log s) = map int [0..<length (log s)] \<and> list_all (verify_digest sha) (log s) \<and>
     commit_index s < int (length (log s))"

text \<open>A later log keeps every entry in its place; only the committed flag may be set.\<close>

definition entry_keeps :: "log_entry \<Rightarrow> log_entry \<Rightarrow> bool" where
  "entry_keeps e e' \<longleftrightarrow> e'\<lparr>le_committed := le_committed e\<rparr> = e \<and> (le_committed e \<longrightarrow> le_committed e')"

definition log_extends :: "engine \<Rightarrow> engine \<Rightarrow> bool" where
  "log_extends s t \<longleftrightarrow>
     list_all2 entry_keeps (log s) (take (length (log s)) (log t)) \<and> commit_index s \<le> commit_index t"

lemma entry_keeps_refl [simp]: "entry_keeps e e"
  by (simp add: entry_keeps_def)

lemma entry_keeps_trans: "entry_keeps e f \<Longrightarrow> entry_keeps f g \<Longrightarrow> entry_keeps e g"
  by (cases e; cases f; cases g) (simp add: entry_keeps_def)

lemma log_extends_same: "log t = log s \<Longrightarrow> commit_index t = commit_index s \<Longrightarrow> log_extends s t"
  by (simp add: log_extends_def list_all2_same)

lemma log_extends_trans:
  assumes "log_extends s t" "log_extends t u"
  shows "log_extends s u"
proof -
  let ?n = "length (log s)"
  have n: "?n \<le> length (log t)" using assms(1) by (auto simp: log_extends_def dest: list_all2_lengthD)
  have "list_all2 entry_keeps (take ?n (log t)) (take ?n (take (length (log t)) (log u)))"
    using assms(2) unfolding log_extends_def by (blast intro: list_all2_takeI)
  then have "list_all2 entry_keeps (take ?n (log t)) (take ?n (log u))" using n by (simp add: min_def)
  with assms show ?thesis
    by (auto simp: log_extends_def intro: list_all2_trans [OF entry_keeps_trans])
qed

lemma log_append_facts:
  assumes "log_ok sha s"
  shows "log_ok sha (s\<lparr>log := log s @ [build_entry sha (current_term s) (int (length (log s))) ty p]\<rparr>)"
    and "log_extends s (s\<lparr>log := log s @ [e]\<rparr>)"
  using assms
  by (auto simp: log_ok_def log_extends_def build_entry_def verify_digest_def list_all2_same)

lemma log_commit_facts:
  assumes "log_ok sha s" "0 \<le> i" "i < int (length (log s))"
  defines "t \<equiv> s\<lparr>log := (log s)[nat i := (log s ! nat i)\<lparr>le_committed := True\<rparr>],
                  commit_index := max (commit_index s) i\<rparr>"
  shows "log_ok sha t" and "log_extends s t"
proof -
  have i: "nat i < length (log s)" using assms(2,3) by linarith
  have "map le_index (log t) = map le_index (log s)"
    using i by (simp add: t_def map_update list_update_same_conv)
  moreover have "verify_digest sha (log s ! nat i)" using assms(1) i by (simp add: log_ok_def list_all_length)
  then have "list_all (verify_digest sha) (log t)"
    using assms(1) by (auto simp: t_def log_ok_def list_all_iff verify_digest_def
        dest!: set_update_subset_insert [THEN subsetD])
  ultimately show "log_ok sha t" using assms(1,3) by (simp add: log_ok_def t_def)
  have "entry_keeps (log s ! j) (log t ! j)" if "j < length (log s)" for j
    using that i by (cases "j = nat i") (simp_all add: t_def entry_keeps_def)
  then show "log_extends s t"
    by (simp add: log_extends_def t_def list_all2_conv_all_nth)
qed

lemma exec_log:
  assumes "log_ok sha s"
  shows "log_ok sha (exec_cmd sha c s)" "log_extends s (exec_cmd sha c s)"
proof -
  have same: "log_ok sha t \<and> log_extends s t" if "log t = log s" "commit_index t = commit_index s" for t
    using assms that log_extends_same [OF that] by (simp add: log_ok_def)
  have "log_ok sha (exec_cmd sha c s) \<and> log_extends s (exec_cmd sha c s)"
  proof (cases c)
    case (AppendEntry ty p j)
    show ?thesis
    proof (cases "role s = LEADER")
      case False
      then show ?thesis using same [of s] by (simp add: AppendEntry append_entry_def)
    next
      case True
      let ?e = "build_entry sha (current_term s) (int (length (log s))) ty p"
      have "exec_cmd sha c s = snd (ethen (journal j ''federation_log_appended.v1'' (s\<lparr>log := log s @ [?e]\<rparr>))
              (\<lambda>_ s. (Inr (Some ?e), s)))"
        using True by (simp add: AppendEntry append_entry_def Let_def)
      then have "log (exec_cmd sha c s) = log s @ [?e]" "commit_index (exec_cmd sha c s) = commit_index s"
        by simp_all
      with log_append_facts(1) [OF assms, of ty p] log_append_facts(2) [OF assms, of ?e]
      show ?thesis by (simp add: log_ok_def log_extends_def)
    qed
  next
    case (CommitEntry i)
    show ?thesis
    proof (cases "i < 0 \<or> int (length (log s)) \<le> i \<or> \<not> verify_digest sha (log s ! nat i)")
      case True
      then show ?thesis using same [of s] by (auto simp: CommitEntry commit_entry_def Let_def)
    next
      case False
      then show ?thesis
        using log_commit_facts [OF assms, of i] by (simp add: CommitEntry commit_entry_def Let_def)
    qed
  qed (use same in simp_all)
  then show "log_ok sha (exec_cmd sha c s)" "log_extends s (exec_cmd sha c s)" by auto
qed

lemma run_append: "run sha (cs @ ds) s = run sha ds (run sha cs s)"
  by (induction cs arbitrary: s) auto

lemma run_log:
  "log_ok sha s \<Longrightarrow> log_ok sha (run sha cs s) \<and> log_extends s (run sha cs s)"
proof (induction cs arbitrary: s)
  case Nil
  then show ?case by (simp add: log_extends_same)
next
  case (Cons c cs)
  from Cons.IH [OF exec_log(1) [OF Cons.prems]] exec_log(2) [OF Cons.prems]
  show ?case by (auto intro: log_extends_trans)
qed

section \<open>Properties\<close>

text \<open>
  In every run of a node, in any order of vote requests, elections of its own,
  votes, heartbeats and log operations, it votes for at most one candidate per term, itself
  included.\<close>

theorem consensus_one_vote_per_term:
  assumes "(t, c) \<in> set (grants sha cs s)" "(t, c') \<in> set (grants sha cs s)"
  shows "c = c'"
  using assms by (rule run_grants_functional)

theorem consensus_one_vote_per_term_witness:
  "(''b'' :: string) = ''b''"
  by (rule consensus_one_vote_per_term
      [where t = 3 and sha = "\<lambda>x. x" and s = "engine_new ''a'' [''b'', ''c''] FAIL_OPEN [] 0"
        and cs = "[RequestVote ''b'' 3, RequestVote ''c'' 3, RequestVote ''b'' 3]"])
    (simp_all add: request_vote_def engine_new_def)

text \<open>
  C13 (safety): quorums of \<open>quorum_size\<close> nodes decide a term. In a federation of as many nodes as
  the engine counts, if a quorum of nodes voted for \<open>a\<close> in a term and a quorum voted for \<open>b\<close> in the
  same term, in whatever runs, then \<open>a\<close> and \<open>b\<close> are the same candidate.\<close>

theorem consensus_election_safety:
  assumes "distinct ns" "total_nodes s = int (length ns)"
    and "A \<subseteq> set ns" "quorum_size s \<le> int (card A)"
    and "B \<subseteq> set ns" "quorum_size s \<le> int (card B)"
    and "\<forall>n \<in> A. (t, a) \<in> set (grants sha (tr n) (cfg n))"
    and "\<forall>n \<in> B. (t, b) \<in> set (grants sha (tr n) (cfg n))"
  shows "a = b"
proof -
  have "A \<inter> B \<noteq> {}"
  proof
    assume "A \<inter> B = {}"
    then have "card A + card B = card (A \<union> B)"
      using assms(3,5) by (intro card_Un_disjoint [symmetric]) (auto intro: finite_subset)
    also have "\<dots> \<le> card (set ns)" using assms(3,5) by (intro card_mono) auto
    also have "\<dots> = length ns" using assms(1) by (rule distinct_card)
    finally have "2 * quorum_size s \<le> total_nodes s" using assms(2,4,6) by linarith
    then show False unfolding quorum_size_def by (simp add: total_nodes_def)
  qed
  then obtain n where "n \<in> A" "n \<in> B" by blast
  with assms(7,8) show ?thesis by (blast intro: run_grants_functional)
qed

theorem consensus_election_safety_witness:
  "(''n1'' :: string) = ''n1''"
  by (rule consensus_election_safety
      [where ns = "[''n1'', ''n2'', ''n3'' :: string]" and A = "{''n1'', ''n2''}" and B = "{''n2'', ''n3''}" and t = 1
        and sha = "\<lambda>x. x" and s = "engine_new ''n1'' [''n2'', ''n3''] FAIL_OPEN [] 0"
        and cfg = "\<lambda>n. engine_new n [''x'', ''y''] FAIL_OPEN [] 0"
        and tr = "\<lambda>n. if n = ''n1'' then [StartElection ''e'' NoJournal] else [RequestVote ''n1'' 1]"])
    (simp_all add: request_vote_def engine_new_def quorum_size_def total_nodes_def snd_start_election)

text \<open>
  The vote counter elects exactly at \<open>quorum_size\<close>: the float comparison
  with 0.51 and the rounded-down size of the quorum are the same threshold, for every number of
  peers. Below it the role does not change; at it the node is leader even if the journal call that
  follows raises.\<close>

theorem consensus_leader_iff_quorum:
  "let votes = dget_or (votes_received s) eid 0 + (if granted then 1 else 0);
       (r, t) = receive_vote eid granted j s
   in (r = Inr False) = (votes < quorum_size s) \<and>
      role t = (if votes < quorum_size s then role s else LEADER) \<and>
      current_term t = current_term s"
proof -
  have thr: "over_threshold v (total_nodes s) \<longleftrightarrow> \<not> v < quorum_size s" for v
    unfolding over_threshold_def quorum_size_def by linarith
  let ?v = "dget_or (votes_received s) eid 0 + (if granted then 1 else 0)"
  show ?thesis
  proof (cases "?v < quorum_size s")
    case True
    then show ?thesis
      by (cases granted) (simp_all add: receive_vote_def Let_def total_nodes_def thr [unfolded total_nodes_def])
  next
    case False
    let ?s1 = "if granted then s\<lparr>votes_received := dput eid (dget_or (votes_received s) eid 0 + 1) (votes_received s)\<rparr> else s"
    obtain r t where jr: "journal j ''federation_leader_elected.v1'' (?s1\<lparr>role := LEADER, leader_id := Some (node_id ?s1)\<rparr>) = (r, t)"
      by fastforce
    then have t: "role t = LEADER" "current_term t = current_term s"
      using journal_state(1,2) [of j "''federation_leader_elected.v1''" "?s1\<lparr>role := LEADER, leader_id := Some (node_id ?s1)\<rparr>"]
      by (auto split: if_splits)
    have "receive_vote eid granted j s = ethen (r, t) (\<lambda>_ s. (Inr True, s))"
      using False jr by (cases granted)
        (simp_all add: receive_vote_def Let_def total_nodes_def thr [unfolded total_nodes_def])
    then show ?thesis using False t by (cases r) simp_all
  qed
qed

text \<open>
  In every run from a new engine, entry \<open>i\<close> of the log has index \<open>i\<close> and a digest
  that verifies, the commit index lies inside the log, and whatever the node does next, the log only
  grows: entries keep their place and contents, committed ones stay committed, and the commit index
  never falls.\<close>

theorem consensus_log_append_only:
  "log_ok sha (run sha cs (engine_new nid peers mode critical now)) \<and>
   log_extends (run sha cs (engine_new nid peers mode critical now))
     (run sha (cs @ ds) (engine_new nid peers mode critical now))"
proof -
  have "log_ok sha (engine_new nid peers mode critical now)" by (simp add: log_ok_def engine_new_def)
  then have "log_ok sha (run sha cs (engine_new nid peers mode critical now))" using run_log by blast
  then show ?thesis using run_log by (simp add: run_append)
qed

text \<open>
  A vote is counted for its election id only, not for its term. Here a node starts
  an election in term 1, learns of a leader of term 7, and then receives the missing vote of its old
  election: it becomes leader of term 7, in which nobody voted for anyone.\<close>

theorem consensus_stale_vote_elects:
  "let E = engine_new ''n1'' [''n2'', ''n3''] FAIL_OPEN [] 0;
       cs = [StartElection ''e1'' NoJournal, Heartbeat ''n2'' 7 0, ReceiveVote ''e1'' True NoJournal];
       t = run sha cs E
   in role t = LEADER \<and> current_term t = 7 \<and> leader_id t = Some ''n1'' \<and>
      filter (\<lambda>(term, c). term = 7) (grants sha cs E) = []"
  by (simp add: Let_def engine_new_def snd_start_election receive_heartbeat_def receive_vote_def
      total_nodes_def over_threshold_def dget_or_def)

text \<open>
  The fail-closed journal comes too late for the log. When journalling an append raises
  under the fail-closed mode, the caller gets the exception, but the entry is in the log and can be
  committed.\<close>

theorem consensus_fail_closed_append_stays:
  assumes "role s = LEADER" "failure_mode s = FAIL_CLOSED_CRITICAL"
    and "''federation_log_appended.v1'' \<in> set (critical_events s)"
    and "append_entry sha ty p (JournalRaised cls msg) s = (r, t)"
  shows "r = Inl (JournalError cls msg) \<and>
    log t = log s @ [build_entry sha (current_term s) (int (length (log s))) ty p] \<and>
    fst (commit_entry sha (int (length (log s))) t)"
  using assms
  by (auto simp: append_entry_def journal_def Let_def commit_entry_def build_entry_def verify_digest_def
      nth_append)

theorem consensus_fail_closed_append_stays_witness:
  "length (log (snd (append_entry (\<lambda>x. x) ''policy_change'' [] (JournalRaised ''OSError'' ''disk'')
     ((engine_new ''n1'' [] FAIL_CLOSED_CRITICAL [] 0)\<lparr>role := LEADER\<rparr>)))) = 1"
proof -
  let ?s = "(engine_new ''n1'' [] FAIL_CLOSED_CRITICAL [] 0)\<lparr>role := LEADER\<rparr>"
  obtain r t where a: "append_entry (\<lambda>x. x) ''policy_change'' [] (JournalRaised ''OSError'' ''disk'') ?s = (r, t)"
    by fastforce
  from consensus_fail_closed_append_stays [OF _ _ _ a] a show ?thesis
    by (simp add: engine_new_def default_critical_events_def)
qed

end
