(* ===== verification/ExceptionTokens.thy ===== *)
theory ExceptionTokens
  imports Json
begin

text \<open>
  \<open>runtime/governance/exception_tokens.py\<close>: time-bounded exception tokens and their append-only
  ledger. The ledger object is a record of its file and its insertion-ordered dictionary of tokens.
  SHA-256 is a parameter. File writes succeed. A lineage projection is a list of JSON values. When
  the file is read, a granted row whose text fields are not strings is dropped like the other rows
  that cannot be rebuilt.
\<close>

section \<open>Constants and data\<close>

definition EXCEPTION_TOKEN_MAX_TTL :: int where
  "EXCEPTION_TOKEN_MAX_TTL = 3"

definition ELIGIBLE_RULE_IDS :: "string list" where
  "ELIGIBLE_RULE_IDS = [''AST-COMPLEX-0'']"

definition TIER_0_CAPABILITY_NAMES :: "string list" where
  "TIER_0_CAPABILITY_NAMES = [''governance.gate'', ''governance.policy'', ''determinism.provider'']"

record token =
  token_id :: string
  capability_name :: string
  rule_id :: string
  granted_at_epoch :: string
  expires_at_epoch :: int
  granted_epoch_seq :: int
  lineage_projection :: "json list"
  human_approval_ref :: "string option"
  revocation_trigger :: string
  revoked :: bool
  revocation_reason :: "string option"

datatype token_error =
    TierZeroIneligible
  | RuleIneligible
  | TtlOutOfRange
  | HumanApprovalRequired
  | TokenExists
  | UnknownToken

definition scope_hash :: "(string \<Rightarrow> string) \<Rightarrow> string \<Rightarrow> string \<Rightarrow> string \<Rightarrow> string" where
  "scope_hash sha cap rule epoch =
     sha (canonical True (JObj
       [(''capability_name'', JStr cap), (''rule_id'', JStr rule), (''epoch_id'', JStr epoch)]))"

definition make_token_id :: "(string \<Rightarrow> string) \<Rightarrow> string \<Rightarrow> string \<Rightarrow> string \<Rightarrow> string \<Rightarrow> string" where
  "make_token_id sha epoch cap rule sh =
     sha (canonical True (JObj
       [(''epoch_id'', JStr epoch), (''capability_name'', JStr cap), (''rule_id'', JStr rule),
        (''scope_hash'', JStr sh)]))"

definition REVOCATION_TRIGGER :: string where
  "REVOCATION_TRIGGER =
     ''auto-revoke on: lineage_diverges | capability_contract_changes | '' @
     ''test_failure_rate_exceeds_threshold | epoch_window_expires''"

definition create_token ::
  "(string \<Rightarrow> string) \<Rightarrow> string \<Rightarrow> string \<Rightarrow> string \<Rightarrow> int \<Rightarrow> json list \<Rightarrow> string option \<Rightarrow> int \<Rightarrow>
   token_error + token"
where
  "create_token sha cap rule epoch seq lineage ref ttl =
     (if cap \<in> set TIER_0_CAPABILITY_NAMES then Inl TierZeroIneligible
      else if rule \<notin> set ELIGIBLE_RULE_IDS then Inl RuleIneligible
      else if ttl < 1 \<or> EXCEPTION_TOKEN_MAX_TTL < ttl then Inl TtlOutOfRange
      else if (case ref of None \<Rightarrow> True | Some r \<Rightarrow> py_strip r = []) then Inl HumanApprovalRequired
      else Inr
        \<lparr>token_id = make_token_id sha epoch cap rule (scope_hash sha cap rule epoch),
         capability_name = cap, rule_id = rule, granted_at_epoch = epoch,
         expires_at_epoch = seq + ttl, granted_epoch_seq = seq, lineage_projection = lineage,
         human_approval_ref = ref, revocation_trigger = REVOCATION_TRIGGER,
         revoked = False, revocation_reason = None\<rparr>)"

definition is_active :: "int \<Rightarrow> token \<Rightarrow> bool" where
  "is_active now t \<longleftrightarrow> \<not> revoked t \<and> now \<le> expires_at_epoch t"

definition opt_str :: "string option \<Rightarrow> json" where
  "opt_str s = (case s of None \<Rightarrow> JNull | Some x \<Rightarrow> JStr x)"

definition token_to_dict :: "token \<Rightarrow> obj" where
  "token_to_dict t =
    [(''token_id'', JStr (token_id t)), (''capability_name'', JStr (capability_name t)),
     (''rule_id'', JStr (rule_id t)), (''granted_at_epoch'', JStr (granted_at_epoch t)),
     (''granted_epoch_seq'', JInt (granted_epoch_seq t)), (''expires_at_epoch'', JInt (expires_at_epoch t)),
     (''lineage_projection'', JList (lineage_projection t)),
     (''human_approval_ref'', opt_str (human_approval_ref t)),
     (''revocation_trigger'', JStr (revocation_trigger t)), (''revoked'', JBool (revoked t)),
     (''revocation_reason'', opt_str (revocation_reason t))]"

section \<open>Reading the file\<close>

fun need :: "obj \<Rightarrow> string \<Rightarrow> json res" where
  "need d k = (case dget d k of None \<Rightarrow> Inl (KeyError k) | Some v \<Rightarrow> Inr v)"

fun need_str :: "json \<Rightarrow> string res" where
  "need_str (JStr s) = Inr s"
| "need_str _ = Inl TypeError"

fun need_opt_str :: "json \<Rightarrow> string option res" where
  "need_opt_str (JStr s) = Inr (Some s)"
| "need_opt_str JNull = Inr None"
| "need_opt_str _ = Inl TypeError"

definition reconstruct :: "obj \<Rightarrow> token res" where
  "reconstruct d =
     ebind (ebind (need d ''token_id'') need_str) (\<lambda>tid.
     ebind (ebind (need d ''capability_name'') need_str) (\<lambda>cap.
     ebind (ebind (need d ''rule_id'') need_str) (\<lambda>rule.
     ebind (ebind (need d ''granted_at_epoch'') need_str) (\<lambda>epoch.
     ebind (ebind (need d ''granted_epoch_seq'') py_int) (\<lambda>seq.
     ebind (ebind (need d ''expires_at_epoch'') py_int) (\<lambda>expires.
     ebind (py_list (dget_or d ''lineage_projection'' (JList []))) (\<lambda>lineage.
     ebind (need_opt_str (dget_or d ''human_approval_ref'' JNull)) (\<lambda>ref.
     ebind (need_str (dget_or d ''revocation_trigger'' (JStr []))) (\<lambda>trigger.
     ebind (need_opt_str (dget_or d ''revocation_reason'' JNull)) (\<lambda>reason.
       Inr \<lparr>token_id = tid, capability_name = cap, rule_id = rule, granted_at_epoch = epoch,
            expires_at_epoch = expires, granted_epoch_seq = seq, lineage_projection = lineage,
            human_approval_ref = ref, revocation_trigger = trigger,
            revoked = truthy (dget_or d ''revoked'' (JBool False)), revocation_reason = reason\<rparr>))))))))))"

type_synonym tokens = "(string, token) dict"

definition set_revoked :: "string option \<Rightarrow> token \<Rightarrow> token" where
  "set_revoked reason t = t\<lparr>revoked := True, revocation_reason := reason\<rparr>"

definition load_row :: "json \<Rightarrow> tokens \<Rightarrow> tokens res" where
  "load_row row ts =
     ebind (as_obj row) (\<lambda>d.
       if dget d ''event'' = Some (JStr ''granted'') then
         Inr (case reconstruct d of Inl e \<Rightarrow> ts | Inr t \<Rightarrow> dput (token_id t) t ts)
       else if dget d ''event'' = Some (JStr ''revoked'') then
         Inr (case dget_or d ''token_id'' (JStr []) of
                JStr tid \<Rightarrow>
                  (case dget ts tid of
                     None \<Rightarrow> ts
                   | Some t \<Rightarrow> dput tid (set_revoked (as_str (dget_or d ''reason'' (JStr ''unknown''))) t) ts)
              | _ \<Rightarrow> ts)
       else Inr ts)"

fun load_rows :: "json list \<Rightarrow> tokens \<Rightarrow> tokens res" where
  "load_rows [] ts = Inr ts"
| "load_rows (row # rows) ts = ebind (load_row row ts) (load_rows rows)"

section \<open>The ledger\<close>

record token_ledger =
  tl_file :: jsonl
  tl_tokens :: tokens

definition ledger_open :: "jsonl \<Rightarrow> token_ledger res" where
  "ledger_open f = ebind (load_rows (parsed (file_lines f)) []) (\<lambda>ts. Inr \<lparr>tl_file = f, tl_tokens = ts\<rparr>)"

definition grant :: "token \<Rightarrow> token_ledger \<Rightarrow> (token_error + unit) \<times> token_ledger" where
  "grant t l =
     (if token_id t \<in> set (keys (tl_tokens l)) then (Inl TokenExists, l)
      else (Inr (), l\<lparr>tl_tokens := dput (token_id t) t (tl_tokens l),
                      tl_file := append_line (JObj ((''event'', JStr ''granted'') # token_to_dict t)) (tl_file l)\<rparr>))"

definition revoke :: "string \<Rightarrow> string \<Rightarrow> token_ledger \<Rightarrow> (token_error + unit) \<times> token_ledger" where
  "revoke tid reason l =
     (case dget (tl_tokens l) tid of
        None \<Rightarrow> (Inl UnknownToken, l)
      | Some t \<Rightarrow>
          if revoked t then (Inr (), l)
          else (Inr (), l\<lparr>tl_tokens := dput tid (set_revoked (Some reason) t) (tl_tokens l),
                          tl_file := append_line (JObj [(''event'', JStr ''revoked''), (''token_id'', JStr tid),
                            (''reason'', JStr reason)]) (tl_file l)\<rparr>))"

definition active_tokens_for :: "string \<Rightarrow> int \<Rightarrow> token_ledger \<Rightarrow> token list" where
  "active_tokens_for cap now l =
     filter (\<lambda>t. capability_name t = cap \<and> is_active now t) (map snd (tl_tokens l))"

text \<open>\<open>check_and_expire\<close>: the loop over a snapshot of the items.\<close>

fun expire_loop :: "int \<Rightarrow> (string \<times> token) list \<Rightarrow> token_ledger \<Rightarrow> string list \<times> token_ledger" where
  "expire_loop now [] l = ([], l)"
| "expire_loop now ((tid, t) # items) l =
     (if \<not> revoked t \<and> expires_at_epoch t < now then
        (case expire_loop now items (snd (revoke tid ''epoch_window_expires'' l)) of
           (ids, l') \<Rightarrow> (tid # ids, l'))
      else expire_loop now items l)"

definition check_and_expire :: "int \<Rightarrow> token_ledger \<Rightarrow> string list \<times> token_ledger" where
  "check_and_expire now l = expire_loop now (tl_tokens l) l"

definition has_active_token :: "string \<Rightarrow> string \<Rightarrow> int \<Rightarrow> token_ledger \<Rightarrow> bool" where
  "has_active_token cap rule now l = list_ex (\<lambda>t. rule_id t = rule) (active_tokens_for cap now l)"

definition get_token :: "string \<Rightarrow> token_ledger \<Rightarrow> token option" where
  "get_token tid l = dget (tl_tokens l) tid"

definition all_tokens :: "token_ledger \<Rightarrow> token list" where
  "all_tokens l = map snd (tl_tokens l)"

section \<open>Reachable ledgers\<close>

inductive tl_reachable :: "(string \<Rightarrow> string) \<Rightarrow> token_ledger \<Rightarrow> bool" for sha where
  tl_new: "tl_reachable sha \<lparr>tl_file = None, tl_tokens = []\<rparr>"
| tl_grant: "tl_reachable sha l \<Longrightarrow>
    create_token sha cap rule epoch seq lineage ref ttl = Inr t \<Longrightarrow> tl_reachable sha (snd (grant t l))"
| tl_revoke: "tl_reachable sha l \<Longrightarrow> tl_reachable sha (snd (revoke tid reason l))"
| tl_expire: "tl_reachable sha l \<Longrightarrow> tl_reachable sha (snd (check_and_expire now l))"

lemma token_rows_append: "load_rows (xs @ ys) ts = ebind (load_rows xs ts) (load_rows ys)"
proof (induction xs arbitrary: ts)
  case (Cons x xs)
  then show ?case by (cases "load_row x ts") auto
qed simp

lemma py_list_JList [simp]: "py_list (JList xs) = Inr xs"
  by simp

lemma reconstruct_to_dict: "reconstruct ((''event'', v) # token_to_dict t) = Inr t"
  by (cases "human_approval_ref t"; cases "revocation_reason t")
    (simp_all add: reconstruct_def token_to_dict_def opt_str_def dget_or_def)

text \<open>The file replays to the tokens; every token was created by \<open>create_token\<close> up to revocation.\<close>

definition created :: "token \<Rightarrow> bool" where
  "created t \<longleftrightarrow>
     capability_name t \<notin> set TIER_0_CAPABILITY_NAMES \<and> rule_id t \<in> set ELIGIBLE_RULE_IDS \<and>
     granted_epoch_seq t < expires_at_epoch t \<and>
     expires_at_epoch t \<le> granted_epoch_seq t + EXCEPTION_TOKEN_MAX_TTL \<and>
     (\<exists>r. human_approval_ref t = Some r \<and> py_strip r \<noteq> [])"

definition tl_inv :: "token_ledger \<Rightarrow> bool" where
  "tl_inv l \<longleftrightarrow>
     load_rows (parsed (file_lines (tl_file l))) [] = Inr (tl_tokens l) \<and>
     list_all (\<lambda>(tid, t). token_id t = tid \<and> created t) (tl_tokens l) \<and> distinct (keys (tl_tokens l))"

lemma create_token_created:
  "create_token sha cap rule epoch seq lineage ref ttl = Inr t \<Longrightarrow>
     created t \<and> \<not> revoked t \<and> capability_name t = cap \<and> rule_id t = rule"
  by (auto simp: create_token_def created_def EXCEPTION_TOKEN_MAX_TTL_def split: if_splits option.splits)

lemma dput_list_all:
  "list_all P d \<Longrightarrow> P (k, v) \<Longrightarrow> list_all P (dput k v d)"
  by (induction d) auto

lemma keys_dput_in: "dget d k \<noteq> None \<Longrightarrow> keys (dput k v d) = keys d"
  by (induction d) (auto simp: keys_def split: if_splits)

lemma grant_inv:
  assumes "tl_inv l" "created t"
  shows "tl_inv (snd (grant t l))"
proof (cases "token_id t \<in> set (keys (tl_tokens l))")
  case False
  then have "dget (tl_tokens l) (token_id t) = None" by (simp add: keys_def map_of_eq_None_iff)
  then have d: "dput (token_id t) t (tl_tokens l) = tl_tokens l @ [(token_id t, t)]" by (rule dput_new)
  have "load_row (JObj ((''event'', JStr ''granted'') # token_to_dict t)) (tl_tokens l) =
      Inr (dput (token_id t) t (tl_tokens l))"
    by (simp add: load_row_def reconstruct_to_dict)
  then show ?thesis using assms False d
    by (simp add: tl_inv_def grant_def token_rows_append keys_def)
qed (simp add: grant_def assms(1))

lemma revoke_inv:
  assumes "tl_inv l"
  shows "tl_inv (snd (revoke tid reason l))"
proof (cases "dget (tl_tokens l) tid")
  case None
  then show ?thesis using assms by (simp add: revoke_def)
next
  case (Some t)
  then have "(tid, t) \<in> set (tl_tokens l)" by (rule map_of_SomeD)
  then have t: "token_id t = tid" "created t" using assms by (auto simp: tl_inv_def list_all_iff)
  show ?thesis
  proof (cases "revoked t")
    case False
    have "load_row (JObj [(''event'', JStr ''revoked''), (''token_id'', JStr tid), (''reason'', JStr reason)]) (tl_tokens l)
        = Inr (dput tid (set_revoked (Some reason) t) (tl_tokens l))"
      by (simp add: load_row_def dget_or_def Some)
    moreover have "list_all (\<lambda>(tid, t). token_id t = tid \<and> created t) (dput tid (set_revoked (Some reason) t) (tl_tokens l))"
      using assms t by (intro dput_list_all) (auto simp: tl_inv_def set_revoked_def created_def)
    ultimately show ?thesis using assms False Some
      by (simp add: revoke_def tl_inv_def token_rows_append keys_dput_in)
  qed (use Some assms in \<open>simp add: revoke_def\<close>)
qed

lemma expire_loop_inv: "tl_inv l \<Longrightarrow> tl_inv (snd (expire_loop now items l))"
proof (induction now items l rule: expire_loop.induct)
  case (2 now tid t items l)
  then show ?case by (auto simp: revoke_inv split: prod.splits)
qed simp

lemma tl_reachable_inv: "tl_reachable sha l \<Longrightarrow> tl_inv l"
proof (induction rule: tl_reachable.induct)
  case tl_new
  then show ?case by (simp add: tl_inv_def keys_def)
next
  case (tl_grant l cap rule epoch seq lineage ref ttl t)
  then show ?case using create_token_created grant_inv by blast
qed (auto simp: revoke_inv check_and_expire_def expire_loop_inv)

lemma revoke_tokens:
  assumes "(tid, t) \<in> set (tl_tokens l)" "distinct (keys (tl_tokens l))" "\<not> revoked t"
  shows "tl_tokens (snd (revoke tid reason l)) =
    map (\<lambda>(i, u). (i, if i = tid then set_revoked (Some reason) u else u)) (tl_tokens l)"
proof -
  have put: "dput tid v d = map (\<lambda>(i, u). (i, if i = tid then v else u)) d"
    if "tid \<in> set (keys d)" "distinct (keys d)" for v and d :: "(string \<times> token) list"
    using that by (induction d) (force simp: keys_def intro!: map_idI [symmetric])+
  have "dget (tl_tokens l) tid = Some t" using assms(1,2) by (simp add: keys_def)
  moreover have "tid \<in> set (keys (tl_tokens l))" using assms(1) by (force simp: keys_def)
  moreover have "u = t" if "(tid, u) \<in> set (tl_tokens l)" for u
    using that assms(1,2) by (metis keys_def map_of_is_SomeI option.inject)
  ultimately show ?thesis
    using assms(2,3) put [of "tl_tokens l"] by (auto simp: revoke_def intro!: map_cong)
qed

definition window_over :: "int \<Rightarrow> token \<Rightarrow> bool" where
  "window_over now t \<longleftrightarrow> \<not> revoked t \<and> expires_at_epoch t < now"

text \<open>What a sweep over the ids \<open>K\<close> does to one item.\<close>

definition mark :: "int \<Rightarrow> string set \<Rightarrow> string \<times> token \<Rightarrow> string \<times> token" where
  "mark now K p =
     (fst p, if fst p \<in> K \<and> window_over now (snd p)
             then set_revoked (Some ''epoch_window_expires'') (snd p) else snd p)"

lemma keys_map_values: "(\<And>p. fst (f p) = fst p) \<Longrightarrow> keys (map f d) = keys d"
  by (simp add: keys_def comp_def)

lemma keys_mem: "(i, u) \<in> set d \<Longrightarrow> i \<in> set (keys d)"
  by (force simp: keys_def)

lemma expire_loop_tokens:
  assumes "distinct (keys (tl_tokens l))" "distinct (keys items)" "set items \<subseteq> set (tl_tokens l)"
  shows "fst (expire_loop now items l) = map fst (filter (window_over now \<circ> snd) items)
    \<and> tl_tokens (snd (expire_loop now items l)) = map (mark now (set (keys items))) (tl_tokens l)"
  using assms
proof (induction now items l rule: expire_loop.induct)
  case (1 now l)
  have "mark now {} = (\<lambda>p. p)" by (rule ext) (simp add: mark_def)
  then show ?case by (simp add: keys_def)
next
  case (2 now tid t items l)
  have mem: "(tid, t) \<in> set (tl_tokens l)" using "2.prems"(3) by simp
  have uniq: "u = t" if "(tid, u) \<in> set (tl_tokens l)" for u
    using that mem "2.prems"(1) by (metis keys_def map_of_is_SomeI option.inject)
  have k: "tid \<notin> set (keys items)" "distinct (keys items)"
    "set (keys ((tid, t) # items)) = insert tid (set (keys items))"
    using "2.prems"(2) by (auto simp: keys_def)
  show ?case
  proof (cases "window_over now t")
    case False
    then have w: "\<not> (\<not> revoked t \<and> expires_at_epoch t < now)" by (simp add: window_over_def)
    have "set items \<subseteq> set (tl_tokens l)" using "2.prems"(3) by simp
    note IH = "2.IH"(2) [OF w "2.prems"(1) k(2) this]
    have "map (mark now (set (keys items))) (tl_tokens l) = map (mark now (insert tid (set (keys items)))) (tl_tokens l)"
      by (rule map_cong [OF refl]) (use uniq False in \<open>auto simp: mark_def\<close>)
    moreover have "expire_loop now ((tid, t) # items) l = expire_loop now items l"
      unfolding expire_loop.simps by (rule if_not_P [OF w])
    ultimately show ?thesis using IH False unfolding k(3) by simp
  next
    case True
    then have w: "\<not> revoked t \<and> expires_at_epoch t < now" by (simp add: window_over_def)
    let ?l = "snd (revoke tid ''epoch_window_expires'' l)"
    let ?f = "\<lambda>(i, u). (i, if i = tid then set_revoked (Some ''epoch_window_expires'') u else u)"
    have tk: "tl_tokens ?l = map ?f (tl_tokens l)"
      by (rule revoke_tokens [OF mem "2.prems"(1)]) (simp add: w)
    have d: "distinct (keys (tl_tokens ?l))"
      unfolding tk using "2.prems"(1) by (subst keys_map_values) auto
    have "(i, u) \<in> set (tl_tokens ?l)" if "(i, u) \<in> set items" for i u
    proof -
      have "i \<noteq> tid" using k(1) keys_mem [OF that] by auto
      moreover have "(i, u) \<in> set (tl_tokens l)" using that "2.prems"(3) by auto
      ultimately show ?thesis unfolding tk by force
    qed
    then have "set items \<subseteq> set (tl_tokens ?l)" by auto
    note IH = "2.IH"(1) [OF w d k(2) this]
    have step: "mark now (set (keys items)) (?f p) = mark now (insert tid (set (keys items))) p"
      if "p \<in> set (tl_tokens l)" for p
    proof (cases p)
      case (Pair i u)
      show ?thesis
      proof (cases "i = tid")
        case True
        then show ?thesis using that Pair uniq \<open>window_over now t\<close> k(1) by (simp add: mark_def)
      next
        case False
        then show ?thesis using Pair by (simp add: mark_def)
      qed
    qed
    have "map (mark now (set (keys items))) (tl_tokens ?l) = map (mark now (insert tid (set (keys items)))) (tl_tokens l)"
      unfolding tk map_map by (rule map_cong [OF refl]) (simp only: comp_apply step)
    with IH w True show ?thesis unfolding k(3) by (simp add: split_beta)
  qed
qed

section \<open>Properties\<close>

definition demo_token :: token where
  "demo_token = projr (create_token (\<lambda>x. ''id'') ''mutation.engine'' ''AST-COMPLEX-0'' ''e7'' 7 [] (Some ''HUMAN-0'') 3)"

definition demo_ledger :: token_ledger where
  "demo_ledger = snd (grant demo_token \<lparr>tl_file = None, tl_tokens = []\<rparr>)"

lemmas demo_token_simps = demo_token_def create_token_def TIER_0_CAPABILITY_NAMES_def ELIGIBLE_RULE_IDS_def
  EXCEPTION_TOKEN_MAX_TTL_def py_strip_def is_space_def make_token_id_def scope_hash_def

lemma demo_ledger_reachable: "tl_reachable (\<lambda>x. ''id'') demo_ledger"
  unfolding demo_ledger_def
  by (rule tl_grant [OF tl_new, where cap = "''mutation.engine''" and rule = "''AST-COMPLEX-0''" and epoch = "''e7''"
        and seq = 7 and lineage = "[]" and ref = "Some ''HUMAN-0''" and ttl = 3])
    (simp add: demo_token_simps)

text \<open>
  A ledger object after any grants of created tokens, revocations and expiry
  sweeps is exactly what a new object reads back from its file: same tokens, same order, same
  revocations and reasons.\<close>

theorem tokens_survive_reload:
  assumes "tl_reachable sha l"
  shows "ledger_open (tl_file l) = Inr l"
  using tl_reachable_inv [OF assms] by (simp add: tl_inv_def ledger_open_def)

theorem tokens_survive_reload_witness: "ledger_open (tl_file demo_ledger) = Inr demo_ledger"
  by (rule tokens_survive_reload [OF demo_ledger_reachable])

text \<open>
  C32 (safety): whatever happened to the ledger, if it reports an active token for a capability
  and a rule, then the rule is eligible, the capability is not of tier 0, and some token of the ledger
  for them carries a non-blank human approval reference, is not revoked, and was granted at most three
  epochs ago.\<close>

theorem active_token_is_authorised:
  assumes "tl_reachable sha l" "has_active_token cap rule now l"
  shows "rule \<in> set ELIGIBLE_RULE_IDS \<and> cap \<notin> set TIER_0_CAPABILITY_NAMES \<and>
    list_ex (\<lambda>t. capability_name t = cap \<and> rule_id t = rule \<and> \<not> revoked t \<and>
       now \<le> granted_epoch_seq t + EXCEPTION_TOKEN_MAX_TTL \<and>
       (case human_approval_ref t of None \<Rightarrow> False | Some r \<Rightarrow> py_strip r \<noteq> [])) (all_tokens l)"
proof -
  obtain tid t where t: "(tid, t) \<in> set (tl_tokens l)" "capability_name t = cap" "rule_id t = rule" "is_active now t"
    using assms(2) by (auto simp: has_active_token_def active_tokens_for_def list_ex_iff)
  have "created t" using tl_reachable_inv [OF assms(1)] t(1) by (auto simp: tl_inv_def list_all_iff)
  then show ?thesis using t
    by (auto simp: created_def is_active_def list_ex_iff all_tokens_def intro!: bexI [of _ "(tid, t)"])
qed

theorem active_token_is_authorised_witness:
  "list_ex (\<lambda>t. py_strip (the (human_approval_ref t)) \<noteq> []) (all_tokens demo_ledger)"
proof -
  have "has_active_token ''mutation.engine'' ''AST-COMPLEX-0'' 10 demo_ledger"
    by (simp add: has_active_token_def active_tokens_for_def demo_ledger_def grant_def keys_def
        demo_token_simps is_active_def)
  from active_token_is_authorised [OF demo_ledger_reachable this]
  obtain t where t: "t \<in> set (all_tokens demo_ledger)"
      "case human_approval_ref t of None \<Rightarrow> False | Some r \<Rightarrow> py_strip r \<noteq> []"
    unfolding list_ex_iff by blast
  from t(2) have "py_strip (the (human_approval_ref t)) \<noteq> []" by (cases "human_approval_ref t") simp_all
  with t(1) show ?thesis unfolding list_ex_iff by blast
qed

text \<open>
  An expiry sweep at an epoch revokes exactly the unrevoked tokens whose window is
  over, returns their ids in order and changes nothing else; no token expired at that epoch is
  active afterwards.\<close>

theorem expiry_sweep_exact:
  assumes "tl_reachable sha l" "check_and_expire now l = (ids, l')"
  shows "ids = map fst (filter (window_over now \<circ> snd) (tl_tokens l)) \<and>
    tl_tokens l' = map (\<lambda>(tid, t). (tid, if window_over now t
       then set_revoked (Some ''epoch_window_expires'') t else t)) (tl_tokens l)"
proof -
  have d: "distinct (keys (tl_tokens l))" using tl_reachable_inv [OF assms(1)] by (simp add: tl_inv_def)
  have "map (mark now (set (keys (tl_tokens l)))) (tl_tokens l) =
      map (\<lambda>(tid, t). (tid, if window_over now t
       then set_revoked (Some ''epoch_window_expires'') t else t)) (tl_tokens l)"
    by (rule map_cong [OF refl]) (auto simp: mark_def keys_mem)
  with expire_loop_tokens [OF d d subset_refl, of now] assms(2) show ?thesis
    by (auto simp: check_and_expire_def)
qed

theorem expiry_sweep_exact_witness:
  "fst (check_and_expire 11 demo_ledger) = [''id'']"
  unfolding expiry_sweep_exact [OF demo_ledger_reachable surjective_pairing, THEN conjunct1]
  by (simp add: demo_ledger_def grant_def keys_def demo_token_simps window_over_def)

end
