(* ===== verification/GateV2.thy ===== *)
theory GateV2
  imports ExceptionTokens
begin

text \<open>
  \<open>runtime/governance/gate_v2.py\<close>: the additive rules of the governance gate. The Python parser is
  the parameter \<open>parse\<close>: a syntax error with its text, or the tree. A tree keeps what the rules look
  at; every other node type is \<open>PNode\<close> with its children. The iteration order of the frozenset of
  module roots, which is not fixed, is the parameter \<open>roots\<close>. The dash of one message text, which lies
  outside the modelled characters, is written as a hyphen.
\<close>

section \<open>Syntax trees\<close>

datatype pynode =
    PName string
  | PAttribute pynode string
  | PCall pynode "pynode list"
  | PImport "string list"
  | PImportFrom "string option" "string list"
  | PBranch "pynode list"
  | PExceptHandler "pynode list"
  | PTry "pynode list"
  | PBoolOp "pynode list"
  | PNode "pynode list"

fun children :: "pynode \<Rightarrow> pynode list" where
  "children (PName x) = []"
| "children (PAttribute v a) = [v]"
| "children (PCall f xs) = f # xs"
| "children (PImport xs) = []"
| "children (PImportFrom m xs) = []"
| "children (PBranch xs) = xs"
| "children (PExceptHandler xs) = xs"
| "children (PTry xs) = xs"
| "children (PBoolOp xs) = xs"
| "children (PNode xs) = xs"

fun node_count :: "pynode \<Rightarrow> nat" where
  "node_count (PName x) = 1"
| "node_count (PAttribute v a) = Suc (node_count v)"
| "node_count (PCall f xs) = Suc (node_count f + sum_list (map node_count xs))"
| "node_count (PImport xs) = 1"
| "node_count (PImportFrom m xs) = 1"
| "node_count (PBranch xs) = Suc (sum_list (map node_count xs))"
| "node_count (PExceptHandler xs) = Suc (sum_list (map node_count xs))"
| "node_count (PTry xs) = Suc (sum_list (map node_count xs))"
| "node_count (PBoolOp xs) = Suc (sum_list (map node_count xs))"
| "node_count (PNode xs) = Suc (sum_list (map node_count xs))"

lemma node_count_children: "node_count n = Suc (sum_list (map node_count (children n)))"
  by (cases n) simp_all

text \<open>\<open>ast.walk\<close>: breadth first, with a queue.\<close>

function walk :: "pynode list \<Rightarrow> pynode list" where
  "walk [] = []"
| "walk (n # q) = n # walk (q @ children n)"
  by pat_completeness auto

termination
  by (relation "measure (\<lambda>q. sum_list (map node_count q))") (simp_all add: node_count_children)

section \<open>Constants\<close>

definition AST_COMPLEX_CLASS_A_CEILING :: int where
  "AST_COMPLEX_CLASS_A_CEILING = 2"

definition AST_COMPLEX_CLASS_B_CEILING :: int where
  "AST_COMPLEX_CLASS_B_CEILING = 8"

definition TIER_0_MODULE_ROOTS :: "string list" where
  "TIER_0_MODULE_ROOTS =
     [''runtime.governance.gate'', ''runtime.governance.foundation'', ''runtime.governance'', ''security'']"

definition FORBIDDEN_AST_CALLS :: "string list" where
  "FORBIDDEN_AST_CALLS = [''eval'', ''exec'']"

definition FORBIDDEN_ATTR_CALLS :: "(string \<times> string) list" where
  "FORBIDDEN_ATTR_CALLS =
     [(''os'', ''system''), (''subprocess'', ''call''), (''subprocess'', ''run''), (''subprocess'', ''Popen''),
      (''subprocess'', ''check_call''), (''subprocess'', ''check_output'')]"

record rule_result =
  rr_rule :: string
  rr_passed :: bool
  rr_class_b :: bool
  rr_reason :: string
  rr_detail :: "string option"

definition pass :: "string \<Rightarrow> rule_result" where
  "pass rule = \<lparr>rr_rule = rule, rr_passed = True, rr_class_b = False, rr_reason = ''ok'', rr_detail = None\<rparr>"

definition fails :: "string \<Rightarrow> string \<Rightarrow> string \<Rightarrow> rule_result" where
  "fails rule reason detail =
     \<lparr>rr_rule = rule, rr_passed = False, rr_class_b = False, rr_reason = reason, rr_detail = Some detail\<rparr>"

text \<open>The first element of a loop that returns from the function.\<close>

fun first_some :: "('a \<Rightarrow> 'b option) \<Rightarrow> 'a list \<Rightarrow> 'b option" where
  "first_some f [] = None"
| "first_some f (x # xs) = (case f x of Some y \<Rightarrow> Some y | None \<Rightarrow> first_some f xs)"

type_synonym parser = "string \<Rightarrow> string + pynode"

section \<open>The rules\<close>

fun unsafe_call :: "pynode \<Rightarrow> rule_result option" where
  "unsafe_call (PCall (PName f) args) =
     (if f \<in> set FORBIDDEN_AST_CALLS
      then Some (fails ''AST-SAFE-0'' (''forbidden_call_'' @ f)
             (''Direct call to '' @ [CHR 0x27] @ f @ [CHR 0x27] @ '' is not permitted''))
      else None)"
| "unsafe_call (PCall (PAttribute (PName m) a) args) =
     (if (m, a) \<in> set FORBIDDEN_ATTR_CALLS
      then Some (fails ''AST-SAFE-0'' (''forbidden_attr_call_'' @ m @ ''_'' @ a)
             (''Unguarded call to '' @ [CHR 0x27] @ m @ ''.'' @ a @ [CHR 0x27] @ '' is not permitted''))
      else None)"
| "unsafe_call n = None"

definition check_ast_safe_0 :: "parser \<Rightarrow> string \<Rightarrow> rule_result" where
  "check_ast_safe_0 parse after =
     (case parse after of
        Inl e \<Rightarrow> fails ''AST-SAFE-0'' ''syntax_error'' e
      | Inr tree \<Rightarrow>
          (case first_some unsafe_call (walk [tree]) of Some r \<Rightarrow> r | None \<Rightarrow> pass ''AST-SAFE-0''))"

definition under_root :: "string \<Rightarrow> string \<Rightarrow> bool" where
  "under_root name root \<longleftrightarrow> name = root \<or> startswith name (root @ ''.'')"

definition hit :: "string \<Rightarrow> string \<Rightarrow> string list \<Rightarrow> string \<Rightarrow> rule_result option" where
  "hit word reason roots name =
     first_some (\<lambda>root.
       if under_root name root
       then Some (fails ''AST-IMPORT-0'' reason
              (word @ '' '' @ [CHR 0x27] @ name @ [CHR 0x27] @ '' targets Tier-0 module root '' @
               [CHR 0x27] @ root @ [CHR 0x27]))
       else None) roots"

fun tier0_import :: "string list \<Rightarrow> pynode \<Rightarrow> rule_result option" where
  "tier0_import roots (PImport names) = first_some (hit ''Import'' ''tier_0_import'' roots) names"
| "tier0_import roots (PImportFrom m names) =
     hit ''ImportFrom'' ''tier_0_import_from'' roots (case m of None \<Rightarrow> [] | Some x \<Rightarrow> x)"
| "tier0_import roots n = None"

definition check_ast_import_0 :: "parser \<Rightarrow> string list \<Rightarrow> string \<Rightarrow> rule_result" where
  "check_ast_import_0 parse roots after =
     (case parse after of
        Inl e \<Rightarrow> pass ''AST-IMPORT-0''
      | Inr tree \<Rightarrow>
          (case first_some (tier0_import roots) (walk [tree]) of
             Some r \<Rightarrow> r | None \<Rightarrow> pass ''AST-IMPORT-0''))"

fun branches :: "pynode \<Rightarrow> int" where
  "branches (PBranch xs) = 1"
| "branches (PExceptHandler xs) = 1"
| "branches (PBoolOp xs) = int (length xs) - 1"
| "branches n = 0"

definition cyclomatic_proxy :: "parser \<Rightarrow> string \<Rightarrow> int" where
  "cyclomatic_proxy parse src =
     (case parse src of Inl e \<Rightarrow> 0 | Inr tree \<Rightarrow> sum_list (map branches (walk [tree])))"

definition complexity_delta :: "parser \<Rightarrow> string option \<Rightarrow> string \<Rightarrow> int" where
  "complexity_delta parse before after =
     cyclomatic_proxy parse after -
     (case before of None \<Rightarrow> 0 | Some b \<Rightarrow> if b = [] then 0 else cyclomatic_proxy parse b)"

definition check_ast_complex_0 ::
  "parser \<Rightarrow> string option \<Rightarrow> string \<Rightarrow> string \<Rightarrow> int \<Rightarrow> token_ledger option \<Rightarrow> rule_result"
where
  "check_ast_complex_0 parse before after cap now ledger =
     (let before_c = (case before of None \<Rightarrow> 0 | Some b \<Rightarrow> if b = [] then 0 else cyclomatic_proxy parse b);
          after_c = cyclomatic_proxy parse after;
          delta = after_c - before_c
      in if delta \<le> AST_COMPLEX_CLASS_A_CEILING then
           (pass ''AST-COMPLEX-0'')\<lparr>rr_detail := Some (''delta='' @ int_str delta @
              '' within Class A ceiling +'' @ int_str AST_COMPLEX_CLASS_A_CEILING)\<rparr>
         else if AST_COMPLEX_CLASS_B_CEILING < delta then
           fails ''AST-COMPLEX-0''
             (''complexity_delta_'' @ int_str delta @ ''_exceeds_class_b_ceiling_'' @ int_str AST_COMPLEX_CLASS_B_CEILING)
             (''before='' @ int_str before_c @ '' after='' @ int_str after_c @ '' delta='' @ int_str delta @
              ''; hard rejection'')
         else if (case ledger of None \<Rightarrow> False | Some l \<Rightarrow> has_active_token cap ''AST-COMPLEX-0'' now l) then
           (pass ''AST-COMPLEX-0'')\<lparr>rr_class_b := True,
              rr_detail := Some (''Class B approved via ExceptionToken; delta='' @ int_str delta)\<rparr>
         else
           (fails ''AST-COMPLEX-0''
             (''complexity_delta_'' @ int_str delta @ ''_exceeds_class_a_requires_exception_token'')
             (''delta='' @ int_str delta @ ''; Class B eligible '' @ [CHR 0x2D] @
              '' obtain ExceptionToken to proceed''))\<lparr>rr_class_b := True\<rparr>)"

definition check_sandbox_div_0 :: "bool \<Rightarrow> rule_result" where
  "check_sandbox_div_0 diverged =
     (if diverged then fails ''SANDBOX-DIV-0'' ''replay_divergence_detected''
        ''Post-apply test results diverged from sandbox results; automatic rejection''
      else pass ''SANDBOX-DIV-0'')"

definition check_evidence_bundle_req_0 :: "bool \<Rightarrow> bool \<Rightarrow> bool \<Rightarrow> rule_result" where
  "check_evidence_bundle_req_0 scoped present valid =
     (if \<not> scoped then (pass ''EVIDENCE-BUNDLE-REQ-0'')\<lparr>rr_detail := Some ''not_applicable_unscoped_event''\<rparr>
      else if \<not> present then fails ''EVIDENCE-BUNDLE-REQ-0'' ''missing_evidence_bundle''
        ''Scoped mutation/governance event requires evidence bundle presence''
      else if \<not> valid then fails ''EVIDENCE-BUNDLE-REQ-0'' ''invalid_evidence_bundle''
        ''Evidence bundle failed deterministic validation checks''
      else pass ''EVIDENCE-BUNDLE-REQ-0'')"

fun guard :: "pynode \<Rightarrow> bool" where
  "guard (PTry xs) = True"
| "guard (PExceptHandler xs) = True"
| "guard n = False"

definition count_guards :: "pynode \<Rightarrow> int" where
  "count_guards tree = int (length (filter guard (walk [tree])))"

definition check_semantic_int_0 :: "parser \<Rightarrow> string option \<Rightarrow> string \<Rightarrow> rule_result" where
  "check_semantic_int_0 parse before after =
     (case before of
        None \<Rightarrow> pass ''SEMANTIC-INT-0''
      | Some b \<Rightarrow>
          (case (parse b, parse after) of
             (Inr bt, Inr at) \<Rightarrow>
               (if count_guards at < count_guards bt
                then fails ''SEMANTIC-INT-0'' ''error_guard_removed_without_compensation''
                  (''before='' @ int_str (count_guards bt) @ '' error guards, after='' @ int_str (count_guards at) @
                   ''; removed guard must have a compensating handler'')
                else pass ''SEMANTIC-INT-0'')
           | _ \<Rightarrow> pass ''SEMANTIC-INT-0''))"

record replay_inputs =
  ri_manifest_path :: string
  ri_bundle_digest :: string
  ri_manifest_signed :: bool
  ri_schema_valid :: bool
  ri_signature_valid :: bool
  ri_divergence :: bool
  ri_verification_result :: string

definition check_replay_manifest_req_0 :: "bool \<Rightarrow> replay_inputs option \<Rightarrow> rule_result" where
  "check_replay_manifest_req_0 merge inputs =
     (if \<not> merge then (pass ''REPLAY-MANIFEST-REQ-0'')\<lparr>rr_detail := Some ''not_applicable_non_merge_context''\<rparr>
      else case inputs of
        None \<Rightarrow> fails ''REPLAY-MANIFEST-REQ-0'' ''missing_replay_verification_inputs''
                  ''Merge approval requires replay verification inputs for verified SHA context''
      | Some i \<Rightarrow>
          (if \<not> ri_manifest_signed i then fails ''REPLAY-MANIFEST-REQ-0'' ''manifest_not_signed''
             ''Replay manifest signature is required for merge approval''
           else if \<not> ri_schema_valid i then fails ''REPLAY-MANIFEST-REQ-0'' ''manifest_schema_invalid''
             ''Replay manifest must pass schema validation for merge approval''
           else if \<not> ri_signature_valid i then fails ''REPLAY-MANIFEST-REQ-0'' ''manifest_signature_invalid''
             ''Replay manifest signature validation failed''
           else if ri_divergence i then fails ''REPLAY-MANIFEST-REQ-0'' ''replay_divergence_true''
             ''Replay manifest reports divergence=true; merge must be blocked''
           else pass ''REPLAY-MANIFEST-REQ-0''))"

section \<open>The gate\<close>

record gate_request =
  v_mutation_id :: string
  v_capability :: string
  v_after :: string
  v_before :: "string option"
  v_replay_diverged :: bool
  v_epoch :: int
  v_scoped :: bool
  v_bundle_present :: bool
  v_bundle_valid :: bool
  v_merge :: bool
  v_manifest_path :: string
  v_bundle_digest :: string
  v_verification_result :: string
  v_manifest_signed :: bool
  v_schema_valid :: bool
  v_signature_valid :: bool
  v_divergence :: bool

record gate_decision =
  gd_approved :: bool
  gd_class_b :: bool
  gd_results :: "rule_result list"
  gd_mutation_id :: string
  gd_capability :: string
  gd_token_id :: "string option"
  gd_manifest_path :: string
  gd_bundle_digest :: string
  gd_verification_result :: string

definition replay_of :: "gate_request \<Rightarrow> replay_inputs option" where
  "replay_of a =
     (if v_manifest_path a \<noteq> [] \<or> v_bundle_digest a \<noteq> [] \<or> v_verification_result a \<noteq> [] \<or>
         v_manifest_signed a \<or> v_schema_valid a \<or> v_signature_valid a \<or> v_divergence a
      then Some \<lparr>ri_manifest_path = py_strip (v_manifest_path a), ri_bundle_digest = py_strip (v_bundle_digest a),
        ri_manifest_signed = v_manifest_signed a, ri_schema_valid = v_schema_valid a,
        ri_signature_valid = v_signature_valid a, ri_divergence = v_divergence a,
        ri_verification_result = py_strip (v_verification_result a)\<rparr>
      else None)"

definition evaluate :: "parser \<Rightarrow> string list \<Rightarrow> token_ledger option \<Rightarrow> gate_request \<Rightarrow> gate_decision" where
  "evaluate parse roots ledger a =
     (let complex = check_ast_complex_0 parse (v_before a) (v_after a) (v_capability a) (v_epoch a) ledger;
          inputs = replay_of a;
          results =
            [complex,
             check_ast_import_0 parse roots (v_after a),
             check_ast_safe_0 parse (v_after a),
             check_evidence_bundle_req_0 (v_scoped a) (v_bundle_present a) (v_bundle_valid a),
             check_sandbox_div_0 (v_replay_diverged a),
             check_replay_manifest_req_0 (v_merge a) inputs,
             check_semantic_int_0 parse (v_before a) (v_after a)];
          failed = filter (\<lambda>r. \<not> rr_passed r) results
      in \<lparr>gd_approved = (failed = []),
          gd_class_b = (case failed of [r] \<Rightarrow> rr_rule r = ''AST-COMPLEX-0'' \<and> rr_class_b r | _ \<Rightarrow> False),
          gd_results = results, gd_mutation_id = v_mutation_id a, gd_capability = v_capability a,
          gd_token_id =
            (case find (\<lambda>r. rr_rule r = ''AST-COMPLEX-0'') results of
               None \<Rightarrow> None
             | Some c \<Rightarrow>
                 if rr_passed c \<and> rr_class_b c then
                   (case ledger of
                      None \<Rightarrow> None
                    | Some l \<Rightarrow>
                        map_option token_id (find (\<lambda>t. rule_id t = ''AST-COMPLEX-0'')
                          (active_tokens_for (v_capability a) (v_epoch a) l)))
                 else None),
          gd_manifest_path = (case inputs of None \<Rightarrow> [] | Some i \<Rightarrow> ri_manifest_path i),
          gd_bundle_digest = (case inputs of None \<Rightarrow> [] | Some i \<Rightarrow> ri_bundle_digest i),
          gd_verification_result = (case inputs of None \<Rightarrow> [] | Some i \<Rightarrow> ri_verification_result i)\<rparr>)"

section \<open>Walking a tree\<close>

lemma node_count_child: "x \<in> set (children n) \<Longrightarrow> node_count x < node_count n"
  unfolding node_count_children [of n] by (simp add: less_Suc_eq_le member_le_sum_list)

function nodes :: "pynode \<Rightarrow> pynode list" where
  "nodes n = n # concat (map nodes (children n))"
  by pat_completeness auto

termination
  by (relation "measure node_count") (simp_all add: node_count_child)

declare nodes.simps [simp del]

text \<open>The breadth-first walk visits every node of the tree exactly once.\<close>

lemma walk_nodes: "mset (walk q) = mset (concat (map nodes q))"
proof (induction q rule: walk.induct)
  case (2 n q)
  then show ?case by (simp add: nodes.simps [of n])
qed simp

declare walk.simps [simp del]

lemma walk_set: "set (walk [t]) = set (nodes t)"
  using walk_nodes [of "[t]"] by (metis append_Nil2 concat.simps list.simps(8,9) mset_eq_setD)

lemma walk_sum: "sum_list (map f (walk [t])) = (sum_list (map f (nodes t)) :: int)"
  using walk_nodes [of "[t]"] by (simp add: sum_mset_sum_list [symmetric] mset_map)

lemma walk_count: "length (filter P (walk [t])) = length (filter P (nodes t))"
  using walk_nodes [of "[t]"] by (metis append_Nil2 concat.simps list.simps(8,9) mset_filter size_mset)

lemma first_some_None: "first_some f xs = None \<longleftrightarrow> list_all (\<lambda>x. f x = None) xs"
  by (induction xs) (auto split: option.split)

lemma first_some_fails:
  "first_some f xs = Some r \<Longrightarrow> \<exists>x \<in> set xs. f x = Some r"
  by (induction xs) (auto split: option.splits)

section \<open>The specification of an admissible change\<close>

fun forbidden_call :: "pynode \<Rightarrow> bool" where
  "forbidden_call (PCall (PName f) args) = (f \<in> set FORBIDDEN_AST_CALLS)"
| "forbidden_call (PCall (PAttribute (PName m) a) args) = ((m, a) \<in> set FORBIDDEN_ATTR_CALLS)"
| "forbidden_call n = False"

fun imports_tier0 :: "pynode \<Rightarrow> bool" where
  "imports_tier0 (PImport names) = list_ex (\<lambda>x. list_ex (under_root x) TIER_0_MODULE_ROOTS) names"
| "imports_tier0 (PImportFrom m names) =
     list_ex (under_root (case m of None \<Rightarrow> [] | Some x \<Rightarrow> x)) TIER_0_MODULE_ROOTS"
| "imports_tier0 n = False"

definition source_ok :: "parser \<Rightarrow> string \<Rightarrow> bool" where
  "source_ok parse src =
     (case parse src of
        Inl e \<Rightarrow> False
      | Inr tree \<Rightarrow> list_all (\<lambda>n. \<not> forbidden_call n \<and> \<not> imports_tier0 n) (nodes tree))"

definition complexity_ok :: "parser \<Rightarrow> token_ledger option \<Rightarrow> gate_request \<Rightarrow> bool" where
  "complexity_ok parse ledger a =
     (let delta = complexity_delta parse (v_before a) (v_after a)
      in delta \<le> 2 \<or> delta \<le> 8 \<and>
         (case ledger of None \<Rightarrow> False
          | Some l \<Rightarrow> has_active_token (v_capability a) ''AST-COMPLEX-0'' (v_epoch a) l))"

definition guards_kept :: "parser \<Rightarrow> gate_request \<Rightarrow> bool" where
  "guards_kept parse a =
     (case v_before a of
        None \<Rightarrow> True
      | Some b \<Rightarrow>
          (case (parse b, parse (v_after a)) of
             (Inr bt, Inr at) \<Rightarrow> length (filter guard (nodes bt)) \<le> length (filter guard (nodes at))
           | _ \<Rightarrow> True))"

definition evidence_ok :: "gate_request \<Rightarrow> bool" where
  "evidence_ok a =
     (\<not> (v_scoped a \<and> \<not> (v_bundle_present a \<and> v_bundle_valid a)) \<and> \<not> v_replay_diverged a \<and>
      \<not> (v_merge a \<and> \<not> (v_manifest_signed a \<and> v_schema_valid a \<and> v_signature_valid a \<and> \<not> v_divergence a)))"

lemma pass_simps [simp]:
  "rr_passed (pass r)" "rr_rule (pass r) = r" "\<not> rr_class_b (pass r)"
  "\<not> rr_passed (fails r m d)" "rr_rule (fails r m d) = r" "\<not> rr_class_b (fails r m d)"
  by (simp_all add: pass_def fails_def)

lemma unsafe_call_None: "unsafe_call n = None \<longleftrightarrow> \<not> forbidden_call n"
  by (cases n rule: unsafe_call.cases) auto

lemma hit_None: "hit w m roots name = None \<longleftrightarrow> \<not> list_ex (under_root name) roots"
  by (auto simp: hit_def first_some_None list_all_iff list_ex_iff)

lemma tier0_import_None:
  assumes "set roots = set TIER_0_MODULE_ROOTS"
  shows "tier0_import roots n = None \<longleftrightarrow> \<not> imports_tier0 n"
proof -
  have "list_ex P roots = list_ex P TIER_0_MODULE_ROOTS" for P using assms by (simp add: list_ex_iff)
  then show ?thesis
    by (cases n) (auto simp: hit_None first_some_None list_all_iff list_ex_iff)
qed

lemma unsafe_call_fails: "unsafe_call n = Some r \<Longrightarrow> \<not> rr_passed r"
  by (cases n rule: unsafe_call.cases) (auto split: if_splits)

lemma hit_fails: "hit w m roots name = Some r \<Longrightarrow> \<not> rr_passed r"
  by (auto simp: hit_def dest!: first_some_fails split: if_splits)

lemma tier0_import_fails: "tier0_import roots n = Some r \<Longrightarrow> \<not> rr_passed r"
  by (cases n) (auto dest!: first_some_fails hit_fails)

lemma passed_safe:
  "rr_passed (check_ast_safe_0 parse src) \<longleftrightarrow>
     (case parse src of Inl e \<Rightarrow> False | Inr t \<Rightarrow> list_all (\<lambda>n. \<not> forbidden_call n) (nodes t))"
proof (cases "parse src")
  case (Inr t)
  have "first_some unsafe_call (walk [t]) = None \<longleftrightarrow> list_all (\<lambda>n. \<not> forbidden_call n) (nodes t)"
    by (simp add: first_some_None list_all_iff unsafe_call_None walk_set)
  then show ?thesis using Inr
    by (cases "first_some unsafe_call (walk [t])")
      (auto simp: check_ast_safe_0_def dest: first_some_fails unsafe_call_fails)
qed (simp add: check_ast_safe_0_def)

lemma passed_import:
  assumes "set roots = set TIER_0_MODULE_ROOTS"
  shows "rr_passed (check_ast_import_0 parse roots src) \<longleftrightarrow>
     (case parse src of Inl e \<Rightarrow> True | Inr t \<Rightarrow> list_all (\<lambda>n. \<not> imports_tier0 n) (nodes t))"
proof (cases "parse src")
  case (Inr t)
  have "first_some (tier0_import roots) (walk [t]) = None \<longleftrightarrow> list_all (\<lambda>n. \<not> imports_tier0 n) (nodes t)"
    by (simp add: first_some_None list_all_iff tier0_import_None [OF assms] walk_set)
  then show ?thesis using Inr
    by (cases "first_some (tier0_import roots) (walk [t])")
      (auto simp: check_ast_import_0_def dest: first_some_fails tier0_import_fails)
qed (simp add: check_ast_import_0_def)

lemma passed_complex:
  "rr_passed (check_ast_complex_0 parse (v_before a) (v_after a) (v_capability a) (v_epoch a) ledger)
     = complexity_ok parse ledger a"
  "rr_class_b (check_ast_complex_0 parse (v_before a) (v_after a) (v_capability a) (v_epoch a) ledger)
     = (2 < complexity_delta parse (v_before a) (v_after a) \<and> complexity_delta parse (v_before a) (v_after a) \<le> 8)"
  "rr_rule (check_ast_complex_0 parse (v_before a) (v_after a) (v_capability a) (v_epoch a) ledger) = ''AST-COMPLEX-0''"
  by (auto simp: check_ast_complex_0_def complexity_ok_def complexity_delta_def Let_def
      AST_COMPLEX_CLASS_A_CEILING_def AST_COMPLEX_CLASS_B_CEILING_def)

lemma passed_semantic:
  "rr_passed (check_semantic_int_0 parse (v_before a) (v_after a)) = guards_kept parse a"
  by (auto simp: check_semantic_int_0_def guards_kept_def count_guards_def walk_count
      split: option.split sum.split)

lemma passed_evidence:
  "rr_passed (check_evidence_bundle_req_0 (v_scoped a) (v_bundle_present a) (v_bundle_valid a)) \<and>
   rr_passed (check_sandbox_div_0 (v_replay_diverged a)) \<and>
   rr_passed (check_replay_manifest_req_0 (v_merge a) (replay_of a)) \<longleftrightarrow> evidence_ok a"
  by (auto simp: check_evidence_bundle_req_0_def check_sandbox_div_0_def check_replay_manifest_req_0_def
      replay_of_def evidence_ok_def)

lemma hit_rule: "hit w m roots name = Some r \<Longrightarrow> rr_rule r = ''AST-IMPORT-0''"
  by (auto simp: hit_def dest!: first_some_fails split: if_splits)

lemma tier0_import_rule: "tier0_import roots n = Some r \<Longrightarrow> rr_rule r = ''AST-IMPORT-0''"
  by (cases n) (auto dest!: first_some_fails hit_rule)

lemma unsafe_call_rule: "unsafe_call n = Some r \<Longrightarrow> rr_rule r = ''AST-SAFE-0''"
  by (cases n rule: unsafe_call.cases) (auto split: if_splits)

lemma other_rules:
  "rr_rule (check_ast_import_0 parse roots src) = ''AST-IMPORT-0''"
  "rr_rule (check_ast_safe_0 parse src) = ''AST-SAFE-0''"
  "rr_rule (check_evidence_bundle_req_0 b c d) = ''EVIDENCE-BUNDLE-REQ-0''"
  "rr_rule (check_sandbox_div_0 e) = ''SANDBOX-DIV-0''"
  "rr_rule (check_replay_manifest_req_0 f inputs) = ''REPLAY-MANIFEST-REQ-0''"
  "rr_rule (check_semantic_int_0 parse before src) = ''SEMANTIC-INT-0''"
  by (auto simp: check_evidence_bundle_req_0_def check_sandbox_div_0_def check_replay_manifest_req_0_def
        check_semantic_int_0_def check_ast_safe_0_def check_ast_import_0_def
        split: option.split sum.split dest!: first_some_fails tier0_import_rule unsafe_call_rule)

text \<open>The six checks beside the complexity ceiling, and when all of them pass.\<close>

definition other_checks :: "parser \<Rightarrow> string list \<Rightarrow> gate_request \<Rightarrow> rule_result list" where
  "other_checks parse roots a =
     [check_ast_import_0 parse roots (v_after a), check_ast_safe_0 parse (v_after a),
      check_evidence_bundle_req_0 (v_scoped a) (v_bundle_present a) (v_bundle_valid a),
      check_sandbox_div_0 (v_replay_diverged a), check_replay_manifest_req_0 (v_merge a) (replay_of a),
      check_semantic_int_0 parse (v_before a) (v_after a)]"

lemma other_checks_rules: "r \<in> set (other_checks parse roots a) \<Longrightarrow> rr_rule r \<noteq> ''AST-COMPLEX-0''"
  by (auto simp: other_checks_def other_rules)

lemma other_checks_passed:
  assumes "set roots = set TIER_0_MODULE_ROOTS"
  shows "filter (\<lambda>r. \<not> rr_passed r) (other_checks parse roots a) = [] \<longleftrightarrow>
      source_ok parse (v_after a) \<and> evidence_ok a \<and> guards_kept parse a"
proof -
  have "rr_passed (check_ast_import_0 parse roots (v_after a)) \<and> rr_passed (check_ast_safe_0 parse (v_after a))
      \<longleftrightarrow> source_ok parse (v_after a)"
    by (auto simp: passed_safe passed_import [OF assms] source_ok_def list_all_iff split: sum.splits)
  then show ?thesis
    using passed_evidence [of a] passed_semantic [of parse a]
    by (simp add: other_checks_def filter_empty_conv) blast
qed

lemma class_b_single:
  assumes "\<And>r. r \<in> set rest \<Longrightarrow> rr_rule r \<noteq> ''AST-COMPLEX-0''"
    and "rr_rule c = ''AST-COMPLEX-0''"
  shows "(case (if rr_passed c then [] else [c]) @ filter (\<lambda>r. \<not> rr_passed r) rest of
       [r] \<Rightarrow> rr_rule r = ''AST-COMPLEX-0'' \<and> rr_class_b r | _ \<Rightarrow> False)
     = (\<not> rr_passed c \<and> filter (\<lambda>r. \<not> rr_passed r) rest = [] \<and> rr_class_b c)"
proof (cases "rr_passed c")
  case True
  have "rr_rule r \<noteq> ''AST-COMPLEX-0''" if "filter (\<lambda>r. \<not> rr_passed r) rest = [r]" for r
    using assms(1) [of r] filter_is_subset [of "\<lambda>r. \<not> rr_passed r" rest] that by auto
  then show ?thesis using True by (auto split: list.split)
next
  case False
  then show ?thesis using assms(2) by (auto split: list.split)
qed

section \<open>Properties\<close>

definition demo_parse :: parser where
  "demo_parse src =
     (if src = ''ok'' then Inr (PNode [PBranch [PName ''x'', PNode []]])
      else if src = ''branchy'' then Inr (PNode [PBranch [], PBranch [], PBranch [], PBranch []])
      else Inl ''syntax'')"

definition demo_request :: "string \<Rightarrow> gate_request" where
  "demo_request src =
     \<lparr>v_mutation_id = ''m1'', v_capability = ''mutation.engine'', v_after = src, v_before = None,
      v_replay_diverged = False, v_epoch = 9, v_scoped = False, v_bundle_present = False,
      v_bundle_valid = False, v_merge = False, v_manifest_path = [], v_bundle_digest = [],
      v_verification_result = [], v_manifest_signed = False, v_schema_valid = False,
      v_signature_valid = False, v_divergence = False\<rparr>"

text \<open>
  C4 (functional): the decision of the gate, whatever order the module roots are looked at in. It
  approves exactly when the change parses, no node of the tree calls a forbidden function or imports
  from a tier-0 root, the complexity grows by at most 2, or by at most 8 with an active token, the
  evidence and replay demands are met, and there are no fewer error guards than before. The Class B
  flag is set exactly when the missing token is the only thing in the way.\<close>

theorem gate_v2_approves_exactly:
  assumes "set roots = set TIER_0_MODULE_ROOTS"
  shows "gd_approved (evaluate parse roots ledger a) =
      (complexity_ok parse ledger a \<and> source_ok parse (v_after a) \<and> evidence_ok a \<and> guards_kept parse a)
    \<and> gd_class_b (evaluate parse roots ledger a) =
      (\<not> complexity_ok parse ledger a \<and> complexity_delta parse (v_before a) (v_after a) \<le> 8 \<and>
       source_ok parse (v_after a) \<and> evidence_ok a \<and> guards_kept parse a)"
proof -
  let ?c = "check_ast_complex_0 parse (v_before a) (v_after a) (v_capability a) (v_epoch a) ledger"
  let ?rest = "other_checks parse roots a"
  let ?F = "filter (\<lambda>r. \<not> rr_passed r) ?rest"
  have "gd_results (evaluate parse roots ledger a) = ?c # ?rest"
    by (simp add: evaluate_def other_checks_def Let_def)
  then have failed: "filter (\<lambda>r. \<not> rr_passed r) (gd_results (evaluate parse roots ledger a)) =
      (if rr_passed ?c then [] else [?c]) @ ?F"
    by simp
  have ok: "gd_approved (evaluate parse roots ledger a) = (rr_passed ?c \<and> ?F = [])"
    by (simp add: evaluate_def other_checks_def Let_def)
  have "gd_class_b (evaluate parse roots ledger a) =
      (case (if rr_passed ?c then [] else [?c]) @ ?F of
         [r] \<Rightarrow> rr_rule r = ''AST-COMPLEX-0'' \<and> rr_class_b r | _ \<Rightarrow> False)"
    unfolding failed [symmetric] by (simp add: evaluate_def Let_def)
  also have "\<dots> = (\<not> rr_passed ?c \<and> ?F = [] \<and> rr_class_b ?c)"
    by (rule class_b_single) (auto simp: passed_complex(3) other_checks_rules)
  finally show ?thesis
    using ok unfolding other_checks_passed [OF assms] passed_complex by (auto simp: complexity_ok_def Let_def)
qed

lemmas eval_simps = evaluate_def demo_parse_def demo_request_def check_ast_complex_0_def cyclomatic_proxy_def
  walk.simps nodes.simps check_ast_import_0_def check_ast_safe_0_def check_semantic_int_0_def
  check_evidence_bundle_req_0_def check_sandbox_div_0_def check_replay_manifest_req_0_def
  AST_COMPLEX_CLASS_A_CEILING_def AST_COMPLEX_CLASS_B_CEILING_def Let_def

theorem gate_v2_approves_exactly_witness:
  "\<not> gd_approved (evaluate demo_parse TIER_0_MODULE_ROOTS None (demo_request ''branchy''))
   \<and> gd_class_b (evaluate demo_parse TIER_0_MODULE_ROOTS None (demo_request ''branchy''))"
  unfolding gate_v2_approves_exactly [OF refl, THEN conjunct1] gate_v2_approves_exactly [OF refl, THEN conjunct2]
  by (simp add: demo_parse_def demo_request_def complexity_ok_def complexity_delta_def cyclomatic_proxy_def
      walk.simps nodes.simps source_ok_def evidence_ok_def guards_kept_def)

text \<open>
  The Class B path needs a human. If the gate, backed by a ledger in any reachable
  state, approves a change whose complexity grows by more than 2, then it grows by at most 8, and the
  decision names a token of the ledger for that capability which is not revoked, was granted at most
  three epochs ago and carries a non-blank human approval reference.\<close>

theorem gate_v2_class_b_needs_human:
  assumes "tl_reachable sha l"
    and "gd_approved (evaluate parse roots (Some l) a)"
    and "2 < complexity_delta parse (v_before a) (v_after a)"
  shows "complexity_delta parse (v_before a) (v_after a) \<le> 8 \<and>
    list_ex (\<lambda>t. gd_token_id (evaluate parse roots (Some l) a) = Some (token_id t) \<and>
       capability_name t = v_capability a \<and> rule_id t = ''AST-COMPLEX-0'' \<and> \<not> revoked t \<and>
       v_epoch a \<le> granted_epoch_seq t + EXCEPTION_TOKEN_MAX_TTL \<and>
       (case human_approval_ref t of None \<Rightarrow> False | Some r \<Rightarrow> py_strip r \<noteq> [])) (all_tokens l)"
proof -
  let ?c = "check_ast_complex_0 parse (v_before a) (v_after a) (v_capability a) (v_epoch a) (Some l)"
  have "rr_passed ?c" using assms(2) by (simp add: evaluate_def Let_def split: if_splits)
  then have ok: "complexity_ok parse (Some l) a" by (simp add: passed_complex)
  with assms(3) have d: "complexity_delta parse (v_before a) (v_after a) \<le> 8"
      "has_active_token (v_capability a) ''AST-COMPLEX-0'' (v_epoch a) l"
    by (auto simp: complexity_ok_def Let_def)
  let ?ts = "active_tokens_for (v_capability a) (v_epoch a) l"
  have "find (\<lambda>t. rule_id t = ''AST-COMPLEX-0'') ?ts \<noteq> None"
    using d(2) by (auto simp: has_active_token_def list_ex_iff find_None_iff)
  then obtain t where f: "find (\<lambda>t. rule_id t = ''AST-COMPLEX-0'') ?ts = Some t" by blast
  then have t: "t \<in> set ?ts" "rule_id t = ''AST-COMPLEX-0''"
    by (auto simp: find_Some_iff)
  have "gd_token_id (evaluate parse roots (Some l) a) = Some (token_id t)"
    using f \<open>rr_passed ?c\<close> passed_complex(2,3) [of parse a "Some l"] d(1) assms(3)
    by (simp add: evaluate_def Let_def)
  moreover have "created t" "capability_name t = v_capability a" "is_active (v_epoch a) t" "t \<in> set (all_tokens l)"
    using t(1) tl_reachable_inv [OF assms(1)]
    by (auto simp: active_tokens_for_def tl_inv_def list_all_iff all_tokens_def)
  ultimately show ?thesis using d(1) t(2)
    by (fastforce simp: list_ex_iff created_def is_active_def)
qed

theorem gate_v2_class_b_needs_human_witness:
  "gd_token_id (evaluate demo_parse TIER_0_MODULE_ROOTS (Some demo_ledger) (demo_request ''branchy'')) = Some ''id''"
proof -
  have "has_active_token ''mutation.engine'' ''AST-COMPLEX-0'' 9 demo_ledger"
    by (simp add: has_active_token_def active_tokens_for_def demo_ledger_def grant_def keys_def
        demo_token_simps is_active_def)
  then have "gd_approved (evaluate demo_parse TIER_0_MODULE_ROOTS (Some demo_ledger) (demo_request ''branchy''))"
    by (simp add: eval_simps)
  from gate_v2_class_b_needs_human [OF demo_ledger_reachable this]
  have "list_ex (\<lambda>t. gd_token_id (evaluate demo_parse TIER_0_MODULE_ROOTS (Some demo_ledger) (demo_request ''branchy''))
      = Some (token_id t)) (all_tokens demo_ledger)"
    by (simp add: complexity_delta_def cyclomatic_proxy_def demo_parse_def demo_request_def walk.simps list_ex_iff) blast
  moreover have "map token_id (all_tokens demo_ledger) = [''id'']"
    by (simp add: all_tokens_def demo_ledger_def grant_def keys_def demo_token_simps)
  ultimately show ?thesis by (auto simp: list_ex_iff map_eq_Cons_conv)
qed

text \<open>
  Imported names escape both source rules. The module
  \<open>from runtime import governance; from os import system; system(x)\<close> imports a tier-0 root and
  calls a forbidden function, and the gate approves it, since it compares only the module part of an
  import-from and only the dotted spelling of a call.\<close>

definition aliased_tree :: pynode where
  "aliased_tree = PNode
     [PImportFrom (Some ''runtime'') [''governance''], PImportFrom (Some ''os'') [''system''],
      PNode [PCall (PName ''system'') [PName ''x'']]]"

theorem gate_v2_misses_imported_names:
  "gd_approved (evaluate (\<lambda>_. Inr aliased_tree) TIER_0_MODULE_ROOTS None (demo_request src))"
  by (simp add: eval_simps aliased_tree_def FORBIDDEN_AST_CALLS_def hit_def first_some_None
      TIER_0_MODULE_ROOTS_def under_root_def startswith_def)

end
