(* ===== verification/CreditLedger.thy ===== *)
theory CreditLedger
  imports HashChain
begin

text \<open>
  \<open>runtime/evolution/mutation_credit_ledger.py\<close>: the append-only credit ledger with idempotent
  appends. Three files: the hash-chained rows, the idempotency index and the tail sidecar. An append
  writes them in that order, and the process may stop between the writes; the point where it does is
  an argument. A row stands for its value up to key order, blank lines are left out, and the rows are
  written as canonical texts. The readers split the file with \<open>str.splitlines\<close>, which ends a line at U+0085 too, a
  character that the canonical text holds as it is: such a row falls apart into pieces, of which the first ends inside a
  string, so that \<open>json.loads\<close> raises (U+2028 and U+2029, outside the model's characters, do the same). The
  recursion depth of \<open>append\<close> is bounded by the interpreter, so it is an argument too (two levels are
  always enough, as is proved below). Event fields are strings and an integer, details a JSON object.
\<close>

section \<open>Data\<close>

record credit_event =
  agent_id :: string
  mutation_id :: string
  credits_delta :: int
  budget_source :: string
  idempotency_key :: string
  details :: "obj option"

datatype credit_error =
    KeyRequired
  | KeyConflict
  | IntegrityFailure string
  | CreditPy py_error
  | RecursionLimit

record credit_files =
  c_main :: jsonl
  c_idem :: jsonl
  c_tail :: "line option"

text \<open>Where an append stops: before the row is written, after it, after the index line, not at all.\<close>

datatype stop = StopBefore | StopAfterRow | StopAfterIndex | NoStop

definition canonical_json :: "json \<Rightarrow> string" where
  "canonical_json v = canonical False v"

definition line_whole :: "line \<Rightarrow> bool" where
  "line_whole l = (case l of Row v \<Rightarrow> CHR 0x85 \<notin> set (canonical_json v) | Garbled \<Rightarrow> True)"

definition read_line :: "line \<Rightarrow> json res" where
  "read_line l = (if line_whole l then loads l else Inl JSONDecodeError)"

definition sha_of :: "(string \<Rightarrow> string) \<Rightarrow> json \<Rightarrow> string" where
  "sha_of sha v = sha256_prefixed sha (canonical_json v)"

definition event_payload :: "credit_event \<Rightarrow> obj" where
  "event_payload ev =
    [(''agent_id'', JStr (agent_id ev)), (''mutation_id'', JStr (mutation_id ev)),
     (''credits_delta'', JInt (credits_delta ev)), (''budget_source'', JStr (budget_source ev)),
     (''idempotency_key'', JStr (idempotency_key ev)),
     (''details'', norm (JObj (case details ev of None \<Rightarrow> [] | Some d \<Rightarrow> d)))]"

section \<open>Sidecar and index\<close>

definition tail_row :: "string \<Rightarrow> int \<Rightarrow> json" where
  "tail_row h n = JObj [(''record_hash'', JStr h), (''entries'', JInt n)]"

definition write_tail :: "string \<Rightarrow> int \<Rightarrow> credit_files \<Rightarrow> credit_files" where
  "write_tail h n c = c\<lparr>c_tail := Some (Row (tail_row h n))\<rparr>"

text \<open>\<open>isinstance(entries, int)\<close> holds of booleans too.\<close>

fun as_int :: "json \<Rightarrow> int option" where
  "as_int (JInt i) = Some i"
| "as_int (JBool b) = Some (if b then 1 else 0)"
| "as_int _ = None"

definition read_tail :: "credit_files \<Rightarrow> (string \<times> int) option" where
  "read_tail c =
     (case c_tail c of
        Some (Row (JObj d)) \<Rightarrow>
          (case (str_field ''record_hash'' d, Option.bind (dget d ''entries'') as_int) of
             (Some h, Some n) \<Rightarrow> if n < 0 then None else Some (h, n)
           | _ \<Rightarrow> None)
      | _ \<Rightarrow> None)"

definition idem_row :: "string \<Rightarrow> string \<Rightarrow> json" where
  "idem_row k h = JObj [(''idempotency_key'', JStr k), (''record_hash'', JStr h)]"

type_synonym index = "(string, string) dict"

fun read_idem_lines :: "line list \<Rightarrow> index \<Rightarrow> index option" where
  "read_idem_lines [] m = Some m"
| "read_idem_lines (Row (JObj d) # ls) m =
     (if \<not> line_whole (Row (JObj d)) then None
      else case (str_field ''idempotency_key'' d, str_field ''record_hash'' d) of
        (Some k, Some v) \<Rightarrow> read_idem_lines ls (dput k v m)
      | _ \<Rightarrow> None)"
| "read_idem_lines (l # ls) m = None"

definition read_idem :: "credit_files \<Rightarrow> index option" where
  "read_idem c = Option.bind (c_idem c) (\<lambda>ls. read_idem_lines ls [])"

text \<open>\<open>_read_last_record_hash_fast\<close>\<close>

definition last_hash_fast :: "credit_files \<Rightarrow> string option" where
  "last_hash_fast c =
     (case file_lines (c_main c) of
        [] \<Rightarrow> Some ZERO_HASH
      | ls \<Rightarrow> (case last ls of Row (JObj d) \<Rightarrow> str_field ''record_hash'' d | _ \<Rightarrow> None))"

definition read_rows :: "credit_files \<Rightarrow> json list res" where
  "read_rows c = emap read_line (file_lines (c_main c))"

text \<open>Every row is read as one line.\<close>

definition whole_rows :: "credit_files \<Rightarrow> bool" where
  "whole_rows c \<longleftrightarrow> list_all line_whole (file_lines (c_main c))"

lemma read_rows_whole: "whole_rows c \<Longrightarrow> read_rows c = emap loads (file_lines (c_main c))"
proof -
  have "list_all line_whole ls \<Longrightarrow> emap read_line ls = emap loads ls" for ls
    by (induction ls) (simp_all add: read_line_def)
  then show "whole_rows c \<Longrightarrow> ?thesis" by (simp add: read_rows_def whole_rows_def)
qed

lemma whole_rows_main: "c_main c' = c_main c \<Longrightarrow> whole_rows c' = whole_rows c"
  by (simp add: whole_rows_def)

text \<open>One turn of the loop of \<open>_rebuild_indexes\<close>.\<close>

definition index_row :: "obj \<Rightarrow> index \<times> string \<Rightarrow> index \<times> string" where
  "index_row row acc =
     (let m = fst acc;
          m' = (case dget_or row ''event'' (JObj []) of
                  JObj ev \<Rightarrow>
                    (case (str_field ''idempotency_key'' ev, str_field ''record_hash'' row) of
                       (Some k, Some h) \<Rightarrow> dput k h m
                     | _ \<Rightarrow> m)
                | _ \<Rightarrow> m)
      in (m', case str_field ''record_hash'' row of Some h \<Rightarrow> h | None \<Rightarrow> snd acc))"

fun index_rows :: "json list \<Rightarrow> index \<times> string \<Rightarrow> (index \<times> string) res" where
  "index_rows [] acc = Inr acc"
| "index_rows (row # rows) acc = ebind (as_obj row) (\<lambda>r. index_rows rows (index_row r acc))"

definition rebuild_indexes ::
  "credit_files \<Rightarrow> (credit_error + index \<times> string \<times> int) \<times> credit_files"
where
  "rebuild_indexes c =
     (case ebind (read_rows c) (\<lambda>rows. map_sum id (Pair rows) (index_rows rows ([], ZERO_HASH))) of
        Inl e \<Rightarrow> (Inl (CreditPy e), c)
      | Inr (rows, m, h) \<Rightarrow>
          (let n = int (length rows);
               c1 = c\<lparr>c_idem := Some (map (\<lambda>k. Row (idem_row k (the (dget m k)))) (sort (keys m)))\<rparr>
           in (Inr (m, h, n), write_tail h n c1)))"

definition load_indexes ::
  "credit_files \<Rightarrow> (credit_error + index \<times> string \<times> int) \<times> credit_files"
where
  "load_indexes c =
     (case (read_tail c, read_idem c) of
        (Some (h, n), Some m) \<Rightarrow>
          if last_hash_fast c = Some h then (Inr (m, h, n), c) else rebuild_indexes c
      | _ \<Rightarrow> rebuild_indexes c)"

section \<open>Append\<close>

definition make_record :: "(string \<Rightarrow> string) \<Rightarrow> obj \<Rightarrow> string \<Rightarrow> obj" where
  "make_record sha payload prev =
     [(''event'', JObj payload), (''prev_hash'', JStr prev),
      (''record_hash'', JStr (sha_of sha (JObj [(''event'', JObj payload), (''prev_hash'', JStr prev)])))]"

text \<open>The loop over the rows for an indexed hash: the row, a conflict, or not found.\<close>

fun find_existing :: "string \<Rightarrow> obj \<Rightarrow> json list \<Rightarrow> credit_error + obj option" where
  "find_existing h payload [] = Inr None"
| "find_existing h payload (row # rows) =
     (case as_obj row of
        Inl e \<Rightarrow> Inl (CreditPy e)
      | Inr r \<Rightarrow>
          if dget r ''record_hash'' \<noteq> Some (JStr h) then find_existing h payload rows
          else if canonical_json (dget_or r ''event'' (JObj [])) \<noteq> canonical_json (JObj payload)
            then Inl KeyConflict
          else Inr (Some r))"

definition write_record ::
  "(string \<Rightarrow> string) \<Rightarrow> stop \<Rightarrow> credit_event \<Rightarrow> string \<Rightarrow> int \<Rightarrow> credit_files \<Rightarrow>
   (credit_error + obj) \<times> credit_files"
where
  "write_record sha stop ev prev entries c =
     (let record = make_record sha (event_payload ev) prev;
          h = sha_of sha (JObj [(''event'', JObj (event_payload ev)), (''prev_hash'', JStr prev)]);
          c1 = c\<lparr>c_main := append_line (JObj record) (c_main c)\<rparr>;
          c2 = c1\<lparr>c_idem := append_line (idem_row (idempotency_key ev) h) (c_idem c1)\<rparr>;
          c3 = write_tail h (entries + 1) c2
      in case stop of
           StopBefore \<Rightarrow> (Inl (CreditPy OSError), c)
         | StopAfterRow \<Rightarrow> (Inl (CreditPy OSError), c1)
         | StopAfterIndex \<Rightarrow> (Inl (CreditPy OSError), c2)
         | NoStop \<Rightarrow> (Inr record, c3))"

fun append_event ::
  "nat \<Rightarrow> (string \<Rightarrow> string) \<Rightarrow> stop \<Rightarrow> credit_event \<Rightarrow> credit_files \<Rightarrow> (credit_error + obj) \<times> credit_files"
where
  "append_event 0 sha stop ev c = (Inl RecursionLimit, c)"
| "append_event (Suc n) sha stop ev c =
     (if idempotency_key ev = [] then (Inl KeyRequired, c)
      else
        ethen (load_indexes c) (\<lambda>(m, h, entries) c.
          case dget m (idempotency_key ev) of
            Some existing \<Rightarrow>
              (case map_sum CreditPy id (read_rows c) of
                 Inl e \<Rightarrow> (Inl e, c)
               | Inr rows \<Rightarrow>
                   (case find_existing existing (event_payload ev) rows of
                      Inl e \<Rightarrow> (Inl e, c)
                    | Inr (Some row) \<Rightarrow> (Inr row, c)
                    | Inr None \<Rightarrow>
                        ethen (rebuild_indexes c) (\<lambda>_ c. append_event n sha stop ev c)))
          | None \<Rightarrow> write_record sha stop ev h entries c))"

section \<open>Verification and balances\<close>

datatype verdict = Intact nat string | Broken string nat

definition row_hash :: "(string \<Rightarrow> string) \<Rightarrow> obj \<Rightarrow> string" where
  "row_hash sha r =
     sha_of sha (JObj [(''event'', dget_or r ''event'' (JObj [])), (''prev_hash'', dget_or r ''prev_hash'' JNull)])"

fun check_rows :: "(string \<Rightarrow> string) \<Rightarrow> nat \<Rightarrow> string \<Rightarrow> json list \<Rightarrow> (verdict + string) res" where
  "check_rows sha i p [] = Inr (Inr p)"
| "check_rows sha i p (row # rows) =
     ebind (as_obj row) (\<lambda>r.
       if dget r ''prev_hash'' \<noteq> Some (JStr p) then Inr (Inl (Broken ''prev_hash_mismatch'' i))
       else if dget r ''record_hash'' \<noteq> Some (JStr (row_hash sha r)) then Inr (Inl (Broken ''record_hash_mismatch'' i))
       else check_rows sha (Suc i) (row_hash sha r) rows)"

text \<open>Equality of two dictionaries.\<close>

definition dict_eq :: "index \<Rightarrow> index \<Rightarrow> bool" where
  "dict_eq d e \<longleftrightarrow> list_all (\<lambda>k. dget d k = dget e k) (keys d @ keys e)"

definition verify_integrity ::
  "(string \<Rightarrow> string) \<Rightarrow> credit_files \<Rightarrow> (credit_error + verdict) \<times> credit_files"
where
  "verify_integrity sha c =
     (case ebind (read_rows c) (\<lambda>rows. map_sum id (Pair rows) (check_rows sha 0 ZERO_HASH rows)) of
        Inl e \<Rightarrow> (Inl (CreditPy e), c)
      | Inr (rows, Inl broken) \<Rightarrow> (Inr broken, c)
      | Inr (rows, Inr p) \<Rightarrow>
          ethen (load_indexes c) (\<lambda>(m, h, n) c.
            case index_rows rows ([], ZERO_HASH) of
              Inl e \<Rightarrow> (Inl (CreditPy e), c)
            | Inr (expected, _) \<Rightarrow>
                if \<not> dict_eq m expected \<or> h \<noteq> p \<or> n \<noteq> int (length rows)
                then (Inr (Broken ''index_mismatch'' (length rows)), c)
                else (Inr (Intact (length rows) p), c)))"

text \<open>\<open>row["event"]\<close>, \<open>event["agent_id"]\<close>, \<open>event["credits_delta"]\<close>\<close>

definition item :: "json \<Rightarrow> string \<Rightarrow> json res" where
  "item v k =
     (case v of
        JObj d \<Rightarrow> (case dget d k of None \<Rightarrow> Inl (KeyError k) | Some x \<Rightarrow> Inr x)
      | _ \<Rightarrow> Inl TypeError)"

fun balance_rows :: "json list \<Rightarrow> (string, int) dict \<Rightarrow> (string, int) dict res" where
  "balance_rows [] b = Inr b"
| "balance_rows (row # rows) b =
     ebind (item row ''event'') (\<lambda>ev. ebind (item ev ''agent_id'') (\<lambda>a.
     ebind (item ev ''credits_delta'') (\<lambda>d. ebind (py_int d) (\<lambda>i.
       balance_rows rows (dput (py_str a) (dget_or b (py_str a) 0 + i) b)))))"

definition replay_balances ::
  "(string \<Rightarrow> string) \<Rightarrow> credit_files \<Rightarrow> (credit_error + (string, int) dict) \<times> credit_files"
where
  "replay_balances sha c =
     ethen (verify_integrity sha c) (\<lambda>v c.
       case v of
         Broken reason i \<Rightarrow> (Inl (IntegrityFailure reason), c)
       | Intact n h \<Rightarrow>
           (case ebind (read_rows c) (\<lambda>rows. balance_rows rows []) of
              Inl e \<Rightarrow> (Inl (CreditPy e), c)
            | Inr b \<Rightarrow> (Inr b, c)))"

definition credit_events :: "credit_files \<Rightarrow> json list res" where
  "credit_events c = read_rows c"

section \<open>The index of a list of rows\<close>

lemma index_rows_append: "index_rows (xs @ ys) acc = ebind (index_rows xs acc) (index_rows ys)"
proof (induction xs arbitrary: acc)
  case (Cons x xs)
  then show ?case by (cases "as_obj x") auto
qed simp

lemma read_idem_append: "read_idem_lines (xs @ ys) m = Option.bind (read_idem_lines xs m) (read_idem_lines ys)"
proof (induction xs m rule: read_idem_lines.induct)
  case (2 d ls m)
  then show ?case by (simp split: option.split)
qed auto

lemma read_idem_row [simp]:
  "read_idem_lines (Row (idem_row k h) # ls) m = (if line_whole (Row (idem_row k h)) then read_idem_lines ls (dput k h m) else None)"
  by (simp add: idem_row_def str_field_def)

lemma read_idem_rows:
  "read_idem_lines (map (\<lambda>k. Row (idem_row k (f k))) ks) m = Some m' \<Longrightarrow>
     dget m' k = (if k \<in> set ks then Some (f k) else dget m k)"
  by (induction ks arbitrary: m) (auto split: if_splits)

lemma dget_keys: "k \<in> set (keys m) \<longleftrightarrow> dget m k \<noteq> None"
  by (simp add: keys_def map_of_eq_None_iff)

lemma read_tail_write [simp]: "0 \<le> n \<Longrightarrow> read_tail (write_tail h n c) = Some (h, n)"
  by (simp add: read_tail_def write_tail_def tail_row_def str_field_def)

lemma write_tail_files [simp]:
  "c_main (write_tail h n c) = c_main c" "c_idem (write_tail h n c) = c_idem c"
  by (simp_all add: write_tail_def)

text \<open>A rebuild leaves files from which the same index is read back.\<close>

lemma rebuild_reads:
  assumes "rebuild_indexes c = (Inr (m, h, n), c')"
  shows "c_main c' = c_main c" "read_tail c' = Some (h, n)"
    and "c_idem c' \<noteq> None" "\<And>m'. read_idem c' = Some m' \<Longrightarrow> (\<forall>k. dget m' k = dget m k)"
    and "\<exists>rows. read_rows c = Inr rows \<and> index_rows rows ([], ZERO_HASH) = Inr (m, h) \<and> n = int (length rows)"
proof -
  obtain rows where r: "read_rows c = Inr rows" "index_rows rows ([], ZERO_HASH) = Inr (m, h)" "n = int (length rows)"
    and c': "c' = write_tail h n (c\<lparr>c_idem := Some (map (\<lambda>k. Row (idem_row k (the (dget m k)))) (sort (keys m)))\<rparr>)"
  proof (cases "read_rows c")
    case (Inl e)
    then show ?thesis using assms by (simp add: rebuild_indexes_def)
  next
    case rr: (Inr rows)
    show ?thesis
    proof (cases "index_rows rows ([], ZERO_HASH)")
      case (Inl e)
      then show ?thesis using assms rr by (simp add: rebuild_indexes_def)
    next
      case (Inr p)
      then show ?thesis using assms rr that [of rows] by (cases p) (auto simp: rebuild_indexes_def Let_def)
    qed
  qed
  show "c_main c' = c_main c" "read_tail c' = Some (h, n)" using c' r(3) by simp_all
  show "\<exists>rows. read_rows c = Inr rows \<and> index_rows rows ([], ZERO_HASH) = Inr (m, h) \<and> n = int (length rows)"
    using r by blast
  show "c_idem c' \<noteq> None" by (simp add: c')
  fix m' assume "read_idem c' = Some m'"
  then have "read_idem_lines (map (\<lambda>k. Row (idem_row k (the (dget m k)))) (sort (keys m))) [] = Some m'"
    by (simp add: c' read_idem_def)
  from read_idem_rows [OF this] show "\<forall>k. dget m' k = dget m k"
    using dget_keys [of _ m] by (auto simp: domIff split: if_splits)
qed

lemma load_cases:
  assumes "load_indexes c = (r, c')"
  obtains (kept) m h n where "r = Inr (m, h, n)" "c' = c" "read_tail c = Some (h, n)" "read_idem c = Some m"
      "last_hash_fast c = Some h"
  | (rebuilt) "rebuild_indexes c = (r, c')"
      "\<not> (\<exists>h n m. read_tail c = Some (h, n) \<and> read_idem c = Some m \<and> last_hash_fast c = Some h)"
  using assms by (auto simp: load_indexes_def split: option.splits prod.splits if_splits)

lemma rebuild_main: "c_main (snd (rebuild_indexes c)) = c_main c"
  by (auto simp: rebuild_indexes_def Let_def split: sum.splits prod.splits)

lemma load_main: "c_main (snd (load_indexes c)) = c_main c"
  by (auto simp: load_indexes_def rebuild_main split: option.splits prod.splits if_splits)

text \<open>The indexed hash of a key is the hash of some row.\<close>

lemma index_row_in:
  assumes "dget (fst (index_row r acc)) k = Some h"
  shows "dget (fst acc) k = Some h \<or> str_field ''record_hash'' r = Some h"
  using assms by (auto simp: index_row_def Let_def split: json.splits option.splits if_splits)

lemma index_rows_in:
  assumes "index_rows rows acc = Inr (m, l)" "dget m k = Some h"
  shows "dget (fst acc) k = Some h \<or> (\<exists>d. JObj d \<in> set rows \<and> str_field ''record_hash'' d = Some h)"
  using assms
proof (induction rows arbitrary: acc)
  case (Cons row rows)
  then obtain d where d: "row = JObj d" "index_rows rows (index_row d acc) = Inr (m, l)" by auto
  from Cons.IH [OF d(2) Cons.prems(2)] index_row_in [of d acc k h] d(1) show ?case by auto
qed auto

lemma index_rows_objs: "index_rows rows acc = Inr x \<Longrightarrow> \<exists>recs. rows = map JObj recs"
proof (induction rows arbitrary: acc)
  case (Cons row rows)
  then obtain d where "row = JObj d" "index_rows rows (index_row d acc) = Inr x" by auto
  with Cons.IH show ?case by (metis list.simps(9))
qed simp

lemma str_field_iff: "str_field k d = Some s \<longleftrightarrow> dget d k = Some (JStr s)"
  by (simp add: str_field_def bind_eq_Some_conv)

lemma find_existing_found:
  assumes "d \<in> set recs" "str_field ''record_hash'' d = Some h"
  shows "find_existing h payload (map JObj recs) \<noteq> Inr None"
  using assms by (induction recs) (auto simp: str_field_iff)

text \<open>After a rebuild the next load answers from the rows, and the search finds what it points to.\<close>

lemma load_after_rebuild:
  assumes "rebuild_indexes c = (Inr x, c')" "load_indexes c' = (Inr (m, h, n), c'')"
    and "dget m k = Some ex"
  obtains recs where "read_rows c'' = Inr (map JObj recs)"
    "\<And>payload. find_existing ex payload (map JObj recs) \<noteq> Inr None"
proof -
  obtain m0 h0 n0 where x: "x = (m0, h0, n0)" by (cases x) auto
  note r0 = rebuild_reads [OF assms(1) [unfolded x]]
  have "\<exists>rows l. read_rows c'' = Inr rows \<and> (\<exists>m1. index_rows rows ([], ZERO_HASH) = Inr (m1, l) \<and> dget m1 k = Some ex)"
    using assms(2)
  proof (cases rule: load_cases)
    case (kept m' h' n')
    then show ?thesis using r0 assms(3) by (auto simp: read_rows_def)
  next
    case rebuilt
    from rebuild_reads [OF rebuilt(1)] show ?thesis using assms(3) by (auto simp: read_rows_def)
  qed
  then obtain rows l m1 where rows: "read_rows c'' = Inr rows" "index_rows rows ([], ZERO_HASH) = Inr (m1, l)" "dget m1 k = Some ex"
    by blast
  obtain recs where recs: "rows = map JObj recs" using index_rows_objs [OF rows(2)] by blast
  obtain d where "d \<in> set recs" "str_field ''record_hash'' d = Some ex"
    using index_rows_in [OF rows(2,3)] recs by auto
  from find_existing_found [OF this] show thesis using that rows(1) recs by blast
qed

lemma find_existing_limit: "find_existing h p rows \<noteq> Inl RecursionLimit"
  by (induction rows) (auto split: sum.split)

lemma write_record_limit: "fst (write_record sha stop ev h e c) \<noteq> Inl RecursionLimit"
  by (simp add: write_record_def Let_def split: stop.split)

lemma rebuild_limit: "fst (rebuild_indexes c) \<noteq> Inl RecursionLimit"
  by (cases "ebind (read_rows c) (\<lambda>rows. map_sum id (Pair rows) (index_rows rows ([], ZERO_HASH)))")
    (auto simp: rebuild_indexes_def Let_def)

lemma load_limit: "fst (load_indexes c) \<noteq> Inl RecursionLimit"
  using rebuild_limit by (auto simp: load_indexes_def split: option.split prod.split)

text \<open>One level, by the outcome of the load and of the search.\<close>

lemma append_level_cases:
  obtains (outcome) r c' where "append_event (Suc n) sha stop ev c = (r, c')" "r \<noteq> Inl RecursionLimit"
  | (again) m h e c1 ex rows where "load_indexes c = (Inr (m, h, e), c1)" "dget m (idempotency_key ev) = Some ex"
      "read_rows c1 = Inr rows" "find_existing ex (event_payload ev) rows = Inr None"
      "append_event (Suc n) sha stop ev c =
         ethen (rebuild_indexes c1) (\<lambda>_ c. append_event n sha stop ev c)"
proof (cases "idempotency_key ev = []")
  case True
  then show thesis using outcome [of "Inl KeyRequired" c] by simp
next
  case key: False
  obtain l c1 where l: "load_indexes c = (l, c1)" by fastforce
  show thesis
  proof (cases l)
    case (Inl e)
    then show thesis using outcome [of "Inl e" c1] key l load_limit [of c] by simp
  next
    case (Inr x)
    obtain m h e where x: "x = (m, h, e)" by (cases x) auto
    show thesis
    proof (cases "dget m (idempotency_key ev)")
      case None
      then show thesis
        using outcome [of "fst (write_record sha stop ev h e c1)" "snd (write_record sha stop ev h e c1)"]
          key l Inr x write_record_limit by simp
    next
      case ex: (Some ex)
      show thesis
      proof (cases "read_rows c1")
        case rl: (Inl e')
        then show thesis using outcome [of "Inl (CreditPy e')" c1] key l Inr x ex by simp
      next
        case rows: (Inr rows)
        obtain f where f: "find_existing ex (event_payload ev) rows = f" by simp
        show thesis
        proof (cases f)
          case (Inl e')
          then show thesis
            using outcome [of "Inl e'" c1] key l Inr x ex rows f find_existing_limit [of ex "event_payload ev" rows]
            by simp
        next
          case fr: (Inr o')
          show thesis
          proof (cases o')
            case None
            then show thesis using again [of m h e c1 ex rows] key l Inr x ex rows f fr by simp
          next
            case (Some row)
            then show thesis using outcome [of "Inr row" c1] key l Inr x ex rows f fr by simp
          qed
        qed
      qed
    qed
  qed
qed

text \<open>Two levels of recursion are enough in every state of the files.\<close>

lemma append_two_levels:
  "fst (append_event (Suc (Suc n)) sha stop ev c) \<noteq> Inl RecursionLimit"
proof (cases rule: append_level_cases [of "Suc n" sha stop ev c])
  case (outcome r c')
  then show ?thesis by simp
next
  case (again m h e c1 ex rows)
  obtain rb c2 where rb: "rebuild_indexes c1 = (rb, c2)" by fastforce
  show ?thesis
  proof (cases rb)
    case (Inl e)
    then show ?thesis using again(5) rb rebuild_limit [of c1] by simp
  next
    case (Inr x)
    have "fst (append_event (Suc n) sha stop ev c2) \<noteq> Inl RecursionLimit"
    proof (cases rule: append_level_cases [of n sha stop ev c2])
      case (again m' h' e' c3 ex' rows')
      obtain recs where "read_rows c3 = Inr (map JObj recs)" "find_existing ex' (event_payload ev) (map JObj recs) \<noteq> Inr None"
        using load_after_rebuild [OF rb [unfolded Inr] again(1,2)] by metis
      then show ?thesis using again(3,4) by simp
    qed simp
    then show ?thesis using again(5) rb Inr by simp
  qed
qed

section \<open>Reachable files\<close>

text \<open>A new ledger, appends that stop anywhere, loads and rebuilds.\<close>

inductive credit_reachable :: "(string \<Rightarrow> string) \<Rightarrow> credit_files \<Rightarrow> bool" for sha where
  credit_new: "credit_reachable sha \<lparr>c_main = None, c_idem = None, c_tail = None\<rparr>"
| credit_append: "credit_reachable sha c \<Longrightarrow> credit_reachable sha (snd (append_event (Suc n) sha stop ev c))"
| credit_verify: "credit_reachable sha c \<Longrightarrow> credit_reachable sha (snd (verify_integrity sha c))"

definition rec_event :: "obj \<Rightarrow> json" where
  "rec_event r = dget_or r ''event'' (JObj [])"

definition rec_key :: "obj \<Rightarrow> string option" where
  "rec_key r = (case rec_event r of JObj e \<Rightarrow> str_field ''idempotency_key'' e | _ \<Rightarrow> None)"

definition rec_hash :: "obj \<Rightarrow> string option" where
  "rec_hash r = str_field ''record_hash'' r"

text \<open>Rows made one after the other by \<open>append\<close>.\<close>

definition payload_hash :: "(string \<Rightarrow> string) \<Rightarrow> obj \<Rightarrow> string \<Rightarrow> string" where
  "payload_hash sha payload p = sha_of sha (JObj [(''event'', JObj payload), (''prev_hash'', JStr p)])"

fun built :: "(string \<Rightarrow> string) \<Rightarrow> string \<Rightarrow> credit_event list \<Rightarrow> obj list" where
  "built sha p [] = []"
| "built sha p (ev # evs) =
     make_record sha (event_payload ev) p # built sha (payload_hash sha (event_payload ev) p) evs"

fun head_after :: "(string \<Rightarrow> string) \<Rightarrow> string \<Rightarrow> credit_event list \<Rightarrow> string" where
  "head_after sha p [] = p"
| "head_after sha p (ev # evs) = head_after sha (payload_hash sha (event_payload ev) p) evs"

lemma built_append: "built sha p (xs @ ys) = built sha p xs @ built sha (head_after sha p xs) ys"
  by (induction xs arbitrary: p) auto

lemma head_after_append: "head_after sha p (xs @ ys) = head_after sha (head_after sha p xs) ys"
  by (induction xs arbitrary: p) auto

lemma length_built [simp]: "length (built sha p evs) = length evs"
  by (induction evs arbitrary: p) auto

lemma make_record_fields [simp]:
  "rec_hash (make_record sha (event_payload ev) p) = Some (payload_hash sha (event_payload ev) p)"
  "rec_key (make_record sha (event_payload ev) p) = Some (idempotency_key ev)"
  "rec_event (make_record sha (event_payload ev) p) = JObj (event_payload ev)"
  "dget (make_record sha (event_payload ev) p) ''prev_hash'' = Some (JStr p)"
  "dget (make_record sha (event_payload ev) p) ''event'' = Some (JObj (event_payload ev))"
  by (simp_all add: make_record_def rec_hash_def rec_key_def rec_event_def str_field_def payload_hash_def
      event_payload_def dget_or_def)

lemma built_keys: "map rec_key (built sha p evs) = map (Some \<circ> idempotency_key) evs"
  by (induction evs arbitrary: p) auto

lemma built_last: "evs \<noteq> [] \<Longrightarrow> rec_hash (last (built sha p evs)) = Some (head_after sha p evs)"
  by (induction evs rule: rev_induct) (auto simp: built_append head_after_append)

text \<open>The hash under a key.\<close>

fun hash_from :: "(string \<Rightarrow> string) \<Rightarrow> string \<Rightarrow> credit_event list \<Rightarrow> string \<Rightarrow> string option" where
  "hash_from sha p [] k = None"
| "hash_from sha p (ev # evs) k =
     (if k = idempotency_key ev then Some (payload_hash sha (event_payload ev) p)
      else hash_from sha (payload_hash sha (event_payload ev) p) evs k)"

definition key_hash :: "(string \<Rightarrow> string) \<Rightarrow> credit_event list \<Rightarrow> string \<Rightarrow> string option" where
  "key_hash sha evs k = hash_from sha ZERO_HASH evs k"

lemma index_row_made:
  "index_row (make_record sha (event_payload ev) p) (m, l) =
     (dput (idempotency_key ev) (payload_hash sha (event_payload ev) p) m, payload_hash sha (event_payload ev) p)"
  using make_record_fields [of sha ev p]
  by (simp add: index_row_def Let_def rec_hash_def rec_key_def rec_event_def)

lemma hash_from_snoc:
  "idempotency_key ev \<notin> set (map idempotency_key evs) \<Longrightarrow>
     hash_from sha p (evs @ [ev]) k =
       (if k = idempotency_key ev then Some (payload_hash sha (event_payload ev) (head_after sha p evs))
        else hash_from sha p evs k)"
  by (induction evs arbitrary: p) auto

lemmas key_hash_snoc = hash_from_snoc [where p = ZERO_HASH, folded key_hash_def]

lemma index_built:
  assumes "distinct (map idempotency_key evs)"
  shows "\<exists>m. index_rows (map JObj (built sha ZERO_HASH evs)) ([], ZERO_HASH) = Inr (m, head_after sha ZERO_HASH evs)
    \<and> (\<forall>k. dget m k = key_hash sha evs k)"
  using assms
proof (induction evs rule: rev_induct)
  case Nil
  then show ?case by (simp add: key_hash_def)
next
  case (snoc ev evs)
  then obtain m where m: "index_rows (map JObj (built sha ZERO_HASH evs)) ([], ZERO_HASH) = Inr (m, head_after sha ZERO_HASH evs)"
      "\<forall>k. dget m k = key_hash sha evs k" by auto
  have "idempotency_key ev \<notin> set (map idempotency_key evs)" using snoc.prems by simp
  then show ?case using m
    by (simp add: built_append head_after_append index_rows_append index_row_made key_hash_snoc)
qed

text \<open>The rows are built from events with distinct keys; the sidecar and the index are right
  whenever they look fresh.\<close>

definition fresh_ok :: "(string \<Rightarrow> string) \<Rightarrow> credit_event list \<Rightarrow> credit_files \<Rightarrow> bool" where
  "fresh_ok sha evs c \<longleftrightarrow>
     (\<forall>h n m. read_tail c = Some (h, n) \<longrightarrow> read_idem c = Some m \<longrightarrow> last_hash_fast c = Some h \<longrightarrow>
        n = int (length evs) \<and> (\<forall>k. dget m k = key_hash sha evs k))"

definition rows_are :: "(string \<Rightarrow> string) \<Rightarrow> credit_event list \<Rightarrow> credit_files \<Rightarrow> bool" where
  "rows_are sha evs c \<longleftrightarrow>
     file_lines (c_main c) = map (\<lambda>r. Row (JObj r)) (built sha ZERO_HASH evs) \<and>
     distinct (map idempotency_key evs)"

text \<open>No hash of the file is repeated, the zero hash included.\<close>

definition hashes_distinct :: "(string \<Rightarrow> string) \<Rightarrow> credit_event list \<Rightarrow> bool" where
  "hashes_distinct sha evs \<longleftrightarrow> distinct (Some ZERO_HASH # map rec_hash (built sha ZERO_HASH evs))"

lemma rows_read: "rows_are sha evs c \<Longrightarrow> whole_rows c \<Longrightarrow> read_rows c = Inr (map JObj (built sha ZERO_HASH evs))"
  unfolding rows_are_def by (simp add: read_rows_whole map_map [symmetric, unfolded comp_def, of Row JObj] del: map_map)

lemma last_hash_rows:
  assumes "rows_are sha evs c"
  shows "last_hash_fast c = Some (head_after sha ZERO_HASH evs)"
proof (cases "evs = []")
  case True
  then show ?thesis using assms by (simp add: rows_are_def last_hash_fast_def)
next
  case False
  then obtain ls l where ls: "built sha ZERO_HASH evs = ls @ [l]"
    by (metis length_built length_0_conv rev_exhaust)
  then have "rec_hash l = Some (head_after sha ZERO_HASH evs)"
    using built_last [OF False, of sha ZERO_HASH] by simp
  moreover have "file_lines (c_main c) = map (\<lambda>r. Row (JObj r)) ls @ [Row (JObj l)]"
    using assms ls by (simp add: rows_are_def)
  ultimately show ?thesis
    by (cases ls) (simp_all add: last_hash_fast_def rec_hash_def)
qed

lemma load_right:
  assumes "rows_are sha evs c" "fresh_ok sha evs c" "whole_rows c"
  obtains m c' where "load_indexes c = (Inr (m, head_after sha ZERO_HASH evs, int (length evs)), c')"
    and "\<forall>k. dget m k = key_hash sha evs k"
    and "c_main c' = c_main c" "read_tail c' = Some (head_after sha ZERO_HASH evs, int (length evs))"
    and "c_idem c' \<noteq> None" "\<And>m'. read_idem c' = Some m' \<Longrightarrow> (\<forall>k. dget m' k = key_hash sha evs k)"
proof -
  obtain r c' where l: "load_indexes c = (r, c')" by fastforce
  then show thesis
  proof (cases rule: load_cases)
    case (kept m h n)
    then have "h = head_after sha ZERO_HASH evs" using last_hash_rows [OF assms(1)] by simp
    moreover have "n = int (length evs)" "\<forall>k. dget m k = key_hash sha evs k"
      using kept assms(2) by (auto simp: fresh_ok_def)
    moreover have "c_idem c \<noteq> None" using kept(4) by (cases "c_idem c") (simp_all add: read_idem_def)
    ultimately show thesis using that [of m c'] l kept by simp
  next
    case rebuilt
    obtain m where m: "index_rows (map JObj (built sha ZERO_HASH evs)) ([], ZERO_HASH) = Inr (m, head_after sha ZERO_HASH evs)"
        "\<forall>k. dget m k = key_hash sha evs k"
      using index_built assms(1) unfolding rows_are_def by blast
    have "r = Inr (m, head_after sha ZERO_HASH evs, int (length evs))"
      using rebuilt(1) rows_read [OF assms(1,3)] m(1) by (simp add: rebuild_indexes_def Let_def)
    with rebuilt(1) rebuild_reads [of c m "head_after sha ZERO_HASH evs" "int (length evs)" c'] m(2) l that [of m c']
    show thesis by auto
  qed
qed

section \<open>Appending to reachable files\<close>

lemma hash_from_None: "hash_from sha p evs k = None \<longleftrightarrow> k \<notin> set (map idempotency_key evs)"
  by (induction evs arbitrary: p) auto

lemma hash_from_row:
  assumes "distinct (map idempotency_key evs)" "r \<in> set (built sha p evs)" "rec_key r = Some k"
  shows "hash_from sha p evs k = rec_hash r"
  using assms
proof (induction evs arbitrary: p)
  case (Cons ev evs)
  show ?case
  proof (cases "k = idempotency_key ev")
    case True
    have "r \<notin> set (built sha (payload_hash sha (event_payload ev) p) evs)"
    proof
      assume "r \<in> set (built sha (payload_hash sha (event_payload ev) p) evs)"
      then have "rec_key r \<in> set (map rec_key (built sha (payload_hash sha (event_payload ev) p) evs))" by simp
      then have "k \<in> set (map idempotency_key evs)" unfolding built_keys using Cons.prems(3) by auto
      then show False using Cons.prems(1) True by simp
    qed
    then show ?thesis using Cons.prems True by auto
  next
    case False
    then have "r \<in> set (built sha (payload_hash sha (event_payload ev) p) evs)" using Cons.prems by auto
    with Cons False show ?thesis by simp
  qed
qed simp

lemma find_existing_unique:
  assumes "distinct (map rec_hash recs)" "r \<in> set recs" "rec_hash r = Some h"
  shows "find_existing h payload (map JObj recs) =
    (if canonical_json (rec_event r) = canonical_json (JObj payload) then Inr (Some r) else Inl KeyConflict)"
  using assms
proof (induction recs)
  case (Cons x xs)
  show ?case
  proof (cases "x = r")
    case True
    then show ?thesis using Cons.prems(3) by (simp add: rec_hash_def str_field_iff rec_event_def)
  next
    case False
    then have "r \<in> set xs" using Cons.prems(2) by simp
    moreover have "rec_hash x \<noteq> Some h"
      using Cons.prems \<open>r \<in> set xs\<close> by (metis distinct.simps(2) image_eqI list.set_map list.simps(9))
    ultimately show ?thesis using Cons by (simp add: rec_hash_def str_field_iff)
  qed
qed simp

lemma fresh_after_load:
  assumes "read_tail c = Some (h, int (length evs))" "\<And>m. read_idem c = Some m \<Longrightarrow> (\<forall>k. dget m k = key_hash sha evs k)"
  shows "fresh_ok sha evs c"
  using assms by (auto simp: fresh_ok_def)

lemma append_known:
  assumes "rows_are sha evs c" "fresh_ok sha evs c" "whole_rows c" "hashes_distinct sha evs"
    and "r \<in> set (built sha ZERO_HASH evs)" "rec_key r = Some (idempotency_key ev)" "idempotency_key ev \<noteq> []"
  shows "\<exists>c'. append_event (Suc n) sha stop ev c =
      ((if canonical_json (rec_event r) = canonical_json (JObj (event_payload ev)) then Inr r else Inl KeyConflict), c')
    \<and> c_main c' = c_main c \<and> fresh_ok sha evs c'"
proof -
  obtain m c1 where l: "load_indexes c = (Inr (m, head_after sha ZERO_HASH evs, int (length evs)), c1)"
      "\<forall>k. dget m k = key_hash sha evs k" "c_main c1 = c_main c"
      "read_tail c1 = Some (head_after sha ZERO_HASH evs, int (length evs))"
      "\<And>m'. read_idem c1 = Some m' \<Longrightarrow> (\<forall>k. dget m' k = key_hash sha evs k)"
    using load_right [OF assms(1-3)] by metis
  have "distinct (map idempotency_key evs)" using assms(1) by (simp add: rows_are_def)
  from hash_from_row [OF this assms(5,6)] have kh: "key_hash sha evs (idempotency_key ev) = rec_hash r"
    by (simp add: key_hash_def)
  obtain h where h: "rec_hash r = Some h"
  proof -
    have "key_hash sha evs (idempotency_key ev) \<noteq> None"
    proof -
      have "Some (idempotency_key ev) \<in> set (map rec_key (built sha ZERO_HASH evs))"
        using assms(5,6) by (metis image_eqI list.set_map)
      then show ?thesis unfolding key_hash_def hash_from_None built_keys by auto
    qed
    then show thesis using that kh by auto
  qed
  have "read_rows c1 = Inr (map JObj (built sha ZERO_HASH evs))"
    using rows_read [OF assms(1,3)] l(3) by (simp add: read_rows_def)
  moreover have "distinct (map rec_hash (built sha ZERO_HASH evs))" using assms(4) by (simp add: hashes_distinct_def)
  note f = find_existing_unique [OF this assms(5) h, of "event_payload ev"]
  ultimately have "append_event (Suc n) sha stop ev c =
      ((if canonical_json (rec_event r) = canonical_json (JObj (event_payload ev)) then Inr r else Inl KeyConflict), c1)"
    using l(1,2) kh h assms(7) f by simp
  then show ?thesis using l(3) fresh_after_load [OF l(4,5)] by blast
qed

lemma read_idem_snoc:
  assumes "read_idem (c\<lparr>c_main := x, c_idem := append_line (idem_row k h) (c_idem c)\<rparr>) = Some m" "c_idem c \<noteq> None"
  obtains m' where "read_idem c = Some m'" "m = dput k h m'"
  using assms by (auto simp: read_idem_def append_line_def read_idem_append bind_eq_Some_conv split: if_splits)

lemma append_new:
  assumes "rows_are sha evs c" "fresh_ok sha evs c" "whole_rows c"
    and "idempotency_key ev \<notin> set (map idempotency_key evs)" "idempotency_key ev \<noteq> []"
    and "append_event (Suc n) sha stop ev c = (r, c')"
  shows "(stop = StopBefore \<and> c_main c' = c_main c \<and> fresh_ok sha evs c') \<or>
    (rows_are sha (evs @ [ev]) c' \<and> (hashes_distinct sha (evs @ [ev]) \<longrightarrow> fresh_ok sha (evs @ [ev]) c') \<and>
     (stop = NoStop \<longrightarrow> r = Inr (make_record sha (event_payload ev) (head_after sha ZERO_HASH evs))))"
proof -
  let ?h = "head_after sha ZERO_HASH evs"
  let ?g = "payload_hash sha (event_payload ev) ?h"
  obtain m c1 where l: "load_indexes c = (Inr (m, ?h, int (length evs)), c1)"
      "\<forall>k. dget m k = key_hash sha evs k" "c_main c1 = c_main c"
      "read_tail c1 = Some (?h, int (length evs))"
      "c_idem c1 \<noteq> None" "\<And>m'. read_idem c1 = Some m' \<Longrightarrow> (\<forall>k. dget m' k = key_hash sha evs k)"
    using load_right [OF assms(1-3)] by metis
  have "dget m (idempotency_key ev) = None" using l(2) assms(4) by (simp add: key_hash_def hash_from_None)
  then have w: "(r, c') = write_record sha stop ev ?h (int (length evs)) c1"
    using assms(5,6) l(1) by simp
  have rows: "rows_are sha (evs @ [ev]) c2" if "c_main c2 = append_line (JObj (make_record sha (event_payload ev) ?h)) (c_main c1)" for c2
    using assms(1,4) l(3) that by (simp add: rows_are_def built_append)
  have stale: "fresh_ok sha (evs @ [ev]) c2" if "hashes_distinct sha (evs @ [ev])" "rows_are sha (evs @ [ev]) c2"
      "read_tail c2 = Some (?h, int (length evs))" for c2
  proof -
    have "?g \<noteq> ?h"
    proof (cases "evs = []")
      case True
      then show ?thesis using that(1) by (auto simp: hashes_distinct_def)
    next
      case False
      then have "Some ?h \<in> set (map rec_hash (built sha ZERO_HASH evs))"
        using built_last [OF False, of sha ZERO_HASH] by (metis image_eqI last_in_set length_0_conv length_built list.set_map)
      then show ?thesis using that(1) by (auto simp: hashes_distinct_def built_append)
    qed
    then show ?thesis using last_hash_rows [OF that(2)] that(3) by (simp add: fresh_ok_def head_after_append)
  qed
  have g: "sha_of sha (JObj [(''event'', JObj (event_payload ev)), (''prev_hash'', JStr ?h)]) = ?g"
    by (simp add: payload_hash_def)
  show ?thesis
  proof (cases stop)
    case StopBefore
    then show ?thesis using w l(3) fresh_after_load [OF l(4,6)] by (simp add: write_record_def Let_def)
  next
    case StopAfterRow
    then have c': "c' = c1\<lparr>c_main := append_line (JObj (make_record sha (event_payload ev) ?h)) (c_main c1)\<rparr>"
      using w by (simp add: write_record_def Let_def)
    have "read_tail c' = Some (?h, int (length evs))" using l(4) by (simp add: c' read_tail_def)
    then show ?thesis using rows [of c'] stale [of c'] c' StopAfterRow by auto
  next
    case StopAfterIndex
    then have c': "c' = c1\<lparr>c_main := append_line (JObj (make_record sha (event_payload ev) ?h)) (c_main c1),
        c_idem := append_line (idem_row (idempotency_key ev) ?g) (c_idem c1)\<rparr>"
      using w by (simp add: write_record_def Let_def g)
    have "read_tail c' = Some (?h, int (length evs))" using l(4) by (simp add: c' read_tail_def)
    then show ?thesis using rows [of c'] stale [of c'] c' StopAfterIndex by auto
  next
    case NoStop
    then have c': "c' = write_tail ?g (int (length evs) + 1) (c1\<lparr>c_main := append_line (JObj (make_record sha (event_payload ev) ?h)) (c_main c1),
        c_idem := append_line (idem_row (idempotency_key ev) ?g) (c_idem c1)\<rparr>)"
      and r: "r = Inr (make_record sha (event_payload ev) ?h)"
      using w by (simp_all add: write_record_def Let_def g)
    have idem: "\<forall>k. dget m k = key_hash sha (evs @ [ev]) k" if "read_idem c' = Some m" for m
    proof -
      have "read_idem (c1\<lparr>c_main := append_line (JObj (make_record sha (event_payload ev) ?h)) (c_main c1),
          c_idem := append_line (idem_row (idempotency_key ev) ?g) (c_idem c1)\<rparr>) = Some m"
        using that by (simp add: c' read_idem_def write_tail_def)
      from read_idem_snoc [OF this l(5)] l(6) assms(4) show ?thesis by (metis dget_dput key_hash_snoc)
    qed
    then have "fresh_ok sha (evs @ [ev]) c'" by (simp add: fresh_ok_def c')
    then show ?thesis using rows [of c'] c' r NoStop by simp
  qed
qed

section \<open>The invariant\<close>

text \<open>The objects of the file and their hashes, the zero hash in front.\<close>

fun line_obj :: "line \<Rightarrow> obj list" where
  "line_obj (Row (JObj d)) = [d]"
| "line_obj l = []"

definition main_objs :: "credit_files \<Rightarrow> obj list" where
  "main_objs c = concat (map line_obj (file_lines (c_main c)))"

definition main_hashes :: "credit_files \<Rightarrow> string option list" where
  "main_hashes c = Some ZERO_HASH # map rec_hash (main_objs c)"

lemma main_objs_rows: "rows_are sha evs c \<Longrightarrow> main_objs c = built sha ZERO_HASH evs"
  by (simp add: main_objs_def rows_are_def comp_def)

lemma main_hashes_rows: "rows_are sha evs c \<Longrightarrow> distinct (main_hashes c) = hashes_distinct sha evs"
  by (simp add: main_hashes_def main_objs_rows hashes_distinct_def)

lemma hashes_distinct_prefix: "hashes_distinct sha (evs @ xs) \<Longrightarrow> hashes_distinct sha evs"
  by (simp add: hashes_distinct_def built_append)

definition credit_inv :: "(string \<Rightarrow> string) \<Rightarrow> credit_files \<Rightarrow> bool" where
  "credit_inv sha c \<longleftrightarrow> (distinct (main_hashes c) \<longrightarrow> whole_rows c \<longrightarrow> (\<exists>evs. rows_are sha evs c \<and> fresh_ok sha evs c))"

lemma append_extends:
  "\<exists>ls. file_lines (c_main (snd (append_event n sha stop ev c))) = file_lines (c_main c) @ ls"
proof (induction n arbitrary: c)
  case (Suc n)
  have wr: "\<exists>ls. file_lines (c_main (snd (write_record sha stop ev h e c'))) = file_lines (c_main c') @ ls" for h e c'
    by (simp add: write_record_def Let_def split: stop.split)
  obtain l c1 where l: "load_indexes c = (l, c1)" by fastforce
  then have m: "c_main c1 = c_main c" using load_main [of c] by simp
  obtain rb c2 where rb: "rebuild_indexes c1 = (rb, c2)" by fastforce
  then have m2: "c_main c2 = c_main c" using rebuild_main [of c1] m by simp
  have again: "\<exists>ls. file_lines (c_main (snd (ethen (rebuild_indexes c1) (\<lambda>_ c. append_event n sha stop ev c)))) =
      file_lines (c_main c) @ ls"
    using Suc.IH [of c2] rb m2 by (cases rb) auto
  show ?case using l m again wr [of _ _ c1]
    by (cases l) (auto split: option.split sum.split)
qed simp

lemma main_hashes_extends:
  assumes "file_lines (c_main c') = file_lines (c_main c) @ ls" "distinct (main_hashes c')"
  shows "distinct (main_hashes c)"
  using assms by (auto simp: main_hashes_def main_objs_def)

lemma whole_rows_extends:
  "file_lines (c_main c') = file_lines (c_main c) @ ls \<Longrightarrow> whole_rows c' \<Longrightarrow> whole_rows c"
  by (simp add: whole_rows_def)

lemma fresh_ok_load:
  assumes "rows_are sha evs c" "fresh_ok sha evs c" "whole_rows c" "load_indexes c = (r, c')"
  shows "rows_are sha evs c' \<and> fresh_ok sha evs c'"
proof -
  obtain m where l: "c_main c' = c_main c" "read_tail c' = Some (head_after sha ZERO_HASH evs, int (length evs))"
      "\<And>m'. read_idem c' = Some m' \<Longrightarrow> (\<forall>k. dget m' k = key_hash sha evs k)"
    using load_right [OF assms(1-3)] assms(4) by (metis Pair_inject)
  then show ?thesis using assms(1) fresh_after_load [OF l(2,3)] by (simp add: rows_are_def)
qed

lemma append_inv:
  assumes "credit_inv sha c"
  shows "credit_inv sha (snd (append_event (Suc n) sha stop ev c))"
  unfolding credit_inv_def
proof (intro impI)
  let ?c = "snd (append_event (Suc n) sha stop ev c)"
  assume d: "distinct (main_hashes ?c)" and w: "whole_rows ?c"
  obtain ls where ls: "file_lines (c_main ?c) = file_lines (c_main c) @ ls" using append_extends by blast
  have dc: "distinct (main_hashes c)" by (rule main_hashes_extends [OF ls d])
  have wc: "whole_rows c" by (rule whole_rows_extends [OF ls w])
  then obtain evs where e: "rows_are sha evs c" "fresh_ok sha evs c" using assms dc wc by (auto simp: credit_inv_def)
  have hd: "hashes_distinct sha evs" using dc main_hashes_rows [OF e(1)] by simp
  show "\<exists>evs. rows_are sha evs ?c \<and> fresh_ok sha evs ?c"
  proof (cases "idempotency_key ev = []")
    case True
    then show ?thesis using e by auto
  next
    case key: False
    show ?thesis
    proof (cases "idempotency_key ev \<in> set (map idempotency_key evs)")
      case True
      then have "Some (idempotency_key ev) \<in> set (map rec_key (built sha ZERO_HASH evs))" by (auto simp: built_keys)
      then obtain r where r: "r \<in> set (built sha ZERO_HASH evs)" "rec_key r = Some (idempotency_key ev)" by auto
      obtain c' x where "append_event (Suc n) sha stop ev c = (x, c')" "c_main c' = c_main c" "fresh_ok sha evs c'"
        using append_known [OF e wc hd r key] by metis
      then show ?thesis using e(1) by (auto simp: rows_are_def)
    next
      case False
      obtain x c' where a: "append_event (Suc n) sha stop ev c = (x, c')" by fastforce
      from append_new [OF e wc False key a] show ?thesis
      proof
        assume "stop = StopBefore \<and> c_main c' = c_main c \<and> fresh_ok sha evs c'"
        then show ?thesis using e(1) a by (auto simp: rows_are_def)
      next
        assume n: "rows_are sha (evs @ [ev]) c' \<and> (hashes_distinct sha (evs @ [ev]) \<longrightarrow> fresh_ok sha (evs @ [ev]) c') \<and>
          (stop = NoStop \<longrightarrow> x = Inr (make_record sha (event_payload ev) (head_after sha ZERO_HASH evs)))"
        then have "hashes_distinct sha (evs @ [ev])" using d a main_hashes_rows by auto
        with n a show ?thesis by auto
      qed
    qed
  qed
qed

text \<open>Verification of built rows.\<close>

lemma check_built: "check_rows sha i p (map JObj (built sha p evs)) = Inr (Inr (head_after sha p evs))"
proof (induction evs arbitrary: p i)
  case (Cons ev evs)
  have "row_hash sha (make_record sha (event_payload ev) p) = payload_hash sha (event_payload ev) p"
    by (simp add: row_hash_def payload_hash_def make_record_def dget_or_def)
  moreover have "dget (make_record sha (event_payload ev) p) ''record_hash'' = Some (JStr (payload_hash sha (event_payload ev) p))"
    by (simp add: make_record_def payload_hash_def)
  ultimately show ?case using Cons.IH by simp
qed simp

lemma verify_built:
  assumes "rows_are sha evs c" "fresh_ok sha evs c" "whole_rows c"
  shows "fst (verify_integrity sha c) = Inr (Intact (length evs) (head_after sha ZERO_HASH evs))"
    and "rows_are sha evs (snd (verify_integrity sha c))" "fresh_ok sha evs (snd (verify_integrity sha c))"
proof -
  obtain m c1 where l: "load_indexes c = (Inr (m, head_after sha ZERO_HASH evs, int (length evs)), c1)"
      "\<forall>k. dget m k = key_hash sha evs k"
    using load_right [OF assms] by metis
  obtain m' where m': "index_rows (map JObj (built sha ZERO_HASH evs)) ([], ZERO_HASH) = Inr (m', head_after sha ZERO_HASH evs)"
      "\<forall>k. dget m' k = key_hash sha evs k"
    using index_built assms(1) unfolding rows_are_def by blast
  have "dict_eq m m'" using l(2) m'(2) by (simp add: dict_eq_def list_all_iff)
  then have v: "verify_integrity sha c = (Inr (Intact (length evs) (head_after sha ZERO_HASH evs)), c1)"
    using l(1) m'(1) by (simp add: verify_integrity_def rows_read [OF assms(1,3)] check_built)
  show "fst (verify_integrity sha c) = Inr (Intact (length evs) (head_after sha ZERO_HASH evs))"
    "rows_are sha evs (snd (verify_integrity sha c))" "fresh_ok sha evs (snd (verify_integrity sha c))"
    using v fresh_ok_load [OF assms l(1)] by auto
qed

lemma verify_main: "c_main (snd (verify_integrity sha c)) = c_main c"
proof -
  obtain l c1 where l: "load_indexes c = (l, c1)" by fastforce
  then have m: "c_main c1 = c_main c" using load_main [of c] by simp
  show ?thesis using l m
    by (cases l) (auto simp: verify_integrity_def split: sum.split prod.split)
qed

lemma reachable_credit_inv: "credit_reachable sha c \<Longrightarrow> credit_inv sha c"
proof (induction rule: credit_reachable.induct)
  case credit_new
  have "rows_are sha [] \<lparr>c_main = None, c_idem = None, c_tail = None\<rparr>"
    "fresh_ok sha [] \<lparr>c_main = None, c_idem = None, c_tail = None\<rparr>"
    by (simp_all add: rows_are_def fresh_ok_def read_tail_def)
  then show ?case unfolding credit_inv_def by blast
next
  case (credit_append c n stop ev)
  then show ?case by (intro append_inv)
next
  case (credit_verify c)
  show ?case unfolding credit_inv_def
  proof (intro impI)
    assume "distinct (main_hashes (snd (verify_integrity sha c)))" "whole_rows (snd (verify_integrity sha c))"
    then have w: "distinct (main_hashes c)" "whole_rows c" by (simp_all add: main_hashes_def main_objs_def verify_main whole_rows_def)
    then obtain evs where "rows_are sha evs c" "fresh_ok sha evs c" using credit_verify.IH by (auto simp: credit_inv_def)
    then show "\<exists>evs. rows_are sha evs (snd (verify_integrity sha c)) \<and> fresh_ok sha evs (snd (verify_integrity sha c))"
      using verify_built w(2) by blast
  qed
qed

lemma reachable_rows:
  assumes "credit_reachable sha c" "distinct (main_hashes c)" "whole_rows c"
  obtains evs where "rows_are sha evs c" "fresh_ok sha evs c" "hashes_distinct sha evs" "main_objs c = built sha ZERO_HASH evs"
proof -
  obtain evs where e: "rows_are sha evs c" "fresh_ok sha evs c"
    using reachable_credit_inv [OF assms(1)] assms(2,3) by (auto simp: credit_inv_def)
  show thesis using that [OF e] main_hashes_rows [OF e(1)] main_objs_rows [OF e(1)] assms(2) by simp
qed

text \<open>What one row adds to the balance of an agent.\<close>

definition row_credit :: "string \<Rightarrow> obj \<Rightarrow> int" where
  "row_credit a r =
     (case rec_event r of
        JObj e \<Rightarrow>
          if dget e ''agent_id'' = Some (JStr a)
          then (case dget e ''credits_delta'' of Some (JInt i) \<Rightarrow> i | _ \<Rightarrow> 0) else 0
      | _ \<Rightarrow> 0)"

lemma row_credit_made: "row_credit a (make_record sha (event_payload ev) p) =
    (if agent_id ev = a then credits_delta ev else 0)"
  unfolding row_credit_def make_record_fields(3) by (simp add: event_payload_def)

lemma balance_built:
  "\<exists>b'. balance_rows (map JObj (built sha p evs)) b = Inr b' \<and>
     (\<forall>a. dget_or b' a 0 = dget_or b a 0 + sum_list (map (row_credit a) (built sha p evs)))"
proof (induction evs arbitrary: p b)
  case (Cons ev evs)
  let ?b = "dput (agent_id ev) (dget_or b (agent_id ev) 0 + credits_delta ev) b"
  obtain b' where b': "balance_rows (map JObj (built sha (payload_hash sha (event_payload ev) p) evs)) ?b = Inr b'"
      "\<forall>a. dget_or b' a 0 = dget_or ?b a 0 + sum_list (map (row_credit a) (built sha (payload_hash sha (event_payload ev) p) evs))"
    using Cons.IH by blast
  have "balance_rows (map JObj (built sha p (ev # evs))) b = Inr b'"
    using b'(1) by (simp add: item_def event_payload_def make_record_def)
  then show ?case using b'(2) by (auto simp: row_credit_made)
qed simp

section \<open>Properties\<close>

definition demo_event :: "string \<Rightarrow> int \<Rightarrow> credit_event" where
  "demo_event k d = \<lparr>agent_id = ''a'', mutation_id = ''m'', credits_delta = d, budget_source = ''b'',
     idempotency_key = k, details = None\<rparr>"

text \<open>The demo process dies right after it has written the row, before the indexes.\<close>

definition crashed_files :: "(string \<Rightarrow> string) \<Rightarrow> credit_files" where
  "crashed_files sha =
     snd (append_event 2 sha StopAfterRow (demo_event ''k1'' 5) \<lparr>c_main = None, c_idem = None, c_tail = None\<rparr>)"

lemma crashed_reachable: "credit_reachable sha (crashed_files sha)"
  unfolding crashed_files_def numeral_2_eq_2 by (rule credit_append [OF credit_new])

lemma crashed_objs: "main_objs (crashed_files sha) = [make_record sha (event_payload (demo_event ''k1'' 5)) ZERO_HASH]"
proof -
  have "rebuild_indexes \<lparr>c_main = None, c_idem = None, c_tail = None\<rparr> =
      (Inr ([], ZERO_HASH, 0), write_tail ZERO_HASH 0 \<lparr>c_main = None, c_idem = Some [], c_tail = None\<rparr>)"
    by (simp add: rebuild_indexes_def read_rows_def keys_def Let_def)
  then have "load_indexes \<lparr>c_main = None, c_idem = None, c_tail = None\<rparr> =
      (Inr ([], ZERO_HASH, 0), write_tail ZERO_HASH 0 \<lparr>c_main = None, c_idem = Some [], c_tail = None\<rparr>)"
    by (simp add: load_indexes_def read_tail_def)
  then show ?thesis
    by (simp add: crashed_files_def numeral_2_eq_2 demo_event_def write_record_def append_line_def main_objs_def
        Let_def write_tail_def)
qed

lemma crashed_distinct: "distinct (main_hashes (crashed_files (\<lambda>_. ''h'')))"
  by (simp add: main_hashes_def crashed_objs payload_hash_def sha_of_def sha256_prefixed_def ZERO_HASH_def
      numeral_eq_Suc)

lemma crashed_whole: "whole_rows (crashed_files (\<lambda>_. ''h''))"
  by code_simp

text \<open>
  C3 (functional): appends happen exactly once. Take any files reached by appends that may have
  died at any point of their writes, in which no two hashes of the chain coincide and no row holds the
  character U+0085. An append with a key
  that is on file returns the row on file, or the conflict error if its event differs, and writes no
  row; an append with a new key adds exactly one row, linked to the last one. So retrying an append
  after a crash never books the credits twice.\<close>

theorem credit_append_exactly_once:
  assumes "credit_reachable sha c" "distinct (main_hashes c)" "whole_rows c"
    and "idempotency_key ev \<noteq> []" "append_event (Suc n) sha NoStop ev c = (r, c')"
  shows "case find (\<lambda>row. rec_key row = Some (idempotency_key ev)) (main_objs c) of
      Some row \<Rightarrow> c_main c' = c_main c \<and>
        r = (if canonical_json (rec_event row) = canonical_json (JObj (event_payload ev)) then Inr row else Inl KeyConflict)
    | None \<Rightarrow> (let row = make_record sha (event_payload ev) (the (last_hash_fast c))
               in r = Inr row \<and> main_objs c' = main_objs c @ [row])"
proof -
  obtain evs where e: "rows_are sha evs c" "fresh_ok sha evs c" "hashes_distinct sha evs" "main_objs c = built sha ZERO_HASH evs"
    using reachable_rows [OF assms(1-3)] by blast
  show ?thesis
  proof (cases "find (\<lambda>row. rec_key row = Some (idempotency_key ev)) (main_objs c)")
    case None
    then have "Some (idempotency_key ev) \<notin> set (map rec_key (built sha ZERO_HASH evs))"
      by (auto simp: find_None_iff e(4))
    then have k: "idempotency_key ev \<notin> set (map idempotency_key evs)" by (auto simp: built_keys)
    from append_new [OF e(1,2) assms(3) k assms(4,5)] have "rows_are sha (evs @ [ev]) c'"
        "r = Inr (make_record sha (event_payload ev) (head_after sha ZERO_HASH evs))" by auto
    then show ?thesis using None e(4) last_hash_rows [OF e(1)] main_objs_rows [of sha "evs @ [ev]" c']
      by (simp add: built_append Let_def)
  next
    case (Some row)
    then have row: "row \<in> set (built sha ZERO_HASH evs)" "rec_key row = Some (idempotency_key ev)"
      by (auto simp: find_Some_iff e(4))
    from append_known [OF e(1,2) assms(3) e(3) row assms(4), of n NoStop] assms(5) Some show ?thesis by auto
  qed
qed

theorem credit_append_exactly_once_witness:
  "c_main (snd (append_event 2 (\<lambda>_. ''h'') NoStop (demo_event ''k1'' 5) (crashed_files (\<lambda>_. ''h''))))
     = c_main (crashed_files (\<lambda>_. ''h''))
   \<and> fst (append_event 2 (\<lambda>_. ''h'') NoStop (demo_event ''k1'' 5) (crashed_files (\<lambda>_. ''h'')))
     = Inr (make_record (\<lambda>_. ''h'') (event_payload (demo_event ''k1'' 5)) ZERO_HASH)"
  using credit_append_exactly_once [OF crashed_reachable crashed_distinct crashed_whole _ surjective_pairing,
      of "demo_event ''k1'' 5" 1]
  by (simp add: crashed_objs demo_event_def numeral_2_eq_2)

text \<open>
  The recursion of \<open>append\<close> ends. In every state of the three files, reachable or
  tampered with, two levels are enough.\<close>

theorem credit_append_terminates:
  "fst (append_event (Suc (Suc n)) sha stop ev c) \<noteq> Inl RecursionLimit"
  by (rule append_two_levels)

text \<open>
  C36 (functional): reachable files, crashes included, whose hashes differ and whose rows hold no U+0085, pass verification, and the replayed balance of
  every agent is the sum of the deltas of its rows.\<close>

theorem credit_balances_sum:
  assumes "credit_reachable sha c" "distinct (main_hashes c)" "whole_rows c"
  shows "fst (verify_integrity sha c) = Inr (Intact (length (main_objs c)) (the (last_hash_fast c))) \<and>
    is_ok (fst (replay_balances sha c)) \<and>
    dget_or (projr (fst (replay_balances sha c))) a 0 = sum_list (map (row_credit a) (main_objs c))"
proof -
  obtain evs where e: "rows_are sha evs c" "fresh_ok sha evs c" "hashes_distinct sha evs" "main_objs c = built sha ZERO_HASH evs"
    using reachable_rows [OF assms] by blast
  obtain b where b: "balance_rows (map JObj (built sha ZERO_HASH evs)) [] = Inr b"
      "\<forall>a. dget_or b a 0 = dget_or [] a (0::int) + sum_list (map (row_credit a) (built sha ZERO_HASH evs))"
    using balance_built by blast
  obtain c1 where v: "verify_integrity sha c = (Inr (Intact (length evs) (head_after sha ZERO_HASH evs)), c1)"
      "rows_are sha evs c1"
    using verify_built [OF e(1,2) assms(3)] by (metis prod.collapse)
  have "fst (replay_balances sha c) = Inr b"
    using v b(1) verify_main [of sha c] rows_read [OF v(2)] assms(3) by (simp add: replay_balances_def whole_rows_def)
  then show ?thesis using v(1) b(2) e(4) last_hash_rows [OF e(1)] by (simp add: dget_or_def)
qed

theorem credit_balances_sum_witness:
  "dget_or (projr (fst (replay_balances (\<lambda>_. ''h'') (crashed_files (\<lambda>_. ''h''))))) ''a'' 0 = 5"
  using credit_balances_sum [OF crashed_reachable crashed_distinct crashed_whole, of "''a''"]
  by (simp add: crashed_objs row_credit_made demo_event_def)

text \<open>
  A row with the character U+0085, which an append writes without complaint, is never read again: from then on
  the rows cannot be verified and no balance can be replayed.\<close>

lemma credit_line_break_blocks:
  assumes "\<not> whole_rows c"
  shows "\<exists>e. read_rows c = Inl e \<and> verify_integrity sha c = (Inl (CreditPy e), c) \<and> replay_balances sha c = (Inl (CreditPy e), c)"
proof -
  have "\<exists>e. emap read_line ls = Inl e" if "\<not> list_all line_whole ls" for ls
    using that
  proof (induction ls)
    case (Cons l ls)
    then show ?case by (cases "read_line l") (auto simp: read_line_def)
  qed simp
  then obtain e where "read_rows c = Inl e" using assms by (auto simp: read_rows_def whole_rows_def)
  then show ?thesis by (simp add: verify_integrity_def replay_balances_def)
qed

end
