(* ===== verification/Amendment.thy ===== *)
theory Amendment
  imports Complex_Main ExceptionTokens
begin

text \<open>
  \<open>runtime/governance/constitutional_amendment.py\<close>: signed, time-bounded relaxations of one rule
  for one capability, kept as rows of the file the exception tokens are kept in. An amendment is a
  record, the engine is its ledger file, and a method that changes the amendment object it is given
  returns the changed record beside the file. A float of a lineage projection is the rational number
  it denotes and \<open>fj\<close> is the JSON value it is written as; SHA-256 and the clock readings are
  parameters. File writes succeed.
\<close>

section \<open>Constants and data\<close>

definition NON_AMENDABLE_RULES :: "string list" where
  "NON_AMENDABLE_RULES = [''AST-SAFE-0'', ''AST-IMPORT-0'', ''SANDBOX-DIV-0'', ''SEMANTIC-INT-0'']"

definition AMENDABLE_RULES :: "string list" where
  "AMENDABLE_RULES = [''AST-COMPLEX-0'']"

definition TIER_0_CAPABILITIES :: "string list" where
  "TIER_0_CAPABILITIES =
     [''ConstitutionEnforcement'', ''DeterministicReplay'', ''LedgerEvidence'', ''GovernanceGate'']"

datatype amendment_status = PENDING | ACTIVE | EXPIRED | REVOKED | RESOLVED_BENEFIT | RESOLVED_REVERTED

fun status_value :: "amendment_status \<Rightarrow> string" where
  "status_value PENDING = ''PENDING''"
| "status_value ACTIVE = ''ACTIVE''"
| "status_value EXPIRED = ''EXPIRED''"
| "status_value REVOKED = ''REVOKED''"
| "status_value RESOLVED_BENEFIT = ''RESOLVED_AS_BENEFICIAL''"
| "status_value RESOLVED_REVERTED = ''RESOLVED_AS_REVERTED''"

text \<open>An element of a lineage projection: a float, or anything else.\<close>

datatype projected = PFloat rat | POther json

record amendment =
  am_id :: string
  am_capability :: string
  am_rule :: string
  am_justification :: string
  am_projection :: "projected list"
  am_duration :: int
  am_fingerprint :: string
  am_approval_ref :: string
  am_granted_at :: string
  am_expires_at :: int
  am_status :: amendment_status
  am_covered :: "string list"
  am_notes :: string

datatype amend_error =
    AmendScope
  | AmendTier0
  | AmendTtl
  | HumanRequired
  | ProjectionRange
  | ProjectionEmpty
  | ProjectionFlat

definition am_token_id :: "(string \<Rightarrow> string) \<Rightarrow> amendment \<Rightarrow> string" where
  "am_token_id sha a =
     (let scope = take 16 (sha (am_capability a @ '':'' @ am_rule a))
      in sha (am_granted_at a @ am_capability a @ am_rule a @ scope))"

definition am_is_active :: "int \<Rightarrow> amendment \<Rightarrow> bool" where
  "am_is_active now a \<longleftrightarrow> am_status a = ACTIVE \<and> now < am_expires_at a"

definition am_is_expired :: "int \<Rightarrow> amendment \<Rightarrow> bool" where
  "am_is_expired now a \<longleftrightarrow> am_expires_at a \<le> now"

section \<open>Validation\<close>

fun unit_float :: "projected \<Rightarrow> bool" where
  "unit_float (PFloat q) = (0 \<le> q \<and> q \<le> 1)"
| "unit_float (POther v) = False"

text \<open>\<open>projection[-1] <= projection[0]\<close>, reached only when every element is a float.\<close>

fun no_gain :: "projected list \<Rightarrow> bool" where
  "no_gain ps =
     (case (hd ps, last ps) of (PFloat p, PFloat q) \<Rightarrow> q \<le> p | _ \<Rightarrow> False)"

definition am_validate :: "amendment \<Rightarrow> amend_error + unit" where
  "am_validate a =
     (if am_rule a \<notin> set AMENDABLE_RULES then Inl AmendScope
      else if am_capability a \<in> set TIER_0_CAPABILITIES then Inl AmendTier0
      else if \<not> (1 \<le> am_duration a \<and> am_duration a \<le> 3) then Inl AmendTtl
      else if am_fingerprint a = [] \<or> am_approval_ref a = [] then Inl HumanRequired
      else if \<not> list_all unit_float (am_projection a) then Inl ProjectionRange
      else if am_projection a = [] then Inl ProjectionEmpty
      else if no_gain (am_projection a) then Inl ProjectionFlat
      else Inr ())"

section \<open>Rows of the ledger\<close>

fun projected_json :: "(rat \<Rightarrow> json) \<Rightarrow> projected \<Rightarrow> json" where
  "projected_json fj (PFloat q) = fj q"
| "projected_json fj (POther v) = v"

definition am_to_dict :: "(string \<Rightarrow> string) \<Rightarrow> (rat \<Rightarrow> json) \<Rightarrow> amendment \<Rightarrow> obj" where
  "am_to_dict sha fj a =
     [(''amendment_id'', JStr (am_id a)), (''token_id'', JStr (am_token_id sha a)),
      (''capability_name'', JStr (am_capability a)), (''rule_id'', JStr (am_rule a)),
      (''justification'', JStr (am_justification a)),
      (''lineage_projection'', JList (map (projected_json fj) (am_projection a))),
      (''duration_epochs'', JInt (am_duration a)), (''human_key_fingerprint'', JStr (am_fingerprint a)),
      (''human_approval_ref'', JStr (am_approval_ref a)), (''granted_at_epoch'', JStr (am_granted_at a)),
      (''expires_at_epoch'', JInt (am_expires_at a)), (''status'', JStr (status_value (am_status a))),
      (''mutations_covered'', JList (map JStr (am_covered a))), (''resolution_notes'', JStr (am_notes a))]"

definition created_row :: "(string \<Rightarrow> string) \<Rightarrow> (rat \<Rightarrow> json) \<Rightarrow> string \<Rightarrow> amendment \<Rightarrow> obj" where
  "created_row sha fj written a =
     am_to_dict sha fj a @ [(''event'', JStr ''AMENDMENT_CREATED''), (''written_at'', JStr written)]"

definition append_to_ledger ::
  "(string \<Rightarrow> string) \<Rightarrow> (rat \<Rightarrow> json) \<Rightarrow> string \<Rightarrow> amendment \<Rightarrow> jsonl \<Rightarrow> jsonl" where
  "append_to_ledger sha fj written a f = append_line (JObj (created_row sha fj written a)) f"

definition update_row :: "(string \<Rightarrow> string) \<Rightarrow> string \<Rightarrow> amendment \<Rightarrow> string \<Rightarrow> obj" where
  "update_row sha written a notes =
     [(''amendment_id'', JStr (am_id a)), (''token_id'', JStr (am_token_id sha a)),
      (''status'', JStr (status_value (am_status a))), (''notes'', JStr notes),
      (''event'', JStr ''AMENDMENT_STATUS_UPDATE''), (''written_at'', JStr written)]"

definition append_status_update ::
  "(string \<Rightarrow> string) \<Rightarrow> string \<Rightarrow> amendment \<Rightarrow> string \<Rightarrow> jsonl \<Rightarrow> jsonl" where
  "append_status_update sha written a notes f = append_line (JObj (update_row sha written a notes)) f"

definition load_ledger :: "jsonl \<Rightarrow> json list" where
  "load_ledger f = parsed (file_lines f)"

section \<open>The engine\<close>

definition generate_amendment_id ::
  "(string \<Rightarrow> string) \<Rightarrow> string \<Rightarrow> string \<Rightarrow> string \<Rightarrow> string \<Rightarrow> string" where
  "generate_amendment_id sha now epoch cap rule =
     take 32 (sha (epoch @ '':'' @ cap @ '':'' @ rule @ '':'' @ now))"

record amend_request =
  rq_capability :: string
  rq_rule :: string
  rq_justification :: string
  rq_projection :: "projected list"
  rq_duration :: int
  rq_fingerprint :: string
  rq_approval_ref :: string
  rq_epoch :: string
  rq_count :: int

definition requested :: "(string \<Rightarrow> string) \<Rightarrow> string \<Rightarrow> amend_request \<Rightarrow> amendment" where
  "requested sha now q =
     \<lparr>am_id = generate_amendment_id sha now (rq_epoch q) (rq_capability q) (rq_rule q),
      am_capability = rq_capability q, am_rule = rq_rule q, am_justification = rq_justification q,
      am_projection = rq_projection q, am_duration = rq_duration q, am_fingerprint = rq_fingerprint q,
      am_approval_ref = rq_approval_ref q, am_granted_at = rq_epoch q,
      am_expires_at = rq_count q + rq_duration q, am_status = ACTIVE, am_covered = [], am_notes = []\<rparr>"

definition request_amendment ::
  "(string \<Rightarrow> string) \<Rightarrow> (rat \<Rightarrow> json) \<Rightarrow> string \<Rightarrow> string \<Rightarrow> amend_request \<Rightarrow> jsonl \<Rightarrow>
   (amend_error + amendment) \<times> jsonl" where
  "request_amendment sha fj now written q f =
     (let a = requested sha now q
      in case am_validate a of
           Inl e \<Rightarrow> (Inl e, f)
         | Inr u \<Rightarrow> (Inr a, append_to_ledger sha fj written a f))"

definition am_revoke ::
  "(string \<Rightarrow> string) \<Rightarrow> string \<Rightarrow> amendment \<Rightarrow> string \<Rightarrow> jsonl \<Rightarrow> amendment \<times> jsonl" where
  "am_revoke sha written a trigger f =
     (let a' = a\<lparr>am_status := REVOKED, am_notes := ''AUTO-REVOKED: '' @ trigger\<rparr>
      in (a', append_status_update sha written a' (''REVOKED: '' @ trigger) f))"

definition record_mutation_under_amendment ::
  "(string \<Rightarrow> string) \<Rightarrow> string \<Rightarrow> amendment \<Rightarrow> string \<Rightarrow> int \<Rightarrow> jsonl \<Rightarrow> amendment \<times> jsonl" where
  "record_mutation_under_amendment sha written a mid now f =
     (if am_is_expired now a then am_revoke sha written a (''TTL expired at epoch '' @ int_str now) f
      else
        let a' = a\<lparr>am_covered := am_covered a @ [mid]\<rparr>
        in (a', append_status_update sha written a' (''Mutation '' @ mid @ '' covered.'') f))"

definition am_resolve ::
  "(string \<Rightarrow> string) \<Rightarrow> string \<Rightarrow> amendment \<Rightarrow> bool \<Rightarrow> string \<Rightarrow> jsonl \<Rightarrow> amendment \<times> jsonl" where
  "am_resolve sha written a beneficial note f =
     (let a' = a\<lparr>am_status := (if beneficial then RESOLVED_BENEFIT else RESOLVED_REVERTED), am_notes := note\<rparr>
      in (a', append_status_update sha written a' note f))"

text \<open>
  \<open>get_active_amendments\<close>: the rows from the last to the first, the first row met for an id
  decides. A row that is not an object has no \<open>get\<close>, a list or a dictionary as an id cannot be
  looked up in a set, and only numbers compare with an integer; as an element of a set \<open>True\<close> is 1.
\<close>

fun set_key :: "json \<Rightarrow> json res" where
  "set_key (JBool b) = Inr (JInt (if b then 1 else 0))"
| "set_key (JList xs) = Inl TypeError"
| "set_key (JObj kvs) = Inl TypeError"
| "set_key v = Inr v"

fun number :: "json \<Rightarrow> int res" where
  "number (JInt i) = Inr i"
| "number (JBool b) = Inr (if b then 1 else 0)"
| "number _ = Inl TypeError"

definition row_expiry :: "obj \<Rightarrow> int res" where
  "row_expiry d = number (dget_or d ''expires_at_epoch'' (JInt 0))"

definition row_active :: "int \<Rightarrow> obj \<Rightarrow> bool res" where
  "row_active now d =
     (if dget d ''status'' = Some (JStr (status_value ACTIVE))
      then ebind (row_expiry d) (\<lambda>e. Inr (now < e)) else Inr False)"

fun active_walk :: "int \<Rightarrow> json list \<Rightarrow> json list \<Rightarrow> obj list res" where
  "active_walk now seen [] = Inr []"
| "active_walk now seen (r # rs) =
     ebind (as_obj r) (\<lambda>d.
     ebind (set_key (dget_or d ''amendment_id'' JNull)) (\<lambda>k.
       if k \<in> set seen then active_walk now seen rs
       else
         ebind (row_active now d) (\<lambda>act.
         ebind (active_walk now (k # seen) rs) (\<lambda>ds. Inr (if act then d # ds else ds)))))"

definition get_active_amendments :: "int \<Rightarrow> jsonl \<Rightarrow> obj list res" where
  "get_active_amendments now f = active_walk now [] (rev (load_ledger f))"

text \<open>
  \<open>_dict_to_amendment\<close>; a field of a type no row of the engine has is a \<open>TypeError\<close> here.
\<close>

definition text_field :: "obj \<Rightarrow> string \<Rightarrow> string \<Rightarrow> string res" where
  "text_field d k dflt = need_str (dget_or d k (JStr dflt))"

definition status_of :: "string \<Rightarrow> amendment_status res" where
  "status_of s =
     (case find (\<lambda>st. status_value st = s)
        [PENDING, ACTIVE, EXPIRED, REVOKED, RESOLVED_BENEFIT, RESOLVED_REVERTED] of
        None \<Rightarrow> Inl (ValueError ''AmendmentStatus'')
      | Some st \<Rightarrow> Inr st)"

definition dict_to_amendment :: "json \<Rightarrow> obj \<Rightarrow> amendment res" where
  "dict_to_amendment zeros d =
     ebind (ebind (need d ''amendment_id'') need_str) (\<lambda>aid.
     ebind (ebind (need d ''capability_name'') need_str) (\<lambda>cap.
     ebind (ebind (need d ''rule_id'') need_str) (\<lambda>rule.
     ebind (text_field d ''justification'' []) (\<lambda>just.
     ebind (py_list (dget_or d ''lineage_projection'' zeros)) (\<lambda>proj.
     ebind (number (dget_or d ''duration_epochs'' (JInt 1))) (\<lambda>dur.
     ebind (text_field d ''human_key_fingerprint'' []) (\<lambda>finger.
     ebind (text_field d ''human_approval_ref'' []) (\<lambda>ref.
     ebind (text_field d ''granted_at_epoch'' []) (\<lambda>granted.
     ebind (row_expiry d) (\<lambda>expires.
     ebind (ebind (text_field d ''status'' ''ACTIVE'') status_of) (\<lambda>st.
     ebind (ebind (py_list (dget_or d ''mutations_covered'' (JList []))) (emap need_str)) (\<lambda>covered.
     ebind (text_field d ''resolution_notes'' []) (\<lambda>note.
       Inr \<lparr>am_id = aid, am_capability = cap, am_rule = rule, am_justification = just,
            am_projection = map POther proj, am_duration = dur, am_fingerprint = finger,
            am_approval_ref = ref, am_granted_at = granted, am_expires_at = expires,
            am_status = st, am_covered = covered, am_notes = note\<rparr>)))))))))))))"

fun expire_rows ::
  "(string \<Rightarrow> string) \<Rightarrow> (rat \<Rightarrow> json) \<Rightarrow> string \<Rightarrow> int \<Rightarrow> obj list \<Rightarrow> jsonl \<Rightarrow> string list res \<times> jsonl"
where
  "expire_rows sha fj written now [] f = (Inr [], f)"
| "expire_rows sha fj written now (d # ds) f =
     ethen (row_expiry d, f) (\<lambda>e f.
       if e \<le> now then
         ethen (dict_to_amendment (JList [fj 0, fj 0, fj 0]) d, f) (\<lambda>a f.
           let note = ''TTL elapsed at epoch '' @ int_str now @ ''. Requires human reconciliation.'';
               a' = a\<lparr>am_status := EXPIRED, am_notes := note\<rparr>
           in ethen (expire_rows sha fj written now ds (append_status_update sha written a' note f)) (\<lambda>ids f.
                (Inr (am_id a # ids), f)))
       else expire_rows sha fj written now ds f)"

definition check_expired_amendments ::
  "(string \<Rightarrow> string) \<Rightarrow> (rat \<Rightarrow> json) \<Rightarrow> string \<Rightarrow> int \<Rightarrow> jsonl \<Rightarrow> string list res \<times> jsonl" where
  "check_expired_amendments sha fj written now f =
     ethen (get_active_amendments now f, f) (expire_rows sha fj written now)"

section \<open>What a status update does to the walk\<close>

lemma status_value_inj [simp]: "status_value s = status_value t \<longleftrightarrow> s = t"
  by (cases s; cases t) auto

lemma created_row_fields [simp]:
  "dget (created_row sha fj w a) ''amendment_id'' = Some (JStr (am_id a))"
  "dget (created_row sha fj w a) ''status'' = Some (JStr (status_value (am_status a)))"
  "dget (created_row sha fj w a) ''expires_at_epoch'' = Some (JInt (am_expires_at a))"
  "dget (created_row sha fj w a) ''event'' = Some (JStr ''AMENDMENT_CREATED'')"
  by (simp_all add: created_row_def am_to_dict_def)

lemma update_row_fields [simp]:
  "dget (update_row sha w a n) ''amendment_id'' = Some (JStr (am_id a))"
  "dget (update_row sha w a n) ''status'' = Some (JStr (status_value (am_status a)))"
  "dget (update_row sha w a n) ''expires_at_epoch'' = None"
  "dget (update_row sha w a n) ''event'' = Some (JStr ''AMENDMENT_STATUS_UPDATE'')"
  by (simp_all add: update_row_def)

lemma load_ledger_append [simp]: "load_ledger (append_line v f) = load_ledger f @ [v]"
  by (simp add: load_ledger_def)

lemma no_expiry_inactive:
  "dget d ''expires_at_epoch'' = None \<Longrightarrow> 0 \<le> now \<Longrightarrow> row_active now d = Inr False"
  by (simp add: row_active_def row_expiry_def dget_or_def)

lemma no_status_inactive: "dget d ''status'' = None \<Longrightarrow> row_active now d = Inr False"
  by (simp add: row_active_def)

lemma walk_member:
  "active_walk now seen rs = Inr ds \<Longrightarrow> d \<in> set ds \<Longrightarrow> JObj d \<in> set rs \<and> row_active now d = Inr True"
proof (induction rs arbitrary: seen ds)
  case (Cons r rs)
  then obtain d' k where d': "r = JObj d'" and k: "set_key (dget_or d' ''amendment_id'' JNull) = Inr k"
    by auto
  show ?case
  proof (cases "k \<in> set seen")
    case True
    then show ?thesis using Cons d' k by auto
  next
    case False
    then obtain b es where b: "row_active now d' = Inr b" and es: "active_walk now (k # seen) rs = Inr es"
      and ds: "ds = (if b then d' # es else es)"
      using Cons.prems(1) d' k by auto
    show ?thesis using Cons.IH [OF es] Cons.prems(2) b ds d' by (cases b) auto
  qed
qed simp

lemma walk_seen:
  "active_walk now seen rs = Inr ds \<Longrightarrow> k \<in> set seen \<Longrightarrow> d \<in> set ds \<Longrightarrow>
   set_key (dget_or d ''amendment_id'' JNull) \<noteq> Inr k"
proof (induction rs arbitrary: seen ds)
  case (Cons r rs)
  then obtain d' k' where d': "r = JObj d'" and k': "set_key (dget_or d' ''amendment_id'' JNull) = Inr k'"
    by auto
  show ?case
  proof (cases "k' \<in> set seen")
    case True
    then show ?thesis using Cons d' k' by auto
  next
    case False
    then obtain b es where es: "active_walk now (k' # seen) rs = Inr es"
      and ds: "ds = (if b then d' # es else es)"
      using Cons.prems(1) d' k' by auto
    show ?thesis
    proof (cases "d \<in> set es")
      case True
      then show ?thesis using Cons.IH [OF es] Cons.prems(2) by simp
    next
      case d: False
      then have "d = d'" using Cons.prems(3) ds by (cases b) auto
      then show ?thesis using k' False Cons.prems(2) by auto
    qed
  qed
qed simp

text \<open>The row appended last decides for its id, and an update row has no expiry to be active by.\<close>

lemma update_deactivates:
  assumes "get_active_amendments now (append_status_update sha w a n f) = Inr ds" "0 \<le> now" "d \<in> set ds"
  shows "dget d ''amendment_id'' \<noteq> Some (JStr (am_id a))"
proof -
  have "row_active now (update_row sha w a n) = Inr False"
    by (rule no_expiry_inactive) (simp_all add: assms(2))
  moreover have "set_key (dget_or (update_row sha w a n) ''amendment_id'' JNull) = Inr (JStr (am_id a))"
    by (simp add: dget_or_def)
  ultimately have "active_walk now [JStr (am_id a)] (rev (load_ledger f)) = Inr ds"
    using assms(1) by (simp add: get_active_amendments_def append_status_update_def del: update_row_fields)
  from walk_seen [OF this _ assms(3), of "JStr (am_id a)"] show ?thesis
    by (auto simp: dget_or_def)
qed

lemma expire_none:
  "\<forall>d \<in> set ds. row_active now d = Inr True \<Longrightarrow> expire_rows sha fj w now ds f = (Inr [], f)"
proof (induction ds)
  case (Cons d ds)
  then obtain e where "row_expiry d = Inr e" "now < e"
    by (auto simp: row_active_def split: if_splits)
  then show ?case using Cons by simp
qed simp

section \<open>Reachable ledgers\<close>

text \<open>
  The ledger under the engine's operations, called in any order and with any amendment object, with
  the list of the requests that were accepted. A row that carries no status may come from another
  writer of the file, as the rows of the exception-token ledger do.
\<close>

inductive am_reachable ::
  "(string \<Rightarrow> string) \<Rightarrow> (rat \<Rightarrow> json) \<Rightarrow> (amend_request \<times> amendment) list \<Rightarrow> jsonl \<Rightarrow> bool"
  for sha fj where
  fresh: "am_reachable sha fj [] None"
| request: "am_reachable sha fj reqs f \<Longrightarrow> request_amendment sha fj now w q f = (Inr a, f') \<Longrightarrow>
    am_reachable sha fj ((q, a) # reqs) f'"
| record_mutation: "am_reachable sha fj reqs f \<Longrightarrow>
    record_mutation_under_amendment sha w a mid now f = (a', f') \<Longrightarrow> am_reachable sha fj reqs f'"
| revoke: "am_reachable sha fj reqs f \<Longrightarrow> am_revoke sha w a trigger f = (a', f') \<Longrightarrow> am_reachable sha fj reqs f'"
| resolve: "am_reachable sha fj reqs f \<Longrightarrow> am_resolve sha w a b n f = (a', f') \<Longrightarrow> am_reachable sha fj reqs f'"
| check_expired: "am_reachable sha fj reqs f \<Longrightarrow>
    check_expired_amendments sha fj w now f = (r, f') \<Longrightarrow> am_reachable sha fj reqs f'"
| other_writer: "am_reachable sha fj reqs f \<Longrightarrow> dget d ''status'' = None \<Longrightarrow>
    am_reachable sha fj reqs (append_line (JObj d) f)"

definition granted_row ::
  "(string \<Rightarrow> string) \<Rightarrow> (rat \<Rightarrow> json) \<Rightarrow> (amend_request \<times> amendment) list \<Rightarrow> obj \<Rightarrow> bool" where
  "granted_row sha fj reqs d \<longleftrightarrow>
     (\<exists>q a w. (q, a) \<in> set reqs \<and> d = created_row sha fj w a \<and> am_validate a = Inr () \<and>
              am_expires_at a = rq_count q + am_duration a)"

definition rows_accounted ::
  "(string \<Rightarrow> string) \<Rightarrow> (rat \<Rightarrow> json) \<Rightarrow> (amend_request \<times> amendment) list \<Rightarrow> jsonl \<Rightarrow> bool" where
  "rows_accounted sha fj reqs f \<longleftrightarrow>
     (\<forall>v \<in> set (load_ledger f). \<exists>d. v = JObj d \<and>
        (dget d ''status'' = None \<or> dget d ''expires_at_epoch'' = None \<or> granted_row sha fj reqs d))"

lemma rows_accounted_plain:
  "rows_accounted sha fj reqs f \<Longrightarrow>
   dget d ''status'' = None \<or> dget d ''expires_at_epoch'' = None \<Longrightarrow>
   rows_accounted sha fj reqs (append_line (JObj d) f)"
  by (auto simp: rows_accounted_def)

lemma rows_accounted_granted:
  "rows_accounted sha fj reqs f \<Longrightarrow> granted_row sha fj (x # reqs) d \<Longrightarrow>
   rows_accounted sha fj (x # reqs) (append_line (JObj d) f)"
  unfolding rows_accounted_def granted_row_def by simp blast

lemma check_expired_is_get:
  "check_expired_amendments sha fj w now f =
     (ebind (get_active_amendments now f) (\<lambda>ds. Inr []), f)"
proof (cases "get_active_amendments now f")
  case (Inr ds)
  then have "\<forall>d \<in> set ds. row_active now d = Inr True"
    unfolding get_active_amendments_def by (auto dest: walk_member)
  then show ?thesis using Inr by (simp add: check_expired_amendments_def expire_none)
qed (simp add: check_expired_amendments_def)

lemma rows_accounted_update:
  "rows_accounted sha fj reqs f \<Longrightarrow> rows_accounted sha fj reqs (append_status_update sha w a n f)"
  unfolding append_status_update_def by (rule rows_accounted_plain) simp_all

lemma reachable_rows_accounted: "am_reachable sha fj reqs f \<Longrightarrow> rows_accounted sha fj reqs f"
proof (induction rule: am_reachable.induct)
  case fresh
  then show ?case by (simp add: rows_accounted_def load_ledger_def)
next
  case (request reqs f now w q a f')
  have a: "a = requested sha now q" and v: "am_validate a = Inr ()"
    and f': "f' = append_line (JObj (created_row sha fj w a)) f"
    using request.hyps(2)
    by (auto simp: request_amendment_def append_to_ledger_def Let_def split: sum.splits)
  have "granted_row sha fj ((q, a) # reqs) (created_row sha fj w a)"
    unfolding granted_row_def
    by (rule exI [of _ q], rule exI [of _ a], rule exI [of _ w]) (simp add: v, simp add: a requested_def)
  then show ?case unfolding f' by (rule rows_accounted_granted [OF request.IH])
next
  case (record_mutation reqs f w a mid now a' f')
  then show ?case
    by (auto simp: record_mutation_under_amendment_def am_revoke_def Let_def rows_accounted_update split: if_splits)
next
  case (other_writer reqs f d)
  then show ?case by (simp add: rows_accounted_plain)
qed (auto simp: am_revoke_def am_resolve_def Let_def rows_accounted_update check_expired_is_get)

section \<open>The exception tokens in the same file\<close>

lemma load_rows_append: "load_rows (rs @ qs) ts = ebind (load_rows rs ts) (load_rows qs)"
proof (induction rs arbitrary: ts)
  case (Cons r rs)
  then show ?case by (cases "load_row r ts") auto
qed simp

definition other_event :: "json \<Rightarrow> bool" where
  "other_event v \<longleftrightarrow> (\<exists>d e. v = JObj d \<and> dget d ''event'' = Some (JStr e) \<and> e \<noteq> ''granted'' \<and> e \<noteq> ''revoked'')"

lemma load_rows_other: "other_event v \<Longrightarrow> load_rows (rs @ [v]) ts = load_rows rs ts"
proof -
  assume "other_event v"
  then have "load_row v us = Inr us" for us by (auto simp: other_event_def load_row_def)
  then show ?thesis by (cases "load_rows rs ts") (simp_all add: load_rows_append)
qed

lemma other_event_rows [simp]:
  "other_event (JObj (created_row sha fj w a))" "other_event (JObj (update_row sha w a n))"
  by (simp_all add: other_event_def)

text \<open>No operation of the amendment engine changes the tokens the token ledger reads from the file.\<close>

lemma tokens_kept:
  "load_rows (parsed (file_lines (append_to_ledger sha fj w a f))) [] = load_rows (parsed (file_lines f)) []"
  "load_rows (parsed (file_lines (append_status_update sha w a n f))) [] = load_rows (parsed (file_lines f)) []"
  by (simp_all add: append_to_ledger_def append_status_update_def load_rows_other)

section \<open>Properties\<close>

text \<open>
  C29 (safety): in every reachable ledger, a row that is reported as an active amendment at epoch
  \<open>now\<close> is the row of an accepted request for an amendable rule and a capability outside tier 0,
  with a non-empty key fingerprint and approval reference and a projection that ends above its
  start, made less than three epochs earlier; nothing else relaxes a rule.\<close>

theorem amendment_relief_bounded:
  assumes "am_reachable sha fj reqs f" "0 \<le> now" "get_active_amendments now f = Inr ds" "d \<in> set ds"
  shows "\<exists>q a w. (q, a) \<in> set reqs \<and> d = created_row sha fj w a \<and>
    am_rule a \<in> set AMENDABLE_RULES \<and> am_rule a \<notin> set NON_AMENDABLE_RULES \<and>
    am_capability a \<notin> set TIER_0_CAPABILITIES \<and> am_fingerprint a \<noteq> [] \<and> am_approval_ref a \<noteq> [] \<and>
    \<not> no_gain (am_projection a) \<and> now < rq_count q + 3"
proof -
  have d: "JObj d \<in> set (load_ledger f)" "row_active now d = Inr True"
    using walk_member [OF assms(3) [unfolded get_active_amendments_def] assms(4)] by simp_all
  then have "granted_row sha fj reqs d"
    using reachable_rows_accounted [OF assms(1)] no_expiry_inactive [OF _ assms(2), of d] no_status_inactive [of d now]
    by (fastforce simp: rows_accounted_def)
  then obtain q a w where qa: "(q, a) \<in> set reqs" "d = created_row sha fj w a" "am_validate a = Inr ()"
    "am_expires_at a = rq_count q + am_duration a"
    unfolding granted_row_def by blast
  moreover have "now < am_expires_at a"
    using d(2) by (auto simp: qa(2) row_active_def row_expiry_def dget_or_def split: if_splits)
  moreover have "am_rule a \<in> set AMENDABLE_RULES" "am_rule a \<notin> set NON_AMENDABLE_RULES"
    "am_capability a \<notin> set TIER_0_CAPABILITIES" "am_duration a \<le> 3" "am_fingerprint a \<noteq> []"
    "am_approval_ref a \<noteq> []" "\<not> no_gain (am_projection a)"
    using qa(3) by (simp_all add: am_validate_def AMENDABLE_RULES_def NON_AMENDABLE_RULES_def split: if_splits)
  ultimately show ?thesis by (intro exI [of _ q] exI [of _ a] exI [of _ w]) simp
qed

definition demo_amend :: amend_request where
  "demo_amend = \<lparr>rq_capability = ''StrategySelection'', rq_rule = ''AST-COMPLEX-0'', rq_justification = ''refactor'',
     rq_projection = [PFloat (1/2), PFloat (3/4), PFloat 1], rq_duration = 3, rq_fingerprint = ''SHA256:abc'',
     rq_approval_ref = ''HUMAN-1'', rq_epoch = ''epoch_127'', rq_count = 127\<rparr>"

definition demo_json :: "rat \<Rightarrow> json" where
  "demo_json q = JStr ''float''"

lemma demo_accepted:
  "request_amendment id demo_json ''t0'' ''t1'' demo_amend None =
     (Inr (requested id ''t0'' demo_amend), append_to_ledger id demo_json ''t1'' (requested id ''t0'' demo_amend) None)"
  by (simp add: request_amendment_def am_validate_def requested_def demo_amend_def AMENDABLE_RULES_def
      TIER_0_CAPABILITIES_def Let_def)

lemma demo_active:
  "get_active_amendments 129 (append_to_ledger id demo_json ''t1'' (requested id ''t0'' demo_amend) None) =
     Inr [created_row id demo_json ''t1'' (requested id ''t0'' demo_amend)]"
  by (simp add: get_active_amendments_def append_to_ledger_def load_ledger_def append_line_def row_active_def
      row_expiry_def dget_or_def requested_def demo_amend_def)

theorem amendment_relief_bounded_witness:
  "\<exists>q a w. (q, a) \<in> set [(demo_amend, requested id ''t0'' demo_amend)] \<and>
    created_row id demo_json ''t1'' (requested id ''t0'' demo_amend) = created_row id demo_json w a \<and>
    am_rule a \<in> set AMENDABLE_RULES \<and> am_rule a \<notin> set NON_AMENDABLE_RULES \<and>
    am_capability a \<notin> set TIER_0_CAPABILITIES \<and> am_fingerprint a \<noteq> [] \<and> am_approval_ref a \<noteq> [] \<and>
    \<not> no_gain (am_projection a) \<and> 129 < rq_count q + 3"
  by (rule amendment_relief_bounded [OF am_reachable.request [OF am_reachable.fresh demo_accepted] _ demo_active]) simp_all

text \<open>
  The first mutation recorded under a live amendment takes the amendment out of force.
  The object the caller holds is still active, but the update row carries no expiry, so from then on
  no query at a non-negative epoch reports the amendment, whatever the rest of the ledger says.\<close>

theorem amendment_covering_deactivates:
  assumes "am_is_active now a" "record_mutation_under_amendment sha w a mid now f = (a', f')"
  shows "am_is_active now a' \<and> mid \<in> set (am_covered a') \<and>
    (\<forall>later ds. 0 \<le> later \<and> get_active_amendments later f' = Inr ds \<longrightarrow>
      Some (JStr (am_id a)) \<notin> (\<lambda>d. dget d ''amendment_id'') ` set ds)"
proof -
  have "\<not> am_is_expired now a" using assms(1) by (simp add: am_is_active_def am_is_expired_def)
  then have a': "a' = a\<lparr>am_covered := am_covered a @ [mid]\<rparr>"
    and f': "f' = append_status_update sha w a' (''Mutation '' @ mid @ '' covered.'') f"
    using assms(2) by (auto simp: record_mutation_under_amendment_def Let_def)
  have same: "am_id a' = am_id a" by (simp add: a')
  have "Some (JStr (am_id a)) \<notin> (\<lambda>d. dget d ''amendment_id'') ` set ds"
    if "0 \<le> later" "get_active_amendments later f' = Inr ds" for later ds
  proof
    assume "Some (JStr (am_id a)) \<in> (\<lambda>d. dget d ''amendment_id'') ` set ds"
    then obtain d where "d \<in> set ds" "dget d ''amendment_id'' = Some (JStr (am_id a))" by auto
    then show False using update_deactivates [OF that(2) [unfolded f'] that(1)] same by simp
  qed
  then have "\<forall>later ds. 0 \<le> later \<and> get_active_amendments later f' = Inr ds \<longrightarrow>
      Some (JStr (am_id a)) \<notin> (\<lambda>d. dget d ''amendment_id'') ` set ds"
    by blast
  moreover have "am_is_active now a' \<and> mid \<in> set (am_covered a')"
    using assms(1) by (simp add: a' am_is_active_def)
  ultimately show ?thesis by blast
qed

lemma demo_live: "am_is_active 128 (requested id ''t0'' demo_amend)"
  by (simp add: am_is_active_def requested_def demo_amend_def)

definition demo_covered :: "amendment \<times> jsonl" where
  "demo_covered =
     record_mutation_under_amendment id ''t2'' (requested id ''t0'' demo_amend) ''m1'' 128
       (append_to_ledger id demo_json ''t1'' (requested id ''t0'' demo_amend) None)"

lemma demo_walks: "\<exists>ds. get_active_amendments 128 (snd demo_covered) = Inr ds"
  by (simp add: demo_covered_def record_mutation_under_amendment_def am_is_expired_def get_active_amendments_def
      append_status_update_def append_to_ledger_def load_ledger_def append_line_def row_active_def row_expiry_def
      dget_or_def requested_def demo_amend_def Let_def)

theorem amendment_covering_deactivates_witness:
  "am_is_active 128 (fst demo_covered) \<and> ''m1'' \<in> set (am_covered (fst demo_covered)) \<and>
   (\<exists>ds. get_active_amendments 128 (snd demo_covered) = Inr ds \<and>
     Some (JStr (am_id (requested id ''t0'' demo_amend))) \<notin> (\<lambda>d. dget d ''amendment_id'') ` set ds)"
proof -
  have "(0::int) \<le> 128" by simp
  moreover obtain ds where "get_active_amendments 128 (snd demo_covered) = Inr ds" using demo_walks by blast
  ultimately show ?thesis
    using amendment_covering_deactivates [OF demo_live surjective_pairing, where
        sha = id and w = "''t2''" and mid = "''m1''" and f = "append_to_ledger id demo_json ''t1'' (requested id ''t0'' demo_amend) None"]
    unfolding demo_covered_def [symmetric] by blast
qed

text \<open>
  The expiry sweep never expires anything. It looks for lapsed amendments among those
  reported as active, and an active one has not lapsed, so it always leaves the ledger as it was and
  returns the empty list, or the error that reading the ledger raised.\<close>

theorem amendment_sweep_expires_nothing:
  "check_expired_amendments sha fj w now f = (ebind (get_active_amendments now f) (\<lambda>ds. Inr []), f)"
  by (rule check_expired_is_get)

end
