(* ===== verification/Rounding.thy ===== *)
theory Rounding
  imports Complex_Main Prelude "HOL-Library.Log_Nat"
begin

text \<open>
  Rounding of the rational a float denotes: \<open>round(x, n)\<close> is the nearest multiple of ten to the
  minus \<open>n\<close>, a tie going to the even one.
\<close>

definition half_even :: "rat \<Rightarrow> int" where
  "half_even x =
     (let f = \<lfloor>x\<rfloor>; d = x - of_int f
      in if d < 1 / 2 then f else if 1 / 2 < d then f + 1 else if even f then f else f + 1)"

text \<open>A threshold on an even number of ten-thousandths is met from half a unit below it.\<close>

lemma half_even_ge:
  assumes "even k"
  shows "k \<le> half_even x \<longleftrightarrow> of_int k - 1 / 2 \<le> x"
proof -
  define f where "f = \<lfloor>x\<rfloor>"
  have f: "of_int f \<le> x" "x < of_int f + 1" unfolding f_def by linarith+
  have up: "k \<le> f \<longleftrightarrow> of_int k \<le> (of_int f :: rat)" "k \<le> f + 1 \<longleftrightarrow> of_int k \<le> (of_int f + 1 :: rat)"
    "k < f + 1 \<longleftrightarrow> of_int k < (of_int f + 1 :: rat)"
    using of_int_le_iff [of k f, where 'a = rat] of_int_le_iff [of k "f + 1", where 'a = rat]
      of_int_less_iff [of k "f + 1", where 'a = rat] by simp_all
  consider "x - of_int f < 1 / 2" | "1 / 2 < x - of_int f" | "x - of_int f = 1 / 2" by linarith
  then show ?thesis
  proof cases
    case 1
    then have "half_even x = f" by (simp add: half_even_def f_def Let_def)
    moreover have "k \<le> f \<longleftrightarrow> of_int k - 1 / 2 \<le> x"
    proof
      show "of_int k - 1 / 2 \<le> x" if "k \<le> f" using that f(1) up(1) by linarith
      show "k \<le> f" if "of_int k - 1 / 2 \<le> x"
      proof -
        have "of_int k < (of_int f + 1 :: rat)" using that 1 by linarith
        then show ?thesis using up(3) by linarith
      qed
    qed
    ultimately show ?thesis by simp
  next
    case 2
    then have "half_even x = f + 1" by (simp add: half_even_def f_def Let_def)
    moreover have "k \<le> f + 1 \<longleftrightarrow> of_int k - 1 / 2 \<le> x"
    proof
      show "of_int k - 1 / 2 \<le> x" if "k \<le> f + 1" using that 2 up(2) by linarith
      show "k \<le> f + 1" if "of_int k - 1 / 2 \<le> x"
      proof (rule ccontr)
        assume "\<not> k \<le> f + 1"
        then have "of_int (f + 2) \<le> (of_int k :: rat)" by (simp del: of_int_add)
        then show False using that f(2) by simp
      qed
    qed
    ultimately show ?thesis by simp
  next
    case 3
    then have h: "half_even x = (if even f then f else f + 1)" by (simp add: half_even_def f_def Let_def)
    have "of_int k - 1 / 2 \<le> x \<longleftrightarrow> k \<le> f + 1" using 3 up(2) by linarith
    moreover have "k \<le> (if even f then f else f + 1) \<longleftrightarrow> k \<le> f + 1"
      using assms by (cases "even f"; cases "k = f + 1") auto
    ultimately show ?thesis using h by simp
  qed
qed

section \<open>Integers as floats\<close>

text \<open>\<open>float(i)\<close>: the nearest number of 53 significant bits, ties to even; too large integers raise.\<close>

definition FLOAT_LIMIT :: int where
  "FLOAT_LIMIT = 2 ^ 1024 - 2 ^ 970"

definition float_fits :: "int \<Rightarrow> bool" where
  "float_fits i \<longleftrightarrow> \<bar>i\<bar> < FLOAT_LIMIT"

definition nearest_float :: "int \<Rightarrow> int" where
  "nearest_float i =
     (let k = nat (bitlen \<bar>i\<bar> - 53) in if k = 0 then i else half_even (of_int i / 2 ^ k) * 2 ^ k)"

definition py_float_int :: "int \<Rightarrow> rat res" where
  "py_float_int i = (if float_fits i then Inr (of_int (nearest_float i)) else Inl OverflowError)"

text \<open>An integer of up to 53 bits is its float.\<close>

lemma nearest_float_exact:
  assumes "\<bar>i\<bar> < 2 ^ 53"
  shows "nearest_float i = i" "float_fits i"
proof -
  have "bitlen \<bar>i\<bar> \<le> 53"
    using assms bitlen_le_iff_power [of "\<bar>i\<bar>" 53] by simp
  then show "nearest_float i = i" by (simp add: nearest_float_def)
  have "(2 :: int) ^ 53 \<le> FLOAT_LIMIT" by (simp add: FLOAT_LIMIT_def)
  then show "float_fits i" using assms by (simp add: float_fits_def)
qed

lemma half_even_le: "of_int (half_even x) \<le> x + 1 / 2"
  by (simp add: half_even_def Let_def) linarith

lemma nearest_float_fits:
  assumes "float_fits i"
  shows "nearest_float i < FLOAT_LIMIT"
proof (cases "nat (bitlen \<bar>i\<bar> - 53)")
  case 0
  then show ?thesis using assms by (simp add: nearest_float_def float_fits_def)
next
  case (Suc j)
  define h where "h = half_even (of_int i / 2 ^ Suc j)"
  have near: "nearest_float i = h * 2 ^ Suc j" using Suc by (simp add: nearest_float_def h_def)
  have "of_int h \<le> (of_int i / 2 ^ Suc j + 1 / 2 :: rat)" unfolding h_def by (rule half_even_le)
  then have "of_int h * 2 ^ Suc j \<le> (of_int i + 2 ^ j :: rat)" by (simp add: field_simps)
  then have "(of_int (h * 2 ^ Suc j) :: rat) \<le> of_int (i + 2 ^ j)" by simp
  then have le: "h * 2 ^ Suc j \<le> i + 2 ^ j" by (simp only: of_int_le_iff)
  have limit: "\<bar>i\<bar> < 2 ^ 1024 - 2 ^ 970" using assms by (simp only: float_fits_def FLOAT_LIMIT_def)
  have "\<bar>i\<bar> < 2 ^ nat (int (1024 :: nat))" using limit by simp
  then have "bitlen \<bar>i\<bar> \<le> 1024" using bitlen_le_iff_power [of "\<bar>i\<bar>" 1024] by simp
  then have j: "j \<le> 970" using Suc by linarith
  show ?thesis
  proof (cases "j = 970")
    case True
    have "h * 2 ^ Suc j < 2 ^ 53 * 2 ^ Suc j"
      using le limit by (simp add: True)
    then have "h \<le> 2 ^ 53 - 1" by simp
    then have "h * 2 ^ Suc j \<le> (2 ^ 53 - 1) * 2 ^ Suc j" by (rule mult_right_mono) simp
    also have "\<dots> < FLOAT_LIMIT" by (simp add: FLOAT_LIMIT_def True)
    finally show ?thesis by (simp only: near)
  next
    case False
    have "bitlen \<bar>i\<bar> \<le> 53 + int (Suc j)" using Suc by linarith
    then have "\<bar>i\<bar> < 2 ^ (53 + Suc j)"
      using bitlen_le_iff_power [of "\<bar>i\<bar>" "53 + int (Suc j)"] by (simp add: nat_add_distrib)
    also have "(2 :: int) ^ (53 + Suc j) \<le> 2 ^ 1023" using j False by (intro power_increasing) auto
    finally have "i < 2 ^ 1023" by simp
    moreover have "(2 :: int) ^ j \<le> 2 ^ 969" using j False by (intro power_increasing) auto
    moreover have "(2 :: int) ^ 1023 + 2 ^ 969 \<le> FLOAT_LIMIT" by (simp add: FLOAT_LIMIT_def)
    ultimately show ?thesis using le unfolding near by linarith
  qed
qed

end
