(* ===== verification/PhaseGate.thy ===== *)
theory PhaseGate
  imports Rounding Json
begin

text \<open>
  \<open>runtime/governance/phase_transition_gate.py\<close>: the controller that raises the autonomy phase
  one step at a time. The gate object is a record of its mutable phase state, its state file and its
  audit file. A float is the rational number it denotes; \<open>fj\<close> and \<open>fs\<close> give the JSON value
  and the \<open>str\<close> text of a float. Since a rate is rounded to four decimals before it is compared
  with a two-decimal threshold, comparing the decimals gives what comparing the doubles nearest to
  them gives. The display text \<open>description\<close> of a criteria entry is left out, as is the optional
  \<open>audit_writer\<close>, whose result and exceptions the code drops. File writes succeed.
\<close>

section \<open>Levels and criteria\<close>

definition MAX_PHASE :: int where
  "MAX_PHASE = 4"

definition level_label :: "int \<Rightarrow> string" where
  "level_label v =
     (if v = 0 then ''Manual'' else if v = 1 then ''Supervised'' else if v = 2 then ''Constrained''
      else if v = 3 then ''Adaptive'' else ''Governed Autonomous'')"

record gate_criteria =
  gc_target :: int
  gc_min_approved :: int
  gc_min_pass_rate :: rat
  gc_min_lineage :: rat
  gc_chain_intact :: bool
  gc_min_clean :: int

definition PHASE_GATE_CRITERIA :: "(int, gate_criteria) dict" where
  "PHASE_GATE_CRITERIA =
     [(1, \<lparr>gc_target = 1, gc_min_approved = 1, gc_min_pass_rate = 50 / 100, gc_min_lineage = 50 / 100,
           gc_chain_intact = True, gc_min_clean = 1\<rparr>),
      (2, \<lparr>gc_target = 2, gc_min_approved = 5, gc_min_pass_rate = 65 / 100, gc_min_lineage = 70 / 100,
           gc_chain_intact = True, gc_min_clean = 3\<rparr>),
      (3, \<lparr>gc_target = 3, gc_min_approved = 15, gc_min_pass_rate = 87 / 100, gc_min_lineage = 95 / 100,
           gc_chain_intact = True, gc_min_clean = 5\<rparr>),
      (4, \<lparr>gc_target = 4, gc_min_approved = 30, gc_min_pass_rate = 87 / 100, gc_min_lineage = 100 / 100,
           gc_chain_intact = True, gc_min_clean = 10\<rparr>)]"

section \<open>Results, records and state\<close>

record criterion_result =
  cr_name :: string
  cr_passed :: bool
  cr_actual :: json
  cr_required :: json
  cr_detail :: string

record gate_result =
  gr_target :: int
  gr_passed :: bool
  gr_criteria :: "criterion_result list"
  gr_evaluated_at :: string
  gr_operator :: string
  gr_digest :: string

definition failed_criteria :: "gate_result \<Rightarrow> criterion_result list" where
  "failed_criteria r = filter (\<lambda>c. \<not> cr_passed c) (gr_criteria r)"

definition criterion_json :: "criterion_result \<Rightarrow> json" where
  "criterion_json c =
     JObj [(''name'', JStr (cr_name c)), (''passed'', JBool (cr_passed c)), (''actual'', cr_actual c),
           (''required'', cr_required c), (''detail'', JStr (cr_detail c))]"

definition result_payload :: "gate_result \<Rightarrow> json" where
  "result_payload r =
     JObj [(''target_phase'', JInt (gr_target r)), (''gate_passed'', JBool (gr_passed r)),
           (''criteria_results'', JList (map criterion_json (gr_criteria r))),
           (''evaluated_at'', JStr (gr_evaluated_at r)), (''operator_id'', JStr (gr_operator r)),
           (''gate_digest'', JStr (gr_digest r)),
           (''failed_criteria'', JList (map criterion_json (failed_criteria r)))]"

record transition_record =
  tr_from :: int
  tr_to :: int
  tr_passed :: bool
  tr_operator :: string
  tr_timestamp :: string
  tr_digest :: string
  tr_notes :: string

definition record_obj :: "transition_record \<Rightarrow> obj" where
  "record_obj r =
     [(''from_phase'', JInt (tr_from r)), (''to_phase'', JInt (tr_to r)), (''gate_passed'', JBool (tr_passed r)),
      (''operator_id'', JStr (tr_operator r)), (''timestamp'', JStr (tr_timestamp r)),
      (''gate_digest'', JStr (tr_digest r)), (''notes'', JStr (tr_notes r))]"

record phase_state =
  ps_phase :: int
  ps_history :: "json list"
  ps_clean :: int

definition phase_new :: phase_state where
  "phase_new = \<lparr>ps_phase = 0, ps_history = [], ps_clean = 0\<rparr>"

text \<open>\<open>AutonomyLevel(min(current_phase, MAX_PHASE))\<close> rejects a negative phase.\<close>

definition autonomy_level :: "phase_state \<Rightarrow> int res" where
  "autonomy_level s =
     (let v = min (ps_phase s) MAX_PHASE in if v < 0 then Inl (ValueError ''AutonomyLevel'') else Inr v)"

record transition_evidence =
  ev_approved :: int
  ev_pass_rate :: rat
  ev_lineage :: rat
  ev_chain_intact :: bool
  ev_clean :: int
  ev_context :: json

definition evidence_json :: "(rat \<Rightarrow> json) \<Rightarrow> transition_evidence \<Rightarrow> json" where
  "evidence_json fj e =
     JObj [(''approved_mutation_count'', JInt (ev_approved e)), (''mutation_pass_rate'', fj (ev_pass_rate e)),
           (''lineage_completeness'', fj (ev_lineage e)), (''audit_chain_intact'', JBool (ev_chain_intact e)),
           (''consecutive_clean_epochs'', JInt (ev_clean e)), (''additional_context'', ev_context e)]"

datatype phase_error =
    InvalidTarget int
  | PhaseSkip int int
  | NoCriteria int
  | DemoteAbove int int
  | InvalidDemote int

section \<open>Rounding\<close>

text \<open>\<open>round(x, 4)\<close>\<close>

definition round4 :: "rat \<Rightarrow> rat" where
  "round4 x = of_int (half_even (x * 10000)) / 10000"

text \<open>\<open>format(x, '.4f')\<close>\<close>

definition pad4 :: "nat \<Rightarrow> string" where
  "pad4 n = replicate (4 - length (nat_str n)) (CHR ''0'') @ nat_str n"

definition fixed4 :: "rat \<Rightarrow> string" where
  "fixed4 x =
     (let n = nat \<bar>half_even (x * 10000)\<bar>
      in (if x < 0 then ''-'' else []) @ nat_str (n div 10000) @ ''.'' @ pad4 (n mod 10000))"

section \<open>Evaluation\<close>

definition validate_target :: "int \<Rightarrow> int \<Rightarrow> phase_error + unit" where
  "validate_target cur target =
     (if target < 1 \<or> MAX_PHASE < target then Inl (InvalidTarget target)
      else if target \<noteq> cur + 1 then Inl (PhaseSkip cur target)
      else if target \<notin> set (keys PHASE_GATE_CRITERIA) then Inl (NoCriteria target)
      else Inr ())"

definition get_criteria :: "int \<Rightarrow> phase_error + gate_criteria" where
  "get_criteria target =
     (case dget PHASE_GATE_CRITERIA target of None \<Rightarrow> Inl (NoCriteria target) | Some c \<Rightarrow> Inr c)"

fun bool_str :: "bool \<Rightarrow> string" where
  "bool_str True = ''True''"
| "bool_str False = ''False''"

definition evaluate_criteria ::
  "(rat \<Rightarrow> json) \<Rightarrow> (rat \<Rightarrow> string) \<Rightarrow> phase_state \<Rightarrow> gate_criteria \<Rightarrow> transition_evidence \<Rightarrow>
   criterion_result list" where
  "evaluate_criteria fj fs s c e =
     (let clean = max (ev_clean e) (ps_clean s)
      in [\<lparr>cr_name = ''min_approved_mutations'', cr_passed = gc_min_approved c \<le> ev_approved e,
           cr_actual = JInt (ev_approved e), cr_required = JInt (gc_min_approved c),
           cr_detail = ''approved='' @ int_str (ev_approved e) @ '' required='' @ int_str (gc_min_approved c)\<rparr>,
          \<lparr>cr_name = ''min_mutation_pass_rate'', cr_passed = gc_min_pass_rate c \<le> round4 (ev_pass_rate e),
           cr_actual = fj (round4 (ev_pass_rate e)), cr_required = fj (gc_min_pass_rate c),
           cr_detail = ''pass_rate='' @ fixed4 (ev_pass_rate e) @ '' required='' @ fs (gc_min_pass_rate c)\<rparr>,
          \<lparr>cr_name = ''min_lineage_completeness'', cr_passed = gc_min_lineage c \<le> round4 (ev_lineage e),
           cr_actual = fj (round4 (ev_lineage e)), cr_required = fj (gc_min_lineage c),
           cr_detail = ''completeness='' @ fixed4 (ev_lineage e) @ '' required='' @ fs (gc_min_lineage c)\<rparr>,
          \<lparr>cr_name = ''audit_chain_intact'', cr_passed = (ev_chain_intact e = gc_chain_intact c),
           cr_actual = JBool (ev_chain_intact e), cr_required = JBool (gc_chain_intact c),
           cr_detail = ''intact='' @ bool_str (ev_chain_intact e)\<rparr>,
          \<lparr>cr_name = ''min_consecutive_clean_epochs'', cr_passed = gc_min_clean c \<le> clean,
           cr_actual = JInt clean, cr_required = JInt (gc_min_clean c),
           cr_detail = ''clean_epochs='' @ int_str clean @ '' required='' @ int_str (gc_min_clean c)\<rparr>])"

definition compute_gate_digest ::
  "(string \<Rightarrow> string) \<Rightarrow> int \<Rightarrow> int \<Rightarrow> bool \<Rightarrow> string \<Rightarrow> string \<Rightarrow> string" where
  "compute_gate_digest sha cur target passed operator stamp =
     sha (canonical True (JObj
       [(''current_phase'', JInt cur), (''target_phase'', JInt target), (''gate_passed'', JBool passed),
        (''operator_id'', JStr operator), (''evaluated_at'', JStr stamp)]))"

text \<open>What an evaluation takes from its surroundings: SHA-256, the two float texts, the clock.\<close>

record env =
  e_sha :: "string \<Rightarrow> string"
  e_float_json :: "rat \<Rightarrow> json"
  e_float_str :: "rat \<Rightarrow> string"

definition evaluate_gate ::
  "env \<Rightarrow> string \<Rightarrow> phase_state \<Rightarrow> int \<Rightarrow> transition_evidence \<Rightarrow> string \<Rightarrow> phase_error + gate_result" where
  "evaluate_gate v now s target e operator =
     ebind (validate_target (ps_phase s) target) (\<lambda>u.
     ebind (get_criteria target) (\<lambda>c.
       let results = evaluate_criteria (e_float_json v) (e_float_str v) s c e;
           passed = list_all cr_passed results
       in Inr \<lparr>gr_target = target, gr_passed = passed, gr_criteria = results, gr_evaluated_at = now,
               gr_operator = operator,
               gr_digest = compute_gate_digest (e_sha v) (ps_phase s) target passed operator now\<rparr>))"

section \<open>The gate object\<close>

record phase_gate =
  pg_state :: phase_state
  pg_file :: "line option"
  pg_audit :: jsonl

definition state_json :: "phase_state \<Rightarrow> json" where
  "state_json s =
     JObj [(''current_phase'', JInt (ps_phase s)), (''consecutive_clean_epochs'', JInt (ps_clean s)),
           (''transition_history'', JList (ps_history s))]"

definition save_state :: "phase_gate \<Rightarrow> phase_gate" where
  "save_state g = g\<lparr>pg_file := Some (Row (state_json (pg_state g)))\<rparr>"

definition phase_audit :: "string \<Rightarrow> string \<Rightarrow> obj \<Rightarrow> phase_gate \<Rightarrow> phase_gate" where
  "phase_audit now event payload g =
     g\<lparr>pg_audit := append_line
         (JObj [(''event_type'', JStr event), (''timestamp'', JStr now), (''payload'', JObj payload)])
         (pg_audit g)\<rparr>"

text \<open>\<open>_load_state\<close>: a \<open>ValueError\<close> of \<open>int\<close> and an \<open>AttributeError\<close> of a value that is no
  object are not among the exceptions it catches.\<close>

definition read_state :: "line \<Rightarrow> phase_state res" where
  "read_state l =
     ebind (loads l) (\<lambda>v.
     ebind (as_obj v) (\<lambda>d.
     ebind (py_int (dget_or d ''current_phase'' (JInt 0))) (\<lambda>phase.
     ebind (py_int (dget_or d ''consecutive_clean_epochs'' (JInt 0))) (\<lambda>clean.
     ebind (py_list (dget_or d ''transition_history'' (JList []))) (\<lambda>history.
       Inr \<lparr>ps_phase = phase, ps_history = history, ps_clean = clean\<rparr>)))))"

fun load_caught :: "py_error \<Rightarrow> bool" where
  "load_caught JSONDecodeError = True"
| "load_caught (KeyError k) = True"
| "load_caught TypeError = True"
| "load_caught _ = False"

definition load_state :: "line option \<Rightarrow> phase_state res" where
  "load_state f =
     (case f of
        None \<Rightarrow> Inr phase_new
      | Some l \<Rightarrow> (case read_state l of
                     Inr s \<Rightarrow> Inr s
                   | Inl e \<Rightarrow> if load_caught e then Inr phase_new else Inl e))"

definition gate_init :: "line option \<Rightarrow> jsonl \<Rightarrow> phase_gate res" where
  "gate_init f audit =
     ebind (load_state f) (\<lambda>s. Inr \<lparr>pg_state = s, pg_file = f, pg_audit = Some (file_lines audit)\<rparr>)"

definition attempt_transition ::
  "env \<Rightarrow> string \<Rightarrow> string \<Rightarrow> int \<Rightarrow> transition_evidence \<Rightarrow> string \<Rightarrow> string \<Rightarrow> phase_gate \<Rightarrow>
   (phase_error + bool \<times> gate_result) \<times> phase_gate" where
  "attempt_transition v now now' target e operator note g =
     (case evaluate_gate v now (pg_state g) target e operator of
        Inl err \<Rightarrow> (Inl err, g)
      | Inr r \<Rightarrow>
          let rec = \<lparr>tr_from = ps_phase (pg_state g), tr_to = target, tr_passed = gr_passed r,
                     tr_operator = operator, tr_timestamp = gr_evaluated_at r, tr_digest = gr_digest r,
                     tr_notes = note\<rparr>;
              g1 = phase_audit now' ''phase_transition_attempt''
                     (record_obj rec @ [(''criteria_results'', JList (map criterion_json (gr_criteria r))),
                                        (''evidence'', evidence_json (e_float_json v) e)]) g;
              g2 = (if gr_passed r
                    then save_state (g1\<lparr>pg_state := (pg_state g1)
                           \<lparr>ps_phase := target, ps_history := ps_history (pg_state g1) @ [JObj (record_obj rec)]\<rparr>\<rparr>)
                    else g1)
          in (Inr (gr_passed r, r), g2))"

definition record_epoch_outcome :: "bool \<Rightarrow> phase_gate \<Rightarrow> phase_gate" where
  "record_epoch_outcome clean g =
     save_state (g\<lparr>pg_state := (pg_state g)\<lparr>ps_clean := (if clean then ps_clean (pg_state g) + 1 else 0)\<rparr>\<rparr>)"

definition demote_phase ::
  "string \<Rightarrow> string \<Rightarrow> int \<Rightarrow> string \<Rightarrow> string \<Rightarrow> phase_gate \<Rightarrow> (phase_error + unit) \<times> phase_gate" where
  "demote_phase now now' to_phase operator reason g =
     (let cur = ps_phase (pg_state g)
      in if cur < to_phase then (Inl (DemoteAbove to_phase cur), g)
         else if to_phase < 0 then (Inl (InvalidDemote to_phase), g)
         else (Inr (),
           phase_audit now' ''phase_demotion''
             [(''from_phase'', JInt cur), (''to_phase'', JInt to_phase), (''operator_id'', JStr operator),
              (''reason'', JStr reason), (''timestamp'', JStr now)]
             (save_state (g\<lparr>pg_state := (pg_state g)\<lparr>ps_phase := to_phase, ps_clean := 0\<rparr>\<rparr>))))"

definition health_snapshot :: "phase_gate \<Rightarrow> json res" where
  "health_snapshot g =
     ebind (autonomy_level (pg_state g)) (\<lambda>v.
       Inr (JObj
         [(''current_phase'', JInt (ps_phase (pg_state g))), (''autonomy_level'', JInt v),
          (''autonomy_level_label'', JStr (level_label v)),
          (''consecutive_clean_epochs'', JInt (ps_clean (pg_state g))),
          (''transition_count'', JInt (int (length (ps_history (pg_state g))))),
          (''last_transition'', if ps_history (pg_state g) = [] then JNull else last (ps_history (pg_state g)))]))"

section \<open>What rounding does to a threshold\<close>

lemma round4_ge: "even k \<Longrightarrow> of_int k / 10000 \<le> round4 x \<longleftrightarrow> of_int k / 10000 - 1 / 20000 \<le> x"
  using half_even_ge [of k "x * 10000"] by (simp add: round4_def divide_le_cancel) linarith

lemma criteria_keys: "dget PHASE_GATE_CRITERIA t \<noteq> None \<longleftrightarrow> 1 \<le> t \<and> t \<le> 4"
  by (simp add: PHASE_GATE_CRITERIA_def)

lemma criteria_cases:
  assumes "dget PHASE_GATE_CRITERIA t = Some c"
  shows "t = 1 \<and> gc_min_pass_rate c = of_int 5000 / 10000 \<and> gc_min_lineage c = of_int 5000 / 10000 \<and> gc_chain_intact c \<or>
    t = 2 \<and> gc_min_pass_rate c = of_int 6500 / 10000 \<and> gc_min_lineage c = of_int 7000 / 10000 \<and> gc_chain_intact c \<or>
    t = 3 \<and> gc_min_pass_rate c = of_int 8700 / 10000 \<and> gc_min_lineage c = of_int 9500 / 10000 \<and> gc_chain_intact c \<or>
    t = 4 \<and> gc_min_pass_rate c = of_int 8700 / 10000 \<and> gc_min_lineage c = of_int 10000 / 10000 \<and> gc_chain_intact c"
  using assms by (simp add: PHASE_GATE_CRITERIA_def split: if_splits) (hypsubst, simp)+

lemma criteria_even:
  assumes "dget PHASE_GATE_CRITERIA t = Some c"
  obtains m n where "even m" "even n" "gc_min_pass_rate c = of_int m / 10000" "gc_min_lineage c = of_int n / 10000"
    "gc_chain_intact c"
  using criteria_cases [OF assms] that [of 5000 5000] that [of 6500 7000] that [of 8700 9500] that [of 8700 10000]
  by (elim disjE conjE) simp_all

section \<open>What a transition needs\<close>

definition advance_ok :: "phase_state \<Rightarrow> int \<Rightarrow> transition_evidence \<Rightarrow> bool" where
  "advance_ok s target e \<longleftrightarrow>
     target = ps_phase s + 1 \<and>
     (case dget PHASE_GATE_CRITERIA target of
        None \<Rightarrow> False
      | Some c \<Rightarrow>
          gc_min_approved c \<le> ev_approved e \<and>
          gc_min_pass_rate c - 1 / 20000 \<le> ev_pass_rate e \<and> gc_min_lineage c - 1 / 20000 \<le> ev_lineage e \<and>
          ev_chain_intact e \<and> (gc_min_clean c \<le> ev_clean e \<or> gc_min_clean c \<le> ps_clean s))"

lemma criteria_met:
  assumes "dget PHASE_GATE_CRITERIA t = Some c"
  shows "list_all cr_passed (evaluate_criteria fj fs s c e) \<longleftrightarrow>
    gc_min_approved c \<le> ev_approved e \<and>
    gc_min_pass_rate c - 1 / 20000 \<le> ev_pass_rate e \<and> gc_min_lineage c - 1 / 20000 \<le> ev_lineage e \<and>
    ev_chain_intact e \<and> (gc_min_clean c \<le> ev_clean e \<or> gc_min_clean c \<le> ps_clean s)"
proof -
  obtain m n where mn: "even m" "even n"
    "gc_min_pass_rate c = of_int m / 10000" "gc_min_lineage c = of_int n / 10000" "gc_chain_intact c"
    by (rule criteria_even [OF assms])
  show ?thesis
    using round4_ge [OF mn(1)] round4_ge [OF mn(2)] mn(5)
    by (auto simp: evaluate_criteria_def Let_def mn(3,4) le_max_iff_disj)
qed

lemma validate_ok: "validate_target cur t = Inr u \<longleftrightarrow> t = cur + 1 \<and> 1 \<le> t \<and> t \<le> 4"
proof -
  have k: "set (keys PHASE_GATE_CRITERIA) = {1, 2, 3, 4}"
    by (simp add: keys_def PHASE_GATE_CRITERIA_def)
  have "t \<in> set (keys PHASE_GATE_CRITERIA) \<longleftrightarrow> 1 \<le> t \<and> t \<le> 4" unfolding k by auto
  then show ?thesis by (cases "t = cur + 1") (auto simp: validate_target_def MAX_PHASE_def)
qed

text \<open>The record of an attempt, and the state a committed transition leaves.\<close>

definition attempt_record ::
  "env \<Rightarrow> string \<Rightarrow> phase_state \<Rightarrow> bool \<Rightarrow> int \<Rightarrow> string \<Rightarrow> string \<Rightarrow> transition_record" where
  "attempt_record v now s passed target operator note =
     \<lparr>tr_from = ps_phase s, tr_to = target, tr_passed = passed, tr_operator = operator, tr_timestamp = now,
      tr_digest = compute_gate_digest (e_sha v) (ps_phase s) target passed operator now, tr_notes = note\<rparr>"

definition advanced :: "phase_state \<Rightarrow> transition_record \<Rightarrow> phase_state" where
  "advanced s rec = s\<lparr>ps_phase := tr_to rec, ps_history := ps_history s @ [JObj (record_obj rec)]\<rparr>"

lemma evaluate_result:
  "evaluate_gate v now s target e operator =
    (case validate_target (ps_phase s) target of
       Inl err \<Rightarrow> Inl err
     | Inr u \<Rightarrow>
         let results = evaluate_criteria (e_float_json v) (e_float_str v) s
                         (the (dget PHASE_GATE_CRITERIA target)) e;
             passed = advance_ok s target e
         in Inr \<lparr>gr_target = target, gr_passed = passed, gr_criteria = results, gr_evaluated_at = now,
                 gr_operator = operator,
                 gr_digest = compute_gate_digest (e_sha v) (ps_phase s) target passed operator now\<rparr>)"
proof (cases "validate_target (ps_phase s) target")
  case (Inr u)
  then have t: "target = ps_phase s + 1" "1 \<le> target" "target \<le> 4" by (simp_all add: validate_ok)
  then obtain c where c: "dget PHASE_GATE_CRITERIA target = Some c" using criteria_keys [of target] by auto
  have "list_all cr_passed (evaluate_criteria (e_float_json v) (e_float_str v) s c e) = advance_ok s target e"
    using criteria_met [OF c] c t(1) by (simp add: advance_ok_def)
  then show ?thesis using Inr c by (simp add: evaluate_gate_def get_criteria_def Let_def)
qed (simp add: evaluate_gate_def)

lemma advance_ok_valid: "advance_ok s target e \<Longrightarrow> validate_target (ps_phase s) target = Inr ()"
  using criteria_keys [of target]
  by (auto simp: advance_ok_def validate_ok split: option.splits)

definition attempt_rest :: "env \<Rightarrow> phase_state \<Rightarrow> int \<Rightarrow> transition_evidence \<Rightarrow> obj" where
  "attempt_rest v s target e =
     [(''criteria_results'', JList (map criterion_json
         (evaluate_criteria (e_float_json v) (e_float_str v) s (the (dget PHASE_GATE_CRITERIA target)) e))),
      (''evidence'', evidence_json (e_float_json v) e)]"

lemma attempt_refused:
  "validate_target (ps_phase (pg_state g)) target = Inl err \<Longrightarrow>
   attempt_transition v now now' target e operator note g = (Inl err, g)"
  by (simp add: attempt_transition_def evaluate_result)

lemma attempt_made:
  assumes "validate_target (ps_phase (pg_state g)) target = Inr u"
  shows "snd (attempt_transition v now now' target e operator note g) =
    (let b = advance_ok (pg_state g) target e;
         rec = attempt_record v now (pg_state g) b target operator note;
         g1 = phase_audit now' ''phase_transition_attempt'' (record_obj rec @ attempt_rest v (pg_state g) target e) g
     in if b then save_state (g1\<lparr>pg_state := advanced (pg_state g) rec\<rparr>) else g1)"
  using assms
  by (simp add: attempt_transition_def evaluate_result Let_def attempt_record_def attempt_rest_def advanced_def
      phase_audit_def)

text \<open>The audit row of an attempt.\<close>

definition attempt_row :: "string \<Rightarrow> transition_record \<Rightarrow> obj \<Rightarrow> json" where
  "attempt_row now rec rest =
     JObj [(''event_type'', JStr ''phase_transition_attempt''), (''timestamp'', JStr now),
           (''payload'', JObj (record_obj rec @ rest))]"

section \<open>Reachable gates\<close>

text \<open>
  A gate started without a state file, under attempts, epoch outcomes, demotions and restarts of the
  process on the files it left.
\<close>

inductive pg_reachable :: "env \<Rightarrow> phase_gate \<Rightarrow> bool" for v where
  fresh: "gate_init None audit = Inr g \<Longrightarrow> pg_reachable v g"
| attempt: "pg_reachable v g \<Longrightarrow>
    pg_reachable v (snd (attempt_transition v now now' target e operator note g))"
| epoch: "pg_reachable v g \<Longrightarrow> pg_reachable v (record_epoch_outcome clean g)"
| demote: "pg_reachable v g \<Longrightarrow> pg_reachable v (snd (demote_phase now now' to_phase operator reason g))"
| restart: "pg_reachable v g \<Longrightarrow> gate_init (pg_file g) (pg_audit g) = Inr g' \<Longrightarrow> pg_reachable v g'"

definition committed :: "json \<Rightarrow> bool" where
  "committed h \<longleftrightarrow> (\<exists>r. h = JObj (record_obj r) \<and> tr_passed r \<and> tr_to r = tr_from r + 1 \<and> 1 \<le> tr_to r \<and> tr_to r \<le> MAX_PHASE)"

definition state_typed :: "phase_state \<Rightarrow> bool" where
  "state_typed s \<longleftrightarrow> 0 \<le> ps_phase s \<and> ps_phase s \<le> MAX_PHASE \<and> 0 \<le> ps_clean s \<and> list_all committed (ps_history s)"

text \<open>Every level up to the current one was entered by a committed transition, and the audit file has
  the row of that attempt.\<close>

definition climbed :: "phase_state \<Rightarrow> jsonl \<Rightarrow> bool" where
  "climbed s audit \<longleftrightarrow>
     (\<forall>k. 1 \<le> k \<and> k \<le> ps_phase s \<longrightarrow>
        (\<exists>r now rest. tr_to r = k \<and> tr_from r = k - 1 \<and> tr_passed r \<and> JObj (record_obj r) \<in> set (ps_history s) \<and>
                      Row (attempt_row now r rest) \<in> set (file_lines audit)))"

definition saved :: "phase_gate \<Rightarrow> bool" where
  "saved g \<longleftrightarrow> (pg_file g = None \<and> pg_state g = phase_new) \<or> pg_file g = Some (Row (state_json (pg_state g)))"

definition pg_ok :: "phase_gate \<Rightarrow> bool" where
  "pg_ok g \<longleftrightarrow> state_typed (pg_state g) \<and> climbed (pg_state g) (pg_audit g) \<and> saved g"

lemma read_state_json: "read_state (Row (state_json s)) = Inr s"
  by (simp add: read_state_def state_json_def dget_or_def)

lemma saved_restarts:
  "saved g \<Longrightarrow> gate_init (pg_file g) (pg_audit g) = Inr (g\<lparr>pg_audit := Some (file_lines (pg_audit g))\<rparr>)"
  by (auto simp: saved_def gate_init_def load_state_def read_state_json)

lemma saved_save [simp]: "saved (save_state g)"
  by (simp add: saved_def save_state_def)

lemma saved_audit [simp]: "saved (g\<lparr>pg_audit := a\<rparr>) = saved g"
  by (simp add: saved_def)

lemma save_state_fields [simp]:
  "pg_state (save_state g) = pg_state g" "pg_audit (save_state g) = pg_audit g"
  by (simp_all add: save_state_def)

lemma phase_audit_fields [simp]:
  "pg_state (phase_audit now ev p g) = pg_state g" "saved (phase_audit now ev p g) = saved g"
  "file_lines (pg_audit (phase_audit now ev p g)) = file_lines (pg_audit g) @
     [Row (JObj [(''event_type'', JStr ev), (''timestamp'', JStr now), (''payload'', JObj p)])]"
  by (simp_all add: phase_audit_def)

lemma climbed_mono:
  "climbed s a \<Longrightarrow> ps_phase s' \<le> ps_phase s \<Longrightarrow> set (ps_history s) \<subseteq> set (ps_history s') \<Longrightarrow>
   set (file_lines a) \<subseteq> set (file_lines a') \<Longrightarrow> climbed s' a'"
  unfolding climbed_def by (meson order_trans subsetD)

lemma climbed_advance:
  assumes "climbed s a" "tr_from r = ps_phase s" "tr_to r = ps_phase s + 1" "tr_passed r"
    "set (file_lines a) \<subseteq> set (file_lines a')" "Row (attempt_row now r rest) \<in> set (file_lines a')"
  shows "climbed (advanced s r) a'"
  unfolding climbed_def
proof (intro allI impI)
  fix k
  assume k: "1 \<le> k \<and> k \<le> ps_phase (advanced s r)"
  show "\<exists>ra n rs. tr_to ra = k \<and> tr_from ra = k - 1 \<and> tr_passed ra \<and>
      JObj (record_obj ra) \<in> set (ps_history (advanced s r)) \<and> Row (attempt_row n ra rs) \<in> set (file_lines a')"
  proof (cases "k \<le> ps_phase s")
    case True
    then obtain ra n rs where "tr_to ra = k" "tr_from ra = k - 1" "tr_passed ra"
      "JObj (record_obj ra) \<in> set (ps_history s)" "Row (attempt_row n ra rs) \<in> set (file_lines a)"
      using assms(1) k unfolding climbed_def by blast
    then show ?thesis using assms(5) by (intro exI [of _ ra] exI [of _ n] exI [of _ rs]) (auto simp: advanced_def)
  next
    case False
    then have "k = ps_phase s + 1" using k assms(3) by (simp add: advanced_def)
    then show ?thesis
      using assms(2-4,6) by (intro exI [of _ r] exI [of _ now] exI [of _ rest]) (simp add: advanced_def)
  qed
qed

lemma attempt_record_fields [simp]:
  "tr_from (attempt_record v now s b t op n) = ps_phase s" "tr_to (attempt_record v now s b t op n) = t"
  "tr_passed (attempt_record v now s b t op n) = b"
  by (simp_all add: attempt_record_def)

lemma attempt_ok:
  assumes "pg_ok g"
  shows "pg_ok (snd (attempt_transition v now now' target e operator note g))"
proof (cases "validate_target (ps_phase (pg_state g)) target")
  case (Inl err)
  then show ?thesis using assms by (simp add: attempt_refused)
next
  case (Inr u)
  then have t: "target = ps_phase (pg_state g) + 1" "1 \<le> target" "target \<le> MAX_PHASE"
    by (simp_all add: validate_ok MAX_PHASE_def)
  let ?rec = "attempt_record v now (pg_state g) True target operator note"
  have st: "state_typed (pg_state g)" and cl: "climbed (pg_state g) (pg_audit g)" and sv: "saved g"
    using assms by (simp_all add: pg_ok_def)
  have "committed (JObj (record_obj ?rec))"
    unfolding committed_def using t by (intro exI [of _ ?rec]) simp
  then have typed: "state_typed (advanced (pg_state g) ?rec)"
    using st t by (simp add: state_typed_def advanced_def)
  have climb: "climbed (advanced (pg_state g) ?rec) (append_line (attempt_row now' ?rec rest) (pg_audit g))" for rest
    by (rule climbed_advance [OF cl, where now = now' and rest = rest]) (auto simp: t(1))
  have keep: "climbed (pg_state g) (append_line row (pg_audit g))" for row
    by (rule climbed_mono [OF cl]) auto
  show ?thesis
    unfolding attempt_made [OF Inr] Let_def
    using st sv typed climb [unfolded attempt_row_def] keep
    by (simp add: pg_ok_def phase_audit_def)
qed

lemma attempt_state:
  "pg_state (snd (attempt_transition v now now' target e operator note g)) =
     (if advance_ok (pg_state g) target e
      then advanced (pg_state g) (attempt_record v now (pg_state g) True target operator note)
      else pg_state g)"
proof (cases "validate_target (ps_phase (pg_state g)) target")
  case (Inl err)
  then show ?thesis using advance_ok_valid [of "pg_state g" target e] by (auto simp: attempt_refused)
next
  case (Inr u)
  show ?thesis unfolding attempt_made [OF Inr] by (simp add: Let_def)
qed

lemma epoch_ok: "pg_ok g \<Longrightarrow> pg_ok (record_epoch_outcome clean g)"
  by (auto simp: pg_ok_def record_epoch_outcome_def state_typed_def intro: climbed_mono)

lemma demote_ok: "pg_ok g \<Longrightarrow> pg_ok (snd (demote_phase now now' to_phase operator reason g))"
  by (auto simp: pg_ok_def demote_phase_def Let_def state_typed_def intro: climbed_mono)

lemma reachable_pg_ok: "pg_reachable v g \<Longrightarrow> pg_ok g"
proof (induction rule: pg_reachable.induct)
  case (fresh audit g)
  then show ?case
    by (auto simp: gate_init_def load_state_def pg_ok_def saved_def state_typed_def climbed_def phase_new_def MAX_PHASE_def)
next
  case (restart g g')
  then have "g' = g\<lparr>pg_audit := Some (file_lines (pg_audit g))\<rparr>" using saved_restarts [of g] by (simp add: pg_ok_def)
  then show ?case using restart.IH by (simp add: pg_ok_def climbed_def)
qed (simp_all add: attempt_ok epoch_ok demote_ok)

section \<open>Properties\<close>

text \<open>
  The state of every reachable gate is well typed. The phase is between 0 and 4 and has
  an autonomy level, the counter is not negative, every entry of the history is a committed advance
  by one level, and a process that restarts on the files finds exactly this state.\<close>

theorem phase_state_well_typed:
  assumes "pg_reachable v g"
  shows "state_typed (pg_state g) \<and> autonomy_level (pg_state g) = Inr (ps_phase (pg_state g)) \<and>
    load_state (pg_file g) = Inr (pg_state g)"
proof -
  have st: "state_typed (pg_state g)" and sv: "saved g" using reachable_pg_ok [OF assms] by (simp_all add: pg_ok_def)
  have "load_state (pg_file g) = Inr (pg_state g)"
    using sv by (auto simp: saved_def load_state_def read_state_json)
  then show ?thesis using st by (simp add: state_typed_def autonomy_level_def)
qed

definition demo_env :: env where
  "demo_env = \<lparr>e_sha = id, e_float_json = (\<lambda>q. JNull), e_float_str = (\<lambda>q. [])\<rparr>"

definition demo_evidence :: transition_evidence where
  "demo_evidence = \<lparr>ev_approved = 1, ev_pass_rate = 49995 / 100000, ev_lineage = 1, ev_chain_intact = True,
     ev_clean = 1, ev_context = JNull\<rparr>"

definition demo_gate :: phase_gate where
  "demo_gate = \<lparr>pg_state = phase_new, pg_file = None, pg_audit = Some []\<rparr>"

definition demo_raised :: phase_gate where
  "demo_raised = snd (attempt_transition demo_env ''t0'' ''t1'' 1 demo_evidence ''op'' ''go'' demo_gate)"

lemma demo_phase_reachable: "pg_reachable demo_env demo_raised"
  unfolding demo_raised_def
  by (rule pg_reachable.attempt, rule pg_reachable.fresh [of None])
    (simp add: gate_init_def load_state_def demo_gate_def)

lemma demo_advances: "advance_ok phase_new 1 demo_evidence"
  by (simp add: advance_ok_def phase_new_def demo_evidence_def PHASE_GATE_CRITERIA_def)

lemma demo_phase: "ps_phase (pg_state demo_raised) = 1"
  unfolding demo_raised_def attempt_state
  by (simp add: demo_gate_def demo_advances advanced_def)

theorem phase_state_well_typed_witness:
  "state_typed (pg_state demo_raised) \<and> autonomy_level (pg_state demo_raised) = Inr (ps_phase (pg_state demo_raised)) \<and>
   load_state (pg_file demo_raised) = Inr (pg_state demo_raised)"
  by (rule phase_state_well_typed [OF demo_phase_reachable])

text \<open>
  No autonomy level without its gate. In every reachable gate each level up to the
  current one was entered, from the level just below it, by a transition whose gate passed, and the
  audit file holds the row of that attempt.\<close>

theorem phase_every_level_gated:
  assumes "pg_reachable v g"
  shows "climbed (pg_state g) (pg_audit g)"
  using reachable_pg_ok [OF assms] by (simp add: pg_ok_def)

theorem phase_every_level_gated_witness:
  "ps_phase (pg_state demo_raised) = 1 \<and> climbed (pg_state demo_raised) (pg_audit demo_raised)"
  using demo_phase phase_every_level_gated [OF demo_phase_reachable] by (rule conjI)

text \<open>
  C30 (bounds): the state after an attempt, for every evidence. It advances exactly when the target is
  the next level, the approvals, the chain and the clean epochs meet the criteria, and the two rates
  come within half of one ten-thousandth below their thresholds: a lineage completeness of 99.995 per
  cent passes the criterion 1.00. The clean epochs may be the caller's claim, whatever the gate's own
  counter says. Otherwise state and state file stay as they were.\<close>

theorem phase_advances_exactly:
  "pg_state (snd (attempt_transition v now now' target e operator note g)) =
     (if advance_ok (pg_state g) target e
      then advanced (pg_state g) (attempt_record v now (pg_state g) True target operator note)
      else pg_state g)"
  by (rule attempt_state)

end
