(* ===== verification/Signatures.thy ===== *)
theory Signatures
  imports Json
begin

text \<open>
  \<open>security/cryovant_legacy.py\<close>, the signature part: digest signatures under a secret taken from
  the environment, payload signatures, key-file signatures, governance bearer tokens and the
  development overrides; \<open>security/token_parsing/governance.py\<close>, the token grammar. The process
  environment and the key directory are arguments, \<open>sha\<close> is the hexadecimal SHA-256 and \<open>hm\<close> the
  hexadecimal HMAC-SHA-256. Bytes are characters. Metrics are left out, but not the exceptions that
  computing their payload raises.
\<close>

section \<open>The environment\<close>

type_synonym environ = "string \<Rightarrow> string option"

datatype sig_error =
    EnvUnknown string
  | MissingSigningKey string
  | UnknownArtifact string
  | KeyUnreadable
  | NonAsciiSignature
  | TokenExpired string int
  | BadExpiry
  | BadKeyId
  | BadNonce

definition STRICT_ENVS :: "string list" where
  "STRICT_ENVS = [''staging'', ''production'', ''prod'']"

definition KNOWN_ENVS :: "string list" where
  "KNOWN_ENVS = [''dev'', ''test'', ''staging'', ''production'', ''prod'']"

definition STRICT_GOVERNANCE_MODES :: "string list" where
  "STRICT_GOVERNANCE_MODES = [''strict'', ''audit'']"

definition TRUTHY :: "string list" where
  "TRUTHY = [''1'', ''true'', ''yes'', ''on'']"

definition getenv :: "environ \<Rightarrow> string \<Rightarrow> string" where
  "getenv env k = (case env k of None \<Rightarrow> [] | Some v \<Rightarrow> v)"

definition dev_mode :: "environ \<Rightarrow> bool" where
  "dev_mode env \<longleftrightarrow>
     py_lower (case env ''CRYOVANT_DEV_MODE'' of None \<Rightarrow> ''0'' | Some v \<Rightarrow> v) \<in> set TRUTHY"

definition is_truthy_env :: "string \<Rightarrow> bool" where
  "is_truthy_env v \<longleftrightarrow> py_lower (py_strip v) \<in> set TRUTHY"

definition governance_strict_context :: "environ \<Rightarrow> bool" where
  "governance_strict_context env \<longleftrightarrow>
     py_lower (py_strip (getenv env ''ADAAD_ENV'')) \<in> set STRICT_ENVS \<or>
     py_lower (py_strip (getenv env ''ADAAD_REPLAY_MODE'')) \<in> set STRICT_GOVERNANCE_MODES \<or>
     py_lower (py_strip (getenv env ''ADAAD_RECOVERY_TIER'')) \<in> set STRICT_GOVERNANCE_MODES \<or>
     is_truthy_env (getenv env ''ADAAD_GOVERNANCE_STRICT'')"

definition legacy_feature_enabled :: "environ \<Rightarrow> string \<Rightarrow> bool" where
  "legacy_feature_enabled env flag =
     (case env flag of None \<Rightarrow> \<not> governance_strict_context env | Some v \<Rightarrow> is_truthy_env v)"

definition env_mode :: "environ \<Rightarrow> sig_error + string" where
  "env_mode env =
     (let mode = py_lower (py_strip (getenv env ''ADAAD_ENV''))
      in if mode = [] then Inr ''prod''
         else if mode \<notin> set KNOWN_ENVS then Inl (EnvUnknown mode) else Inr mode)"

text \<open>\<open>env_mode() == "dev" and dev_mode()\<close>\<close>

definition explicit_dev :: "environ \<Rightarrow> sig_error + bool" where
  "explicit_dev env = ebind (env_mode env) (\<lambda>m. Inr (m = ''dev'' \<and> dev_mode env))"

section \<open>Digest signatures\<close>

text \<open>Where the secret of a kind of signature is looked for.\<close>

record key_source =
  ks_prefix :: string
  ks_generic :: string
  ks_fallback :: string

definition env_key_name :: "string \<Rightarrow> string" where
  "env_key_name key_id = map (\<lambda>c. if c = CHR ''-'' then CHR ''_'' else c) (py_upper key_id)"

definition resolve_hmac_secret :: "environ \<Rightarrow> key_source \<Rightarrow> string \<Rightarrow> sig_error + string" where
  "resolve_hmac_secret env ks key_id =
     (let specific = py_strip (getenv env (ks_prefix ks @ env_key_name key_id));
          generic = py_strip (getenv env (ks_generic ks));
          mode = py_lower (py_strip (getenv env ''ADAAD_ENV''))
      in if specific \<noteq> [] then Inr specific
         else if generic \<noteq> [] then Inr generic
         else if mode \<in> set STRICT_ENVS then Inl (MissingSigningKey key_id)
         else Inr (ks_fallback ks @ '':'' @ key_id))"

definition SIG_PREFIX :: string where
  "SIG_PREFIX = ''sha256:''"

definition mac :: "(string \<Rightarrow> string) \<Rightarrow> string \<Rightarrow> string \<Rightarrow> string" where
  "mac sha secret digest = SIG_PREFIX @ sha (secret @ '':'' @ digest)"

definition sign_hmac_digest ::
  "(string \<Rightarrow> string) \<Rightarrow> environ \<Rightarrow> key_source \<Rightarrow> string \<Rightarrow> string \<Rightarrow> sig_error + string" where
  "sign_hmac_digest sha env ks key_id digest =
     ebind (resolve_hmac_secret env ks key_id) (\<lambda>secret. Inr (mac sha secret digest))"

definition canonical_signature :: "string \<Rightarrow> string" where
  "canonical_signature s =
     (let c = py_strip s
      in if c = [] then []
         else if startswith c SIG_PREFIX then SIG_PREFIX @ py_lower (drop (length SIG_PREFIX) c)
         else SIG_PREFIX @ py_lower c)"

text \<open>\<open>hmac.compare_digest\<close> of two texts refuses characters outside ASCII.\<close>

definition compare_digest :: "string \<Rightarrow> string \<Rightarrow> sig_error + bool" where
  "compare_digest s t =
     (if list_all (\<lambda>c. (of_char c :: nat) < 128) (s @ t) then Inr (s = t) else Inl NonAsciiSignature)"

definition verify_hmac_digest_signature ::
  "(string \<Rightarrow> string) \<Rightarrow> environ \<Rightarrow> key_source \<Rightarrow> string \<Rightarrow> string \<Rightarrow> string \<Rightarrow> sig_error + bool" where
  "verify_hmac_digest_signature sha env ks key_id digest sig =
     ebind (sign_hmac_digest sha env ks key_id digest) (\<lambda>expected.
       compare_digest (canonical_signature sig) expected)"

definition ARTIFACT_HMAC_CONFIG :: "(string, key_source) dict" where
  "ARTIFACT_HMAC_CONFIG =
     [(''replay_proof'', \<lparr>ks_prefix = ''ADAAD_REPLAY_PROOF_KEY_'',
        ks_generic = ''ADAAD_REPLAY_PROOF_SIGNING_KEY'', ks_fallback = ''adaad-replay-proof-dev-secret''\<rparr>),
      (''policy_artifact'', \<lparr>ks_prefix = ''ADAAD_POLICY_ARTIFACT_KEY_'',
        ks_generic = ''ADAAD_POLICY_ARTIFACT_SIGNING_KEY'', ks_fallback = ''adaad-policy-artifact-dev-secret''\<rparr>),
      (''rollback_certificate'', \<lparr>ks_prefix = ''CRYOVANT_ROLLBACK_SIGNING_KEY_'',
        ks_generic = ''CRYOVANT_ROLLBACK_SIGNING_KEY'', ks_fallback = ''cryovant-rollback-certificate''\<rparr>)]"

definition sign_artifact :: "(string \<Rightarrow> string) \<Rightarrow> environ \<Rightarrow> string \<Rightarrow> string \<Rightarrow> string \<Rightarrow> sig_error + string" where
  "sign_artifact sha env artifact key_id digest =
     (case dget ARTIFACT_HMAC_CONFIG artifact of
        None \<Rightarrow> Inl (UnknownArtifact artifact)
      | Some ks \<Rightarrow> sign_hmac_digest sha env ks key_id digest)"

definition verify_artifact ::
  "(string \<Rightarrow> string) \<Rightarrow> environ \<Rightarrow> string \<Rightarrow> string \<Rightarrow> string \<Rightarrow> string \<Rightarrow> sig_error + bool" where
  "verify_artifact sha env artifact key_id digest sig =
     (case dget ARTIFACT_HMAC_CONFIG artifact of
        None \<Rightarrow> Inr False
      | Some ks \<Rightarrow> verify_hmac_digest_signature sha env ks key_id digest sig)"

section \<open>Key-file signatures\<close>

text \<open>An entry of the key directory; \<open>None\<close> as content is a file that cannot be read.\<close>

record key_file =
  kf_name :: string
  kf_is_file :: bool
  kf_content :: "string option"

type_synonym keys_dir = "key_file list option"

definition hex_lower :: "char \<Rightarrow> bool" where
  "hex_lower c \<longleftrightarrow> c \<in> set ''0123456789abcdef''"

definition parse_sha256_signature :: "string \<Rightarrow> string" where
  "parse_sha256_signature s =
     (let n = py_lower (py_strip s)
      in if \<not> startswith n SIG_PREFIX then []
         else (let d = drop (length SIG_PREFIX) n
               in if length d \<noteq> 64 \<or> \<not> list_all hex_lower d then [] else n))"

definition path_suffix :: "string \<Rightarrow> string" where
  "path_suffix name =
     (let tail = takeWhile (\<lambda>c. c \<noteq> CHR ''.'') (rev name)
      in if CHR ''.'' \<notin> set name \<or> tail = [] \<or> length tail + 1 = length name then []
         else CHR ''.'' # rev tail)"

definition active_key_files :: "keys_dir \<Rightarrow> key_file list" where
  "active_key_files kd =
     (case kd of
        None \<Rightarrow> []
      | Some fs \<Rightarrow>
          filter (\<lambda>f. kf_is_file f \<and> py_lower (path_suffix (kf_name f)) \<in> set [''.key'', ''.pem'', ''.txt''])
            (sort_key kf_name fs))"

fun match_key_files :: "(string \<Rightarrow> string \<Rightarrow> string) \<Rightarrow> string \<Rightarrow> key_file list \<Rightarrow> sig_error + bool" where
  "match_key_files hm sig [] = Inr False"
| "match_key_files hm sig (f # fs) =
     (case kf_content f of
        None \<Rightarrow> Inl KeyUnreadable
      | Some bytes \<Rightarrow>
          (let key = py_strip bytes
           in if key = [] then match_key_files hm sig fs
              else if sig = SIG_PREFIX @ hm key ''cryovant'' then Inr True
              else match_key_files hm sig fs))"

definition verify_signature :: "(string \<Rightarrow> string \<Rightarrow> string) \<Rightarrow> keys_dir \<Rightarrow> string \<Rightarrow> sig_error + bool" where
  "verify_signature hm kd sig =
     (let n = parse_sha256_signature sig
      in if n = [] then Inr False else match_key_files hm n (active_key_files kd))"

section \<open>Payload signatures\<close>

definition signed_digest :: "(string \<Rightarrow> string) \<Rightarrow> string \<Rightarrow> string" where
  "signed_digest sha payload =
     (if startswith payload SIG_PREFIX \<and> length payload = length SIG_PREFIX + 64 then payload
      else SIG_PREFIX @ sha payload)"

definition is_static_signature :: "string \<Rightarrow> string \<Rightarrow> bool" where
  "is_static_signature digest sig \<longleftrightarrow>
     sig = ''cryovant-static-'' @ digest \<or> sig = ''cryovant-static-'' @ drop (length SIG_PREFIX) digest"

text \<open>An unreadable key file makes \<open>verify_signature\<close> raise, which counts as not verified.\<close>

definition verify_payload_signature ::
  "(string \<Rightarrow> string) \<Rightarrow> (string \<Rightarrow> string \<Rightarrow> string) \<Rightarrow> environ \<Rightarrow> keys_dir \<Rightarrow> key_source \<Rightarrow> string \<Rightarrow> string \<Rightarrow>
   string \<Rightarrow> sig_error + bool" where
  "verify_payload_signature sha hm env kd ks payload sig key_id =
     (if sig = [] then Inr False
      else
        let digest = signed_digest sha payload in
        if is_static_signature digest sig then
          (if \<not> legacy_feature_enabled env ''ADAAD_ENABLE_LEGACY_STATIC_SIGNATURES''
           then ebind (env_mode env) (\<lambda>m. Inr False)
           else explicit_dev env)
        else
          ebind (verify_hmac_digest_signature sha env ks key_id digest sig) (\<lambda>b.
            if b then Inr True
            else case verify_signature hm kd sig of Inl e \<Rightarrow> Inr False | Inr v \<Rightarrow> Inr v))"

definition dev_signature_allowed :: "environ \<Rightarrow> string \<Rightarrow> sig_error + bool" where
  "dev_signature_allowed env sig =
     (if \<not> startswith sig ''cryovant-dev-'' then Inr False else explicit_dev env)"

definition keys_configured :: "keys_dir \<Rightarrow> bool" where
  "keys_configured kd = (case kd of None \<Rightarrow> False | Some fs \<Rightarrow> fs \<noteq> [])"

definition signature_valid :: "(string \<Rightarrow> string \<Rightarrow> string) \<Rightarrow> environ \<Rightarrow> keys_dir \<Rightarrow> string \<Rightarrow> sig_error + bool" where
  "signature_valid hm env kd sig =
     (let rest = (case verify_signature hm kd sig of
                    Inr True \<Rightarrow> Inr True
                  | _ \<Rightarrow> dev_signature_allowed env sig)
      in if keys_configured kd then rest
         else ebind (env_mode env) (\<lambda>m. if m \<noteq> ''dev'' then Inr False else rest))"

section \<open>Governance tokens\<close>

definition valid_token_field :: "string \<Rightarrow> bool" where
  "valid_token_field v \<longleftrightarrow> py_strip v \<noteq> [] \<and> v = py_strip v \<and> CHR '':'' \<notin> set v"

text \<open>\<open>s.split(":", n)\<close>\<close>

fun split_colon :: "nat \<Rightarrow> string \<Rightarrow> string list" where
  "split_colon 0 s = [s]"
| "split_colon (Suc n) s =
     (if CHR '':'' \<in> set s
      then takeWhile (\<lambda>c. c \<noteq> CHR '':'') s # split_colon n (tl (dropWhile (\<lambda>c. c \<noteq> CHR '':'') s))
      else [s])"

record parsed_token =
  pt_key_id :: string
  pt_expires :: int
  pt_nonce :: string
  pt_signature :: string

definition parse_governance_token :: "string \<Rightarrow> parsed_token option" where
  "parse_governance_token candidate =
     (case split_colon 5 (py_strip candidate) of
        [prefix, key_id, raw, nonce, sig_prefix, digest] \<Rightarrow>
          if prefix \<noteq> ''cryovant-gov-v1'' \<or> sig_prefix \<noteq> ''sha256'' then None
          else if \<not> valid_token_field key_id \<or> \<not> valid_token_field nonce then None
          else map_option (\<lambda>expires.
                 \<lparr>pt_key_id = key_id, pt_expires = expires, pt_nonce = nonce,
                  pt_signature = sig_prefix @ '':'' @ digest\<rparr>) (parse_int raw)
      | _ \<Rightarrow> None)"

definition token_digest :: "string \<Rightarrow> int \<Rightarrow> string \<Rightarrow> string" where
  "token_digest key_id expires nonce = ''sha256:'' @ key_id @ '':'' @ int_str expires @ '':'' @ nonce"

definition sign_governance_token ::
  "(string \<Rightarrow> string) \<Rightarrow> environ \<Rightarrow> key_source \<Rightarrow> string \<Rightarrow> int \<Rightarrow> string \<Rightarrow> sig_error + string" where
  "sign_governance_token sha env ks key_id expires nonce =
     (let k = py_strip key_id; n = py_strip nonce
      in if expires \<le> 0 then Inl BadExpiry
         else if \<not> valid_token_field k then Inl BadKeyId
         else if \<not> valid_token_field n then Inl BadNonce
         else ebind (sign_hmac_digest sha env ks key_id (token_digest k expires n)) (\<lambda>sig.
           Inr (''cryovant-gov-v1:'' @ k @ '':'' @ int_str expires @ '':'' @ n @ '':'' @ sig)))"

text \<open>The verification of a bearer token; \<open>rings\<close> is the outcome of the identity rings, when any
  are demanded.\<close>

definition verify_governance_token ::
  "(string \<Rightarrow> string) \<Rightarrow> environ \<Rightarrow> key_source \<Rightarrow> int \<Rightarrow> bool option \<Rightarrow> string \<Rightarrow> sig_error + bool" where
  "verify_governance_token sha env ks now rings token =
     (let candidate = py_strip token; dev = py_strip (getenv env ''CRYOVANT_DEV_TOKEN'')
      in if candidate = [] then Inr False
         else if dev \<noteq> [] \<and> candidate = dev then
           (if \<not> legacy_feature_enabled env ''ADAAD_ENABLE_LEGACY_DEV_TOKEN_OVERRIDE'' then Inr False
            else explicit_dev env)
         else
           case parse_governance_token candidate of
             None \<Rightarrow> Inr False
           | Some t \<Rightarrow>
               if pt_expires t \<le> now then Inl (TokenExpired (pt_key_id t) (pt_expires t))
               else
                 ebind (verify_hmac_digest_signature sha env ks (pt_key_id t)
                          (token_digest (pt_key_id t) (pt_expires t) (pt_nonce t)) (pt_signature t)) (\<lambda>ok.
                   Inr (ok \<and> (case rings of None \<Rightarrow> True | Some r \<Rightarrow> r))))"

definition GOVERNANCE_SESSION :: key_source where
  "GOVERNANCE_SESSION =
     \<lparr>ks_prefix = ''ADAAD_GOVERNANCE_SESSION_KEY_'', ks_generic = ''ADAAD_GOVERNANCE_SESSION_SIGNING_KEY'',
      ks_fallback = ''adaad-governance-session-dev-secret''\<rparr>"

section \<open>Hexadecimal texts\<close>

definition hex64 :: "string \<Rightarrow> bool" where
  "hex64 s \<longleftrightarrow> length s = 64 \<and> list_all hex_lower s"

lemma hex_lower_code: "hex_lower c \<Longrightarrow> (48 \<le> (of_char c :: nat) \<and> of_char c \<le> (57 :: nat)) \<or>
    (97 \<le> (of_char c :: nat) \<and> of_char c \<le> (102 :: nat))"
  by (auto simp: hex_lower_def)

lemma hex_lower_lower [simp]: "hex_lower c \<Longrightarrow> lower_char c = c"
  using hex_lower_code [of c] by (auto simp: lower_char_def Let_def)

lemma hex_lower_not_space [simp]: "hex_lower c \<Longrightarrow> \<not> is_space c"
  using hex_lower_code [of c] by (auto simp: is_space_def Let_def)

lemma hex_lower_ascii [simp]: "hex_lower c \<Longrightarrow> (of_char c :: nat) < 128"
  using hex_lower_code [of c] by auto

lemma py_lower_hex: "list_all hex_lower s \<Longrightarrow> py_lower s = s"
  by (induction s) (auto simp: py_lower_def)

lemma dropWhile_hd: "s \<noteq> [] \<Longrightarrow> \<not> P (hd s) \<Longrightarrow> dropWhile P s = s"
  by (cases s) auto

lemma py_strip_id:
  assumes "s \<noteq> []" "\<not> is_space (hd s)" "\<not> is_space (last s)"
  shows "py_strip s = s"
proof -
  have "dropWhile is_space s = s" by (rule dropWhile_hd) (simp_all add: assms)
  moreover have "dropWhile is_space (rev s) = rev s" by (rule dropWhile_hd) (simp_all add: assms hd_rev)
  ultimately show ?thesis by (simp add: py_strip_def)
qed

lemma hex64_last: "hex64 s \<Longrightarrow> s \<noteq> [] \<and> \<not> is_space (last s)"
  by (cases s rule: rev_cases) (auto simp: hex64_def)

lemma canonical_mac:
  assumes "hex64 (sha (secret @ '':'' @ d))"
  shows "canonical_signature (mac sha secret d) = mac sha secret d"
proof -
  have "py_strip (mac sha secret d) = mac sha secret d"
    using hex64_last [OF assms] by (intro py_strip_id) (simp_all add: mac_def SIG_PREFIX_def is_space_def)
  then show ?thesis
    using assms by (simp add: canonical_signature_def mac_def SIG_PREFIX_def startswith_def py_lower_hex hex64_def Let_def)
qed

lemma compare_mac:
  assumes "hex64 (sha (secret @ '':'' @ d))"
  shows "compare_digest (mac sha secret d) (mac sha secret d) = Inr True"
  using assms by (auto simp: compare_digest_def mac_def SIG_PREFIX_def hex64_def list_all_iff)

lemma compare_digest_True [simp]: "compare_digest s t = Inr True \<Longrightarrow> s = t"
  by (simp add: compare_digest_def split: if_splits)

lemma own_signature_verifies:
  assumes "resolve_hmac_secret env ks key_id = Inr secret" "hex64 (sha (secret @ '':'' @ d))"
  shows "verify_hmac_digest_signature sha env ks key_id d (mac sha secret d) = Inr True"
  using assms
  by (simp add: verify_hmac_digest_signature_def sign_hmac_digest_def canonical_mac compare_mac)

lemma verified_is_mac:
  assumes "verify_hmac_digest_signature sha env ks key_id d sig = Inr True"
  obtains secret where "resolve_hmac_secret env ks key_id = Inr secret" "canonical_signature sig = mac sha secret d"
  using assms by (auto simp: verify_hmac_digest_signature_def sign_hmac_digest_def)

lemma signed_is_mac:
  assumes "sign_hmac_digest sha env ks key_id d = Inr sig"
  obtains secret where "resolve_hmac_secret env ks key_id = Inr secret" "sig = mac sha secret d"
  using assms by (auto simp: sign_hmac_digest_def)

section \<open>The token grammar\<close>

lemma split_colon_field: "CHR '':'' \<notin> set a \<Longrightarrow> split_colon (Suc n) (a @ '':'' @ s) = a # split_colon n s"
proof -
  assume a: "CHR '':'' \<notin> set a"
  then have "takeWhile (\<lambda>c. c \<noteq> CHR '':'') (a @ '':'' @ s) = a"
    "dropWhile (\<lambda>c. c \<noteq> CHR '':'') (a @ '':'' @ s) = '':'' @ s"
    by (subst takeWhile_append2 dropWhile_append2; auto)+
  then show ?thesis by simp
qed

lemma split_colon_one: "CHR '':'' \<notin> set a \<Longrightarrow> split_colon n a = [a]"
  by (cases n) auto

lemma digits_no_colon: "CHR '':'' \<notin> set (int_str i)"
proof -
  have "CHR '':'' \<notin> set (nat_str m)" for m
    using nat_str_digits [of m] by (auto simp: is_digit_def)
  then show ?thesis by (simp add: int_str_def)
qed

lemma digit_not_space: "is_digit c \<Longrightarrow> \<not> is_space c"
  by (auto simp: is_digit_def is_space_def Let_def)

lemma filter_digits: "filter is_digit (nat_str n) = nat_str n"
  using nat_str_digits by (simp add: filter_id_conv)

lemma parse_nat_str: "parse_nat (nat_str n) = Some n"
  by (simp add: parse_nat_def digits_ok_nat_str filter_digits)

lemma parse_int_str: "0 \<le> i \<Longrightarrow> parse_int (int_str i) = Some i"
proof -
  assume i: "0 \<le> i"
  obtain c cs where c: "nat_str (nat i) = c # cs" using nat_str_nonempty by (cases "nat_str (nat i)") auto
  have dig: "\<forall>d \<in> set (c # cs). is_digit d" using nat_str_digits [of "nat i"] c by simp
  then have "py_strip (c # cs) = c # cs"
    using digit_not_space last_in_set [of "c # cs"] by (intro py_strip_id) (auto simp del: last.simps)
  moreover have "c \<noteq> CHR ''-''" "c \<noteq> CHR ''+''" using dig by (auto simp: is_digit_def)
  ultimately show ?thesis
    using i parse_nat_str [of "nat i"] c by (simp add: parse_int_def int_str_def)
qed

definition token_text :: "string \<Rightarrow> int \<Rightarrow> string \<Rightarrow> string \<Rightarrow> string" where
  "token_text k e n sig = ''cryovant-gov-v1:'' @ k @ '':'' @ int_str e @ '':'' @ n @ '':'' @ sig"

text \<open>Parsing a printed token gives its fields back.\<close>

lemma parse_token_text:
  assumes "valid_token_field k" "valid_token_field n" "0 < e" "hex64 h"
  shows "parse_governance_token (token_text k e n (SIG_PREFIX @ h)) =
    Some \<lparr>pt_key_id = k, pt_expires = e, pt_nonce = n, pt_signature = SIG_PREFIX @ h\<rparr>"
proof -
  let ?t = "token_text k e n (SIG_PREFIX @ h)"
  have "\<not> hex_lower CHR '':''" by (simp add: hex_lower_def)
  moreover have "\<forall>c \<in> set h. hex_lower c" using assms(4) by (simp add: hex64_def list_all_iff)
  ultimately have h: "h \<noteq> []" "\<not> is_space (last h)" "CHR '':'' \<notin> set h"
    using hex64_last [OF assms(4)] by blast+
  have "py_strip ?t = ?t"
    using h by (intro py_strip_id) (simp_all add: token_text_def SIG_PREFIX_def is_space_def)
  moreover have "split_colon 5 (''cryovant-gov-v1'' @ '':'' @ k @ '':'' @ int_str e @ '':'' @ n @ '':'' @ ''sha256'' @ '':'' @ h) =
      [''cryovant-gov-v1'', k, int_str e, n, ''sha256'', h]"
  proof -
    have f: "CHR '':'' \<notin> set k" "CHR '':'' \<notin> set n" using assms(1,2) by (simp_all add: valid_token_field_def)
    have c: "CHR '':'' \<notin> set ''cryovant-gov-v1''" "CHR '':'' \<notin> set ''sha256''" by simp_all
    have five: "(5 :: nat) = Suc (Suc (Suc (Suc (Suc 0))))" by simp
    show ?thesis
      unfolding five split_colon_field [OF c(1)] split_colon_field [OF f(1)] split_colon_field [OF digits_no_colon]
        split_colon_field [OF f(2)] split_colon_field [OF c(2)] split_colon_one [OF h(3)] ..
  qed
  ultimately show ?thesis
    using assms parse_int_str [of e]
    by (simp add: parse_governance_token_def token_text_def SIG_PREFIX_def)
qed

lemma digest_has_no_colon_prefix: "valid_token_field k \<Longrightarrow> CHR '':'' \<notin> set k"
  by (simp add: valid_token_field_def)

lemma token_text_strip:
  assumes "hex64 h"
  shows "py_strip (token_text k e n (SIG_PREFIX @ h)) = token_text k e n (SIG_PREFIX @ h) \<and>
    token_text k e n (SIG_PREFIX @ h) \<noteq> []"
  using hex64_last [OF assms] by (intro conjI py_strip_id) (simp_all add: token_text_def is_space_def)

lemma governance_token_accepts:
  assumes hex: "\<And>x. hex64 (sha x)"
    and sign: "sign_governance_token sha env ks k e n = Inr tok"
    and key: "py_strip k = k"
    and dev: "py_strip (getenv env ''CRYOVANT_DEV_TOKEN'') \<noteq> tok"
  shows "verify_governance_token sha env ks now rings tok =
    (if e \<le> now then Inl (TokenExpired k e) else Inr (case rings of None \<Rightarrow> True | Some r \<Rightarrow> r))"
proof -
  let ?n = "py_strip n"
  have f: "0 < e" "valid_token_field k" "valid_token_field ?n"
    using sign key by (auto simp: sign_governance_token_def Let_def split: if_splits)
  obtain sig where sig: "sign_hmac_digest sha env ks k (token_digest k e ?n) = Inr sig" "tok = token_text k e ?n sig"
    using sign key by (auto simp: sign_governance_token_def token_text_def Let_def split: if_splits)
  obtain secret where secret: "resolve_hmac_secret env ks k = Inr secret" "sig = mac sha secret (token_digest k e ?n)"
    by (rule signed_is_mac [OF sig(1)])
  have parse: "parse_governance_token tok =
      Some \<lparr>pt_key_id = k, pt_expires = e, pt_nonce = ?n, pt_signature = sig\<rparr>"
    unfolding sig(2) secret(2) mac_def using parse_token_text [OF f(2,3,1)] hex by simp
  have strip: "py_strip tok = tok" "tok \<noteq> []"
    unfolding sig(2) secret(2) mac_def using token_text_strip hex by blast+
  have "verify_hmac_digest_signature sha env ks k (token_digest k e ?n) sig = Inr True"
    unfolding secret(2) using own_signature_verifies [OF secret(1)] hex by simp
  then show ?thesis
    using parse strip dev by (simp add: verify_governance_token_def Let_def)
qed

section \<open>Properties\<close>

text \<open>
  A governance token that was signed is accepted until the second it expires, and
  raises the expiry error from then on. It holds for every key source and environment in which the
  signature was made, when the key id has no surrounding blanks and the token is not the configured
  development token.\<close>

theorem governance_token_accepted_until_expiry:
  assumes hex: "\<And>x. hex64 (sha x)"
    and sign: "sign_governance_token sha env ks k e n = Inr tok"
    and key: "py_strip k = k"
    and dev: "py_strip (getenv env ''CRYOVANT_DEV_TOKEN'') \<noteq> tok"
  shows "verify_governance_token sha env ks now rings tok =
    (if e \<le> now then Inl (TokenExpired k e) else Inr (case rings of None \<Rightarrow> True | Some r \<Rightarrow> r))"
  by (rule governance_token_accepts [OF assms])

definition demo_sha :: "string \<Rightarrow> string" where
  "demo_sha x = replicate 64 (CHR ''a'')"

definition demo_dev_env :: environ where
  "demo_dev_env k = (if k = ''ADAAD_ENV'' then Some ''dev'' else None)"

lemma demo_sha_hex: "hex64 (demo_sha x)"
  by (simp add: hex64_def demo_sha_def list_all_iff hex_lower_def)

lemma demo_key: "valid_token_field ''ops''" "py_strip ''ops'' = ''ops''" "py_strip ''n1'' = ''n1''" "valid_token_field ''n1''"
  by (simp_all add: valid_token_field_def py_strip_def is_space_def)

lemma demo_secret: "resolve_hmac_secret demo_dev_env GOVERNANCE_SESSION ''ops'' = Inr ''adaad-governance-session-dev-secret:ops''"
  by (simp add: resolve_hmac_secret_def demo_dev_env_def getenv_def GOVERNANCE_SESSION_def py_strip_def is_space_def
      py_lower_def lower_char_def STRICT_ENVS_def Let_def)

definition demo_token :: string where
  "demo_token = token_text ''ops'' 100 ''n1''
     (mac demo_sha ''adaad-governance-session-dev-secret:ops'' (token_digest ''ops'' 100 ''n1''))"

lemma demo_signs: "sign_governance_token demo_sha demo_dev_env GOVERNANCE_SESSION ''ops'' 100 ''n1'' = Inr demo_token"
  by (simp add: sign_governance_token_def demo_key sign_hmac_digest_def demo_secret demo_token_def token_text_def Let_def)

lemma demo_no_dev_token: "py_strip (getenv demo_dev_env ''CRYOVANT_DEV_TOKEN'') \<noteq> demo_token"
  by (simp add: getenv_def demo_dev_env_def py_strip_def demo_token_def token_text_def)

theorem governance_token_accepted_until_expiry_witness:
  "verify_governance_token demo_sha demo_dev_env GOVERNANCE_SESSION 99 None demo_token = Inr True"
  using governance_token_accepted_until_expiry [OF demo_sha_hex demo_signs demo_key(2) demo_no_dev_token, of 99 None]
  by simp

text \<open>The text that is hashed determines the fields, whatever the secret is: they are behind its last three colons.\<close>

lemma last_part_inj:
  assumes "a @ sep # b = a' @ sep # b'" "sep \<notin> set b" "sep \<notin> set b'"
  shows "a = a' \<and> b = b'"
proof -
  have rest: "takeWhile (\<lambda>c. c \<noteq> sep) (rev (x @ sep # y)) = rev y" if "sep \<notin> set y" for x y
    using that by (subst rev_append, subst rev.simps, simp only: append_assoc append.simps, subst takeWhile_append2) auto
  have "rev b = rev b'" using rest [OF assms(2), of a] rest [OF assms(3), of a'] assms(1) by metis
  then show ?thesis using assms(1) by simp
qed

definition token_material :: "string \<Rightarrow> parsed_token \<Rightarrow> string" where
  "token_material secret t = secret @ '':'' @ token_digest (pt_key_id t) (pt_expires t) (pt_nonce t)"

lemma token_material_inj:
  assumes "token_material s t = token_material s' t'"
    and "CHR '':'' \<notin> set (pt_key_id t)" "CHR '':'' \<notin> set (pt_nonce t)" "CHR '':'' \<notin> set (pt_key_id t')" "CHR '':'' \<notin> set (pt_nonce t')"
  shows "pt_key_id t = pt_key_id t' \<and> pt_expires t = pt_expires t' \<and> pt_nonce t = pt_nonce t'"
proof -
  have parts: "token_material x u = ((x @ '':sha256'') @ CHR '':'' # pt_key_id u) @ CHR '':'' # int_str (pt_expires u) @ CHR '':'' # pt_nonce u" for x u
    by (simp add: token_material_def token_digest_def)
  have "((x @ '':sha256'') @ CHR '':'' # pt_key_id u) @ CHR '':'' # int_str (pt_expires u) @ CHR '':'' # pt_nonce u =
      (((x @ '':sha256'') @ CHR '':'' # pt_key_id u) @ CHR '':'' # int_str (pt_expires u)) @ CHR '':'' # pt_nonce u" for x u by simp
  note parts = parts [unfolded this]
  from last_part_inj [OF assms(1) [unfolded parts] assms(3,5)]
  have nonce: "pt_nonce t = pt_nonce t'" and
    rest: "((s @ '':sha256'') @ CHR '':'' # pt_key_id t) @ CHR '':'' # int_str (pt_expires t) =
      ((s' @ '':sha256'') @ CHR '':'' # pt_key_id t') @ CHR '':'' # int_str (pt_expires t')" by simp_all
  from last_part_inj [OF rest digits_no_colon digits_no_colon]
  have expires: "int_str (pt_expires t) = int_str (pt_expires t')" and
    first: "(s @ '':sha256'') @ CHR '':'' # pt_key_id t = (s' @ '':sha256'') @ CHR '':'' # pt_key_id t'" by simp_all
  have "pt_expires t = pt_expires t'"
    using int_str_prefix [of "pt_expires t" "'',''" "pt_expires t'" "'',''"] expires by (simp add: closing_def)
  then show ?thesis using last_part_inj [OF first assms(2,4)] nonce by simp
qed

definition accepted_fields :: "string \<Rightarrow> parsed_token \<Rightarrow> bool" where
  "accepted_fields tok t \<longleftrightarrow> parse_governance_token (py_strip tok) = Some t"

lemma parsed_valid: "parse_governance_token c = Some t \<Longrightarrow> valid_token_field (pt_key_id t) \<and> valid_token_field (pt_nonce t)"
  by (auto simp: parse_governance_token_def split: list.splits if_splits)

lemma accepted_is_mac:
  assumes "verify_governance_token sha env ks now rings tok = Inr True" "accepted_fields tok t"
    and "py_strip (getenv env ''CRYOVANT_DEV_TOKEN'') \<noteq> py_strip tok"
  obtains s where "now < pt_expires t" "resolve_hmac_secret env ks (pt_key_id t) = Inr s"
    "canonical_signature (pt_signature t) = SIG_PREFIX @ sha (token_material s t)"
proof -
  have "now < pt_expires t" and v: "verify_hmac_digest_signature sha env ks (pt_key_id t)
      (token_digest (pt_key_id t) (pt_expires t) (pt_nonce t)) (pt_signature t) = Inr True"
    using assms by (auto simp: verify_governance_token_def accepted_fields_def Let_def split: if_splits)
  then show thesis using that by (rule_tac verified_is_mac [OF v]) (simp add: mac_def token_material_def)
qed

text \<open>
  C27 (safety): an accepted token that is not the development token is unexpired, and its signature is the keyed
  hash of its fields. Two accepted tokens, checked at any two times and in any two environments, that have the same signature have the same key id,
  expiry and nonce, or the two texts that were hashed, secret and fields, are different and collide.\<close>

theorem governance_token_binds_fields:
  assumes "verify_governance_token sha env ks now rings tok = Inr True" "accepted_fields tok t"
    and "verify_governance_token sha env' ks' now' rings' tok' = Inr True" "accepted_fields tok' t'"
    and "py_strip (getenv env ''CRYOVANT_DEV_TOKEN'') \<noteq> py_strip tok" "py_strip (getenv env' ''CRYOVANT_DEV_TOKEN'') \<noteq> py_strip tok'"
    and "canonical_signature (pt_signature t) = canonical_signature (pt_signature t')"
  shows "now < pt_expires t \<and> now' < pt_expires t' \<and>
    (\<exists>s s'. resolve_hmac_secret env ks (pt_key_id t) = Inr s \<and> resolve_hmac_secret env' ks' (pt_key_id t') = Inr s' \<and>
      (pt_key_id t = pt_key_id t' \<and> pt_expires t = pt_expires t' \<and> pt_nonce t = pt_nonce t' \<or>
       token_material s t \<noteq> token_material s' t' \<and> sha (token_material s t) = sha (token_material s' t')))"
proof -
  obtain s where s: "now < pt_expires t" "resolve_hmac_secret env ks (pt_key_id t) = Inr s"
    "canonical_signature (pt_signature t) = SIG_PREFIX @ sha (token_material s t)"
    by (rule accepted_is_mac [OF assms(1,2,5)])
  obtain s' where s': "now' < pt_expires t'" "resolve_hmac_secret env' ks' (pt_key_id t') = Inr s'"
    "canonical_signature (pt_signature t') = SIG_PREFIX @ sha (token_material s' t')"
    by (rule accepted_is_mac [OF assms(3,4,6)])
  have plain: "CHR '':'' \<notin> set (pt_key_id t)" "CHR '':'' \<notin> set (pt_nonce t)" "CHR '':'' \<notin> set (pt_key_id t')" "CHR '':'' \<notin> set (pt_nonce t')"
    using parsed_valid assms(2,4) by (auto simp: accepted_fields_def valid_token_field_def)
  have "sha (token_material s t) = sha (token_material s' t')" using s(3) s'(3) assms(7) by simp
  moreover have "pt_key_id t = pt_key_id t' \<and> pt_expires t = pt_expires t' \<and> pt_nonce t = pt_nonce t'"
    if "token_material s t = token_material s' t'"
    using token_material_inj [OF that plain] .
  ultimately show ?thesis using s(1,2) s'(1,2) by blast
qed

text \<open>A hash of the witness that tells the tokens of two nonces apart.\<close>

definition last_sha :: "string \<Rightarrow> string" where
  "last_sha x = replicate 63 (CHR ''a'') @ [if last x = CHR ''1'' then CHR ''b'' else CHR ''c'']"

lemma last_sha_hex: "hex64 (last_sha x)"
  by (simp add: hex64_def last_sha_def list_all_iff hex_lower_def)

definition session_token :: string where
  "session_token = token_text ''ops'' 100 ''n1''
     (mac last_sha ''adaad-governance-session-dev-secret:ops'' (token_digest ''ops'' 100 ''n1''))"

definition session_fields :: parsed_token where
  "session_fields = \<lparr>pt_key_id = ''ops'', pt_expires = 100, pt_nonce = ''n1'',
     pt_signature = mac last_sha ''adaad-governance-session-dev-secret:ops'' (token_digest ''ops'' 100 ''n1'')\<rparr>"

lemma session_strip: "py_strip session_token = session_token" "py_strip ('' '' @ session_token) = session_token" "session_token \<noteq> []"
proof -
  show strip: "py_strip session_token = session_token" "session_token \<noteq> []"
    unfolding session_token_def mac_def using token_text_strip last_sha_hex by blast+
  then show "py_strip ('' '' @ session_token) = session_token" by (simp add: py_strip_def is_space_def)
qed

lemma session_accepted:
  assumes "py_strip tok = session_token"
  shows "accepted_fields tok session_fields" "py_strip (getenv demo_dev_env ''CRYOVANT_DEV_TOKEN'') \<noteq> py_strip tok"
    "verify_governance_token last_sha demo_dev_env GOVERNANCE_SESSION 99 None tok = Inr True"
proof -
  show fields: "accepted_fields tok session_fields"
    unfolding accepted_fields_def assms unfolding session_token_def session_fields_def mac_def
    using parse_token_text [OF demo_key(1,4)] last_sha_hex by simp
  show "py_strip (getenv demo_dev_env ''CRYOVANT_DEV_TOKEN'') \<noteq> py_strip tok"
    unfolding assms by (simp add: getenv_def demo_dev_env_def py_strip_def session_token_def token_text_def)
  with fields show "verify_governance_token last_sha demo_dev_env GOVERNANCE_SESSION 99 None tok = Inr True"
    using session_strip(3) own_signature_verifies [OF demo_secret last_sha_hex]
    by (simp add: verify_governance_token_def accepted_fields_def Let_def assms session_fields_def)
qed

theorem governance_token_binds_fields_witness:
  "session_token \<noteq> '' '' @ session_token \<and> last_sha ''n1'' \<noteq> last_sha ''n2'' \<and> 99 < pt_expires session_fields \<and>
   accepted_fields session_token session_fields \<and> accepted_fields ('' '' @ session_token) session_fields"
proof -
  note a = session_accepted [OF session_strip(1)] and b = session_accepted [OF session_strip(2)]
  show ?thesis
    using governance_token_binds_fields [OF a(3,1) b(3,1) a(2) b(2) refl] a(1) b(1) by (simp add: last_sha_def)
qed

text \<open>
  With no environment name set the signing secret is the published fallback, although
  \<open>env_mode\<close> takes the same environment for production: anybody can sign a governance token that
  such a process accepts.\<close>

theorem unset_environment_signs_with_public_secret:
  assumes "env = (\<lambda>k. None)" "\<And>x. hex64 (sha x)" "valid_token_field k" "valid_token_field n" "0 \<le> now" "now < e"
  shows "env_mode env = Inr ''prod'' \<and>
    verify_governance_token sha env GOVERNANCE_SESSION now None
      (token_text k e n (SIG_PREFIX @ sha (''adaad-governance-session-dev-secret:'' @ k @ '':'' @ token_digest k e n))) = Inr True"
proof -
  have strip: "py_strip k = k" "py_strip n = n" using assms(3,4) by (simp_all add: valid_token_field_def)
  have none: "py_strip (getenv env x) = []" for x by (simp add: assms(1) getenv_def py_strip_def)
  then have secret: "resolve_hmac_secret env GOVERNANCE_SESSION k = Inr (''adaad-governance-session-dev-secret:'' @ k)"
    by (simp add: resolve_hmac_secret_def GOVERNANCE_SESSION_def Let_def py_lower_def STRICT_ENVS_def)
  let ?tok = "token_text k e n (SIG_PREFIX @ sha (''adaad-governance-session-dev-secret:'' @ k @ '':'' @ token_digest k e n))"
  have "sign_governance_token sha env GOVERNANCE_SESSION k e n = Inr ?tok"
    using assms(3-6) by (simp add: sign_governance_token_def strip sign_hmac_digest_def secret mac_def token_text_def Let_def)
  from governance_token_accepts [OF assms(2) this strip(1)] none assms(6)
  have "verify_governance_token sha env GOVERNANCE_SESSION now None ?tok = Inr True"
    by (simp add: token_text_def)
  then show ?thesis using none by (simp add: env_mode_def Let_def py_lower_def)
qed

theorem unset_environment_signs_with_public_secret_witness:
  "verify_governance_token demo_sha (\<lambda>k. None) GOVERNANCE_SESSION 99 None
     (token_text ''ops'' 100 ''n1'' (SIG_PREFIX @
        demo_sha (''adaad-governance-session-dev-secret:'' @ ''ops'' @ '':'' @ token_digest ''ops'' 100 ''n1''))) = Inr True"
  by (rule conjunct2 [OF unset_environment_signs_with_public_secret
        [where sha = demo_sha, OF refl demo_sha_hex demo_key(1,4)]]) simp_all

section \<open>A key-file signature is not bound to a payload\<close>

lemma py_strip_hd:
  assumes "s \<noteq> []" "\<not> is_space (hd s)"
  shows "py_strip s \<noteq> [] \<and> hd (py_strip s) = hd s"
proof -
  have d: "dropWhile is_space s = s" by (rule dropWhile_hd) (rule assms)+
  let ?r = "dropWhile is_space (rev s)"
  have "?r \<noteq> []" using assms by (auto simp: dropWhile_eq_Nil_conv)
  moreover have "s = rev ?r @ rev (takeWhile is_space (rev s))"
    by (metis rev_append rev_rev_ident takeWhile_dropWhile_id)
  ultimately show ?thesis
    unfolding py_strip_def d by (metis hd_append2 rev_is_Nil_conv)
qed

lemma parse_not_static:
  assumes "parse_sha256_signature sig \<noteq> []"
  shows "\<not> is_static_signature digest sig"
proof
  assume "is_static_signature digest sig"
  then obtain t where sig: "sig = CHR ''c'' # t" by (auto simp: is_static_signature_def)
  have "hd (py_strip sig) = CHR ''c''" "py_strip sig \<noteq> []"
    using py_strip_hd [of sig] by (simp_all add: sig is_space_def)
  then obtain u where "py_strip sig = CHR ''c'' # u" by (cases "py_strip sig") auto
  then have "parse_sha256_signature sig = []"
    by (simp add: parse_sha256_signature_def py_lower_def lower_char_def startswith_def SIG_PREFIX_def)
  then show False using assms by simp
qed

lemma lower_ascii: "(of_char (lower_char c) :: nat) < 128 \<Longrightarrow> (of_char c :: nat) < 128"
  by (auto simp: lower_char_def Let_def split: if_splits)

lemma prefix_ascii: "list_all (\<lambda>c. (of_char c :: nat) < 128) SIG_PREFIX"
  by (simp add: SIG_PREFIX_def)

lemma parsed_ascii:
  assumes "parse_sha256_signature sig \<noteq> []"
  shows "list_all (\<lambda>c. (of_char c :: nat) < 128) (canonical_signature sig)"
proof -
  let ?n = "py_lower (py_strip sig)"
  have n: "startswith ?n SIG_PREFIX" "list_all hex_lower (drop (length SIG_PREFIX) ?n)"
    using assms by (auto simp: parse_sha256_signature_def Let_def split: if_splits)
  then have eq: "?n = SIG_PREFIX @ drop (length SIG_PREFIX) ?n"
    unfolding startswith_def by (metis append_take_drop_id)
  have "list_all (\<lambda>c. (of_char c :: nat) < 128) (drop (length SIG_PREFIX) ?n)"
    using n(2) by (auto simp: list_all_iff)
  then have "list_all (\<lambda>c. (of_char c :: nat) < 128) ?n"
    using prefix_ascii by (subst eq) simp
  moreover have "py_lower (drop k s) = drop k (py_lower s)" for k s by (simp add: py_lower_def drop_map)
  ultimately show ?thesis
    using prefix_ascii by (auto simp: canonical_signature_def Let_def list_all_iff dest: in_set_dropD)
qed

text \<open>
  A signature that matches a key file is accepted for every payload and every key id. It
  is the keyed digest of the constant \<open>cryovant\<close>, so whoever has seen one on any record can put it
  on another.\<close>

theorem key_file_signature_fits_every_payload:
  assumes "verify_signature hm kd sig = Inr True" "resolve_hmac_secret env ks key_id = Inr secret"
    and "\<And>x. hex64 (sha x)"
  shows "verify_payload_signature sha hm env kd ks payload sig key_id = Inr True"
proof -
  have p: "parse_sha256_signature sig \<noteq> []"
    using assms(1) by (auto simp: verify_signature_def Let_def split: if_splits)
  have "sig \<noteq> []" using p by (auto simp: parse_sha256_signature_def py_strip_def py_lower_def startswith_def SIG_PREFIX_def)
  moreover have "\<not> is_static_signature (signed_digest sha payload) sig" by (rule parse_not_static [OF p])
  moreover have "verify_hmac_digest_signature sha env ks key_id (signed_digest sha payload) sig =
      Inr (canonical_signature sig = mac sha secret (signed_digest sha payload))"
  proof -
    have "list_all (\<lambda>c. (of_char c :: nat) < 128) (sha x)" for x
      using assms(3) [of x] by (auto simp: hex64_def list_all_iff)
    then have "list_all (\<lambda>c. (of_char c :: nat) < 128) (mac sha secret (signed_digest sha payload))"
      using prefix_ascii by (simp add: mac_def)
    then show ?thesis
      using parsed_ascii [OF p]
      by (simp add: verify_hmac_digest_signature_def sign_hmac_digest_def assms(2) compare_digest_def)
  qed
  ultimately show ?thesis using assms(1) by (simp add: verify_payload_signature_def Let_def)
qed

definition demo_keys :: keys_dir where
  "demo_keys = Some [\<lparr>kf_name = ''signing.key'', kf_is_file = True, kf_content = Some ''k''\<rparr>]"

definition demo_sig :: string where
  "demo_sig = SIG_PREFIX @ demo_sha []"

lemma demo_key_file: "verify_signature (\<lambda>k m. demo_sha []) demo_keys demo_sig = Inr True"
proof -
  have "py_strip demo_sig = demo_sig"
    using hex64_last [OF demo_sha_hex] unfolding demo_sig_def SIG_PREFIX_def
    by (intro py_strip_id) (simp_all add: is_space_def)
  moreover have "py_lower demo_sig = demo_sig"
    by (simp add: demo_sig_def py_lower_def SIG_PREFIX_def demo_sha_def lower_char_def map_replicate)
  ultimately have "parse_sha256_signature demo_sig = demo_sig"
    using demo_sha_hex [of "[]"] by (simp add: parse_sha256_signature_def demo_sig_def hex64_def startswith_def)
  moreover have "active_key_files demo_keys = [\<lparr>kf_name = ''signing.key'', kf_is_file = True, kf_content = Some ''k''\<rparr>]"
    by (simp add: active_key_files_def demo_keys_def path_suffix_def py_lower_def lower_char_def)
  ultimately show ?thesis
    by (simp add: verify_signature_def demo_sig_def SIG_PREFIX_def py_strip_def is_space_def)
qed

theorem key_file_signature_fits_every_payload_witness:
  "verify_payload_signature demo_sha (\<lambda>k m. demo_sha []) demo_dev_env demo_keys GOVERNANCE_SESSION ''epoch-2'' demo_sig ''ops'' = Inr True"
  by (rule key_file_signature_fits_every_payload [OF demo_key_file demo_secret demo_sha_hex])

end
