(* ===== verification/RollbackCertificate.thy ===== *)
theory RollbackCertificate
  imports HashChain Signatures
begin

text \<open>
  \<open>runtime/tools/rollback_certificate.py\<close>: the signed certificate of a rollback, the journal rows
  its issue writes, and its verification. Journal writes succeed here. A member
  \<open>completeness_checks\<close> that is neither absent, empty nor an object makes the verification raise.
\<close>

definition CERTIFICATE_VERSION :: string where
  "CERTIFICATE_VERSION = ''rollback-certificate/v1''"

definition CERTIFICATE_KEY_ID :: string where
  "CERTIFICATE_KEY_ID = ''rollback-cert-v1''"

record rollback_args =
  rb_mutation :: string
  rb_epoch :: string
  rb_prior :: string
  rb_restored :: string
  rb_trigger :: string
  rb_actor :: string
  rb_checks :: obj
  rb_forward :: string

definition certificate_body :: "rollback_args \<Rightarrow> string \<Rightarrow> obj" where
  "certificate_body a issued =
     [(''schema'', JStr CERTIFICATE_VERSION), (''mutation_id'', JStr (rb_mutation a)),
      (''epoch_id'', JStr (rb_epoch a)), (''prior_state_digest'', JStr (rb_prior a)),
      (''restored_state_digest'', JStr (rb_restored a)), (''trigger_reason'', JStr (rb_trigger a)),
      (''actor_class'', JStr (rb_actor a)), (''completeness_checks'', JObj (rb_checks a)),
      (''forward_certificate_digest'', JStr (rb_forward a)), (''issued_at'', JStr issued)]"

definition body_digest :: "(string \<Rightarrow> string) \<Rightarrow> rollback_args \<Rightarrow> string \<Rightarrow> string" where
  "body_digest sha a issued = sha256_prefixed sha (canonical False (JObj (certificate_body a issued)))"

definition sealed :: "rollback_args \<Rightarrow> string \<Rightarrow> string \<Rightarrow> string \<Rightarrow> obj" where
  "sealed a issued digest sig =
     certificate_body a issued @
     [(''rollback_certificate_digest'', JStr digest),
      (''signature'', JObj [(''algorithm'', JStr ''hmac-sha256''), (''key_id'', JStr CERTIFICATE_KEY_ID),
                            (''signed_digest'', JStr digest), (''value'', JStr sig)])]"

text \<open>A row written with \<open>write_entry\<close> and \<open>append_tx\<close>: the agent, the action and the payload.\<close>

type_synonym journal_row = "string \<times> string \<times> obj"

definition link_payload :: "rollback_args \<Rightarrow> string \<Rightarrow> string \<Rightarrow> obj" where
  "link_payload a digest now =
     [(''mutation_id'', JStr (rb_mutation a)), (''epoch_id'', JStr (rb_epoch a)),
      (''forward_certificate_digest'', JStr (rb_forward a)), (''rollback_certificate_digest'', JStr digest),
      (''ts'', JStr now)]"

definition issue_certificate ::
  "(string \<Rightarrow> string) \<Rightarrow> environ \<Rightarrow> string \<Rightarrow> string \<Rightarrow> string \<Rightarrow> rollback_args \<Rightarrow>
   (sig_error + obj \<times> string) \<times> journal_row list" where
  "issue_certificate sha env issued now agent a =
     (let digest = body_digest sha a issued
      in case sign_artifact sha env ''rollback_certificate'' CERTIFICATE_KEY_ID digest of
           Inl e \<Rightarrow> (Inl e, [])
         | Inr sig \<Rightarrow>
             let cert = sealed a issued digest sig
             in (Inr (cert, digest),
                 (agent, ''mutation_rollback_certificate'', cert) #
                 (if rb_forward a = [] then []
                  else [(agent, ''mutation_certificate_link'', link_payload a digest now)])))"

section \<open>Verification\<close>

definition REQUIRED_FIELDS :: "string list" where
  "REQUIRED_FIELDS =
     [''schema'', ''mutation_id'', ''epoch_id'', ''prior_state_digest'', ''restored_state_digest'',
      ''trigger_reason'', ''actor_class'', ''completeness_checks'', ''forward_certificate_digest'',
      ''issued_at'', ''rollback_certificate_digest'', ''signature'']"

definition text_or_empty :: "obj \<Rightarrow> string \<Rightarrow> string" where
  "text_or_empty d k = py_str (get_or_truthy d k (JStr []))"

datatype cert_error = CertSig sig_error | CertShape

definition read_args :: "obj \<Rightarrow> cert_error + rollback_args" where
  "read_args d =
     (case get_or_truthy d ''completeness_checks'' (JObj []) of
        JObj checks \<Rightarrow>
          Inr \<lparr>rb_mutation = text_or_empty d ''mutation_id'', rb_epoch = text_or_empty d ''epoch_id'',
               rb_prior = text_or_empty d ''prior_state_digest'', rb_restored = text_or_empty d ''restored_state_digest'',
               rb_trigger = text_or_empty d ''trigger_reason'', rb_actor = text_or_empty d ''actor_class'',
               rb_checks = checks, rb_forward = text_or_empty d ''forward_certificate_digest''\<rparr>
      | _ \<Rightarrow> Inl CertShape)"

fun lift_sig :: "sig_error + 'a \<Rightarrow> cert_error + 'a" where
  "lift_sig (Inl e) = Inl (CertSig e)"
| "lift_sig (Inr x) = Inr x"

definition verify_certificate ::
  "(string \<Rightarrow> string) \<Rightarrow> environ \<Rightarrow> obj \<Rightarrow> cert_error + bool \<times> string list" where
  "verify_certificate sha env d =
     (let missing = filter (\<lambda>k. k \<notin> set (keys d)) REQUIRED_FIELDS
      in if missing \<noteq> [] then Inr (False, map (\<lambda>k. ''missing:'' @ k) missing)
         else
           ebind (read_args d) (\<lambda>a.
             let digest = text_or_empty d ''rollback_certificate_digest'';
                 e1 = (if digest \<noteq> body_digest sha a (text_or_empty d ''issued_at'') then [''digest_mismatch''] else [])
             in case get_or_truthy d ''signature'' (JObj []) of
                  JObj s \<Rightarrow>
                    (let key = text_or_empty s ''key_id''
                     in ebind (lift_sig (verify_artifact sha env ''rollback_certificate''
                                (if key = [] then CERTIFICATE_KEY_ID else key)
                                (text_or_empty s ''signed_digest'') (text_or_empty s ''value''))) (\<lambda>ok.
                          let errors = e1
                                @ (if text_or_empty s ''signed_digest'' \<noteq> digest then [''signature_digest_link_mismatch''] else [])
                                @ (if \<not> ok then [''signature_verification_failed''] else [])
                          in Inr (errors = [], errors)))
                | _ \<Rightarrow> Inr (False, e1 @ [''signature_invalid''])))"

section \<open>Issued certificates\<close>

lemma text_or_empty_str: "dget d k = Some (JStr s) \<Longrightarrow> text_or_empty d k = s"
  by (simp add: text_or_empty_def get_or_truthy_def)

lemma sealed_fields [simp]:
  "dget (sealed a i d s) ''mutation_id'' = Some (JStr (rb_mutation a))"
  "dget (sealed a i d s) ''epoch_id'' = Some (JStr (rb_epoch a))"
  "dget (sealed a i d s) ''prior_state_digest'' = Some (JStr (rb_prior a))"
  "dget (sealed a i d s) ''restored_state_digest'' = Some (JStr (rb_restored a))"
  "dget (sealed a i d s) ''trigger_reason'' = Some (JStr (rb_trigger a))"
  "dget (sealed a i d s) ''actor_class'' = Some (JStr (rb_actor a))"
  "dget (sealed a i d s) ''completeness_checks'' = Some (JObj (rb_checks a))"
  "dget (sealed a i d s) ''forward_certificate_digest'' = Some (JStr (rb_forward a))"
  "dget (sealed a i d s) ''issued_at'' = Some (JStr i)"
  "dget (sealed a i d s) ''rollback_certificate_digest'' = Some (JStr d)"
  "dget (sealed a i d s) ''signature'' = Some (JObj [(''algorithm'', JStr ''hmac-sha256''),
     (''key_id'', JStr CERTIFICATE_KEY_ID), (''signed_digest'', JStr d), (''value'', JStr s)])"
  by (simp_all add: sealed_def certificate_body_def)

lemma sealed_complete: "filter (\<lambda>k. k \<notin> set (keys (sealed a i d s))) REQUIRED_FIELDS = []"
  by (simp add: sealed_def certificate_body_def keys_def REQUIRED_FIELDS_def)

lemma read_sealed: "read_args (sealed a i d s) = Inr a"
  by (cases a) (simp add: read_args_def text_or_empty_str get_or_truthy_def)

lemma issued_is_sealed:
  assumes "issue_certificate sha env issued now agent a = (Inr (cert, digest), rows)"
  obtains secret where
    "digest = body_digest sha a issued" "cert = sealed a issued digest (mac sha secret digest)"
    "resolve_hmac_secret env (the (dget ARTIFACT_HMAC_CONFIG ''rollback_certificate'')) CERTIFICATE_KEY_ID = Inr secret"
  using assms
  by (auto simp: issue_certificate_def sign_artifact_def sign_hmac_digest_def ARTIFACT_HMAC_CONFIG_def Let_def
      split: sum.splits)

text \<open>What an accepted certificate says: its digest is the digest of the fields it carries.\<close>

lemma accepted_digest:
  assumes "verify_certificate sha env d = Inr (True, es)"
  obtains a where "read_args d = Inr a"
    "text_or_empty d ''rollback_certificate_digest'' = body_digest sha a (text_or_empty d ''issued_at'')"
  using assms
  by (auto simp: verify_certificate_def Let_def split: if_splits json.splits)

lemma body_determined:
  assumes "canonical False (JObj (certificate_body a i)) = canonical False (JObj (certificate_body b j))"
  shows "a\<lparr>rb_checks := []\<rparr> = b\<lparr>rb_checks := []\<rparr> \<and> norm (JObj (rb_checks a)) = norm (JObj (rb_checks b)) \<and> i = j"
proof -
  have n: "norm (JObj (certificate_body a i)) = norm (JObj (certificate_body b j))"
    using assms by (simp only: canonical_determines)
  have "distinct (map fst (certificate_body a i))" "distinct (map fst (certificate_body b j))"
    by (simp_all add: certificate_body_def)
  then have same: "map_option norm (dget (certificate_body a i) k) = map_option norm (dget (certificate_body b j) k)" for k
    using dget_norm_obj n by (metis norm.simps(2))
  show ?thesis
    using same [of "''mutation_id''"] same [of "''epoch_id''"] same [of "''prior_state_digest''"]
      same [of "''restored_state_digest''"] same [of "''trigger_reason''"] same [of "''actor_class''"]
      same [of "''completeness_checks''"] same [of "''forward_certificate_digest''"] same [of "''issued_at''"]
    by (cases a; cases b) (simp add: certificate_body_def)
qed

lemma certificate_issue_verifies:
  assumes "\<And>x. hex64 (sha x)" "issue_certificate sha env issued now agent a = (Inr (cert, digest), rows)"
  shows "verify_certificate sha env cert = Inr (True, [])"
proof -
  obtain secret where s: "digest = body_digest sha a issued" "cert = sealed a issued digest (mac sha secret digest)"
    "resolve_hmac_secret env (the (dget ARTIFACT_HMAC_CONFIG ''rollback_certificate'')) CERTIFICATE_KEY_ID = Inr secret"
    by (rule issued_is_sealed [OF assms(2)])
  have "verify_artifact sha env ''rollback_certificate'' CERTIFICATE_KEY_ID digest (mac sha secret digest) = Inr True"
    using own_signature_verifies [OF s(3) assms(1)] by (simp add: verify_artifact_def ARTIFACT_HMAC_CONFIG_def)
  then show ?thesis
    by (simp add: s(2) verify_certificate_def sealed_complete read_sealed text_or_empty_str get_or_truthy_def
        Let_def s(1) CERTIFICATE_KEY_ID_def)
qed

section \<open>Properties\<close>

text \<open>
  C37 (roundtrip): every rollback certificate that is issued verifies in the environment it was signed
  in, with no errors.\<close>

theorem issued_certificate_verifies:
  assumes "\<And>x. hex64 (sha x)" "issue_certificate sha env issued now agent a = (Inr (cert, digest), rows)"
  shows "verify_certificate sha env cert = Inr (True, [])"
  by (rule certificate_issue_verifies [OF assms])

definition demo_rollback :: rollback_args where
  "demo_rollback = \<lparr>rb_mutation = ''m1'', rb_epoch = ''e1'', rb_prior = ''p'', rb_restored = ''r'', rb_trigger = ''manual'',
     rb_actor = ''MutationLifecycle'', rb_checks = [(''state_changed'', JBool True)], rb_forward = []\<rparr>"

lemma demo_issue:
  "\<exists>cert digest rows. issue_certificate demo_sha demo_dev_env ''t0'' ''t1'' ''mutator'' demo_rollback = (Inr (cert, digest), rows)"
  by (simp add: issue_certificate_def sign_artifact_def ARTIFACT_HMAC_CONFIG_def sign_hmac_digest_def Let_def
      resolve_hmac_secret_def getenv_def demo_dev_env_def py_strip_def is_space_def py_lower_def lower_char_def STRICT_ENVS_def)

theorem issued_certificate_verifies_witness:
  "\<exists>cert digest rows. issue_certificate demo_sha demo_dev_env ''t0'' ''t1'' ''mutator'' demo_rollback = (Inr (cert, digest), rows)
     \<and> verify_certificate demo_sha demo_dev_env cert = Inr (True, [])"
  using demo_issue issued_certificate_verifies [where sha = demo_sha, OF demo_sha_hex] by blast

text \<open>
  Two accepted certificates with the same certificate digest carry the same fields, up to
  the key order of the completeness checks, or exhibit two texts with the same SHA-256.\<close>

theorem accepted_certificates_agree:
  assumes "verify_certificate sha env d = Inr (True, es)" "verify_certificate sha env' d' = Inr (True, es')"
    and "text_or_empty d ''rollback_certificate_digest'' = text_or_empty d' ''rollback_certificate_digest''"
  shows "\<exists>a b. read_args d = Inr a \<and> read_args d' = Inr b \<and>
    (a\<lparr>rb_checks := []\<rparr> = b\<lparr>rb_checks := []\<rparr> \<and> norm (JObj (rb_checks a)) = norm (JObj (rb_checks b)) \<and>
       text_or_empty d ''issued_at'' = text_or_empty d' ''issued_at''
     \<or> (\<exists>x y. x \<noteq> y \<and> sha x = sha y))"
proof -
  obtain a where a: "read_args d = Inr a"
    "text_or_empty d ''rollback_certificate_digest'' = body_digest sha a (text_or_empty d ''issued_at'')"
    by (rule accepted_digest [OF assms(1)])
  obtain b where b: "read_args d' = Inr b"
    "text_or_empty d' ''rollback_certificate_digest'' = body_digest sha b (text_or_empty d' ''issued_at'')"
    by (rule accepted_digest [OF assms(2)])
  let ?x = "canonical False (JObj (certificate_body a (text_or_empty d ''issued_at'')))"
  let ?y = "canonical False (JObj (certificate_body b (text_or_empty d' ''issued_at'')))"
  have "sha ?x = sha ?y" using a(2) b(2) assms(3) by (simp add: body_digest_def)
  then show ?thesis using a(1) b(1) body_determined by blast
qed

theorem accepted_certificates_agree_witness:
  "\<exists>d. verify_certificate demo_sha demo_dev_env d = Inr (True, []) \<and>
    (\<exists>a b. read_args d = Inr a \<and> read_args d = Inr b \<and>
      (a\<lparr>rb_checks := []\<rparr> = b\<lparr>rb_checks := []\<rparr> \<and> norm (JObj (rb_checks a)) = norm (JObj (rb_checks b)) \<and>
         text_or_empty d ''issued_at'' = text_or_empty d ''issued_at''
       \<or> (\<exists>x y. x \<noteq> y \<and> demo_sha x = demo_sha y)))"
proof -
  obtain cert digest rows where
    "issue_certificate demo_sha demo_dev_env ''t0'' ''t1'' ''mutator'' demo_rollback = (Inr (cert, digest), rows)"
    using demo_issue by blast
  then have v: "verify_certificate demo_sha demo_dev_env cert = Inr (True, [])"
    by (rule certificate_issue_verifies [where sha = demo_sha, OF demo_sha_hex])
  show ?thesis using v accepted_certificates_agree [OF v v refl] by blast
qed

end
