(* ===== verification/Lifecycle.thy ===== *)
theory Lifecycle
  imports Complex_Main RollbackCertificate
begin

text \<open>
  \<open>runtime/mutation_lifecycle.py\<close>: the guarded stages of a mutation, from proposed to pruned, with
  rollback, retry and the state file; \<open>security/promotion_manifests/writer.py\<close>, the evidence
  bundle of a promotion. The context object is a record, the world it writes to another: the state
  file, the two journals and the bundles. A write that fails raises and has no effect. A float is the
  rational it denotes. The state file holds the fields \<open>persist\<close> writes, or text that does not
  parse. Metrics and sleeping are left out.
\<close>

section \<open>Stages\<close>

record stage_rule =
  sr_cert :: bool
  sr_fitness :: bool
  sr_modes :: "string list"

definition TRUST_MODES :: "string list" where
  "TRUST_MODES = [''dev'', ''prod'']"

definition TRANSITIONS :: "(string \<times> string, stage_rule) dict" where
  "TRANSITIONS =
     [((''proposed'', ''staged''), \<lparr>sr_cert = False, sr_fitness = False, sr_modes = TRUST_MODES\<rparr>),
      ((''staged'', ''certified''), \<lparr>sr_cert = True, sr_fitness = False, sr_modes = TRUST_MODES\<rparr>),
      ((''certified'', ''executing''), \<lparr>sr_cert = True, sr_fitness = True, sr_modes = TRUST_MODES\<rparr>),
      ((''executing'', ''completed''), \<lparr>sr_cert = True, sr_fitness = False, sr_modes = TRUST_MODES\<rparr>),
      ((''completed'', ''pruned''), \<lparr>sr_cert = False, sr_fitness = False, sr_modes = TRUST_MODES\<rparr>)]"

definition declared_predecessors :: "string \<Rightarrow> string list" where
  "declared_predecessors st = map (fst \<circ> fst) (filter (\<lambda>t. snd (fst t) = st) TRANSITIONS)"

definition KNOWN_AGENT_ID_PREFIXES :: "string list" where
  "KNOWN_AGENT_ID_PREFIXES =
     [''architect'', ''executor'', ''validator'', ''mutator'', ''claude-proposal-agent'', ''sample'',
      ''sandbox'', ''test'']"

definition known_agent_prefix_ok :: "string \<Rightarrow> bool" where
  "known_agent_prefix_ok agent \<longleftrightarrow> list_ex (startswith (py_lower (py_strip agent))) KNOWN_AGENT_ID_PREFIXES"

section \<open>Context and world\<close>

text \<open>\<open>lc_check\<close> says whether a founders-law check was supplied, \<open>lc_founders\<close> is its cached result.\<close>

record lifecycle =
  lc_mutation :: string
  lc_agent :: string
  lc_epoch :: string
  lc_signature :: string
  lc_trust :: string
  lc_certs :: obj
  lc_score :: "rat option"
  lc_threshold :: rat
  lc_check :: bool
  lc_founders :: "(bool \<times> string list) option"
  lc_stamps :: "(string, string) dict"
  lc_metadata :: obj
  lc_state :: string

datatype state_file = NoFile | Saved lifecycle | Damaged

record lc_world =
  lw_file :: state_file
  lw_entries :: "journal_row list"
  lw_txs :: "journal_row list"
  lw_bundles :: "(json \<times> string, obj) dict"

text \<open>The surroundings of a call: hashes, environment, keys, the JSON of a float, what the founders-law
  check returns when it is called, the clock, the hash \<open>append_tx\<close> returns, and which writes succeed.\<close>

record lc_env =
  le_sha :: "string \<Rightarrow> string"
  le_hmac :: "string \<Rightarrow> string \<Rightarrow> string"
  le_env :: environ
  le_keys :: keys_dir
  le_float :: "rat \<Rightarrow> json"
  le_founders :: "bool \<times> string list"
  le_now :: string
  le_tx_hash :: string
  le_entry_ok :: bool
  le_tx_ok :: bool
  le_bundle_ok :: bool
  le_persist_ok :: bool

datatype lc_error =
    Undeclared string string
  | GuardFailed string string
  | LcSignature sig_error
  | LcWrite string
  | LcDamaged
  | CannotRollback string
  | BadRollbackTarget string
  | BadAttempts

type_synonym lc_run = "lifecycle \<times> lc_world"

definition saved_part :: "lifecycle \<Rightarrow> lifecycle" where
  "saved_part c = c\<lparr>lc_check := False, lc_founders := None\<rparr>"

definition persist :: "lc_env \<Rightarrow> lc_run \<Rightarrow> (lc_error + unit) \<times> lc_run" where
  "persist v s =
     (case s of (c, w) \<Rightarrow>
        if le_persist_ok v then (Inr (), c, w\<lparr>lw_file := Saved (saved_part c)\<rparr>)
        else (Inl (LcWrite ''persist''), c, w))"

definition cleanup_state :: "lc_run \<Rightarrow> (lc_error + unit) \<times> lc_run" where
  "cleanup_state s = (case s of (c, w) \<Rightarrow> (Inr (), c, w\<lparr>lw_file := NoFile\<rparr>))"

definition or_text :: "string \<Rightarrow> string \<Rightarrow> string" where
  "or_text s dflt = (if s = [] then dflt else s)"

definition lc_restore :: "string \<Rightarrow> string \<Rightarrow> lc_world \<Rightarrow> lc_error + lifecycle option" where
  "lc_restore now mid w =
     (case lw_file w of
        NoFile \<Rightarrow> Inr None
      | Damaged \<Rightarrow> Inl LcDamaged
      | Saved c \<Rightarrow>
          Inr (Some (c\<lparr>lc_mutation := or_text (lc_mutation c) mid, lc_agent := or_text (lc_agent c) ''unknown'',
                       lc_epoch := or_text (lc_epoch c) ''unknown'', lc_trust := or_text (lc_trust c) ''dev'',
                       lc_check := False, lc_founders := None,
                       lc_stamps := (if ''proposed'' \<in> set (keys (lc_stamps c)) then lc_stamps c
                                     else dput ''proposed'' now (lc_stamps c)),
                       lc_state := or_text (lc_state c) ''proposed''\<rparr>)))"

section \<open>Guards\<close>

definition LIFECYCLE_KEYS :: key_source where
  "LIFECYCLE_KEYS =
     \<lparr>ks_prefix = ''ADAAD_MUTATION_LIFECYCLE_KEY_'', ks_generic = ''ADAAD_MUTATION_LIFECYCLE_SIGNING_KEY'',
      ks_fallback = ''adaad-mutation-lifecycle-dev-secret''\<rparr>"

definition signature_check :: "lc_env \<Rightarrow> string \<Rightarrow> lifecycle \<Rightarrow> sig_error + bool \<times> string" where
  "signature_check v trust c =
     ebind (verify_payload_signature (le_sha v) (le_hmac v) (le_env v) (le_keys v) LIFECYCLE_KEYS
              (lc_epoch c) (lc_signature c) (lc_agent c)) (\<lambda>b.
       if b then Inr (True, ''verified'')
       else if trust = ''dev'' then
         ebind (dev_signature_allowed (le_env v) (lc_signature c)) (\<lambda>d.
           Inr (if d then (True, ''dev_signature'') else (False, ''invalid_signature'')))
       else Inr (False, ''invalid_signature''))"

definition founders_law_ok :: "lc_env \<Rightarrow> lifecycle \<Rightarrow> bool \<times> string list" where
  "founders_law_ok v c =
     (case lc_founders c of
        Some r \<Rightarrow> r
      | None \<Rightarrow> if lc_check c then le_founders v else (True, []))"

definition trust_mode :: "lc_env \<Rightarrow> lifecycle \<Rightarrow> string" where
  "trust_mode v c =
     py_lower (py_strip (or_text (lc_trust c) (case le_env v ''ADAAD_TRUST_MODE'' of None \<Rightarrow> ''dev'' | Some t \<Rightarrow> t)))"

definition cert_ok :: "stage_rule \<Rightarrow> lifecycle \<Rightarrow> bool" where
  "cert_ok r c \<longleftrightarrow> \<not> sr_cert r \<or> lc_certs c \<noteq> []"

definition fitness_ok :: "stage_rule \<Rightarrow> lifecycle \<Rightarrow> bool" where
  "fitness_ok r c \<longleftrightarrow>
     \<not> sr_fitness r \<or> (case lc_score c of None \<Rightarrow> False | Some q \<Rightarrow> lc_threshold c \<le> q)"

definition guards_ok :: "lc_env \<Rightarrow> stage_rule \<Rightarrow> bool \<Rightarrow> lifecycle \<Rightarrow> bool" where
  "guards_ok v r sig c \<longleftrightarrow>
     sig \<and> fst (founders_law_ok v c) \<and> cert_ok r c \<and> fitness_ok r c \<and> trust_mode v c \<in> set (sr_modes r) \<and>
     known_agent_prefix_ok (lc_agent c)"

definition score_json :: "lc_env \<Rightarrow> lifecycle \<Rightarrow> json" where
  "score_json v c = (case lc_score c of None \<Rightarrow> JNull | Some q \<Rightarrow> le_float v q)"

definition guard_report :: "lc_env \<Rightarrow> stage_rule \<Rightarrow> bool \<Rightarrow> string \<Rightarrow> lifecycle \<Rightarrow> obj" where
  "guard_report v r sig how c =
     [(''ok'', JBool (guards_ok v r sig c)),
      (''cryovant_signature_validity'', JObj [(''ok'', JBool sig), (''method'', JStr how)]),
      (''founders_law_invariant_gate'', JObj [(''ok'', JBool (fst (founders_law_ok v c))),
         (''failures'', JList (map JStr (snd (founders_law_ok v c))))]),
      (''fitness_threshold_gate'', JObj [(''ok'', JBool (fitness_ok r c)), (''required'', JBool (sr_fitness r)),
         (''score'', score_json v c), (''threshold'', le_float v (lc_threshold c))]),
      (''trust_mode_compatibility_gate'', JObj [(''ok'', JBool (trust_mode v c \<in> set (sr_modes r))),
         (''trust_mode'', JStr (trust_mode v c)), (''allowed'', JList (map JStr (sort (sr_modes r))))]),
      (''cert_reference_gate'', JObj [(''ok'', JBool (cert_ok r c)), (''required'', JBool (sr_cert r))]),
      (''known_agent_id_prefix_gate'', JObj [(''ok'', JBool (known_agent_prefix_ok (lc_agent c))),
         (''allowed_prefixes'', JList (map JStr (sort KNOWN_AGENT_ID_PREFIXES)))])]"

definition stamps_json :: "(string, string) dict \<Rightarrow> json" where
  "stamps_json d = JObj (map (\<lambda>(k, t). (k, JStr t)) d)"

definition transition_payload :: "lc_env \<Rightarrow> string \<Rightarrow> string \<Rightarrow> obj \<Rightarrow> lifecycle \<Rightarrow> obj" where
  "transition_payload v from_state to_state report c =
     [(''mutation_id'', JStr (lc_mutation c)), (''agent_id'', JStr (lc_agent c)), (''epoch_id'', JStr (lc_epoch c)),
      (''from_state'', JStr from_state), (''to_state'', JStr to_state), (''trust_mode'', JStr (lc_trust c)),
      (''guard_report'', JObj report), (''cert_refs'', JObj (lc_certs c)), (''fitness_score'', score_json v c),
      (''fitness_threshold'', le_float v (lc_threshold c)), (''stage_timestamps'', stamps_json (lc_stamps c)),
      (''metadata'', JObj (lc_metadata c)), (''ts'', JStr (le_now v))]"

section \<open>Writes\<close>

text \<open>\<open>journal.write_entry\<close>, then \<open>journal.append_tx\<close>.\<close>

definition journal_write :: "lc_env \<Rightarrow> journal_row \<Rightarrow> lc_run \<Rightarrow> (lc_error + unit) \<times> lc_run" where
  "journal_write v row s =
     (case s of (c, w) \<Rightarrow>
        if \<not> le_entry_ok v then (Inl (LcWrite ''entry''), c, w)
        else if \<not> le_tx_ok v then (Inl (LcWrite ''tx''), c, w\<lparr>lw_entries := lw_entries w @ [row]\<rparr>)
        else (Inr (), c, w\<lparr>lw_entries := lw_entries w @ [row], lw_txs := lw_txs w @ [row]\<rparr>))"

fun journal_writes :: "lc_env \<Rightarrow> journal_row list \<Rightarrow> lc_run \<Rightarrow> (lc_error + unit) \<times> lc_run" where
  "journal_writes v [] s = (Inr (), s)"
| "journal_writes v (row # rows) s = ethen (journal_write v row s) (\<lambda>u. journal_writes v rows)"

definition evidence_bundle :: "lc_env \<Rightarrow> string \<Rightarrow> string \<Rightarrow> obj \<Rightarrow> lifecycle \<Rightarrow> obj" where
  "evidence_bundle v from_state to_state report c =
     (let history = (case dget (lc_metadata c) ''fitness_history'' of
                       Some (JList xs) \<Rightarrow> xs
                     | _ \<Rightarrow> (case lc_score c of None \<Rightarrow> [] | Some q \<Rightarrow> [le_float v q]))
      in [(''mutation_id'', JStr (lc_mutation c)), (''epoch_id'', JStr (lc_epoch c)),
          (''from_state'', JStr from_state), (''to_state'', JStr to_state), (''guard_report'', JObj report),
          (''cert_refs'', JObj (lc_certs c)), (''fitness_history'', JList history),
          (''ledger_hash_at_promotion'', JStr (le_tx_hash v))])"

definition bundle_material :: "(string \<Rightarrow> string) \<Rightarrow> obj \<Rightarrow> obj" where
  "bundle_material sha b = dput ''bundle_hash'' (JStr (sha256_prefixed sha (canonical False (JObj b)))) b"

definition write_bundle :: "lc_env \<Rightarrow> obj \<Rightarrow> lc_run \<Rightarrow> (lc_error + unit) \<times> lc_run" where
  "write_bundle v b s =
     (case s of (c, w) \<Rightarrow>
        if \<not> le_bundle_ok v then (Inl (LcWrite ''bundle''), c, w)
        else (Inr (), c, w\<lparr>lw_bundles := dput (get_or_truthy (lc_metadata c) ''promotion_manifests_dir'' JNull, lc_mutation c)
                              (bundle_material (le_sha v) b) (lw_bundles w)\<rparr>))"

definition reject :: "lc_env \<Rightarrow> obj \<Rightarrow> lc_error \<Rightarrow> lc_run \<Rightarrow> (lc_error + string) \<times> lc_run" where
  "reject v payload err s =
     ethen (journal_write v (lc_agent (fst s), ''mutation_lifecycle_rejected'', payload) s) (\<lambda>u s.
     ethen (persist v s) (\<lambda>u s. (Inl err, s)))"

section \<open>Transitions\<close>

definition undeclared_report :: "string \<Rightarrow> obj" where
  "undeclared_report next_state =
     [(''ok'', JBool False), (''reason'', JStr ''undeclared_transition''),
      (''declared_predecessors'', JList (map JStr (sort (declared_predecessors next_state))))]"

definition lc_transition ::
  "lc_env \<Rightarrow> string \<Rightarrow> string \<Rightarrow> lc_run \<Rightarrow> (lc_error + string) \<times> lc_run" where
  "lc_transition v cur nxt s =
     (case s of (c, w) \<Rightarrow>
        case dget TRANSITIONS (cur, nxt) of
          None \<Rightarrow>
            reject v (transition_payload v cur nxt (undeclared_report nxt) c) (Undeclared cur nxt) (c, w)
        | Some r \<Rightarrow>
            case signature_check v (trust_mode v c) c of
              Inl e \<Rightarrow> (Inl (LcSignature e), c, w)
            | Inr (sig, how) \<Rightarrow>
                let report = guard_report v r sig how c;
                    ok = guards_ok v r sig c;
                    c1 = c\<lparr>lc_founders := Some (founders_law_ok v c), lc_trust := trust_mode v c\<rparr>
                in if \<not> ok then
                     reject v (transition_payload v cur nxt report c1) (GuardFailed cur nxt) (c1, w)
                   else
                     let c2 = c1\<lparr>lc_stamps := dput nxt (le_now v) (lc_stamps c1), lc_state := nxt\<rparr>
                     in ethen (journal_write v (lc_agent c2, ''mutation_lifecycle_transition'',
                                 transition_payload v cur nxt report c2) (c2, w)) (\<lambda>u s.
                        ethen (write_bundle v (evidence_bundle v cur nxt report c2) s) (\<lambda>u s.
                        ethen (if nxt \<in> {''completed'', ''pruned''} then cleanup_state s else persist v s) (\<lambda>u s.
                          (Inr nxt, s)))))"

definition rollback_target :: "string \<Rightarrow> string option" where
  "rollback_target st =
     map_of [(''executing'', ''certified''), (''certified'', ''staged''), (''staged'', ''proposed'')] st"

definition snapshot_digest :: "(string \<Rightarrow> string) \<Rightarrow> lifecycle \<Rightarrow> string" where
  "snapshot_digest sha c =
     sha256_prefixed sha (canonical False (JObj
       [(''current_state'', JStr (lc_state c)), (''stage_timestamps'', stamps_json (lc_stamps c)),
        (''cert_refs'', JObj (lc_certs c))]))"

definition forward_digest :: "obj \<Rightarrow> string" where
  "forward_digest certs =
     py_str (get_or_truthy certs ''forward_certificate_digest''
       (get_or_truthy certs ''certificate_digest'' (get_or_truthy certs ''bundle_id'' (JStr []))))"

definition file_exists :: "lc_world \<Rightarrow> bool" where
  "file_exists w \<longleftrightarrow> lw_file w \<noteq> NoFile"

definition rollback_request :: "lc_env \<Rightarrow> string \<Rightarrow> string \<Rightarrow> lifecycle \<Rightarrow> lifecycle \<Rightarrow> lc_world \<Rightarrow> rollback_args" where
  "rollback_request v expected reason before after w =
     \<lparr>rb_mutation = lc_mutation after, rb_epoch = lc_epoch after, rb_prior = snapshot_digest (le_sha v) before,
      rb_restored = snapshot_digest (le_sha v) after, rb_trigger = reason, rb_actor = ''MutationLifecycle'',
      rb_checks = [(''rollback_target_matches_expected'', JBool (lc_state after = expected)),
                   (''state_persisted'', JBool (file_exists w)),
                   (''state_changed'', JBool (lc_state before \<noteq> lc_state after))],
      rb_forward = forward_digest (lc_certs after)\<rparr>"

definition certified_rollback :: "string \<Rightarrow> lifecycle \<Rightarrow> lifecycle" where
  "certified_rollback digest c =
     (let certs = dput ''rollback_certificate_digest'' (JStr digest) (lc_certs c)
      in c\<lparr>lc_metadata := dput ''last_rollback_certificate_digest'' (JStr digest) (lc_metadata c),
           lc_certs := (if forward_digest (lc_certs c) = [] then certs
                        else dput ''forward_certificate_digest'' (JStr (forward_digest (lc_certs c))) certs)\<rparr>)"

text \<open>The second half of a rollback: issue the certificate, note its digest, save again.\<close>

definition certify_rollback ::
  "lc_env \<Rightarrow> string \<Rightarrow> string \<Rightarrow> lifecycle \<Rightarrow> lifecycle \<Rightarrow> lc_run \<Rightarrow> (lc_error + string) \<times> lc_run" where
  "certify_rollback v to_state reason before c1 s =
     (case issue_certificate (le_sha v) (le_env v) (le_now v) (le_now v) (lc_agent c1)
             (rollback_request v to_state reason before c1 (snd s)) of
        (Inl e, rows) \<Rightarrow> (Inl (LcSignature e), s)
      | (Inr (cert, digest), rows) \<Rightarrow>
          ethen (journal_writes v rows s) (\<lambda>u s.
          ethen (persist v (certified_rollback digest c1, snd s)) (\<lambda>u s. (Inr to_state, s))))"

definition lc_rollback ::
  "lc_env \<Rightarrow> string \<Rightarrow> string \<Rightarrow> lc_run \<Rightarrow> (lc_error + string) \<times> lc_run" where
  "lc_rollback v to_state reason s =
     (case s of (c, w) \<Rightarrow>
        case rollback_target (lc_state c) of
          None \<Rightarrow> (Inl (CannotRollback (lc_state c)), c, w)
        | Some expected \<Rightarrow>
            if to_state \<noteq> expected then (Inl (BadRollbackTarget to_state), c, w)
            else
              let c1 = c\<lparr>lc_state := to_state, lc_stamps := dput to_state (le_now v) (lc_stamps c)\<rparr>;
                  report = [(''ok'', JBool True), (''rollback'', JBool True), (''reason'', JStr reason)]
              in ethen (journal_write v (lc_agent c1, ''mutation_lifecycle_transition'',
                          transition_payload v (lc_state c) to_state report c1) (c1, w)) (\<lambda>u s.
                 ethen (persist v s) (\<lambda>u s. certify_rollback v to_state reason c c1 s)))"

text \<open>\<open>retry_transition\<close>: only the two lifecycle errors are retried; each attempt has its own
  surroundings.\<close>

fun retried :: "lc_error \<Rightarrow> bool" where
  "retried (Undeclared a b) = True"
| "retried (GuardFailed a b) = True"
| "retried _ = False"

fun retry_loop :: "lc_env list \<Rightarrow> string \<Rightarrow> lc_error \<Rightarrow> lc_run \<Rightarrow> (lc_error + string) \<times> lc_run" where
  "retry_loop [] nxt last_error s = (Inl last_error, s)"
| "retry_loop (v # vs) nxt last_error s =
     (case lc_transition v (lc_state (fst s)) nxt s of
        (Inr st, s') \<Rightarrow> (Inr st, s')
      | (Inl e, s') \<Rightarrow> if retried e then retry_loop vs nxt e s' else (Inl e, s'))"

definition retry_transition ::
  "lc_env list \<Rightarrow> string \<Rightarrow> lc_run \<Rightarrow> (lc_error + string) \<times> lc_run" where
  "retry_transition vs nxt s = (if vs = [] then (Inl BadAttempts, s) else retry_loop vs nxt BadAttempts s)"

section \<open>When every write succeeds\<close>

definition writes_ok :: "lc_env \<Rightarrow> bool" where
  "writes_ok v \<longleftrightarrow> le_entry_ok v \<and> le_tx_ok v \<and> le_bundle_ok v \<and> le_persist_ok v"

lemma journal_write_ok:
  "writes_ok v \<Longrightarrow> journal_write v row (c, w) = (Inr (), c, w\<lparr>lw_entries := lw_entries w @ [row], lw_txs := lw_txs w @ [row]\<rparr>)"
  by (simp add: journal_write_def writes_ok_def)

lemma persist_ok: "writes_ok v \<Longrightarrow> persist v (c, w) = (Inr (), c, w\<lparr>lw_file := Saved (saved_part c)\<rparr>)"
  by (simp add: persist_def writes_ok_def)

text \<open>The world after a rejection: one row in each journal, and the context in the state file.\<close>

definition rejected_world :: "obj \<Rightarrow> lifecycle \<Rightarrow> lc_world \<Rightarrow> lc_world" where
  "rejected_world payload c w =
     (let row = (lc_agent c, ''mutation_lifecycle_rejected'', payload)
      in w\<lparr>lw_entries := lw_entries w @ [row], lw_txs := lw_txs w @ [row], lw_file := Saved (saved_part c)\<rparr>)"

lemma reject_ok: "writes_ok v \<Longrightarrow> reject v payload err (c, w) = (Inl err, c, rejected_world payload c w)"
  by (simp add: reject_def journal_write_ok persist_ok rejected_world_def Let_def)

definition settled :: "lc_env \<Rightarrow> lifecycle \<Rightarrow> lifecycle" where
  "settled v c = c\<lparr>lc_founders := Some (founders_law_ok v c), lc_trust := trust_mode v c\<rparr>"

definition moved :: "lc_env \<Rightarrow> string \<Rightarrow> lifecycle \<Rightarrow> lifecycle" where
  "moved v nxt c = (settled v c)\<lparr>lc_stamps := dput nxt (le_now v) (lc_stamps c), lc_state := nxt\<rparr>"

lemma payload_stages [simp]:
  "dget (transition_payload v cur nxt report c) ''from_state'' = Some (JStr cur)"
  "dget (transition_payload v cur nxt report c) ''to_state'' = Some (JStr nxt)"
  by (simp_all add: transition_payload_def)


lemma transition_refused:
  assumes "writes_ok v" "dget TRANSITIONS (cur, nxt) = Some r" "signature_check v (trust_mode v c) c = Inr (sig, how)"
    "\<not> guards_ok v r sig c"
  shows "lc_transition v cur nxt (c, w) =
    (Inl (GuardFailed cur nxt), settled v c,
     rejected_world (transition_payload v cur nxt (guard_report v r sig how c) (settled v c)) (settled v c) w)"
  using assms by (simp add: lc_transition_def settled_def [symmetric] reject_ok Let_def)

lemma transition_made:
  assumes "writes_ok v" "dget TRANSITIONS (cur, nxt) = Some r" "signature_check v (trust_mode v c) c = Inr (sig, how)"
    "guards_ok v r sig c"
  shows "\<exists>w' payload. lc_transition v cur nxt (c, w) = (Inr nxt, moved v nxt c, w') \<and>
    dget payload ''from_state'' = Some (JStr cur) \<and> dget payload ''to_state'' = Some (JStr nxt) \<and>
    lw_file w' = (if nxt \<in> {''completed'', ''pruned''} then NoFile else Saved (saved_part (moved v nxt c))) \<and>
    lw_entries w' = lw_entries w @ [(lc_agent c, ''mutation_lifecycle_transition'', payload)] \<and>
    lw_txs w' = lw_txs w @ [(lc_agent c, ''mutation_lifecycle_transition'', payload)]"
  using assms
  by (simp add: lc_transition_def journal_write_ok persist_ok write_bundle_def cleanup_state_def Let_def moved_def
      settled_def writes_ok_def [THEN iffD1])

lemma moved_fields [simp]:
  "lc_state (moved v nxt c) = nxt" "lc_certs (moved v nxt c) = lc_certs c" "lc_agent (moved v nxt c) = lc_agent c"
  "lc_epoch (moved v nxt c) = lc_epoch c" "lc_signature (moved v nxt c) = lc_signature c"
  "lc_score (moved v nxt c) = lc_score c" "lc_threshold (moved v nxt c) = lc_threshold c"
  "lc_founders (moved v nxt c) = Some (founders_law_ok v c)" "lc_trust (moved v nxt c) = trust_mode v c"
  by (simp_all add: moved_def settled_def)

lemma settled_fields [simp]: "lc_state (settled v c) = lc_state c" "lc_agent (settled v c) = lc_agent c"
  by (simp_all add: settled_def)

lemma rejected_world_fields [simp]:
  "lw_file (rejected_world p c w) = Saved (saved_part c)"
  "lw_entries (rejected_world p c w) = lw_entries w @ [(lc_agent c, ''mutation_lifecycle_rejected'', p)]"
  "lw_txs (rejected_world p c w) = lw_txs w @ [(lc_agent c, ''mutation_lifecycle_rejected'', p)]"
  by (simp_all add: rejected_world_def Let_def)

lemma mode_stable: "t \<in> set TRUST_MODES \<Longrightarrow> lc_trust c = t \<Longrightarrow> trust_mode v c = t"
  by (auto simp: TRUST_MODES_def trust_mode_def or_text_def py_strip_def is_space_def py_lower_def lower_char_def)

lemma rule_modes: "dget TRANSITIONS (cur, nxt) = Some r \<Longrightarrow> sr_modes r = TRUST_MODES"
proof -
  have "\<forall>e \<in> set TRANSITIONS. sr_modes (snd e) = TRUST_MODES" by (simp add: TRANSITIONS_def)
  then show "dget TRANSITIONS (cur, nxt) = Some r \<Longrightarrow> ?thesis" using map_of_SomeD by fastforce
qed

lemma signature_check_cong:
  "lc_epoch c' = lc_epoch c \<Longrightarrow> lc_signature c' = lc_signature c \<Longrightarrow> lc_agent c' = lc_agent c \<Longrightarrow>
   signature_check v t c' = signature_check v t c"
  unfolding signature_check_def by (simp only:)

section \<open>The stages climb\<close>

definition declared :: "string \<Rightarrow> string \<Rightarrow> bool" where
  "declared cur nxt \<longleftrightarrow> dget TRANSITIONS (cur, nxt) \<noteq> None"

definition stage_rank :: "string \<Rightarrow> nat" where
  "stage_rank st =
     length (takeWhile (\<lambda>s. s \<noteq> st)
       [''proposed'', ''staged'', ''certified'', ''executing'', ''completed'', ''pruned''])"

lemma declared_pairs: "declared cur nxt \<Longrightarrow> (cur, nxt) \<in> fst ` set TRANSITIONS"
  unfolding declared_def by (metis domIff dom_map_of_conv_image_fst)

lemma declared_rank: "declared cur nxt \<Longrightarrow> stage_rank cur < stage_rank nxt \<and> stage_rank nxt \<le> 5"
proof -
  have "\<forall>p \<in> fst ` set TRANSITIONS. stage_rank (fst p) < stage_rank (snd p) \<and> stage_rank (snd p) \<le> 5"
    by (simp add: TRANSITIONS_def stage_rank_def)
  then show "declared cur nxt \<Longrightarrow> ?thesis" using declared_pairs by fastforce
qed

interpretation stages: ranked_machine declared stage_rank
  by standard (simp add: declared_rank)

text \<open>Without a rollback a mutation moves at most five times and is in no stage twice.\<close>

lemma stage_run:
  assumes "successively declared (s # run)"
  shows "distinct (s # run) \<and> length run \<le> 5"
proof (cases run rule: rev_cases)
  case (snoc front t)
  then have "declared (last (s # front)) t" using assms by (auto simp: successively_append_iff successively_Cons)
  then have "stage_rank (last (s # run)) \<le> 5" using declared_rank snoc by simp
  then show ?thesis using stages.run_length [OF assms] stages.run_distinct [OF assms] by linarith
qed simp

section \<open>Properties\<close>

section \<open>What a transition may do\<close>












definition demo_lc :: lifecycle where
  "demo_lc = \<lparr>lc_mutation = ''m1'', lc_agent = ''mutator'', lc_epoch = ''e1'', lc_signature = ''cryovant-dev-x'',
     lc_trust = ''dev'', lc_certs = [], lc_score = None, lc_threshold = 1 / 2, lc_check = True,
     lc_founders = Some (True, []), lc_stamps = [(''proposed'', ''t0'')], lc_metadata = [], lc_state = ''staged''\<rparr>"

definition demo_lw :: lc_world where
  "demo_lw = \<lparr>lw_file = Saved (saved_part demo_lc), lw_entries = [], lw_txs = [], lw_bundles = []\<rparr>"

definition demo_os :: environ where
  "demo_os k = (if k = ''ADAAD_ENV'' then Some ''dev'' else if k = ''CRYOVANT_DEV_MODE'' then Some ''1'' else None)"

definition demo_lv :: lc_env where
  "demo_lv = \<lparr>le_sha = demo_sha, le_hmac = (\<lambda>k m. demo_sha m), le_env = demo_os, le_keys = None,
     le_float = (\<lambda>q. JNull), le_founders = (True, []), le_now = ''t1'', le_tx_hash = ''h'', le_entry_ok = True,
     le_tx_ok = True, le_bundle_ok = True, le_persist_ok = True\<rparr>"

lemma demo_writes: "writes_ok demo_lv"
  by (simp add: writes_ok_def demo_lv_def)

lemma demo_os_env [simp]:
  "getenv demo_os k = (if k = ''ADAAD_ENV'' then ''dev'' else if k = ''CRYOVANT_DEV_MODE'' then ''1'' else [])"
  by (simp add: getenv_def demo_os_def)

lemma demo_dev_words [simp]: "py_strip ''dev'' = ''dev''" "py_lower ''dev'' = ''dev''" "py_lower ''1'' = ''1''" "py_strip [] = []"
  by (simp_all add: py_strip_def is_space_def py_lower_def lower_char_def)

lemma demo_explicit_dev: "explicit_dev demo_os = Inr True"
  by (simp add: explicit_dev_def env_mode_def KNOWN_ENVS_def dev_mode_def demo_os_def [of "''CRYOVANT_DEV_MODE''"] TRUTHY_def Let_def)

lemma demo_secret_os: "resolve_hmac_secret demo_os ks ''mutator'' = Inr (ks_fallback ks @ '':mutator'')"
  if "ks = LIFECYCLE_KEYS"
  unfolding that by (simp add: resolve_hmac_secret_def LIFECYCLE_KEYS_def STRICT_ENVS_def Let_def)

lemma demo_signature: "lc_epoch c = ''e1'' \<Longrightarrow> lc_signature c = ''cryovant-dev-x'' \<Longrightarrow> lc_agent c = ''mutator'' \<Longrightarrow>
   signature_check demo_lv ''dev'' c = Inr (True, ''dev_signature'')"
proof -
  assume c: "lc_epoch c = ''e1''" "lc_signature c = ''cryovant-dev-x''" "lc_agent c = ''mutator''"
  have can: "canonical_signature ''cryovant-dev-x'' = ''sha256:cryovant-dev-x''"
    by (simp add: canonical_signature_def py_strip_def is_space_def startswith_def SIG_PREFIX_def py_lower_def lower_char_def)
  have ne: "''cryovant-dev-x'' \<noteq> replicate 64 (CHR ''a'')"
    by (rule notI, drule arg_cong [where f = length]) simp
  have "verify_hmac_digest_signature demo_sha demo_os LIFECYCLE_KEYS ''mutator'' d ''cryovant-dev-x'' = Inr False" for d
    by (simp add: verify_hmac_digest_signature_def sign_hmac_digest_def demo_secret_os [OF refl] can compare_digest_def
        mac_def SIG_PREFIX_def demo_sha_def list_all_iff ne)
  moreover have "parse_sha256_signature ''cryovant-dev-x'' = []"
    by (simp add: parse_sha256_signature_def py_strip_def is_space_def startswith_def SIG_PREFIX_def py_lower_def lower_char_def)
  ultimately have "verify_payload_signature demo_sha (\<lambda>k m. demo_sha m) demo_os None LIFECYCLE_KEYS ''e1'' ''cryovant-dev-x'' ''mutator''
      = Inr False"
    by (simp add: verify_payload_signature_def is_static_signature_def verify_signature_def Let_def)
  then show ?thesis
    by (simp add: signature_check_def demo_lv_def c dev_signature_allowed_def startswith_def demo_explicit_dev)
qed

lemma demo_trust: "trust_mode demo_lv demo_lc = ''dev''"
  by (simp add: trust_mode_def demo_lc_def or_text_def)

lemma demo_lc_signature: "signature_check demo_lv (trust_mode demo_lv demo_lc) demo_lc = Inr (True, ''dev_signature'')"
  unfolding demo_trust by (rule demo_signature) (simp_all add: demo_lc_def)



text \<open>The guards apart from the certificate reference.\<close>

definition guards_but_cert :: "lc_env \<Rightarrow> lifecycle \<Rightarrow> bool" where
  "guards_but_cert v c \<longleftrightarrow>
     (\<exists>how. signature_check v (trust_mode v c) c = Inr (True, how)) \<and> fst (founders_law_ok v c) \<and>
     trust_mode v c \<in> set TRUST_MODES \<and> known_agent_prefix_ok (lc_agent c)"

lemma rules:
  "dget TRANSITIONS (''proposed'', ''staged'') = Some \<lparr>sr_cert = False, sr_fitness = False, sr_modes = TRUST_MODES\<rparr>"
  "dget TRANSITIONS (''staged'', ''certified'') = Some \<lparr>sr_cert = True, sr_fitness = False, sr_modes = TRUST_MODES\<rparr>"
  by (simp_all add: TRANSITIONS_def)

text \<open>A context that has passed the guards once passes them again after the move.\<close>

lemma guards_kept_by_move:
  assumes "guards_but_cert v c"
  shows "guards_but_cert v (moved v nxt c)"
proof -
  obtain how where h: "signature_check v (trust_mode v c) c = Inr (True, how)" "fst (founders_law_ok v c)"
    "trust_mode v c \<in> set TRUST_MODES" "known_agent_prefix_ok (lc_agent c)"
    using assms by (auto simp: guards_but_cert_def)
  have t: "trust_mode v (moved v nxt c) = trust_mode v c" by (rule mode_stable [OF h(3)]) simp
  have "signature_check v (trust_mode v c) (moved v nxt c) = Inr (True, how)"
    unfolding h(1) [symmetric] by (rule signature_check_cong) simp_all
  moreover have "founders_law_ok v (moved v nxt c) = founders_law_ok v c"
    by (simp add: founders_law_ok_def [of v "moved v nxt c"])
  ultimately show ?thesis using h t by (auto simp: guards_but_cert_def)
qed

lemma stage_step:
  assumes "writes_ok v" "guards_but_cert v c"
    and "dget TRANSITIONS (cur, nxt) = Some r" "\<not> sr_fitness r" "cert_ok r c"
  shows "\<exists>w'. lc_transition v cur nxt (c, w) = (Inr nxt, moved v nxt c, w')"
proof -
  obtain how where h: "signature_check v (trust_mode v c) c = Inr (True, how)"
    using assms(2) by (auto simp: guards_but_cert_def)
  have "guards_ok v r True c"
    using assms rule_modes [OF assms(3)] by (auto simp: guards_ok_def guards_but_cert_def fitness_ok_def)
  from transition_made [OF assms(1,3) h this, of w] show ?thesis by blast
qed

lemma journal_write_context: "journal_write v row s = (r, s') \<Longrightarrow> fst s' = fst s"
  by (cases s) (auto simp: journal_write_def split: if_splits)

lemma persist_context: "persist v s = (r, s') \<Longrightarrow> fst s' = fst s"
  by (cases s) (auto simp: persist_def split: if_splits)

lemma certify_made:
  assumes "certify_rollback v to_state reason c c1 s = (Inr st, c', w')"
  obtains digest where "c' = certified_rollback digest c1"
proof -
  obtain r rows where i: "issue_certificate (le_sha v) (le_env v) (le_now v) (le_now v) (lc_agent c1)
      (rollback_request v to_state reason c c1 (snd s)) = (r, rows)" by (rule prod.exhaust)
  show thesis
  proof (cases r)
    case (Inl e)
    then show ?thesis using assms i by (simp add: certify_rollback_def)
  next
    case (Inr cd)
    then obtain s3 where "persist v (certified_rollback (snd cd) c1, snd s3) = (Inr (), c', w')"
      using assms i by (cases cd) (auto simp: certify_rollback_def ethen_Inr)
    then show ?thesis using persist_context that by fastforce
  qed
qed

lemma rollback_made:
  assumes "lc_rollback v to_state reason (c, w) = (Inr st, c', w')"
  obtains digest where "rollback_target (lc_state c) = Some to_state"
    "c' = certified_rollback digest (c\<lparr>lc_state := to_state, lc_stamps := dput to_state (le_now v) (lc_stamps c)\<rparr>)"
proof -
  have target: "rollback_target (lc_state c) = Some to_state"
    using assms by (auto simp: lc_rollback_def split: option.splits if_splits)
  let ?c1 = "c\<lparr>lc_state := to_state, lc_stamps := dput to_state (le_now v) (lc_stamps c)\<rparr>"
  obtain s2 where "certify_rollback v to_state reason c ?c1 s2 = (Inr st, c', w')"
    using assms unfolding lc_rollback_def by (auto simp: target Let_def ethen_Inr)
  then obtain digest where "c' = certified_rollback digest ?c1" by (rule certify_made)
  with target show thesis by (rule that)
qed

lemma dput_not_empty [simp]: "dput k x d \<noteq> []"
  by (cases d) auto

lemma rolled_back_fields [simp]:
  "lc_certs (certified_rollback d c) \<noteq> []" "lc_agent (certified_rollback d c) = lc_agent c"
  "lc_epoch (certified_rollback d c) = lc_epoch c" "lc_signature (certified_rollback d c) = lc_signature c"
  "lc_trust (certified_rollback d c) = lc_trust c" "lc_founders (certified_rollback d c) = lc_founders c"
  "lc_check (certified_rollback d c) = lc_check c" "lc_state (certified_rollback d c) = lc_state c"
  by (simp_all add: certified_rollback_def Let_def)

text \<open>
  A rollback buys the certificate. A staged mutation without certificate references is
  refused certification; after a rollback to proposed, whose own certificate digest is stored among
  the references, it is staged and certified, with no other certificate than the rollback's.\<close>

theorem lifecycle_rollback_passes_certificate_gate:
  assumes "writes_ok v" "guards_but_cert v c" "lc_state c = ''staged''" "lc_certs c = []"
    and "lc_rollback v ''proposed'' reason (c, w) = (Inr st, c', w')"
  shows "fst (lc_transition v ''staged'' ''certified'' (c, w)) = Inl (GuardFailed ''staged'' ''certified'') \<and>
    fst (lc_transition v ''proposed'' ''staged'' (c', w')) = Inr ''staged'' \<and>
    fst (lc_transition v ''staged'' ''certified'' (snd (lc_transition v ''proposed'' ''staged'' (c', w')))) = Inr ''certified''"
proof -
  obtain how where h: "signature_check v (trust_mode v c) c = Inr (True, how)"
    using assms(2) by (auto simp: guards_but_cert_def)
  have refused: "fst (lc_transition v ''staged'' ''certified'' (c, w)) = Inl (GuardFailed ''staged'' ''certified'')"
    using transition_refused [OF assms(1) rules(2) h] assms(4) by (simp add: guards_ok_def cert_ok_def)
  obtain digest where c': "c' = certified_rollback digest
      (c\<lparr>lc_state := ''proposed'', lc_stamps := dput ''proposed'' (le_now v) (lc_stamps c)\<rparr>)"
    by (rule rollback_made [OF assms(5)])
  have "trust_mode v c' = trust_mode v c" by (simp add: trust_mode_def c')
  moreover have "signature_check v t c' = signature_check v t c" for t
    by (rule signature_check_cong) (simp_all add: c')
  moreover have "founders_law_ok v c' = founders_law_ok v c" by (simp add: founders_law_ok_def c')
  ultimately have g: "guards_but_cert v c'" using assms(2) by (simp add: guards_but_cert_def c')
  obtain w1 where t1: "lc_transition v ''proposed'' ''staged'' (c', w') = (Inr ''staged'', moved v ''staged'' c', w1)"
    using stage_step [OF assms(1) g rules(1), of w'] by (auto simp: cert_ok_def)
  have "cert_ok \<lparr>sr_cert = True, sr_fitness = False, sr_modes = TRUST_MODES\<rparr> (moved v ''staged'' c')"
    by (simp add: cert_ok_def c')
  then obtain w2 where "lc_transition v ''staged'' ''certified'' (moved v ''staged'' c', w1) =
      (Inr ''certified'', moved v ''certified'' (moved v ''staged'' c'), w2)"
    using stage_step [OF assms(1) guards_kept_by_move [OF g] rules(2), where w = w1] by auto
  then show ?thesis using refused t1 by simp
qed

lemma journal_writes_ok: "writes_ok v \<Longrightarrow> \<exists>w'. journal_writes v rows (c, w) = (Inr (), c, w')"
  by (induction rows arbitrary: w) (auto simp: journal_write_ok)

lemma rollback_succeeds:
  assumes "writes_ok v" "rollback_target (lc_state c) = Some to_state"
    and "resolve_hmac_secret (le_env v) (the (dget ARTIFACT_HMAC_CONFIG ''rollback_certificate'')) CERTIFICATE_KEY_ID = Inr secret"
  shows "\<exists>c' w'. lc_rollback v to_state reason (c, w) = (Inr to_state, c', w')"
proof -
  have certify: "\<exists>c' w'. certify_rollback v to_state reason before c1 (c1, w1) = (Inr to_state, c', w')" for before c1 w1
  proof -
    obtain cert digest rows where i: "issue_certificate (le_sha v) (le_env v) (le_now v) (le_now v) (lc_agent c1)
        (rollback_request v to_state reason before c1 w1) = (Inr (cert, digest), rows)"
      using assms(3) by (auto simp: issue_certificate_def sign_artifact_def ARTIFACT_HMAC_CONFIG_def sign_hmac_digest_def Let_def)
    obtain w2 where "journal_writes v rows (c1, w1) = (Inr (), c1, w2)" using journal_writes_ok [OF assms(1)] by blast
    then show ?thesis using i by (simp add: certify_rollback_def persist_ok [OF assms(1)])
  qed
  show ?thesis
    unfolding lc_rollback_def using assms(2) certify
    by (simp add: Let_def journal_write_ok [OF assms(1)] persist_ok [OF assms(1)])
qed

lemma demo_certificate_secret:
  "resolve_hmac_secret demo_os (the (dget ARTIFACT_HMAC_CONFIG ''rollback_certificate'')) CERTIFICATE_KEY_ID =
     Inr ''cryovant-rollback-certificate:rollback-cert-v1''"
  by (simp add: resolve_hmac_secret_def ARTIFACT_HMAC_CONFIG_def CERTIFICATE_KEY_ID_def STRICT_ENVS_def Let_def)

lemma demo_rolls_back: "\<exists>c' w'. lc_rollback demo_lv ''proposed'' ''r'' (demo_lc, demo_lw) = (Inr ''proposed'', c', w')"
  by (rule rollback_succeeds [OF demo_writes, where secret = "''cryovant-rollback-certificate:rollback-cert-v1''"])
    (simp_all add: demo_lc_def rollback_target_def demo_lv_def demo_certificate_secret)

lemma demo_guards: "guards_but_cert demo_lv demo_lc"
proof -
  have "\<exists>how. signature_check demo_lv (trust_mode demo_lv demo_lc) demo_lc = Inr (True, how)"
    using demo_lc_signature by blast
  then show ?thesis
    unfolding guards_but_cert_def
    by (simp only: demo_trust)
      (simp add: founders_law_ok_def demo_lc_def TRUST_MODES_def known_agent_prefix_ok_def KNOWN_AGENT_ID_PREFIXES_def
        startswith_def py_strip_def is_space_def py_lower_def lower_char_def)
qed

theorem lifecycle_rollback_passes_certificate_gate_witness:
  "\<exists>c' w'. lc_rollback demo_lv ''proposed'' ''r'' (demo_lc, demo_lw) = (Inr ''proposed'', c', w') \<and>
    fst (lc_transition demo_lv ''staged'' ''certified'' (demo_lc, demo_lw)) = Inl (GuardFailed ''staged'' ''certified'') \<and>
    fst (lc_transition demo_lv ''proposed'' ''staged'' (c', w')) = Inr ''staged'' \<and>
    fst (lc_transition demo_lv ''staged'' ''certified'' (snd (lc_transition demo_lv ''proposed'' ''staged'' (c', w')))) =
      Inr ''certified''"
proof -
  obtain c' w' where r: "lc_rollback demo_lv ''proposed'' ''r'' (demo_lc, demo_lw) = (Inr ''proposed'', c', w')"
    using demo_rolls_back by blast
  have "lc_state demo_lc = ''staged''" "lc_certs demo_lc = []" by (simp_all add: demo_lc_def)
  from r lifecycle_rollback_passes_certificate_gate [OF demo_writes demo_guards this r] show ?thesis by blast
qed

text \<open>
  A restart clears a founders-law refusal. While the refusal is cached the transition is
  rejected, and the rejection itself saves the context; but the state file does not hold the check or
  its result, so the restored context counts as lawful and the same transition goes through, with
  the same surroundings.\<close>

theorem lifecycle_restart_forgets_founders_refusal:
  assumes "writes_ok v" "lc_founders c = Some (False, failures)"
    and "dget TRANSITIONS (cur, nxt) = Some r" "signature_check v (trust_mode v c) c = Inr (True, how)"
    and "cert_ok r c" "fitness_ok r c" "trust_mode v c \<in> set TRUST_MODES" "known_agent_prefix_ok (lc_agent c)"
    and "lc_mutation c \<noteq> []" "lc_agent c \<noteq> []" "lc_epoch c \<noteq> []" "lc_state c \<noteq> []"
  shows "\<exists>c' w' c''. lc_transition v cur nxt (c, w) = (Inl (GuardFailed cur nxt), c', w') \<and>
    lc_restore now (lc_mutation c) w' = Inr (Some c'') \<and> fst (lc_transition v cur nxt (c'', w')) = Inr nxt"
proof -
  have "\<not> guards_ok v r True c" using assms(2) by (simp add: guards_ok_def founders_law_ok_def)
  then obtain p where t: "lc_transition v cur nxt (c, w) =
      (Inl (GuardFailed cur nxt), settled v c, rejected_world p (settled v c) w)"
    using transition_refused [OF assms(1,3,4)] by blast
  have mode: "trust_mode v c \<noteq> []" using assms(7) by (auto simp: TRUST_MODES_def)
  obtain c'' where c'': "lc_restore now (lc_mutation c) (rejected_world p (settled v c) w) = Inr (Some c'')"
    "lc_agent c'' = lc_agent c" "lc_epoch c'' = lc_epoch c" "lc_signature c'' = lc_signature c" "lc_certs c'' = lc_certs c"
    "lc_score c'' = lc_score c" "lc_threshold c'' = lc_threshold c" "lc_trust c'' = trust_mode v c"
    "lc_founders c'' = None" "\<not> lc_check c''"
    using assms(9-12) mode by (simp add: lc_restore_def saved_part_def settled_def or_text_def)
  have m: "trust_mode v c'' = trust_mode v c" by (rule mode_stable [OF assms(7) c''(8)])
  have "signature_check v (trust_mode v c'') c'' = Inr (True, how)"
    unfolding m assms(4) [symmetric] by (rule signature_check_cong) (simp_all add: c'')
  moreover have "guards_ok v r True c''"
    using assms(5-8) rule_modes [OF assms(3)] m
    by (simp add: guards_ok_def founders_law_ok_def cert_ok_def fitness_ok_def c''(2-10) split: option.splits)
  ultimately obtain w2 where "lc_transition v cur nxt (c'', rejected_world p (settled v c) w) = (Inr nxt, moved v nxt c'', w2)"
    using transition_made [OF assms(1,3)] by blast
  then show ?thesis using t c''(1) by fastforce
qed

definition demo_unlawful :: lifecycle where
  "demo_unlawful = demo_lc\<lparr>lc_founders := Some (False, [''law-1'']), lc_state := ''proposed''\<rparr>"

theorem lifecycle_restart_forgets_founders_refusal_witness:
  "\<exists>c' w' c''. lc_transition demo_lv ''proposed'' ''staged'' (demo_unlawful, demo_lw) =
      (Inl (GuardFailed ''proposed'' ''staged''), c', w') \<and>
    lc_restore ''t9'' (lc_mutation demo_unlawful) w' = Inr (Some c'') \<and>
    fst (lc_transition demo_lv ''proposed'' ''staged'' (c'', w')) = Inr ''staged''"
proof -
  have mode: "trust_mode demo_lv demo_unlawful = ''dev''"
    by (rule mode_stable) (simp_all add: demo_unlawful_def demo_lc_def TRUST_MODES_def)
  have sig: "signature_check demo_lv (trust_mode demo_lv demo_unlawful) demo_unlawful = Inr (True, ''dev_signature'')"
    unfolding mode by (rule demo_signature) (simp_all add: demo_unlawful_def demo_lc_def)
  have "known_agent_prefix_ok (lc_agent demo_unlawful)"
    using demo_guards by (simp add: guards_but_cert_def demo_unlawful_def)
  then show ?thesis
    by (intro lifecycle_restart_forgets_founders_refusal [OF demo_writes _ rules(1) sig])
      (simp_all add: mode TRUST_MODES_def, simp_all add: demo_unlawful_def demo_lc_def cert_ok_def fitness_ok_def)
qed

end
