(* ===== verification/Promotion.thy ===== *)
theory Promotion
  imports Complex_Main Signatures
begin

text \<open>
  \<open>runtime/evolution/promotion_state_machine.py\<close>: the promotion states, the allowed moves, their
  guards, and the default canary stages. A guard report is a JSON object; \<open>fj\<close> is the JSON value of
  a float, and a context carries what its founders-law check returns.
\<close>

section \<open>States and rules\<close>

datatype promotion_state = PROPOSED | CERTIFIED | ACTIVATED | REJECTED

fun promotion_value :: "promotion_state \<Rightarrow> string" where
  "promotion_value PROPOSED = ''proposed''"
| "promotion_value CERTIFIED = ''certified''"
| "promotion_value ACTIVATED = ''activated''"
| "promotion_value REJECTED = ''rejected''"

definition ALLOWED_TRANSITIONS :: "(promotion_state, promotion_state list) dict" where
  "ALLOWED_TRANSITIONS =
     [(PROPOSED, [CERTIFIED, REJECTED]), (CERTIFIED, [ACTIVATED, REJECTED]), (ACTIVATED, [REJECTED]), (REJECTED, [])]"

record promotion_rule =
  pr_fitness :: bool
  pr_modes :: "string list"

definition PROMOTION_RULES :: "(promotion_state \<times> promotion_state, promotion_rule) dict" where
  "PROMOTION_RULES =
     [((PROPOSED, CERTIFIED), \<lparr>pr_fitness = False, pr_modes = [''dev'', ''prod'']\<rparr>),
      ((CERTIFIED, ACTIVATED), \<lparr>pr_fitness = True, pr_modes = [''dev'', ''prod'']\<rparr>),
      ((PROPOSED, REJECTED), \<lparr>pr_fitness = False, pr_modes = [''dev'', ''prod'']\<rparr>),
      ((CERTIFIED, REJECTED), \<lparr>pr_fitness = False, pr_modes = [''dev'', ''prod'']\<rparr>),
      ((ACTIVATED, REJECTED), \<lparr>pr_fitness = False, pr_modes = [''dev'', ''prod'']\<rparr>)]"

record canary_stage =
  cs_stage_id :: string
  cs_cohorts :: "string list"
  cs_threshold :: int
  cs_halt :: bool

definition canary_stage_definitions :: "canary_stage list" where
  "canary_stage_definitions =
     [\<lparr>cs_stage_id = ''canary_small'', cs_cohorts = [''cohort_a'', ''cohort_b''], cs_threshold = 1, cs_halt = True\<rparr>,
      \<lparr>cs_stage_id = ''canary_medium'', cs_cohorts = [''cohort_c'', ''cohort_d''], cs_threshold = 2, cs_halt = True\<rparr>]"

record promotion_context =
  px_signature :: string
  px_trust :: string
  px_score :: "rat option"
  px_threshold :: rat
  px_founders :: "bool \<times> string list"

text \<open>The stub the context uses when no check is given.\<close>

definition founders_law_check :: "bool \<times> string list" where
  "founders_law_check = (True, [])"

definition can_transition :: "promotion_state \<Rightarrow> promotion_state \<Rightarrow> bool" where
  "can_transition cur nxt \<longleftrightarrow> nxt \<in> set (the (dget ALLOWED_TRANSITIONS cur))"

section \<open>Guards\<close>

definition px_mode :: "promotion_context \<Rightarrow> string" where
  "px_mode x = py_lower (py_strip (if px_trust x = [] then ''dev'' else px_trust x))"

definition px_fit :: "promotion_rule \<Rightarrow> promotion_context \<Rightarrow> bool" where
  "px_fit r x \<longleftrightarrow> \<not> pr_fitness r \<or> (case px_score x of None \<Rightarrow> False | Some q \<Rightarrow> px_threshold x \<le> q)"

definition px_guards :: "promotion_rule \<Rightarrow> bool \<Rightarrow> promotion_context \<Rightarrow> bool" where
  "px_guards r sig x \<longleftrightarrow> sig \<and> fst (px_founders x) \<and> px_fit r x \<and> px_mode x \<in> set (pr_modes r)"

definition px_report :: "(rat \<Rightarrow> json) \<Rightarrow> promotion_rule \<Rightarrow> bool \<Rightarrow> promotion_context \<Rightarrow> obj" where
  "px_report fj r sig x =
     [(''ok'', JBool (px_guards r sig x)),
      (''cryovant_signature_validity'', JObj [(''ok'', JBool sig)]),
      (''founders_law_invariant_gate'', JObj [(''ok'', JBool (fst (px_founders x))),
         (''failures'', JList (map JStr (snd (px_founders x))))]),
      (''fitness_threshold_gate'', JObj [(''ok'', JBool (px_fit r x)), (''required'', JBool (pr_fitness r)),
         (''score'', case px_score x of None \<Rightarrow> JNull | Some q \<Rightarrow> fj q), (''threshold'', fj (px_threshold x))]),
      (''trust_mode_compatibility_gate'', JObj [(''ok'', JBool (px_mode x \<in> set (pr_modes r))),
         (''trust_mode'', JStr (px_mode x)), (''allowed'', JList (map JStr (sort (pr_modes r))))])]"

text \<open>The report and whether it says \<open>ok\<close>; the signature comes from \<open>cryovant.signature_valid\<close>.\<close>

definition evaluate_transition_guards ::
  "(rat \<Rightarrow> json) \<Rightarrow> (string \<Rightarrow> string \<Rightarrow> string) \<Rightarrow> environ \<Rightarrow> keys_dir \<Rightarrow> promotion_state \<Rightarrow> promotion_state \<Rightarrow>
   promotion_context \<Rightarrow> sig_error + bool \<times> obj" where
  "evaluate_transition_guards fj hm env kd cur nxt x =
     (case dget PROMOTION_RULES (cur, nxt) of
        None \<Rightarrow> Inr (False, [(''ok'', JBool False), (''reason'', JStr ''undeclared_transition'')])
      | Some r \<Rightarrow>
          ebind (signature_valid hm env kd (px_signature x)) (\<lambda>sig.
            Inr (px_guards r sig x, px_report fj r sig x)))"

datatype promotion_error =
    InvalidPromotion promotion_state promotion_state
  | TransitionGuardFailed promotion_state promotion_state obj
  | PromotionSignature sig_error

definition require_transition ::
  "(rat \<Rightarrow> json) \<Rightarrow> (string \<Rightarrow> string \<Rightarrow> string) \<Rightarrow> environ \<Rightarrow> keys_dir \<Rightarrow> promotion_state \<Rightarrow> promotion_state \<Rightarrow>
   promotion_context option \<Rightarrow> promotion_error + obj" where
  "require_transition fj hm env kd cur nxt context =
     (if \<not> can_transition cur nxt then Inl (InvalidPromotion cur nxt)
      else
        case context of
          None \<Rightarrow> Inr [(''ok'', JBool True)]
        | Some x \<Rightarrow>
            (case evaluate_transition_guards fj hm env kd cur nxt x of
               Inl e \<Rightarrow> Inl (PromotionSignature e)
             | Inr (ok, report) \<Rightarrow> if ok then Inr report else Inl (TransitionGuardFailed cur nxt report)))"

section \<open>The machine climbs\<close>

fun promotion_rank :: "promotion_state \<Rightarrow> nat" where
  "promotion_rank PROPOSED = 0"
| "promotion_rank CERTIFIED = 1"
| "promotion_rank ACTIVATED = 2"
| "promotion_rank REJECTED = 3"

lemma can_transition_simps [simp]:
  "can_transition PROPOSED s \<longleftrightarrow> s \<in> {CERTIFIED, REJECTED}"
  "can_transition CERTIFIED s \<longleftrightarrow> s \<in> {ACTIVATED, REJECTED}"
  "can_transition ACTIVATED s \<longleftrightarrow> s = REJECTED"
  "can_transition REJECTED s \<longleftrightarrow> False"
  by (simp_all add: can_transition_def ALLOWED_TRANSITIONS_def)

interpretation promotion: ranked_machine can_transition promotion_rank
proof
  show "promotion_rank s < promotion_rank t" if "can_transition s t" for s t
    using that by (cases s) auto
qed

lemma rank_bound: "promotion_rank s \<le> 3"
  by (cases s) simp_all

text \<open>Every allowed move has a rule, and every rule is an allowed move.\<close>

lemma rules_cover: "dget PROMOTION_RULES (cur, nxt) \<noteq> None \<longleftrightarrow> can_transition cur nxt"
  by (cases cur; cases nxt) (simp_all add: PROMOTION_RULES_def)

lemma rule_needs: "dget PROMOTION_RULES (cur, nxt) = Some r \<Longrightarrow> pr_modes r = [''dev'', ''prod''] \<and> (pr_fitness r \<longleftrightarrow> nxt = ACTIVATED)"
  by (cases cur; cases nxt) (auto simp: PROMOTION_RULES_def)

lemma required_with_context:
  assumes "require_transition fj hm env kd cur nxt (Some x) = Inr report"
  obtains r where "can_transition cur nxt" "dget PROMOTION_RULES (cur, nxt) = Some r"
    "signature_valid hm env kd (px_signature x) = Inr True" "px_guards r True x"
  using assms
  by (auto simp: require_transition_def evaluate_transition_guards_def px_guards_def
      split: if_splits sum.splits option.splits)

section \<open>Properties\<close>

text \<open>
  However promotions are requested, a run of accepted moves from any state visits no
  state twice and has at most three moves; from proposed to activated it passes through certified.\<close>

theorem promotion_runs_end:
  assumes "successively (\<lambda>s t. \<exists>x report. require_transition fj hm env kd s t x = Inr report) (s # run)"
  shows "distinct (s # run) \<and> length run \<le> 3 \<and>
    (s = PROPOSED \<and> ACTIVATED \<in> set run \<longrightarrow> CERTIFIED \<in> set run)"
proof -
  have run: "successively can_transition (s # run)"
    using assms by (rule successively_mono) (auto simp: require_transition_def split: if_splits)
  have "length run \<le> 3"
    using promotion.run_length [OF run] rank_bound [of "last (s # run)"] by linarith
  moreover have "CERTIFIED \<in> set run" if "s = PROPOSED" "ACTIVATED \<in> set run"
  proof (cases run)
    case (Cons t rest)
    then have "t = CERTIFIED \<or> t = REJECTED" using run that(1) by simp
    moreover have "rest = []" if "t = REJECTED"
      using run Cons that by (cases rest) simp_all
    ultimately show ?thesis using that(2) Cons by auto
  qed (use that in simp)
  ultimately show ?thesis using promotion.run_distinct [OF run] by blast
qed

lemma unguarded_move: "can_transition s t \<Longrightarrow> require_transition fj hm env kd s t None = Inr [(''ok'', JBool True)]"
  by (simp add: require_transition_def)

theorem promotion_runs_end_witness:
  "distinct [PROPOSED, CERTIFIED, ACTIVATED, REJECTED] \<and> length [CERTIFIED, ACTIVATED, REJECTED] \<le> 3 \<and>
    CERTIFIED \<in> set [CERTIFIED, ACTIVATED, REJECTED]"
proof -
  have "\<exists>x report. require_transition (\<lambda>q. JNull) (\<lambda>k m. m) (\<lambda>k. None) None s t x = Inr report" if "can_transition s t" for s t
    using unguarded_move [OF that] by blast
  then have "successively (\<lambda>s t. \<exists>x report. require_transition (\<lambda>q. JNull) (\<lambda>k m. m) (\<lambda>k. None) None s t x = Inr report)
      [PROPOSED, CERTIFIED, ACTIVATED, REJECTED]" by simp
  from promotion_runs_end [OF this] show ?thesis by simp
qed

text \<open>
  An accepted move with a context was signed by a valid signature, in a known trust mode,
  under a passing founders-law check, and an activation has a fitness score at its threshold. The
  same signature guard holds back a rejection: nothing that lost its valid signature can be rejected.\<close>

theorem promotion_guarded_moves:
  "(case require_transition fj hm env kd cur nxt (Some x) of
      Inl e \<Rightarrow> True
    | Inr report \<Rightarrow>
        can_transition cur nxt \<and> signature_valid hm env kd (px_signature x) = Inr True \<and> fst (px_founders x) \<and>
        px_mode x \<in> {''dev'', ''prod''} \<and>
        (nxt = ACTIVATED \<longrightarrow> (case px_score x of None \<Rightarrow> False | Some q \<Rightarrow> px_threshold x \<le> q)))
   \<and> (signature_valid hm env kd (px_signature x) = Inr False \<longrightarrow>
        (\<forall>s. \<exists>e. require_transition fj hm env kd s REJECTED (Some x) = Inl e))"
proof (intro conjI impI allI)
  show "case require_transition fj hm env kd cur nxt (Some x) of
      Inl e \<Rightarrow> True
    | Inr report \<Rightarrow>
        can_transition cur nxt \<and> signature_valid hm env kd (px_signature x) = Inr True \<and> fst (px_founders x) \<and>
        px_mode x \<in> {''dev'', ''prod''} \<and>
        (nxt = ACTIVATED \<longrightarrow> (case px_score x of None \<Rightarrow> False | Some q \<Rightarrow> px_threshold x \<le> q))"
  proof (cases "require_transition fj hm env kd cur nxt (Some x)")
    case (Inr report)
    then obtain r where r: "can_transition cur nxt" "dget PROMOTION_RULES (cur, nxt) = Some r"
      "signature_valid hm env kd (px_signature x) = Inr True" "px_guards r True x"
      by (rule required_with_context)
    then show ?thesis using Inr rule_needs [OF r(2)] by (auto simp: px_guards_def px_fit_def)
  qed simp
next
  fix s
  assume "signature_valid hm env kd (px_signature x) = Inr False"
  then show "\<exists>e. require_transition fj hm env kd s REJECTED (Some x) = Inl e"
    using required_with_context [of fj hm env kd s REJECTED x] by (cases "require_transition fj hm env kd s REJECTED (Some x)") auto
qed


definition unsigned_context :: promotion_context where
  "unsigned_context = \<lparr>px_signature = [], px_trust = ''prod'', px_score = None, px_threshold = 1, px_founders = (True, [])\<rparr>"

theorem promotion_guarded_moves_witness:
  "\<forall>s. \<exists>e. require_transition (\<lambda>q. JNull) (\<lambda>k m. m) (\<lambda>k. None) None s REJECTED (Some unsigned_context) = Inl e"
proof -
  have "signature_valid (\<lambda>k m. m) (\<lambda>k. None) None (px_signature unsigned_context) = Inr False"
    by (simp add: signature_valid_def keys_configured_def env_mode_def getenv_def py_strip_def py_lower_def Let_def)
  then show ?thesis
    using promotion_guarded_moves [where fj = "\<lambda>q. JNull" and hm = "\<lambda>k m. m" and env = "\<lambda>k. None" and kd = None
        and x = unsigned_context] by blast
qed

end
