(* ===== verification/RateLimiter.thy ===== *)
theory RateLimiter
  imports Rounding Signatures
begin

text \<open>
  \<open>runtime/governance/rate_limiter.py\<close>: the sliding-window limiter of the proposal endpoint. The
  state is the dictionary of buckets, a bucket the list of its timestamps. A clock reading is the
  rational the float denotes and the arithmetic on it is exact; \<open>fl\<close> is \<open>float\<close> of a text, \<open>None\<close>
  where it raises (a finite number otherwise). The clock is read before the lock is taken, so a run
  is a list of calls in the order they got the lock, with the readings they brought along.
\<close>

section \<open>Configuration\<close>

definition DEFAULT_RATE_LIMIT :: int where
  "DEFAULT_RATE_LIMIT = 10"

definition DEFAULT_WINDOW_SECONDS :: rat where
  "DEFAULT_WINDOW_SECONDS = 60"

definition configured_limit :: "environ \<Rightarrow> int" where
  "configured_limit env =
     (case env ''ADAAD_PROPOSAL_RATE_LIMIT'' of
        None \<Rightarrow> max 1 DEFAULT_RATE_LIMIT
      | Some s \<Rightarrow> (case parse_int s of None \<Rightarrow> DEFAULT_RATE_LIMIT | Some v \<Rightarrow> max 1 v))"

definition configured_window :: "(string \<Rightarrow> rat option) \<Rightarrow> environ \<Rightarrow> rat" where
  "configured_window fl env =
     (case env ''ADAAD_PROPOSAL_RATE_WINDOW_SECONDS'' of
        None \<Rightarrow> max 1 DEFAULT_WINDOW_SECONDS
      | Some s \<Rightarrow> (case fl s of None \<Rightarrow> DEFAULT_WINDOW_SECONDS | Some v \<Rightarrow> max 1 v))"

section \<open>The limiter\<close>

type_synonym buckets = "(string, rat list) dict"

record check_info =
  ci_key :: string
  ci_count :: int
  ci_limit :: int
  ci_window :: rat
  ci_retry_after :: "rat option"

text \<open>\<open>round(x, 1)\<close>\<close>

definition round1 :: "rat \<Rightarrow> rat" where
  "round1 x = of_int (half_even (x * 10)) / 10"

definition limiter_check ::
  "int \<Rightarrow> rat \<Rightarrow> rat \<Rightarrow> string \<Rightarrow> buckets \<Rightarrow> (bool \<times> check_info) \<times> buckets" where
  "limiter_check limit window now key b =
     (let kept = filter (\<lambda>t. now - window < t) (dget_or b key []);
          n = int (length kept)
      in if limit \<le> n
         then ((False, \<lparr>ci_key = key, ci_count = n, ci_limit = limit, ci_window = window,
                        ci_retry_after = Some (round1 (window - (now - hd kept)))\<rparr>), dput key kept b)
         else ((True, \<lparr>ci_key = key, ci_count = n + 1, ci_limit = limit, ci_window = window,
                       ci_retry_after = None\<rparr>), dput key (kept @ [now]) b))"

definition check_configured ::
  "(string \<Rightarrow> rat option) \<Rightarrow> environ \<Rightarrow> rat \<Rightarrow> string \<Rightarrow> buckets \<Rightarrow> (bool \<times> check_info) \<times> buckets" where
  "check_configured fl env = limiter_check (configured_limit env) (configured_window fl env)"

definition limiter_reset :: "string option \<Rightarrow> buckets \<Rightarrow> buckets" where
  "limiter_reset key b = (case key of None \<Rightarrow> [] | Some k \<Rightarrow> AList.delete k b)"

section \<open>Runs\<close>

text \<open>The calls of a run that were let through, in the order of the lock.\<close>

fun limiter_run :: "int \<Rightarrow> rat \<Rightarrow> (string \<times> rat) list \<Rightarrow> buckets \<Rightarrow> (string \<times> rat) list \<times> buckets" where
  "limiter_run limit window [] b = ([], b)"
| "limiter_run limit window ((key, now) # calls) b =
     (case limiter_check limit window now key b of
        ((ok, info), b') \<Rightarrow>
          (case limiter_run limit window calls b' of
             (acc, b'') \<Rightarrow> (if ok then (key, now) # acc else acc, b'')))"

definition times_of :: "string \<Rightarrow> (string \<times> rat) list \<Rightarrow> rat list" where
  "times_of key acc = map snd (filter (\<lambda>c. fst c = key) acc)"

definition in_window :: "rat \<Rightarrow> rat \<Rightarrow> rat list \<Rightarrow> nat" where
  "in_window window x ts = length (filter (\<lambda>t. x - window < t \<and> t \<le> x) ts)"

lemma configured_positive: "1 \<le> configured_limit env \<and> 1 \<le> configured_window fl env"
  by (simp add: configured_limit_def configured_window_def DEFAULT_RATE_LIMIT_def DEFAULT_WINDOW_SECONDS_def
      split: option.split)

text \<open>
  What the buckets know of the calls let through so far: above every cutoff still to come they hold
  exactly those calls, and no window holds more calls than the limit.
\<close>

definition tracks :: "rat \<Rightarrow> rat \<Rightarrow> string \<Rightarrow> (string \<times> rat) list \<Rightarrow> buckets \<Rightarrow> bool" where
  "tracks window cutoff key acc b \<longleftrightarrow>
     (\<forall>c \<ge> cutoff. filter (\<lambda>t. c < t) (dget_or b key []) = filter (\<lambda>t. c < t) (times_of key acc))"

lemma times_of_snoc [simp]: "times_of key (acc @ [(k, t)]) = times_of key acc @ (if k = key then [t] else [])"
  by (simp add: times_of_def)

lemma tracks_later: "tracks window c key acc b \<Longrightarrow> c \<le> c' \<Longrightarrow> tracks window c' key acc b"
  by (auto simp: tracks_def intro: order_trans)

lemma filter_twice: "c' \<le> c \<Longrightarrow> filter (\<lambda>t. c' < t \<and> c < t) ts = filter (\<lambda>t. c < (t :: rat)) ts"
  by (rule filter_cong) auto

lemma length_filter_le: "(\<And>t. P t \<Longrightarrow> Q t) \<Longrightarrow> length (filter P ts) \<le> length (filter Q ts)"
  by (induction ts) (auto simp: le_SucI)

lemma check_bucket:
  assumes "limiter_check limit window now k b = ((ok, info), b')"
  shows "dget_or b' key [] =
    (if k = key then filter (\<lambda>t. now - window < t) (dget_or b key []) @ (if ok then [now] else []) else dget_or b key [])"
    and "ok \<longleftrightarrow> int (length (filter (\<lambda>t. now - window < t) (dget_or b k []))) < limit"
  using assms by (auto simp: limiter_check_def Let_def split: if_splits)

lemma check_tracks:
  assumes "tracks window cutoff key acc b" "cutoff \<le> now - window" "limiter_check limit window now k b = ((ok, info), b')"
  shows "tracks window (now - window) key (if ok then acc @ [(k, now)] else acc) b'"
  using tracks_later [OF assms(1,2)] unfolding tracks_def check_bucket(1) [OF assms(3)]
  by (auto simp: filter_twice)

lemma window_snoc:
  assumes "tracks window cutoff key acc b" "cutoff \<le> now - window" "\<forall>t \<in> set (times_of key acc). t \<le> now"
    and "int (length (filter (\<lambda>t. now - window < t) (dget_or b key []))) < limit"
    and "\<forall>x. int (in_window window x (times_of key acc)) \<le> limit"
  shows "int (in_window window x (times_of key acc @ [now])) \<le> limit"
proof (cases "x - window < now \<and> now \<le> x")
  case True
  have "filter (\<lambda>t. now - window < t) (dget_or b key []) = filter (\<lambda>t. now - window < t) (times_of key acc)"
    using assms(1,2) by (simp add: tracks_def)
  then have few: "int (length (filter (\<lambda>t. now - window < t) (times_of key acc))) < limit" using assms(4) by simp
  have "length (filter (\<lambda>t. x - window < t \<and> t \<le> x) (times_of key acc)) \<le>
      length (filter (\<lambda>t. now - window < t) (times_of key acc))"
    using True by (intro length_filter_le) auto
  then show ?thesis using few True by (simp add: in_window_def)
next
  case False
  then show ?thesis using assms(5) by (auto simp: in_window_def)
qed

text \<open>The invariant of a run: the calls so far, the reading of the last one, the buckets.\<close>

definition limiter_inv :: "int \<Rightarrow> rat \<Rightarrow> string \<Rightarrow> rat \<Rightarrow> (string \<times> rat) list \<Rightarrow> buckets \<Rightarrow> bool" where
  "limiter_inv limit window key latest acc b \<longleftrightarrow>
     tracks window (latest - window) key acc b \<and> (\<forall>t \<in> set (times_of key acc). t \<le> latest) \<and>
     (\<forall>x. int (in_window window x (times_of key acc)) \<le> limit)"

lemma check_inv:
  assumes "limiter_inv limit window key latest acc b" "latest \<le> now"
    and "limiter_check limit window now k b = ((ok, info), b')"
  shows "limiter_inv limit window key now (if ok then acc @ [(k, now)] else acc) b'"
proof -
  have tr: "tracks window (latest - window) key acc b" and le: "\<forall>t \<in> set (times_of key acc). t \<le> now"
    and bound: "\<forall>x. int (in_window window x (times_of key acc)) \<le> limit"
    using assms(1,2) by (auto simp: limiter_inv_def)
  have "tracks window (now - window) key (if ok then acc @ [(k, now)] else acc) b'"
    by (rule check_tracks [OF tr _ assms(3)]) (simp add: assms(2))
  moreover have "int (in_window window x (times_of key acc @ [now])) \<le> limit" if "ok" "k = key" for x
    using window_snoc [OF tr _ le _ bound] assms(2) check_bucket(2) [OF assms(3)] that by simp
  ultimately show ?thesis using le bound by (auto simp: limiter_inv_def)
qed

lemma limiter_run_inv:
  assumes "limiter_inv limit window key latest acc b" "sorted (latest # map snd calls)"
  shows "\<forall>x. int (in_window window x (times_of key (acc @ fst (limiter_run limit window calls b)))) \<le> limit"
  using assms
proof (induction calls arbitrary: latest acc b)
  case Nil
  then show ?case by (simp add: limiter_inv_def)
next
  case (Cons call calls)
  obtain k now where call: "call = (k, now)" by (cases call)
  obtain ok info b' where c: "limiter_check limit window now k b = ((ok, info), b')"
    by (metis surjective_pairing)
  have inv: "limiter_inv limit window key now (if ok then acc @ [(k, now)] else acc) b'"
    by (rule check_inv [OF Cons.prems(1) _ c]) (use Cons.prems(2) call in simp)
  have "sorted (now # map snd calls)" using Cons.prems(2) call by simp
  from Cons.IH [OF inv this] show ?case using c by (auto simp: call split: prod.split)
qed

section \<open>Properties\<close>

text \<open>
  C38 (bounds): if the calls take the lock in the order of their clock readings, then no source is let
  through more often than the limit in any window of the configured length, wherever the window
  starts and whatever other sources do. The limit and the window are at least 1 in every environment.\<close>

theorem limiter_never_exceeds_limit:
  assumes "sorted (map snd calls)"
  shows "1 \<le> configured_limit env \<and> 1 \<le> configured_window fl env \<and>
    int (in_window (configured_window fl env) x
      (times_of key (fst (limiter_run (configured_limit env) (configured_window fl env) calls [])))) \<le> configured_limit env"
proof (cases calls)
  case Nil
  then show ?thesis using configured_positive [of env fl] by (simp add: times_of_def in_window_def)
next
  case (Cons call rest)
  let ?w = "configured_window fl env"
  have "limiter_inv (configured_limit env) ?w key (snd call) [] []"
    using configured_positive [of env fl] by (simp add: limiter_inv_def tracks_def times_of_def in_window_def dget_or_def)
  moreover have "sorted (snd call # map snd calls)" using assms Cons by auto
  ultimately show ?thesis using limiter_run_inv configured_positive by fastforce
qed

theorem limiter_never_exceeds_limit_witness:
  "1 \<le> configured_limit (\<lambda>k. None) \<and> 1 \<le> configured_window (\<lambda>s. None) (\<lambda>k. None) \<and>
    int (in_window (configured_window (\<lambda>s. None) (\<lambda>k. None)) 100
      (times_of ''ip'' (fst (limiter_run (configured_limit (\<lambda>k. None)) (configured_window (\<lambda>s. None) (\<lambda>k. None))
        [(''ip'', 5), (''ip'', 61), (''ip'', 100)] [])))) \<le> configured_limit (\<lambda>k. None)"
  by (rule limiter_never_exceeds_limit) simp

text \<open>
  The clock is read outside the lock, and that is enough to break the limit. With a limit
  of 2 and a window of one second, a call that read the clock at 1.4 but takes the lock after a call
  that read 1.6 finds the two calls at 0.5 and 0.55 already evicted and is let through as the third
  in its window.\<close>

theorem limiter_clock_race_exceeds_limit:
  "\<exists>calls. fst (limiter_run 2 1 calls []) = calls \<and> in_window 1 (14 / 10) (times_of ''ip'' calls) = 3"
proof (intro exI conjI)
  let ?calls = "[(''ip'', 1 / 2), (''ip'', 11 / 20), (''ip'', 16 / 10), (''ip'', 14 / 10)] :: (string \<times> rat) list"
  show "fst (limiter_run 2 1 ?calls []) = ?calls"
    by (simp add: limiter_check_def dget_or_def Let_def)
  show "in_window 1 (14 / 10) (times_of ''ip'' ?calls) = 3"
    by (simp add: in_window_def times_of_def)
qed

end
