(* ===== verification/EventTaxonomy.thy ===== *)
theory EventTaxonomy
  imports Json
begin

text \<open>
  \<open>runtime/governance/event_taxonomy.py\<close>: the canonical event types of the governance journal,
  their legacy names, and which events a step of the governed mutation loop (an AGM step) may emit.
  A value of any type is a JSON value, \<open>JNull\<close> for \<open>None\<close>. The lemmas show that normalising
  reaches a fixed point and say which events a step accepts.
\<close>

section \<open>Event types\<close>

definition AGM_EVENTS :: "string list" where
  "AGM_EVENTS =
     [''agm_step_01'', ''agm_step_02'', ''agm_step_03'', ''agm_step_04'', ''agm_step_05'', ''agm_step_06'',
      ''agm_step_07'', ''agm_step_08'', ''agm_step_09'', ''agm_step_10'', ''agm_step_11'', ''agm_step_12'']"

definition AGM_CONTROL_EVENT_TYPES :: "string list" where
  "AGM_CONTROL_EVENT_TYPES =
     [''step_fault'', ''canonical_declared'', ''event_deprecated'', ''event_migrated'',
      ''budget_mode_changed'', ''attribution_recorded'']"

definition GOVERNANCE_EVENTS :: "string list" where
  "GOVERNANCE_EVENTS = [''constitution_escalation'', ''replay_failure'', ''replay_divergence'', ''operator_override'']"

definition CONTEXT_EVENTS :: "string list" where
  "CONTEXT_EVENTS =
     [''context_ledger_entry_accepted.v1'', ''context_ledger_entry_rejected.v1'', ''context_ledger_tamper_detected.v1'',
      ''soulbound_key_rotation.v1'', ''craft_pattern_extracted.v1'', ''context_replay_injected.v1'',
      ''soulbound_key_absent.v1'', ''routed_intelligence_decision.v1'']"

definition CANONICAL_EVENT_TYPES :: "string list" where
  "CANONICAL_EVENT_TYPES =
     AGM_EVENTS @ AGM_CONTROL_EVENT_TYPES @ GOVERNANCE_EVENTS @ [''LegitimacyEvaluation''] @ CONTEXT_EVENTS"

definition LEGACY_EVENT_TYPE_FALLBACKS :: "(string, string) dict" where
  "LEGACY_EVENT_TYPE_FALLBACKS =
     [(''step_1'', ''agm_step_01''), (''step_2'', ''agm_step_02''), (''step_3'', ''agm_step_03''),
      (''step_4'', ''agm_step_04''), (''step_5'', ''agm_step_05''), (''step_6'', ''agm_step_06''),
      (''step_7'', ''agm_step_07''), (''step_8'', ''agm_step_08''), (''step_9'', ''agm_step_09''),
      (''step_10'', ''agm_step_10''), (''step_11'', ''agm_step_11''), (''step_12'', ''agm_step_12''),
      (''agm_step_1'', ''agm_step_01''), (''agm_step_2'', ''agm_step_02''), (''agm_step_3'', ''agm_step_03''),
      (''agm_step_4'', ''agm_step_04''), (''agm_step_5'', ''agm_step_05''), (''agm_step_6'', ''agm_step_06''),
      (''agm_step_7'', ''agm_step_07''), (''agm_step_8'', ''agm_step_08''), (''agm_step_9'', ''agm_step_09''),
      (''agm_step_10'', ''agm_step_10''), (''agm_step_11'', ''agm_step_11''), (''agm_step_12'', ''agm_step_12''),
      (''step_error'', ''step_fault''), (''step_failed'', ''step_fault''),
      (''canonical_event_declared'', ''canonical_declared''), (''event_canonicalized'', ''canonical_declared''),
      (''event_deprecation_declared'', ''event_deprecated''), (''event_migration_declared'', ''event_migrated''),
      (''budget_mode_change'', ''budget_mode_changed''), (''budget_profile_changed'', ''budget_mode_changed''),
      (''attribution_recorded_v1'', ''attribution_recorded''), (''constitution_escalated'', ''constitution_escalation''),
      (''manual_override'', ''operator_override''), (''operator_manual_override'', ''operator_override''),
      (''replay_check_failed'', ''replay_failure''), (''replay_verification_failed'', ''replay_failure''),
      (''replay_divergence_detected'', ''replay_divergence''), (''legitimacyevaluation'', ''LegitimacyEvaluation'')]"

text \<open>\<open>f"agm_step_{index:02d}"\<close>\<close>

definition agm_step_name :: "nat \<Rightarrow> string" where
  "agm_step_name i = ''agm_step_'' @ [digit (i div 10), digit (i mod 10)]"

definition AGM_STEPS :: "string list" where
  "AGM_STEPS = map agm_step_name [1..<13]"

definition AGM_STEP_EVENT_TYPES :: "(string, string list) dict" where
  "AGM_STEP_EVENT_TYPES = map2 (\<lambda>s e. (s, [e])) AGM_STEPS AGM_EVENTS"

definition LEGACY_STEP_FALLBACKS :: "(string, string) dict" where
  "LEGACY_STEP_FALLBACKS =
     map (\<lambda>i. (nat_str i, agm_step_name i)) [1..<13] @
     map (\<lambda>i. (''step_'' @ nat_str i, agm_step_name i)) [1..<13] @
     map (\<lambda>i. (''agm_step_'' @ nat_str i, agm_step_name i)) [1..<13]"

section \<open>Normalisation\<close>

text \<open>\<open>str(v).strip().lower()\<close>\<close>

definition cleaned :: "json \<Rightarrow> string" where
  "cleaned v = py_lower (py_strip (py_str v))"

definition normalize_agm_step :: "json \<Rightarrow> string" where
  "normalize_agm_step v =
     (let c = cleaned (if truthy v then v else JStr [])
      in if dget AGM_STEP_EVENT_TYPES c \<noteq> None then c else dget_or LEGACY_STEP_FALLBACKS c [])"

definition normalize_event_type :: "obj \<Rightarrow> string" where
  "normalize_event_type d =
     (let t = cleaned (dget_or d ''event_type'' (JStr []))
      in if t \<in> set CANONICAL_EVENT_TYPES then t
         else case dget LEGACY_EVENT_TYPE_FALLBACKS t of
           Some u \<Rightarrow> u
         | None \<Rightarrow>
             (let n = cleaned (dget_or d ''event'' (JStr []))
              in case dget LEGACY_EVENT_TYPE_FALLBACKS n of
                   Some u \<Rightarrow> u
                 | None \<Rightarrow> if t \<noteq> [] then t else n))"

definition validate_event_type_for_agm_step :: "json \<Rightarrow> json \<Rightarrow> string res" where
  "validate_event_type_for_agm_step event_type agm_step =
     (let t = normalize_event_type [(''event_type'', event_type)]
      in if t = [] then Inl (ValueError ''event_type_missing'')
         else
           let s = normalize_agm_step agm_step
           in if agm_step = JNull \<or> py_strip (py_str agm_step) = [] then Inr t
              else if s = [] then Inl (ValueError (''agm_step_unknown:'' @ py_str agm_step))
              else if t \<notin> set (the (dget AGM_STEP_EVENT_TYPES s) @ AGM_CONTROL_EVENT_TYPES)
                then Inl (ValueError (''event_type_not_allowed:'' @ t @ '':'' @ s))
              else Inr t)"

definition validate_agm_event :: "obj \<Rightarrow> string res" where
  "validate_agm_event d =
     validate_event_type_for_agm_step
       (JStr (py_str (let t = dget_or d ''event_type'' JNull;
                          e = dget_or d ''event'' JNull
                      in if truthy t then t else if truthy e then e else JStr [])))
       (dget_or d ''agm_step'' JNull)"

section \<open>Strings that are already clean\<close>

lemma lower_char_idem [simp]: "lower_char (lower_char c) = lower_char c"
  by (auto simp: lower_char_def Let_def)

lemma is_space_lower [simp]: "is_space (lower_char c) = is_space c"
  by (auto simp: lower_char_def is_space_def Let_def)

lemma dropWhile_idem [simp]: "dropWhile P (dropWhile P xs) = dropWhile P xs"
  by (induction xs) simp_all

lemma dropWhile_rev_drop: "dropWhile P (rev (dropWhile P (rev (dropWhile P xs)))) = rev (dropWhile P (rev (dropWhile P xs)))"
proof (cases "rev (dropWhile P (rev (dropWhile P xs)))")
  case Nil
  then show ?thesis by (simp only: Nil dropWhile.simps)
next
  case (Cons y ys)
  have "\<exists>zs. dropWhile P xs = rev (dropWhile P (rev (dropWhile P xs))) @ zs"
    using takeWhile_dropWhile_id [of P "rev (dropWhile P xs)"] by (metis rev_append rev_rev_ident)
  then obtain zs where "dropWhile P xs = y # ys @ zs" unfolding Cons by auto
  then have "\<not> P y" using hd_dropWhile [of P xs] by (metis list.distinct(1) list.sel(1))
  then show ?thesis by (simp only: Cons dropWhile.simps if_False)
qed

lemma py_strip_idem [simp]: "py_strip (py_strip s) = py_strip s"
  by (simp add: py_strip_def dropWhile_rev_drop)

lemma py_lower_idem [simp]: "py_lower (py_lower s) = py_lower s"
  by (simp add: py_lower_def)

lemma py_strip_lower: "py_strip (py_lower s) = py_lower (py_strip s)"
  by (simp add: py_strip_def py_lower_def dropWhile_map rev_map comp_def)

lemma cleaned_fixed: "cleaned (JStr (cleaned v)) = cleaned v"
  by (simp add: cleaned_def py_strip_lower)

lemma cleaned_empty [simp]: "cleaned (JStr []) = []"
  by (simp add: cleaned_def py_strip_def py_lower_def)

section \<open>What the tables hold\<close>

lemma steps_are_events: "AGM_STEPS = AGM_EVENTS"
  by code_simp

lemma step_types: "dget AGM_STEP_EVENT_TYPES s = (if s \<in> set AGM_EVENTS then Some [s] else None)"
proof -
  have "map_of (map2 (\<lambda>s e. (s, [e])) xs xs) s = (if s \<in> set xs then Some [s] else None)" for xs :: "string list"
    by (induction xs) auto
  then show ?thesis by (simp add: AGM_STEP_EVENT_TYPES_def steps_are_events)
qed

lemma legacy_targets:
  "snd ` set LEGACY_EVENT_TYPE_FALLBACKS \<subseteq> set CANONICAL_EVENT_TYPES"
  by code_simp

lemma legacy_steps: "snd ` set LEGACY_STEP_FALLBACKS \<subseteq> set AGM_EVENTS"
  by code_simp

lemma canonical_clean:
  "list_all (\<lambda>t. t = ''LegitimacyEvaluation'' \<or> cleaned (JStr t) = t) CANONICAL_EVENT_TYPES"
  by code_simp

lemma canonical_normal:
  assumes "t \<in> set CANONICAL_EVENT_TYPES"
  shows "normalize_event_type [(''event_type'', JStr t)] = t"
proof (cases "t = ''LegitimacyEvaluation''")
  case True
  have "normalize_event_type [(''event_type'', JStr ''LegitimacyEvaluation'')] = ''LegitimacyEvaluation''" by code_simp
  with True show ?thesis by simp
next
  case False
  then have "cleaned (JStr t) = t" using canonical_clean assms by (auto simp: list_all_iff)
  then show ?thesis using assms by (simp add: normalize_event_type_def dget_or_def)
qed

lemma legacy_canonical: "dget LEGACY_EVENT_TYPE_FALLBACKS n = Some u \<Longrightarrow> u \<in> set CANONICAL_EVENT_TYPES"
  using legacy_targets by (force dest: map_of_SomeD)

lemma no_legacy_empty [simp]: "dget LEGACY_EVENT_TYPE_FALLBACKS [] = None"
  by code_simp

lemma clean_normal:
  assumes "cleaned (JStr t) = t" "dget LEGACY_EVENT_TYPE_FALLBACKS t = None"
  shows "normalize_event_type [(''event_type'', JStr t)] = t"
  using assms
  by (cases "t \<in> set CANONICAL_EVENT_TYPES")
    (auto simp: normalize_event_type_def dget_or_def Let_def split: option.split)

lemma pick_cases:
  assumes "\<And>x u. f x = Some u \<Longrightarrow> u \<in> C"
    and "r = (if t \<in> C then t
      else case f t of Some u \<Rightarrow> u | None \<Rightarrow> (case f n of Some u \<Rightarrow> u | None \<Rightarrow> if t \<noteq> [] then t else n))"
  shows "r \<in> C \<or> f r = None \<and> (r = t \<or> r = n)"
  using assms(1) [of t] assms(1) [of n] unfolding assms(2) by (auto split: option.split)

lemma normalize_cases:
  "normalize_event_type d \<in> set CANONICAL_EVENT_TYPES \<or>
   cleaned (JStr (normalize_event_type d)) = normalize_event_type d \<and>
     dget LEGACY_EVENT_TYPE_FALLBACKS (normalize_event_type d) = None"
proof -
  define t n where "t = cleaned (dget_or d ''event_type'' (JStr []))" and "n = cleaned (dget_or d ''event'' (JStr []))"
  have fixed: "cleaned (JStr t) = t" "cleaned (JStr n) = n" by (simp_all only: t_def n_def cleaned_fixed)
  have "normalize_event_type d =
      (if t \<in> set CANONICAL_EVENT_TYPES then t
       else case dget LEGACY_EVENT_TYPE_FALLBACKS t of Some u \<Rightarrow> u
       | None \<Rightarrow> (case dget LEGACY_EVENT_TYPE_FALLBACKS n of Some u \<Rightarrow> u | None \<Rightarrow> if t \<noteq> [] then t else n))"
    unfolding normalize_event_type_def t_def n_def Let_def by (rule refl)
  then have "normalize_event_type d \<in> set CANONICAL_EVENT_TYPES \<or>
      dget LEGACY_EVENT_TYPE_FALLBACKS (normalize_event_type d) = None \<and>
      (normalize_event_type d = t \<or> normalize_event_type d = n)"
    by (rule pick_cases [rotated]) (rule legacy_canonical)
  then show ?thesis using fixed by metis
qed

lemma legacy_step_known: "dget LEGACY_STEP_FALLBACKS c = Some s \<Longrightarrow> s \<in> set AGM_EVENTS"
  using legacy_steps map_of_SomeD [of LEGACY_STEP_FALLBACKS c s] by (metis image_eqI snd_conv subsetD)

lemma step_normal:
  assumes "normalize_agm_step v \<noteq> []"
  shows "normalize_agm_step v \<in> set AGM_EVENTS"
proof -
  define c where "c = cleaned (if truthy v then v else JStr [])"
  have v: "normalize_agm_step v = (if c \<in> set AGM_EVENTS then c else dget_or LEGACY_STEP_FALLBACKS c [])"
    unfolding normalize_agm_step_def c_def Let_def step_types by simp
  show ?thesis
    using assms legacy_step_known [of c] unfolding v
    by (cases "dget LEGACY_STEP_FALLBACKS c") (simp_all add: dget_or_def split: if_splits)
qed

section \<open>Properties\<close>

text \<open>
  Normalising an event once is enough. The type it finds, for any event and
  whatever legacy or mixed-case spelling the event used, is its own normal form, and a legacy name
  always becomes a canonical type.\<close>

theorem event_type_normal_form:
  "normalize_event_type [(''event_type'', JStr (normalize_event_type d))] = normalize_event_type d"
  using normalize_cases [of d] canonical_normal clean_normal by blast

text \<open>
  Which events a step may emit. Without a step every non-empty type passes. With
  one, the step must be known, and the normalised type must be the step's own event or a control event;
  a canonical event of another kind, a replay failure or an operator override, is refused.\<close>

theorem agm_step_accepts_exactly:
  "validate_event_type_for_agm_step et st = Inr t \<longleftrightarrow>
     t = normalize_event_type [(''event_type'', et)] \<and> t \<noteq> [] \<and>
     (st = JNull \<or> py_strip (py_str st) = [] \<or>
      (normalize_agm_step st \<in> set AGM_STEPS \<and> t \<in> set (normalize_agm_step st # AGM_CONTROL_EVENT_TYPES)))"
proof -
  have empty: "[] \<notin> set AGM_EVENTS" by code_simp
  then show ?thesis
    using step_normal [of st]
    by (auto simp: validate_event_type_for_agm_step_def Let_def step_types steps_are_events)
qed

end
