(* ===== verification/Tenancy.thy ===== *)
theory Tenancy
  imports Json
begin

text \<open>
  \<open>runtime/tenancy.py\<close>: which file a tenant's ledger is kept in and which rows belong to a
  tenant. A path is its list of components; \<open>resolved\<close> is the directory entry the operating
  system reaches through it, without symbolic links. The theorems say when two tenants share a
  file, and when a tenant reaches the shared ledger.
\<close>

section \<open>Paths\<close>

type_synonym path = "string list"

text \<open>\<open>p / c\<close> for one component; \<open>pathlib\<close> drops the component \<open>.\<close> and keeps \<open>..\<close>.\<close>

definition path_join :: "path \<Rightarrow> string \<Rightarrow> path" where
  "path_join p c = (if c = ''.'' then p else p @ [c])"

definition resolved :: "path \<Rightarrow> path" where
  "resolved p = foldl (\<lambda>acc c. if c = ''..'' then butlast acc else acc @ [c]) [] p"

section \<open>Scopes\<close>

text \<open>\<open>[a-zA-Z0-9._:-]\<close>\<close>

definition scope_char :: "char \<Rightarrow> bool" where
  "scope_char c \<longleftrightarrow>
     (let n = (of_char c :: nat)
      in (97 \<le> n \<and> n \<le> 122) \<or> (65 \<le> n \<and> n \<le> 90) \<or> (48 \<le> n \<and> n \<le> 57) \<or> c \<in> set ''._:-'')"

definition normalize_scope_value :: "json \<Rightarrow> string \<Rightarrow> string res" where
  "normalize_scope_value v field =
     (let s = py_strip (py_str (if truthy v then v else JStr []))
      in if s = [] \<or> \<not> list_all scope_char s then Inl (ValueError (''invalid_'' @ field)) else Inr s)"

definition normalize_tenant_scope :: "obj \<Rightarrow> (string \<times> string) res" where
  "normalize_tenant_scope ctx =
     ebind (normalize_scope_value (dget_or ctx ''tenant_id'' (JStr [])) ''tenant_id'') (\<lambda>t.
     ebind (normalize_scope_value (dget_or ctx ''workspace_id'' (JStr [])) ''workspace_id'') (\<lambda>w.
       Inr (t, w)))"

text \<open>The base path is a directory and a file name; \<open>ctx\<close> is empty when there is no tenant.\<close>

definition tenant_partition_path :: "path \<Rightarrow> string \<Rightarrow> obj \<Rightarrow> path res" where
  "tenant_partition_path dir name ctx =
     (if ctx = [] then Inr (dir @ [name])
      else
        ebind (normalize_tenant_scope ctx) (\<lambda>(t, w).
          Inr (path_join (path_join (dir @ [''tenants'']) t) w @ [name])))"

definition scope_text :: "obj \<Rightarrow> obj \<Rightarrow> string \<Rightarrow> string" where
  "scope_text payload entry k =
     py_strip (py_str (let a = dget_or payload k JNull; b = dget_or entry k JNull
                       in if truthy a then a else if truthy b then b else JStr []))"

definition payload_dict :: "obj \<Rightarrow> obj" where
  "payload_dict entry = (case dget entry ''payload'' of Some (JObj p) \<Rightarrow> p | _ \<Rightarrow> [])"

text \<open>\<open>entry.get\<close> raises for an entry that is not a dictionary.\<close>

definition payload_in_tenant_scope :: "json \<Rightarrow> obj \<Rightarrow> bool res" where
  "payload_in_tenant_scope entry ctx =
     ebind (normalize_tenant_scope ctx) (\<lambda>(t, w).
     ebind (as_obj entry) (\<lambda>e.
       Inr (scope_text (payload_dict e) e ''tenant_id'' = t \<and> scope_text (payload_dict e) e ''workspace_id'' = w)))"

section \<open>What a scope looks like\<close>

lemma resolved_append [simp]: "resolved (p @ [c]) = (if c = ''..'' then butlast (resolved p) else resolved p @ [c])"
  by (simp add: resolved_def)

lemma resolved_join: "resolved (path_join p c) =
    (if c = ''.'' then resolved p else if c = ''..'' then butlast (resolved p) else resolved p @ [c])"
  by (simp add: path_join_def)

text \<open>Where the ledger of a tenant ends up, case by case.\<close>

definition tenant_file :: "path \<Rightarrow> string \<Rightarrow> string \<Rightarrow> string \<Rightarrow> path" where
  "tenant_file d name t w = resolved (path_join (path_join (d @ [''tenants'']) t) w @ [name])"

lemma partition_file:
  assumes "tenant_partition_path dir name ctx = Inr p" "ctx \<noteq> []"
  obtains t w where "normalize_tenant_scope ctx = Inr (t, w)" "resolved p = tenant_file dir name t w"
  using assms by (auto simp: tenant_partition_path_def tenant_file_def)

lemma tenant_file_plain:
  assumes "name \<noteq> ''..''" "t \<notin> {''.'', ''..''}" "w \<notin> {''.'', ''..''}"
  shows "tenant_file d name t w = resolved d @ [''tenants'', t, w, name]"
  using assms by (simp add: tenant_file_def resolved_join)

lemma tenant_file_base:
  assumes "name \<noteq> ''..''" "resolved d \<noteq> []"
  shows "tenant_file d name t w = resolved d @ [name] \<longleftrightarrow> (t, w) \<in> {(''.'', ''..''), (''..'', ''.'')}"
proof -
  have "butlast (resolved d) \<noteq> resolved d" using assms(2) by (metis append_butlast_last_id append_self_conv not_Cons_self2)
  then show ?thesis using assms by (auto simp: tenant_file_def resolved_join butlast_append)
qed

section \<open>Properties\<close>

text \<open>
  Tenants do not share a ledger. Two accepted contexts whose ids are not the path
  components \<open>.\<close> and \<open>..\<close> are kept in the same file only when they name the same tenant and workspace,
  and neither is kept in the file of the untenanted ledger.\<close>

theorem tenant_ledgers_are_disjoint:
  assumes "name \<noteq> ''..''"
    and "tenant_partition_path dir name a = Inr p" "a \<noteq> []" "normalize_tenant_scope a = Inr (t, w)"
    and "tenant_partition_path dir name b = Inr q" "b \<noteq> []" "normalize_tenant_scope b = Inr (t', w')"
    and "{t, w, t', w'} \<inter> {''.'', ''..''} = {}"
  shows "(resolved p = resolved q \<longleftrightarrow> (t, w) = (t', w')) \<and> resolved p \<noteq> resolved (dir @ [name])"
proof -
  have "resolved p = tenant_file dir name t w" "resolved q = tenant_file dir name t' w'"
    using assms(2-7) by (auto simp: tenant_partition_path_def tenant_file_def)
  moreover have "tenant_file dir name t w = resolved dir @ [''tenants'', t, w, name]"
    "tenant_file dir name t' w' = resolved dir @ [''tenants'', t', w', name]"
    using assms(1,8) by (auto intro!: tenant_file_plain)
  ultimately show ?thesis using assms(1) by simp
qed

theorem tenant_ledgers_are_disjoint_witness:
  "(resolved [''ledger'', ''tenants'', ''acme'', ''w1'', ''j''] = resolved [''ledger'', ''tenants'', ''globex'', ''w1'', ''j'']
      \<longleftrightarrow> (''acme'', ''w1'') = (''globex'', ''w1'')) \<and>
   resolved [''ledger'', ''tenants'', ''acme'', ''w1'', ''j''] \<noteq> resolved ([''ledger''] @ [''j''])"
  by (rule tenant_ledgers_are_disjoint
      [where a = "[(''tenant_id'', JStr ''acme''), (''workspace_id'', JStr ''w1'')]"
         and b = "[(''tenant_id'', JStr ''globex''), (''workspace_id'', JStr ''w1'')]"]) code_simp+

text \<open>
  The scope pattern does not keep a tenant inside its directory. Tenant \<open>.\<close> with
  workspace \<open>..\<close>, and the other way round, are accepted and reach the ledger that everybody without a tenant
  shares; they are the only contexts that do.\<close>

theorem tenant_scope_reaches_shared_ledger:
  assumes "name \<noteq> ''..''" "resolved dir \<noteq> []"
    and "tenant_partition_path dir name ctx = Inr p" "ctx \<noteq> []"
  shows "resolved p = resolved (dir @ [name]) \<longleftrightarrow>
    normalize_tenant_scope ctx \<in> {Inr (''.'', ''..''), Inr (''..'', ''.'')}"
proof -
  obtain t w where "normalize_tenant_scope ctx = Inr (t, w)" "resolved p = tenant_file dir name t w"
    using partition_file [OF assms(3,4)] by blast
  then show ?thesis using tenant_file_base [OF assms(1,2), of t w] assms(1) by simp
qed

theorem tenant_scope_reaches_shared_ledger_witness:
  "resolved [''ledger'', ''tenants'', ''..'', ''j''] = resolved ([''ledger''] @ [''j''])"
proof -
  have "resolved [''ledger'', ''tenants'', ''..'', ''j''] = resolved ([''ledger''] @ [''j'']) \<longleftrightarrow>
      normalize_tenant_scope [(''tenant_id'', JStr ''.''), (''workspace_id'', JStr ''..'')] \<in> {Inr (''.'', ''..''), Inr (''..'', ''.'')}"
    by (rule tenant_scope_reaches_shared_ledger) code_simp+
  moreover have "normalize_tenant_scope [(''tenant_id'', JStr ''.''), (''workspace_id'', JStr ''..'')] = Inr (''.'', ''..'')"
    by code_simp
  ultimately show ?thesis by simp
qed

end
