(* ===== verification/JsonText.thy ===== *)
theory JsonText
  imports Json
begin

text \<open>
  \<open>json.loads\<close> and \<open>json.dumps\<close> on texts, for the readers that work on bytes and offsets. The
  parser follows the scanner of the standard library on the values the development has: a number with a
  fraction or an exponent, \<open>NaN\<close>, and an escape above \<open>\u00ff\<close> are outside it and are rejected. \<open>n\<close> bounds the
  depth of the calls; the length of the text is enough, which the round trip shows.
\<close>

section \<open>Printing with blanks\<close>

text \<open>\<open>json.dumps\<close> with the separators \<open>","\<close> and \<open>":"\<close>, each followed by \<open>sp\<close>: one blank by default.\<close>

fun render :: "string \<Rightarrow> bool \<Rightarrow> json \<Rightarrow> string" where
  "render sp a JNull = ''null''"
| "render sp a (JBool b) = (if b then ''true'' else ''false'')"
| "render sp a (JInt i) = int_str i"
| "render sp a (JStr s) = quote a s"
| "render sp a (JList xs) = ''['' @ join ('','' @ sp) (map (render sp a) xs) @ '']''"
| "render sp a (JObj kvs) =
     ''{'' @ join ('','' @ sp) (map (\<lambda>(k, v). quote a k @ '':'' @ sp @ render sp a v) kvs) @ ''}''"

definition render_member :: "string \<Rightarrow> bool \<Rightarrow> string \<times> json \<Rightarrow> string" where
  "render_member sp a p = quote a (fst p) @ '':'' @ sp @ render sp a (snd p)"

lemma render_JObj: "render sp a (JObj kvs) = ''{'' @ join ('','' @ sp) (map (render_member sp a) kvs) @ ''}''"
proof -
  have "(\<lambda>(k, v). quote a k @ '':'' @ sp @ render sp a v) = render_member sp a"
    by (auto simp: render_member_def)
  then show ?thesis by simp
qed

text \<open>A dictionary has each key once.\<close>

fun py_value :: "json \<Rightarrow> bool" where
  "py_value (JList xs) = list_all py_value xs"
| "py_value (JObj kvs) = (distinct (map fst kvs) \<and> list_all (\<lambda>p. py_value (snd p)) kvs)"
| "py_value v = True"

lemma distinct_dput: "distinct (map fst d) \<Longrightarrow> distinct (map fst (dput k v d))"
  by (rule distinct_update)

lemma values_dput:
  "list_all (\<lambda>p. py_value (snd p)) d \<Longrightarrow> py_value v \<Longrightarrow> list_all (\<lambda>p. py_value (snd p)) (dput k v d)"
  by (induction d) auto

section \<open>Parsing\<close>

definition ws_char :: "char \<Rightarrow> bool" where
  "ws_char c \<longleftrightarrow> c \<in> {CHR 0x20, CHR 0x09, CHR 0x0A, CHR 0x0D}"

definition skip :: "string \<Rightarrow> string" where
  "skip = dropWhile ws_char"

fun hex_digit :: "char \<Rightarrow> nat option" where
  "hex_digit c =
     (let n = (of_char c :: nat)
      in if 48 \<le> n \<and> n \<le> 57 then Some (n - 48)
         else if 97 \<le> n \<and> n \<le> 102 then Some (n - 87)
         else if 65 \<le> n \<and> n \<le> 70 then Some (n - 55) else None)"

definition hex4 :: "char \<Rightarrow> char \<Rightarrow> char \<Rightarrow> char \<Rightarrow> char option" where
  "hex4 a b c d =
     Option.bind (hex_digit a) (\<lambda>i. Option.bind (hex_digit b) (\<lambda>j.
     Option.bind (hex_digit c) (\<lambda>k. Option.bind (hex_digit d) (\<lambda>l.
       if i = 0 \<and> j = 0 then Some (char_of (16 * k + l)) else None))))"

definition simple_escape :: "char \<Rightarrow> char option" where
  "simple_escape c =
     map_of [(CHR 0x22, CHR 0x22), (CHR 0x5C, CHR 0x5C), (CHR ''/'', CHR ''/''), (CHR ''b'', CHR 0x08),
       (CHR ''f'', CHR 0x0C), (CHR ''n'', CHR 0x0A), (CHR ''r'', CHR 0x0D), (CHR ''t'', CHR 0x09)] c"

text \<open>The characters up to the closing quote; control characters are not allowed in a string.\<close>

fun parse_chars :: "string \<Rightarrow> (string \<times> string) option" where
  "parse_chars [] = None"
| "parse_chars (c # r) =
     (if c = CHR 0x22 then Some ([], r)
      else if c = CHR 0x5C then
        (case r of
           [] \<Rightarrow> None
         | e # q \<Rightarrow>
             if e = CHR ''u'' then
               (case q of
                  w # x # y # z # t \<Rightarrow>
                    (case hex4 w x y z of None \<Rightarrow> None | Some d \<Rightarrow> map_option (apfst (Cons d)) (parse_chars t))
                | _ \<Rightarrow> None)
             else (case simple_escape e of None \<Rightarrow> None | Some d \<Rightarrow> map_option (apfst (Cons d)) (parse_chars q)))
      else if (of_char c :: nat) < 32 then None
      else map_option (apfst (Cons c)) (parse_chars r))"

text \<open>A fraction or an exponent follows.\<close>

definition float_tail :: "string \<Rightarrow> bool" where
  "float_tail s =
     (case s of
        [] \<Rightarrow> False
      | c # r \<Rightarrow>
          if c = CHR ''.'' then r \<noteq> [] \<and> is_digit (hd r)
          else if c = CHR ''e'' \<or> c = CHR ''E'' then
            (case r of [] \<Rightarrow> False
             | d # q \<Rightarrow> is_digit d \<or> ((d = CHR ''+'' \<or> d = CHR ''-'') \<and> q \<noteq> [] \<and> is_digit (hd q)))
          else False)"

definition parse_digits :: "string \<Rightarrow> (nat \<times> string) option" where
  "parse_digits s =
     (let ds = takeWhile is_digit s;
          lead = (if ds \<noteq> [] \<and> hd ds = CHR ''0'' then take 1 ds else ds);
          r = drop (length lead) s
      in if lead = [] \<or> float_tail r then None else Some (nat_val lead, r))"

definition parse_number :: "string \<Rightarrow> (json \<times> string) option" where
  "parse_number s =
     (if s \<noteq> [] \<and> hd s = CHR ''-'' then map_option (apfst (\<lambda>n. JInt (- int n))) (parse_digits (tl s))
      else map_option (apfst (\<lambda>n. JInt (int n))) (parse_digits s))"

definition dict_of :: "(string \<times> json) list \<Rightarrow> obj" where
  "dict_of kvs = foldl (\<lambda>d p. dput (fst p) (snd p) d) [] kvs"

fun parse_value :: "nat \<Rightarrow> string \<Rightarrow> (json \<times> string) option"
  and parse_items :: "nat \<Rightarrow> string \<Rightarrow> (json list \<times> string) option"
  and parse_members :: "nat \<Rightarrow> string \<Rightarrow> ((string \<times> json) list \<times> string) option"
where
  "parse_value 0 s = None"
| "parse_value (Suc n) s =
     (case s of
        [] \<Rightarrow> None
      | c # r \<Rightarrow>
          if c = CHR 0x22 then map_option (apfst JStr) (parse_chars r)
          else if c = CHR ''['' then
            (if startswith (skip r) '']'' then Some (JList [], tl (skip r))
             else map_option (apfst JList) (parse_items n (skip r)))
          else if c = CHR ''{'' then
            (if startswith (skip r) ''}'' then Some (JObj [], tl (skip r))
             else map_option (apfst (\<lambda>kvs. JObj (dict_of kvs))) (parse_members n (skip r)))
          else if startswith s ''null'' then Some (JNull, drop 4 s)
          else if startswith s ''true'' then Some (JBool True, drop 4 s)
          else if startswith s ''false'' then Some (JBool False, drop 5 s)
          else parse_number s)"
| "parse_items 0 s = None"
| "parse_items (Suc n) s =
     (case parse_value n s of
        None \<Rightarrow> None
      | Some (v, r) \<Rightarrow>
          if startswith (skip r) '']'' then Some ([v], tl (skip r))
          else if startswith (skip r) '','' then map_option (apfst (Cons v)) (parse_items n (skip (tl (skip r))))
          else None)"
| "parse_members 0 s = None"
| "parse_members (Suc n) s =
     (if \<not> startswith s [CHR 0x22] then None
      else case parse_chars (tl s) of
        None \<Rightarrow> None
      | Some (k, r) \<Rightarrow>
          if \<not> startswith (skip r) '':'' then None
          else case parse_value n (skip (tl (skip r))) of
            None \<Rightarrow> None
          | Some (v, q) \<Rightarrow>
              if startswith (skip q) ''}'' then Some ([(k, v)], tl (skip q))
              else if startswith (skip q) '','' then
                map_option (apfst (Cons (k, v))) (parse_members n (skip (tl (skip q))))
              else None)"

definition json_loads :: "string \<Rightarrow> json option" where
  "json_loads s =
     (case parse_value (length s) (skip s) of
        None \<Rightarrow> None
      | Some (v, r) \<Rightarrow> if skip r = [] then Some v else None)"

section \<open>The round trip\<close>

lemma hex_digit_hexdig [simp]: "n < 16 \<Longrightarrow> hex_digit (hexdig n) = Some n"
  by (auto simp: hexdig_def Let_def)

lemma hex4_code: "hex4 (CHR ''0'') (CHR ''0'') (hexdig (of_char c div 16)) (hexdig (of_char c mod 16)) = Some c"
proof -
  have "hex_digit (CHR ''0'') = Some 0" by simp
  moreover have "(of_char c :: nat) div 16 < 16" by (simp add: less_mult_imp_div_less)
  ultimately show ?thesis by (simp add: hex4_def del: hex_digit.simps)
qed

lemma parse_esc: "parse_chars (esc a c @ r) = map_option (apfst (Cons c)) (parse_chars r)"
  by (auto simp: esc_def simple_escape_def hex4_code)

lemma parse_quoted: "parse_chars (concat (map (esc a) s) @ CHR 0x22 # r) = Some (s, r)"
  by (induction s) (simp_all add: parse_esc del: parse_chars.simps(2), simp)

lemma skip_blanks: "list_all ws_char sp \<Longrightarrow> skip (sp @ s) = skip s"
  by (induction sp) (simp_all add: skip_def)

lemma skip_solid: "s \<noteq> [] \<Longrightarrow> \<not> ws_char (hd s) \<Longrightarrow> skip s = s"
  by (cases s) (simp_all add: skip_def)

lemma skip_Cons [simp]: "\<not> ws_char c \<Longrightarrow> skip (c # s) = c # s"
  by (simp add: skip_def)

lemma not_ws [simp]:
  "\<not> ws_char (CHR '','')" "\<not> ws_char (CHR '']'')" "\<not> ws_char (CHR ''}'')" "\<not> ws_char (CHR '':'')"
  "\<not> ws_char (CHR 0x22)" "\<not> ws_char (CHR ''['')" "\<not> ws_char (CHR ''{'')"
  by (simp_all add: ws_char_def)

text \<open>The text of a value starts with a character that tells its kind and is no blank.\<close>

lemma is_digit_eq_digit: "is_digit c \<Longrightarrow> \<exists>n < 10. c = digit n"
proof -
  assume "is_digit c"
  then have "c = digit (of_char c - 48)" "(of_char c :: nat) - 48 < 10" by (auto simp: is_digit_def digit_def)
  then show ?thesis by blast
qed

lemma kind_not_ws: "kind v c \<Longrightarrow> \<not> ws_char c"
  by (cases v) (auto simp: ws_char_def is_digit_def split: if_splits)

lemma kind_not_closing: "kind v c \<Longrightarrow> c \<notin> {CHR '']'', CHR ''}'', CHR '',''}"
  by (cases v) (auto simp: is_digit_def split: if_splits)

lemma render_start: "\<exists>c cs. render sp a v = c # cs \<and> kind v c"
proof (cases v)
  case (JInt i)
  then show ?thesis using dumps_start [of a "JInt i"] by simp
qed (auto simp: quote_def)

lemma skip_render: "skip (render sp a v @ r) = render sp a v @ r"
proof -
  obtain c cs where "render sp a v = c # cs" "kind v c" using render_start by blast
  then show ?thesis by (simp add: kind_not_ws)
qed

lemma closing_no_float: "closing r \<Longrightarrow> \<not> float_tail r"
  by (cases r) (auto simp: closing_def float_tail_def)

lemma closing_no_digit: "closing r \<Longrightarrow> takeWhile is_digit r = []"
  by (cases r) (auto simp: closing_def is_digit_def)

lemma nat_str_lead: "nat_str n = CHR ''0'' # ds \<Longrightarrow> ds = []"
proof (induction n arbitrary: ds rule: nat_str.induct)
  case (1 n)
  show ?case
  proof (cases "n < 10")
    case True
    then show ?thesis using 1(2) by (subst (asm) nat_str.simps) simp
  next
    case False
    then obtain e es where e: "nat_str (n div 10) = e # es" by (metis nat_str_nonempty neq_Nil_conv)
    with False 1(2) have "e = CHR ''0''" by (subst (asm) nat_str.simps) simp
    with 1(1) [OF False] e have "nat_str (n div 10) = ''0''" by blast
    moreover have "nat_val ''0'' = 0" by code_simp
    ultimately have "n div 10 = 0" using nat_val_nat_str [of "n div 10"] by simp
    with False show ?thesis by simp
  qed
qed

lemma parse_digits_nat_str:
  assumes "closing r"
  shows "parse_digits (nat_str n @ r) = Some (n, r)"
proof -
  have "takeWhile is_digit (nat_str n @ r) = nat_str n"
    using nat_str_digits [of n] closing_no_digit [OF assms] by (simp add: takeWhile_append2)
  moreover have "(if nat_str n \<noteq> [] \<and> hd (nat_str n) = CHR ''0'' then take 1 (nat_str n) else nat_str n) = nat_str n"
    using nat_str_lead [of n] by (cases "nat_str n") auto
  ultimately show ?thesis using closing_no_float [OF assms] by (simp add: parse_digits_def Let_def)
qed

lemma parse_number_int:
  assumes "closing r"
  shows "parse_number (int_str i @ r) = Some (JInt i, r)"
proof -
  obtain c cs where c: "nat_str (nat i) = c # cs" by (metis nat_str_nonempty neq_Nil_conv)
  then have "is_digit c" using nat_str_digits [of "nat i"] by simp
  then have "c \<noteq> CHR ''-''" by (auto simp: is_digit_def)
  then show ?thesis
    using parse_digits_nat_str [OF assms, of "nat i"] parse_digits_nat_str [OF assms, of "nat (- i)"] c
    by (auto simp: parse_number_def int_str_def)
qed

lemma startswith_simps [simp]:
  "startswith s []" "startswith (c # s) (d # t) \<longleftrightarrow> c = d \<and> startswith s t" "\<not> startswith [] (d # t)"
  by (auto simp: startswith_def)

lemma parse_value_int:
  assumes "closing r"
  shows "parse_value (Suc n) (int_str i @ r) = Some (JInt i, r)"
proof -
  obtain c cs where c: "int_str i = c # cs" "is_digit c \<or> c = CHR ''-''"
    using dumps_start [of False "JInt i"] by auto
  then have "c \<notin> {CHR 0x22, CHR ''['', CHR ''{'', CHR ''n'', CHR ''t'', CHR ''f''}" by (auto simp: is_digit_def)
  then have "parse_value (Suc n) (int_str i @ r) = parse_number (int_str i @ r)"
    by (simp add: c(1))
  then show ?thesis using parse_number_int [OF assms] by simp
qed

text \<open>\<open>dict_of\<close> keeps a list without repeated keys.\<close>

lemma dict_of_distinct:
  assumes "distinct (map fst kvs)"
  shows "dict_of kvs = kvs"
  using assms
proof (induction kvs rule: rev_induct)
  case (snoc p kvs)
  then have "dget kvs (fst p) = None" by (auto simp: map_of_eq_None_iff)
  then show ?case using snoc by (simp add: dict_of_def dput_new)
qed (simp add: dict_of_def)

definition reads_back :: "(json \<Rightarrow> string) \<Rightarrow> json \<Rightarrow> bool" where
  "reads_back f v \<longleftrightarrow> (\<forall>n r. length (f v) \<le> n \<longrightarrow> closing r \<longrightarrow> parse_value n (f v @ r) = Some (v, r))"

lemma join_Cons2: "join s (x # y # ys) = x @ s @ join s (y # ys)"
  by (simp add: join_def)

lemma join_one [simp]: "join s [x] = x" "join s [] = []"
  by (simp_all add: join_def)

lemma parse_items_join:
  assumes "list_all ws_char sp" "\<forall>v \<in> set (x # xs). reads_back (render sp a) v"
    and "length (join ('','' @ sp) (map (render sp a) (x # xs))) < n"
  shows "parse_items n (join ('','' @ sp) (map (render sp a) (x # xs)) @ CHR '']'' # r) = Some (x # xs, r)"
  using assms(2,3)
proof (induction xs arbitrary: x n)
  case Nil
  then obtain m where "n = Suc m" by (cases n) auto
  with Nil show ?case by (simp add: reads_back_def closing_def)
next
  case (Cons y ys)
  then obtain m where m: "n = Suc m" by (cases n) auto
  let ?rest = "join ('','' @ sp) (map (render sp a) (y # ys))"
  have split: "join ('','' @ sp) (map (render sp a) (x # y # ys)) @ CHR '']'' # r =
      render sp a x @ '','' @ sp @ ?rest @ CHR '']'' # r"
    by (simp add: join_Cons2)
  have "length (render sp a x) \<le> m" "length ?rest < m"
    using Cons.prems(2) m by (simp_all add: join_Cons2)
  moreover have "skip (sp @ ?rest @ CHR '']'' # r) = ?rest @ CHR '']'' # r"
    using skip_render [of sp a y] by (simp add: skip_blanks [OF assms(1)] join_def)
  moreover have "closing ('','' @ sp @ ?rest @ CHR '']'' # r)" by (simp add: closing_def)
  ultimately show ?case
    using Cons.IH [of y m] Cons.prems(1) m unfolding split by (simp add: reads_back_def)
qed

lemma length_member: "length (render_member sp a p) = length (quote a (fst p)) + 1 + length sp + length (render sp a (snd p))"
  by (simp add: render_member_def)

lemma parse_members_join:
  assumes "list_all ws_char sp" "\<forall>p \<in> set (q # ps). reads_back (render sp a) (snd p)"
    and "length (join ('','' @ sp) (map (render_member sp a) (q # ps))) < n"
  shows "parse_members n (join ('','' @ sp) (map (render_member sp a) (q # ps)) @ CHR ''}'' # r) = Some (q # ps, r)"
  using assms(2,3)
proof (induction ps arbitrary: q n)
  case Nil
  then obtain m where m: "n = Suc m" by (cases n) auto
  have "skip (sp @ render sp a (snd q) @ CHR ''}'' # r) = render sp a (snd q) @ CHR ''}'' # r"
    using skip_render [of sp a "snd q"] by (simp add: skip_blanks [OF assms(1)])
  then show ?case
    using Nil m parse_quoted [of a "fst q"]
    by (simp add: reads_back_def closing_def render_member_def quote_def)
next
  case (Cons q' ps)
  then obtain m where m: "n = Suc m" by (cases n) auto
  let ?rest = "join ('','' @ sp) (map (render_member sp a) (q' # ps)) @ CHR ''}'' # r"
  have split: "join ('','' @ sp) (map (render_member sp a) (q # q' # ps)) @ CHR ''}'' # r =
      quote a (fst q) @ '':'' @ sp @ render sp a (snd q) @ '','' @ sp @ ?rest"
    by (simp add: join_Cons2 render_member_def)
  have "length (render sp a (snd q)) \<le> m" "length (join ('','' @ sp) (map (render_member sp a) (q' # ps))) < m"
    using Cons.prems(2) m by (simp_all add: join_Cons2 length_member)
  moreover have "skip (sp @ ?rest) = ?rest"
    by (simp add: skip_blanks [OF assms(1)] join_def render_member_def quote_def)
  moreover have "skip (sp @ render sp a (snd q) @ s) = render sp a (snd q) @ s" for s
    using skip_render [of sp a "snd q" s] by (simp add: skip_blanks [OF assms(1)])
  moreover have "closing ('','' @ sp @ ?rest)" by (simp add: closing_def)
  ultimately show ?case
    using Cons.IH [of q' m] Cons.prems(1) m parse_quoted [of a "fst q"] unfolding split
    by (simp add: reads_back_def quote_def)
qed

lemma parse_list:
  assumes "list_all ws_char sp" "\<forall>v \<in> set xs. reads_back (render sp a) v"
  shows "reads_back (render sp a) (JList xs)"
  unfolding reads_back_def
proof (intro allI impI)
  fix n r
  assume len: "length (render sp a (JList xs)) \<le> n"
  then obtain m where m: "n = Suc m" by (cases n) auto
  show "parse_value n (render sp a (JList xs) @ r) = Some (JList xs, r)"
  proof (cases xs)
    case Nil
    then show ?thesis using m by simp
  next
    case (Cons x ys)
    have "skip (join ('','' @ sp) (map (render sp a) xs) @ s) = join ('','' @ sp) (map (render sp a) xs) @ s" for s
      using skip_render [of sp a x] by (simp add: Cons join_def)
    moreover have "\<not> startswith (join ('','' @ sp) (map (render sp a) xs) @ s) '']''" for s
      using render_start [of sp a x] kind_not_closing by (fastforce simp: Cons join_def)
    moreover have "parse_items m (join ('','' @ sp) (map (render sp a) xs) @ CHR '']'' # r) = Some (xs, r)"
      unfolding Cons by (rule parse_items_join) (use assms len m Cons in simp_all)
    ultimately show ?thesis using m by simp
  qed
qed

lemma parse_object:
  assumes "list_all ws_char sp" "\<forall>p \<in> set kvs. reads_back (render sp a) (snd p)" "distinct (map fst kvs)"
  shows "reads_back (render sp a) (JObj kvs)"
  unfolding reads_back_def
proof (intro allI impI)
  fix n r
  assume len: "length (render sp a (JObj kvs)) \<le> n"
  then obtain m where m: "n = Suc m" by (cases n) auto
  show "parse_value n (render sp a (JObj kvs) @ r) = Some (JObj kvs, r)"
  proof (cases kvs)
    case Nil
    then show ?thesis using m by (simp add: join_def)
  next
    case (Cons q ps)
    let ?t = "join ('','' @ sp) (map (render_member sp a) kvs)"
    have "skip (?t @ s) = ?t @ s" "\<not> startswith (?t @ s) ''}''" for s
      by (simp_all add: Cons join_def render_member_def quote_def)
    moreover have "parse_members m (?t @ CHR ''}'' # r) = Some (kvs, r)"
      unfolding Cons by (rule parse_members_join) (use assms(1,2) len m Cons in \<open>simp_all add: render_JObj del: render.simps\<close>)
    ultimately show ?thesis using m dict_of_distinct [OF assms(3)] by (simp add: render_JObj del: render.simps)
  qed
qed

lemma parse_render:
  assumes "list_all ws_char sp"
  shows "py_value v \<Longrightarrow> reads_back (render sp a) v"
proof (induction v)
  case (JInt i)
  have "0 < length (int_str i)" using dumps_start [of a "JInt i"] by auto
  then have "\<exists>m. n = Suc m" if "length (int_str i) \<le> n" for n using that by (cases n) simp_all
  then show ?case using parse_value_int by (fastforce simp: reads_back_def simp del: parse_value.simps)
next
  case (JList xs)
  then show ?case using assms by (intro parse_list) (auto simp: list_all_iff)
next
  case (JObj kvs)
  then show ?case using assms by (intro parse_object) (auto simp: list_all_iff snds.simps)
next
  case (JStr s)
  then show ?case using parse_quoted by (auto simp: reads_back_def quote_def dest!: Suc_le_D)
qed (auto simp: reads_back_def dest!: Suc_le_D)

text \<open>A printed value is read back as itself.\<close>

theorem loads_render:
  assumes "py_value v" "list_all ws_char sp"
  shows "json_loads (render sp a v) = Some v"
proof -
  have "parse_value (length (render sp a v)) (render sp a v @ []) = Some (v, [])"
    using parse_render [OF assms(2,1)] unfolding reads_back_def by (simp add: closing_def)
  moreover have "skip (render sp a v) = render sp a v" using skip_render [of sp a v "[]"] by simp
  ultimately show ?thesis by (simp add: json_loads_def skip_def)
qed

section \<open>Printed texts have no control characters\<close>

lemma esc_printable: "list_all (\<lambda>c. 32 \<le> (of_char c :: nat)) (esc a c)"
proof -
  have "32 \<le> (of_char (hexdig n) :: nat)" if "n < 16" for n using that by (simp add: hexdig_def)
  moreover have "(of_char c :: nat) div 16 < 16" by (simp add: less_mult_imp_div_less)
  ultimately show ?thesis by (simp add: esc_def)
qed

lemma quote_printable: "list_all (\<lambda>c. 32 \<le> (of_char c :: nat)) (quote a s)"
  using esc_printable by (simp add: quote_def list_all_iff)

lemma int_printable: "list_all (\<lambda>c. 32 \<le> (of_char c :: nat)) (int_str i)"
proof -
  have "\<forall>c \<in> set (nat_str n). 32 \<le> (of_char c :: nat)" for n
    using nat_str_digits [of n] by (auto simp: is_digit_def)
  then show ?thesis by (simp add: int_str_def list_all_iff)
qed

lemma set_join: "set (join s xs) \<subseteq> set s \<union> \<Union> (set ` set xs)"
  by (cases xs) (auto simp: join_def)

lemma join_printable:
  "list_all P s \<Longrightarrow> \<forall>x \<in> set xs. list_all P x \<Longrightarrow> list_all P (join s xs)"
  using set_join [of s xs] by (fastforce simp: list_all_iff)

lemma render_printable:
  assumes "list_all (\<lambda>c. 32 \<le> (of_char c :: nat)) sp"
  shows "list_all (\<lambda>c. 32 \<le> (of_char c :: nat)) (render sp a v)"
proof (induction v)
  case (JInt i)
  then show ?case using int_printable by simp
next
  case (JStr s)
  then show ?case using quote_printable by simp
next
  case (JList xs)
  then show ?case using assms by (auto intro!: join_printable)
next
  case (JObj kvs)
  have "\<forall>x \<in> set (map (render_member sp a) kvs). list_all (\<lambda>c. 32 \<le> (of_char c :: nat)) x"
    using JObj assms quote_printable by (auto simp: render_member_def snds.simps)
  then show ?case unfolding render_JObj using assms by (auto intro!: join_printable)
qed simp_all

end
