(* ===== verification/Journal.thy ===== *)
theory Journal
  imports JsonText EventTaxonomy Tenancy
begin

text \<open>
  \<open>security/ledger/journal.py\<close>: the hash-chained journal of the runtime with its two tail caches,
  the state file beside the journal and the table in memory, which let an append start from the last
  verified byte, and the lineage ledger the same module writes and reads. A file is its text; \<open>sha\<close> is the
  hex SHA-256 of a text, a clock reading is an argument of the call that makes it.
\<close>

section \<open>Texts and bytes\<close>

text \<open>The UTF-8 length of a text of code points below 256, and the text after a number of bytes:
  no text when that lands inside a character.\<close>

definition char_len :: "char \<Rightarrow> nat" where
  "char_len c = (if (of_char c :: nat) < 128 then 1 else 2)"

definition utf8_len :: "string \<Rightarrow> nat" where
  "utf8_len s = sum_list (map char_len s)"

fun drop_bytes :: "nat \<Rightarrow> string \<Rightarrow> string option" where
  "drop_bytes n [] = Some []"
| "drop_bytes n (c # cs) =
     (if n = 0 then Some (c # cs) else if n < char_len c then None else drop_bytes (n - char_len c) cs)"

text \<open>The lines of a text, without their ends. A file opened as text ends a line at LF, CR and CR LF;
  \<open>splitlines\<close> also at the separators below.\<close>

definition after_break :: "char \<Rightarrow> string \<Rightarrow> string" where
  "after_break c cs = (if c = CHR 0x0D \<and> cs \<noteq> [] \<and> hd cs = CHR 0x0A then tl cs else cs)"

lemma after_break_length [simp]: "length (after_break c cs) \<le> length cs"
  by (simp add: after_break_def)

function split_on :: "(char \<Rightarrow> bool) \<Rightarrow> string \<Rightarrow> string list" where
  "split_on brk [] = []"
| "split_on brk (c # cs) =
     (if brk c then [] # split_on brk (after_break c cs)
      else case split_on brk cs of [] \<Rightarrow> [[c]] | l # ls \<Rightarrow> (c # l) # ls)"
  by pat_completeness auto

termination
  by (relation "measure (\<lambda>(brk, s). length s)") (simp_all add: le_imp_less_Suc)

definition newline :: "char \<Rightarrow> bool" where
  "newline c \<longleftrightarrow> c = CHR 0x0A \<or> c = CHR 0x0D"

definition line_break :: "char \<Rightarrow> bool" where
  "line_break c \<longleftrightarrow> newline c \<or> c \<in> {CHR 0x0B, CHR 0x0C, CHR 0x1C, CHR 0x1D, CHR 0x1E, CHR 0x85}"

text \<open>\<open>json.dumps(v, ensure_ascii=False)\<close>\<close>

definition json_text :: "json \<Rightarrow> string" where
  "json_text v = render '' '' False v"

definition json_line :: "json \<Rightarrow> string" where
  "json_line v = json_text v @ [CHR 0x0A]"

text \<open>\<open>str(d.get(k) or "")\<close>\<close>

definition text_at :: "obj \<Rightarrow> string \<Rightarrow> string" where
  "text_at d k = py_str (get_or_truthy d k (JStr []))"

section \<open>The journal\<close>

datatype chain_fault = InvalidJson nat | MalformedEntry nat | PrevMismatch nat | HashMismatch nat

datatype journal_error =
    JournalIntegrity chain_fault
  | JournalUndecodable
  | JournalMissing
  | JournalValue py_error

text \<open>The files of one journal, and the entry of the table in memory for it.\<close>

record journal_disk =
  jn_file :: "string option"
  jn_genesis :: "string option"
  jn_tail :: "string option"
  jn_mtime :: int
  jn_cache :: "(string \<times> nat \<times> int \<times> string) option"

type_synonym 'a journal_op = "(journal_error + 'a) \<times> journal_disk"

definition GENESIS_HASH :: string where
  "GENESIS_HASH = replicate 64 (CHR ''0'')"

text \<open>What \<open>ensure_journal\<close> does when it has found no journal: the write of the genesis replaces the file, \<open>touch\<close> keeps it.\<close>

definition seed_journal :: "int \<Rightarrow> journal_disk \<Rightarrow> journal_disk" where
  "seed_journal now j =
     j\<lparr>jn_file := Some (case jn_genesis j of Some g \<Rightarrow> g | None \<Rightarrow> case jn_file j of Some t \<Rightarrow> t | None \<Rightarrow> []), jn_mtime := now\<rparr>"

definition ensure_journal :: "int \<Rightarrow> journal_disk \<Rightarrow> journal_disk" where
  "ensure_journal now j = (case jn_file j of Some t \<Rightarrow> j | None \<Rightarrow> seed_journal now j)"

definition hash_line :: "(string \<Rightarrow> string) \<Rightarrow> string \<Rightarrow> obj \<Rightarrow> string" where
  "hash_line sha prev payload = sha (prev @ json_text (norm (JObj payload)))"

definition unhashed :: "obj \<Rightarrow> obj" where
  "unhashed e = filter (\<lambda>p. fst p \<noteq> ''hash'') e"

fun scan_lines :: "(string \<Rightarrow> string) \<Rightarrow> nat \<Rightarrow> string \<Rightarrow> string list \<Rightarrow> chain_fault + string" where
  "scan_lines sha n prev [] = Inr prev"
| "scan_lines sha n prev (l # ls) =
     (if py_strip l = [] then scan_lines sha (Suc n) prev ls
      else case json_loads (py_strip l) of
        None \<Rightarrow> Inl (InvalidJson n)
      | Some (JObj e) \<Rightarrow>
          if text_at e ''prev_hash'' \<noteq> prev then Inl (PrevMismatch n)
          else if text_at e ''hash'' \<noteq> hash_line sha prev (unhashed e) then Inl (HashMismatch n)
          else scan_lines sha (Suc n) (text_at e ''hash'') ls
      | Some v \<Rightarrow> Inl (MalformedEntry n))"

text \<open>A fault calls the recovery hook, which may change the files, before it is raised.\<close>

definition scan_chain ::
  "(string \<Rightarrow> string) \<Rightarrow> (journal_disk \<Rightarrow> journal_disk) \<Rightarrow> nat \<Rightarrow> string \<Rightarrow> journal_disk \<Rightarrow> (string \<times> nat) journal_op" where
  "scan_chain sha hook start prev j =
     (case jn_file j of
        None \<Rightarrow> (Inl JournalMissing, j)
      | Some t \<Rightarrow>
          (case drop_bytes start t of
             None \<Rightarrow> (Inl JournalUndecodable, j)
           | Some r \<Rightarrow>
               (case scan_lines sha 1 prev (split_on newline r) of
                  Inl f \<Rightarrow> (Inl (JournalIntegrity f), hook j)
                | Inr h \<Rightarrow> (Inr (h, utf8_len t), j))))"

section \<open>The tail caches\<close>

definition read_tail_state :: "journal_disk \<Rightarrow> (string \<times> nat) option" where
  "read_tail_state j =
     (case Option.bind (jn_tail j) json_loads of
        Some (JObj d) \<Rightarrow>
          (if length (text_at d ''last_hash'') \<noteq> 64 then None
           else case dget_or d ''offset'' JNull of
             JInt i \<Rightarrow> if i < 0 then None else Some (text_at d ''last_hash'', nat i)
           | JBool b \<Rightarrow> Some (text_at d ''last_hash'', if b then 1 else 0)
           | _ \<Rightarrow> None)
      | _ \<Rightarrow> None)"

definition content_digest :: "(string \<Rightarrow> string) \<Rightarrow> journal_disk \<Rightarrow> string" where
  "content_digest sha j = (case jn_file j of None \<Rightarrow> [] | Some t \<Rightarrow> sha t)"

definition write_verified_cache :: "(string \<Rightarrow> string) \<Rightarrow> string \<Rightarrow> nat \<Rightarrow> journal_disk \<Rightarrow> journal_disk" where
  "write_verified_cache sha h off j =
     j\<lparr>jn_cache := Some (h, off, if jn_file j = None then 0 else jn_mtime j, content_digest sha j)\<rparr>"

definition tail_payload :: "string \<Rightarrow> nat \<Rightarrow> json" where
  "tail_payload h off = JObj [(''last_hash'', JStr h), (''offset'', JInt (int off))]"

definition write_verified_tail :: "(string \<Rightarrow> string) \<Rightarrow> string \<Rightarrow> nat \<Rightarrow> journal_disk \<Rightarrow> journal_disk" where
  "write_verified_tail sha h off j =
     write_verified_cache sha h off (j\<lparr>jn_tail := Some (json_text (tail_payload h off))\<rparr>)"

text \<open>A remembered tail: hash, offset, and, from the table in memory, modification time and digest.\<close>

type_synonym tail_state = "string \<times> nat \<times> (int \<times> string) option"

definition resume_verified_tail ::
  "(string \<Rightarrow> string) \<Rightarrow> (journal_disk \<Rightarrow> journal_disk) \<Rightarrow> tail_state \<Rightarrow> journal_disk \<Rightarrow> (string \<times> nat) option journal_op" where
  "resume_verified_tail sha hook s j =
     (case s of (h, off, seen) \<Rightarrow>
        (case jn_file j of
           None \<Rightarrow> (Inl JournalMissing, j)
         | Some t \<Rightarrow>
             if utf8_len t < off then (Inr None, j)
             else if utf8_len t = off then
               (if seen = Some (jn_mtime j, content_digest sha j)
                then (Inr (Some (h, off)), write_verified_cache sha h off j) else (Inr None, j))
             else
               ethen (scan_chain sha hook off h j) (\<lambda>(h', off') j'.
                 (Inr (Some (h', off')), write_verified_tail sha h' off' j'))))"

definition tail_states :: "journal_disk \<Rightarrow> tail_state list" where
  "tail_states j =
     (case jn_cache j of None \<Rightarrow> [] | Some (h, off, mt, dg) \<Rightarrow> [(h, off, Some (mt, dg))]) @
     (case read_tail_state j of None \<Rightarrow> [] | Some (h, off) \<Rightarrow> [(h, off, None)])"

text \<open>An integrity fault behind a remembered tail is swallowed and the next one is tried.\<close>

fun try_tails ::
  "(string \<Rightarrow> string) \<Rightarrow> (journal_disk \<Rightarrow> journal_disk) \<Rightarrow> tail_state list \<Rightarrow> journal_disk \<Rightarrow> (string \<times> nat) option journal_op" where
  "try_tails sha hook [] j = (Inr None, j)"
| "try_tails sha hook (s # ss) j =
     (case resume_verified_tail sha hook s j of
        (Inr (Some r), j') \<Rightarrow> (Inr (Some r), j')
      | (Inr None, j') \<Rightarrow> try_tails sha hook ss j'
      | (Inl (JournalIntegrity f), j') \<Rightarrow> try_tails sha hook ss (j'\<lparr>jn_cache := None\<rparr>)
      | (Inl e, j') \<Rightarrow> (Inl e, j'))"

definition validated_last_hash ::
  "(string \<Rightarrow> string) \<Rightarrow> (journal_disk \<Rightarrow> journal_disk) \<Rightarrow> int \<Rightarrow> journal_disk \<Rightarrow> (string \<times> nat) journal_op" where
  "validated_last_hash sha hook now j =
     (let j1 = ensure_journal now j
      in ethen (try_tails sha hook (tail_states j1) j1) (\<lambda>found j2.
           case found of
             Some r \<Rightarrow> (Inr r, j2)
           | None \<Rightarrow>
               ethen (scan_chain sha hook 0 GENESIS_HASH j2) (\<lambda>(h, off) j3.
                 (Inr (h, off), write_verified_tail sha h off j3))))"

definition verify_journal_integrity ::
  "(string \<Rightarrow> string) \<Rightarrow> (journal_disk \<Rightarrow> journal_disk) \<Rightarrow> int \<Rightarrow> journal_disk \<Rightarrow> unit journal_op" where
  "verify_journal_integrity sha hook now j =
     ethen (validated_last_hash sha hook now j) (\<lambda>r j'. (Inr (), j'))"

definition invalidate_journal_cache :: "journal_disk \<Rightarrow> journal_disk" where
  "invalidate_journal_cache j = j\<lparr>jn_cache := None\<rparr>"

section \<open>Appending\<close>

record tx_args =
  tx_type :: string
  tx_payload :: obj
  tx_id :: "string option"
  tx_stamp :: string
  tx_ts :: string
  tx_tenant :: obj
  tx_now :: int

definition with_tenant :: "obj \<Rightarrow> obj \<Rightarrow> obj" where
  "with_tenant ctx payload =
     (if ctx = [] then payload
      else dput ''workspace_id'' (JStr (text_at ctx ''workspace_id''))
             (dput ''tenant_id'' (JStr (text_at ctx ''tenant_id'')) payload))"

definition tx_body :: "tx_args \<Rightarrow> string \<Rightarrow> string \<Rightarrow> obj" where
  "tx_body a ty prev =
     [(''tx'', JStr (case tx_id a of Some (c # cs) \<Rightarrow> c # cs | _ \<Rightarrow> ''TX-'' @ ty @ ''-'' @ tx_stamp a)),
      (''ts'', JStr (tx_ts a)), (''type'', JStr ty),
      (''payload'', JObj (with_tenant (tx_tenant a) (tx_payload a))), (''prev_hash'', JStr prev)]"

definition tx_entry :: "(string \<Rightarrow> string) \<Rightarrow> tx_args \<Rightarrow> string \<Rightarrow> string \<Rightarrow> obj" where
  "tx_entry sha a ty prev = tx_body a ty prev @ [(''hash'', JStr (hash_line sha prev (tx_body a ty prev)))]"

text \<open>The event type and the tenant of an append are checked before the journal is touched.\<close>

definition tx_check :: "tx_args \<Rightarrow> journal_error + string" where
  "tx_check a =
     (case validate_event_type_for_agm_step (JStr (tx_type a)) (dget_or (tx_payload a) ''agm_step'' JNull) of
        Inl e \<Rightarrow> Inl (JournalValue e)
      | Inr ty \<Rightarrow>
          if tx_tenant a = [] then Inr ty
          else case normalize_tenant_scope (tx_tenant a) of Inl e \<Rightarrow> Inl (JournalValue e) | Inr s \<Rightarrow> Inr ty)"

text \<open>The append under the lock, up to the write of the line; the whole append up to there; then the new tail.\<close>

definition append_locked :: "(string \<Rightarrow> string) \<Rightarrow> tx_args \<Rightarrow> string \<Rightarrow> journal_disk \<Rightarrow> (obj \<times> nat) journal_op" where
  "append_locked sha a ty j =
     ethen (validated_last_hash sha id (tx_now a) j) (\<lambda>(prev, off) j2.
       let e = tx_entry sha a ty prev; l = json_line (JObj e)
       in (Inr (e, off + utf8_len l),
           j2\<lparr>jn_file := Some (case jn_file j2 of None \<Rightarrow> l | Some t \<Rightarrow> t @ l), jn_mtime := tx_now a\<rparr>))"

definition append_written :: "(string \<Rightarrow> string) \<Rightarrow> tx_args \<Rightarrow> journal_disk \<Rightarrow> (obj \<times> nat) journal_op" where
  "append_written sha a j =
     ethen (tx_check a, j) (\<lambda>ty j. append_locked sha a ty (ensure_journal (tx_now a) j))"

definition append_tx :: "(string \<Rightarrow> string) \<Rightarrow> tx_args \<Rightarrow> journal_disk \<Rightarrow> obj journal_op" where
  "append_tx sha a j =
     ethen (append_written sha a j) (\<lambda>(e, off) j'. (Inr e, write_verified_tail sha (text_at e ''hash'') off j'))"

section \<open>Printed lines\<close>

lemma json_text_lines: "list_all (\<lambda>c. \<not> newline c) (json_text v)"
proof -
  have "list_all (\<lambda>c. 32 \<le> (of_char c :: nat)) (json_text v)"
    unfolding json_text_def by (rule render_printable) simp
  moreover have "\<not> newline c" if "32 \<le> (of_char c :: nat)" for c
    using that by (auto simp: newline_def)
  ultimately show ?thesis by (auto simp: list_all_iff)
qed

lemma split_on_line:
  assumes "list_all (\<lambda>c. \<not> brk c) l" "brk (CHR 0x0A)"
  shows "split_on brk (l @ CHR 0x0A # t) = l # split_on brk t"
  using assms by (induction l) (simp_all add: after_break_def)

lemma py_strip_solid: "s \<noteq> [] \<Longrightarrow> \<not> is_space (hd s) \<Longrightarrow> \<not> is_space (last s) \<Longrightarrow> py_strip s = s"
  by (simp add: py_strip_def dropWhile_eq_self_iff [THEN iffD2] hd_rev)

lemma json_text_object: "\<exists>s. json_text (JObj e) = CHR ''{'' # s @ [CHR ''}'']"
  by (simp add: json_text_def)

lemma json_text_strip [simp]: "py_strip (json_text (JObj e)) = json_text (JObj e)" "json_text (JObj e) \<noteq> []"
proof -
  obtain s where s: "json_text (JObj e) = CHR ''{'' # s @ [CHR ''}'']" using json_text_object by blast
  show "py_strip (json_text (JObj e)) = json_text (JObj e)"
    unfolding s by (rule py_strip_solid) (simp_all add: is_space_def)
  show "json_text (JObj e) \<noteq> []" by (simp add: s)
qed

lemma loads_json_text [simp]: "py_value v \<Longrightarrow> json_loads (json_text v) = Some v"
  unfolding json_text_def by (rule loads_render) (simp_all add: ws_char_def)

section \<open>Bytes\<close>

lemma char_len_pos [simp]: "0 < char_len c" "char_len c \<noteq> 0"
  by (simp_all add: char_len_def)

lemma utf8_len_append [simp]: "utf8_len (s @ t) = utf8_len s + utf8_len t"
  by (simp add: utf8_len_def)

lemma utf8_len_simps [simp]: "utf8_len [] = 0" "utf8_len (c # s) = char_len c + utf8_len s"
  by (simp_all add: utf8_len_def)

lemma drop_bytes_prefix [simp]: "drop_bytes (utf8_len s) (s @ t) = Some t"
proof (induction s)
  case Nil
  then show ?case by (cases t) simp_all
qed simp

lemma drop_bytes_0 [simp]: "drop_bytes 0 s = Some s"
  by (cases s) simp_all

section \<open>Well-formed journals\<close>

definition journal_text :: "obj list \<Rightarrow> string" where
  "journal_text es = concat (map (\<lambda>e. json_line (JObj e)) es)"

lemma journal_text_simps [simp]:
  "journal_text [] = []" "journal_text (e # es) = json_line (JObj e) @ journal_text es"
  "journal_text (es @ fs) = journal_text es @ journal_text fs"
  by (simp_all add: journal_text_def)

fun chain_from :: "(string \<Rightarrow> string) \<Rightarrow> string \<Rightarrow> obj list \<Rightarrow> bool" where
  "chain_from sha p [] = True"
| "chain_from sha p (e # es) =
     (text_at e ''prev_hash'' = p \<and> text_at e ''hash'' = hash_line sha p (unhashed e) \<and>
      chain_from sha (text_at e ''hash'') es)"

fun tip :: "string \<Rightarrow> obj list \<Rightarrow> string" where
  "tip p [] = p"
| "tip p (e # es) = tip (text_at e ''hash'') es"

lemma tip_append [simp]: "tip p (es @ fs) = tip (tip p es) fs"
  by (induction es arbitrary: p) simp_all

lemma chain_from_append [simp]: "chain_from sha p (es @ fs) \<longleftrightarrow> chain_from sha p es \<and> chain_from sha (tip p es) fs"
  by (induction es arbitrary: p) auto

lemma journal_lines:
  "split_on newline (journal_text es) = map (\<lambda>e. json_text (JObj e)) es"
proof (induction es)
  case (Cons e es)
  have "split_on newline (json_text (JObj e) @ CHR 0x0A # journal_text es) =
      json_text (JObj e) # split_on newline (journal_text es)"
    by (rule split_on_line [OF json_text_lines]) (simp add: newline_def)
  with Cons show ?case by (simp add: json_line_def)
qed simp

lemma scan_entries:
  "list_all (\<lambda>e. py_value (JObj e)) es \<Longrightarrow> chain_from sha p es \<Longrightarrow>
   scan_lines sha n p (map (\<lambda>e. json_text (JObj e)) es) = Inr (tip p es)"
proof (induction es arbitrary: n p)
  case (Cons e es)
  then have "json_loads (json_text (JObj e)) = Some (JObj e)" by (intro loads_json_text) simp
  moreover have "scan_lines sha (Suc n) (text_at e ''hash'') (map (\<lambda>e. json_text (JObj e)) es) =
      Inr (tip (text_at e ''hash'') es)"
    by (rule Cons.IH) (use Cons.prems in \<open>auto simp del: py_value.simps\<close>)
  ultimately show ?case using Cons.prems(2) by auto
qed simp

definition content :: "journal_disk \<Rightarrow> string" where
  "content j = (case jn_file j of Some t \<Rightarrow> t | None \<Rightarrow> (case jn_genesis j of Some g \<Rightarrow> g | None \<Rightarrow> []))"

text \<open>A remembered tail is the hash and the length of a prefix of the entries.\<close>

definition points :: "obj list \<Rightarrow> string \<Rightarrow> nat \<Rightarrow> bool" where
  "points es h off \<longleftrightarrow>
     (\<exists>as bs. es = as @ bs \<and> h = tip GENESIS_HASH as \<and> off = utf8_len (journal_text as))"

definition cache_ok :: "obj list \<Rightarrow> (string \<times> nat \<times> int \<times> string) option \<Rightarrow> bool" where
  "cache_ok es c \<longleftrightarrow> (case c of None \<Rightarrow> True | Some (h, off, seen) \<Rightarrow> points es h off)"

definition tail_ok :: "obj list \<Rightarrow> journal_disk \<Rightarrow> bool" where
  "tail_ok es j \<longleftrightarrow> (case read_tail_state j of None \<Rightarrow> True | Some (h, off) \<Rightarrow> points es h off)"

definition well_chained :: "(string \<Rightarrow> string) \<Rightarrow> obj list \<Rightarrow> bool" where
  "well_chained sha es \<longleftrightarrow> list_all (\<lambda>e. py_value (JObj e)) es \<and> chain_from sha GENESIS_HASH es"

definition journal_inv :: "(string \<Rightarrow> string) \<Rightarrow> obj list \<Rightarrow> journal_disk \<Rightarrow> bool" where
  "journal_inv sha es j \<longleftrightarrow>
     well_chained sha es \<and> content j = journal_text es \<and> cache_ok es (jn_cache j) \<and> tail_ok es j"

lemma points_more: "points es h off \<Longrightarrow> points (es @ fs) h off"
  by (force simp: points_def)

lemma points_whole [simp]: "points es (tip GENESIS_HASH es) (utf8_len (journal_text es))"
  by (force simp: points_def)

lemma line_pos: "0 < utf8_len (json_line v)"
  by (simp add: json_line_def)

lemma points_end:
  assumes "points es h off"
  obtains "off = utf8_len (journal_text es)" "h = tip GENESIS_HASH es"
  | as bs where "es = as @ bs" "h = tip GENESIS_HASH as" "off = utf8_len (journal_text as)"
      "off < utf8_len (journal_text es)"
proof -
  obtain as bs where p: "es = as @ bs" "h = tip GENESIS_HASH as" "off = utf8_len (journal_text as)"
    using assms by (auto simp: points_def)
  show thesis
  proof (cases bs)
    case Nil
    then show thesis using that(1) p by simp
  next
    case (Cons e fs)
    then show thesis using that(2) [OF p] p line_pos [of "JObj e"] by simp
  qed
qed

lemma read_written_tail:
  "jn_tail j = Some (json_text (tail_payload h off)) \<Longrightarrow>
   read_tail_state j = (if length h = 64 then Some (h, off) else None)"
  by (simp add: read_tail_state_def tail_payload_def text_at_def get_or_truthy_def dget_or_def)

lemma write_tail_fields [simp]:
  "jn_file (write_verified_tail sha h off j) = jn_file j"
  "jn_genesis (write_verified_tail sha h off j) = jn_genesis j"
  "content (write_verified_tail sha h off j) = content j"
  "cache_ok es (jn_cache (write_verified_tail sha h off j)) = points es h off"
  "tail_ok es (write_verified_tail sha h off j) \<longleftrightarrow> length h = 64 \<longrightarrow> points es h off"
  by (simp_all add: write_verified_tail_def write_verified_cache_def content_def cache_ok_def tail_ok_def
      read_written_tail cong: option.case_cong)

lemma write_cache_fields [simp]:
  "jn_file (write_verified_cache sha h off j) = jn_file j"
  "jn_genesis (write_verified_cache sha h off j) = jn_genesis j"
  "content (write_verified_cache sha h off j) = content j"
  "cache_ok es (jn_cache (write_verified_cache sha h off j)) = points es h off"
  "read_tail_state (write_verified_cache sha h off j) = read_tail_state j"
  "tail_ok es (write_verified_cache sha h off j) = tail_ok es j"
  by (simp_all add: write_verified_cache_def content_def cache_ok_def tail_ok_def read_tail_state_def
      cong: option.case_cong)

lemma ensure_fields [simp]:
  "jn_file (ensure_journal now j) = Some (content j)"
  "content (ensure_journal now j) = content j"
  "jn_cache (ensure_journal now j) = jn_cache j"
  "jn_genesis (ensure_journal now j) = jn_genesis j"
  "tail_ok es (ensure_journal now j) = tail_ok es j"
  by (simp_all add: ensure_journal_def seed_journal_def content_def tail_ok_def read_tail_state_def split: option.split)

section \<open>Validation finds the end of a well-formed journal\<close>

abbreviation at_end :: "obj list \<Rightarrow> string \<times> nat" where
  "at_end es \<equiv> (tip GENESIS_HASH es, utf8_len (journal_text es))"

lemma scan_from:
  assumes "well_chained sha (as @ bs)" "jn_file j = Some (journal_text (as @ bs))"
  shows "scan_chain sha hook (utf8_len (journal_text as)) (tip GENESIS_HASH as) j = (Inr (at_end (as @ bs)), j)"
  using assms scan_entries [of bs sha "tip GENESIS_HASH as" 1]
  by (simp add: scan_chain_def well_chained_def journal_lines)

lemma resume_ok:
  assumes inv: "journal_inv sha es j" "jn_file j = Some (journal_text es)" and "points es h off"
  shows "resume_verified_tail sha hook (h, off, seen) j = (Inr None, j) \<or>
    (\<exists>j'. resume_verified_tail sha hook (h, off, seen) j = (Inr (Some (at_end es)), j') \<and>
      journal_inv sha es j' \<and> jn_file j' = Some (journal_text es) \<and> jn_genesis j' = jn_genesis j)"
  using assms(3)
proof (cases rule: points_end)
  case 1
  then show ?thesis using inv by (simp add: resume_verified_tail_def journal_inv_def)
next
  case (2 as bs)
  then have "scan_chain sha hook off h j = (Inr (at_end es), j)"
    using scan_from [of sha as bs j hook] inv by (simp add: journal_inv_def)
  then show ?thesis using 2(4) inv by (simp add: resume_verified_tail_def journal_inv_def)
qed

lemma try_tails_ok:
  assumes "journal_inv sha es j" "jn_file j = Some (journal_text es)"
    and "list_all (\<lambda>(h, off, seen). points es h off) ss"
  shows "try_tails sha hook ss j = (Inr None, j) \<or>
    (\<exists>j'. try_tails sha hook ss j = (Inr (Some (at_end es)), j') \<and>
      journal_inv sha es j' \<and> jn_file j' = Some (journal_text es) \<and> jn_genesis j' = jn_genesis j)"
  using assms(3)
proof (induction ss)
  case (Cons s ss)
  obtain h off seen where s: "s = (h, off, seen)" by (cases s)
  then have "points es h off" using Cons.prems by simp
  from resume_ok [OF assms(1,2) this, of hook seen] Cons s show ?case by auto
qed simp

lemma validated_ok:
  assumes "journal_inv sha es j"
  shows "\<exists>j'. validated_last_hash sha hook now j = (Inr (at_end es), j') \<and>
    journal_inv sha es j' \<and> jn_file j' = Some (journal_text es) \<and> jn_genesis j' = jn_genesis j"
proof -
  let ?j = "ensure_journal now j"
  have j: "journal_inv sha es ?j" "jn_file ?j = Some (journal_text es)"
    using assms by (simp_all add: journal_inv_def)
  have "list_all (\<lambda>(h, off, seen). points es h off) (tail_states ?j)"
    using j(1) by (auto simp: tail_states_def journal_inv_def cache_ok_def tail_ok_def split: option.splits)
  from try_tails_ok [OF j this, of hook] show ?thesis
  proof
    assume "try_tails sha hook (tail_states ?j) ?j = (Inr None, ?j)"
    moreover have "scan_chain sha hook 0 GENESIS_HASH ?j = (Inr (at_end es), ?j)"
      using scan_from [of sha "[]" es ?j hook] j by (simp add: journal_inv_def)
    ultimately show ?thesis using j by (simp add: validated_last_hash_def journal_inv_def)
  qed (auto simp: validated_last_hash_def)
qed


section \<open>Appends\<close>

lemma text_at_first [simp]: "text_at ((k, JStr s) # d) k = s"
  by (cases s) (simp_all add: text_at_def get_or_truthy_def)

lemma tx_entry_fields [simp]:
  "text_at (tx_entry sha a ty prev) ''prev_hash'' = prev"
  "text_at (tx_entry sha a ty prev) ''hash'' = hash_line sha prev (tx_body a ty prev)"
  "unhashed (tx_entry sha a ty prev) = tx_body a ty prev"
  by (cases prev; cases "hash_line sha prev (tx_body a ty prev)";
      simp add: tx_entry_def tx_body_def text_at_def get_or_truthy_def unhashed_def)+

lemma tx_entry_value: "py_value (JObj (tx_payload a)) \<Longrightarrow> py_value (JObj (tx_entry sha a ty prev))"
  by (simp add: tx_entry_def tx_body_def with_tenant_def distinct_dput values_dput)

lemma well_chained_append:
  assumes "well_chained sha es" "py_value (JObj (tx_payload a))"
  shows "well_chained sha (es @ [tx_entry sha a ty (tip GENESIS_HASH es)])"
  using assms tx_entry_value [OF assms(2)] by (simp add: well_chained_def del: py_value.simps)

lemma journal_inv_more:
  assumes "journal_inv sha es j" "py_value (JObj (tx_payload a))"
    and "e = tx_entry sha a ty (tip GENESIS_HASH es)"
  shows "journal_inv sha (es @ [e]) (j\<lparr>jn_file := Some (journal_text (es @ [e])), jn_mtime := now\<rparr>)"
  using assms well_chained_append [of sha es a ty] points_more [of es _ _ "[e]"]
  by (auto simp: journal_inv_def content_def cache_ok_def tail_ok_def read_tail_state_def split: option.splits)

lemma append_locked_ok:
  assumes "journal_inv sha es j" "py_value (JObj (tx_payload a))"
  shows "\<exists>j'. append_locked sha a ty j = (Inr (tx_entry sha a ty (tip GENESIS_HASH es),
      utf8_len (journal_text (es @ [tx_entry sha a ty (tip GENESIS_HASH es)]))), j') \<and>
    jn_file j' = Some (journal_text (es @ [tx_entry sha a ty (tip GENESIS_HASH es)])) \<and>
    journal_inv sha (es @ [tx_entry sha a ty (tip GENESIS_HASH es)]) j' \<and> jn_genesis j' = jn_genesis j"
proof -
  from validated_ok [OF assms(1), of id "tx_now a"] obtain j2 where
    "validated_last_hash sha id (tx_now a) j = (Inr (at_end es), j2)"
    "journal_inv sha es j2" "jn_file j2 = Some (journal_text es)" "jn_genesis j2 = jn_genesis j" by blast
  then show ?thesis
    using journal_inv_more [OF _ assms(2) refl, of sha es j2 ty "tx_now a"]
    by (simp add: append_locked_def Let_def)
qed

lemma append_written_ok:
  assumes "journal_inv sha es j" "tx_check a = Inr ty" "py_value (JObj (tx_payload a))"
  shows "\<exists>j'. append_written sha a j = (Inr (tx_entry sha a ty (tip GENESIS_HASH es),
      utf8_len (journal_text (es @ [tx_entry sha a ty (tip GENESIS_HASH es)]))), j') \<and>
    jn_file j' = Some (journal_text (es @ [tx_entry sha a ty (tip GENESIS_HASH es)])) \<and>
    journal_inv sha (es @ [tx_entry sha a ty (tip GENESIS_HASH es)]) j'"
proof -
  have "journal_inv sha es (ensure_journal (tx_now a) j)" using assms(1) by (simp add: journal_inv_def)
  from append_locked_ok [OF this assms(3), of ty] assms(2) show ?thesis by (auto simp: append_written_def)
qed

lemma append_tx_ok:
  assumes "journal_inv sha es j" "tx_check a = Inr ty" "py_value (JObj (tx_payload a))"
  shows "\<exists>j'. append_tx sha a j = (Inr (tx_entry sha a ty (tip GENESIS_HASH es)), j') \<and>
    jn_file j' = Some (journal_text (es @ [tx_entry sha a ty (tip GENESIS_HASH es)])) \<and>
    journal_inv sha (es @ [tx_entry sha a ty (tip GENESIS_HASH es)]) j'"
proof -
  let ?e = "tx_entry sha a ty (tip GENESIS_HASH es)"
  obtain j1 where j1: "append_written sha a j = (Inr (?e, utf8_len (journal_text (es @ [?e]))), j1)"
    "jn_file j1 = Some (journal_text (es @ [?e]))" "journal_inv sha (es @ [?e]) j1"
    using append_written_ok [OF assms] by blast
  have "points (es @ [?e]) (tip GENESIS_HASH (es @ [?e])) (utf8_len (journal_text (es @ [?e])))"
    by (rule points_whole)
  with j1 show ?thesis by (simp add: append_tx_def journal_inv_def)
qed

lemma tx_check_error: "tx_check a = Inl e \<Longrightarrow> append_tx sha a j = (Inl e, j) \<and> append_written sha a j = (Inl e, j)"
  by (simp add: append_tx_def append_written_def)

section \<open>Processes on one journal\<close>

text \<open>
  Several processes share the files and each has its own table in memory. An operation looks whether there is a
  journal, seeds it when there was none, and then verifies, or appends under the lock: the line, then
  the new tail. Between any two of these steps other processes go on, or the process dies; the state file may get lost.
  \<open>gs\<close> are the entries the journal, or else the genesis file, starts with and \<open>es\<close> those so far.
  A process that writes the genesis does it before the first append: looking and seeding are
  outside of the lock, and a later one replaces the journal (\<open>journal_seed_loses_row\<close>). A journal that is there already, or has no
  genesis file, is not affected. A file is written and read in one step each.
\<close>

type_synonym tail_tables = "nat \<Rightarrow> (string \<times> nat \<times> int \<times> string) option"

abbreviation seen_by :: "journal_disk \<Rightarrow> tail_tables \<Rightarrow> nat \<Rightarrow> journal_disk" where
  "seen_by j cs p \<equiv> j\<lparr>jn_cache := cs p\<rparr>"

datatype process = Idle | Seeding | Ready | Holding string nat

inductive journal_run ::
  "(string \<Rightarrow> string) \<Rightarrow> obj list \<Rightarrow> obj list \<Rightarrow> journal_disk \<Rightarrow> tail_tables \<Rightarrow> (nat \<Rightarrow> process) \<Rightarrow> bool"
  for sha gs where
  opened: "well_chained sha gs \<Longrightarrow> content j = journal_text gs \<Longrightarrow> jn_tail j = None \<Longrightarrow>
    journal_run sha gs gs j (\<lambda>p. None) (\<lambda>p. Idle)"
| found: "journal_run sha gs es j cs ps \<Longrightarrow> ps p = Idle \<Longrightarrow> jn_file j = Some t \<Longrightarrow>
    journal_run sha gs es j cs (ps(p := Ready))"
| missing: "journal_run sha gs es j cs ps \<Longrightarrow> ps p = Idle \<Longrightarrow> jn_file j = None \<Longrightarrow>
    journal_run sha gs es j cs (ps(p := Seeding))"
| seeded: "journal_run sha gs es j cs ps \<Longrightarrow> ps p = Seeding \<Longrightarrow> es = gs \<or> jn_genesis j = None \<Longrightarrow>
    journal_run sha gs es (seed_journal now j) cs (ps(p := Ready))"
| wrote: "journal_run sha gs es j cs ps \<Longrightarrow> ps p = Ready \<Longrightarrow> (\<And>q h off. ps q \<noteq> Holding h off) \<Longrightarrow>
    py_value (JObj (tx_payload a)) \<Longrightarrow> tx_check a = Inr ty \<Longrightarrow>
    append_locked sha a ty (seen_by j cs p) = (Inr (e, off), j') \<Longrightarrow>
    journal_run sha gs (es @ [e]) j' (cs(p := jn_cache j')) (ps(p := Holding (text_at e ''hash'') off))"
| finished: "journal_run sha gs es j cs ps \<Longrightarrow> ps p = Holding h off \<Longrightarrow>
    write_verified_tail sha h off (seen_by j cs p) = j' \<Longrightarrow>
    journal_run sha gs es j' (cs(p := jn_cache j')) (ps(p := Idle))"
| verified: "journal_run sha gs es j cs ps \<Longrightarrow> ps p = Ready \<Longrightarrow>
    verify_journal_integrity sha hook now (seen_by j cs p) = (r, j') \<Longrightarrow>
    journal_run sha gs es j' (cs(p := jn_cache j')) (ps(p := Idle))"
| died: "journal_run sha gs es j cs ps \<Longrightarrow> journal_run sha gs es j (cs(p := None)) (ps(p := Idle))"
| tail_lost: "journal_run sha gs es j cs ps \<Longrightarrow> journal_run sha gs es (j\<lparr>jn_tail := None\<rparr>) cs ps"

lemma seen_fields [simp]:
  "content (j\<lparr>jn_cache := c\<rparr>) = content j" "tail_ok es (j\<lparr>jn_cache := c\<rparr>) = tail_ok es j"
  "content (j\<lparr>jn_tail := t\<rparr>) = content j"
  by (simp_all add: content_def tail_ok_def read_tail_state_def cong: option.case_cong)

lemma inv_seen: "journal_inv sha es (j\<lparr>jn_cache := c\<rparr>) \<longleftrightarrow>
    well_chained sha es \<and> content j = journal_text es \<and> cache_ok es c \<and> tail_ok es j"
  by (simp add: journal_inv_def)

lemma cache_ok_more: "cache_ok es c \<Longrightarrow> cache_ok (es @ fs) c"
  by (auto simp: cache_ok_def points_more split: option.splits)

lemma cache_ok_None [simp]: "cache_ok es None"
  by (simp add: cache_ok_def)

lemma seed_fields:
  assumes "jn_genesis j = None \<or> jn_genesis j = Some (content j)"
  shows "content (seed_journal now j) = content j" "tail_ok es (seed_journal now j) = tail_ok es j"
  using assms by (auto simp: seed_journal_def content_def tail_ok_def read_tail_state_def split: option.splits)

text \<open>What holds of a run: each process sees a chain, nothing was appended while there is no journal, a process
  that seeds finds the first entries in the genesis file, one that holds the lock knows an end.\<close>

definition journal_ok :: "(string \<Rightarrow> string) \<Rightarrow> obj list \<Rightarrow> obj list \<Rightarrow> journal_disk \<Rightarrow> tail_tables \<Rightarrow> (nat \<Rightarrow> process) \<Rightarrow> bool" where
  "journal_ok sha gs es j cs ps \<longleftrightarrow>
     (\<forall>p. journal_inv sha es (seen_by j cs p)) \<and> (jn_file j = None \<longrightarrow> es = gs) \<and>
     (\<forall>p. ps p = Seeding \<longrightarrow> jn_genesis j = None \<or> jn_genesis j = Some (journal_text gs)) \<and>
     (\<forall>p h off. ps p = Holding h off \<longrightarrow> points es h off)"

lemma journal_okI [intro?]:
  assumes "\<And>p. journal_inv sha es (seen_by j cs p)" "jn_file j = None \<Longrightarrow> es = gs"
    and "\<And>p. ps p = Seeding \<Longrightarrow> jn_genesis j = None \<or> jn_genesis j = Some (journal_text gs)"
    and "\<And>p h off. ps p = Holding h off \<Longrightarrow> points es h off"
  shows "journal_ok sha gs es j cs ps"
  using assms by (auto simp: journal_ok_def)

lemma journal_okD:
  assumes "journal_ok sha gs es j cs ps"
  shows "journal_inv sha es (seen_by j cs p)" "jn_file j = None \<Longrightarrow> es = gs"
    "ps p = Seeding \<Longrightarrow> jn_genesis j = None \<or> jn_genesis j = Some (journal_text gs)"
    "ps p = Holding h off \<Longrightarrow> points es h off"
  using assms by (auto simp: journal_ok_def)

text \<open>A step of a process that leaves a chain which extends what the others know.\<close>

lemma journal_ok_step:
  assumes "journal_ok sha gs es j cs ps" "journal_inv sha (es @ fs) j'" "jn_file j' = Some t" "jn_genesis j' = jn_genesis j"
    and "x \<noteq> Seeding" "\<And>h off. x = Holding h off \<Longrightarrow> points (es @ fs) h off"
  shows "journal_ok sha gs (es @ fs) j' (cs(p := jn_cache j')) (ps(p := x))"
proof
  show "journal_inv sha (es @ fs) (seen_by j' (cs(p := jn_cache j')) q)" for q
    using journal_okD(1) [OF assms(1), of q] assms(2) by (auto simp: inv_seen journal_inv_def cache_ok_more)
  show "points (es @ fs) h off" if "(ps(p := x)) q = Holding h off" for q h off
    using that assms(6) journal_okD(4) [OF assms(1), of q h off] points_more by (cases "q = p") auto
qed (use assms journal_okD(3) [OF assms(1)] in \<open>auto split: if_splits\<close>)

lemma journal_ok: "journal_run sha gs es j cs ps \<Longrightarrow> journal_ok sha gs es j cs ps"
proof (induction rule: journal_run.induct)
  case (opened j)
  then show ?case by (intro journal_okI) (simp_all add: inv_seen tail_ok_def read_tail_state_def)
next
  case (found es j cs ps p t)
  then show ?case by (auto simp: journal_ok_def)
next
  case (missing es j cs ps p)
  have "content j = journal_text es" using journal_okD(1) [OF missing.IH, of p] by (simp add: inv_seen)
  then have "jn_genesis j = None \<or> jn_genesis j = Some (journal_text gs)"
    using journal_okD(2) [OF missing.IH missing.hyps(3)] missing.hyps(3) by (auto simp: content_def split: option.splits)
  then show ?case using missing.IH by (auto simp: journal_ok_def)
next
  case (seeded es j cs ps p now)
  note ok = journal_okD [OF seeded.IH]
  have "content j = journal_text es" using ok(1) [of p] by (simp add: inv_seen)
  then have genesis: "jn_genesis j = None \<or> jn_genesis j = Some (content j)" using ok(3) [OF seeded.hyps(2)] seeded.hyps(3) by auto
  show ?case
  proof
    show "journal_inv sha es (seen_by (seed_journal now j) cs q)" for q
      using ok(1) [of q] seed_fields [OF genesis] by (simp add: inv_seen)
    show "jn_genesis (seed_journal now j) = None \<or> jn_genesis (seed_journal now j) = Some (journal_text gs)"
      using ok(3) [OF seeded.hyps(2)] by (simp add: seed_journal_def)
    show "points es h off" if "(ps(p := Ready)) q = Holding h off" for q h off
      using that ok(4) [of q] by (auto split: if_splits)
  qed (simp add: seed_journal_def)
next
  case (wrote es j cs ps p a ty e off j')
  let ?e = "tx_entry sha a ty (tip GENESIS_HASH es)"
  from append_locked_ok [OF journal_okD(1) [OF wrote.IH, of p] wrote.hyps(4), of ty] wrote.hyps(6)
  have j': "e = ?e" "off = utf8_len (journal_text (es @ [?e]))" "journal_inv sha (es @ [e]) j'"
    "jn_file j' = Some (journal_text (es @ [?e]))" "jn_genesis j' = jn_genesis j" by auto
  have "points (es @ [e]) (text_at e ''hash'') off" using points_whole [of "es @ [e]"] by (simp add: j'(1,2))
  then show ?case by (intro journal_ok_step [OF wrote.IH j'(3-5)]) auto
next
  case (finished es j cs ps p h off j')
  have known: "points es h off" by (rule journal_okD(4) [OF finished.IH finished.hyps(2)])
  show ?case
  proof
    show "journal_inv sha es (seen_by j' (cs(p := jn_cache j')) q)" for q
      using journal_okD(1) [OF finished.IH, of q] journal_okD(1) [OF finished.IH, of p] known
      by (auto simp: inv_seen simp flip: finished.hyps(3))
  qed (use journal_okD [OF finished.IH] in \<open>auto simp flip: finished.hyps(3) split: if_splits\<close>)
next
  case (verified es j cs ps p hook now r j')
  from validated_ok [OF journal_okD(1) [OF verified.IH, of p], of hook now] verified.hyps(3)
  have "journal_inv sha (es @ []) j'" "jn_file j' = Some (journal_text es)" "jn_genesis j' = jn_genesis j"
    by (auto simp: verify_journal_integrity_def)
  note step = journal_ok_step [OF verified.IH this, of Idle p]
  show ?case by (rule step [simplified append_Nil2]) simp_all
next
  case (died es j cs ps p)
  then show ?case by (auto simp: journal_ok_def inv_seen)
next
  case (tail_lost es j cs ps)
  have "tail_ok es (j\<lparr>jn_tail := None\<rparr>)" by (simp add: tail_ok_def read_tail_state_def)
  then show ?case using tail_lost.IH by (auto simp: journal_ok_def inv_seen)
qed

lemma run_inv: "journal_run sha gs es j cs ps \<Longrightarrow> journal_inv sha es (seen_by j cs p)"
  by (rule journal_okD(1) [OF journal_ok])

lemma append_shape:
  assumes "append_tx sha a j = (Inr e, j')"
  obtains ty where "tx_check a = Inr ty"
  using assms tx_check_error [of a _ sha j] by (cases "tx_check a") auto

section \<open>Properties\<close>

text \<open>
  C15 The journal stays a chain. However the steps of processes that look for the journal, seed it, write a
  line, record the new tail, verify, die and lose the state file interleave, as long as a genesis is written before the
  first append, the journal holds exactly the entries that were written, in order
  and each readable, a scan from the first byte accepts it, and verification succeeds in every process
  and leaves the file as it is.\<close>

theorem journal_stays_verified:
  assumes "journal_run sha gs es j cs ps"
  shows "map json_loads (split_on newline (content j)) = map (\<lambda>e. Some (JObj e)) es \<and>
    scan_lines sha 1 GENESIS_HASH (split_on newline (content j)) = Inr (tip GENESIS_HASH es) \<and>
    (\<exists>j'. verify_journal_integrity sha hook now (seen_by j cs p) = (Inr (), j') \<and> content j' = content j)"
proof -
  have inv: "journal_inv sha es (seen_by j cs p)" by (rule run_inv [OF assms])
  then have c: "content j = journal_text es" and w: "list_all (\<lambda>e. py_value (JObj e)) es" "chain_from sha GENESIS_HASH es"
    by (simp_all add: inv_seen well_chained_def)
  obtain j' where "validated_last_hash sha hook now (seen_by j cs p) = (Inr (at_end es), j')"
    "jn_file j' = Some (journal_text es)"
    using validated_ok [OF inv] by blast
  then have "verify_journal_integrity sha hook now (seen_by j cs p) = (Inr (), j')" "content j' = content j"
    by (simp_all add: verify_journal_integrity_def content_def [of j'] c)
  moreover have "map json_loads (split_on newline (content j)) = map (\<lambda>e. Some (JObj e)) es"
    using w(1) by (auto simp: c journal_lines list_all_iff simp del: py_value.simps)
  ultimately show ?thesis using scan_entries [OF w] by (simp add: c journal_lines)
qed

definition empty_journal :: journal_disk where
  "empty_journal = \<lparr>jn_file = None, jn_genesis = None, jn_tail = None, jn_mtime = 0, jn_cache = None\<rparr>"

definition demo_tx :: tx_args where
  "demo_tx = \<lparr>tx_type = ''step_1'', tx_payload = [(''agm_step'', JStr ''1'')], tx_id = None,
     tx_stamp = ''20260101000000'', tx_ts = ''2026-01-01T00:00:00Z'', tx_tenant = [], tx_now = 7\<rparr>"

definition demo_entry :: obj where
  "demo_entry = tx_entry (\<lambda>s. ''h'') demo_tx ''agm_step_01'' GENESIS_HASH"

lemma demo_check: "tx_check demo_tx = Inr ''agm_step_01''" "py_value (JObj (tx_payload demo_tx))"
  by code_simp+

lemma demo_opened: "journal_run sha [] [] empty_journal (\<lambda>p. None) (\<lambda>p. Idle)"
  by (rule journal_run.opened) (simp_all add: well_chained_def empty_journal_def content_def)

text \<open>Two processes find no journal, one writes an entry, and the other then touches the file.\<close>

lemma demo_run: "\<exists>j cs. journal_run (\<lambda>s. ''h'') [] [demo_entry] j cs ((\<lambda>p. Idle)(0 := Holding ''h'' (utf8_len (journal_text [demo_entry])), 1 := Ready))"
proof -
  let ?sha = "\<lambda>s. ''h''" and ?cs = "\<lambda>p :: nat. None" and ?j = "seed_journal 7 empty_journal"
  have "journal_run ?sha [] [] empty_journal ?cs ((\<lambda>p. Idle)(0 := Seeding, 1 := Seeding))"
    by (intro journal_run.missing demo_opened) (simp_all add: empty_journal_def)
  then have "journal_run ?sha [] [] ?j ?cs ((\<lambda>p. Idle)(0 := Seeding, 1 := Seeding, 0 := Ready))"
    by (rule journal_run.seeded) (simp_all add: empty_journal_def)
  then have run: "journal_run ?sha [] [] ?j ?cs ((\<lambda>p. Idle)(0 := Ready, 1 := Seeding))" by (simp add: fun_upd_twist)
  from append_locked_ok [OF run_inv [OF this] demo_check(2), of "''agm_step_01''"] obtain j' where j':
    "append_locked ?sha demo_tx ''agm_step_01'' (seen_by ?j ?cs 0) = (Inr (demo_entry, utf8_len (journal_text [demo_entry])), j')"
    "jn_genesis j' = None"
    by (auto simp: demo_entry_def seed_journal_def empty_journal_def)
  have "text_at demo_entry ''hash'' = ''h''" by (simp add: demo_entry_def hash_line_def)
  with journal_run.wrote [where p = 0, OF run _ _ demo_check(2,1) j'(1)]
  have "journal_run ?sha [] [demo_entry] j' (?cs(0 := jn_cache j'))
      ((\<lambda>p. Idle)(0 := Ready, 1 := Seeding, 0 := Holding ''h'' (utf8_len (journal_text [demo_entry]))))" by auto
  then have "journal_run ?sha [] [demo_entry] (seed_journal 8 j') (?cs(0 := jn_cache j'))
      ((\<lambda>p. Idle)(0 := Ready, 1 := Seeding, 0 := Holding ''h'' (utf8_len (journal_text [demo_entry])), 1 := Ready))"
    by (rule journal_run.seeded) (simp_all add: j'(2))
  then show ?thesis by (simp add: fun_upd_twist) blast
qed

theorem journal_stays_verified_witness:
  "\<exists>j cs ps. journal_run (\<lambda>s. ''h'') [] [demo_entry] j cs ps \<and>
     map json_loads (split_on newline (content j)) = [Some (JObj demo_entry)] \<and>
     (\<exists>j'. verify_journal_integrity (\<lambda>s. ''h'') id 9 (seen_by j cs 1) = (Inr (), j') \<and> content j' = content j)"
proof -
  obtain j cs ps where run: "journal_run (\<lambda>s. ''h'') [] [demo_entry] j cs ps" using demo_run by blast
  from journal_stays_verified [OF this, of id 9 1]
  have "map json_loads (split_on newline (content j)) = [Some (JObj demo_entry)]"
    "\<exists>j'. verify_journal_integrity (\<lambda>s. ''h'') id 9 (seen_by j cs 1) = (Inr (), j') \<and> content j' = content j"
    by simp_all
  with run have "journal_run (\<lambda>s. ''h'') [] [demo_entry] j cs ps \<and>
     map json_loads (split_on newline (content j)) = [Some (JObj demo_entry)] \<and>
     (\<exists>j'. verify_journal_integrity (\<lambda>s. ''h'') id 9 (seen_by j cs 1) = (Inr (), j') \<and> content j' = content j)"
    by (intro conjI)
  then show ?thesis by - (rule exI [of _ j], rule exI [of _ cs], rule exI [of _ ps])
qed

text \<open>
  C31 The tail caches do not change what an append writes. At any moment of a run, appending with
  what a process remembers gives the entry, or the error, and the file that appending without the table
  in memory and without the state file gives.\<close>

theorem journal_cache_changes_nothing:
  assumes "journal_run sha gs es j cs ps" "py_value (JObj (tx_payload a))"
  shows "fst (append_tx sha a (seen_by j cs p)) = fst (append_tx sha a (j\<lparr>jn_cache := None, jn_tail := None\<rparr>)) \<and>
    content (snd (append_tx sha a (seen_by j cs p))) = content (snd (append_tx sha a (j\<lparr>jn_cache := None, jn_tail := None\<rparr>)))"
proof (cases "tx_check a")
  case (Inl e)
  then show ?thesis by (simp add: tx_check_error)
next
  case (Inr ty)
  have "journal_inv sha es (seen_by (j\<lparr>jn_tail := None\<rparr>) (cs(p := None)) p)"
    by (rule run_inv [OF journal_run.tail_lost [OF journal_run.died [OF assms(1)]]])
  moreover have "seen_by (j\<lparr>jn_tail := None\<rparr>) (cs(p := None)) p = j\<lparr>jn_cache := None, jn_tail := None\<rparr>" by simp
  ultimately have cold: "journal_inv sha es (j\<lparr>jn_cache := None, jn_tail := None\<rparr>)" by metis
  show ?thesis
    using append_tx_ok [OF run_inv [OF assms(1), of p] Inr assms(2)] append_tx_ok [OF cold Inr assms(2)]
    by (auto simp: content_def)
qed

theorem journal_cache_changes_nothing_witness:
  "\<exists>j cs ps. journal_run (\<lambda>s. ''h'') [] [demo_entry] j cs ps \<and>
     fst (append_tx (\<lambda>s. ''h'') demo_tx (seen_by j cs 0)) =
     fst (append_tx (\<lambda>s. ''h'') demo_tx (j\<lparr>jn_cache := None, jn_tail := None\<rparr>))"
proof -
  obtain j cs ps where run: "journal_run (\<lambda>s. ''h'') [] [demo_entry] j cs ps" using demo_run by blast
  from journal_cache_changes_nothing [OF this demo_check(2), of 0] run show ?thesis by blast
qed

lemma tails_beyond:
  assumes "jn_file j = Some t" "list_all (\<lambda>(h, off, seen). off = n) ss" "utf8_len t < n"
  shows "try_tails sha hook ss j = (Inr None, j)"
  using assms(2)
proof (induction ss)
  case (Cons s ss)
  then show ?case using assms(1,3) by (cases s) (simp add: resume_verified_tail_def)
qed simp

text \<open>
  The race that the runs leave out. Two processes find no journal and there is a genesis file.
  One seeds the journal and its append returns; then the other one seeds. The appended entry is gone, and verification
  accepts the journal.\<close>

lemma journal_seed_loses_row:
  assumes "jn_file j = None" "jn_genesis j = Some (journal_text gs)" "well_chained sha gs" "jn_cache j = None" "jn_tail j = None"
    and "py_value (JObj (tx_payload a))" "append_tx sha a (seed_journal now j) = (Inr e, j1)"
  shows "jn_file j1 = Some (journal_text (gs @ [e])) \<and> jn_file (seed_journal now' j1) = Some (journal_text gs) \<and>
    fst (verify_journal_integrity sha hook t (seed_journal now' j1)) = Inr ()"
proof -
  have inv: "journal_inv sha gs (seed_journal now j)"
    using assms(1-5) by (simp add: journal_inv_def seed_journal_def content_def cache_ok_def tail_ok_def read_tail_state_def)
  obtain ty where "tx_check a = Inr ty" using assms(7) by (rule append_shape)
  let ?j = "seed_journal now j" and ?off = "utf8_len (journal_text (gs @ [e]))"
  have seeded: "jn_file ?j = Some (journal_text gs)" "jn_genesis ?j = Some (journal_text gs)" "ensure_journal (tx_now a) ?j = ?j"
    using assms(2) by (simp_all add: seed_journal_def ensure_journal_def)
  from append_locked_ok [OF inv assms(6), of ty] obtain h j0 where
    j1: "j1 = write_verified_tail sha h ?off j0" "jn_file j0 = Some (journal_text (gs @ [e]))" "jn_genesis j0 = Some (journal_text gs)"
    using assms(7) \<open>tx_check a = Inr ty\<close> seeded by (auto simp: append_tx_def append_written_def)
  let ?j2 = "seed_journal now' j1"
  have reseeded: "jn_file ?j2 = Some (journal_text gs)" "ensure_journal t ?j2 = ?j2"
    using j1 by (simp_all add: seed_journal_def ensure_journal_def)
  have "list_all (\<lambda>(h, off, seen). off = ?off) (tail_states ?j2)"
    using j1 by (auto simp: tail_states_def seed_journal_def write_verified_tail_def write_verified_cache_def
        read_written_tail split: option.splits)
  then have "try_tails sha hook (tail_states ?j2) ?j2 = (Inr None, ?j2)"
    by (rule tails_beyond [OF reseeded(1)]) (use line_pos in simp)
  moreover have "scan_chain sha hook 0 GENESIS_HASH ?j2 = (Inr (at_end gs), ?j2)"
    using scan_from [of sha "[]" gs ?j2 hook] assms(3) reseeded by simp
  ultimately show ?thesis
    using j1 reseeded by (simp add: verify_journal_integrity_def validated_last_hash_def)
qed


text \<open>
  Verification does not look at the part of the journal it remembers. A process that
  remembers a tail and finds more bytes behind it accepts the journal when the new lines chain on,
  whatever the bytes before them were changed to, and remembers the new end as verified.\<close>

theorem journal_prefix_unchecked:
  assumes "jn_file j = Some (prefix @ journal_text bs)" "jn_cache j = Some (h, utf8_len prefix, seen)"
    and "bs \<noteq> []" "list_all (\<lambda>e. py_value (JObj e)) bs" "chain_from sha h bs"
  shows "\<exists>j'. verify_journal_integrity sha hook now j = (Inr (), j') \<and> content j' = content j \<and>
    jn_cache j' = Some (tip h bs, utf8_len (content j), jn_mtime j, sha (content j))"
proof -
  have "0 < utf8_len (journal_text bs)" using assms(3) line_pos by (cases bs) simp_all
  moreover have "scan_chain sha hook (utf8_len prefix) h j = (Inr (tip h bs, utf8_len (prefix @ journal_text bs)), j)"
    using scan_entries [OF assms(4,5), of 1] assms(1) by (simp add: scan_chain_def journal_lines)
  moreover have "ensure_journal now j = j" by (simp add: ensure_journal_def assms(1))
  ultimately show ?thesis
    using assms(1,2)
    by (cases seen)
      (simp add: verify_journal_integrity_def validated_last_hash_def tail_states_def resume_verified_tail_def
        write_verified_tail_def write_verified_cache_def content_def content_digest_def)
qed

text \<open>A journal whose first line was replaced, and which another process then extended.\<close>

definition rewritten_journal :: journal_disk where
  "rewritten_journal =
     \<lparr>jn_file = Some (''x'' @ [CHR 0x0A] @ json_line (JObj demo_entry)), jn_genesis = None, jn_tail = None,
      jn_mtime = 7, jn_cache = Some (GENESIS_HASH, 2, 5, ''d'')\<rparr>"

theorem journal_prefix_unchecked_witness:
  "fst (verify_journal_integrity (\<lambda>s. ''h'') id 9 rewritten_journal) = Inr () \<and>
   fst (verify_journal_integrity (\<lambda>s. ''h'') id 9 (invalidate_journal_cache rewritten_journal)) =
     Inl (JournalIntegrity (InvalidJson 1))"
proof
  have "jn_file rewritten_journal = Some ((''x'' @ [CHR 0x0A]) @ journal_text [demo_entry])"
    "jn_cache rewritten_journal = Some (GENESIS_HASH, utf8_len (''x'' @ [CHR 0x0A]), 5, ''d'')"
    by (simp_all add: rewritten_journal_def char_len_def)
  then show "fst (verify_journal_integrity (\<lambda>s. ''h'') id 9 rewritten_journal) = Inr ()"
    using journal_prefix_unchecked [where j = rewritten_journal and bs = "[demo_entry]" and sha = "\<lambda>s. ''h''" and hook = id and now = 9]
      tx_entry_value [OF demo_check(2)] by (fastforce simp: demo_entry_def simp del: py_value.simps)
  show "fst (verify_journal_integrity (\<lambda>s. ''h'') id 9 (invalidate_journal_cache rewritten_journal)) =
     Inl (JournalIntegrity (InvalidJson 1))"
    by code_simp
qed

end
