(* ===== verification/Lineage.thy ===== *)
theory Lineage
  imports Journal
begin

text \<open>
  The lineage ledger of \<open>security/ledger/journal.py\<close>: rows written with \<open>write_entry\<close> and the three
  readers over it. The ledger is the text of its file, \<open>None\<close> while there is none. Rows are not chained.
\<close>

section \<open>Writing\<close>

record lineage_args =
  le_agent :: string
  le_action :: string
  le_payload :: obj
  le_tenant :: obj
  le_ts :: string

text \<open>\<open>d.setdefault(k, v)\<close>\<close>

definition setdefault :: "string \<Rightarrow> json \<Rightarrow> obj \<Rightarrow> obj" where
  "setdefault k v d = (if dget d k = None then dput k v d else d)"

definition tenant_payload :: "obj \<Rightarrow> obj \<Rightarrow> obj" where
  "tenant_payload ctx payload =
     (if ctx = [] then payload
      else setdefault ''workspace_id'' (JStr (text_at ctx ''workspace_id''))
             (setdefault ''tenant_id'' (JStr (text_at ctx ''tenant_id'')) payload))"

definition lineage_record :: "lineage_args \<Rightarrow> obj" where
  "lineage_record a =
     [(''timestamp'', JStr (le_ts a)), (''agent_id'', JStr (le_agent a)), (''action'', JStr (le_action a)),
      (''payload'', JObj (tenant_payload (le_tenant a) (le_payload a)))]"

definition lineage_content :: "string option \<Rightarrow> string" where
  "lineage_content f = (case f of None \<Rightarrow> [] | Some t \<Rightarrow> t)"

definition scope_check :: "obj \<Rightarrow> unit res" where
  "scope_check ctx = (if ctx = [] then Inr () else ebind (normalize_tenant_scope ctx) (\<lambda>s. Inr ()))"

definition write_entry :: "lineage_args \<Rightarrow> string option \<Rightarrow> unit res \<times> string option" where
  "write_entry a f =
     ethen (scope_check (le_tenant a), f) (\<lambda>u f.
       (Inr (), Some (lineage_content f @ json_line (JObj (lineage_record a)))))"

section \<open>Reading\<close>

fun lineage_rows :: "obj \<Rightarrow> string list \<Rightarrow> json list res" where
  "lineage_rows ctx [] = Inr []"
| "lineage_rows ctx (l # ls) =
     (case json_loads l of
        None \<Rightarrow> lineage_rows ctx ls
      | Some v \<Rightarrow>
          ebind (if ctx = [] then Inr True else payload_in_tenant_scope v ctx) (\<lambda>mine.
          ebind (lineage_rows ctx ls) (\<lambda>vs. Inr (if mine then v # vs else vs))))"

definition read_entries :: "int \<Rightarrow> obj \<Rightarrow> string option \<Rightarrow> json list res" where
  "read_entries limit ctx f =
     ebind (scope_check ctx) (\<lambda>u. lineage_rows ctx (slice_last limit (split_on line_break (lineage_content f))))"

definition epoch_row :: "string \<Rightarrow> string list \<Rightarrow> json \<Rightarrow> bool" where
  "epoch_row epoch reviewers v =
     (case v of
        JObj e \<Rightarrow>
          text_at (payload_dict e) ''epoch_id'' = epoch \<and>
          (reviewers = [] \<or> py_strip (text_at (payload_dict e) ''reviewer_id'') \<in> set reviewers)
      | _ \<Rightarrow> False)"

definition read_entries_for_epoch ::
  "string \<Rightarrow> string list \<Rightarrow> int \<Rightarrow> (string, json list) dict option \<Rightarrow> string option \<Rightarrow> json list res" where
  "read_entries_for_epoch epoch reviewers limit index f =
     (let wanted = filter (\<lambda>r. r \<noteq> []) (map py_strip reviewers)
      in ebind (case index of None \<Rightarrow> read_entries limit [] f | Some ix \<Rightarrow> Inr (dget_or ix epoch [])) (\<lambda>vs.
           Inr (filter (epoch_row epoch wanted) vs)))"

definition matching_row :: "string \<Rightarrow> string \<Rightarrow> string \<Rightarrow> obj option" where
  "matching_row action mid l =
     (case json_loads l of
        Some (JObj e) \<Rightarrow>
          (if text_at e ''action'' = action \<and> text_at (payload_dict e) ''mutation_id'' = mid then Some e else None)
      | _ \<Rightarrow> None)"

definition read_latest_entry :: "string \<Rightarrow> string \<Rightarrow> int \<Rightarrow> string option \<Rightarrow> obj option" where
  "read_latest_entry action mid limit f =
     foldl (\<lambda>found l. case matching_row action mid l of None \<Rightarrow> found | Some e \<Rightarrow> Some e) None
       (slice_last (max limit 1) (split_on newline (lineage_content f)))"

section \<open>Rotation events go to both ledgers\<close>

definition record_rotation_event ::
  "(string \<Rightarrow> string) \<Rightarrow> string \<Rightarrow> obj \<Rightarrow> string \<Rightarrow> string \<Rightarrow> int \<Rightarrow> string option \<times> journal_disk \<Rightarrow>
   (journal_error + unit) \<times> string option \<times> journal_disk" where
  "record_rotation_event sha action payload stamp ts now s =
     (case write_entry \<lparr>le_agent = ''system'', le_action = action, le_payload = payload, le_tenant = [], le_ts = ts\<rparr> (fst s) of
        (Inl e, f) \<Rightarrow> (Inl (JournalValue e), f, snd s)
      | (Inr u, f) \<Rightarrow>
          (case append_tx sha \<lparr>tx_type = action, tx_payload = payload, tx_id = None, tx_stamp = stamp, tx_ts = ts,
              tx_tenant = [], tx_now = now\<rparr> (snd s) of
             (Inl e, j) \<Rightarrow> (Inl e, f, j)
           | (Inr e, j) \<Rightarrow> (Inr (), f, j)))"

section \<open>Lines of the ledger\<close>

lemma json_text_no_break:
  assumes "CHR 0x85 \<notin> set (json_text v)"
  shows "list_all (\<lambda>c. \<not> line_break c) (json_text v)"
proof -
  have "list_all (\<lambda>c. 32 \<le> (of_char c :: nat)) (json_text v)"
    unfolding json_text_def by (rule render_printable) simp
  moreover have "\<not> line_break c" if "32 \<le> (of_char c :: nat)" "c \<noteq> CHR 0x85" for c
    using that by (auto simp: line_break_def newline_def)
  ultimately show ?thesis using assms unfolding list_all_iff by metis
qed

definition plain_row :: "lineage_args \<Rightarrow> bool" where
  "plain_row a \<longleftrightarrow> scope_check (le_tenant a) = Inr () \<and> py_value (JObj (le_payload a)) \<and>
     CHR 0x85 \<notin> set (json_text (JObj (lineage_record a)))"

definition write_entries :: "lineage_args list \<Rightarrow> string option \<Rightarrow> string option" where
  "write_entries ws f = foldl (\<lambda>f a. snd (write_entry a f)) f ws"

lemma lineage_text:
  "list_all plain_row ws \<Longrightarrow>
   lineage_content (write_entries ws f) = lineage_content f @ journal_text (map lineage_record ws)"
proof (induction ws arbitrary: f)
  case (Cons a ws)
  then show ?case
    by (simp add: write_entries_def write_entry_def plain_row_def lineage_content_def)
qed (simp add: write_entries_def)

lemma break_lines:
  "\<forall>e \<in> set es. CHR 0x85 \<notin> set (json_text (JObj e)) \<Longrightarrow>
   split_on line_break (journal_text es) = map (\<lambda>e. json_text (JObj e)) es"
proof (induction es)
  case (Cons e es)
  then have "split_on line_break (json_text (JObj e) @ CHR 0x0A # journal_text es) =
      json_text (JObj e) # split_on line_break (journal_text es)"
    by (intro split_on_line json_text_no_break) (simp_all add: line_break_def newline_def)
  with Cons show ?case by (simp add: json_line_def)
qed simp

lemma lineage_record_value: "py_value (JObj (le_payload a)) \<Longrightarrow> py_value (JObj (lineage_record a))"
  by (simp add: lineage_record_def tenant_payload_def setdefault_def distinct_dput values_dput)

lemma lineage_rows_texts:
  "\<forall>e \<in> set es. py_value (JObj e) \<Longrightarrow> lineage_rows [] (map (\<lambda>e. json_text (JObj e)) es) = Inr (map JObj es)"
proof (induction es)
  case (Cons e es)
  then have "json_loads (json_text (JObj e)) = Some (JObj e)" by (intro loads_json_text) simp
  with Cons show ?case by simp
qed simp

lemma slice_last_map: "slice_last n (map f xs) = map f (slice_last n xs)"
  by (simp add: slice_last_def drop_map)

lemma set_slice_last: "set (slice_last n xs) \<subseteq> set xs"
  by (auto simp: slice_last_def dest: in_set_dropD)

lemma tenant_rows_in_scope:
  "lineage_rows ctx ls = Inr vs \<Longrightarrow> ctx \<noteq> [] \<Longrightarrow> v \<in> set vs \<Longrightarrow> payload_in_tenant_scope v ctx = Inr True"
  by (induction ls arbitrary: vs) (auto split: option.splits if_splits)

section \<open>Properties\<close>

text \<open>
  What is written to the lineage ledger is read back. After any writes to a fresh
  ledger, by any accepted tenant and with any payload free of the separator U+0085, reading with a limit
  gives the last rows, each as it was recorded, oldest first; a limit of zero gives them all.\<close>

theorem lineage_reads_back:
  assumes "list_all plain_row ws"
  shows "read_entries limit [] (write_entries ws None) = Inr (slice_last limit (map (\<lambda>a. JObj (lineage_record a)) ws))"
proof -
  have all: "lineage_content (write_entries ws None) = journal_text (map lineage_record ws)"
    using lineage_text [OF assms, of None] by (simp add: lineage_content_def)
  have "split_on line_break (journal_text (map lineage_record ws)) = map (\<lambda>e. json_text (JObj e)) (map lineage_record ws)"
    using assms by (intro break_lines) (auto simp: list_all_iff plain_row_def)
  moreover have "\<forall>e \<in> set (slice_last limit (map lineage_record ws)). py_value (JObj e)"
    using assms set_slice_last [of limit "map lineage_record ws"] lineage_record_value
    by (auto simp: list_all_iff plain_row_def simp del: py_value.simps)
  ultimately show ?thesis
    using lineage_rows_texts [of "slice_last limit (map lineage_record ws)"]
    by (simp add: read_entries_def scope_check_def all slice_last_map comp_def)
qed

definition demo_row :: "string \<Rightarrow> lineage_args" where
  "demo_row note = \<lparr>le_agent = ''a1'', le_action = ''mutate'', le_payload = [(''mutation_id'', JStr ''m1''), (''note'', JStr note)],
     le_tenant = [], le_ts = ''2026-01-01T00:00:00Z''\<rparr>"

theorem lineage_reads_back_witness:
  "read_entries 1 [] (write_entries [demo_row ''one'', demo_row ''two''] None) =
     Inr [JObj (lineage_record (demo_row ''two''))]"
proof -
  have "list_all plain_row [demo_row ''one'', demo_row ''two'']" by code_simp
  from lineage_reads_back [OF this, of 1] show ?thesis by (simp add: slice_last_def)
qed

text \<open>
  A row can be written that one reader never sees. \<open>json.dumps\<close> leaves U+0085 in a
  string as it is, \<open>read_entries\<close> splits the file there and drops both halves as undecodable, while
  the reader by mutation id, which goes through the file line by line, returns the row.\<close>

theorem lineage_separator_loses_row:
  "read_entries 50 [] (write_entries [demo_row [CHR 0x85]] None) = Inr [] \<and>
   read_latest_entry ''mutate'' ''m1'' 50 (write_entries [demo_row [CHR 0x85]] None) =
     Some (lineage_record (demo_row [CHR 0x85]))"
  by (rule conjI; code_simp)

end
