(* ===== verification/LedgerAppend.thy ===== *)
theory LedgerAppend
  imports JsonText HashChain
begin

text \<open>
  \<open>security/ledger/append.py\<close>: the append-only security ledger. The hash of the last entry is found by
  reading the file backwards in blocks; the new entry is sealed with it and written as one line of UTF-8.
  A file is its list of bytes, \<open>sha\<close> the hex SHA-256 of a text. The lock and the sync of the file and its
  directory are left out: an append runs alone and its write reaches the file.
\<close>

section \<open>Bytes\<close>

definition utf8_char :: "char \<Rightarrow> string" where
  "utf8_char c =
     (let n = (of_char c :: nat)
      in if n < 128 then [c] else [char_of (192 + n div 64), char_of (128 + n mod 64)])"

definition utf8_encode :: "string \<Rightarrow> string" where
  "utf8_encode s = concat (map utf8_char s)"

text \<open>Decoding, as far as the code points below 256 go.\<close>

fun utf8_decode :: "string \<Rightarrow> string option" where
  "utf8_decode [] = Some []"
| "utf8_decode (c # cs) =
     (if (of_char c :: nat) < 128 then map_option (Cons c) (utf8_decode cs)
      else if (of_char c :: nat) = 194 \<or> (of_char c :: nat) = 195 then
        (case cs of
           [] \<Rightarrow> None
         | d # ds \<Rightarrow>
             if 128 \<le> (of_char d :: nat) \<and> (of_char d :: nat) < 192
             then map_option (Cons (char_of ((of_char c - 192) * 64 + (of_char d - 128 :: nat)))) (utf8_decode ds)
             else None)
      else None)"

text \<open>\<open>bytes.isspace\<close>, \<open>bytes.strip\<close>\<close>

definition byte_space :: "char \<Rightarrow> bool" where
  "byte_space c \<longleftrightarrow> c = CHR 0x20 \<or> (9 \<le> (of_char c :: nat) \<and> (of_char c :: nat) \<le> 13)"

definition byte_rstrip :: "string \<Rightarrow> string" where
  "byte_rstrip s = rev (dropWhile byte_space (rev s))"

definition byte_strip :: "string \<Rightarrow> string" where
  "byte_strip s = byte_rstrip (dropWhile byte_space s)"

text \<open>What follows the last newline.\<close>

definition after_newline :: "string \<Rightarrow> string" where
  "after_newline s = rev (takeWhile (\<lambda>c. c \<noteq> CHR 0x0A) (rev s))"

section \<open>Reading the last line backwards\<close>

text \<open>
  The loop of \<open>_read_last_nonempty_jsonl_line\<close> with blocks of \<open>Suc k\<close> bytes: the bytes before
  \<open>stop\<close> are unread, \<open>tail\<close> is what is kept of the rest, \<open>seen\<close> whether there is any.
\<close>

function read_back :: "nat \<Rightarrow> string \<Rightarrow> nat \<Rightarrow> string \<Rightarrow> bool \<Rightarrow> string \<times> bool" where
  "read_back k f stop tail seen =
     (if stop = 0 then (tail, seen)
      else
        let start = stop - Suc k; block = take (stop - start) (drop start f)
        in if \<not> seen \<and> list_all byte_space block then read_back k f start tail seen
           else
             let kept = (if seen then block else byte_rstrip block)
             in if CHR 0x0A \<in> set kept then (after_newline kept @ tail, True)
                else read_back k f start (kept @ tail) True)"
  by pat_completeness auto

termination
  by (relation "measure (\<lambda>(k, f, stop, tail, seen). stop)") auto

declare read_back.simps [simp del]

definition TAIL_READ_CHUNK_SIZE :: nat where
  "TAIL_READ_CHUNK_SIZE = 8192"

definition read_last_line :: "nat \<Rightarrow> string \<Rightarrow> string option" where
  "read_last_line k f =
     (case read_back k f (length f) [] False of
        (tail, seen) \<Rightarrow>
          if \<not> seen \<or> byte_strip tail = [] then None else Some (byte_strip tail))"

section \<open>Appending\<close>

definition hexdigits :: string where
  "hexdigits = ''0123456789abcdefABCDEF''"

definition hex_digest :: "string \<Rightarrow> bool" where
  "hex_digest s \<longleftrightarrow> length s = 64 \<and> list_all (\<lambda>c. c \<in> set hexdigits) s"

definition ZERO_ENTRY :: string where
  "ZERO_ENTRY = replicate 64 (CHR ''0'')"

definition read_last_entry_hash :: "string \<Rightarrow> string res" where
  "read_last_entry_hash f =
     (case read_last_line (TAIL_READ_CHUNK_SIZE - 1) f of
        None \<Rightarrow> Inr ZERO_ENTRY
      | Some l \<Rightarrow>
          (case Option.bind (utf8_decode l) json_loads of
             None \<Rightarrow> Inl (ValueError ''ledger_tail_invalid'')
           | Some v \<Rightarrow>
               ebind (as_obj v) (\<lambda>d.
                 case dget d ''entry_hash'' of
                   Some (JStr h) \<Rightarrow> if hex_digest h then Inr h else Inl (ValueError ''ledger_tail_invalid'')
                 | _ \<Rightarrow> Inl (ValueError ''ledger_tail_invalid''))))"

definition sealed_entry :: "(string \<Rightarrow> string) \<Rightarrow> string \<Rightarrow> obj \<Rightarrow> obj" where
  "sealed_entry sha prev entry =
     (let e = dput ''prev_entry_hash'' (JStr prev) entry
      in dput ''entry_hash'' (JStr (sha (canonical False (JObj e)))) e)"

definition entry_line :: "obj \<Rightarrow> string" where
  "entry_line e = utf8_encode (canonical False (JObj e) @ [CHR 0x0A])"

definition ledger_append :: "(string \<Rightarrow> string) \<Rightarrow> obj \<Rightarrow> string \<Rightarrow> obj res \<times> string" where
  "ledger_append sha entry f =
     ethen (read_last_entry_hash f, f) (\<lambda>prev f.
       (Inr (sealed_entry sha prev entry), f @ entry_line (sealed_entry sha prev entry)))"

section \<open>The backward reader finds the last line\<close>

text \<open>The reference: the file without its trailing blanks, from the last newline on.\<close>

definition last_line :: "string \<Rightarrow> string option" where
  "last_line f =
     (if list_all byte_space f then None else Some (byte_strip (after_newline (byte_rstrip f))))"

lemma after_newline_append:
  "after_newline (s @ t) = (if CHR 0x0A \<in> set t then after_newline t else after_newline s @ t)"
  by (auto simp: after_newline_def takeWhile_append)

lemma byte_rstrip_append:
  "byte_rstrip (s @ t) = (if list_all byte_space t then byte_rstrip s else s @ byte_rstrip t)"
  by (auto simp: byte_rstrip_def dropWhile_append list_all_iff)

lemma byte_rstrip_blank: "byte_rstrip s = [] \<longleftrightarrow> list_all byte_space s"
  by (auto simp: byte_rstrip_def list_all_iff)

lemma take_block: "stop \<le> length f \<Longrightarrow> start \<le> stop \<Longrightarrow> take stop f = take start f @ take (stop - start) (drop start f)"
  using take_add [of start "stop - start" f] by simp

lemma read_back_seen:
  "stop \<le> length f \<Longrightarrow> CHR 0x0A \<notin> set tail \<Longrightarrow> read_back k f stop tail True = (after_newline (take stop f @ tail), True)"
proof (induction stop arbitrary: tail rule: less_induct)
  case (less stop)
  show ?case
  proof (cases "stop = 0")
    case True
    then show ?thesis using less.prems(2) after_newline_append [of "[]" tail]
      by (simp add: read_back.simps after_newline_def)
  next
    case False
    let ?start = "stop - Suc k"
    let ?block = "take (stop - ?start) (drop ?start f)"
    have split: "take stop f @ tail = take ?start f @ ?block @ tail"
      using take_block [OF less.prems(1), of ?start] by simp
    show ?thesis
    proof (cases "CHR 0x0A \<in> set ?block")
      case True
      have "after_newline (take stop f @ tail) = after_newline ?block @ tail"
        unfolding split using True less.prems(2) by (simp add: after_newline_append)
      then show ?thesis using False True by (subst read_back.simps) (simp add: Let_def)
    next
      case no: False
      have "read_back k f ?start (?block @ tail) True = (after_newline (take stop f @ tail), True)"
        unfolding split using less.IH [of ?start "?block @ tail"] less.prems no False by simp
      then show ?thesis using False no by (subst read_back.simps) (simp add: Let_def)
    qed
  qed
qed

lemma read_back_unseen:
  "stop \<le> length f \<Longrightarrow> read_back k f stop [] False =
     (if list_all byte_space (take stop f) then ([], False) else (after_newline (byte_rstrip (take stop f)), True))"
proof (induction stop rule: less_induct)
  case (less stop)
  show ?case
  proof (cases "stop = 0")
    case True
    then show ?thesis by (simp add: read_back.simps)
  next
    case False
    let ?start = "stop - Suc k"
    let ?block = "take (stop - ?start) (drop ?start f)"
    have split: "take stop f = take ?start f @ ?block" using take_block [OF less.prems, of ?start] by simp
    show ?thesis
    proof (cases "list_all byte_space ?block")
      case True
      then have "read_back k f stop [] False = read_back k f ?start [] False"
        using False by (subst read_back.simps) (simp add: Let_def)
      then show ?thesis using less.IH [of ?start] less.prems False True unfolding split
        by (simp add: byte_rstrip_append)
    next
      case blank: False
      have r: "byte_rstrip (take stop f) = take ?start f @ byte_rstrip ?block"
        unfolding split using blank by (simp add: byte_rstrip_append)
      have one: "read_back k f stop [] False =
          (if CHR 0x0A \<in> set (byte_rstrip ?block) then (after_newline (byte_rstrip ?block), True)
           else read_back k f ?start (byte_rstrip ?block) True)"
        using False blank by (subst read_back.simps) (simp add: Let_def)
      have "\<not> list_all byte_space (take stop f)" unfolding split using blank by simp
      then show ?thesis
        unfolding one r using read_back_seen [of ?start f "byte_rstrip ?block" k] less.prems
        by (simp add: after_newline_append)
    qed
  qed
qed

lemma byte_strip_line:
  assumes "\<not> list_all byte_space f"
  shows "byte_strip (after_newline (byte_rstrip f)) \<noteq> []"
proof -
  obtain s c where s: "byte_rstrip f = s @ [c]"
    using assms byte_rstrip_blank [of f] by (cases "byte_rstrip f" rule: rev_cases) auto
  then have "rev (byte_rstrip f) = c # rev s" by simp
  then have c: "\<not> byte_space c"
    unfolding byte_rstrip_def rev_rev_ident by (metis hd_dropWhile list.distinct(1) list.sel(1))
  then have "c \<noteq> CHR 0x0A" by (auto simp: byte_space_def)
  then have "after_newline (byte_rstrip f) = after_newline s @ [c]" unfolding s by (simp add: after_newline_append)
  then have "byte_strip (after_newline (byte_rstrip f)) = byte_rstrip (dropWhile byte_space (after_newline s @ [c]))"
    by (simp add: byte_strip_def)
  moreover have "c \<in> set (dropWhile byte_space (after_newline s @ [c]))" using c by (simp add: dropWhile_append)
  ultimately show ?thesis using c by (auto simp: byte_rstrip_blank list_all_iff)
qed

lemma read_last: "read_last_line k f = last_line f"
  using read_back_unseen [of "length f" f k] byte_strip_line [of f]
  by (simp add: read_last_line_def last_line_def)

section \<open>Encoded lines\<close>

lemma decode_char: "utf8_decode (utf8_char c @ s) = map_option (Cons c) (utf8_decode s)"
proof (cases "(of_char c :: nat) < 128")
  case True
  then show ?thesis by (simp add: utf8_char_def)
next
  case False
  have "(of_char c :: nat) < 256" using nat_of_char_less_256 [of c] .
  then have "(of_char c :: nat) div 64 = 2 \<or> (of_char c :: nat) div 64 = 3" using False by linarith
  then have "(of_char c :: nat) div 64 = 2 \<and> char_of (128 + of_char c mod 64 :: nat) = c \<or>
      (of_char c :: nat) div 64 = 3 \<and> char_of (192 + of_char c mod 64 :: nat) = c"
  proof
    assume q: "(of_char c :: nat) div 64 = 2"
    then have "128 + of_char c mod 64 = (of_char c :: nat)" using div_mult_mod_eq [of "of_char c :: nat" 64] by linarith
    with q show ?thesis by (metis char_of_char)
  next
    assume q: "(of_char c :: nat) div 64 = 3"
    then have "192 + of_char c mod 64 = (of_char c :: nat)" using div_mult_mod_eq [of "of_char c :: nat" 64] by linarith
    with q show ?thesis by (metis char_of_char)
  qed
  then show ?thesis using False by (auto simp: utf8_char_def Let_def)
qed

lemma decode_encode [simp]: "utf8_decode (utf8_encode s) = Some s"
  by (induction s) (simp_all add: utf8_encode_def decode_char del: utf8_decode.simps(2))

lemma encode_append [simp]: "utf8_encode (s @ t) = utf8_encode s @ utf8_encode t"
  by (simp add: utf8_encode_def)

lemma encode_ascii: "(of_char c :: nat) < 128 \<Longrightarrow> utf8_encode [c] = [c]"
  by (simp add: utf8_encode_def utf8_char_def)

lemma encode_newline: "CHR 0x0A \<in> set (utf8_encode s) \<longleftrightarrow> CHR 0x0A \<in> set s"
proof -
  have "CHR 0x0A \<in> set (utf8_char c) \<longleftrightarrow> c = CHR 0x0A" for c
  proof (cases "(of_char c :: nat) < 128")
    case False
    have "(of_char c :: nat) div 64 < 4" using nat_of_char_less_256 [of c] by linarith
    then have small: "(192 + (of_char c :: nat) div 64) mod 256 = 192 + of_char c div 64" by simp
    have ne: "d \<noteq> CHR 0x0A" if "(of_char d :: nat) \<noteq> 10" for d using that by auto
    have "char_of (192 + (of_char c :: nat) div 64) \<noteq> CHR 0x0A" "char_of (128 + (of_char c :: nat) mod 64) \<noteq> CHR 0x0A"
      by (rule ne, use small in simp)+
    then show ?thesis using False by (auto simp: utf8_char_def Let_def)
  qed (auto simp: utf8_char_def)
  then show ?thesis by (auto simp: utf8_encode_def)
qed

lemma render_compact: "render [] a v = dumps a v"
proof (induction v)
  case (JList xs)
  then have "map (render [] a) xs = map (dumps a) xs" by (simp add: map_eq_conv)
  then show ?case by (simp del: map_eq_conv)
next
  case (JObj kvs)
  have "map (\<lambda>(k, v). quote a k @ '':'' @ [] @ render [] a v) kvs = map (\<lambda>(k, v). quote a k @ '':'' @ dumps a v) kvs"
    using JObj by (auto simp: snds.simps)
  then show ?case by (simp del: map_eq_conv)
qed simp_all

lemma py_value_norm: "py_value v \<Longrightarrow> py_value (norm v)"
proof (induction v)
  case (JObj kvs)
  let ?m = "map (\<lambda>(k, v). (k, norm v)) kvs"
  have "map fst ?m = map fst kvs" by (simp add: comp_def case_prod_unfold)
  then have "distinct (map fst (sort_key fst ?m))"
    using JObj.prems by (metis (no_types, lifting) mset_eq_imp_distinct_iff mset_map mset_sort py_value.simps(2))
  moreover have "\<forall>p \<in> set kvs. py_value (norm (snd p))"
    using JObj by (auto simp: list_all_iff snds.simps)
  ultimately show ?case by (auto simp: list_all_iff)
qed (auto simp: list_all_iff)

lemma canonical_loads: "py_value v \<Longrightarrow> json_loads (canonical False v) = Some (norm v)"
  using loads_render [OF py_value_norm, of v "[]" False] by (simp add: canonical_def render_compact)

lemma canonical_object: "\<exists>s. canonical a (JObj e) = CHR ''{'' # s @ [CHR ''}'']"
  by (simp add: canonical_def)

lemma canonical_no_newline: "CHR 0x0A \<notin> set (canonical a v)"
proof -
  have "list_all (\<lambda>c. 32 \<le> (of_char c :: nat)) (canonical a v)"
    unfolding canonical_def render_compact [symmetric] by (rule render_printable) simp
  then show ?thesis by (auto simp: list_all_iff)
qed

lemma line_bytes:
  obtains s where "entry_line e = utf8_encode (canonical False (JObj e)) @ [CHR 0x0A]"
    "utf8_encode (canonical False (JObj e)) = CHR ''{'' # s @ [CHR ''}'']"
    "CHR 0x0A \<notin> set (utf8_encode (canonical False (JObj e)))"
proof -
  obtain t where "canonical False (JObj e) = CHR ''{'' # t @ [CHR ''}'']" using canonical_object by blast
  then have "utf8_encode (canonical False (JObj e)) = CHR ''{'' # utf8_encode t @ [CHR ''}'']"
    using encode_ascii [of "CHR ''}''"] by (simp add: utf8_encode_def utf8_char_def)
  moreover have "entry_line e = utf8_encode (canonical False (JObj e)) @ [CHR 0x0A]"
    by (simp add: entry_line_def encode_ascii)
  ultimately show thesis using that canonical_no_newline encode_newline by blast
qed

lemma last_line_of_lines:
  assumes "g = [] \<or> last g = CHR 0x0A"
  shows "last_line (g @ entry_line e) = Some (utf8_encode (canonical False (JObj e)))"
proof -
  obtain s where l: "entry_line e = utf8_encode (canonical False (JObj e)) @ [CHR 0x0A]"
    and s: "utf8_encode (canonical False (JObj e)) = CHR ''{'' # s @ [CHR ''}'']"
    and n: "CHR 0x0A \<notin> set (utf8_encode (canonical False (JObj e)))"
    by (rule line_bytes)
  have solid: "\<not> byte_space (CHR ''{'')" "\<not> byte_space (CHR ''}'')" "byte_space (CHR 0x0A)"
    by (simp_all add: byte_space_def)
  have "byte_rstrip (g @ entry_line e) = g @ utf8_encode (canonical False (JObj e))"
    unfolding l s using solid by (simp add: byte_rstrip_def)
  moreover have "after_newline (g @ utf8_encode (canonical False (JObj e))) = utf8_encode (canonical False (JObj e))"
  proof -
    have "after_newline g = []" using assms by (cases g rule: rev_cases) (auto simp: after_newline_def)
    with n show ?thesis by (simp add: after_newline_append)
  qed
  moreover have "byte_strip (utf8_encode (canonical False (JObj e))) = utf8_encode (canonical False (JObj e))"
    unfolding s using solid by (simp add: byte_strip_def byte_rstrip_def)
  moreover have "\<not> list_all byte_space (g @ entry_line e)" unfolding l s using solid by simp
  ultimately show ?thesis by (simp add: last_line_def)
qed

lemma read_hash_of_lines:
  assumes "g = [] \<or> last g = CHR 0x0A" "py_value (JObj e)" "dget e ''entry_hash'' = Some (JStr h)" "hex_digest h"
  shows "read_last_entry_hash (g @ entry_line e) = Inr h"
proof -
  obtain kvs where n: "norm (JObj e) = JObj kvs" by simp
  have "distinct (map fst e)" using assms(2) by simp
  from dget_norm_obj [OF this n, of "''entry_hash''"] have "dget kvs ''entry_hash'' = Some (JStr h)"
    using assms(3) by simp
  moreover have "json_loads (canonical False (JObj e)) = Some (JObj kvs)"
    using canonical_loads [OF assms(2)] n by simp
  ultimately show ?thesis
    using assms(4) by (simp add: read_last_entry_hash_def read_last last_line_of_lines [OF assms(1)])
qed

text \<open>A sequence of appends, and rows chained from a given hash.\<close>

fun append_entries :: "(string \<Rightarrow> string) \<Rightarrow> obj list \<Rightarrow> string \<Rightarrow> obj list res \<times> string" where
  "append_entries sha [] f = (Inr [], f)"
| "append_entries sha (e # es) f =
     ethen (ledger_append sha e f) (\<lambda>r f'.
     ethen (append_entries sha es f') (\<lambda>rs f''. (Inr (r # rs), f'')))"

fun rows_chained :: "(string \<Rightarrow> string) \<Rightarrow> string \<Rightarrow> obj list \<Rightarrow> bool" where
  "rows_chained sha p [] = True"
| "rows_chained sha p (r # rs) =
     (dget r ''prev_entry_hash'' = Some (JStr p) \<and>
      (let h = sha (canonical False (JObj (AList.delete ''entry_hash'' r)))
       in dget r ''entry_hash'' = Some (JStr h) \<and> rows_chained sha h rs))"

definition fresh_entry :: "obj \<Rightarrow> bool" where
  "fresh_entry e \<longleftrightarrow> py_value (JObj e) \<and> ''entry_hash'' \<notin> fst ` set e"

lemma sealed_entry_fields:
  fixes sha :: "string \<Rightarrow> string" and p :: string
  assumes "fresh_entry e"
  defines "s \<equiv> sealed_entry sha p e"
  shows "py_value (JObj s)" "dget s ''prev_entry_hash'' = Some (JStr p)"
    "dget s ''entry_hash'' = Some (JStr (sha (canonical False (JObj (AList.delete ''entry_hash'' s)))))"
proof -
  show "py_value (JObj s)"
    using assms(1) by (simp add: s_def sealed_entry_def fresh_entry_def Let_def distinct_update values_dput)
  show "dget s ''prev_entry_hash'' = Some (JStr p)" by (simp add: s_def sealed_entry_def Let_def)
  have "''entry_hash'' \<notin> fst ` set (dput ''prev_entry_hash'' (JStr p) e)"
    using assms(1) by (auto simp: fresh_entry_def update_keys dom_update)
  then have "AList.delete ''entry_hash'' s = dput ''prev_entry_hash'' (JStr p) e"
    by (simp add: s_def sealed_entry_def Let_def delete_update_same delete_id)
  then show "dget s ''entry_hash'' = Some (JStr (sha (canonical False (JObj (AList.delete ''entry_hash'' s)))))"
    by (simp add: s_def sealed_entry_def Let_def)
qed

lemma appends_chain:
  assumes "\<And>x. hex_digest (sha x)"
  shows "list_all fresh_entry es \<Longrightarrow> read_last_entry_hash f = Inr p \<Longrightarrow> f = [] \<or> last f = CHR 0x0A \<Longrightarrow>
    \<exists>rs. append_entries sha es f = (Inr rs, f @ concat (map entry_line rs)) \<and> rows_chained sha p rs \<and>
      length rs = length es"
proof (induction es arbitrary: f p)
  case (Cons e es)
  let ?s = "sealed_entry sha p e" and ?h = "sha (canonical False (JObj (AList.delete ''entry_hash'' (sealed_entry sha p e))))"
  have s: "py_value (JObj ?s)" "dget ?s ''prev_entry_hash'' = Some (JStr p)" "dget ?s ''entry_hash'' = Some (JStr ?h)"
    using sealed_entry_fields [of e sha p] Cons.prems(1) by simp_all
  have "read_last_entry_hash (f @ entry_line ?s) = Inr ?h"
    by (rule read_hash_of_lines [OF Cons.prems(3) s(1,3) assms])
  moreover have "last (f @ entry_line ?s) = CHR 0x0A" by (rule line_bytes [of ?s]) simp
  ultimately obtain rs where rs: "append_entries sha es (f @ entry_line ?s) =
      (Inr rs, (f @ entry_line ?s) @ concat (map entry_line rs))" "rows_chained sha ?h rs" "length rs = length es"
    using Cons.IH [of "f @ entry_line ?s" ?h] Cons.prems(1) by auto
  moreover have "ledger_append sha e f = (Inr ?s, f @ entry_line ?s)"
    using Cons.prems(2) by (simp add: ledger_append_def)
  ultimately show ?case using s by (intro exI [of _ "?s # rs"]) (simp add: Let_def)
qed simp

section \<open>Properties\<close>

text \<open>
  Reading backwards in blocks finds the line that reading the whole file finds,
  the last one that is not blank, without the blanks around it, for every block size and every file; a
  file of blanks has none.\<close>

theorem backward_read_is_last_line: "read_last_line k f = last_line f"
  by (rule read_last)

text \<open>
  The security ledger is a hash chain. Appending any entries to an empty file raises
  nothing and writes one line per entry; each row names the hash of the row before it, sixty-four zeros for
  the first, and its own hash is that of its content.\<close>

theorem appended_ledger_is_chained:
  assumes "\<And>x. hex_digest (sha x)" "list_all fresh_entry es"
  shows "\<exists>rows. append_entries sha es [] = (Inr rows, concat (map entry_line rows)) \<and>
    length rows = length es \<and> rows_chained sha ZERO_ENTRY rows"
proof -
  have "read_last_entry_hash [] = Inr ZERO_ENTRY"
    by (simp add: read_last_entry_hash_def read_last last_line_def)
  from appends_chain [where sha = sha, OF assms(1,2) this] show ?thesis by auto
qed

theorem appended_ledger_is_chained_witness:
  "\<exists>rows. append_entries (\<lambda>s. replicate 64 (CHR ''a'')) [[(''n'', JInt 1)], [(''n'', JInt 2)]] [] =
      (Inr rows, concat (map entry_line rows)) \<and>
    length rows = length [[(''n'', JInt 1)], [(''n'', JInt 2)]] \<and>
    rows_chained (\<lambda>s. replicate 64 (CHR ''a'')) ZERO_ENTRY rows"
  by (rule appended_ledger_is_chained) (simp_all add: hex_digest_def hexdigits_def fresh_entry_def list_all_iff)

end
