(* ===== verification/LineageV2.thy ===== *)
theory LineageV2
  imports Rounding Lineage LedgerAppend
begin

text \<open>
  \<open>runtime/evolution/lineage_v2.py\<close>: the hash-chained lineage ledger, its verification, the reader of its tail
  and the append that compares the tail before and after it takes the file lock. A file is its text, read as
  UTF-8 bytes where the code does; \<open>sha\<close> is the hex SHA-256 of a text and \<open>fj\<close> the JSON value that stands for a float.
  Other processes are functions on the text of the file; what the ledger keeps of events is in \<open>LineageEpochs\<close>.
\<close>

section \<open>The ledger and its errors\<close>

datatype lineage_fault = AtLine chain_fault | TailMalformed | TailHash | TailPrev

datatype lineage_error = LineageIntegrity lineage_fault | LineageResolution string | LineageLockTimeout | LineagePython py_error

text \<open>
  The file and whether its lock is held for longer than a writer waits; the entry of the process's tail
  table for the file; the fields of the object.\<close>

record lineage_ledger =
  lv_file :: "string option"
  lv_locked :: bool
  lv_cache :: "string option"
  lv_verified :: "string option"
  lv_index :: "(string, string) dict"
  lv_tenant :: obj

type_synonym 'a lineage_op = "(lineage_error + 'a) \<times> lineage_ledger"

definition lineage_new ::
  "path \<Rightarrow> string \<Rightarrow> obj \<Rightarrow> (path \<Rightarrow> string option) \<Rightarrow> (path \<Rightarrow> bool) \<Rightarrow> (path \<Rightarrow> string option) \<Rightarrow> lineage_ledger res" where
  "lineage_new dir name ctx files locks caches =
     ebind (tenant_partition_path dir name ctx) (\<lambda>p.
       Inr \<lparr>lv_file = files p, lv_locked = locks p, lv_cache = caches p, lv_verified = None, lv_index = [], lv_tenant = ctx\<rparr>)"

definition file_text :: "lineage_ledger \<Rightarrow> string" where
  "file_text st = (case lv_file st of None \<Rightarrow> [] | Some t \<Rightarrow> t)"

definition ensure_file :: "lineage_ledger \<Rightarrow> lineage_ledger" where
  "ensure_file st = st\<lparr>lv_file := Some (file_text st)\<rparr>"

text \<open>\<open>hmac.compare_digest\<close> raises for texts that are not ASCII.\<close>

definition compare_texts :: "string \<Rightarrow> string \<Rightarrow> lineage_error + bool" where
  "compare_texts s t = (if plain_text (s @ t) then Inr (s = t) else Inl (LineagePython TypeError))"

section \<open>Verification\<close>

definition check_entry :: "(string \<Rightarrow> string) \<Rightarrow> string \<Rightarrow> nat \<Rightarrow> obj \<Rightarrow> lineage_error + string" where
  "check_entry sha prev n e =
     ebind (compare_texts (text_at e ''prev_hash'') prev) (\<lambda>linked.
       if \<not> linked then Inl (LineageIntegrity (AtLine (PrevMismatch n)))
       else ebind (compare_texts (text_at e ''hash'') (hash_line sha prev (unhashed e))) (\<lambda>own.
         if \<not> own then Inl (LineageIntegrity (AtLine (HashMismatch n))) else Inr (text_at e ''hash'')))"

text \<open>With a limit the scan stops early, and the hash it has come to is taken for the tail.\<close>

fun verify_lines :: "(string \<Rightarrow> string) \<Rightarrow> int option \<Rightarrow> nat \<Rightarrow> string \<Rightarrow> string list \<Rightarrow> lineage_error + string" where
  "verify_lines sha cap n prev [] = Inr prev"
| "verify_lines sha cap n prev (l # ls) =
     (if (case cap of None \<Rightarrow> False | Some m \<Rightarrow> m < int n) then Inr (if prev = [] then GENESIS_HASH else prev)
      else if py_strip l = [] then verify_lines sha cap (Suc n) prev ls
      else case json_loads (py_strip l) of
        None \<Rightarrow> Inl (LineageIntegrity (AtLine (InvalidJson n)))
      | Some (JObj e) \<Rightarrow> ebind (check_entry sha prev n e) (\<lambda>h. verify_lines sha cap (Suc n) h ls)
      | Some v \<Rightarrow> Inl (LineageIntegrity (AtLine (MalformedEntry n))))"

text \<open>An integrity fault calls the recovery hook, which may change the file, before it is raised.\<close>

definition lineage_verify_integrity ::
  "(string \<Rightarrow> string) \<Rightarrow> (lineage_fault \<Rightarrow> lineage_ledger \<Rightarrow> lineage_ledger) \<Rightarrow> int option \<Rightarrow> lineage_ledger \<Rightarrow> unit lineage_op" where
  "lineage_verify_integrity sha hook cap st =
     (let st1 = ensure_file st
      in case verify_lines sha cap 1 GENESIS_HASH (split_on newline (file_text st1)) of
           Inl (LineageIntegrity f) \<Rightarrow> (Inl (LineageIntegrity f), hook f st1)
         | Inl e \<Rightarrow> (Inl e, st1)
         | Inr h \<Rightarrow> (Inr (), st1\<lparr>lv_cache := Some h, lv_verified := Some h\<rparr>))"

abbreviation no_hook :: "lineage_fault \<Rightarrow> lineage_ledger \<Rightarrow> lineage_ledger" where
  "no_hook \<equiv> \<lambda>f st. st"

definition last_hash :: "(string \<Rightarrow> string) \<Rightarrow> lineage_ledger \<Rightarrow> string lineage_op" where
  "last_hash sha st =
     (case lv_cache st of
        Some h \<Rightarrow> (Inr h, st\<lparr>lv_verified := Some h\<rparr>)
      | None \<Rightarrow>
          ethen (lineage_verify_integrity sha no_hook None st) (\<lambda>u st'.
            let h = (case lv_cache st' of Some (c # cs) \<Rightarrow> c # cs | _ \<Rightarrow> GENESIS_HASH)
            in (Inr h, st'\<lparr>lv_verified := Some h\<rparr>)))"

section \<open>The tail of the file\<close>

text \<open>\<open>bytes.decode("utf-8", errors="ignore")\<close>, as far as the code points below 256 go.\<close>

fun utf8_ignore :: "string \<Rightarrow> string" where
  "utf8_ignore [] = []"
| "utf8_ignore [c] = (if (of_char c :: nat) < 128 then [c] else [])"
| "utf8_ignore (c # d # ds) =
     (if (of_char c :: nat) < 128 then c # utf8_ignore (d # ds)
      else if ((of_char c :: nat) = 194 \<or> (of_char c :: nat) = 195) \<and> 128 \<le> (of_char d :: nat) \<and> (of_char d :: nat) < 192
      then char_of ((of_char c - 192) * 64 + (of_char d - 128 :: nat)) # utf8_ignore ds
      else utf8_ignore (d # ds))"

text \<open>The bytes up to the last that is no line end, which the code finds one byte at a time.\<close>

definition strip_eol :: "string \<Rightarrow> string" where
  "strip_eol f = rev (dropWhile newline (rev f))"

text \<open>\<open>bytes.rfind\<close> of a newline.\<close>

definition rfind_newline :: "string \<Rightarrow> nat option" where
  "rfind_newline s =
     (if CHR 0x0A \<in> set s then Some (length s - Suc (length (takeWhile (\<lambda>c. c \<noteq> CHR 0x0A) (rev s)))) else None)"

text \<open>Blocks of 1024 bytes are read backwards from \<open>stop\<close>, 16384 bytes at most.\<close>

function line_start :: "string \<Rightarrow> nat \<Rightarrow> nat \<Rightarrow> nat option" where
  "line_start f stop s =
     (if 0 < s \<and> stop - s < 16384 then
        let s' = s - min s 1024
        in case rfind_newline (take (s - s') (drop s' f)) of
             Some i \<Rightarrow> Some (s' + i + 1)
           | None \<Rightarrow> line_start f stop s'
      else None)"
  by pat_completeness auto

termination
  by (relation "measure (\<lambda>(f, stop, s). s)") auto

declare line_start.simps [simp del]

text \<open>The scan of the whole file that both exits of the tail reader fall back on.\<close>

fun scan_bytes :: "(string \<Rightarrow> string) \<Rightarrow> nat \<Rightarrow> string \<Rightarrow> string list \<Rightarrow> lineage_error + string" where
  "scan_bytes sha n prev [] = Inr prev"
| "scan_bytes sha n prev (l # ls) =
     (if byte_strip l = [] then scan_bytes sha (Suc n) prev ls
      else case Option.bind (utf8_decode (byte_strip l)) json_loads of
        None \<Rightarrow> Inl (LineageIntegrity (AtLine (InvalidJson n)))
      | Some (JObj e) \<Rightarrow> ebind (check_entry sha prev n e) (\<lambda>h. scan_bytes sha (Suc n) h ls)
      | Some v \<Rightarrow> Inl (LineageIntegrity (AtLine (MalformedEntry n))))"

text \<open>The last line, which starts at \<open>b\<close>; no value when an exception sends the reader to the full scan.\<close>

definition tail_entry :: "(string \<Rightarrow> string) \<Rightarrow> nat \<Rightarrow> string \<Rightarrow> (lineage_error + string) option" where
  "tail_entry sha b l =
     (case json_loads l of
        None \<Rightarrow> None
      | Some (JObj e) \<Rightarrow>
          (let p = text_at e ''prev_hash''; h = text_at e ''hash''; c = hash_line sha p (unhashed e)
           in if \<not> plain_text (h @ c) then None
              else if h \<noteq> c then Some (Inl (LineageIntegrity TailHash))
              else if b = 0 \<and> \<not> plain_text p then None
              else if b = 0 \<and> p \<noteq> GENESIS_HASH then Some (Inl (LineageIntegrity TailPrev))
              else Some (Inr (if h = [] then GENESIS_HASH else h)))
      | Some v \<Rightarrow> Some (Inl (LineageIntegrity TailMalformed)))"

definition scan_tail :: "(string \<Rightarrow> string) \<Rightarrow> lineage_ledger \<Rightarrow> string lineage_op" where
  "scan_tail sha st =
     (let st1 = ensure_file st; f = utf8_encode (file_text st1); stop = length (strip_eol f);
          full = scan_bytes sha 1 GENESIS_HASH (split_on (\<lambda>c. c = CHR 0x0A) f)
      in (if stop = 0 then Inr GENESIS_HASH
          else case line_start f stop stop of
            None \<Rightarrow> full
          | Some b \<Rightarrow>
              (case tail_entry sha b (py_strip (utf8_ignore (take (stop - b) (drop b f)))) of
                 None \<Rightarrow> full
               | Some r \<Rightarrow> r), st1))"

section \<open>Appending\<close>

definition canonical_backoff :: "nat \<Rightarrow> rat" where
  "canonical_backoff i = (let ds = [0, 1/1000, 2/1000, 5/1000, 8/1000] in if i < length ds then ds ! i else last ds)"

definition append_protocol :: "(rat \<Rightarrow> json) \<Rightarrow> string \<Rightarrow> nat \<Rightarrow> nat \<Rightarrow> rat list \<Rightarrow> obj" where
  "append_protocol fj before attempt conflicts delays =
     [(''tail_hash_before'', JStr before), (''retry_attempt'', JInt (int attempt - 1)), (''conflict_count'', JInt (int conflicts)),
      (''retry_backoff_seconds'', JList (map fj delays)), (''retry_strategy'', JStr ''canonical_deterministic'')]"

definition entry_body :: "string \<Rightarrow> obj \<Rightarrow> string \<Rightarrow> obj \<Rightarrow> obj" where
  "entry_body ty payload prev protocol =
     [(''type'', JStr ty), (''payload'', JObj payload), (''prev_hash'', JStr prev), (''append_protocol'', JObj protocol)]"

definition lineage_entry :: "(string \<Rightarrow> string) \<Rightarrow> string \<Rightarrow> obj \<Rightarrow> string \<Rightarrow> obj \<Rightarrow> obj" where
  "lineage_entry sha ty payload prev protocol =
     entry_body ty payload prev protocol @ [(''hash'', JStr (hash_line sha prev (entry_body ty payload prev protocol)))]"

text \<open>What the caller gets: the entry with two fields that are not written, or the conflict.\<close>

definition committed_outcome :: "(string \<Rightarrow> string) \<Rightarrow> string \<Rightarrow> obj \<Rightarrow> string \<Rightarrow> obj \<Rightarrow> obj" where
  "committed_outcome sha ty payload prev protocol =
     (let h = hash_line sha prev (entry_body ty payload prev protocol)
      in entry_body ty payload prev (protocol @ [(''tail_hash_after'', JStr h)]) @
         [(''hash'', JStr h), (''status'', JStr ''committed'')])"

definition conflict_outcome :: "(rat \<Rightarrow> json) \<Rightarrow> string \<Rightarrow> string \<Rightarrow> nat \<Rightarrow> nat \<Rightarrow> rat list \<Rightarrow> obj" where
  "conflict_outcome fj before cur attempt conflicts delays =
     [(''status'', JStr ''conflict''),
      (''conflict'', JObj [(''code'', JStr ''lineage_tail_hash_mismatch''), (''tail_hash_before'', JStr before),
         (''current_tail_hash'', JStr cur), (''attempt'', JInt (int attempt))]),
      (''append_protocol'', JObj [(''tail_hash_before'', JStr before), (''tail_hash_after'', JStr cur),
         (''retry_attempt'', JInt (int attempt - 1)), (''conflict_count'', JInt (int conflicts + 1)),
         (''retry_backoff_seconds'', JList (map fj delays)), (''retry_strategy'', JStr ''canonical_deterministic'')])]"

definition is_conflict :: "obj \<Rightarrow> bool" where
  "is_conflict out \<longleftrightarrow> dget out ''status'' = Some (JStr ''conflict'')"

definition append_with_precondition ::
  "(string \<Rightarrow> string) \<Rightarrow> (rat \<Rightarrow> json) \<Rightarrow> string \<Rightarrow> obj \<Rightarrow> string \<Rightarrow> nat \<Rightarrow> nat \<Rightarrow> rat list \<Rightarrow> lineage_ledger \<Rightarrow> obj lineage_op" where
  "append_with_precondition sha fj ty payload before attempt conflicts delays st =
     (if lv_locked st then (Inl LineageLockTimeout, st)
      else ethen (scan_tail sha st) (\<lambda>cur st1.
           ethen (compare_texts before cur, st1) (\<lambda>same st1.
             if \<not> same then (Inr (conflict_outcome fj before cur attempt conflicts delays), st1)
             else
               (let protocol = append_protocol fj before attempt conflicts delays;
                    e = lineage_entry sha ty payload cur protocol
                in (Inr (committed_outcome sha ty payload cur protocol),
                    st1\<lparr>lv_file := Some (file_text st1 @ json_line (JObj e)), lv_cache := Some (text_at e ''hash''),
                        lv_verified := Some (text_at e ''hash'')\<rparr>)))))"

text \<open>
  What other processes write before the tail is read the first time and before the lock is taken in
  each attempt: \<open>peers i\<close> on the text of the file.\<close>

definition others :: "(string \<Rightarrow> string) \<Rightarrow> lineage_ledger \<Rightarrow> lineage_ledger" where
  "others g st = st\<lparr>lv_file := Some (g (file_text st))\<rparr>"

function append_tries ::
  "(string \<Rightarrow> string) \<Rightarrow> (rat \<Rightarrow> json) \<Rightarrow> (nat \<Rightarrow> string \<Rightarrow> string) \<Rightarrow> nat \<Rightarrow> string \<Rightarrow> obj \<Rightarrow> nat \<Rightarrow> nat \<Rightarrow> rat list \<Rightarrow>
   lineage_ledger \<Rightarrow> obj lineage_op" where
  "append_tries sha fj peers mx ty payload k conflicts delays st =
     ethen (scan_tail sha (others (peers (2 * k)) st)) (\<lambda>before st1.
     ethen (append_with_precondition sha fj ty payload before k conflicts delays (others (peers (2 * k + 1)) st1)) (\<lambda>out st2.
       if \<not> is_conflict out \<or> mx \<le> k then (Inr out, st2)
       else append_tries sha fj peers mx ty payload (k + 1) (conflicts + 1) (delays @ [canonical_backoff conflicts]) st2))"
  by pat_completeness auto

termination
  by (relation "measure (\<lambda>(sha, fj, peers, mx, ty, payload, k, conflicts, delays, st). mx - k)") auto

declare append_tries.simps [simp del]

definition update_epoch_digest :: "string \<Rightarrow> string \<Rightarrow> lineage_ledger \<Rightarrow> lineage_ledger" where
  "update_epoch_digest epoch d st = st\<lparr>lv_index := dput epoch d (lv_index st)\<rparr>"

definition lineage_append_event ::
  "(string \<Rightarrow> string) \<Rightarrow> (rat \<Rightarrow> json) \<Rightarrow> (nat \<Rightarrow> string \<Rightarrow> string) \<Rightarrow> int \<Rightarrow> string \<Rightarrow> obj \<Rightarrow> lineage_ledger \<Rightarrow> obj lineage_op" where
  "lineage_append_event sha fj peers mx ty payload st =
     ethen (append_tries sha fj peers (nat (max 1 mx)) ty payload 1 0 [] st) (\<lambda>out st'.
       (Inr out,
        if ty = ''MutationBundleEvent'' \<and> \<not> is_conflict out \<and> text_at payload ''epoch_id'' \<noteq> [] \<and>
           text_at payload ''epoch_digest'' \<noteq> []
        then update_epoch_digest (text_at payload ''epoch_id'') (text_at payload ''epoch_digest'') st' else st'))"

abbreviation alone :: "nat \<Rightarrow> string \<Rightarrow> string" where
  "alone \<equiv> \<lambda>i t. t"

section \<open>Bytes of a written ledger\<close>

lemma ignore_char: "utf8_ignore (utf8_char c @ s) = c # utf8_ignore s"
proof (cases "(of_char c :: nat) < 128")
  case True
  then show ?thesis by (cases s) (simp_all add: utf8_char_def)
next
  case False
  then have "utf8_decode (utf8_char c @ []) = Some [c]" by (simp add: decode_char del: utf8_decode.simps(2) append_Nil2)
  moreover obtain a b where ab: "utf8_char c = [a, b]" using False by (simp add: utf8_char_def Let_def)
  ultimately show ?thesis using False
    by (cases "(of_char a :: nat) < 128"; cases "(of_char b :: nat) < 128")
      (auto simp: utf8_char_def Let_def split: if_splits)
qed

lemma ignore_encode [simp]: "utf8_ignore (utf8_encode s) = s"
  by (induction s) (simp_all add: utf8_encode_def ignore_char)

lemma rfind_found:
  assumes "rfind_newline s = Some i"
  shows "CHR 0x0A \<in> set s" "i + 1 + length (after_newline s) = length s"
proof -
  let ?t = "takeWhile (\<lambda>c. c \<noteq> CHR 0x0A) (rev s)"
  show in_s: "CHR 0x0A \<in> set s" using assms by (simp add: rfind_newline_def split: if_splits)
  then have "\<not> list_all (\<lambda>c. c \<noteq> CHR 0x0A) (rev s)" by (auto simp: list_all_iff)
  then have "length ?t < length (rev s)"
    by (metis length_takeWhile_le le_neq_implies_less list_all_iff takeWhile_eq_all_conv length_rev nth_equalityI takeWhile_nth)
  then show "i + 1 + length (after_newline s) = length s"
    using assms in_s by (simp add: rfind_newline_def after_newline_def split: if_splits)
qed

text \<open>Where the backward search stops, the last line begins; how far it looks only decides whether it stops.\<close>

lemma line_start_found:
  assumes "stop \<le> length f"
  shows "s \<le> stop \<Longrightarrow> CHR 0x0A \<notin> set (take (stop - s) (drop s f)) \<Longrightarrow> line_start f stop s = Some b \<Longrightarrow>
    0 < b \<and> b \<le> stop \<and> take b f @ after_newline (take stop f) = take stop f"
proof (induction s rule: less_induct)
  case (less s)
  show ?case
  proof (cases "0 < s \<and> stop - s < 16384")
    case False
    have "line_start f stop s = None" by (subst line_start.simps) (rule if_not_P [OF False])
    then show ?thesis using less.prems(3) by simp
  next
    case True
    define s' where "s' = s - min s 1024"
    have s': "s' < s" using True by (simp add: s'_def)
    let ?block = "take (s - s') (drop s' f)" and ?rest = "take (stop - s) (drop s f)"
    have split: "take (stop - s') (drop s' f) = ?block @ ?rest"
    proof -
      have "take (stop - s') (drop s' f) = take (s - s' + (stop - s)) (drop s' f)" using s' less.prems(1) by simp
      also have "\<dots> = ?block @ take (stop - s) (drop (s - s') (drop s' f))" by (rule take_add)
      finally show ?thesis using s' by simp
    qed
    have whole: "take stop f = take s' f @ ?block @ ?rest"
      using split take_add [of s' "stop - s'" f] s' less.prems(1) by simp
    show ?thesis
    proof (cases "rfind_newline ?block")
      case None
      then have "CHR 0x0A \<notin> set ?block" by (simp add: rfind_newline_def split: if_splits)
      then have "CHR 0x0A \<notin> set (take (stop - s') (drop s' f))" using split less.prems(2) by simp
      moreover have "line_start f stop s' = Some b"
        using less.prems(3) True None by (subst (asm) line_start.simps) (simp add: Let_def s'_def)
      ultimately show ?thesis using less.IH [OF s'] s' less.prems(1) by simp
    next
      case (Some i)
      then have b: "b = s' + i + 1"
        using less.prems(3) True by (subst (asm) line_start.simps) (simp add: Let_def s'_def)
      have len: "length ?block = s - s'" "length ?rest = stop - s" using assms s' less.prems(1) by simp_all
      have after: "after_newline (take stop f) = after_newline ?block @ ?rest"
        unfolding whole using less.prems(2) rfind_found(1) [OF Some] by (simp add: after_newline_append)
      have sum: "b + length (after_newline (take stop f)) = stop"
      proof -
        have "i + 1 + length (after_newline ?block) = s - s'" using rfind_found(2) [OF Some] len(1) by simp
        then show ?thesis unfolding after length_append len(2) b using s' less.prems(1) by arith
      qed
      have tail: "drop (length (take stop f) - length (after_newline (take stop f))) (take stop f) = after_newline (take stop f)"
      proof -
        have "\<exists>g. take stop f = g @ after_newline (take stop f)"
          unfolding after_newline_def by (metis rev_append rev_rev_ident takeWhile_dropWhile_id)
        then show ?thesis by (metis append_eq_conv_conj diff_add_inverse2 length_append)
      qed
      have "length (take stop f) - length (after_newline (take stop f)) = b" using sum assms by simp
      with tail have "drop b (take stop f) = after_newline (take stop f)" by simp
      moreover have "b \<le> stop" using sum by simp
      ultimately show ?thesis using b append_take_drop_id [of b "take stop f"] by simp
    qed
  qed
qed

section \<open>Ledgers the class wrote\<close>

definition plain_sha :: "(string \<Rightarrow> string) \<Rightarrow> bool" where
  "plain_sha sha \<longleftrightarrow> (\<forall>x. plain_text (sha x) \<and> sha x \<noteq> [])"

lemma plain_hash_line [simp]: "plain_sha sha \<Longrightarrow> plain_text (hash_line sha p e)" "plain_sha sha \<Longrightarrow> hash_line sha p e \<noteq> []"
  by (simp_all add: plain_sha_def hash_line_def)

lemma plain_zeros [simp]: "plain_text GENESIS_HASH" "GENESIS_HASH \<noteq> []"
  by (simp_all add: plain_text_def GENESIS_HASH_def list_all_iff)

lemma compare_plain [simp]: "plain_text s \<Longrightarrow> plain_text t \<Longrightarrow> compare_texts s t = Inr (s = t)"
  by (simp add: compare_texts_def)

lemma tip_plain:
  assumes "plain_sha sha"
  shows "plain_text p \<Longrightarrow> chain_from sha p es \<Longrightarrow> plain_text (tip p es)"
proof (induction es arbitrary: p)
  case (Cons e es)
  have "plain_text (text_at e ''hash'')" "chain_from sha (text_at e ''hash'') es" using Cons.prems(2) assms by auto
  from Cons.IH [OF this] show ?case by simp
qed simp

lemma check_chained:
  "plain_sha sha \<Longrightarrow> plain_text p \<Longrightarrow> chain_from sha p (e # es) \<Longrightarrow> check_entry sha p n e = Inr (text_at e ''hash'')"
  by (simp add: check_entry_def)

lemma verify_rows:
  assumes "plain_sha sha"
  shows "plain_text p \<Longrightarrow> list_all (\<lambda>e. py_value (JObj e)) es \<Longrightarrow> chain_from sha p es \<Longrightarrow>
    verify_lines sha None n p (map (\<lambda>e. json_text (JObj e)) es) = Inr (tip p es)"
proof (induction es arbitrary: n p)
  case (Cons e es)
  then have "json_loads (json_text (JObj e)) = Some (JObj e)" by (intro loads_json_text) simp
  moreover have "verify_lines sha None (Suc n) (text_at e ''hash'') (map (\<lambda>e. json_text (JObj e)) es) =
      Inr (tip (text_at e ''hash'') es)"
    by (rule Cons.IH) (use Cons.prems assms in \<open>auto simp del: py_value.simps\<close>)
  ultimately show ?case using check_chained [OF assms Cons.prems(1,3)] by simp
qed simp

text \<open>The bytes of a row.\<close>

definition row_bytes :: "obj \<Rightarrow> string" where
  "row_bytes e = utf8_encode (json_text (JObj e))"

lemma json_line_bytes [simp]: "utf8_encode (json_line (JObj e)) = row_bytes e @ [CHR 0x0A]"
  by (simp add: json_line_def row_bytes_def encode_ascii)

lemma row_shape: "\<exists>s. row_bytes e = CHR ''{'' # s @ [CHR ''}'']"
proof -
  obtain t where "json_text (JObj e) = CHR ''{'' # t @ [CHR ''}'']" using json_text_object by blast
  then have "row_bytes e = CHR ''{'' # utf8_encode t @ [CHR ''}'']"
    using encode_ascii [of "CHR ''}''"] by (simp add: row_bytes_def utf8_encode_def utf8_char_def)
  then show ?thesis by blast
qed

lemma row_no_newline: "CHR 0x0A \<notin> set (row_bytes e)"
proof -
  have "CHR 0x0A \<notin> set (json_text (JObj e))" using json_text_lines [of "JObj e"] by (auto simp: list_all_iff newline_def)
  then show ?thesis using encode_newline by (simp add: row_bytes_def)
qed

lemma row_strip [simp]: "byte_strip (row_bytes e) = row_bytes e" "row_bytes e \<noteq> []"
proof -
  obtain s where s: "row_bytes e = CHR ''{'' # s @ [CHR ''}'']" using row_shape by blast
  then show "byte_strip (row_bytes e) = row_bytes e" by (simp add: byte_strip_def byte_rstrip_def byte_space_def)
  show "row_bytes e \<noteq> []" using s by simp
qed

lemma row_lines:
  "split_on (\<lambda>c. c = CHR 0x0A) (utf8_encode (journal_text es)) = map row_bytes es"
proof (induction es)
  case (Cons e es)
  have "split_on (\<lambda>c. c = CHR 0x0A) (row_bytes e @ CHR 0x0A # utf8_encode (journal_text es)) =
      row_bytes e # split_on (\<lambda>c. c = CHR 0x0A) (utf8_encode (journal_text es))"
    by (rule split_on_line) (use row_no_newline [of e] in \<open>auto simp: list_all_iff\<close>)
  with Cons show ?case by simp
qed (simp add: utf8_encode_def)

lemma scan_rows:
  assumes "plain_sha sha"
  shows "plain_text p \<Longrightarrow> list_all (\<lambda>e. py_value (JObj e)) es \<Longrightarrow> chain_from sha p es \<Longrightarrow>
    scan_bytes sha n p (map row_bytes es) = Inr (tip p es)"
proof (induction es arbitrary: n p)
  case (Cons e es)
  then have "json_loads (json_text (JObj e)) = Some (JObj e)" by (intro loads_json_text) simp
  then have "Option.bind (utf8_decode (row_bytes e)) json_loads = Some (JObj e)" by (simp add: row_bytes_def)
  moreover have "scan_bytes sha (Suc n) (text_at e ''hash'') (map row_bytes es) = Inr (tip (text_at e ''hash'') es)"
    by (rule Cons.IH) (use Cons.prems assms in \<open>auto simp del: py_value.simps\<close>)
  ultimately show ?case using check_chained [OF assms Cons.prems(1,3)] by simp
qed simp

section \<open>The tail reader finds the verified tail\<close>

lemma strip_rows: "strip_eol (g @ row_bytes e @ [CHR 0x0A]) = g @ row_bytes e"
proof -
  obtain s where s: "row_bytes e = CHR ''{'' # s @ [CHR ''}'']" using row_shape by blast
  show ?thesis unfolding s by (simp add: strip_eol_def newline_def)
qed

lemma after_last_row:
  assumes "g = [] \<or> last g = CHR 0x0A"
  shows "after_newline (g @ row_bytes e) = row_bytes e"
proof -
  have "after_newline g = []" using assms by (cases g rule: rev_cases) (auto simp: after_newline_def)
  then show ?thesis using row_no_newline [of e] by (simp add: after_newline_append)
qed

lemma encode_empty [simp]: "utf8_encode [] = []"
  by (simp add: utf8_encode_def)

lemma rows_end: "utf8_encode (journal_text es) = [] \<or> last (utf8_encode (journal_text es)) = CHR 0x0A"
  by (cases es rule: rev_cases) simp_all

lemma tail_row:
  assumes "plain_sha sha" "py_value (JObj e)" "chain_from sha p [e]" "0 < b"
  shows "tail_entry sha b (py_strip (utf8_ignore (row_bytes e))) = Some (Inr (text_at e ''hash''))"
proof -
  have "json_loads (py_strip (utf8_ignore (row_bytes e))) = Some (JObj e)"
    using assms(2) by (simp add: row_bytes_def del: py_value.simps)
  then show ?thesis using assms(1,3,4) by (simp add: tail_entry_def Let_def)
qed

lemma file_text_ensure [simp]: "file_text (ensure_file st) = file_text st" "ensure_file (ensure_file st) = ensure_file st"
  by (simp_all add: ensure_file_def file_text_def)

lemma scan_tail_written:
  assumes "plain_sha sha" "well_chained sha es" "file_text st = journal_text es"
  shows "scan_tail sha st = (Inr (tip GENESIS_HASH es), ensure_file st)"
proof -
  let ?f = "utf8_encode (journal_text es)" and ?stop = "length (strip_eol (utf8_encode (journal_text es)))"
  have w: "list_all (\<lambda>e. py_value (JObj e)) es" "chain_from sha GENESIS_HASH es" using assms(2) by (simp_all add: well_chained_def)
  have full: "scan_bytes sha 1 GENESIS_HASH (split_on (\<lambda>c. c = CHR 0x0A) ?f) = Inr (tip GENESIS_HASH es)"
    unfolding row_lines using scan_rows [OF assms(1) plain_zeros(1) w] .
  show ?thesis
  proof (cases es rule: rev_cases)
    case Nil
    then show ?thesis using assms(3) by (simp add: scan_tail_def utf8_encode_def strip_eol_def)
  next
    case (snoc fs e)
    let ?g = "utf8_encode (journal_text fs)"
    have f: "?f = ?g @ row_bytes e @ [CHR 0x0A]" using snoc by simp
    then have stop: "?stop = length ?g + length (row_bytes e)" "take ?stop ?f = ?g @ row_bytes e" "?stop \<le> length ?f"
      using strip_rows [of ?g e] by simp_all
    have pos: "?stop \<noteq> 0" using stop(1) by simp
    show ?thesis
    proof (cases "line_start ?f ?stop ?stop")
      case None
      then show ?thesis using full pos assms(3) by (simp add: scan_tail_def Let_def)
    next
      case (Some b)
      from line_start_found [OF stop(3) le_refl _ Some] have b: "0 < b" "b \<le> ?stop"
        "take b ?f @ after_newline (take ?stop ?f) = take ?stop ?f" by simp_all
      have row: "after_newline (take ?stop ?f) = row_bytes e" unfolding stop(2) by (rule after_last_row [OF rows_end])
      have "take (?stop - b) (drop b ?f) = row_bytes e"
      proof -
        have "drop b (take ?stop ?f) = row_bytes e" using b(2,3) stop(3) unfolding row
          by (metis append_eq_conv_conj length_take min.absorb2 order_trans)
        then show ?thesis by (simp add: drop_take)
      qed
      moreover have "chain_from sha (tip GENESIS_HASH fs) [e]" "py_value (JObj e)" using w snoc by simp_all
      ultimately have "tail_entry sha b (py_strip (utf8_ignore (take (?stop - b) (drop b ?f)))) = Some (Inr (tip GENESIS_HASH es))"
        using tail_row [OF assms(1) _ _ b(1)] snoc by simp
      then show ?thesis using pos Some assms(3) by (simp add: scan_tail_def Let_def)
    qed
  qed
qed

section \<open>Appends to a written ledger\<close>

lemma entry_fields [simp]:
  "text_at (lineage_entry sha ty payload p protocol) ''prev_hash'' = p"
  "text_at (lineage_entry sha ty payload p protocol) ''hash'' = hash_line sha p (entry_body ty payload p protocol)"
  "unhashed (lineage_entry sha ty payload p protocol) = entry_body ty payload p protocol"
  by (cases p; cases "hash_line sha p (entry_body ty payload p protocol)";
      simp add: lineage_entry_def entry_body_def text_at_def get_or_truthy_def unhashed_def)+

definition float_json :: "(rat \<Rightarrow> json) \<Rightarrow> bool" where
  "float_json fj \<longleftrightarrow> (\<forall>q. py_value (fj q))"

lemma entry_value:
  assumes "py_value (JObj payload)" "float_json fj"
  shows "py_value (JObj (lineage_entry sha ty payload p (append_protocol fj before k c ds)))"
  using assms by (simp add: lineage_entry_def entry_body_def append_protocol_def list_all_iff float_json_def)

lemma outcome_status [simp]:
  "is_conflict (conflict_outcome fj before cur k c ds)" "\<not> is_conflict (committed_outcome sha ty payload p protocol)"
  by (simp_all add: is_conflict_def conflict_outcome_def committed_outcome_def entry_body_def Let_def)

lemma written_more:
  assumes "well_chained sha es" "py_value (JObj payload)" "float_json fj"
  shows "well_chained sha (es @ [lineage_entry sha ty payload (tip GENESIS_HASH es) (append_protocol fj before k c ds)])"
  using assms entry_value [OF assms(2,3)] by (simp add: well_chained_def del: py_value.simps)

lemma tip_plain_written: "plain_sha sha \<Longrightarrow> well_chained sha es \<Longrightarrow> plain_text (tip GENESIS_HASH es)"
  using tip_plain plain_zeros by (simp add: well_chained_def)

lemma file_text_others [simp]: "file_text (others g st) = g (file_text st)" "lv_locked (others g st) = lv_locked st"
  "lv_index (others g st) = lv_index st" "lv_tenant (others g st) = lv_tenant st" "lv_cache (others g st) = lv_cache st"
  by (simp_all add: others_def file_text_def)

lemma ensure_keeps [simp]: "lv_locked (ensure_file st) = lv_locked st" "lv_index (ensure_file st) = lv_index st"
  "lv_tenant (ensure_file st) = lv_tenant st" "lv_cache (ensure_file st) = lv_cache st"
  by (simp_all add: ensure_file_def)

lemma attempt_written:
  fixes sha :: "string \<Rightarrow> string" and fj :: "rat \<Rightarrow> json" and ty before :: string and payload :: obj and k c :: nat and ds :: "rat list"
  assumes "plain_sha sha" "well_chained sha es" "file_text st = journal_text es" "\<not> lv_locked st" "plain_text before"
  defines "e \<equiv> lineage_entry sha ty payload (tip GENESIS_HASH es) (append_protocol fj before k c ds)"
  shows "append_with_precondition sha fj ty payload before k c ds st =
    (if before = tip GENESIS_HASH es
     then (Inr (committed_outcome sha ty payload (tip GENESIS_HASH es) (append_protocol fj before k c ds)),
       (ensure_file st)\<lparr>lv_file := Some (journal_text (es @ [e])), lv_cache := Some (text_at e ''hash''),
         lv_verified := Some (text_at e ''hash'')\<rparr>)
     else (Inr (conflict_outcome fj before (tip GENESIS_HASH es) k c ds), ensure_file st))"
  using scan_tail_written [OF assms(1-3)] tip_plain_written [OF assms(1,2)] assms(3-5)
  by (simp add: append_with_precondition_def e_def Let_def)

text \<open>Other processes extend the chain.\<close>

definition peers_ok :: "(string \<Rightarrow> string) \<Rightarrow> (nat \<Rightarrow> string \<Rightarrow> string) \<Rightarrow> bool" where
  "peers_ok sha peers \<longleftrightarrow>
     (\<forall>i es. well_chained sha es \<longrightarrow> (\<exists>fs. well_chained sha (es @ fs) \<and> peers i (journal_text es) = journal_text (es @ fs)))"

lemma peers_extend:
  assumes "peers_ok sha peers" "well_chained sha es"
  obtains fs where "well_chained sha (es @ fs)" "peers i (journal_text es) = journal_text (es @ fs)"
  using assms by (auto simp: peers_ok_def)

text \<open>How a row got there: after what the others wrote, it is the one this process made.\<close>

definition committed_as ::
  "(string \<Rightarrow> string) \<Rightarrow> (rat \<Rightarrow> json) \<Rightarrow> string \<Rightarrow> obj \<Rightarrow> obj \<Rightarrow> obj list \<Rightarrow> obj list \<Rightarrow> bool" where
  "committed_as sha fj ty payload out es fs \<longleftrightarrow>
     (\<exists>gs k c ds. let p = tip GENESIS_HASH (es @ gs); protocol = append_protocol fj p k c ds
        in fs = gs @ [lineage_entry sha ty payload p protocol] \<and> out = committed_outcome sha ty payload p protocol)"

lemma committed_later:
  assumes "committed_as sha fj ty payload out (es @ fs) gs"
  shows "committed_as sha fj ty payload out es (fs @ gs)"
proof -
  from assms obtain hs k c ds where
    "gs = hs @ [lineage_entry sha ty payload (tip GENESIS_HASH (es @ fs @ hs)) (append_protocol fj (tip GENESIS_HASH (es @ fs @ hs)) k c ds)]"
    "out = committed_outcome sha ty payload (tip GENESIS_HASH (es @ fs @ hs)) (append_protocol fj (tip GENESIS_HASH (es @ fs @ hs)) k c ds)"
    by (auto simp: committed_as_def Let_def)
  then show ?thesis unfolding committed_as_def Let_def
    by (intro exI [of _ "fs @ hs"] exI [of _ k] exI [of _ c] exI [of _ ds]) simp
qed

definition appended ::
  "(string \<Rightarrow> string) \<Rightarrow> (rat \<Rightarrow> json) \<Rightarrow> string \<Rightarrow> obj \<Rightarrow> obj list \<Rightarrow> lineage_ledger \<Rightarrow> obj lineage_op \<Rightarrow> bool" where
  "appended sha fj ty payload es st r \<longleftrightarrow>
     (\<exists>out st' fs. r = (Inr out, st') \<and> well_chained sha (es @ fs) \<and> lv_file st' = Some (journal_text (es @ fs)) \<and>
        lv_locked st' = lv_locked st \<and> lv_index st' = lv_index st \<and> lv_tenant st' = lv_tenant st \<and>
        (is_conflict out \<or> committed_as sha fj ty payload out es fs))"

lemma tries_written:
  assumes sha: "plain_sha sha" and env: "peers_ok sha peers" and payload: "py_value (JObj payload)" and fj: "float_json fj"
  shows "well_chained sha es \<Longrightarrow> file_text st = journal_text es \<Longrightarrow> \<not> lv_locked st \<Longrightarrow>
    appended sha fj ty payload es st (append_tries sha fj peers mx ty payload k c ds st)"
proof (induction "mx - k" arbitrary: k c ds st es rule: less_induct)
  case less
  obtain fs where fs: "well_chained sha (es @ fs)" "peers (2 * k) (journal_text es) = journal_text (es @ fs)"
    using peers_extend [OF env less.prems(1)] .
  let ?st1 = "others (peers (2 * k)) st"
  have scan: "scan_tail sha ?st1 = (Inr (tip GENESIS_HASH (es @ fs)), ensure_file ?st1)"
    using scan_tail_written [OF sha fs(1), of ?st1] fs(2) less.prems(2) by simp
  obtain gs where gs: "well_chained sha (es @ fs @ gs)" "peers (2 * k + 1) (journal_text (es @ fs)) = journal_text (es @ fs @ gs)"
    using peers_extend [OF env fs(1), of "2 * k + 1"] by auto
  let ?st2 = "others (peers (2 * k + 1)) (ensure_file ?st1)" and ?before = "tip GENESIS_HASH (es @ fs)"
  let ?tip = "tip GENESIS_HASH (es @ fs @ gs)"
  have at: "file_text ?st2 = journal_text (es @ fs @ gs)" using gs(2) fs(2) less.prems(2) by simp
  have locked: "\<not> lv_locked ?st2" using less.prems(3) by simp
  note attempt = attempt_written [OF sha gs(1) at locked tip_plain_written [OF sha fs(1)], of fj ty payload k c ds]
  show ?case
  proof (cases "?before = ?tip")
    case True
    let ?e = "lineage_entry sha ty payload ?tip (append_protocol fj ?tip k c ds)"
    have run: "append_tries sha fj peers mx ty payload k c ds st =
      (Inr (committed_outcome sha ty payload ?tip (append_protocol fj ?tip k c ds)),
       (ensure_file ?st2)\<lparr>lv_file := Some (journal_text ((es @ fs @ gs) @ [?e])), lv_cache := Some (text_at ?e ''hash''),
         lv_verified := Some (text_at ?e ''hash'')\<rparr>)"
      by (subst append_tries.simps) (simp only: scan ethen_simps True attempt [unfolded True] if_True refl outcome_status not_False_eq_True simp_thms)
    have "committed_as sha fj ty payload (committed_outcome sha ty payload ?tip (append_protocol fj ?tip k c ds)) es ((fs @ gs) @ [?e])"
      unfolding committed_as_def Let_def by (intro exI [of _ "fs @ gs"] exI [of _ k] exI [of _ c] exI [of _ ds]) simp
    then show ?thesis unfolding appended_def run
      using written_more [OF gs(1) payload fj, of ty ?tip k c ds]
      by (intro exI conjI) (rule refl, simp_all)
  next
    case False
    let ?out = "conflict_outcome fj ?before ?tip k c ds"
    show ?thesis
    proof (cases "mx \<le> k")
      case True
      have run: "append_tries sha fj peers mx ty payload k c ds st = (Inr ?out, ensure_file ?st2)"
        by (subst append_tries.simps) (simp only: scan ethen_simps attempt False if_False True simp_thms if_True)
      show ?thesis unfolding appended_def run
        by (rule exI [of _ ?out], rule exI [of _ "ensure_file ?st2"], rule exI [of _ "fs @ gs"])
          (use gs(1) at in \<open>simp add: ensure_file_def\<close>)
    next
      case more: False
      let ?ds = "ds @ [canonical_backoff c]"
      have run: "append_tries sha fj peers mx ty payload k c ds st =
          append_tries sha fj peers mx ty payload (k + 1) (c + 1) ?ds (ensure_file ?st2)"
        by (subst append_tries.simps) (simp only: scan ethen_simps attempt False if_False more outcome_status simp_thms)
      have "appended sha fj ty payload (es @ fs @ gs) (ensure_file ?st2)
          (append_tries sha fj peers mx ty payload (k + 1) (c + 1) ?ds (ensure_file ?st2))"
        by (rule less.hyps) (use more gs(1) at locked in simp_all)
      then obtain out st' hs where r: "append_tries sha fj peers mx ty payload (k + 1) (c + 1) ?ds (ensure_file ?st2) = (Inr out, st')"
        "well_chained sha (es @ (fs @ gs) @ hs)" "lv_file st' = Some (journal_text (es @ (fs @ gs) @ hs))"
        "lv_locked st' = lv_locked st" "lv_index st' = lv_index st" "lv_tenant st' = lv_tenant st"
        "is_conflict out \<or> committed_as sha fj ty payload out (es @ fs @ gs) hs"
        unfolding appended_def by auto
      have "is_conflict out \<or> committed_as sha fj ty payload out es ((fs @ gs) @ hs)"
        using r(7) committed_later [of sha fj ty payload out es "fs @ gs" hs] by blast
      with r show ?thesis unfolding appended_def run by blast
    qed
  qed
qed

section \<open>What an append does not look at\<close>

lemma line_start_finds:
  assumes "stop \<le> length f" "CHR 0x0A \<in> set (take stop f)" "length (after_newline (take stop f)) < 16384"
  shows "s \<le> stop \<Longrightarrow> CHR 0x0A \<notin> set (take (stop - s) (drop s f)) \<Longrightarrow> line_start f stop s \<noteq> None"
proof (induction s rule: less_induct)
  case (less s)
  let ?rest = "take (stop - s) (drop s f)"
  have whole: "take stop f = take s f @ ?rest" using take_add [of s "stop - s" f] less.prems(1) by simp
  have "after_newline (take stop f) = after_newline (take s f) @ ?rest"
    unfolding whole using less.prems(2) by (simp add: after_newline_append)
  then have "stop - s < 16384" using assms(1,3) less.prems(1) by simp
  moreover have "0 < s"
  proof (rule ccontr)
    assume "\<not> 0 < s"
    then show False using whole assms(2) less.prems(2) by simp
  qed
  ultimately have step: "line_start f stop s =
    (let s' = s - min s 1024 in case rfind_newline (take (s - s') (drop s' f)) of
       Some i \<Rightarrow> Some (s' + i + 1) | None \<Rightarrow> line_start f stop s')"
    by (subst line_start.simps) (rule if_P, simp)
  define s' where "s' = s - min s 1024"
  have s': "s' < s" using \<open>0 < s\<close> by (simp add: s'_def)
  have "take (stop - s') (drop s' f) = take (s - s') (drop s' f) @ ?rest"
  proof -
    have "take (stop - s') (drop s' f) = take (s - s' + (stop - s)) (drop s' f)" using s' less.prems(1) by simp
    also have "\<dots> = take (s - s') (drop s' f) @ take (stop - s) (drop (s - s') (drop s' f))" by (rule take_add)
    finally show ?thesis using s' by simp
  qed
  then have "line_start f stop s' \<noteq> None" if "rfind_newline (take (s - s') (drop s' f)) = None"
    using less.IH [OF s'] that s' less.prems by (auto simp: rfind_newline_def split: if_splits)
  then show ?case unfolding step s'_def [symmetric] Let_def by (auto split: option.split)
qed

lemma scan_tail_last_row:
  assumes "plain_sha sha" "lv_file st = Some (g @ [CHR 0x0A] @ json_line (JObj e))" "py_value (JObj e)"
    and "text_at e ''hash'' = hash_line sha (text_at e ''prev_hash'') (unhashed e)" "length (row_bytes e) < 16384"
  shows "scan_tail sha st = (Inr (text_at e ''hash''), st)"
proof -
  let ?g = "utf8_encode (g @ [CHR 0x0A])"
  let ?f = "utf8_encode (file_text st)"
  have st: "ensure_file st = st" using assms(2) by (cases st) (simp add: ensure_file_def file_text_def)
  have "file_text st = (g @ [CHR 0x0A]) @ json_line (JObj e)" using assms(2) by (simp add: file_text_def)
  then have f: "?f = ?g @ row_bytes e @ [CHR 0x0A]" by (simp only: encode_append json_line_bytes append_assoc)
  have g: "last ?g = CHR 0x0A" "CHR 0x0A \<in> set ?g" by (simp_all add: encode_ascii)
  let ?stop = "length (strip_eol ?f)"
  have stop: "?stop = length ?g + length (row_bytes e)" "take ?stop ?f = ?g @ row_bytes e" "?stop \<le> length ?f"
    unfolding f strip_rows by simp_all
  have row: "after_newline (take ?stop ?f) = row_bytes e" unfolding stop(2) by (rule after_last_row) (use g in simp)
  have "CHR 0x0A \<in> set (take ?stop ?f)" unfolding stop(2) set_append using g(2) by blast
  then have "line_start ?f ?stop ?stop \<noteq> None"
    by (rule line_start_finds [OF stop(3)]) (use row assms(5) in simp_all)
  then obtain b where b: "line_start ?f ?stop ?stop = Some b" by blast
  from line_start_found [OF stop(3) le_refl _ b] have bs: "0 < b" "b \<le> ?stop"
    "take b ?f @ after_newline (take ?stop ?f) = take ?stop ?f" by simp_all
  have "drop b (take ?stop ?f) = row_bytes e" using bs(2,3) stop(3) unfolding row
    by (metis append_eq_conv_conj length_take min.absorb2 order_trans)
  then have "take (?stop - b) (drop b ?f) = row_bytes e" by (simp add: drop_take)
  then have "tail_entry sha b (py_strip (utf8_ignore (take (?stop - b) (drop b ?f)))) = Some (Inr (text_at e ''hash''))"
    using tail_row [OF assms(1,3) _ bs(1), of "text_at e ''prev_hash''"] assms(4) by simp
  moreover have "?stop \<noteq> 0" using stop(1) by simp
  ultimately show ?thesis using b by (simp add: scan_tail_def Let_def st)
qed

lemma split_on_end:
  "brk (CHR 0x0A) \<Longrightarrow> g \<noteq> [] \<Longrightarrow> last g = CHR 0x0A \<Longrightarrow> split_on brk (g @ t) = split_on brk g @ split_on brk t"
proof (induction brk g rule: split_on.induct)
  case (2 brk c cs)
  show ?case
  proof (cases "brk c")
    case True
    show ?thesis
    proof (cases "after_break c cs")
      case Nil
      then have "cs = [] \<or> c = CHR 0x0D \<and> cs = [CHR 0x0A]" by (cases cs) (auto simp: after_break_def split: if_splits)
      then show ?thesis using True 2(5) by (auto simp: after_break_def)
    next
      case (Cons d ds)
      then have "after_break c (cs @ t) = after_break c cs @ t" "last (after_break c cs) = CHR 0x0A"
        using 2(5) by (cases cs; auto simp: after_break_def split: if_splits)+
      then show ?thesis using 2(1) [OF True 2(3)] Cons True by simp
    qed
  next
    case False
    then have "cs \<noteq> []" using 2(3,5) by auto
    then have "split_on brk (cs @ t) = split_on brk cs @ split_on brk t" using 2(2) [OF False 2(3)] 2(5) by simp
    moreover have "split_on brk cs \<noteq> []" using \<open>cs \<noteq> []\<close> by (cases cs) (simp_all split: list.split)
    ultimately show ?thesis using False by (auto split: list.split)
  qed
qed simp

lemma verify_lines_fail:
  "verify_lines sha None n p ls = Inl x \<Longrightarrow> verify_lines sha None n p (ls @ ms) = Inl x"
  by (induction sha "None :: int option" n p ls rule: verify_lines.induct) (auto split: if_splits option.splits json.splits)

lemma verify_fails_on_prefix:
  assumes "lv_file st = Some (g @ [CHR 0x0A])" "fst (lineage_verify_integrity sha hook None st) = Inl x"
    and "lv_file st' = Some (g @ CHR 0x0A # t)"
  shows "fst (lineage_verify_integrity sha hook None st') = Inl x"
proof -
  have at: "file_text st = g @ [CHR 0x0A]" "file_text st' = g @ CHR 0x0A # t" using assms(1,3) by (simp_all add: file_text_def)
  have "verify_lines sha None 1 GENESIS_HASH (split_on newline (g @ [CHR 0x0A])) = Inl x"
    using assms(2) by (auto simp: lineage_verify_integrity_def Let_def at split: sum.splits lineage_error.splits)
  moreover have "split_on newline ((g @ [CHR 0x0A]) @ t) = split_on newline (g @ [CHR 0x0A]) @ split_on newline t"
    by (rule split_on_end) (simp_all add: newline_def)
  ultimately have "verify_lines sha None 1 GENESIS_HASH (split_on newline (g @ CHR 0x0A # t)) = Inl x"
    using verify_lines_fail by simp
  then show ?thesis by (cases x) (simp_all add: lineage_verify_integrity_def Let_def at)
qed

lemma append_tries_first:
  assumes "scan_tail sha st = (Inr h, st)" "plain_text h" "\<not> lv_locked st" "lv_file st = Some t"
  shows "append_tries sha fj alone mx ty payload 1 0 [] st =
    (let e = lineage_entry sha ty payload h (append_protocol fj h 1 0 [])
     in (Inr (committed_outcome sha ty payload h (append_protocol fj h 1 0 [])),
         st\<lparr>lv_file := Some (t @ json_line (JObj e)), lv_cache := Some (text_at e ''hash''), lv_verified := Some (text_at e ''hash'')\<rparr>))"
proof -
  have st: "others (\<lambda>t. t) st = st" using assms(4) by (cases st) (simp add: others_def file_text_def)
  show ?thesis
    by (subst append_tries.simps)
      (use assms in \<open>simp add: st append_with_precondition_def Let_def file_text_def\<close>)
qed

lemma append_event_result:
  "\<exists>st'. lineage_append_event sha fj peers mx ty payload st = (fst (append_tries sha fj peers (nat (max 1 mx)) ty payload 1 0 [] st), st') \<and>
     lv_file st' = lv_file (snd (append_tries sha fj peers (nat (max 1 mx)) ty payload 1 0 [] st)) \<and>
     lv_locked st' = lv_locked (snd (append_tries sha fj peers (nat (max 1 mx)) ty payload 1 0 [] st)) \<and>
     lv_tenant st' = lv_tenant (snd (append_tries sha fj peers (nat (max 1 mx)) ty payload 1 0 [] st))"
  by (cases "append_tries sha fj peers (nat (max 1 mx)) ty payload 1 0 [] st"; cases "fst (append_tries sha fj peers (nat (max 1 mx)) ty payload 1 0 [] st)")
    (simp_all add: lineage_append_event_def update_epoch_digest_def)

lemma written_verifies:
  assumes "plain_sha sha" "well_chained sha es" "file_text st = journal_text es"
  shows "lineage_verify_integrity sha hook None st =
    (Inr (), (ensure_file st)\<lparr>lv_cache := Some (tip GENESIS_HASH es), lv_verified := Some (tip GENESIS_HASH es)\<rparr>)"
  using verify_rows [OF assms(1) plain_zeros(1)] assms(2,3)
  by (simp add: lineage_verify_integrity_def Let_def journal_lines well_chained_def)

lemma append_alone:
  assumes "plain_sha sha" "well_chained sha es" "file_text st = journal_text es" "\<not> lv_locked st"
  shows "append_tries sha fj alone mx ty payload 1 0 [] st =
    (let p = tip GENESIS_HASH es; e = lineage_entry sha ty payload p (append_protocol fj p 1 0 [])
     in (Inr (committed_outcome sha ty payload p (append_protocol fj p 1 0 [])),
         st\<lparr>lv_file := Some (journal_text (es @ [e])), lv_cache := Some (text_at e ''hash''), lv_verified := Some (text_at e ''hash'')\<rparr>))"
proof -
  have eq: "append_tries sha fj alone mx ty payload 1 0 [] st = append_tries sha fj alone mx ty payload 1 0 [] (ensure_file st)"
  proof -
    have "others (alone i) st = others (alone i) (ensure_file st)" for i
      by (cases st) (simp add: others_def ensure_file_def file_text_def)
    then show ?thesis by (subst (1 2) append_tries.simps) simp
  qed
  have "scan_tail sha (ensure_file st) = (Inr (tip GENESIS_HASH es), ensure_file st)"
    using scan_tail_written [OF assms(1,2), of "ensure_file st"] assms(3) by simp
  moreover have "plain_text (tip GENESIS_HASH es)" using tip_plain_written [OF assms(1,2)] .
  moreover have "lv_file (ensure_file st) = Some (journal_text es)" using assms(3) by (simp add: ensure_file_def)
  ultimately show ?thesis
    unfolding eq using append_tries_first [of sha "ensure_file st" "tip GENESIS_HASH es" "journal_text es" fj mx ty payload] assms(4)
    by (simp add: Let_def ensure_file_def)
qed

section \<open>A ledger, and a peer that writes first\<close>

definition demo_fj :: "rat \<Rightarrow> json" where
  "demo_fj q = JStr ''float''"

definition demo_lineage :: lineage_ledger where
  "demo_lineage = \<lparr>lv_file = None, lv_locked = False, lv_cache = None, lv_verified = None, lv_index = [], lv_tenant = []\<rparr>"

definition peer_row :: obj where
  "peer_row = lineage_entry (\<lambda>s. ''h'') ''Note'' [] GENESIS_HASH (append_protocol demo_fj GENESIS_HASH 1 0 [])"

definition demo_peers :: "nat \<Rightarrow> string \<Rightarrow> string" where
  "demo_peers i t = (if i = 3 \<and> t = [] then json_line (JObj peer_row) else t)"

lemma demo_sha [simp]: "plain_sha (\<lambda>s. ''h'')"
  by (simp add: plain_sha_def plain_text_def)

lemma demo_fj_value [simp]: "float_json demo_fj"
  by (simp add: float_json_def demo_fj_def)

lemma written_none: "well_chained sha []"
  by (simp add: well_chained_def)

lemma peer_row_written: "well_chained (\<lambda>s. ''h'') [peer_row]"
  using written_more [OF written_none _ demo_fj_value, of "[]"] by (simp add: peer_row_def)

lemma journal_text_empty: "journal_text es = [] \<longleftrightarrow> es = []"
  by (cases es) (simp_all add: json_line_def)

lemma demo_peers_ok: "peers_ok (\<lambda>s. ''h'') demo_peers"
  unfolding peers_ok_def
proof (intro allI impI)
  fix i es
  assume es: "well_chained (\<lambda>s. ''h'') es"
  show "\<exists>fs. well_chained (\<lambda>s. ''h'') (es @ fs) \<and> demo_peers i (journal_text es) = journal_text (es @ fs)"
  proof (cases "i = 3 \<and> es = []")
    case True
    then show ?thesis using peer_row_written by (intro exI [of _ "[peer_row]"]) (simp add: demo_peers_def)
  next
    case False
    then show ?thesis using es by (intro exI [of _ "[]"]) (auto simp: demo_peers_def journal_text_empty)
  qed
qed

lemma demo_lineage_start: "file_text demo_lineage = journal_text []" "\<not> lv_locked demo_lineage"
  by (simp_all add: demo_lineage_def file_text_def)

section \<open>Properties\<close>

text \<open>
  C16 (equivalence): reading the tail backwards is verifying the file. On every ledger the class has written, the
  reader that looks at the last bytes finds the hash that verification of all rows comes to, in blocks or
  through its fallback, and neither changes the file.\<close>

theorem lineage_tail_is_verified:
  assumes "plain_sha sha" "well_chained sha es" "file_text st = journal_text es"
  shows "\<exists>h. scan_tail sha st = (Inr h, ensure_file st) \<and>
    lineage_verify_integrity sha hook None st = (Inr (), (ensure_file st)\<lparr>lv_cache := Some h, lv_verified := Some h\<rparr>)"
  using scan_tail_written [OF assms] written_verifies [OF assms] by blast

theorem lineage_tail_is_verified_witness:
  "fst (scan_tail (\<lambda>s. ''h'') (demo_lineage\<lparr>lv_file := Some (journal_text [peer_row])\<rparr>)) = Inr ''h'' \<and>
   (\<exists>h. fst (scan_tail (\<lambda>s. ''h'') (demo_lineage\<lparr>lv_file := Some (journal_text [peer_row])\<rparr>)) = Inr h \<and>
     fst (lineage_verify_integrity (\<lambda>s. ''h'') no_hook None (demo_lineage\<lparr>lv_file := Some (journal_text [peer_row])\<rparr>)) = Inr ())"
proof -
  let ?st = "demo_lineage\<lparr>lv_file := Some (journal_text [peer_row])\<rparr>"
  have t: "file_text ?st = journal_text [peer_row]" by (simp add: file_text_def)
  have "fst (scan_tail (\<lambda>s. ''h'') ?st) = Inr ''h''"
    using scan_tail_written [OF demo_sha peer_row_written t] by (simp add: peer_row_def hash_line_def)
  moreover from lineage_tail_is_verified [OF demo_sha peer_row_written t, of no_hook]
  have "\<exists>h. fst (scan_tail (\<lambda>s. ''h'') ?st) = Inr h \<and> fst (lineage_verify_integrity (\<lambda>s. ''h'') no_hook None ?st) = Inr ()" by auto
  ultimately show ?thesis by blast
qed

text \<open>
  C17 (invariant): appends keep the chain under contention. Whatever chained rows other processes write while an
  append reads the tail and waits for the lock, in any number of attempts, it raises nothing, the file stays
  a chain that verifies, and either the outcome says conflict or the last row is this event's, linked to
  the row before it.\<close>

theorem lineage_append_keeps_chain:
  assumes "plain_sha sha" "peers_ok sha peers" "py_value (JObj payload)" "float_json fj"
    and "well_chained sha es" "file_text st = journal_text es" "\<not> lv_locked st"
  shows "\<exists>out st' fs. lineage_append_event sha fj peers mx ty payload st = (Inr out, st') \<and> well_chained sha (es @ fs) \<and>
    file_text st' = journal_text (es @ fs) \<and> fst (lineage_verify_integrity sha hook None st') = Inr () \<and>
    (is_conflict out \<or> committed_as sha fj ty payload out es fs)"
proof -
  from tries_written [where mx = "nat (max 1 mx)" and ty = ty and k = 1 and c = 0 and ds = "[]", OF assms] obtain out st1 fs where r:
    "append_tries sha fj peers (nat (max 1 mx)) ty payload 1 0 [] st = (Inr out, st1)" "well_chained sha (es @ fs)"
    "lv_file st1 = Some (journal_text (es @ fs))" "is_conflict out \<or> committed_as sha fj ty payload out es fs"
    unfolding appended_def by blast
  from append_event_result [of sha fj peers mx ty payload st] r(1,3) obtain st' where
    "lineage_append_event sha fj peers mx ty payload st = (Inr out, st')" "file_text st' = journal_text (es @ fs)"
    by (auto simp: file_text_def)
  moreover from written_verifies [OF assms(1) r(2) this(2)] have "fst (lineage_verify_integrity sha hook None st') = Inr ()" by simp
  ultimately show ?thesis using r(2,4) by blast
qed

theorem lineage_append_keeps_chain_witness:
  "\<exists>out st' fs. lineage_append_event (\<lambda>s. ''h'') demo_fj demo_peers 4 ''Note'' [(''n'', JInt 1)] demo_lineage = (Inr out, st') \<and>
     file_text st' = journal_text fs \<and> fst (lineage_verify_integrity (\<lambda>s. ''h'') no_hook None st') = Inr ()"
proof -
  have "py_value (JObj [(''n'', JInt 1)])" by simp
  from lineage_append_keeps_chain [OF demo_sha demo_peers_ok this demo_fj_value written_none demo_lineage_start, of 4 "''Note''" no_hook]
  show ?thesis by auto
qed

text \<open>
  Alone, an append succeeds at once. Without other processes it adds exactly one row, of the first
  attempt, linked to the verified tail, and the row is the outcome without its two unwritten fields.\<close>

theorem lineage_append_alone_commits:
  assumes "plain_sha sha" "well_chained sha es" "file_text st = journal_text es" "\<not> lv_locked st"
  shows "\<exists>out st' e. lineage_append_event sha fj alone mx ty payload st = (Inr out, st') \<and> \<not> is_conflict out \<and>
    e = lineage_entry sha ty payload (tip GENESIS_HASH es) (append_protocol fj (tip GENESIS_HASH es) 1 0 []) \<and>
    file_text st' = journal_text (es @ [e]) \<and> dget out ''hash'' = dget e ''hash'' \<and> dget out ''payload'' = Some (JObj payload)"
proof -
  let ?p = "tip GENESIS_HASH es"
  let ?out = "committed_outcome sha ty payload ?p (append_protocol fj ?p 1 0 [])"
  let ?e = "lineage_entry sha ty payload ?p (append_protocol fj ?p 1 0 [])"
  from append_event_result [of sha fj alone mx ty payload st] append_alone [OF assms, of fj "nat (max 1 mx)" ty payload]
  obtain st' where "lineage_append_event sha fj alone mx ty payload st = (Inr ?out, st')" "file_text st' = journal_text (es @ [?e])"
    by (auto simp: file_text_def Let_def)
  moreover have "\<not> is_conflict ?out" by simp
  moreover have "dget ?out ''hash'' = dget ?e ''hash''" "dget ?out ''payload'' = Some (JObj payload)"
    by (simp_all add: committed_outcome_def lineage_entry_def entry_body_def Let_def)
  ultimately show ?thesis by blast
qed

theorem lineage_append_alone_commits_witness:
  "\<exists>out st'. lineage_append_event (\<lambda>s. ''h'') demo_fj alone 0 ''Note'' [(''n'', JInt 1)] demo_lineage = (Inr out, st') \<and> \<not> is_conflict out"
  using lineage_append_alone_commits [OF demo_sha written_none demo_lineage_start] by blast

text \<open>
  An append looks at the last row only. Behind any text at all, a last row below sixteen kilobytes whose
  own hash is right is extended; when verification of the text rejects it, it still rejects it afterwards.\<close>

theorem lineage_append_trusts_last_row:
  assumes "plain_sha sha" "lv_file st = Some (g @ [CHR 0x0A] @ json_line (JObj e))" "\<not> lv_locked st" "py_value (JObj e)"
    and "text_at e ''hash'' = hash_line sha (text_at e ''prev_hash'') (unhashed e)" "length (row_bytes e) < 16384"
  shows "\<exists>out st'. lineage_append_event sha fj alone mx ty payload st = (Inr out, st') \<and> \<not> is_conflict out \<and>
    (\<forall>x. fst (lineage_verify_integrity sha hook None (st\<lparr>lv_file := Some (g @ [CHR 0x0A])\<rparr>)) = Inl x \<longrightarrow>
       fst (lineage_verify_integrity sha hook None st') = Inl x)"
proof -
  let ?h = "text_at e ''hash''"
  have "plain_text ?h" using assms(1,5) by simp
  from append_tries_first [OF scan_tail_last_row [OF assms(1,2,4,5,6)] this assms(3,2), of fj "nat (max 1 mx)" ty payload]
    append_event_result [of sha fj alone mx ty payload st]
  obtain st' t where r: "lineage_append_event sha fj alone mx ty payload st =
      (Inr (committed_outcome sha ty payload ?h (append_protocol fj ?h 1 0 [])), st')"
    "lv_file st' = Some (g @ CHR 0x0A # t)"
    by (auto simp: Let_def)
  have "fst (lineage_verify_integrity sha hook None (st\<lparr>lv_file := Some (g @ [CHR 0x0A])\<rparr>)) = Inl x \<longrightarrow>
      fst (lineage_verify_integrity sha hook None st') = Inl x" for x
    using verify_fails_on_prefix [OF _ _ r(2), of "st\<lparr>lv_file := Some (g @ [CHR 0x0A])\<rparr>"] by simp
  with r(1) show ?thesis by auto
qed

theorem lineage_append_trusts_last_row_witness:
  "\<exists>out st'. lineage_append_event (\<lambda>s. ''h'') demo_fj alone 4 ''Note'' []
       (demo_lineage\<lparr>lv_file := Some (''x'' @ [CHR 0x0A] @ json_line (JObj peer_row))\<rparr>) = (Inr out, st') \<and> \<not> is_conflict out \<and>
     fst (lineage_verify_integrity (\<lambda>s. ''h'') no_hook None st') = Inl (LineageIntegrity (AtLine (InvalidJson 1)))"
proof -
  let ?st = "demo_lineage\<lparr>lv_file := Some (''x'' @ [CHR 0x0A] @ json_line (JObj peer_row))\<rparr>"
  have row: "py_value (JObj peer_row)" "text_at peer_row ''hash'' = hash_line (\<lambda>s. ''h'') (text_at peer_row ''prev_hash'') (unhashed peer_row)"
    using peer_row_written by (simp_all add: well_chained_def peer_row_def del: py_value.simps)
  have short: "length (row_bytes peer_row) < 16384" by code_simp
  have locked: "\<not> lv_locked ?st" by (simp add: demo_lineage_def)
  have bad: "fst (lineage_verify_integrity (\<lambda>s. ''h'') no_hook None (?st\<lparr>lv_file := Some (''x'' @ [CHR 0x0A])\<rparr>)) =
      Inl (LineageIntegrity (AtLine (InvalidJson 1)))" by code_simp
  have "lv_file ?st = Some (''x'' @ [CHR 0x0A] @ json_line (JObj peer_row))" by simp
  from lineage_append_trusts_last_row [OF demo_sha this locked row short, of demo_fj 4 "''Note''" "[]" no_hook] bad
  show ?thesis by blast
qed

text \<open>
  A process that dies while it holds the file lock stops the ledger. With the lock file left
  behind every later append, of any process and after any number of attempts, raises the lock timeout and
  writes nothing.\<close>

theorem lineage_stale_lock_blocks:
  assumes "plain_sha sha" "peers_ok sha peers" "well_chained sha es" "file_text st = journal_text es" "lv_locked st"
  shows "\<exists>st'. lineage_append_event sha fj peers mx ty payload st = (Inl LineageLockTimeout, st') \<and> lv_locked st' \<and>
    file_text st' = peers 3 (peers 2 (journal_text es))"
proof -
  obtain fs where fs: "well_chained sha (es @ fs)" "peers 2 (journal_text es) = journal_text (es @ fs)"
    using peers_extend [OF assms(2,3)] .
  then have "scan_tail sha (others (peers 2) st) = (Inr (tip GENESIS_HASH (es @ fs)), ensure_file (others (peers 2) st))"
    using scan_tail_written [OF assms(1) fs(1), of "others (peers 2) st"] assms(4) by simp
  then have "append_tries sha fj peers (nat (max 1 mx)) ty payload 1 0 [] st =
      (Inl LineageLockTimeout, others (peers 3) (ensure_file (others (peers 2) st)))"
    by (subst append_tries.simps) (simp add: append_with_precondition_def assms(5) numeral_2_eq_2 numeral_3_eq_3)
  with append_event_result [of sha fj peers mx ty payload st] assms(4,5) show ?thesis
    by (auto simp: file_text_def others_def ensure_file_def)
qed

theorem lineage_stale_lock_blocks_witness:
  "\<exists>st'. lineage_append_event (\<lambda>s. ''h'') demo_fj demo_peers 4 ''Note'' [] (demo_lineage\<lparr>lv_locked := True\<rparr>) = (Inl LineageLockTimeout, st')"
proof -
  have st: "file_text (demo_lineage\<lparr>lv_locked := True\<rparr>) = journal_text []" "lv_locked (demo_lineage\<lparr>lv_locked := True\<rparr>)"
    by (simp_all add: demo_lineage_def file_text_def)
  from lineage_stale_lock_blocks [OF demo_sha demo_peers_ok written_none st, of demo_fj 4 "''Note''" "[]"] show ?thesis by blast
qed

end
