(* ===== verification/LineageEpochs.thy ===== *)
theory LineageEpochs
  imports LineageV2
begin

text \<open>
  \<open>runtime/evolution/lineage_v2.py\<close>, on top of \<open>LineageV2\<close>: the typed events, the readers, the digests of an epoch's
  bundles, and the resolution of the chain of an agent's mutations. A value that is no dictionary where the
  code makes one of it, a list of pairs included, is read as a type error. The entropy charge of a read is left out.
\<close>

section \<open>Typed events\<close>

record federation_origin =
  fo_repo :: string
  fo_epoch :: string
  fo_mutation :: string
  fo_chain_digest :: string
  fo_gate :: string

definition origin_dict :: "federation_origin \<Rightarrow> obj" where
  "origin_dict o' =
     [(''federation_gate_id'', JStr (fo_gate o')), (''source_chain_digest'', JStr (fo_chain_digest o')),
      (''source_epoch_id'', JStr (fo_epoch o')), (''source_mutation_id'', JStr (fo_mutation o')), (''source_repo'', JStr (fo_repo o'))]"

definition str_item :: "obj \<Rightarrow> string \<Rightarrow> string res" where
  "str_item d k = (case dget d k of None \<Rightarrow> Inl (KeyError k) | Some v \<Rightarrow> Inr (py_str v))"

definition origin_of_dict :: "obj \<Rightarrow> federation_origin res" where
  "origin_of_dict d =
     ebind (str_item d ''source_repo'') (\<lambda>r.
     ebind (str_item d ''source_epoch_id'') (\<lambda>e.
     ebind (str_item d ''source_mutation_id'') (\<lambda>m.
     ebind (str_item d ''source_chain_digest'') (\<lambda>c.
       Inr \<lparr>fo_repo = r, fo_epoch = e, fo_mutation = m, fo_chain_digest = c,
         fo_gate = py_str (dget_or d ''federation_gate_id'' (JStr []))\<rparr>))))"

record bundle_event =
  be_epoch :: string
  be_bundle :: string
  be_impact :: rat
  be_certificate :: obj
  be_strategies :: "string list"
  be_bundle_digest :: string
  be_epoch_digest :: string
  be_origin :: "federation_origin option"

definition is_federated :: "bundle_event \<Rightarrow> bool" where
  "is_federated b \<longleftrightarrow> be_origin b \<noteq> None"

definition certificate_dict :: "bundle_event \<Rightarrow> obj" where
  "certificate_dict b =
     (case be_origin b of None \<Rightarrow> be_certificate b
      | Some o' \<Rightarrow> dput ''federation_origin'' (JObj (origin_dict o')) (be_certificate b))"

definition bundle_payload :: "(rat \<Rightarrow> json) \<Rightarrow> bundle_event \<Rightarrow> obj" where
  "bundle_payload fj b =
     [(''epoch_id'', JStr (be_epoch b)), (''bundle_id'', JStr (be_bundle b)), (''impact'', fj (be_impact b)),
      (''certificate'', JObj (certificate_dict b)), (''strategy_set'', JList (map JStr (be_strategies b))),
      (''bundle_digest'', JStr (be_bundle_digest b)), (''epoch_digest'', JStr (be_epoch_digest b))]"

record competition_event =
  co_epoch :: string
  co_candidates :: "string list"
  co_ranked :: "string list"
  co_winner :: string
  co_fitness :: "(string, rat) dict"
  co_verdict :: string
  co_digest :: string
  co_phase :: int
  co_version :: string

definition competition_dict :: "(rat \<Rightarrow> json) \<Rightarrow> competition_event \<Rightarrow> obj" where
  "competition_dict fj c =
     [(''epoch_id'', JStr (co_epoch c)), (''candidate_ids'', JList (map JStr (co_candidates c))),
      (''ranked_ids'', JList (map JStr (co_ranked c))), (''winner_id'', JStr (co_winner c)),
      (''fitness_scores'', JObj (map (\<lambda>(k, q). (k, fj q)) (co_fitness c))), (''gate_verdict'', JStr (co_verdict c)),
      (''competition_digest'', JStr (co_digest c)), (''phase'', JInt (co_phase c)), (''version'', JStr (co_version c))]"

text \<open>The events of the module: type and payload, first epoch and time stamp and metadata, and the two above.\<close>

datatype typed_event =
    TLineage string obj
  | TEpochStart string string obj
  | TEpochEnd string string obj
  | TBundle bundle_event
  | TCompetition competition_event

fun event_class :: "typed_event \<Rightarrow> string" where
  "event_class (TLineage ty p) = ''LineageEvent''"
| "event_class (TEpochStart ep ts md) = ''EpochStartEvent''"
| "event_class (TEpochEnd ep ts md) = ''EpochEndEvent''"
| "event_class (TBundle b) = ''MutationBundleEvent''"
| "event_class (TCompetition c) = ''SeedCompetitionEpochEvent''"

fun lineage_event_payload :: "(rat \<Rightarrow> json) \<Rightarrow> typed_event \<Rightarrow> obj" where
  "lineage_event_payload fj (TLineage ty p) = [(''event_type'', JStr ty), (''payload'', JObj p)]"
| "lineage_event_payload fj (TEpochStart ep ts md) = [(''epoch_id'', JStr ep), (''ts'', JStr ts), (''metadata'', JObj md)]"
| "lineage_event_payload fj (TEpochEnd ep ts md) = [(''epoch_id'', JStr ep), (''ts'', JStr ts), (''metadata'', JObj md)]"
| "lineage_event_payload fj (TBundle b) = bundle_payload fj b"
| "lineage_event_payload fj (TCompetition c) = competition_dict fj c"

abbreviation default_attempts :: int where
  "default_attempts \<equiv> 4"

definition append_typed_event ::
  "(string \<Rightarrow> string) \<Rightarrow> (rat \<Rightarrow> json) \<Rightarrow> (nat \<Rightarrow> string \<Rightarrow> string) \<Rightarrow> typed_event \<Rightarrow> lineage_ledger \<Rightarrow> obj lineage_op" where
  "append_typed_event sha fj peers ev = lineage_append_event sha fj peers default_attempts (event_class ev) (lineage_event_payload fj ev)"

text \<open>\<open>LineageLedgerV2.append\<close> takes type and payload from a \<open>LineageEvent\<close>.\<close>

definition append_lineage_event ::
  "(string \<Rightarrow> string) \<Rightarrow> (rat \<Rightarrow> json) \<Rightarrow> (nat \<Rightarrow> string \<Rightarrow> string) \<Rightarrow> string \<Rightarrow> obj \<Rightarrow> lineage_ledger \<Rightarrow> obj lineage_op" where
  "append_lineage_event sha fj peers ty payload = lineage_append_event sha fj peers default_attempts ty payload"

definition append_competition_epoch ::
  "(string \<Rightarrow> string) \<Rightarrow> (rat \<Rightarrow> json) \<Rightarrow> (nat \<Rightarrow> string \<Rightarrow> string) \<Rightarrow> competition_event \<Rightarrow> lineage_ledger \<Rightarrow> obj lineage_op" where
  "append_competition_epoch sha fj peers c =
     lineage_append_event sha fj peers default_attempts ''SeedCompetitionEpochEvent'' (competition_dict fj c)"

section \<open>Readers\<close>

definition lift_py :: "'a res \<Rightarrow> lineage_error + 'a" where
  "lift_py r = (case r of Inl e \<Rightarrow> Inl (LineagePython e) | Inr x \<Rightarrow> Inr x)"

fun unverified_rows :: "obj \<Rightarrow> string list \<Rightarrow> lineage_error + obj list" where
  "unverified_rows ctx [] = Inr []"
| "unverified_rows ctx (l # ls) =
     (if py_strip l = [] then unverified_rows ctx ls
      else case json_loads l of
        None \<Rightarrow> Inl (LineagePython JSONDecodeError)
      | Some (JObj e) \<Rightarrow>
          ebind (if ctx = [] then Inr True else lift_py (payload_in_tenant_scope (JObj e) ctx)) (\<lambda>mine.
          ebind (unverified_rows ctx ls) (\<lambda>es. Inr (if mine then e # es else es)))
      | Some v \<Rightarrow> unverified_rows ctx ls)"

definition read_unverified :: "lineage_ledger \<Rightarrow> obj list lineage_op" where
  "read_unverified st =
     (unverified_rows (lv_tenant st) (split_on line_break (file_text (ensure_file st))), ensure_file st)"

definition read_all :: "(string \<Rightarrow> string) \<Rightarrow> lineage_ledger \<Rightarrow> obj list lineage_op" where
  "read_all sha st = ethen (lineage_verify_integrity sha no_hook None st) (\<lambda>u st'. read_unverified st')"

text \<open>\<open>entry.get("payload", {}).get(k)\<close>\<close>

definition payload_get :: "obj \<Rightarrow> string \<Rightarrow> lineage_error + json" where
  "payload_get e k = ebind (lift_py (as_obj (dget_or e ''payload'' (JObj [])))) (\<lambda>p. Inr (dget_or p k JNull))"

fun epoch_rows :: "string \<Rightarrow> obj list \<Rightarrow> lineage_error + obj list" where
  "epoch_rows epoch [] = Inr []"
| "epoch_rows epoch (e # es) =
     ebind (payload_get e ''epoch_id'') (\<lambda>v.
     ebind (epoch_rows epoch es) (\<lambda>rs. Inr (if v = JStr epoch then e # rs else rs)))"

definition read_epoch :: "(string \<Rightarrow> string) \<Rightarrow> string \<Rightarrow> lineage_ledger \<Rightarrow> obj list lineage_op" where
  "read_epoch sha epoch st = ethen (read_all sha st) (\<lambda>es st'. (epoch_rows epoch es, st'))"

definition list_epoch_ids :: "(string \<Rightarrow> string) \<Rightarrow> lineage_ledger \<Rightarrow> string list lineage_op" where
  "list_epoch_ids sha st =
     ethen (read_all sha st) (\<lambda>es st'.
       (ebind (emap (\<lambda>e. payload_get e ''epoch_id'') es) (\<lambda>vs.
          Inr (foldl (\<lambda>seen v. case v of JStr s \<Rightarrow> if s \<noteq> [] \<and> s \<notin> set seen then seen @ [s] else seen | _ \<Rightarrow> seen) [] vs)),
        st'))"

section \<open>Digests of an epoch\<close>

definition py_or :: "json \<Rightarrow> json \<Rightarrow> json" where
  "py_or a b = (if truthy a then a else b)"

definition bundle_canonical :: "obj \<Rightarrow> obj \<Rightarrow> obj" where
  "bundle_canonical b cert =
     [(''epoch_id'', dget_or b ''epoch_id'' JNull),
      (''bundle_id'', py_or (dget_or b ''bundle_id'' JNull) (dget_or cert ''bundle_id'' JNull)),
      (''impact'', py_or (dget_or b ''impact'' JNull) (dget_or b ''impact_score'' JNull)),
      (''strategy_set'', py_or (py_or (dget_or b ''strategy_set'' JNull) (dget_or cert ''strategy_set'' JNull)) (JList [])),
      (''strategy_snapshot_hash'', dget_or cert ''strategy_snapshot_hash'' (JStr [])),
      (''strategy_version_set'', dget_or cert ''strategy_version_set'' (JList [])),
      (''certificate'', py_or (dget_or b ''certificate'' JNull) (JObj []))]"

definition compute_bundle_digest :: "(string \<Rightarrow> string) \<Rightarrow> obj \<Rightarrow> lineage_error + string" where
  "compute_bundle_digest sha b =
     ebind (lift_py (as_obj (dget_or b ''certificate'' (JObj [])))) (\<lambda>cert.
       Inr (''sha256:'' @ sha (json_text (norm (JObj (bundle_canonical b cert))))))"

definition chain_digest :: "(string \<Rightarrow> string) \<Rightarrow> string \<Rightarrow> string \<Rightarrow> string" where
  "chain_digest sha previous d = ''sha256:'' @ sha (previous @ d)"

text \<open>The last digest that a bundle or a checkpoint among the rows of the epoch records.\<close>

definition recorded_in :: "obj \<Rightarrow> string option" where
  "recorded_in e =
     (let d = dget_or (payload_dict e) ''epoch_digest'' JNull
      in if dget e ''type'' \<in> {Some (JStr ''MutationBundleEvent''), Some (JStr ''EpochCheckpointEvent'')} \<and> truthy d
         then Some (py_str d) else None)"

definition recorded_digest :: "obj list \<Rightarrow> string option" where
  "recorded_digest es = foldl (\<lambda>acc e. case recorded_in e of None \<Rightarrow> acc | Some d \<Rightarrow> Some d) None es"

definition get_epoch_digest :: "(string \<Rightarrow> string) \<Rightarrow> string \<Rightarrow> lineage_ledger \<Rightarrow> string option lineage_op" where
  "get_epoch_digest sha epoch st =
     (case dget (lv_index st) epoch of
        Some d \<Rightarrow> (Inr (Some d), st)
      | None \<Rightarrow>
          ethen (read_epoch sha epoch st) (\<lambda>es st'.
            (Inr (recorded_digest es),
             case recorded_digest es of Some (c # cs) \<Rightarrow> update_epoch_digest epoch (c # cs) st' | _ \<Rightarrow> st')))"

definition digest_or_zero :: "string option \<Rightarrow> string" where
  "digest_or_zero d = (case d of Some (c # cs) \<Rightarrow> c # cs | _ \<Rightarrow> ''sha256:0'')"

definition bundle_row :: "string \<Rightarrow> string \<Rightarrow> string \<Rightarrow> obj \<Rightarrow> obj" where
  "bundle_row epoch bd ed b =
     dput ''epoch_digest'' (JStr ed) (dput ''bundle_digest'' (JStr bd) (dput ''epoch_id'' (JStr epoch) b))"

definition append_bundle_with_digest ::
  "(string \<Rightarrow> string) \<Rightarrow> (rat \<Rightarrow> json) \<Rightarrow> (nat \<Rightarrow> string \<Rightarrow> string) \<Rightarrow> string \<Rightarrow> obj \<Rightarrow> lineage_ledger \<Rightarrow> string lineage_op" where
  "append_bundle_with_digest sha fj peers epoch b st =
     ethen (get_epoch_digest sha epoch st) (\<lambda>previous st1.
     ethen (compute_bundle_digest sha b, st1) (\<lambda>bd st1.
       let ed = chain_digest sha (digest_or_zero previous) bd
       in ethen (lineage_append_event sha fj peers default_attempts ''MutationBundleEvent'' (bundle_row epoch bd ed b) st1) (\<lambda>out st2.
            (Inr ed, update_epoch_digest epoch ed st2))))"

fun incremental :: "(string \<Rightarrow> string) \<Rightarrow> string \<Rightarrow> string \<Rightarrow> obj list \<Rightarrow> lineage_error + string" where
  "incremental sha epoch d [] = Inr d"
| "incremental sha epoch d (e # es) =
     ebind (payload_get e ''epoch_id'') (\<lambda>v.
       if v \<noteq> JStr epoch \<or> dget e ''type'' \<noteq> Some (JStr ''MutationBundleEvent'') then incremental sha epoch d es
       else ebind (compute_bundle_digest sha (payload_dict e)) (\<lambda>bd. incremental sha epoch (chain_digest sha d bd) es))"

definition incremental_unverified :: "(string \<Rightarrow> string) \<Rightarrow> string \<Rightarrow> lineage_ledger \<Rightarrow> string lineage_op" where
  "incremental_unverified sha epoch st =
     ethen (read_unverified st) (\<lambda>es st'. (incremental sha epoch ''sha256:0'' es, st'))"

definition compute_incremental_epoch_digest :: "(string \<Rightarrow> string) \<Rightarrow> string \<Rightarrow> lineage_ledger \<Rightarrow> string lineage_op" where
  "compute_incremental_epoch_digest sha epoch st =
     ethen (lineage_verify_integrity sha no_hook None st) (\<lambda>u st'. incremental_unverified sha epoch st')"

definition compute_epoch_digest :: "(string \<Rightarrow> string) \<Rightarrow> string \<Rightarrow> lineage_ledger \<Rightarrow> string lineage_op" where
  "compute_epoch_digest sha epoch st =
     ethen (read_epoch sha epoch st) (\<lambda>es st'.
       (Inr (sha (json_text (norm (JList (map (\<lambda>e. JObj [(''type'', dget_or e ''type'' JNull),
          (''payload'', JObj (payload_dict e))]) es))))), st'))"

section \<open>The chain of an agent\<close>

text \<open>\<open>dict(v or {})\<close>, and the first of some values that is true, or the empty text.\<close>

definition dict_or_empty :: "json \<Rightarrow> obj res" where
  "dict_or_empty v = (if \<not> truthy v then Inr [] else case v of JObj d \<Rightarrow> Inr d | _ \<Rightarrow> Inl TypeError)"

fun first_true :: "json list \<Rightarrow> json" where
  "first_true [] = JStr []"
| "first_true (v # vs) = (if truthy v then v else first_true vs)"

definition entry_parts :: "obj \<Rightarrow> (obj \<times> obj) res" where
  "entry_parts e =
     ebind (dict_or_empty (dget_or e ''payload'' JNull)) (\<lambda>p.
     ebind (dict_or_empty (dget_or p ''certificate'' JNull)) (\<lambda>c. Inr (p, c)))"

definition agent_id_of :: "obj \<Rightarrow> string res" where
  "agent_id_of e =
     ebind (entry_parts e) (\<lambda>(p, c). Inr (py_str (first_true [dget_or p ''agent_id'' JNull, dget_or c ''agent_id'' JNull])))"

definition mutation_id_of :: "obj \<Rightarrow> string res" where
  "mutation_id_of e =
     ebind (entry_parts e) (\<lambda>(p, c).
       Inr (py_str (first_true [dget_or p ''mutation_id'' JNull, dget_or p ''bundle_id'' JNull,
         dget_or c ''mutation_id'' JNull, dget_or c ''bundle_id'' JNull])))"

definition parent_id_of :: "obj \<Rightarrow> string res" where
  "parent_id_of e =
     ebind (entry_parts e) (\<lambda>(p, c).
     ebind (dict_or_empty (dget_or p ''lineage'' JNull)) (\<lambda>l.
       Inr (py_str (first_true [dget_or p ''parent_mutation_id'' JNull, dget_or p ''parent_bundle_id'' JNull,
         dget_or c ''parent_mutation_id'' JNull, dget_or c ''parent_bundle_id'' JNull, dget_or l ''parent_mutation_id'' JNull]))))"

text \<open>The hash over the compact text of the row.\<close>

definition hash_entry :: "(string \<Rightarrow> string) \<Rightarrow> string \<Rightarrow> obj \<Rightarrow> string" where
  "hash_entry sha prev payload = sha (prev @ canonical False (JObj payload))"

fun resolve_rows :: "(string \<Rightarrow> string) \<Rightarrow> string \<Rightarrow> string list \<Rightarrow> lineage_error + obj list" where
  "resolve_rows sha prev [] = Inr []"
| "resolve_rows sha prev (l # ls) =
     (if py_strip l = [] then resolve_rows sha prev ls
      else case json_loads (py_strip l) of
        Some (JObj e) \<Rightarrow>
          (if text_at e ''prev_hash'' \<noteq> prev \<or> text_at e ''hash'' \<noteq> hash_entry sha prev (unhashed e)
           then Inl (LineageResolution ''lineage_hash_mismatch'')
           else ebind (resolve_rows sha (hash_entry sha prev (unhashed e)) ls) (\<lambda>es. Inr (e # es)))
      | _ \<Rightarrow> Inl (LineageResolution ''lineage_entry_malformed''))"

text \<open>
  The walk from an entry to its ancestors, the links newest first. \<open>n\<close> bounds its length; one more than
  the mutations in the table is enough.\<close>

fun walk_chain :: "nat \<Rightarrow> (string, obj) dict \<Rightarrow> string list \<Rightarrow> obj \<Rightarrow> (lineage_error + string list) option" where
  "walk_chain 0 table visited cursor = None"
| "walk_chain (Suc n) table visited cursor =
     (case mutation_id_of cursor of
        Inl x \<Rightarrow> Some (Inl (LineagePython x))
      | Inr m \<Rightarrow>
          if m \<in> set visited then Some (Inl (LineageResolution ''lineage_cycle_detected''))
          else if text_at cursor ''hash'' = [] then Some (Inl (LineageResolution ''lineage_entry_malformed''))
          else case parent_id_of cursor of
            Inl x \<Rightarrow> Some (Inl (LineagePython x))
          | Inr p \<Rightarrow>
              (case (if p = [] then None else dget table p) of
                 None \<Rightarrow> Some (Inr [text_at cursor ''hash''])
               | Some e \<Rightarrow>
                   map_option (\<lambda>r. ebind r (\<lambda>ls. Inr (text_at cursor ''hash'' # ls)))
                     (walk_chain n table (if m = [] then visited else m # visited) e)))"

definition mutation_table :: "(string \<times> obj) list \<Rightarrow> (string, obj) dict" where
  "mutation_table ids = foldl (\<lambda>t (m, e). if m = [] then t else dput m e t) [] ids"

definition chain_tail :: "string \<Rightarrow> (string \<times> string \<times> obj) list \<Rightarrow> obj option" where
  "chain_tail agent rows =
     map_option (\<lambda>(m, a, e). e) (find (\<lambda>(m, a, e). m \<noteq> [] \<and> (agent = [] \<or> a = agent)) (rev rows))"

definition resolve_chain :: "(string \<Rightarrow> string) \<Rightarrow> string \<Rightarrow> string option \<Rightarrow> (lineage_error + string list option) option" where
  "resolve_chain sha agent_id f =
     (case f of
        None \<Rightarrow> Some (Inr None)
      | Some t \<Rightarrow>
          (case resolve_rows sha GENESIS_HASH (split_on line_break t) of
             Inl x \<Rightarrow> Some (Inl x)
           | Inr [] \<Rightarrow> Some (Inr None)
           | Inr (e0 # es) \<Rightarrow>
               (case (emap mutation_id_of (e0 # es), emap agent_id_of (e0 # es)) of
                  (Inr ms, Inr ags) \<Rightarrow>
                    (let table = mutation_table (zip ms (e0 # es))
                     in case chain_tail (py_strip agent_id) (zip ms (zip ags (e0 # es))) of
                          None \<Rightarrow> Some (Inr None)
                        | Some e \<Rightarrow>
                            map_option (\<lambda>r. ebind r (\<lambda>ls.
                              Inr (Some (if dget e0 ''hash'' = Some (JStr (last ls)) then rev ls
                                         else text_at e0 ''hash'' # rev ls))))
                              (walk_chain (Suc (length table)) table [] e))
                | (Inl x, _) \<Rightarrow> Some (Inl (LineagePython x))
                | (_, Inl x) \<Rightarrow> Some (Inl (LineagePython x)))))"

definition dict_if :: "json \<Rightarrow> obj" where
  "dict_if v = (case v of JObj d \<Rightarrow> d | _ \<Rightarrow> [])"

record ancestor_path =
  ap_mutation :: string
  ap_parent :: string
  ap_ancestors :: "string list"
  ap_signature :: string

definition resolve_certified_ancestor_path :: "obj \<Rightarrow> ancestor_path res" where
  "resolve_certified_ancestor_path e =
     ebind (dict_or_empty (dget_or e ''payload'' JNull)) (\<lambda>p.
       let c = dict_if (dget_or p ''certificate'' JNull); l = dict_if (dget_or p ''lineage'' JNull)
       in Inr \<lparr>ap_mutation = py_str (first_true [dget_or p ''mutation_id'' JNull, dget_or p ''bundle_id'' JNull,
                  dget_or c ''mutation_id'' JNull, dget_or c ''bundle_id'' JNull]),
               ap_parent = py_str (first_true [dget_or p ''parent_mutation_id'' JNull, dget_or p ''parent_bundle_id'' JNull,
                  dget_or c ''parent_mutation_id'' JNull, dget_or c ''parent_bundle_id'' JNull, dget_or l ''parent_mutation_id'' JNull]),
               ap_ancestors =
                 (case first_true [dget_or p ''ancestor_chain'' JNull, dget_or p ''ancestor_mutation_ids'' JNull,
                    dget_or c ''ancestor_chain'' JNull, dget_or c ''ancestor_mutation_ids'' JNull, dget_or l ''ancestor_chain'' JNull] of
                    JList xs \<Rightarrow> filter (\<lambda>s. s \<noteq> []) (map py_str xs) | _ \<Rightarrow> []),
               ap_signature = py_str (first_true [dget_or c ''signature'' JNull])\<rparr>)"

section \<open>Texts without a line separator\<close>

text \<open>A printed value has the one separator that is printed as it is, U+0085, exactly when a key or a text in it has.\<close>

abbreviation NEL :: char where
  "NEL \<equiv> CHR 0x85"

definition no_nel :: "json \<Rightarrow> bool" where
  "no_nel v \<longleftrightarrow> NEL \<notin> set (json_text v)"

lemma quote_nel: "NEL \<in> set (quote False s) \<longleftrightarrow> NEL \<in> set s"
proof -
  have "NEL \<in> set (esc False c) \<longleftrightarrow> c = NEL" for c
  proof -
    have hex: "hexdig n \<noteq> NEL" if "n < 16" for n
    proof
      assume "hexdig n = NEL"
      then have "(of_char (hexdig n) :: nat) = of_char NEL" by (rule arg_cong)
      moreover have "(of_char (hexdig n) :: nat) < 128" using that by (auto simp: hexdig_def Let_def)
      ultimately show False by simp
    qed
    have d: "NEL \<noteq> hexdig (of_char c div 16)" "NEL \<noteq> hexdig (of_char c mod 16)"
      using hex [of "of_char c div 16"] hex [of "of_char c mod 16"] by (simp_all add: less_mult_imp_div_less eq_commute [of NEL])
    show ?thesis
    proof (cases "esc False c = [c]")
      case True
      then show ?thesis by auto
    next
      case False
      then have "c \<noteq> NEL" by (auto simp: esc_def)
      moreover have "NEL \<notin> set (esc False c)" using False d unfolding esc_def by (simp split: if_splits)
      ultimately show ?thesis by simp
    qed
  qed
  then show ?thesis by (auto simp: quote_def)
qed

lemma join_nel: "NEL \<notin> set s \<Longrightarrow> NEL \<in> set (join s xs) \<longleftrightarrow> (\<exists>x \<in> set xs. NEL \<in> set x)"
  by (cases xs) (auto simp: join_def)

lemma int_nel: "NEL \<notin> set (int_str i)"
proof
  assume nel: "NEL \<in> set (int_str i)"
  have digits: "\<forall>c \<in> set (nat_str n). is_digit c" for n using nat_str_digits [of n] by (simp add: list_all_iff)
  have "\<not> is_digit NEL" by (simp add: is_digit_def)
  then show False using nel digits by (auto simp: int_str_def split: if_splits)
qed

lemma no_nel_list: "no_nel (JList xs) \<longleftrightarrow> (\<forall>x \<in> set xs. no_nel x)"
proof -
  have "NEL \<in> set (json_text (JList xs)) \<longleftrightarrow> (\<exists>x \<in> set xs. NEL \<in> set (json_text x))"
    using join_nel [of "'', ''" "map json_text xs"] unfolding json_text_def by simp
  then show ?thesis by (simp add: no_nel_def)
qed

lemma no_nel_obj: "no_nel (JObj kvs) \<longleftrightarrow> (\<forall>p \<in> set kvs. NEL \<notin> set (fst p) \<and> no_nel (snd p))"
proof -
  have "NEL \<in> set (render_member '' '' False p) \<longleftrightarrow> NEL \<in> set (fst p) \<or> NEL \<in> set (json_text (snd p))" for p
    by (simp add: render_member_def quote_nel json_text_def)
  then have "NEL \<in> set (json_text (JObj kvs)) \<longleftrightarrow> (\<exists>p \<in> set kvs. NEL \<in> set (fst p) \<or> NEL \<in> set (json_text (snd p)))"
    using join_nel [of "'', ''" "map (render_member '' '' False) kvs"] unfolding json_text_def render_JObj by simp
  then show ?thesis by (auto simp: no_nel_def)
qed

lemma no_nel_atoms [simp]: "no_nel JNull" "no_nel (JBool b)" "no_nel (JInt i)" "no_nel (JStr s) \<longleftrightarrow> NEL \<notin> set s"
proof -
  show "no_nel (JInt i)" "no_nel (JStr s) \<longleftrightarrow> NEL \<notin> set s"
    using int_nel [of i] by (simp_all only: no_nel_def json_text_def render.simps quote_nel not_False_eq_True)
qed (simp_all add: no_nel_def json_text_def)

declare no_nel_list [simp] no_nel_obj [simp]

lemma dput_entries: "p \<in> set (dput k v d) \<Longrightarrow> p = (k, v) \<or> p \<in> set d"
  by (induction d) (auto split: if_splits)

lemma no_nel_dput: "no_nel (JObj d) \<Longrightarrow> NEL \<notin> set k \<Longrightarrow> no_nel v \<Longrightarrow> no_nel (JObj (dput k v d))"
  using dput_entries [of _ k v d] unfolding no_nel_obj by fastforce

lemma plain_no_nel: "plain_text s \<Longrightarrow> NEL \<notin> set s"
  by (auto simp: plain_text_def list_all_iff)

section \<open>Reading a written ledger\<close>

definition class_row :: "obj \<Rightarrow> bool" where
  "class_row e \<longleftrightarrow> no_nel (JObj e) \<and> (\<exists>p. dget e ''payload'' = Some (JObj p))"

lemma written_rows_read:
  "list_all (\<lambda>e. py_value (JObj e)) es \<Longrightarrow> unverified_rows [] (map (\<lambda>e. json_text (JObj e)) es) = Inr es"
proof (induction es)
  case (Cons e es)
  then have "json_loads (json_text (JObj e)) = Some (JObj e)" by (intro loads_json_text) simp
  with Cons show ?case by simp
qed simp

lemma read_written:
  assumes "plain_sha sha" "well_chained sha es" "file_text st = journal_text es" "list_all class_row es" "lv_tenant st = []"
  shows "read_all sha st = (Inr es, (ensure_file st)\<lparr>lv_cache := Some (tip GENESIS_HASH es), lv_verified := Some (tip GENESIS_HASH es)\<rparr>)"
proof -
  have "\<forall>e \<in> set es. CHR 0x85 \<notin> set (json_text (JObj e))"
    using assms(4) by (auto simp: list_all_iff class_row_def no_nel_def simp del: no_nel_obj)
  from break_lines [OF this] written_rows_read [of es] assms(2)
  have "unverified_rows [] (split_on line_break (journal_text es)) = Inr es" by (simp add: well_chained_def)
  moreover have "file_text ((ensure_file st)\<lparr>lv_cache := c, lv_verified := d\<rparr>) = journal_text es" for c d
    using assms(3) by (simp add: file_text_def ensure_file_def)
  ultimately show ?thesis
    using written_verifies [OF assms(1-3), of no_hook] assms(5) by (simp add: read_all_def read_unverified_def ensure_file_def file_text_def)
qed

definition in_epoch :: "string \<Rightarrow> obj \<Rightarrow> bool" where
  "in_epoch epoch e \<longleftrightarrow> dget (payload_dict e) ''epoch_id'' = Some (JStr epoch)"

lemma payload_of_row: "class_row e \<Longrightarrow> payload_get e k = Inr (dget_or (payload_dict e) k JNull)"
  by (auto simp: class_row_def payload_get_def payload_dict_def dget_or_def lift_py_def)

lemma dget_or_null: "dget_or d k JNull = JStr s \<longleftrightarrow> dget d k = Some (JStr s)"
  by (auto simp: dget_or_def split: option.splits)

lemma epoch_rows_filter: "list_all class_row es \<Longrightarrow> epoch_rows epoch es = Inr (filter (in_epoch epoch) es)"
  by (induction es) (simp_all add: payload_of_row in_epoch_def dget_or_null)

lemma recorded_append: "recorded_digest (es @ [e]) = (case recorded_in e of None \<Rightarrow> recorded_digest es | Some d \<Rightarrow> Some d)"
  by (simp add: recorded_digest_def split: option.split)

lemma incremental_append:
  "incremental sha epoch d (es @ fs) = ebind (incremental sha epoch d es) (\<lambda>d'. incremental sha epoch d' fs)"
proof (induction es arbitrary: d)
  case (Cons e es)
  show ?case
  proof (cases "payload_get e ''epoch_id''")
    case (Inr v)
    then show ?thesis by (cases "compute_bundle_digest sha (payload_dict e)") (simp_all add: Cons)
  qed simp
qed simp

section \<open>Bundles and other events, one after the other\<close>

text \<open>What one instance after the other does to a ledger: record a bundle of an epoch, append another event, or start anew.\<close>

datatype ledger_op = OpBundle string obj | OpEvent string obj | OpRestart

fun run_ops :: "(string \<Rightarrow> string) \<Rightarrow> (rat \<Rightarrow> json) \<Rightarrow> ledger_op list \<Rightarrow> lineage_ledger \<Rightarrow> lineage_error + lineage_ledger" where
  "run_ops sha fj [] st = Inr st"
| "run_ops sha fj (OpBundle epoch b # ops) st =
     (case append_bundle_with_digest sha fj alone epoch b st of (Inl x, st') \<Rightarrow> Inl x | (Inr d, st') \<Rightarrow> run_ops sha fj ops st')"
| "run_ops sha fj (OpEvent ty p # ops) st =
     (case lineage_append_event sha fj alone default_attempts ty p st of (Inl x, st') \<Rightarrow> Inl x | (Inr out, st') \<Rightarrow> run_ops sha fj ops st')"
| "run_ops sha fj (OpRestart # ops) st = run_ops sha fj ops (st\<lparr>lv_cache := None, lv_verified := None, lv_index := []\<rparr>)"

text \<open>A bundle names its epoch and has a dictionary for certificate; other events are neither bundles nor checkpoints.\<close>

fun op_ok :: "ledger_op \<Rightarrow> bool" where
  "op_ok (OpBundle epoch b) =
     (py_value (JObj b) \<and> no_nel (JObj b) \<and> dget b ''epoch_id'' = Some (JStr epoch) \<and>
      (case dget_or b ''certificate'' (JObj []) of JObj c \<Rightarrow> True | _ \<Rightarrow> False))"
| "op_ok (OpEvent ty p) =
     (py_value (JObj p) \<and> no_nel (JObj p) \<and> NEL \<notin> set ty \<and> ty \<noteq> ''MutationBundleEvent'' \<and> ty \<noteq> ''EpochCheckpointEvent'')"
| "op_ok OpRestart = True"

abbreviation row_alone :: "(string \<Rightarrow> string) \<Rightarrow> (rat \<Rightarrow> json) \<Rightarrow> string \<Rightarrow> obj \<Rightarrow> obj list \<Rightarrow> obj" where
  "row_alone sha fj ty payload es \<equiv>
     lineage_entry sha ty payload (tip GENESIS_HASH es) (append_protocol fj (tip GENESIS_HASH es) 1 0 [])"

lemma append_event_alone:
  assumes "plain_sha sha" "well_chained sha es" "file_text st = journal_text es" "\<not> lv_locked st"
  shows "\<exists>out st'. lineage_append_event sha fj alone mx ty payload st = (Inr out, st') \<and>
    file_text st' = journal_text (es @ [row_alone sha fj ty payload es]) \<and> \<not> lv_locked st' \<and> lv_tenant st' = lv_tenant st \<and>
    lv_index st' = (if ty = ''MutationBundleEvent'' \<and> text_at payload ''epoch_id'' \<noteq> [] \<and> text_at payload ''epoch_digest'' \<noteq> []
      then dput (text_at payload ''epoch_id'') (text_at payload ''epoch_digest'') (lv_index st) else lv_index st)"
  using append_alone [OF assms, of fj "nat (max 1 mx)" ty payload] assms(4)
  by (simp add: lineage_append_event_def Let_def update_epoch_digest_def file_text_def)

lemma row_fields [simp]:
  "payload_dict (lineage_entry sha ty payload q pr) = payload"
  "dget (lineage_entry sha ty payload q pr) ''type'' = Some (JStr ty)"
  "dget (lineage_entry sha ty payload q pr) ''payload'' = Some (JObj payload)"
  by (simp_all add: payload_dict_def lineage_entry_def entry_body_def)

lemma row_alone_written:
  assumes "plain_sha sha" "well_chained sha es" "py_value (JObj payload)" "no_nel (JObj payload)" "NEL \<notin> set ty"
  shows "well_chained sha (es @ [row_alone sha fj ty payload es])" "class_row (row_alone sha fj ty payload es)"
proof -
  have p: "append_protocol fj b k c [] = append_protocol demo_fj b k c []" for b k c by (simp add: append_protocol_def)
  show "well_chained sha (es @ [row_alone sha fj ty payload es])"
    unfolding p using written_more [OF assms(2,3) demo_fj_value] .
  have "NEL \<notin> set (tip GENESIS_HASH es)" using plain_no_nel tip_plain_written [OF assms(1,2)] by blast
  moreover have "NEL \<notin> set (hash_line sha q b)" for q b using plain_no_nel assms(1) by (simp add: plain_no_nel)
  ultimately have "no_nel (JObj (row_alone sha fj ty payload es))"
    using assms(4,5) by (simp add: lineage_entry_def entry_body_def append_protocol_def)
  then show "class_row (row_alone sha fj ty payload es)" unfolding class_row_def using row_fields(3) by blast
qed

definition epoch_digest :: "string \<Rightarrow> obj list \<Rightarrow> string option" where
  "epoch_digest epoch es = recorded_digest (filter (in_epoch epoch) es)"

definition epochs_inv :: "(string \<Rightarrow> string) \<Rightarrow> obj list \<Rightarrow> lineage_ledger \<Rightarrow> bool" where
  "epochs_inv sha es st \<longleftrightarrow>
     well_chained sha es \<and> file_text st = journal_text es \<and> \<not> lv_locked st \<and> lv_tenant st = [] \<and> list_all class_row es \<and>
     (\<forall>epoch d. dget (lv_index st) epoch = Some d \<longrightarrow> epoch_digest epoch es = Some d) \<and>
     (\<forall>epoch. incremental sha epoch ''sha256:0'' es = Inr (digest_or_zero (epoch_digest epoch es)))"

lemma read_epoch_inv:
  assumes "plain_sha sha" "epochs_inv sha es st"
  shows "\<exists>st'. read_epoch sha epoch st = (Inr (filter (in_epoch epoch) es), st') \<and> epochs_inv sha es st'"
proof -
  from assms(2) have i: "well_chained sha es" "file_text st = journal_text es" "list_all class_row es" "lv_tenant st = []"
    by (simp_all add: epochs_inv_def)
  let ?st = "(ensure_file st)\<lparr>lv_cache := Some (tip GENESIS_HASH es), lv_verified := Some (tip GENESIS_HASH es)\<rparr>"
  have "read_epoch sha epoch st = (Inr (filter (in_epoch epoch) es), ?st)"
    using read_written [OF assms(1) i] epoch_rows_filter [OF i(3)] by (simp add: read_epoch_def)
  moreover have "file_text ?st = file_text st" by (simp add: file_text_def ensure_file_def)
  then have "epochs_inv sha es ?st" using assms(2) by (simp add: epochs_inv_def)
  ultimately show ?thesis by blast
qed

lemma get_epoch_digest_inv:
  assumes "plain_sha sha" "epochs_inv sha es st"
  shows "\<exists>st'. get_epoch_digest sha epoch st = (Inr (epoch_digest epoch es), st') \<and> epochs_inv sha es st'"
proof (cases "dget (lv_index st) epoch")
  case (Some d)
  then show ?thesis using assms(2) by (auto simp: get_epoch_digest_def epochs_inv_def)
next
  case None
  obtain st1 where st1: "read_epoch sha epoch st = (Inr (filter (in_epoch epoch) es), st1)" "epochs_inv sha es st1"
    using read_epoch_inv [OF assms] by blast
  have "epochs_inv sha es (update_epoch_digest epoch d st1)" if "epoch_digest epoch es = Some d" for d
    using st1(2) that by (simp add: epochs_inv_def update_epoch_digest_def file_text_def)
  then show ?thesis using None st1
    by (auto simp: get_epoch_digest_def epoch_digest_def split: option.split list.split)
qed

lemma event_inv:
  assumes "plain_sha sha" "epochs_inv sha es st" "op_ok (OpEvent ty p)"
  shows "\<exists>out st'. lineage_append_event sha fj alone default_attempts ty p st = (Inr out, st') \<and>
    epochs_inv sha (es @ [row_alone sha fj ty p es]) st' \<and>
    (\<forall>epoch. epoch_digest epoch (es @ [row_alone sha fj ty p es]) = epoch_digest epoch es)"
proof -
  define e where "e = row_alone sha fj ty p es"
  from assms(2) have i: "well_chained sha es" "file_text st = journal_text es" "\<not> lv_locked st" "list_all class_row es" "lv_tenant st = []"
    by (simp_all add: epochs_inv_def)
  from assms(3) have p: "py_value (JObj p)" "no_nel (JObj p)" "NEL \<notin> set ty" and ty: "ty \<noteq> ''MutationBundleEvent''" "ty \<noteq> ''EpochCheckpointEvent''"
    by simp_all
  note row = row_alone_written [OF assms(1) i(1) p, of fj, folded e_def]
  have "recorded_in e = None" using ty by (simp add: recorded_in_def Let_def e_def)
  then have dig: "epoch_digest epoch (es @ [e]) = epoch_digest epoch es" for epoch
    by (simp add: epoch_digest_def recorded_append)
  have inc: "incremental sha epoch d [e] = Inr d" for epoch d using ty payload_of_row [OF row(2)] by (simp add: e_def)
  from append_event_alone [OF assms(1) i(1,2,3), of fj default_attempts ty p, folded e_def] obtain out st' where r:
    "lineage_append_event sha fj alone default_attempts ty p st = (Inr out, st')" "file_text st' = journal_text (es @ [e])"
    "\<not> lv_locked st'" "lv_tenant st' = lv_tenant st" "lv_index st' = lv_index st"
    using ty by auto
  have "epochs_inv sha (es @ [e]) st'"
    using assms(2) row r(2-5) i(5) unfolding epochs_inv_def dig incremental_append by (simp add: inc del: incremental.simps)
  with r(1) dig show ?thesis unfolding e_def by blast
qed

lemma bundle_row_fields:
  assumes "k \<notin> {''epoch_id'', ''bundle_digest'', ''epoch_digest''}"
  shows "dget (bundle_row epoch bd ed b) k = dget b k"
  using assms by (simp add: bundle_row_def)

lemma bundle_digest_of_row:
  assumes "dget b ''epoch_id'' = Some (JStr epoch)"
  shows "compute_bundle_digest sha (bundle_row epoch bd ed b) = compute_bundle_digest sha b"
proof -
  have same: "dget_or (bundle_row epoch bd ed b) k v = dget_or b k v" if "k \<notin> {''bundle_digest'', ''epoch_digest''}" for k v
    using assms that by (simp add: bundle_row_def dget_or_def)
  show ?thesis unfolding compute_bundle_digest_def bundle_canonical_def by (simp only: same insert_iff empty_iff list.inject char.inject simp_thms refl)
qed

lemma bundle_inv:
  assumes "plain_sha sha" "epochs_inv sha es st" "op_ok (OpBundle epoch b)"
  shows "\<exists>d bd st' e. compute_bundle_digest sha b = Inr bd \<and> append_bundle_with_digest sha fj alone epoch b st = (Inr d, st') \<and>
    epochs_inv sha (es @ [e]) st' \<and> d = chain_digest sha (digest_or_zero (epoch_digest epoch es)) bd \<and>
    (\<forall>e'. epoch_digest e' (es @ [e]) = (if e' = epoch then Some d else epoch_digest e' es))"
proof -
  obtain st1 where st1: "get_epoch_digest sha epoch st = (Inr (epoch_digest epoch es), st1)" "epochs_inv sha es st1"
    using get_epoch_digest_inv [OF assms(1,2)] by blast
  then have i: "well_chained sha es" "file_text st1 = journal_text es" "\<not> lv_locked st1" "list_all class_row es" "lv_tenant st1 = []"
    by (simp_all add: epochs_inv_def)
  from assms(3) have b: "py_value (JObj b)" "no_nel (JObj b)" "dget b ''epoch_id'' = Some (JStr epoch)"
    and "case dget_or b ''certificate'' (JObj []) of JObj c \<Rightarrow> True | _ \<Rightarrow> False" by simp_all
  then obtain c where "dget_or b ''certificate'' (JObj []) = JObj c" by (auto split: json.splits)
  then obtain h where bd: "compute_bundle_digest sha b = Inr (''sha256:'' @ sha h)" by (simp add: compute_bundle_digest_def lift_py_def)
  define bd where "bd = ''sha256:'' @ sha h"
  define ed where "ed = chain_digest sha (digest_or_zero (epoch_digest epoch es)) bd"
  define p where "p = bundle_row epoch bd ed b"
  define e where "e = row_alone sha fj ''MutationBundleEvent'' p es"
  have plain: "NEL \<notin> set (sha x)" for x using assms(1) plain_no_nel by (simp add: plain_sha_def)
  have "NEL \<notin> set epoch" using b(2,3) map_of_SomeD by fastforce
  then have p_ok: "py_value (JObj p)" "no_nel (JObj p)" "NEL \<notin> set ''MutationBundleEvent''"
    using b(1,2) plain unfolding p_def bundle_row_def
    by (simp_all add: distinct_dput values_dput, intro no_nel_dput [unfolded no_nel_obj] |
        simp add: bd_def ed_def chain_digest_def)+
  note row = row_alone_written [OF assms(1) i(1) p_ok, of fj, folded e_def]
  have ed: "ed \<noteq> []" "digest_or_zero (Some ed) = ed" by (simp_all add: ed_def chain_digest_def digest_or_zero_def)
  have fields: "dget p ''epoch_id'' = Some (JStr epoch)" "dget p ''epoch_digest'' = Some (JStr ed)"
    by (simp_all add: p_def bundle_row_def)
  have own: "in_epoch e' e \<longleftrightarrow> e' = epoch" for e' using fields(1) by (auto simp: in_epoch_def e_def)
  have "recorded_in e = Some ed" using fields(2) ed(1) by (simp add: recorded_in_def Let_def dget_or_def e_def)
  then have dig: "epoch_digest e' (es @ [e]) = (if e' = epoch then Some ed else epoch_digest e' es)" for e'
    using own [of e'] by (simp add: epoch_digest_def recorded_append)
  have "compute_bundle_digest sha p = Inr bd" unfolding p_def bundle_digest_of_row [OF b(3)] by (simp add: bd bd_def)
  then have inc: "incremental sha e' d [e] = Inr (if e' = epoch then chain_digest sha d bd else d)" for e' d
    using payload_of_row [OF row(2)] own [of e'] by (simp add: in_epoch_def dget_or_null e_def)
  from append_event_alone [OF assms(1) i(1,2,3), of fj default_attempts "''MutationBundleEvent''" p, folded e_def] obtain out st2 where r:
    "lineage_append_event sha fj alone default_attempts ''MutationBundleEvent'' p st1 = (Inr out, st2)" "file_text st2 = journal_text (es @ [e])"
    "\<not> lv_locked st2" "lv_tenant st2 = lv_tenant st1" "lv_index st2 = lv_index st1 \<or> lv_index st2 = dput epoch ed (lv_index st1)"
    using fields by (auto simp: text_at_def get_or_truthy_def split: if_splits)
  have run: "append_bundle_with_digest sha fj alone epoch b st = (Inr ed, update_epoch_digest epoch ed st2)"
    using st1(1) bd r(1) by (simp add: append_bundle_with_digest_def bd_def ed_def p_def Let_def)
  have "epochs_inv sha (es @ [e]) (update_epoch_digest epoch ed st2)"
  proof -
    have "file_text (update_epoch_digest epoch ed st2) = file_text st2" by (simp add: update_epoch_digest_def file_text_def)
    moreover have "dget (lv_index (update_epoch_digest epoch ed st2)) e' = (if e' = epoch then Some ed else dget (lv_index st1) e')" for e'
      using r(5) by (auto simp: update_epoch_digest_def)
    moreover have "\<not> lv_locked (update_epoch_digest epoch ed st2)" "lv_tenant (update_epoch_digest epoch ed st2) = []"
      using r(3,4) i(5) by (simp_all add: update_epoch_digest_def)
    moreover have "incremental sha e' ''sha256:0'' (es @ [e]) = Inr (digest_or_zero (if e' = epoch then Some ed else epoch_digest e' es))" for e'
      using st1(2) ed(2) unfolding epochs_inv_def incremental_append by (simp add: inc ed_def del: incremental.simps)
    ultimately show ?thesis using st1(2) row r(2) unfolding epochs_inv_def dig by simp
  qed
  with run dig bd show ?thesis unfolding ed_def bd_def by blast
qed

text \<open>The digest the operations should leave for an epoch: the digests of its bundles, chained.\<close>

definition digest_of_bundle :: "(string \<Rightarrow> string) \<Rightarrow> obj \<Rightarrow> string" where
  "digest_of_bundle sha b = (case compute_bundle_digest sha b of Inl x \<Rightarrow> [] | Inr d \<Rightarrow> d)"

fun ops_digest :: "(string \<Rightarrow> string) \<Rightarrow> string \<Rightarrow> string \<Rightarrow> ledger_op list \<Rightarrow> string" where
  "ops_digest sha epoch d [] = d"
| "ops_digest sha epoch d (OpBundle ep b # ops) =
     ops_digest sha epoch (if ep = epoch then chain_digest sha d (digest_of_bundle sha b) else d) ops"
| "ops_digest sha epoch d (op # ops) = ops_digest sha epoch d ops"

lemma digest_or_zero_chain [simp]: "digest_or_zero (Some (chain_digest sha d bd)) = chain_digest sha d bd"
  by (simp add: digest_or_zero_def chain_digest_def)

lemma run_ops_inv:
  assumes "plain_sha sha"
  shows "list_all op_ok ops \<Longrightarrow> epochs_inv sha es st \<Longrightarrow>
    \<exists>st' fs. run_ops sha fj ops st = Inr st' \<and> epochs_inv sha (es @ fs) st' \<and>
      (\<forall>epoch. digest_or_zero (epoch_digest epoch (es @ fs)) = ops_digest sha epoch (digest_or_zero (epoch_digest epoch es)) ops)"
proof (induction ops arbitrary: es st)
  case Nil
  then show ?case by (intro exI [of _ st] exI [of _ "[]"]) simp
next
  case (Cons op ops)
  then have ok: "op_ok op" "list_all op_ok ops" by simp_all
  show ?case
  proof (cases op)
    case (OpBundle epoch b)
    from bundle_inv [OF assms Cons.prems(2), of epoch b fj] ok(1) OpBundle obtain d bd st1 e where r:
      "compute_bundle_digest sha b = Inr bd" "append_bundle_with_digest sha fj alone epoch b st = (Inr d, st1)"
      "epochs_inv sha (es @ [e]) st1" "d = chain_digest sha (digest_or_zero (epoch_digest epoch es)) bd"
      "\<forall>e'. epoch_digest e' (es @ [e]) = (if e' = epoch then Some d else epoch_digest e' es)" by blast
    from Cons.IH [OF ok(2) r(3)] obtain st' fs where s: "run_ops sha fj ops st1 = Inr st'" "epochs_inv sha ((es @ [e]) @ fs) st'"
      "\<forall>e'. digest_or_zero (epoch_digest e' ((es @ [e]) @ fs)) = ops_digest sha e' (digest_or_zero (epoch_digest e' (es @ [e]))) ops"
      by blast
    have "digest_or_zero (epoch_digest e' ((es @ [e]) @ fs)) =
        ops_digest sha e' (digest_or_zero (epoch_digest e' es)) (op # ops)" for e'
      using s(3) r(4,5) OpBundle by (simp add: digest_of_bundle_def r(1))
    then show ?thesis using s(1,2) r(2) OpBundle by (intro exI [of _ st'] exI [of _ "[e] @ fs"]) simp
  next
    case (OpEvent ty p)
    from event_inv [OF assms Cons.prems(2), of ty p fj] ok(1) OpEvent obtain out st1 e where r:
      "lineage_append_event sha fj alone default_attempts ty p st = (Inr out, st1)" "epochs_inv sha (es @ [e]) st1"
      "\<forall>e'. epoch_digest e' (es @ [e]) = epoch_digest e' es" by blast
    from Cons.IH [OF ok(2) r(2)] obtain st' fs where s: "run_ops sha fj ops st1 = Inr st'" "epochs_inv sha ((es @ [e]) @ fs) st'"
      "\<forall>e'. digest_or_zero (epoch_digest e' ((es @ [e]) @ fs)) = ops_digest sha e' (digest_or_zero (epoch_digest e' (es @ [e]))) ops"
      by blast
    have "digest_or_zero (epoch_digest e' ((es @ [e]) @ fs)) =
        ops_digest sha e' (digest_or_zero (epoch_digest e' es)) (op # ops)" for e'
      using s(3) r(3) OpEvent by simp
    then show ?thesis using s(1,2) r(1) OpEvent by (intro exI [of _ st'] exI [of _ "[e] @ fs"]) simp
  next
    case OpRestart
    have "epochs_inv sha es (st\<lparr>lv_cache := None, lv_verified := None, lv_index := []\<rparr>)"
      using Cons.prems(2) by (simp add: epochs_inv_def file_text_def)
    from Cons.IH [OF ok(2) this] OpRestart show ?thesis by simp
  qed
qed

lemma incremental_inv:
  assumes "plain_sha sha" "epochs_inv sha es st"
  shows "fst (compute_incremental_epoch_digest sha epoch st) = Inr (digest_or_zero (epoch_digest epoch es))"
proof -
  from assms(2) have i: "well_chained sha es" "file_text st = journal_text es" "list_all class_row es" "lv_tenant st = []"
    by (simp_all add: epochs_inv_def)
  from read_written [OF assms(1) i] written_verifies [OF assms(1) i(1,2), of no_hook]
  have "\<exists>st1 st2. lineage_verify_integrity sha no_hook None st = (Inr (), st1) \<and> read_unverified st1 = (Inr es, st2)"
    by (auto simp: read_all_def)
  then show ?thesis using assms(2)
    by (auto simp: compute_incremental_epoch_digest_def incremental_unverified_def epochs_inv_def)
qed

section \<open>Peers that are always faster\<close>

definition busy_peers :: "(string \<Rightarrow> string) \<Rightarrow> (nat \<Rightarrow> string \<Rightarrow> string) \<Rightarrow> bool" where
  "busy_peers sha peers \<longleftrightarrow> peers_ok sha peers \<and>
     (\<forall>i es fs. odd i \<longrightarrow> well_chained sha (es @ fs) \<longrightarrow> peers i (journal_text es) = journal_text (es @ fs) \<longrightarrow>
        tip GENESIS_HASH (es @ fs) \<noteq> tip GENESIS_HASH es)"

lemma tries_busy:
  assumes sha: "plain_sha sha" and busy: "busy_peers sha peers"
  shows "well_chained sha es \<Longrightarrow> file_text st = journal_text es \<Longrightarrow> \<not> lv_locked st \<Longrightarrow> k \<le> mx \<Longrightarrow>
    \<exists>out st'. append_tries sha fj peers mx ty payload k c ds st = (Inr out, st') \<and> is_conflict out \<and>
      lv_file st' = Some (foldl (\<lambda>t i. peers i t) (journal_text es) [2 * k..<2 * mx + 2]) \<and> lv_index st' = lv_index st"
proof (induction "mx - k" arbitrary: k c ds st es rule: less_induct)
  case less
  from busy have env: "peers_ok sha peers" by (simp add: busy_peers_def)
  obtain fs where fs: "well_chained sha (es @ fs)" "peers (2 * k) (journal_text es) = journal_text (es @ fs)"
    using peers_extend [OF env less.prems(1)] .
  let ?st1 = "others (peers (2 * k)) st"
  have scan: "scan_tail sha ?st1 = (Inr (tip GENESIS_HASH (es @ fs)), ensure_file ?st1)"
    using scan_tail_written [OF sha fs(1), of ?st1] fs(2) less.prems(2) by simp
  obtain gs where gs: "well_chained sha (es @ fs @ gs)" "peers (2 * k + 1) (journal_text (es @ fs)) = journal_text (es @ fs @ gs)"
    using peers_extend [OF env fs(1), of "2 * k + 1"] by auto
  have moved: "tip GENESIS_HASH (es @ fs) \<noteq> tip GENESIS_HASH (es @ fs @ gs)"
  proof -
    have "odd (2 * k + 1)" by simp
    moreover have "peers (2 * k + 1) (journal_text (es @ fs)) = journal_text ((es @ fs) @ gs)" using gs(2) by simp
    ultimately have "tip GENESIS_HASH ((es @ fs) @ gs) \<noteq> tip GENESIS_HASH (es @ fs)"
      using busy gs(1) unfolding busy_peers_def by (metis append_assoc)
    then show ?thesis by simp
  qed
  let ?st2 = "others (peers (2 * k + 1)) (ensure_file ?st1)"
  have at: "file_text ?st2 = journal_text (es @ fs @ gs)" using gs(2) fs(2) less.prems(2) by simp
  have locked: "\<not> lv_locked ?st2" using less.prems(3) by simp
  note attempt = attempt_written [OF sha gs(1) at locked tip_plain_written [OF sha fs(1)], of fj ty payload k c ds]
  let ?out = "conflict_outcome fj (tip GENESIS_HASH (es @ fs)) (tip GENESIS_HASH (es @ fs @ gs)) k c ds"
  have two: "[2 * k..<2 * mx + 2] = [2 * k, 2 * k + 1] @ [2 * (k + 1)..<2 * mx + 2]"
    using less.prems(4) by (simp add: upt_conv_Cons)
  have later: "foldl (\<lambda>t i. peers i t) (journal_text es) [2 * k..<2 * mx + 2] =
      foldl (\<lambda>t i. peers i t) (journal_text (es @ fs @ gs)) [2 * (k + 1)..<2 * mx + 2]"
    unfolding two using fs(2) gs(2) by simp
  show ?case
  proof (cases "mx \<le> k")
    case True
    have run: "append_tries sha fj peers mx ty payload k c ds st = (Inr ?out, ensure_file ?st2)"
      by (subst append_tries.simps) (simp only: scan ethen_simps attempt moved if_False True simp_thms if_True)
    have "[2 * (k + 1)..<2 * mx + 2] = []" using True by simp
    then show ?thesis unfolding run later using at by (simp add: ensure_file_def)
  next
    case False
    have run: "append_tries sha fj peers mx ty payload k c ds st =
        append_tries sha fj peers mx ty payload (k + 1) (c + 1) (ds @ [canonical_backoff c]) (ensure_file ?st2)"
      by (subst append_tries.simps) (simp only: scan ethen_simps attempt moved if_False False outcome_status simp_thms)
    show ?thesis unfolding run later
      using less.hyps [of "k + 1" "es @ fs @ gs" "ensure_file ?st2" "c + 1" "ds @ [canonical_backoff c]"] False gs(1) at locked by simp
  qed
qed

section \<open>Resolution never accepts what the ledger writes\<close>

lemma join_lengths:
  "list_all2 (\<lambda>x y. length x \<le> length y) xs ys \<Longrightarrow> length s \<le> length t \<Longrightarrow> length (join s xs) \<le> length (join t ys)"
proof (induction xs arbitrary: ys)
  case (Cons x xs)
  then obtain y zs where ys: "ys = y # zs" "length x \<le> length y" "list_all2 (\<lambda>x y. length x \<le> length y) xs zs"
    by (auto simp: list_all2_Cons1)
  show ?case
  proof (cases xs)
    case Nil
    then show ?thesis using ys by simp
  next
    case (Cons x' xs')
    then obtain y' zs' where "zs = y' # zs'" using ys(3) by (auto simp: list_all2_Cons1)
    then show ?thesis using Cons ys Cons.IH [of zs] Cons.prems(2) by (simp add: join_Cons2)
  qed
qed simp

lemma render_longer: "length (render [] a v) \<le> length (render '' '' a v)"
proof (induction v)
  case (JList xs)
  have "length (join ('','' @ []) (map (render [] a) xs)) \<le> length (join ('','' @ '' '') (map (render '' '' a) xs))"
    by (rule join_lengths) (use JList in \<open>auto simp: list_all2_conv_all_nth\<close>)
  then show ?case by simp
next
  case (JObj kvs)
  have "length (render_member [] a p) \<le> length (render_member '' '' a p)" if "p \<in> set kvs" for p
    using JObj [of p "snd p"] that by (auto simp: render_member_def snds.simps)
  then have "length (join ('','' @ []) (map (render_member [] a) kvs)) \<le> length (join ('','' @ '' '') (map (render_member '' '' a) kvs))"
    by (intro join_lengths) (auto simp: list_all2_conv_all_nth)
  then show ?case unfolding render_JObj by simp
qed simp_all

lemma render_object_longer:
  assumes "kvs \<noteq> []"
  shows "length (render [] a (JObj kvs)) < length (render '' '' a (JObj kvs))"
proof -
  obtain p ps where kvs: "kvs = p # ps" using assms by (cases kvs) auto
  have "length (render_member [] a q) \<le> length (render_member '' '' a q)" for q
    using render_longer [of a "snd q"] by (simp add: render_member_def)
  then have rest: "length (join ('','' @ []) (map (render_member [] a) qs)) \<le> length (join ('','' @ '' '') (map (render_member '' '' a) qs))" for qs
    by (intro join_lengths) (auto simp: list_all2_conv_all_nth)
  have first: "length (render_member [] a p) < length (render_member '' '' a p)"
    using render_longer [of a "snd p"] by (simp add: render_member_def)
  show ?thesis
  proof (cases ps)
    case Nil
    then show ?thesis using first unfolding kvs render_JObj by simp
  next
    case (Cons q qs)
    then show ?thesis using first rest [of ps] unfolding kvs render_JObj by (simp add: join_Cons2)
  qed
qed

lemma compact_differs:
  assumes "kvs \<noteq> []"
  shows "canonical False (JObj kvs) \<noteq> json_text (norm (JObj kvs))"
proof -
  obtain ps where ps: "norm (JObj kvs) = JObj ps" by simp
  then have "length ps = length kvs" by auto
  then have "ps \<noteq> []" using assms by auto
  from render_object_longer [OF this, of False] show ?thesis
    unfolding canonical_def render_compact [symmetric] json_text_def ps by auto
qed

lemma unhashed_nonempty: "text_at e ''prev_hash'' \<noteq> [] \<Longrightarrow> unhashed e \<noteq> []"
proof
  assume prev: "text_at e ''prev_hash'' \<noteq> []" and "unhashed e = []"
  then have "\<forall>p \<in> set e. fst p = ''hash''" by (auto simp: unhashed_def filter_empty_conv)
  then have "dget e ''prev_hash'' = None" by (force simp: map_of_eq_None_iff)
  then show False using prev by (simp add: text_at_def get_or_truthy_def)
qed

text \<open>The walk visits a mutation at most once, so one step more than the mutations of the table is enough.\<close>

lemma walk_returns:
  assumes "\<forall>p e. dget table p = Some e \<longrightarrow> mutation_id_of e = Inr p"
  shows "(\<exists>m. mutation_id_of cursor = Inr m \<and> m \<noteq> [] \<and> m \<in> fst ` set table) \<Longrightarrow>
    card (fst ` set table - set visited) < n \<Longrightarrow> walk_chain n table visited cursor \<noteq> None"
proof (induction n arbitrary: visited cursor)
  case (Suc n)
  then obtain m where m: "mutation_id_of cursor = Inr m" "m \<noteq> []" "m \<in> fst ` set table" by blast
  have next_ok: "walk_chain n table (m # visited) e \<noteq> None" if "m \<notin> set visited" "p \<noteq> []" "dget table p = Some e" for p e
  proof (rule Suc.IH)
    have "p \<in> fst ` set table" using that(3) by (metis fst_conv image_eqI map_of_SomeD)
    then show "\<exists>m. mutation_id_of e = Inr m \<and> m \<noteq> [] \<and> m \<in> fst ` set table" using that(2,3) assms by blast
    have "fst ` set table - set (m # visited) \<subset> fst ` set table - set visited" using m(3) that(1) by auto
    then have "card (fst ` set table - set (m # visited)) < card (fst ` set table - set visited)"
      by (intro psubset_card_mono) auto
    then show "card (fst ` set table - set (m # visited)) < n" using Suc.prems(2) by simp
  qed
  show ?case using m(1,2) next_ok by (auto split: sum.splits option.splits)
qed simp

lemma table_ids:
  assumes "\<forall>(m, e) \<in> set ids. mutation_id_of e = Inr m"
  shows "\<forall>p e. dget (mutation_table ids) p = Some e \<longrightarrow> mutation_id_of e = Inr p"
    and "(m, e) \<in> set ids \<Longrightarrow> m \<noteq> [] \<Longrightarrow> m \<in> fst ` set (mutation_table ids)"
proof -
  have "\<forall>p e. dget (mutation_table ids) p = Some e \<longrightarrow> mutation_id_of e = Inr p"
    using assms by (induction ids rule: rev_induct) (auto simp: mutation_table_def split: if_splits)
  then show "\<forall>p e. dget (mutation_table ids) p = Some e \<longrightarrow> mutation_id_of e = Inr p" .
  show "(m, e) \<in> set ids \<Longrightarrow> m \<noteq> [] \<Longrightarrow> m \<in> fst ` set (mutation_table ids)"
  proof (induction ids rule: rev_induct)
    case (snoc q qs)
    have keys: "fst ` set (dput k v d) = insert k (fst ` set d)" for k :: string and v :: obj and d
      by (simp add: dom_update)
    show ?case using snoc by (cases q) (auto simp: mutation_table_def keys)
  qed simp
qed

lemma emap_zip: "emap f xs = Inr ys \<Longrightarrow> (y, x) \<in> set (zip ys xs) \<Longrightarrow> f x = Inr y"
  by (induction xs arbitrary: ys) auto

lemma found: "find P xs = Some x \<Longrightarrow> P x \<and> x \<in> set xs"
  by (induction xs) (auto split: if_splits)

lemma chain_tail_in:
  assumes "chain_tail agent rows = Some e"
  obtains m a where "(m, a, e) \<in> set rows" "m \<noteq> []"
proof -
  from assms obtain r where r: "find (\<lambda>(m, a, e). m \<noteq> [] \<and> (agent = [] \<or> a = agent)) (rev rows) = Some r" "e = snd (snd r)"
    by (auto simp: chain_tail_def)
  obtain m a e' where abc: "r = (m, a, e')" by (cases r)
  from found [OF r(1)] have "(m, a, e) \<in> set rows" "m \<noteq> []" using abc r(2) by simp_all
  with that show thesis .
qed

lemma resolve_returns: "resolve_chain sha agent f \<noteq> None"
proof -
  have walk: "walk_chain (Suc (length (mutation_table (zip ms es)))) (mutation_table (zip ms es)) [] e \<noteq> None"
    if "emap mutation_id_of es = Inr ms" "chain_tail a (zip ms (zip ags es)) = Some e" for es ms ags a e
  proof (rule walk_returns)
    have ids: "\<forall>(m, e) \<in> set (zip ms es). mutation_id_of e = Inr m" using emap_zip [OF that(1)] by auto
    show "\<forall>p e. dget (mutation_table (zip ms es)) p = Some e \<longrightarrow> mutation_id_of e = Inr p" by (rule table_ids(1) [OF ids])
    from chain_tail_in [OF that(2)] obtain m ag where t: "(m, ag, e) \<in> set (zip ms (zip ags es))" "m \<noteq> []" .
    then have z: "(m, e) \<in> set (zip ms es)" by (auto simp: in_set_zip)
    from emap_zip [OF that(1) z] table_ids(2) [OF ids z t(2)] t(2)
    show "\<exists>m. mutation_id_of e = Inr m \<and> m \<noteq> [] \<and> m \<in> fst ` set (mutation_table (zip ms es))" by blast
    show "card (fst ` set (mutation_table (zip ms es)) - set []) < Suc (length (mutation_table (zip ms es)))"
      using card_image_le [of "set (mutation_table (zip ms es))" fst] card_length [of "mutation_table (zip ms es)"] by simp
  qed
  show ?thesis
  proof (cases f)
    case (Some t)
    show ?thesis
    proof (cases "resolve_rows sha GENESIS_HASH (split_on line_break t)")
      case (Inr rows)
      show ?thesis
      proof (cases rows)
        case (Cons e0 es)
        then show ?thesis using Some Inr walk [of "e0 # es"]
          by (cases "emap mutation_id_of (e0 # es)"; cases "emap agent_id_of (e0 # es)")
            (simp_all only: resolve_chain_def option.case sum.case list.case prod.case Let_def split: option.split, auto)
      qed (use Some Inr in \<open>simp add: resolve_chain_def\<close>)
    qed (use Some in \<open>simp add: resolve_chain_def\<close>)
  qed (simp add: resolve_chain_def)
qed

text \<open>What is hashed of a first row: by the resolution, and by the ledger.\<close>

definition compact_material :: "obj \<Rightarrow> string" where
  "compact_material e = GENESIS_HASH @ canonical False (JObj (unhashed e))"

definition spaced_material :: "obj \<Rightarrow> string" where
  "spaced_material e = GENESIS_HASH @ json_text (norm (JObj (unhashed e)))"

lemma first_row_resolved:
  assumes "well_chained sha (e # es)" "class_row e"
  shows "compact_material e \<noteq> spaced_material e \<and>
    (sha (compact_material e) = sha (spaced_material e) \<or>
     resolve_chain sha agent (Some (journal_text (e # es))) = Some (Inl (LineageResolution ''lineage_hash_mismatch'')))"
proof -
  have e: "py_value (JObj e)" "text_at e ''prev_hash'' = GENESIS_HASH" "text_at e ''hash'' = hash_line sha GENESIS_HASH (unhashed e)"
    using assms(1) by (simp_all add: well_chained_def)
  have plain: "CHR 0x85 \<notin> set (json_text (JObj e))" using assms(2) by (simp add: class_row_def no_nel_def del: no_nel_obj)
  have "line_break (CHR 0x0A)" by (simp add: line_break_def newline_def)
  then have lines: "split_on line_break (journal_text (e # es)) = json_text (JObj e) # split_on line_break (journal_text es)"
    using split_on_line [OF json_text_no_break [OF plain], of "journal_text es"] by (simp add: json_line_def)
  have parsed: "json_loads (json_text (JObj e)) = Some (JObj e)" using e(1) by (rule loads_json_text)
  have "unhashed e \<noteq> []" using unhashed_nonempty [of e] e(2) plain_zeros(2) by simp
  then have differ: "compact_material e \<noteq> spaced_material e"
    using compact_differs by (simp add: compact_material_def spaced_material_def)
  have "resolve_chain sha agent (Some (journal_text (e # es))) = Some (Inl (LineageResolution ''lineage_hash_mismatch''))"
    if "sha (compact_material e) \<noteq> sha (spaced_material e)"
  proof -
    have "hash_line sha GENESIS_HASH (unhashed e) \<noteq> hash_entry sha GENESIS_HASH (unhashed e)"
      using that by (simp add: compact_material_def spaced_material_def hash_line_def hash_entry_def)
    then have "resolve_rows sha GENESIS_HASH (split_on line_break (journal_text (e # es))) =
        Inl (LineageResolution ''lineage_hash_mismatch'')"
      unfolding lines by (simp add: parsed e(2,3))
    then show ?thesis by (simp only: resolve_chain_def option.case sum.case simp_thms)
  qed
  with differ show ?thesis by blast
qed

section \<open>A tenant's ledger\<close>

lemma untenanted_row:
  assumes "dget p ''tenant_id'' = None" "normalize_tenant_scope ctx = Inr (t, w)"
  shows "payload_in_tenant_scope (JObj (lineage_entry sha ty p q pr)) ctx = Inr False"
proof -
  have "t \<noteq> []" using assms(2) by (auto simp: normalize_tenant_scope_def normalize_scope_value_def Let_def split: if_splits)
  moreover have "scope_text p (lineage_entry sha ty p q pr) ''tenant_id'' = []"
    using assms(1) by (simp add: scope_text_def dget_or_def lineage_entry_def entry_body_def py_strip_def)
  ultimately show ?thesis using assms(2) by (simp add: payload_in_tenant_scope_def)
qed

section \<open>Demonstrations\<close>

definition demo_bundle :: "string \<Rightarrow> obj" where
  "demo_bundle b = [(''epoch_id'', JStr ''e1''), (''bundle_id'', JStr b), (''certificate'', JObj [])]"

definition demo_ops :: "ledger_op list" where
  "demo_ops = [OpBundle ''e1'' (demo_bundle ''b1''), OpEvent ''Note'' [], OpRestart, OpBundle ''e1'' (demo_bundle ''b2'')]"

lemma demo_ops_ok: "list_all op_ok demo_ops"
  by (simp add: demo_ops_def demo_bundle_def dget_or_def)

text \<open>A hash whose values grow, and a peer that appends a note whenever it can before the lock is taken.\<close>

definition grow_sha :: "string \<Rightarrow> string" where
  "grow_sha s = CHR ''h'' # filter (\<lambda>c. (of_char c :: nat) < 128) s"

definition noting_peers :: "nat \<Rightarrow> string \<Rightarrow> string" where
  "noting_peers i t =
     (if even i then t
      else case fst (scan_tail grow_sha (demo_lineage\<lparr>lv_file := Some t\<rparr>)) of
        Inl x \<Rightarrow> t
      | Inr h \<Rightarrow> t @ json_line (JObj (lineage_entry grow_sha ''Note'' [] h (append_protocol demo_fj h 1 0 []))))"

lemma grow_plain: "plain_sha grow_sha"
  by (auto simp: plain_sha_def grow_sha_def plain_text_def list_all_iff)

lemma noting_writes:
  assumes "well_chained grow_sha es"
  shows "noting_peers i (journal_text es) =
    journal_text (es @ (if even i then [] else [row_alone grow_sha demo_fj ''Note'' [] es]))"
  using scan_tail_written [OF grow_plain assms, of "demo_lineage\<lparr>lv_file := Some (journal_text es)\<rparr>"]
  by (simp add: noting_peers_def file_text_def)

lemma noting_written:
  assumes "well_chained grow_sha es"
  shows "well_chained grow_sha (es @ [row_alone grow_sha demo_fj ''Note'' [] es])"
  using written_more [OF assms _ demo_fj_value, of "[]"] by simp

lemma grow_moves: "plain_text p \<Longrightarrow> hash_line grow_sha p b \<noteq> p"
proof
  assume p: "plain_text p" and eq: "hash_line grow_sha p b = p"
  have "filter (\<lambda>c. (of_char c :: nat) < 128) p = p" using p by (simp add: plain_text_def list_all_iff)
  then have "length p < length (hash_line grow_sha p b)" by (simp add: hash_line_def grow_sha_def)
  then show False using eq by simp
qed

text \<open>Texts of rows determine the rows, so what a peer added is known.\<close>

lemma journal_text_inj:
  assumes "list_all (\<lambda>e. py_value (JObj e)) es" "list_all (\<lambda>e. py_value (JObj e)) fs" "journal_text es = journal_text fs"
  shows "es = fs"
proof -
  have "map json_loads (split_on newline (journal_text es)) = map (\<lambda>e. Some (JObj e)) es"
    "map json_loads (split_on newline (journal_text fs)) = map (\<lambda>e. Some (JObj e)) fs"
    using assms(1,2) by (auto simp: journal_lines list_all_iff simp del: py_value.simps)
  then have "map (\<lambda>e. Some (JObj e)) es = map (\<lambda>e. Some (JObj e)) fs" using assms(3) by simp
  moreover have "inj (\<lambda>e. Some (JObj e))" by (simp add: inj_def)
  ultimately show ?thesis by (simp add: inj_map_eq_map)
qed

lemma noting_busy: "busy_peers grow_sha noting_peers"
  unfolding busy_peers_def peers_ok_def
proof (intro conjI allI impI)
  fix i :: nat and es
  assume es: "well_chained grow_sha es"
  have "well_chained grow_sha (es @ (if even i then [] else [row_alone grow_sha demo_fj ''Note'' [] es]))"
    using es noting_written [OF es] by simp
  then show "\<exists>fs. well_chained grow_sha (es @ fs) \<and> noting_peers i (journal_text es) = journal_text (es @ fs)"
    using noting_writes [OF es] by blast
next
  fix i :: nat and es fs
  assume i: "odd i" and es: "well_chained grow_sha (es @ fs)" and written: "noting_peers i (journal_text es) = journal_text (es @ fs)"
  have front: "well_chained grow_sha es" using es by (simp add: well_chained_def)
  let ?e = "row_alone grow_sha demo_fj ''Note'' [] es"
  have "journal_text (es @ fs) = journal_text (es @ [?e])" using written noting_writes [OF front] i by simp
  then have "es @ fs = es @ [?e]"
    using journal_text_inj [of "es @ fs" "es @ [?e]"] es noting_written [OF front] unfolding well_chained_def by blast
  then show "tip GENESIS_HASH (es @ fs) \<noteq> tip GENESIS_HASH es"
    using grow_moves [OF tip_plain_written [OF grow_plain front]] by simp
qed

section \<open>Properties\<close>

text \<open>
  C18 (refinement): the digests of an epoch are those of its bundles. One process works on an empty ledger without a tenant. After any
  sequence of bundles that carry the id of the epoch they are appended to, of events that are neither \<open>MutationBundleEvent\<close> nor
  \<open>EpochCheckpointEvent\<close>, and of restarts, all free of U+0085, for every epoch, what the instance answers, what a new instance reads from
  the ledger, and what is recomputed from the rows agree, and are the digests of the epoch's bundles, chained in order. For a
  bundle with no or another \<open>epoch_id\<close> the code records one digest and recomputes another.\<close>

theorem lineage_epoch_digests_agree:
  assumes "plain_sha sha" "list_all op_ok ops" "file_text st = []" "\<not> lv_locked st" "lv_tenant st = []" "lv_index st = []"
  shows "\<exists>st'. run_ops sha fj ops st = Inr st' \<and> (\<forall>epoch. \<exists>d.
    fst (get_epoch_digest sha epoch st') = Inr d \<and> fst (get_epoch_digest sha epoch (st'\<lparr>lv_index := []\<rparr>)) = Inr d \<and>
    fst (compute_incremental_epoch_digest sha epoch st') = Inr (digest_or_zero d) \<and>
    digest_or_zero d = ops_digest sha epoch ''sha256:0'' ops)"
proof -
  have start: "epochs_inv sha [] st" using assms(3-6) written_none
    by (simp add: epochs_inv_def epoch_digest_def recorded_digest_def digest_or_zero_def)
  have none: "digest_or_zero (epoch_digest epoch []) = ''sha256:0''" for epoch
    by (simp add: epoch_digest_def recorded_digest_def digest_or_zero_def)
  from run_ops_inv [OF assms(1,2) start, of fj] obtain st' es where r: "run_ops sha fj ops st = Inr st'" "epochs_inv sha es st'"
    "\<forall>epoch. digest_or_zero (epoch_digest epoch es) = ops_digest sha epoch ''sha256:0'' ops"
    unfolding none by auto
  have new: "epochs_inv sha es (st'\<lparr>lv_index := []\<rparr>)" using r(2) by (simp add: epochs_inv_def file_text_def)
  have "fst (get_epoch_digest sha epoch st') = Inr (epoch_digest epoch es) \<and>
      fst (get_epoch_digest sha epoch (st'\<lparr>lv_index := []\<rparr>)) = Inr (epoch_digest epoch es) \<and>
      fst (compute_incremental_epoch_digest sha epoch st') = Inr (digest_or_zero (epoch_digest epoch es)) \<and>
      digest_or_zero (epoch_digest epoch es) = ops_digest sha epoch ''sha256:0'' ops" for epoch
    using get_epoch_digest_inv [OF assms(1) r(2), of epoch] get_epoch_digest_inv [OF assms(1) new, of epoch]
      incremental_inv [OF assms(1) r(2), of epoch] r(3) by auto
  with r(1) show ?thesis by blast
qed

theorem lineage_epoch_digests_agree_witness:
  "\<exists>st' d. run_ops (\<lambda>s. ''h'') demo_fj demo_ops demo_lineage = Inr st' \<and>
     fst (get_epoch_digest (\<lambda>s. ''h'') ''e1'' (st'\<lparr>lv_index := []\<rparr>)) = Inr d \<and> digest_or_zero d = ''sha256:h''"
proof -
  have s: "file_text demo_lineage = []" "\<not> lv_locked demo_lineage" "lv_tenant demo_lineage = []" "lv_index demo_lineage = []"
    by (simp_all add: demo_lineage_def file_text_def)
  have "ops_digest (\<lambda>s. ''h'') ''e1'' ''sha256:0'' demo_ops = ''sha256:h''" by code_simp
  with lineage_epoch_digests_agree [OF demo_sha demo_ops_ok s, of demo_fj] show ?thesis by metis
qed

text \<open>
  A lost bundle is reported as recorded. When other processes win the race in each of the four attempts,
  \<open>append_bundle_with_digest\<close> returns a digest and answers with it from then on, while the file holds what the
  others wrote and nothing else.\<close>

theorem lineage_lost_bundle_reported:
  assumes "plain_sha sha" "busy_peers sha peers" "epochs_inv sha es st" "op_ok (OpBundle epoch b)"
  shows "\<exists>d st'. append_bundle_with_digest sha fj peers epoch b st = (Inr d, st') \<and>
    file_text st' = foldl (\<lambda>t i. peers i t) (journal_text es) [2..<10] \<and>
    get_epoch_digest sha epoch st' = (Inr (Some d), st')"
proof -
  obtain st1 where st1: "get_epoch_digest sha epoch st = (Inr (epoch_digest epoch es), st1)" "epochs_inv sha es st1"
    using get_epoch_digest_inv [OF assms(1,3)] by blast
  from assms(4) have "case dget_or b ''certificate'' (JObj []) of JObj c \<Rightarrow> True | _ \<Rightarrow> False" by simp
  then obtain c where "dget_or b ''certificate'' (JObj []) = JObj c" by (auto split: json.splits)
  then obtain bd where bd: "compute_bundle_digest sha b = Inr bd" by (simp add: compute_bundle_digest_def lift_py_def)
  define ed where "ed = chain_digest sha (digest_or_zero (epoch_digest epoch es)) bd"
  have "well_chained sha es" "file_text st1 = journal_text es" "\<not> lv_locked st1" using st1(2) by (simp_all add: epochs_inv_def)
  from tries_busy [where k = 1 and mx = 4 and c = 0 and ds = "[]" and payload = "bundle_row epoch bd ed b" and fj = fj
      and ty = "''MutationBundleEvent''", OF assms(1,2) this]
  obtain out st2 where r: "append_tries sha fj peers 4 ''MutationBundleEvent'' (bundle_row epoch bd ed b) 1 0 [] st1 = (Inr out, st2)"
    "is_conflict out" "lv_file st2 = Some (foldl (\<lambda>t i. peers i t) (journal_text es) [2..<10])" by auto
  then have "lineage_append_event sha fj peers default_attempts ''MutationBundleEvent'' (bundle_row epoch bd ed b) st1 = (Inr out, st2)"
    by (simp add: lineage_append_event_def)
  then have "append_bundle_with_digest sha fj peers epoch b st = (Inr ed, update_epoch_digest epoch ed st2)"
    using st1(1) bd by (simp add: append_bundle_with_digest_def ed_def Let_def)
  moreover have "file_text (update_epoch_digest epoch ed st2) = foldl (\<lambda>t i. peers i t) (journal_text es) [2..<10]"
    using r(3) by (simp add: update_epoch_digest_def file_text_def)
  moreover have "get_epoch_digest sha epoch (update_epoch_digest epoch ed st2) = (Inr (Some ed), update_epoch_digest epoch ed st2)"
    by (simp add: get_epoch_digest_def update_epoch_digest_def)
  ultimately show ?thesis by blast
qed

theorem lineage_lost_bundle_reported_witness:
  "\<exists>d st'. append_bundle_with_digest grow_sha demo_fj noting_peers ''e1'' (demo_bundle ''b1'') demo_lineage = (Inr d, st') \<and>
     file_text st' = foldl (\<lambda>t i. noting_peers i t) [] [2..<10] \<and> get_epoch_digest grow_sha ''e1'' st' = (Inr (Some d), st')"
proof -
  have "epochs_inv grow_sha [] demo_lineage"
    using written_none by (simp add: epochs_inv_def demo_lineage_def file_text_def epoch_digest_def recorded_digest_def digest_or_zero_def)
  moreover have "op_ok (OpBundle ''e1'' (demo_bundle ''b1''))" by (simp add: demo_bundle_def dget_or_def)
  ultimately show ?thesis using lineage_lost_bundle_reported [OF grow_plain noting_busy, of "[]"] by simp
qed

text \<open>
  C19 (safety): resolution rejects every ledger the class wrote. \<open>resolve_chain\<close> hashes the compact text of a row, the
  ledger the text with blanks. The two texts of the first row always differ, and unless they have the same SHA-256,
  resolution of a non-empty ledger ends in a hash mismatch for every agent.\<close>

theorem lineage_resolution_rejects_ledger:
  assumes "well_chained sha (e # es)" "class_row e"
  shows "compact_material e \<noteq> spaced_material e \<and>
    (sha (compact_material e) = sha (spaced_material e) \<or>
     resolve_chain sha agent (Some (journal_text (e # es))) = Some (Inl (LineageResolution ''lineage_hash_mismatch'')))"
  by (rule first_row_resolved [OF assms])

theorem lineage_resolution_rejects_ledger_witness:
  "resolve_chain grow_sha ''agent'' (Some (journal_text [row_alone grow_sha demo_fj ''Note'' [] []])) =
     Some (Inl (LineageResolution ''lineage_hash_mismatch''))"
proof -
  let ?e = "row_alone grow_sha demo_fj ''Note'' [] []"
  have "py_value (JObj [])" "no_nel (JObj [])" "NEL \<notin> set ''Note''" by simp_all
  from row_alone_written [OF grow_plain written_none this, of demo_fj]
  have row: "well_chained grow_sha [?e]" "class_row ?e" by simp_all
  have "grow_sha (compact_material ?e) \<noteq> grow_sha (spaced_material ?e)" by code_simp
  with lineage_resolution_rejects_ledger [OF row, of "''agent''"] show ?thesis by blast
qed

text \<open>
  C40 (termination): resolution always returns. Whatever the file holds, cycles of parents included, the walk to the
  ancestors ends within one step more than there are mutations.\<close>

theorem lineage_resolution_returns: "\<exists>r. resolve_chain sha agent f = Some r"
  using resolve_returns by blast

text \<open>
  A tenant does not read what it writes. The rows an instance appends under a tenant are not marked with
  it, so an event whose payload does not name the tenant itself is verified and then filtered out.\<close>

theorem lineage_tenant_reads_nothing:
  assumes "plain_sha sha" "lv_tenant st = ctx" "ctx \<noteq> []" "normalize_tenant_scope ctx = Inr (t, w)"
    and "file_text st = []" "\<not> lv_locked st" "py_value (JObj p)" "no_nel (JObj p)" "NEL \<notin> set ty" "dget p ''tenant_id'' = None"
  shows "\<exists>out st'. lineage_append_event sha fj alone default_attempts ty p st = (Inr out, st') \<and> \<not> is_conflict out \<and>
    file_text st' = journal_text [row_alone sha fj ty p []] \<and> fst (read_all sha st') = Inr []"
proof -
  define e where "e = row_alone sha fj ty p []"
  have row: "well_chained sha [e]" "class_row e"
    using row_alone_written [OF assms(1) written_none assms(7,8,9), of fj] by (simp_all add: e_def)
  have start: "file_text st = journal_text []" using assms(5) by simp
  from append_event_alone [OF assms(1) written_none start assms(6), of fj default_attempts ty p, folded e_def]
  obtain out st' where r: "lineage_append_event sha fj alone default_attempts ty p st = (Inr out, st')" "file_text st' = journal_text [e]"
    "lv_tenant st' = ctx" using assms(2) by auto
  have "\<not> is_conflict out"
    using r(1) append_alone [OF assms(1) written_none start assms(6), of fj "nat (max 1 default_attempts)" ty p]
    by (auto simp: lineage_append_event_def Let_def)
  moreover have "fst (read_all sha st') = Inr []"
  proof -
    have py: "py_value (JObj e)" using row(1) by (simp add: well_chained_def)
    have "CHR 0x85 \<notin> set (json_text (JObj e))" using row(2) by (simp add: class_row_def no_nel_def del: no_nel_obj)
    then have "split_on line_break (journal_text [e]) = [json_text (JObj e)]" using break_lines [of "[e]"] by simp
    moreover have "payload_in_tenant_scope (JObj e) ctx = Inr False" unfolding e_def by (rule untenanted_row [OF assms(10,4)])
    ultimately have "unverified_rows ctx (split_on line_break (journal_text [e])) = Inr []"
      using assms(3) loads_json_text [OF py] by (simp add: lift_py_def)
    then show ?thesis using written_verifies [OF assms(1) row(1) r(2), of no_hook] r(2,3)
      by (simp add: read_all_def read_unverified_def file_text_def ensure_file_def)
  qed
  ultimately show ?thesis using r(1,2) unfolding e_def by blast
qed

theorem lineage_tenant_reads_nothing_witness:
  "\<exists>out st'. lineage_append_event (\<lambda>s. ''h'') demo_fj alone default_attempts ''Note'' [(''n'', JInt 1)]
       (demo_lineage\<lparr>lv_tenant := [(''tenant_id'', JStr ''t''), (''workspace_id'', JStr ''w'')]\<rparr>) = (Inr out, st') \<and>
     fst (read_all (\<lambda>s. ''h'') st') = Inr []"
proof -
  let ?ctx = "[(''tenant_id'', JStr ''t''), (''workspace_id'', JStr ''w'')]"
  have scope: "normalize_tenant_scope ?ctx = Inr (''t'', ''w'')" by code_simp
  have st: "lv_tenant (demo_lineage\<lparr>lv_tenant := ?ctx\<rparr>) = ?ctx" "?ctx \<noteq> []" "file_text (demo_lineage\<lparr>lv_tenant := ?ctx\<rparr>) = []"
    "\<not> lv_locked (demo_lineage\<lparr>lv_tenant := ?ctx\<rparr>)" by (simp_all add: demo_lineage_def file_text_def)
  have p: "py_value (JObj [(''n'', JInt 1)])" "no_nel (JObj [(''n'', JInt 1)])" "NEL \<notin> set ''Note''" "dget [(''n'', JInt 1)] ''tenant_id'' = None"
    by simp_all
  from lineage_tenant_reads_nothing [OF demo_sha st(1,2) scope st(3,4) p] show ?thesis by blast
qed

text \<open>
  A federation origin is read back from the certificate it is written into.\<close>

theorem federation_origin_round_trip:
  "is_federated b \<longleftrightarrow> (\<exists>o'. be_origin b = Some o' \<and> dget (certificate_dict b) ''federation_origin'' = Some (JObj (origin_dict o')) \<and>
     origin_of_dict (origin_dict o') = Inr o')"
  by (cases "be_origin b") (auto simp: is_federated_def certificate_dict_def origin_of_dict_def origin_dict_def str_item_def dget_or_def)

text \<open>
  One character makes the ledger unreadable. A payload with U+0085 is appended and verified, but the readers
  split the text at it: \<open>read_all\<close> raises, and so does every later read.\<close>

theorem lineage_separator_unreadable:
  "\<exists>out st'. lineage_append_event (\<lambda>s. ''h'') demo_fj alone default_attempts ''Note'' [(''n'', JStr [NEL])] demo_lineage = (Inr out, st') \<and>
     fst (lineage_verify_integrity (\<lambda>s. ''h'') no_hook None st') = Inr () \<and> fst (read_all (\<lambda>s. ''h'') st') = Inl (LineagePython JSONDecodeError)"
proof -
  let ?r = "lineage_append_event (\<lambda>s. ''h'') demo_fj alone default_attempts ''Note'' [(''n'', JStr [NEL])] demo_lineage"
  have "is_ok (fst ?r)" by code_simp
  moreover have "fst (lineage_verify_integrity (\<lambda>s. ''h'') no_hook None (snd ?r)) = Inr ()" by code_simp
  moreover have "fst (read_all (\<lambda>s. ''h'') (snd ?r)) = Inl (LineagePython JSONDecodeError)" by code_simp
  ultimately show ?thesis by (cases ?r; cases "fst ?r") auto
qed

end
