(* ===== verification/FoundersLaw.thy ===== *)
theory FoundersLaw
  imports Journal
begin

text \<open>
  \<open>runtime/founders_law.py\<close>: the rules of the founders law, their policy file and the evaluation of a
  mutation's checks. A ledger writer takes an event type and a payload; whatever it raises is swallowed
  here. The event for the second lineage ledger is left out.
\<close>

type_synonym ('e, 's) tx_writer = "string \<Rightarrow> obj \<Rightarrow> 's \<Rightarrow> ('e + obj) \<times> 's"

section \<open>Rules\<close>

record law_rule =
  lr_version :: string
  lr_name :: string
  lr_enabled :: bool
  lr_severity :: string

definition law_rule_named :: "string \<Rightarrow> law_rule" where
  "law_rule_named n = \<lparr>lr_version = ''1.0.0'', lr_name = n, lr_enabled = True, lr_severity = ''blocking''\<rparr>"

definition DEFAULT_LAW_RULES :: "(string, law_rule) dict" where
  "DEFAULT_LAW_RULES =
     map (\<lambda>(i, n). (i, law_rule_named n))
       [(''FL-INVARIANT-TREE-V1'', ''required_tree_layout''),
        (''FL-INVARIANT-IMPORTS-V1'', ''banned_import_roots''),
        (''FL-INVARIANT-ABS-PATHS-V1'', ''absolute_path_guard''),
        (''FL-INVARIANT-METRICS-V1'', ''metrics_pipeline_access''),
        (''FL-INVARIANT-SECURITY-V1'', ''security_path_integrity''),
        (''FL-INVARIANT-STAGING-V1'', ''staging_directory_available''),
        (''FL-INVARIANT-CAPABILITIES-V1'', ''capabilities_json_valid''),
        (''FL-CONSTITUTION-VERSION-V1'', ''constitution_version_match''),
        (''FL-KEY-ROTATION-V1'', ''key_rotation_freshness''),
        (''FL-LEDGER-INTEGRITY-V1'', ''ledger_integrity_chain''),
        (''FL-MUTATION-ENGINE-V1'', ''mutation_engine_health''),
        (''FL-WARM-POOL-V1'', ''warm_pool_ready''),
        (''FL-ARCHITECT-SCAN-V1'', ''architect_scan_valid''),
        (''FL-PLATFORM-RESOURCES-V1'', ''platform_resources_ok'')]"

definition policy_row :: "(string, law_rule) dict \<Rightarrow> json \<Rightarrow> (string, law_rule) dict res" where
  "policy_row rules row =
     ebind (as_obj row) (\<lambda>r.
       let i = py_strip (text_at r ''rule_id''); base = dget_or rules i (law_rule_named i)
       in if i = [] then Inr rules
          else Inr (dput i
            \<lparr>lr_version = py_str (get_or_truthy r ''version'' (JStr (lr_version base))),
             lr_name = py_str (get_or_truthy r ''name'' (JStr (lr_name base))),
             lr_enabled = truthy (dget_or r ''enabled'' (JBool (lr_enabled base))),
             lr_severity = py_lower (py_str (get_or_truthy r ''severity'' (JStr (lr_severity base))))\<rparr> rules))"

fun policy_rows :: "(string, law_rule) dict \<Rightarrow> json list \<Rightarrow> (string, law_rule) dict res" where
  "policy_rows rules [] = Inr rules"
| "policy_rows rules (row # rows) = ebind (policy_row rules row) (\<lambda>rules'. policy_rows rules' rows)"

text \<open>The policy file: its modification time and what parsing it gives, \<open>None\<close> when there is none.\<close>

type_synonym policy_file = "(int \<times> json res) option"

definition load_law_policy :: "policy_file \<Rightarrow> (string, law_rule) dict res" where
  "load_law_policy p =
     (case p of
        None \<Rightarrow> Inr DEFAULT_LAW_RULES
      | Some (mt, raw) \<Rightarrow>
          ebind raw (\<lambda>v. ebind (as_obj v) (\<lambda>d.
          ebind (py_list (dget_or d ''rules'' (JList []))) (policy_rows DEFAULT_LAW_RULES))))"

record law_state =
  ls_rules :: "(string, law_rule) dict"
  ls_mtime :: "int option"

definition law_start :: law_state where
  "law_start = \<lparr>ls_rules = DEFAULT_LAW_RULES, ls_mtime = None\<rparr>"

definition reload_founders_law :: "bool \<Rightarrow> policy_file \<Rightarrow> law_state \<Rightarrow> (string, law_rule) dict res \<times> law_state" where
  "reload_founders_law force p st =
     (if \<not> force \<and> ls_mtime st = map_option fst p then (Inr (ls_rules st), st)
      else case load_law_policy p of
        Inl e \<Rightarrow> (Inl e, st)
      | Inr rules \<Rightarrow> (Inr rules, \<lparr>ls_rules = rules, ls_mtime = map_option fst p\<rparr>))"

section \<open>Evaluation\<close>

record law_decision =
  ld_passed :: bool
  ld_decision :: string
  ld_reasons :: "string list"
  ld_evaluated :: "string list"
  ld_failed :: "obj list"

definition rule_of :: "(string, law_rule) dict \<Rightarrow> string \<Rightarrow> law_rule" where
  "rule_of rules i = dget_or rules i (law_rule_named i)"

fun law_checks :: "(string, law_rule) dict \<Rightarrow> obj list \<Rightarrow> string list \<times> (string \<times> string) list" where
  "law_checks rules [] = ([], [])"
| "law_checks rules (c # cs) =
     (let i = text_at c ''rule_id''; (ev, failed) = law_checks rules cs
      in if i = [] \<or> \<not> lr_enabled (rule_of rules i) then (ev, failed)
         else (i # ev,
               if \<not> truthy (dget_or c ''ok'' (JBool False)) \<and> lr_severity (rule_of rules i) = ''blocking''
               then (i, py_str (get_or_truthy c ''reason'' (JStr ''failed''))) # failed else failed))"

definition law_verdict :: "(string, law_rule) dict \<Rightarrow> obj list \<Rightarrow> law_decision" where
  "law_verdict rules cs =
     (case law_checks rules cs of
        (ev, failed) \<Rightarrow>
          \<lparr>ld_passed = (failed = []), ld_decision = (if failed = [] then ''pass'' else ''fail''),
           ld_reasons = (if failed = [] then [''LAW_PASS''] else ''LAW_RULE_FAILED'' # map fst failed),
           ld_evaluated = ev,
           ld_failed = map (\<lambda>(i, r). [(''rule_id'', JStr i), (''reason'', JStr r)]) failed\<rparr>)"

definition law_payload :: "obj \<Rightarrow> law_decision \<Rightarrow> obj" where
  "law_payload ctx d =
     [(''mutation_id'', JStr (py_str (get_or_truthy ctx ''mutation_id'' (JStr ''unknown'')))),
      (''law_version'', JStr ''founders_law@epoch-v1''),
      (''rule_ids_evaluated'', JList (map JStr (ld_evaluated d))), (''decision'', JStr (ld_decision d)),
      (''trust_mode'', JStr (py_str (get_or_truthy ctx ''trust_mode'' (JStr ''standard'')))),
      (''reason_codes'', JList (map JStr (ld_reasons d)))]"

definition enforce_law ::
  "('e, 's) tx_writer \<Rightarrow> policy_file \<Rightarrow> obj \<Rightarrow> law_state \<times> 's \<Rightarrow> law_decision res \<times> law_state \<times> 's" where
  "enforce_law w p ctx s =
     (case reload_founders_law False p (fst s) of
        (Inl e, st) \<Rightarrow> (Inl e, st, snd s)
      | (Inr rules, st) \<Rightarrow>
          (case ebind (py_list (get_or_truthy ctx ''checks'' (JList []))) (emap as_obj) of
             Inl e \<Rightarrow> (Inl e, st, snd s)
           | Inr cs \<Rightarrow>
               (let d = law_verdict rules cs
                in (Inr d, st, snd (w ''founders_law_evaluation'' (law_payload ctx d) (snd s))))))"

section \<open>What the law lets through\<close>

lemma law_checks_failed:
  "(i, r) \<in> set (snd (law_checks rules cs)) \<Longrightarrow>
   \<exists>c \<in> set cs. text_at c ''rule_id'' = i \<and> i \<noteq> [] \<and> lr_enabled (rule_of rules i) \<and>
     lr_severity (rule_of rules i) = ''blocking'' \<and> \<not> truthy (dget_or c ''ok'' (JBool False))"
  by (induction cs) (auto simp: Let_def split: prod.splits if_splits)

definition check_blocks :: "(string, law_rule) dict \<Rightarrow> obj \<Rightarrow> bool" where
  "check_blocks rules c \<longleftrightarrow>
     text_at c ''rule_id'' \<noteq> [] \<and> lr_enabled (rule_of rules (text_at c ''rule_id'')) \<and>
     lr_severity (rule_of rules (text_at c ''rule_id'')) = ''blocking'' \<and> \<not> truthy (dget_or c ''ok'' (JBool False))"

lemma law_checks_pass: "snd (law_checks rules cs) = [] \<longleftrightarrow> \<not> list_ex (check_blocks rules) cs"
  by (induction cs) (auto simp: Let_def check_blocks_def split: prod.splits)

lemma law_passed: "ld_passed (law_verdict rules cs) \<longleftrightarrow> \<not> list_ex (check_blocks rules) cs"
  using law_checks_pass [of rules cs] by (cases "law_checks rules cs") (simp add: law_verdict_def)

lemma law_verdict_cases:
  "ld_decision (law_verdict rules cs) = (if ld_passed (law_verdict rules cs) then ''pass'' else ''fail'')"
  by (simp add: law_verdict_def split: prod.splits)

end
