(* ===== verification/GovernanceGate.thy ===== *)
theory GovernanceGate
  imports FoundersLaw HashChain "HOL-Library.Product_Lexorder"
begin

text \<open>
  \<open>runtime/governance/gate.py\<close> and \<open>parallel_gate.py\<close>: the gate that decides a mutation from the results
  of its governance axes, the founders law and a human override, on one thread or with a pool of them. The
  law enforcer and the ledger writer are injected, as in the constructor; the theorems take
  \<open>enforce_law\<close> for the first. A thread pool contributes what each probe came to; its timing does not
  reach the decision.
\<close>

section \<open>Axes and decisions\<close>

record axis_result =
  ax_axis :: string
  ax_rule :: string
  ax_ok :: bool
  ax_reason :: string

record governance_decision =
  go_approved :: bool
  go_decision :: string
  go_mutation :: string
  go_trust :: string
  go_reasons :: "string list"
  go_failed :: "obj list"
  go_axes :: "axis_result list"
  go_override :: bool
  go_id :: string
  go_mode :: string

definition axis_obj :: "axis_result \<Rightarrow> obj" where
  "axis_obj a =
     [(''axis'', JStr (ax_axis a)), (''rule_id'', JStr (ax_rule a)), (''ok'', JBool (ax_ok a)), (''reason'', JStr (ax_reason a))]"

definition gate_payload :: "governance_decision \<Rightarrow> obj" where
  "gate_payload d =
     [(''approved'', JBool (go_approved d)), (''decision'', JStr (go_decision d)), (''mutation_id'', JStr (go_mutation d)),
      (''trust_mode'', JStr (go_trust d)), (''reason_codes'', JList (map JStr (go_reasons d))),
      (''failed_rules'', JList (map JObj (go_failed d))), (''axis_results'', JList (map (JObj \<circ> axis_obj) (go_axes d))),
      (''human_override'', JBool (go_override d)), (''decision_id'', JStr (go_id d)), (''gate_mode'', JStr (go_mode d))]"

text \<open>\<open>DeterministicAxisEvaluator.evaluate\<close> on what the probe returned\<close>

definition axis_evaluate :: "string \<Rightarrow> string \<Rightarrow> bool \<times> string \<Rightarrow> axis_result" where
  "axis_evaluate axis rule outcome =
     \<lparr>ax_axis = axis, ax_rule = rule, ax_ok = fst outcome,
      ax_reason = (if snd outcome = [] then ''ok'' else snd outcome)\<rparr>"

definition axis_key :: "axis_result \<Rightarrow> string \<times> string" where
  "axis_key a = (ax_axis a, ax_rule a)"

section \<open>Axes from the registered checks\<close>

text \<open>\<open>{str(row.get(k, "")).strip() for row in rows if isinstance(row, dict)} - {""}\<close>\<close>

definition declared_ids :: "string \<Rightarrow> json list \<Rightarrow> string list" where
  "declared_ids k rows =
     filter (\<lambda>i. i \<noteq> []) (concat (map (\<lambda>r. case r of JObj d \<Rightarrow> [py_strip (py_str (dget_or d k (JStr [])))] | _ \<Rightarrow> []) rows))"

text \<open>The names of the constitution's rules, the founders law and the canon law, the last two parsed.\<close>

definition registered_runtime_check_ids :: "string list \<Rightarrow> json \<Rightarrow> json \<Rightarrow> string list res" where
  "registered_runtime_check_ids names law canon =
     ebind (as_obj law) (\<lambda>l.
     ebind (py_list (dget_or l ''rules'' (JList []))) (\<lambda>lrows.
     ebind (case canon of JObj c \<Rightarrow> py_list (dget_or c ''clauses'' (JList [])) | _ \<Rightarrow> Inr []) (\<lambda>crows.
       Inr (names @ declared_ids ''rule_id'' lrows @ declared_ids ''clause_id'' crows))))"

definition override_outcome :: "json \<Rightarrow> string \<Rightarrow> bool \<times> string" where
  "override_outcome overrides rule =
     (case (case overrides of JObj d \<Rightarrow> dget_or d rule (JObj []) | _ \<Rightarrow> JObj []) of
        JObj row \<Rightarrow> (truthy (dget_or row ''ok'' (JBool True)), py_str (dget_or row ''reason'' (JStr ''ok'')))
      | _ \<Rightarrow> (True, ''ok''))"

definition registered_axes :: "string list \<Rightarrow> obj \<Rightarrow> axis_result list" where
  "registered_axes ids ctx =
     map (\<lambda>i. axis_evaluate ''runtime_check'' i (override_outcome (dget_or ctx ''rule_outcomes'' (JObj [])) i))
       (sort (remdups ids))"

section \<open>The gate on one thread\<close>

datatype 'e gate_error = LawRaised py_error | WriterRaised 'e

type_synonym 's law_enforcer = "obj \<Rightarrow> 's \<Rightarrow> law_decision res \<times> 's"

definition axis_check :: "axis_result \<Rightarrow> json" where
  "axis_check a = JObj [(''rule_id'', JStr (ax_rule a)), (''ok'', JBool (ax_ok a)), (''reason'', JStr (ax_reason a))]"

record law_request =
  gr_mutation :: string
  gr_trust :: string
  gr_payload :: obj
  gr_context :: obj
  gr_override :: bool

definition serial_law_context :: "law_request \<Rightarrow> axis_result list \<Rightarrow> obj" where
  "serial_law_context q axes =
     [(''mutation_id'', JStr (gr_mutation q)), (''trust_mode'', JStr (gr_trust q)),
      (''mutation_payload'', JObj (gr_payload q)), (''mutation_context'', JObj (gr_context q)),
      (''checks'', JList (map axis_check axes))]"

definition identity_payload :: "governance_decision \<Rightarrow> obj" where
  "identity_payload d =
     [(''approved'', JBool (go_approved d)), (''decision'', JStr (go_decision d)), (''mutation_id'', JStr (go_mutation d)),
      (''trust_mode'', JStr (go_trust d)), (''reason_codes'', JList (map JStr (go_reasons d))),
      (''failed_rules'', JList (map JObj (go_failed d))), (''human_override'', JBool (go_override d)),
      (''axis_results'', JList (map (JObj \<circ> axis_obj) (go_axes d)))]"

definition serial_decision :: "(string \<Rightarrow> string) \<Rightarrow> law_request \<Rightarrow> axis_result list \<Rightarrow> law_decision \<Rightarrow> governance_decision" where
  "serial_decision sha q axes ld =
     (let over = gr_override q \<and> \<not> ld_passed ld;
          d = \<lparr>go_approved = (ld_passed ld \<or> over), go_decision = (if over then ''override_pass'' else ld_decision ld),
               go_mutation = gr_mutation q, go_trust = gr_trust q,
               go_reasons = ld_reasons ld @ (if over then [''human_override''] else []),
               go_failed = ld_failed ld, go_axes = axes, go_override = gr_override q, go_id = [], go_mode = ''serial''\<rparr>
      in d\<lparr>go_id := sha256_prefixed sha (canonical False (JObj (identity_payload d)))\<rparr>)"

definition override_payload :: "governance_decision \<Rightarrow> obj" where
  "override_payload d =
     [(''decision_id'', JStr (go_id d)), (''mutation_id'', JStr (go_mutation d)), (''trust_mode'', JStr (go_trust d)),
      (''reason_codes'', JList (map JStr (go_reasons d)))]"

definition lift_law :: "'a res \<times> 's \<Rightarrow> ('e gate_error + 'a) \<times> 's" where
  "lift_law r = (case r of (Inl e, s) \<Rightarrow> (Inl (LawRaised e), s) | (Inr x, s) \<Rightarrow> (Inr x, s))"

definition lift_writer :: "('e + 'a) \<times> 's \<Rightarrow> ('e gate_error + 'a) \<times> 's" where
  "lift_writer r = (case r of (Inl e, s) \<Rightarrow> (Inl (WriterRaised e), s) | (Inr x, s) \<Rightarrow> (Inr x, s))"

definition approve_serial ::
  "(string \<Rightarrow> string) \<Rightarrow> 's law_enforcer \<Rightarrow> ('e, 's) tx_writer \<Rightarrow> law_request \<Rightarrow> axis_result list \<Rightarrow> 's \<Rightarrow>
   ('e gate_error + governance_decision) \<times> 's" where
  "approve_serial sha law w q axes s =
     (let ordered = sort_key axis_key axes
      in ethen (lift_law (law (serial_law_context q ordered) s)) (\<lambda>ld s1.
         let d = serial_decision sha q ordered ld
         in ethen (lift_writer (w ''governance_gate_decision.v1'' (gate_payload d) s1)) (\<lambda>r s2.
              if gr_override q
              then ethen (lift_writer (w ''governance_gate_human_override.v1'' (override_payload d) s2)) (\<lambda>r s3. (Inr d, s3))
              else (Inr d, s2))))"

section \<open>The gate on several threads\<close>

text \<open>What a probe came to within its timeout; the texts are the timeout and the exception's type.\<close>

datatype probe_outcome = Returned bool string | TimedOut string | RaisedIn string

record axis_spec =
  as_axis :: string
  as_rule :: string
  as_outcome :: probe_outcome

fun spec_result :: "axis_spec \<Rightarrow> axis_result" where
  "spec_result a =
     (case as_outcome a of
        Returned ok r \<Rightarrow> axis_evaluate (as_axis a) (as_rule a) (ok, r)
      | TimedOut t \<Rightarrow> \<lparr>ax_axis = as_axis a, ax_rule = as_rule a, ax_ok = False, ax_reason = ''axis_timeout:'' @ t @ ''s''\<rparr>
      | RaisedIn x \<Rightarrow> \<lparr>ax_axis = as_axis a, ax_rule = as_rule a, ax_ok = False, ax_reason = ''axis_exception:'' @ x\<rparr>)"

declare spec_result.simps [simp del]

definition evaluate_axes_parallel :: "axis_spec list \<Rightarrow> axis_result list" where
  "evaluate_axes_parallel specs = sort_key axis_key (map spec_result specs)"

definition failed_axis :: "axis_result \<Rightarrow> obj" where
  "failed_axis a = [(''axis'', JStr (ax_axis a)), (''rule_id'', JStr (ax_rule a))]"

definition rule_text :: "obj \<Rightarrow> string" where
  "rule_text r = py_str (dget_or r ''rule_id'' (JStr []))"

text \<open>The loops that add the law's reason codes and failed rules, each once.\<close>

definition merge_codes :: "string list \<Rightarrow> string list \<Rightarrow> string list" where
  "merge_codes codes new = foldl (\<lambda>cs c. if c \<in> set cs then cs else cs @ [c]) codes new"

fun merge_failed :: "obj list \<Rightarrow> string list \<Rightarrow> obj list \<Rightarrow> obj list" where
  "merge_failed failed ids [] = failed"
| "merge_failed failed ids (r # rs) =
     (if rule_text r \<in> set ids \<or> r \<in> set failed then merge_failed failed ids rs
      else merge_failed (failed @ [r]) (rule_text r # ids) rs)"

definition failed_key :: "obj \<Rightarrow> string \<times> string" where
  "failed_key r = (py_str (dget_or r ''axis'' (JStr [])), rule_text r)"

definition parallel_law_context :: "law_request \<Rightarrow> axis_result list \<Rightarrow> obj" where
  "parallel_law_context q axes =
     [(''mutation_id'', JStr (gr_mutation q)), (''trust_mode'', JStr (gr_trust q)),
      (''checks'', JList (map axis_check axes)),
      (''failed_rules'', JList (map (JObj \<circ> failed_axis) (filter (\<lambda>a. \<not> ax_ok a) axes))),
      (''human_override'', JBool (gr_override q))]"

definition parallel_decision :: "(string \<Rightarrow> string) \<Rightarrow> law_request \<Rightarrow> axis_result list \<Rightarrow> law_decision \<Rightarrow> governance_decision" where
  "parallel_decision sha q axes ld =
     (let failed = filter (\<lambda>a. \<not> ax_ok a) axes;
          codes = merge_codes (map ax_reason failed) (if ld_passed ld then [] else ld_reasons ld);
          rules = merge_failed (map failed_axis failed) (map ax_rule failed) (if ld_passed ld then [] else ld_failed ld);
          clean = (failed = [] \<and> ld_passed ld);
          over = gr_override q \<and> \<not> clean;
          reasons = sort (if over then merge_codes codes [''human_override''] else codes);
          ordered = sort_key failed_key rules;
          payload = [(''mutation_id'', JStr (gr_mutation q)), (''trust_mode'', JStr (gr_trust q)),
            (''approved'', JBool (clean \<or> over)), (''reason_codes'', JList (map JStr reasons)),
            (''failed_rules'', JList (map JObj ordered)), (''axis_results'', JList (map (JObj \<circ> axis_obj) axes)),
            (''human_override'', JBool (gr_override q)), (''gate_version'', JStr ''v1.0.0'')]
      in \<lparr>go_approved = (clean \<or> over),
          go_decision = (if over then ''override_pass'' else if clean then ''approve'' else ''reject''),
          go_mutation = gr_mutation q, go_trust = gr_trust q, go_reasons = reasons, go_failed = ordered,
          go_axes = axes, go_override = gr_override q,
          go_id = sha256_prefixed sha (canonical False (JObj payload)), go_mode = ''serial''\<rparr>)"

definition approve_parallel ::
  "(string \<Rightarrow> string) \<Rightarrow> 's law_enforcer \<Rightarrow> ('e, 's) tx_writer \<Rightarrow> law_request \<Rightarrow> axis_spec list \<Rightarrow> 's \<Rightarrow>
   ('e gate_error + governance_decision) \<times> 's" where
  "approve_parallel sha law w q specs s =
     (let axes = evaluate_axes_parallel specs
      in ethen (lift_law (law (parallel_law_context q axes) s)) (\<lambda>ld s1.
         let d = parallel_decision sha q axes ld
         in ethen (lift_writer (w ''mutation_parallel_gate_decision'' (gate_payload d) s1)) (\<lambda>r s2. (Inr d, s2))))"

section \<open>The entry point\<close>

definition fallback_payload :: "law_request \<Rightarrow> string \<Rightarrow> obj" where
  "fallback_payload q x =
     [(''mutation_id'', JStr (gr_mutation q)), (''trust_mode'', JStr (gr_trust q)), (''exception_type'', JStr x),
      (''fallback_mode'', JStr ''serial'')]"

text \<open>\<open>axes\<close> is \<open>None\<close> when the caller gives no results; \<open>xname\<close> names the type of an exception.\<close>

definition approve_mutation ::
  "(string \<Rightarrow> string) \<Rightarrow> 's law_enforcer \<Rightarrow> ('e, 's) tx_writer \<Rightarrow> ('e gate_error \<Rightarrow> string) \<Rightarrow> string list res \<Rightarrow>
   bool \<Rightarrow> law_request \<Rightarrow> axis_result list option \<Rightarrow> 's \<Rightarrow> ('e gate_error + governance_decision) \<times> 's" where
  "approve_mutation sha law w xname ids parallel q given s =
     ethen (case given of
              Some axes \<Rightarrow> (Inr axes, s)
            | None \<Rightarrow> lift_law (ebind ids (\<lambda>is. Inr (registered_axes is (gr_context q))), s)) (\<lambda>axes s.
       if \<not> parallel then approve_serial sha law w q axes s
       else
         case approve_parallel sha law w q
             (map (\<lambda>a. \<lparr>as_axis = ax_axis a, as_rule = ax_rule a, as_outcome = Returned (ax_ok a) (ax_reason a)\<rparr>) axes) s of
           (Inr d, s1) \<Rightarrow> (Inr (d\<lparr>go_mode := ''parallel''\<rparr>), s1)
         | (Inl e, s1) \<Rightarrow>
             ethen (lift_writer (w ''governance_parallel_fallback.v1'' (fallback_payload q (xname e)) s1)) (\<lambda>r s2.
               approve_serial sha law w q axes s2))"

section \<open>The law on the axes\<close>

definition check_obj :: "axis_result \<Rightarrow> obj" where
  "check_obj a = [(''rule_id'', JStr (ax_rule a)), (''ok'', JBool (ax_ok a)), (''reason'', JStr (ax_reason a))]"

text \<open>An axis that holds a mutation back: a failed one whose rule is named, enabled and blocking.\<close>

definition axis_blocks :: "(string, law_rule) dict \<Rightarrow> axis_result \<Rightarrow> bool" where
  "axis_blocks rules a \<longleftrightarrow>
     \<not> ax_ok a \<and> ax_rule a \<noteq> [] \<and> lr_enabled (rule_of rules (ax_rule a)) \<and> lr_severity (rule_of rules (ax_rule a)) = ''blocking''"

lemma axis_check_obj: "axis_check a = JObj (check_obj a)"
  by (simp add: axis_check_def check_obj_def)

lemma check_obj_blocks [simp]: "check_blocks rules (check_obj a) = axis_blocks rules a"
proof -
  have "text_at (check_obj a) ''rule_id'' = ax_rule a" by (simp add: check_obj_def)
  moreover have "truthy (dget_or (check_obj a) ''ok'' (JBool False)) = ax_ok a" by (simp add: check_obj_def dget_or_def)
  ultimately show ?thesis by (auto simp: check_blocks_def axis_blocks_def)
qed

lemma checks_objs: "emap as_obj (map axis_check axes) = Inr (map check_obj axes)"
  by (induction axes) (simp_all add: axis_check_obj)

definition law_outcome ::
  "('e, 's) tx_writer \<Rightarrow> policy_file \<Rightarrow> obj \<Rightarrow> axis_result list \<Rightarrow> law_state \<times> 's \<Rightarrow> law_decision res \<times> law_state \<times> 's" where
  "law_outcome w p ctx axes s =
     (case reload_founders_law False p (fst s) of
        (Inl e, st) \<Rightarrow> (Inl e, st, snd s)
      | (Inr rules, st) \<Rightarrow>
          (let d = law_verdict rules (map check_obj axes)
           in (Inr d, st, snd (w ''founders_law_evaluation'' (law_payload ctx d) (snd s)))))"

lemma enforce_axes:
  assumes "dget ctx ''checks'' = Some (JList (map axis_check axes))"
  shows "enforce_law w p ctx s = law_outcome w p ctx axes s"
proof -
  have "ebind (py_list (get_or_truthy ctx ''checks'' (JList []))) (emap as_obj) = Inr (map check_obj axes)"
    using checks_objs [of axes] by (cases axes) (simp_all add: get_or_truthy_def assms)
  then show ?thesis
    unfolding enforce_law_def law_outcome_def by (simp only:) (simp add: Let_def split: prod.split sum.split)
qed

lemma serial_context_checks: "dget (serial_law_context q axes) ''checks'' = Some (JList (map axis_check axes))"
  by (simp add: serial_law_context_def)

lemma parallel_context_checks: "dget (parallel_law_context q axes) ''checks'' = Some (JList (map axis_check axes))"
  by (simp add: parallel_law_context_def)

lemma verdict_passes: "ld_passed (law_verdict rules (map check_obj axes)) \<longleftrightarrow> \<not> list_ex (axis_blocks rules) axes"
  by (simp add: law_passed list_ex_iff)

lemma list_ex_sort [simp]: "list_ex P (sort_key f xs) = list_ex P xs"
  by (simp add: list_ex_iff)

lemma lift_simps [simp]:
  "lift_law (Inl e, s) = (Inl (LawRaised e), s)" "lift_law (Inr x, s) = (Inr x, s)"
  "lift_writer (Inl u, s) = (Inl (WriterRaised u), s)" "lift_writer (Inr x, s) = (Inr x, s)"
  by (simp_all add: lift_law_def lift_writer_def)

lemma lift_Inr:
  "lift_law r = (Inr x, s) \<longleftrightarrow> r = (Inr x, s)" "lift_writer r' = (Inr y, s) \<longleftrightarrow> r' = (Inr y, s)"
  by (auto simp: lift_law_def lift_writer_def split: prod.splits sum.splits)

lemma law_outcome_Inr:
  assumes "law_outcome w p ctx axes s = (Inr ld, s')"
  obtains rules where "fst (reload_founders_law False p (fst s)) = Inr rules" "ld = law_verdict rules (map check_obj axes)"
  using assms by (auto simp: law_outcome_def Let_def split: prod.splits sum.splits)

lemma serial_Inr:
  assumes "approve_serial sha (enforce_law w p) w' q axes s = (Inr d, t)"
  obtains rules where "fst (reload_founders_law False p (fst s)) = Inr rules"
    "d = serial_decision sha q (sort_key axis_key axes) (law_verdict rules (map check_obj (sort_key axis_key axes)))"
  using assms
  by (auto simp: approve_serial_def enforce_axes [OF serial_context_checks] ethen_Inr lift_Inr Let_def
      split: if_splits elim!: law_outcome_Inr)

lemma parallel_Inr:
  assumes "approve_parallel sha (enforce_law w p) w' q specs s = (Inr d, t)"
  obtains rules where "fst (reload_founders_law False p (fst s)) = Inr rules"
    "d = parallel_decision sha q (evaluate_axes_parallel specs)
      (law_verdict rules (map check_obj (evaluate_axes_parallel specs)))"
  using assms
  by (auto simp: approve_parallel_def enforce_axes [OF parallel_context_checks] ethen_Inr lift_Inr Let_def
      elim!: law_outcome_Inr)

lemma serial_decision_fields [simp]:
  "go_approved (serial_decision sha q axes ld) \<longleftrightarrow> ld_passed ld \<or> gr_override q"
  "go_decision (serial_decision sha q axes ld) = (if gr_override q \<and> \<not> ld_passed ld then ''override_pass'' else ld_decision ld)"
  by (auto simp: serial_decision_def Let_def)

lemma parallel_decision_approved:
  "go_approved (parallel_decision sha q axes ld) \<longleftrightarrow> (list_all ax_ok axes \<and> ld_passed ld) \<or> gr_override q"
  by (auto simp: parallel_decision_def Let_def list_all_iff filter_empty_conv)

lemma axis_blocks_failed: "list_ex (axis_blocks rules) axes \<Longrightarrow> \<not> list_all ax_ok axes"
  by (auto simp: axis_blocks_def list_ex_iff list_all_iff)


section \<open>The gate on the journal\<close>

text \<open>
  \<open>journal.append_tx\<close> as the writer of the gate and of the law: no tenant and no transaction id; the clock
  gives, for an event type, the two time stamps of its row and the time of its write.\<close>

type_synonym tx_clock = "string \<Rightarrow> string \<times> string \<times> int"

definition journal_writer :: "(string \<Rightarrow> string) \<Rightarrow> tx_clock \<Rightarrow> (journal_error, journal_disk) tx_writer" where
  "journal_writer sha clock ty p j =
     append_tx sha \<lparr>tx_type = ty, tx_payload = p, tx_id = None, tx_stamp = fst (clock ty),
       tx_ts = fst (snd (clock ty)), tx_tenant = [], tx_now = snd (snd (clock ty))\<rparr> j"

definition beside_law :: "('e, 's) tx_writer \<Rightarrow> ('e, law_state \<times> 's) tx_writer" where
  "beside_law w ty p s = (fst (w ty p (snd s)), fst s, snd (w ty p (snd s)))"

text \<open>The gate of the running system: both ledgers are the journal.\<close>

definition approve_on_journal ::
  "(string \<Rightarrow> string) \<Rightarrow> tx_clock \<Rightarrow> policy_file \<Rightarrow> law_request \<Rightarrow> axis_result list \<Rightarrow> law_state \<times> journal_disk \<Rightarrow>
   (journal_error gate_error + governance_decision) \<times> law_state \<times> journal_disk" where
  "approve_on_journal sha clock p q axes s =
     approve_serial sha (enforce_law (journal_writer sha clock) p) (beside_law (journal_writer sha clock)) q axes s"

definition row_of :: "obj \<Rightarrow> string \<times> json option" where
  "row_of e = (text_at e ''type'', dget e ''payload'')"

lemma row_of_entry [simp]:
  "row_of (tx_entry sha \<lparr>tx_type = t, tx_payload = p, tx_id = i, tx_stamp = a, tx_ts = b, tx_tenant = [], tx_now = n\<rparr> ty prev)
   = (ty, Some (JObj p))"
  by (cases ty) (simp_all add: row_of_def tx_entry_def tx_body_def with_tenant_def text_at_def get_or_truthy_def)

text \<open>Event types that the taxonomy leaves as they are.\<close>

lemma gate_types:
  "normalize_event_type [(''event_type'', JStr ''founders_law_evaluation'')] = ''founders_law_evaluation'' \<and> ''founders_law_evaluation'' \<noteq> []"
  "normalize_event_type [(''event_type'', JStr ''governance_gate_decision.v1'')] = ''governance_gate_decision.v1'' \<and> ''governance_gate_decision.v1'' \<noteq> []"
  "normalize_event_type [(''event_type'', JStr ''governance_gate_human_override.v1'')] = ''governance_gate_human_override.v1'' \<and> ''governance_gate_human_override.v1'' \<noteq> []"
  by code_simp+

lemma journal_writer_ok:
  assumes "journal_inv sha es j" "py_value (JObj p)" "dget p ''agm_step'' = None"
    and "normalize_event_type [(''event_type'', JStr ty)] = ty \<and> ty \<noteq> []"
  shows "\<exists>e j'. journal_writer sha clock ty p j = (Inr e, j') \<and> row_of e = (ty, Some (JObj p)) \<and> journal_inv sha (es @ [e]) j'"
proof -
  let ?a = "\<lparr>tx_type = ty, tx_payload = p, tx_id = None, tx_stamp = fst (clock ty),
       tx_ts = fst (snd (clock ty)), tx_tenant = [], tx_now = snd (snd (clock ty))\<rparr>"
  have "tx_check ?a = Inr ty"
    using assms(3,4) by (simp add: tx_check_def validate_event_type_for_agm_step_def dget_or_def)
  from append_tx_ok [OF assms(1) this] assms(2) obtain j' where
    "append_tx sha ?a j = (Inr (tx_entry sha ?a ty (tip GENESIS_HASH es)), j')"
    "journal_inv sha (es @ [tx_entry sha ?a ty (tip GENESIS_HASH es)]) j'" by auto
  then show ?thesis unfolding journal_writer_def by (intro exI conjI) simp_all
qed

lemma law_payload_ok [simp]: "py_value (JObj (law_payload ctx d))" "dget (law_payload ctx d) ''agm_step'' = None"
  by (auto simp: law_payload_def list_all_iff)

lemma law_failed_ok: "f \<in> set (ld_failed (law_verdict rules cs)) \<Longrightarrow> py_value (JObj f)"
  by (auto simp: law_verdict_def split: prod.splits)

lemma gate_payload_ok:
  assumes "list_all (\<lambda>f. py_value (JObj f)) (go_failed d)"
  shows "py_value (JObj (gate_payload d))"
  using assms by (auto simp: gate_payload_def axis_obj_def list_all_iff)

lemma gate_no_step: "dget (gate_payload d) ''agm_step'' = None"
  by (simp add: gate_payload_def)

lemma override_payload_ok [simp]: "py_value (JObj (override_payload d))" "dget (override_payload d) ''agm_step'' = None"
  by (auto simp: override_payload_def list_all_iff)

lemma serial_failed [simp]: "go_failed (serial_decision sha q axes ld) = ld_failed ld"
  by (simp add: serial_decision_def Let_def)

lemma reload_state:
  "reload_founders_law force p st = (Inr rules, st') \<Longrightarrow> ls_rules st' = rules"
  by (auto simp: reload_founders_law_def split: if_splits sum.splits)

section \<open>A request\<close>

definition demo_law_request :: law_request where
  "demo_law_request = \<lparr>gr_mutation = ''m1'', gr_trust = ''standard'', gr_payload = [], gr_context = [], gr_override = False\<rparr>"

definition demo_spec :: "string \<Rightarrow> axis_spec" where
  "demo_spec rule = \<lparr>as_axis = ''entropy'', as_rule = rule, as_outcome = Returned False ''over budget''\<rparr>"

definition quiet_writer :: "(py_error, unit) tx_writer" where
  "quiet_writer ty p s = (Inr p, s)"

definition quiet_law :: "unit law_enforcer" where
  "quiet_law ctx s = (fst (enforce_law quiet_writer None ctx (law_start, s)), s)"

lemma start_rules [simp]: "reload_founders_law False None law_start = (Inr DEFAULT_LAW_RULES, law_start)"
  by (simp add: reload_founders_law_def law_start_def)

lemma quiet_serial:
  "approve_serial sha (enforce_law quiet_writer None) (beside_law quiet_writer) q axes (law_start, ())
   = (Inr (serial_decision sha q (sort_key axis_key axes)
        (law_verdict DEFAULT_LAW_RULES (map check_obj (sort_key axis_key axes)))), law_start, ())"
  by (simp add: approve_serial_def enforce_axes [OF serial_context_checks] law_outcome_def Let_def
      quiet_writer_def beside_law_def)

lemma quiet_parallel:
  "approve_parallel sha (enforce_law quiet_writer None) (beside_law quiet_writer) q specs (law_start, ())
   = (Inr (parallel_decision sha q (evaluate_axes_parallel specs)
        (law_verdict DEFAULT_LAW_RULES (map check_obj (evaluate_axes_parallel specs)))), law_start, ())"
  by (simp add: approve_parallel_def enforce_axes [OF parallel_context_checks] law_outcome_def Let_def
      quiet_writer_def beside_law_def)

lemma demo_blocks:
  "axis_blocks DEFAULT_LAW_RULES (spec_result (demo_spec ''r''))"
  "\<not> axis_blocks DEFAULT_LAW_RULES (spec_result (demo_spec []))"
  by code_simp+

lemma demo_failed [simp]: "\<not> ax_ok (spec_result (demo_spec r))"
  by (simp add: demo_spec_def spec_result.simps axis_evaluate_def)

lemma demo_no_override [simp]: "\<not> gr_override demo_law_request"
  by (simp add: demo_law_request_def)

section \<open>Properties\<close>

text \<open>
  C5 (functional): what the gate approves. A decision of the gate under the founders law approves
  exactly when a human overrides or no axis blocks, that is no failed axis names a rule that the policy has
  enabled as blocking; the decision says pass, fail, or override_pass when only the override let it through.\<close>

theorem gate_approves_exactly:
  assumes "approve_serial sha (enforce_law w p) w' q axes s = (Inr d, t)"
  shows "\<exists>rules. fst (reload_founders_law False p (fst s)) = Inr rules \<and>
    (go_approved d \<longleftrightarrow> gr_override q \<or> \<not> list_ex (axis_blocks rules) axes) \<and>
    go_decision d = (if \<not> list_ex (axis_blocks rules) axes then ''pass'' else if gr_override q then ''override_pass'' else ''fail'')"
proof -
  obtain rules where r: "fst (reload_founders_law False p (fst s)) = Inr rules"
    and d: "d = serial_decision sha q (sort_key axis_key axes) (law_verdict rules (map check_obj (sort_key axis_key axes)))"
    by (rule serial_Inr [OF assms])
  then show ?thesis
    by (intro exI [of _ rules]) (auto simp: verdict_passes law_verdict_cases)
qed

theorem gate_approves_exactly_witness:
  "\<exists>d. fst (approve_serial (\<lambda>s. ''h'') (enforce_law quiet_writer None) (beside_law quiet_writer) demo_law_request
      [spec_result (demo_spec ''r'')] (law_start, ())) = Inr d \<and> \<not> go_approved d \<and> go_decision d = ''fail''"
proof -
  from gate_approves_exactly [OF quiet_serial, of "\<lambda>s. ''h''" demo_law_request "[spec_result (demo_spec ''r'')]"] demo_blocks(1)
  show ?thesis by (simp add: quiet_serial)
qed

text \<open>
  The two gates disagree on advisory failures. For the same axes and law, what the parallel
  gate approves the serial one approves, and the serial gate alone approves exactly when nobody overrides, some
  axis failed, and no failed axis blocks; so the flag that only chooses threads changes decisions.\<close>

theorem parallel_gate_is_stricter:
  assumes "approve_serial sha (enforce_law w p) w' q (map spec_result specs) s = (Inr ds, t)"
    and "approve_parallel sha (enforce_law w p) w' q specs s = (Inr dp, t')"
  shows "\<exists>rules. fst (reload_founders_law False p (fst s)) = Inr rules \<and>
    (go_approved dp \<longleftrightarrow> gr_override q \<or> list_all (ax_ok \<circ> spec_result) specs) \<and>
    (go_approved dp = go_approved ds \<longleftrightarrow>
       gr_override q \<or> list_all (ax_ok \<circ> spec_result) specs \<or> list_ex (axis_blocks rules \<circ> spec_result) specs)"
proof -
  let ?axes = "map spec_result specs"
  obtain rules where r: "fst (reload_founders_law False p (fst s)) = Inr rules"
    and ds: "ds = serial_decision sha q (sort_key axis_key ?axes) (law_verdict rules (map check_obj (sort_key axis_key ?axes)))"
    by (rule serial_Inr [OF assms(1)])
  obtain rules' where r': "fst (reload_founders_law False p (fst s)) = Inr rules'"
    and dp: "dp = parallel_decision sha q (evaluate_axes_parallel specs) (law_verdict rules' (map check_obj (evaluate_axes_parallel specs)))"
    by (rule parallel_Inr [OF assms(2)])
  have same: "rules' = rules" using r r' by simp
  have serial: "go_approved ds \<longleftrightarrow> gr_override q \<or> \<not> list_ex (axis_blocks rules) ?axes"
    unfolding ds by (auto simp: verdict_passes)
  have "list_all ax_ok (sort_key axis_key ?axes) = list_all ax_ok ?axes" by (simp add: list_all_iff)
  then have parallel: "go_approved dp \<longleftrightarrow> gr_override q \<or> (list_all ax_ok ?axes \<and> \<not> list_ex (axis_blocks rules) ?axes)"
    unfolding dp parallel_decision_approved verdict_passes same evaluate_axes_parallel_def by auto
  have "list_all (ax_ok \<circ> spec_result) specs = list_all ax_ok ?axes"
    "list_ex (axis_blocks rules \<circ> spec_result) specs = list_ex (axis_blocks rules) ?axes"
    by (simp_all add: list_all_iff list_ex_iff)
  with r serial parallel axis_blocks_failed [of rules ?axes] show ?thesis by metis
qed

theorem parallel_gate_is_stricter_witness:
  "\<exists>ds dp. fst (approve_serial (\<lambda>s. ''h'') (enforce_law quiet_writer None) (beside_law quiet_writer) demo_law_request
      (map spec_result [demo_spec []]) (law_start, ())) = Inr ds \<and>
    fst (approve_parallel (\<lambda>s. ''h'') (enforce_law quiet_writer None) (beside_law quiet_writer) demo_law_request
      [demo_spec []] (law_start, ())) = Inr dp \<and> go_approved ds \<and> \<not> go_approved dp"
proof -
  from parallel_gate_is_stricter [OF quiet_serial quiet_parallel, of "\<lambda>s. ''h''" demo_law_request "[demo_spec []]"] demo_blocks(2)
  show ?thesis by (auto simp: quiet_serial quiet_parallel)
qed

text \<open>
  The order in which axes are submitted to the parallel gate has no effect, on the
  decision, the ledgers or an exception, when no two axes have the same name and rule.\<close>

theorem parallel_order_is_irrelevant:
  assumes "mset specs = mset specs'" "distinct (map (\<lambda>a. (as_axis a, as_rule a)) specs)"
  shows "approve_parallel sha law w q specs s = approve_parallel sha law w q specs' s"
proof -
  have key: "axis_key (spec_result a) = (as_axis a, as_rule a)" for a
    by (cases "as_outcome a") (simp_all add: spec_result.simps axis_key_def axis_evaluate_def)
  have "mset (map spec_result specs) = mset (map spec_result specs')" using assms(1) by simp
  moreover have "inj_on axis_key (set (map spec_result specs))"
    using assms(2) key by (force simp: distinct_map inj_on_def)
  moreover have "set (map spec_result specs) = set (map spec_result specs')"
    using \<open>mset (map spec_result specs) = mset (map spec_result specs')\<close> by (rule mset_eq_setD)
  ultimately have "sort_key axis_key (map spec_result specs) = sort_key axis_key (map spec_result specs')"
    by (intro sort_key_inj_key_eq) simp_all
  then show ?thesis by (simp add: approve_parallel_def evaluate_axes_parallel_def)
qed

theorem parallel_order_is_irrelevant_witness:
  "approve_parallel (\<lambda>s. ''h'') quiet_law quiet_writer demo_law_request [demo_spec ''b'', demo_spec ''a''] ()
   = approve_parallel (\<lambda>s. ''h'') quiet_law quiet_writer demo_law_request [demo_spec ''a'', demo_spec ''b''] ()"
  by (rule parallel_order_is_irrelevant) (simp_all add: demo_spec_def)

text \<open>
  C25 (functional): the gate of the running system leaves its decision on the journal. Whenever the policy
  can be read and the journal is in order, the gate returns a decision, and it appended to the journal
  exactly the evaluation of the law, the decision and, under an override, the override, in this order and
  with the decision's own fields; the journal it leaves is in order again.\<close>

theorem gate_decision_is_journaled:
  assumes "journal_inv sha es j" "reload_founders_law False p ls = (Inr rules, ls')"
  shows "\<exists>d rows j'. approve_on_journal sha clock p q axes (ls, j) = (Inr d, ls', j') \<and>
    journal_inv sha (es @ rows) j' \<and>
    map row_of rows =
      [(''founders_law_evaluation'', Some (JObj (law_payload (serial_law_context q (sort_key axis_key axes))
          (law_verdict rules (map check_obj (sort_key axis_key axes)))))),
       (''governance_gate_decision.v1'', Some (JObj (gate_payload d)))] @
      (if gr_override q then [(''governance_gate_human_override.v1'', Some (JObj (override_payload d)))] else [])"
proof -
  let ?axes = "sort_key axis_key axes" and ?w = "journal_writer sha clock"
  let ?ld = "law_verdict rules (map check_obj ?axes)"
  let ?d = "serial_decision sha q ?axes ?ld"
  obtain e1 j1 where w1: "?w ''founders_law_evaluation'' (law_payload (serial_law_context q ?axes) ?ld) j = (Inr e1, j1)"
    "row_of e1 = (''founders_law_evaluation'', Some (JObj (law_payload (serial_law_context q ?axes) ?ld)))"
    "journal_inv sha (es @ [e1]) j1"
    using journal_writer_ok [OF assms(1) law_payload_ok gate_types(1)] by blast
  have pv: "py_value (JObj (gate_payload ?d))"
    by (rule gate_payload_ok) (auto simp: list_all_iff dest: law_failed_ok simp del: py_value.simps)
  obtain e2 j2 where w2: "?w ''governance_gate_decision.v1'' (gate_payload ?d) j1 = (Inr e2, j2)"
    "row_of e2 = (''governance_gate_decision.v1'', Some (JObj (gate_payload ?d)))" "journal_inv sha (es @ [e1, e2]) j2"
    using journal_writer_ok [OF w1(3) pv gate_no_step gate_types(2)] unfolding append_assoc append_Cons append_Nil by blast
  obtain e3 j3 where w3: "?w ''governance_gate_human_override.v1'' (override_payload ?d) j2 = (Inr e3, j3)"
    "row_of e3 = (''governance_gate_human_override.v1'', Some (JObj (override_payload ?d)))"
    "journal_inv sha (es @ [e1, e2, e3]) j3"
    using journal_writer_ok [OF w2(3) override_payload_ok gate_types(3)] unfolding append_assoc append_Cons append_Nil by blast
  have run: "approve_on_journal sha clock p q axes (ls, j) = (Inr ?d, ls', if gr_override q then j3 else j2)"
    by (simp add: approve_on_journal_def approve_serial_def enforce_axes [OF serial_context_checks] law_outcome_def
        assms(2) Let_def beside_law_def w1(1) w2(1) w3(1))
  show ?thesis
    using run w1(2) w2(2,3) w3(2,3)
    by (intro exI [of _ ?d] exI [of _ "if gr_override q then [e1, e2, e3] else [e1, e2]"]) auto
qed

theorem gate_decision_is_journaled_witness:
  "\<exists>d e1 e2 j'. approve_on_journal (\<lambda>s. ''h'') (\<lambda>ty. (''20260101000000'', ''2026-01-01T00:00:00Z'', 5)) None demo_law_request
      [spec_result (demo_spec ''r'')] (law_start, empty_journal) = (Inr d, law_start, j') \<and>
    journal_inv (\<lambda>s. ''h'') [e1, e2] j' \<and> row_of e2 = (''governance_gate_decision.v1'', Some (JObj (gate_payload d)))"
proof -
  have "journal_inv (\<lambda>s. ''h'') [] empty_journal"
    by (simp add: journal_inv_def well_chained_def empty_journal_def content_def tail_ok_def read_tail_state_def cache_ok_def)
  from gate_decision_is_journaled [OF this start_rules, of "\<lambda>ty. (''20260101000000'', ''2026-01-01T00:00:00Z'', 5)"
      demo_law_request "[spec_result (demo_spec ''r'')]"]
  show ?thesis by auto
qed

end
