(* ===== verification/ConstitutionPolicy.thy ===== *)
theory ConstitutionPolicy
  imports FoundersLaw Rounding
begin

text \<open>
  The policy half of \<open>runtime/constitution.py\<close>: tiers, severities and rules, the schema of the policy file,
  loading it at boot and again for an amendment, and the fingerprint of what governs. The files are their texts;
  \<open>yaml\<close> is the YAML reader that is installed, \<open>None\<close> for its error, \<open>number\<close> the value of \<open>float\<close> on a text
  and \<open>source\<close> the hash of a validator's source by its name. The writers of the two ledgers are arguments.
  A document is a JSON value, and these have no floats: the shipped policy is a value with another number in place of the
  \<open>degraded_threshold\<close> 0.6 of its health rule, a key the module never reads. A text that \<open>float\<close> reads as an infinity or as no number
  counts as unreadable.
\<close>

section \<open>Tiers and severities\<close>

datatype severity = BLOCKING | WARNING | ADVISORY

datatype tier = PRODUCTION | STABLE | SANDBOX

fun severity_value :: "severity \<Rightarrow> string" where
  "severity_value BLOCKING = ''blocking''"
| "severity_value WARNING = ''warning''"
| "severity_value ADVISORY = ''advisory''"

fun severity_order :: "severity \<Rightarrow> nat" where
  "severity_order ADVISORY = 0"
| "severity_order WARNING = 1"
| "severity_order BLOCKING = 2"

fun tier_name :: "tier \<Rightarrow> string" where
  "tier_name PRODUCTION = ''PRODUCTION''"
| "tier_name STABLE = ''STABLE''"
| "tier_name SANDBOX = ''SANDBOX''"

fun tier_value :: "tier \<Rightarrow> int" where
  "tier_value PRODUCTION = 0"
| "tier_value STABLE = 1"
| "tier_value SANDBOX = 2"

abbreviation "all_tiers \<equiv> [PRODUCTION, STABLE, SANDBOX]"
abbreviation "all_severities \<equiv> [BLOCKING, WARNING, ADVISORY]"
abbreviation "allowed_severities \<equiv> map severity_value all_severities"

text \<open>\<open>Severity(value)\<close>, \<open>Severity[name]\<close> and \<open>Tier[name]\<close>\<close>

definition severity_of :: "string \<Rightarrow> severity res" where
  "severity_of v = (case find (\<lambda>s. severity_value s = v) all_severities of
     Some s \<Rightarrow> Inr s | None \<Rightarrow> Inl (ValueError (repr_str v @ '' is not a valid Severity'')))"

definition severity_member :: "string \<Rightarrow> severity option" where
  "severity_member n = find (\<lambda>s. py_upper (severity_value s) = n) all_severities"

definition tier_member :: "string \<Rightarrow> tier option" where
  "tier_member n = find (\<lambda>t. tier_name t = n) all_tiers"

definition tier_named :: "string \<Rightarrow> tier res" where
  "tier_named n = (case tier_member n of Some t \<Rightarrow> Inr t | None \<Rightarrow> Inl (KeyError n))"

section \<open>The tier of an agent\<close>

fun occurs :: "string \<Rightarrow> string \<Rightarrow> bool" where
  "occurs w [] = (w = [])"
| "occurs w (c # cs) = (startswith (c # cs) w \<or> occurs w cs)"

text \<open>The argument is \<open>ADAAD_FORCE_TIER\<close>.\<close>

definition get_forced_tier :: "string option \<Rightarrow> tier option" where
  "get_forced_tier forced =
     (case forced of
        None \<Rightarrow> None
      | Some v \<Rightarrow> if v = [] then None else tier_member (py_upper (py_strip v)))"

definition determine_tier :: "string option \<Rightarrow> string \<Rightarrow> tier" where
  "determine_tier forced agent_id =
     (case get_forced_tier forced of
        Some t \<Rightarrow> t
      | None \<Rightarrow>
          let a = py_lower agent_id
          in if occurs ''test_subject'' a \<or> occurs ''sandbox'' a then SANDBOX
             else if list_ex (\<lambda>k. occurs k a) [''runtime'', ''security'', ''main'', ''orchestrator'', ''cryovant''] then PRODUCTION
             else STABLE)"

section \<open>Rules\<close>

record rule =
  ru_name :: string
  ru_enabled :: bool
  ru_severity :: severity
  ru_overrides :: "(tier, severity) dict"
  ru_reason :: string
  ru_validator :: string
  ru_applicability :: obj

text \<open>The registry: the key a policy names and the function behind it.\<close>

definition VALIDATOR_REGISTRY :: "(string, string) dict" where
  "VALIDATOR_REGISTRY =
     [(''single_file_scope'', ''_validate_single_file''), (''ast_validity'', ''_validate_ast''),
      (''import_smoke_test'', ''_validate_imports''), (''signature_required'', ''_validate_signature''),
      (''no_banned_tokens'', ''_validate_no_banned_tokens''), (''lineage_continuity'', ''_validate_lineage''),
      (''max_complexity_delta'', ''_validate_complexity''), (''test_coverage_maintained'', ''_validate_coverage''),
      (''max_mutation_rate'', ''_validate_mutation_rate''), (''resource_bounds'', ''_validate_resources''),
      (''entropy_budget_limit'', ''_validate_entropy_budget_limit''),
      (''deployment_authority_tier'', ''_validate_deployment_authority_tier''),
      (''revenue_credit_floor'', ''_validate_revenue_credit_floor''),
      (''reviewer_calibration'', ''_validate_reviewer_calibration''),
      (''governance_health_floor'', ''_validate_governance_health_floor''),
      (''soulbound_privacy_invariant'', ''_validate_soulbound_privacy_invariant''),
      (''bandit_arm_integrity_invariant'', ''_validate_bandit_arm_integrity''),
      (''market_signal_integrity_invariant'', ''_validate_market_signal_integrity''),
      (''phase63_ast_safe_scaffold'', ''_validate_phase63_ast_safe_scaffold''),
      (''phase63_ast_import_scaffold'', ''_validate_phase63_ast_import_scaffold''),
      (''phase63_ast_complexity_scaffold'', ''_validate_phase63_ast_complexity_scaffold''),
      (''phase63_semantic_integrity_scaffold'', ''_validate_phase63_semantic_integrity_scaffold''),
      (''phase63_exception_scope_scaffold'', ''_validate_phase63_exception_scope_scaffold'')]"

text \<open>The versions that are not \<open>1.0.0\<close>, which is also the default.\<close>

definition validator_version :: "string \<Rightarrow> string" where
  "validator_version f =
     dget_or [(''_validate_lineage'', ''2.2.0''), (''_validate_complexity'', ''1.1.0''), (''_validate_coverage'', ''1.1.0''),
       (''_validate_mutation_rate'', ''2.1.0''), (''_validate_resources'', ''1.3.0''),
       (''_validate_phase63_ast_safe_scaffold'', ''0.1.0''), (''_validate_phase63_ast_import_scaffold'', ''0.1.0''),
       (''_validate_phase63_ast_complexity_scaffold'', ''0.1.0''), (''_validate_phase63_semantic_integrity_scaffold'', ''0.1.0''),
       (''_validate_phase63_exception_scope_scaffold'', ''0.1.0'')] f ''1.0.0''"

abbreviation "constitution_version \<equiv> ''1.0.0''"

definition validator_provenance :: "(string \<Rightarrow> string) \<Rightarrow> rule \<Rightarrow> obj" where
  "validator_provenance source r =
     (let f = dget_or VALIDATOR_REGISTRY (ru_validator r) []
      in [(''validator_name'', JStr f), (''validator_version'', JStr (validator_version f)),
          (''constitution_version'', JStr constitution_version), (''validator_source_hash'', JStr (source f))])"

section \<open>The schema of the policy\<close>

definition schema :: "bool \<Rightarrow> string \<Rightarrow> unit res" where
  "schema ok what = (if ok then Inr () else Inl (ValueError (''constitution_policy_invalid_schema:'' @ what)))"

definition each :: "('a \<Rightarrow> unit res) \<Rightarrow> 'a list \<Rightarrow> unit res" where
  "each f xs = ebind (emap f xs) (\<lambda>us. Inr ())"

text \<open>\<open>v in names\<close> for a set or a dictionary with string keys: a list or dictionary cannot be looked up.\<close>

definition member_of :: "json \<Rightarrow> string list \<Rightarrow> bool res" where
  "member_of v names =
     (case v of JStr s \<Rightarrow> Inr (s \<in> set names) | JList xs \<Rightarrow> Inl TypeError | JObj d \<Rightarrow> Inl TypeError | _ \<Rightarrow> Inr False)"

text \<open>\<open>value == n\<close>; a boolean equals its number.\<close>

definition equals_int :: "json \<Rightarrow> int \<Rightarrow> bool" where
  "equals_int v n = (case v of JInt i \<Rightarrow> i = n | JBool b \<Rightarrow> (if b then 1 else 0) = n | _ \<Rightarrow> False)"

definition check_tiers :: "json \<Rightarrow> obj res" where
  "check_tiers v =
     (case v of
        JObj tiers \<Rightarrow>
          ebind (schema (tiers \<noteq> []) ''tiers'') (\<lambda>u.
          ebind (each (\<lambda>t.
             ebind (schema (tier_name t \<in> set (keys tiers)) (''missing_tier:'' @ tier_name t)) (\<lambda>u.
               schema (equals_int (dget_or tiers (tier_name t) JNull) (tier_value t)) (''tier_value_mismatch:'' @ tier_name t))) all_tiers) (\<lambda>u.
            Inr tiers))
      | _ \<Rightarrow> ebind (schema False ''tiers'') (\<lambda>u. Inr []))"

definition check_severities :: "json \<Rightarrow> unit res" where
  "check_severities v =
     (case v of
        JList xs \<Rightarrow>
          ebind (emap (\<lambda>x. member_of x allowed_severities) xs) (\<lambda>known.
            schema (list_all id known \<and> list_all (\<lambda>s. JStr s \<in> set xs) allowed_severities) ''severities'')
      | _ \<Rightarrow> schema False ''severities'')"

definition check_required_keys :: "json \<Rightarrow> json list res" where
  "check_required_keys v =
     (case v of
        JObj d \<Rightarrow>
          (case dget_or d ''required_rule_keys'' JNull of
             JList ks \<Rightarrow> ebind (schema (ks \<noteq> []) ''required_rule_keys'') (\<lambda>u. Inr ks)
           | _ \<Rightarrow> ebind (schema False ''required_rule_keys'') (\<lambda>u. Inr []))
      | _ \<Rightarrow> ebind (schema False ''immutability_constraints'') (\<lambda>u. Inr []))"

definition missing_keys :: "json list \<Rightarrow> obj \<Rightarrow> json list res" where
  "missing_keys required r =
     ebind (emap (\<lambda>k. ebind (member_of k (keys r)) (\<lambda>b. Inr (b, k))) required) (\<lambda>ps.
       Inr (map snd (filter (\<lambda>p. \<not> fst p) ps)))"

definition check_override :: "obj \<Rightarrow> string \<Rightarrow> string \<times> json \<Rightarrow> unit res" where
  "check_override tiers name p =
     ebind (schema (fst p \<in> set (keys tiers)) (''override_tier:'' @ name @ '':'' @ fst p)) (\<lambda>u.
     ebind (member_of (snd p) allowed_severities) (\<lambda>known.
       schema known (''override_severity:'' @ name @ '':'' @ py_str (snd p))))"

definition check_rule :: "obj \<Rightarrow> json list \<Rightarrow> nat \<times> json \<Rightarrow> unit res" where
  "check_rule tiers required ir =
     (case snd ir of
        JObj r \<Rightarrow>
          (let name = py_str (dget_or r ''name'' (JInt (int (fst ir))))
           in ebind (missing_keys required r) (\<lambda>missing.
              ebind (if missing = [] then Inr ()
                     else ebind (emap (\<lambda>k. case as_str k of Some s \<Rightarrow> Inr s | None \<Rightarrow> Inl TypeError) missing) (\<lambda>ss.
                       schema False (''rule_missing_keys:'' @ int_str (int (fst ir)) @ '':'' @ join '','' ss))) (\<lambda>u.
              ebind (member_of (dget_or r ''severity'' JNull) allowed_severities) (\<lambda>known.
              ebind (schema known (''rule_severity:'' @ name)) (\<lambda>u.
              ebind (member_of (dget_or r ''validator'' JNull) (keys VALIDATOR_REGISTRY)) (\<lambda>registered.
              ebind (schema registered (''validator:'' @ py_str (dget_or r ''validator'' JNull))) (\<lambda>u.
                case dget_or r ''tier_overrides'' JNull of
                  JObj os \<Rightarrow> each (check_override tiers name) os
                | _ \<Rightarrow> schema False (''tier_overrides:'' @ name))))))))
      | _ \<Rightarrow> schema False (''rule_not_object:'' @ int_str (int (fst ir))))"

definition negative_limit :: "(string \<Rightarrow> rat option) \<Rightarrow> json \<Rightarrow> bool res" where
  "negative_limit number v =
     (case v of
        JInt i \<Rightarrow> if float_fits i then Inr (i < 0) else Inl OverflowError
      | JBool b \<Rightarrow> Inr False
      | JStr s \<Rightarrow> (case number s of None \<Rightarrow> Inl (ValueError ''float'') | Some q \<Rightarrow> Inr (q < 0))
      | _ \<Rightarrow> Inl TypeError)"

abbreviation "resource_keys \<equiv> [''memory_mb'', ''cpu_seconds'', ''wall_seconds'']"

definition check_limit :: "(string \<Rightarrow> rat option) \<Rightarrow> obj \<Rightarrow> string \<Rightarrow> unit res" where
  "check_limit number limits k =
     (case negative_limit number (dget_or limits k (JInt 0)) of
        Inl OverflowError \<Rightarrow> Inl OverflowError
      | Inl e \<Rightarrow> schema False (''resource_bounds_limit_invalid:'' @ k)
      | Inr n \<Rightarrow> schema (\<not> n) (''resource_bounds_limit_negative:'' @ k))"

definition check_resource_policy :: "(string \<Rightarrow> rat option) \<Rightarrow> json \<Rightarrow> unit res" where
  "check_resource_policy number v =
     (case v of
        JObj p \<Rightarrow>
          ebind (schema (py_strip (py_str (dget_or p ''policy_version'' (JStr []))) \<noteq> []) ''resource_bounds_policy_version'') (\<lambda>u.
          ebind (case dget_or p ''limits'' JNull of
                   JObj limits \<Rightarrow> each (check_limit number limits) resource_keys
                 | _ \<Rightarrow> schema False ''resource_bounds_limits'') (\<lambda>u.
          ebind (case dget_or p ''allow_env_overrides'' JNull of
                   JList os \<Rightarrow> each (\<lambda>o'. schema (py_str o' \<in> set resource_keys)
                     (''resource_bounds_allow_env_override:'' @ py_str o')) os
                 | _ \<Rightarrow> schema False ''resource_bounds_allow_env_overrides'') (\<lambda>u.
            case dget_or p ''strict_telemetry_tiers'' (JList [JStr ''PRODUCTION'']) of
              JList ts \<Rightarrow> each (\<lambda>t. schema (tier_member (py_upper (py_strip (py_str t))) \<noteq> None)
                (''resource_bounds_strict_telemetry_tier:'' @ py_str t)) ts
            | _ \<Rightarrow> schema False ''resource_bounds_strict_telemetry_tiers'')))
      | _ \<Rightarrow> schema False ''resource_bounds_policy'')"

definition validate_policy_schema :: "(string \<Rightarrow> rat option) \<Rightarrow> obj \<Rightarrow> unit res" where
  "validate_policy_schema number p =
     ebind (schema (dget p ''version'' = Some (JStr constitution_version))
       (''version_mismatch:'' @ py_str (dget_or p ''version'' JNull) @ ''!='' @ constitution_version)) (\<lambda>u.
     ebind (check_tiers (dget_or p ''tiers'' JNull)) (\<lambda>tiers.
     ebind (check_severities (dget_or p ''severities'' JNull)) (\<lambda>u.
     ebind (check_required_keys (dget_or p ''immutability_constraints'' JNull)) (\<lambda>required.
     ebind (case dget_or p ''rules'' JNull of
              JList rs \<Rightarrow>
                ebind (schema (rs \<noteq> []) ''rules'') (\<lambda>u. each (check_rule tiers required) (enumerate 0 rs))
            | _ \<Rightarrow> schema False ''rules'') (\<lambda>u.
       check_resource_policy number (dget_or p ''resource_bounds_policy'' JNull))))))"

section \<open>Loading\<close>

text \<open>A file that holds JSON or, by its suffix, YAML; \<open>None\<close> when it is missing.\<close>

record constitution_file =
  cf_yaml :: bool
  cf_text :: "string option"

definition load_policy_document ::
  "(string \<Rightarrow> string) \<Rightarrow> (string \<Rightarrow> json option) \<Rightarrow> constitution_file \<Rightarrow> (obj \<times> string) res" where
  "load_policy_document sha yaml f =
     (case cf_text f of
        None \<Rightarrow> Inl (ValueError ''constitution_policy_missing'')
      | Some t \<Rightarrow>
          (case (if cf_yaml f then yaml t else json_loads t) of
             None \<Rightarrow> Inl (ValueError ''constitution_policy_invalid_json'')
           | Some (JObj p) \<Rightarrow> Inr (p, sha t)
           | Some v \<Rightarrow> Inl (ValueError ''constitution_policy_invalid_schema:root_not_object'')))"

definition applicability_entry :: "(string, obj) dict \<Rightarrow> nat \<times> json \<Rightarrow> (string, obj) dict res" where
  "applicability_entry ix ie =
     (case snd ie of
        JObj e \<Rightarrow>
          (let name = py_strip (py_str (dget_or e ''name'' (JStr [])))
           in if name = [] then Inl (ValueError (''rule_applicability_invalid_schema:missing_name:'' @ int_str (int (fst ie))))
              else Inr (dput name e ix))
      | _ \<Rightarrow> Inl (ValueError (''rule_applicability_invalid_schema:rule_not_object:'' @ int_str (int (fst ie)))))"

fun applicability_entries :: "(string, obj) dict \<Rightarrow> (nat \<times> json) list \<Rightarrow> (string, obj) dict res" where
  "applicability_entries ix [] = Inr ix"
| "applicability_entries ix (e # es) = ebind (applicability_entry ix e) (\<lambda>ix'. applicability_entries ix' es)"

definition load_rule_applicability :: "string option \<Rightarrow> (string, obj) dict res" where
  "load_rule_applicability f =
     (case f of
        None \<Rightarrow> Inl (ValueError ''rule_applicability_missing'')
      | Some t \<Rightarrow>
          (case json_loads t of
             None \<Rightarrow> Inl (ValueError ''rule_applicability_invalid_json'')
           | Some (JObj p) \<Rightarrow>
               (case dget_or p ''rules'' JNull of
                  JList es \<Rightarrow> applicability_entries [] (enumerate 0 es)
                | _ \<Rightarrow> Inl (ValueError ''rule_applicability_invalid_schema:rules''))
           | Some v \<Rightarrow> Inl (ValueError ''rule_applicability_invalid_schema:root_not_object'')))"

definition rule_field :: "obj \<Rightarrow> string \<Rightarrow> json res" where
  "rule_field r k = (case dget r k of Some v \<Rightarrow> Inr v | None \<Rightarrow> Inl (KeyError k))"

fun load_overrides :: "(tier, severity) dict \<Rightarrow> obj \<Rightarrow> (tier, severity) dict res" where
  "load_overrides os [] = Inr os"
| "load_overrides os ((t, s) # ps) =
     ebind (tier_named t) (\<lambda>tier.
     ebind (severity_of (py_str s)) (\<lambda>sev. load_overrides (dput tier sev os) ps))"

definition load_rule :: "(string, obj) dict \<Rightarrow> json \<Rightarrow> rule res" where
  "load_rule applicability v =
     ebind (as_obj v) (\<lambda>r.
     ebind (ebind (as_obj (get_or_truthy r ''tier_overrides'' (JObj []))) (load_overrides [])) (\<lambda>os.
     ebind (rule_field r ''name'') (\<lambda>name.
     ebind (rule_field r ''enabled'') (\<lambda>enabled.
     ebind (ebind (rule_field r ''severity'') (\<lambda>s. severity_of (py_str s))) (\<lambda>sev.
     ebind (rule_field r ''reason'') (\<lambda>reason.
     ebind (ebind (rule_field r ''validator'') (\<lambda>f. if py_str f \<in> set (keys VALIDATOR_REGISTRY) then Inr (py_str f)
                                                       else Inl (KeyError (py_str f)))) (\<lambda>validator.
       Inr \<lparr>ru_name = py_str name, ru_enabled = truthy enabled, ru_severity = sev, ru_overrides = os,
            ru_reason = py_str reason, ru_validator = validator,
            ru_applicability = dget_or applicability (py_str name) []\<rparr>)))))))"

text \<open>The module's variables: the rules, the hash of their policy, the policy document, the baseline fingerprint.\<close>

record constitution =
  cn_rules :: "rule list"
  cn_hash :: string
  cn_document :: obj
  cn_baseline :: string

definition load_constitution_policy ::
  "(string \<Rightarrow> string) \<Rightarrow> (string \<Rightarrow> json option) \<Rightarrow> (string \<Rightarrow> rat option) \<Rightarrow> constitution_file \<Rightarrow> string option \<Rightarrow>
   constitution \<Rightarrow> (rule list \<times> string) res \<times> constitution" where
  "load_constitution_policy sha yaml number f applicability c =
     ethen (load_policy_document sha yaml f, c) (\<lambda>(p, h) c.
     ethen (validate_policy_schema number p, c) (\<lambda>u c.
     ethen (load_rule_applicability applicability, c\<lparr>cn_document := p\<rparr>) (\<lambda>ix c.
     ethen (ebind (py_list (dget_or p ''rules'' (JList []))) (emap (load_rule ix)), c) (\<lambda>rules c.
       (Inr (rules, h), c)))))"

section \<open>The fingerprint\<close>

definition canonical_digest :: "(string \<Rightarrow> string) \<Rightarrow> json \<Rightarrow> string" where
  "canonical_digest sha v = sha (canonical False v)"

definition validator_hashes :: "(string \<Rightarrow> string) \<Rightarrow> rule list \<Rightarrow> obj" where
  "validator_hashes source rules =
     foldl (\<lambda>d r. dput (ru_name r) (dget_or (validator_provenance source r) ''validator_source_hash'' (JStr [])) d) []
       (sort_key ru_name rules)"

definition governance_fingerprint_components ::
  "(string \<Rightarrow> string) \<Rightarrow> (string \<Rightarrow> string) \<Rightarrow> string option \<Rightarrow> constitution \<Rightarrow> obj" where
  "governance_fingerprint_components sha source applicability c =
     [(''constitution_version'', JStr constitution_version), (''policy_hash'', JStr (cn_hash c)),
      (''applicability_hash'', JStr (sha (case applicability of Some t \<Rightarrow> t | None \<Rightarrow> []))),
      (''validator_hashes'', JObj (validator_hashes source (cn_rules c)))]"

definition current_governance_fingerprint ::
  "(string \<Rightarrow> string) \<Rightarrow> (string \<Rightarrow> string) \<Rightarrow> string option \<Rightarrow> constitution \<Rightarrow> string" where
  "current_governance_fingerprint sha source applicability c =
     canonical_digest sha (JObj (governance_fingerprint_components sha source applicability c))"

section \<open>Amendments\<close>

text \<open>\<open>journal.write_entry\<close> by agent, action and payload, and \<open>journal.append_tx\<close> by type and payload.\<close>

record ('e, 's) ledgers =
  lg_entry :: "string \<Rightarrow> string \<Rightarrow> obj \<Rightarrow> 's \<Rightarrow> ('e + unit) \<times> 's"
  lg_tx :: "('e, 's) tx_writer"

datatype 'e evaluation_error = PolicyRaised py_error | LedgerRaised 'e

definition policy_step :: "'a res \<Rightarrow> 's \<Rightarrow> ('e evaluation_error + 'a) \<times> 's" where
  "policy_step r s = (case r of Inl e \<Rightarrow> (Inl (PolicyRaised e), s) | Inr x \<Rightarrow> (Inr x, s))"

definition ledger_step :: "('e + 'a) \<times> 's \<Rightarrow> ('e evaluation_error + 'a) \<times> 's" where
  "ledger_step r = (case r of (Inl e, s) \<Rightarrow> (Inl (LedgerRaised e), s) | (Inr x, s) \<Rightarrow> (Inr x, s))"

text \<open>The same event goes to both ledgers.\<close>

definition record_both :: "('e, 's) ledgers \<Rightarrow> string \<Rightarrow> string \<Rightarrow> obj \<Rightarrow> obj \<Rightarrow> 's \<Rightarrow> ('e evaluation_error + unit) \<times> 's" where
  "record_both lg agent event entry tx s =
     ethen (ledger_step (lg_entry lg agent event entry s)) (\<lambda>u s.
     ethen (ledger_step (lg_tx lg event tx s)) (\<lambda>e s. (Inr (), s)))"

definition record_amendment :: "('e, 's) ledgers \<Rightarrow> string option \<Rightarrow> string \<Rightarrow> 's \<Rightarrow> ('e evaluation_error + unit) \<times> 's" where
  "record_amendment lg old new s =
     (case old of
        None \<Rightarrow> (Inr (), s)
      | Some h \<Rightarrow>
          if h = new then (Inr (), s)
          else let p = [(''version'', JStr constitution_version), (''old_policy_hash'', JStr h), (''new_policy_hash'', JStr new)]
               in record_both lg ''system'' ''constitutional_amendment'' p p s)"

definition reload_constitution_policy ::
  "(string \<Rightarrow> string) \<Rightarrow> (string \<Rightarrow> json option) \<Rightarrow> (string \<Rightarrow> rat option) \<Rightarrow> (string \<Rightarrow> string) \<Rightarrow> ('e, 's) ledgers \<Rightarrow>
   constitution_file \<Rightarrow> string option \<Rightarrow> constitution \<times> 's \<Rightarrow> ('e evaluation_error + string) \<times> constitution \<times> 's" where
  "reload_constitution_policy sha yaml number source lg f applicability cs =
     (case load_constitution_policy sha yaml number f applicability (fst cs) of
        (Inl e, c) \<Rightarrow> (Inl (PolicyRaised e), c, snd cs)
      | (Inr (rules, h), c) \<Rightarrow>
          (let c1 = c\<lparr>cn_rules := rules, cn_hash := h\<rparr>
           in case record_amendment lg (Some (cn_hash (fst cs))) h (snd cs) of
                (Inl e, s) \<Rightarrow> (Inl e, c1, s)
              | (Inr u, s) \<Rightarrow> (Inr h, c1\<lparr>cn_baseline := current_governance_fingerprint sha source applicability c1\<rparr>, s)))"

text \<open>At import, on a module with no policy yet; a \<open>ValueError\<close> is raised again as a \<open>RuntimeError\<close>.\<close>

datatype boot_error = BootFailed string | BootRaised py_error

definition boot_constitution ::
  "(string \<Rightarrow> string) \<Rightarrow> (string \<Rightarrow> json option) \<Rightarrow> (string \<Rightarrow> rat option) \<Rightarrow> (string \<Rightarrow> string) \<Rightarrow> constitution_file \<Rightarrow>
   string option \<Rightarrow> boot_error + constitution" where
  "boot_constitution sha yaml number source f applicability =
     (case load_constitution_policy sha yaml number f applicability \<lparr>cn_rules = [], cn_hash = [], cn_document = [], cn_baseline = []\<rparr> of
        (Inl (ValueError t), c) \<Rightarrow> Inl (BootFailed (''constitution_boot_failed:'' @ t))
      | (Inl e, c) \<Rightarrow> Inl (BootRaised e)
      | (Inr (rules, h), c) \<Rightarrow>
          (let c1 = c\<lparr>cn_rules := rules, cn_hash := h\<rparr>
           in Inr (c1\<lparr>cn_baseline := current_governance_fingerprint sha source applicability c1\<rparr>)))"

text \<open>\<open>boot_sanity_check\<close> of the version and of the access to the policy file.\<close>

definition boot_sanity_check :: "json \<Rightarrow> constitution_file \<Rightarrow> bool \<Rightarrow> string + unit" where
  "boot_sanity_check version f readable =
     (if (case as_str version of Some v \<Rightarrow> py_strip v = [] | None \<Rightarrow> True) then Inl ''boot_sanity_failed:invalid_constitution_version''
      else if cf_text f \<noteq> None \<and> \<not> readable then Inl ''boot_sanity_failed:policy_path_not_readable''
      else Inr ())"

section \<open>What loading leaves\<close>

lemma load_result:
  assumes "load_constitution_policy sha yaml number f applicability c = (Inr (rules, h), c')"
  obtains p ix where "load_policy_document sha yaml f = Inr (p, h)" "validate_policy_schema number p = Inr ()"
    "load_rule_applicability applicability = Inr ix" "c' = c\<lparr>cn_document := p\<rparr>"
    "ebind (py_list (dget_or p ''rules'' (JList []))) (emap (load_rule ix)) = Inr rules"
  using assms by (auto simp: load_constitution_policy_def ethen_Inr simp del: ebind_Inr)

lemma rule_field_Inr [simp]: "rule_field r k = Inr v \<longleftrightarrow> dget r k = Some v"
  by (simp add: rule_field_def split: option.splits)

lemma dget_or_found: "dget d k = Some v \<Longrightarrow> dget_or d k dflt = v"
  by (simp add: dget_or_def)

lemma schema_Inr [simp]: "schema ok what = Inr u \<longleftrightarrow> ok"
  by (simp add: schema_def)

lemma each_Inr [simp]: "each f xs = Inr u \<longleftrightarrow> (\<forall>x \<in> set xs. f x = Inr ())"
proof -
  have "(\<exists>us. emap f xs = Inr us) \<longleftrightarrow> (\<forall>x \<in> set xs. f x = Inr ())" by (induction xs) auto
  then show ?thesis by (auto simp: each_def)
qed

lemma member_of_Inr: "member_of v names = Inr True \<longleftrightarrow> (\<exists>s. v = JStr s \<and> s \<in> set names)"
  by (cases v) (auto simp: member_of_def)

lemma loaded_rules: "emap (load_rule ix) vs = Inr rules \<Longrightarrow> list_all2 (\<lambda>v r. load_rule ix v = Inr r) vs rules"
  by (induction vs arbitrary: rules) auto

section \<open>What a policy has to be\<close>

text \<open>The document, apart from its rules; \<open>required\<close> are the keys it asks of each rule.\<close>

definition limit_ok :: "(string \<Rightarrow> rat option) \<Rightarrow> json \<Rightarrow> bool" where
  "limit_ok number v \<longleftrightarrow>
     (\<exists>i \<ge> 0. v = JInt i \<and> float_fits i) \<or> (\<exists>b. v = JBool b) \<or> (\<exists>t q. v = JStr t \<and> number t = Some q \<and> 0 \<le> q)"

definition bounds_ok :: "(string \<Rightarrow> rat option) \<Rightarrow> obj \<Rightarrow> bool" where
  "bounds_ok number b \<longleftrightarrow>
     py_strip (py_str (dget_or b ''policy_version'' (JStr []))) \<noteq> [] \<and>
     (\<exists>limits. dget b ''limits'' = Some (JObj limits) \<and>
        (\<forall>k \<in> {''memory_mb'', ''cpu_seconds'', ''wall_seconds''}. \<forall>v. dget limits k = Some v \<longrightarrow> limit_ok number v)) \<and>
     (\<exists>ks. dget b ''allow_env_overrides'' = Some (JList ks) \<and>
        py_str ` set ks \<subseteq> {''memory_mb'', ''cpu_seconds'', ''wall_seconds''}) \<and>
     (\<forall>v. dget b ''strict_telemetry_tiers'' = Some v \<longrightarrow>
        (\<exists>ts. v = JList ts \<and> (\<forall>x \<in> set ts. py_upper (py_strip (py_str x)) \<in> {''PRODUCTION'', ''STABLE'', ''SANDBOX''})))"

definition document_ok :: "(string \<Rightarrow> rat option) \<Rightarrow> json list \<Rightarrow> obj \<Rightarrow> bool" where
  "document_ok number required p \<longleftrightarrow>
     dget p ''version'' = Some (JStr ''1.0.0'') \<and>
     (\<exists>tiers. dget p ''tiers'' = Some (JObj tiers) \<and>
        (\<forall>(n, i) \<in> {(''PRODUCTION'', 0), (''STABLE'', 1), (''SANDBOX'', 2)}. \<exists>v. dget tiers n = Some v \<and> equals_int v i)) \<and>
     (\<exists>xs. dget p ''severities'' = Some (JList xs) \<and> set xs = {JStr ''blocking'', JStr ''warning'', JStr ''advisory''}) \<and>
     (\<exists>d. dget p ''immutability_constraints'' = Some (JObj d) \<and> dget d ''required_rule_keys'' = Some (JList required) \<and> required \<noteq> []) \<and>
     (\<exists>b. dget p ''resource_bounds_policy'' = Some (JObj b) \<and> bounds_ok number b)"

text \<open>A rule and its row: all required keys are there, and name, switch, severity, reason, validator, the overrides of the tiers (the last entry
  of a name; a dictionary has one) and the entry of the applicability file are the row's.\<close>

definition rule_of_row :: "json list \<Rightarrow> (string, obj) dict \<Rightarrow> obj \<Rightarrow> rule \<Rightarrow> bool" where
  "rule_of_row required ix d r \<longleftrightarrow>
     (\<forall>k \<in> set required. \<exists>n v. k = JStr n \<and> dget d n = Some v) \<and>
     (\<exists>v. dget d ''name'' = Some v \<and> ru_name r = py_str v) \<and>
     (\<exists>v. dget d ''enabled'' = Some v \<and> ru_enabled r = truthy v) \<and>
     (\<exists>v. dget d ''reason'' = Some v \<and> ru_reason r = py_str v) \<and>
     dget d ''severity'' = Some (JStr (severity_value (ru_severity r))) \<and>
     dget d ''validator'' = Some (JStr (ru_validator r)) \<and> (\<exists>f. dget VALIDATOR_REGISTRY (ru_validator r) = Some f) \<and>
     (\<exists>os. dget d ''tier_overrides'' = Some (JObj os) \<and> (\<forall>n \<in> set (keys os). \<exists>t. n = tier_name t) \<and>
        (\<forall>t. dget (rev os) (tier_name t) = map_option (\<lambda>s. JStr (severity_value s)) (dget (ru_overrides r) t))) \<and>
     ru_applicability r = (case dget ix (ru_name r) of Some e \<Rightarrow> e | None \<Rightarrow> [])"

lemma severity_of_iff: "severity_of n = Inr sev \<longleftrightarrow> n = severity_value sev"
  by (cases sev) (auto simp: severity_of_def find_Some_iff split: option.splits)

lemma tier_named_iff: "tier_named n = Inr t \<longleftrightarrow> n = tier_name t"
  by (cases t) (auto simp: tier_named_def tier_member_def split: option.splits if_splits)

lemma tier_name_inj [simp]: "tier_name a = tier_name b \<longleftrightarrow> a = b"
  by (cases a; cases b) simp_all

lemma tier_member_iff: "tier_member n \<noteq> None \<longleftrightarrow> n \<in> {''PRODUCTION'', ''STABLE'', ''SANDBOX''}"
  by (auto simp: tier_member_def)

text \<open>The overrides that are loaded.\<close>

lemma loaded_overrides:
  assumes "load_overrides os ps = Inr os'" "\<forall>p \<in> set ps. \<exists>s. snd p = JStr s"
  shows "(\<forall>n \<in> set (keys ps). \<exists>t. n = tier_name t) \<and>
    (\<forall>t. map_option (\<lambda>s. JStr (severity_value s)) (dget os' t) =
       (case dget (rev ps) (tier_name t) of Some v \<Rightarrow> Some v | None \<Rightarrow> map_option (\<lambda>s. JStr (severity_value s)) (dget os t)))"
  using assms
proof (induction ps arbitrary: os)
  case (Cons p ps)
  obtain n s where p: "p = (n, JStr s)" using Cons.prems(2) by (cases p) auto
  then obtain t sev where t: "n = tier_name t" "s = severity_value sev" "load_overrides (dput t sev os) ps = Inr os'"
    using Cons.prems(1) by (auto simp: tier_named_iff severity_of_iff)
  from Cons.IH [OF t(3)] Cons.prems(2) have ih: "\<forall>n \<in> set (keys ps). \<exists>t. n = tier_name t"
    "\<And>x. map_option (\<lambda>s. JStr (severity_value s)) (dget os' x) =
       (case dget (rev ps) (tier_name x) of Some v \<Rightarrow> Some v | None \<Rightarrow> map_option (\<lambda>s. JStr (severity_value s)) (dget (dput t sev os) x))"
    by auto
  have "\<exists>t. n' = tier_name t" if "n' \<in> set (keys (p # ps))" for n'
    using that ih(1) t(1) by (auto simp: p keys_def)
  moreover have "map_option (\<lambda>s. JStr (severity_value s)) (dget os' x) =
      (case dget (rev (p # ps)) (tier_name x) of Some v \<Rightarrow> Some v | None \<Rightarrow> map_option (\<lambda>s. JStr (severity_value s)) (dget os x))" for x
    unfolding p using ih(2) [of x] t(1,2) by (auto simp: map_add_def split: option.splits)
  ultimately show ?case by blast
qed (simp add: keys_def)

lemma found_JNull:
  "dget_or d k JNull = JObj x \<longleftrightarrow> dget d k = Some (JObj x)" "dget_or d k JNull = JList xs \<longleftrightarrow> dget d k = Some (JList xs)"
  "dget_or d k JNull = JStr t \<longleftrightarrow> dget d k = Some (JStr t)"
  by (auto simp: dget_or_def split: option.splits)

lemma checked_tiers:
  assumes "check_tiers v = Inr tiers"
  shows "v = JObj tiers" "\<forall>(n, i) \<in> {(''PRODUCTION'', 0), (''STABLE'', 1), (''SANDBOX'', 2)}. \<exists>v. dget tiers n = Some v \<and> equals_int v i"
proof -
  have "v = JObj tiers \<and> (\<forall>t \<in> set all_tiers. tier_name t \<in> set (keys tiers) \<and> equals_int (dget_or tiers (tier_name t) JNull) (tier_value t))"
    using assms by (cases v) (simp_all add: check_tiers_def)
  moreover have "\<exists>v. dget tiers n = Some v \<and> equals_int v i" if "n \<in> set (keys tiers)" "equals_int (dget_or tiers n JNull) i" for n i
    using that by (cases "dget tiers n") (auto simp: dget_or_def equals_int_def keys_def map_of_eq_None_iff)
  ultimately show "v = JObj tiers" "\<forall>(n, i) \<in> {(''PRODUCTION'', 0), (''STABLE'', 1), (''SANDBOX'', 2)}. \<exists>v. dget tiers n = Some v \<and> equals_int v i"
    by simp_all
qed

lemma checked_severities:
  assumes "check_severities v = Inr ()"
  shows "\<exists>xs. v = JList xs \<and> set xs = {JStr ''blocking'', JStr ''warning'', JStr ''advisory''}"
proof -
  obtain xs known where v: "v = JList xs" "emap (\<lambda>x. member_of x allowed_severities) xs = Inr known" "list_all id known"
      "list_all (\<lambda>s. JStr s \<in> set xs) allowed_severities"
    using assms by (cases v) (auto simp: check_severities_def)
  from v(2,3) have "\<forall>x \<in> set xs. member_of x allowed_severities = Inr True"
    by (induction xs arbitrary: known) fastforce+
  then have "x \<in> {JStr ''blocking'', JStr ''warning'', JStr ''advisory''}" if "x \<in> set xs" for x
    using that by (auto simp: member_of_Inr)
  then have "set xs = {JStr ''blocking'', JStr ''warning'', JStr ''advisory''}" using v(4) by auto
  with v(1) show ?thesis by blast
qed

lemma checked_required:
  assumes "check_required_keys v = Inr ks"
  shows "\<exists>d. v = JObj d \<and> dget d ''required_rule_keys'' = Some (JList ks) \<and> ks \<noteq> []"
proof -
  obtain d where v: "v = JObj d" using assms by (cases v) (simp_all add: check_required_keys_def)
  then show ?thesis using assms
    by (cases "dget_or d ''required_rule_keys'' JNull") (auto simp: check_required_keys_def found_JNull)
qed

lemma checked_limit:
  assumes "check_limit number limits k = Inr ()" "dget limits k = Some v"
  shows "limit_ok number v"
proof -
  obtain n where "negative_limit number v = Inr n" "\<not> n"
    using assms by (auto simp: check_limit_def dget_or_def split: sum.splits py_error.splits)
  then show ?thesis by (cases v) (auto simp: negative_limit_def limit_ok_def split: if_splits option.splits)
qed

lemma checked_bounds:
  assumes "check_resource_policy number v = Inr ()"
  shows "\<exists>b. v = JObj b \<and> bounds_ok number b"
proof -
  obtain b where v: "v = JObj b" using assms by (cases v) (simp_all add: check_resource_policy_def)
  have limits: "(case x of JObj limits \<Rightarrow> each (check_limit number limits) resource_keys | _ \<Rightarrow> schema False what) = Inr u \<Longrightarrow>
      \<exists>limits. x = JObj limits \<and> (\<forall>k \<in> {''memory_mb'', ''cpu_seconds'', ''wall_seconds''}. check_limit number limits k = Inr ())" for x what u
    by (cases x) simp_all
  have names: "(case x of JList ks \<Rightarrow> each (\<lambda>k. schema (P k) (f k)) ks | _ \<Rightarrow> schema False what) = Inr u \<Longrightarrow>
      \<exists>ks. x = JList ks \<and> (\<forall>k \<in> set ks. P k)" for x what u P and f :: "json \<Rightarrow> string"
    by (cases x) simp_all
  have parts: "py_strip (py_str (dget_or b ''policy_version'' (JStr []))) \<noteq> []"
      "(case dget_or b ''limits'' JNull of JObj limits \<Rightarrow> each (check_limit number limits) resource_keys
        | _ \<Rightarrow> schema False ''resource_bounds_limits'') = Inr ()"
      "(case dget_or b ''allow_env_overrides'' JNull of
          JList os \<Rightarrow> each (\<lambda>o'. schema (py_str o' \<in> set resource_keys) (''resource_bounds_allow_env_override:'' @ py_str o')) os
        | _ \<Rightarrow> schema False ''resource_bounds_allow_env_overrides'') = Inr ()"
      "(case dget_or b ''strict_telemetry_tiers'' (JList [JStr ''PRODUCTION'']) of
          JList ts \<Rightarrow> each (\<lambda>t. schema (tier_member (py_upper (py_strip (py_str t))) \<noteq> None)
            (''resource_bounds_strict_telemetry_tier:'' @ py_str t)) ts
        | _ \<Rightarrow> schema False ''resource_bounds_strict_telemetry_tiers'') = Inr ()"
    using assms unfolding v check_resource_policy_def by (simp_all del: each_Inr)
  from limits [OF parts(2)] obtain limits where l: "dget b ''limits'' = Some (JObj limits)"
      "\<forall>k \<in> {''memory_mb'', ''cpu_seconds'', ''wall_seconds''}. check_limit number limits k = Inr ()"
    unfolding found_JNull by blast
  from names [OF parts(3)] obtain ks where k: "dget b ''allow_env_overrides'' = Some (JList ks)"
      "\<forall>k \<in> set ks. py_str k \<in> set resource_keys"
    unfolding found_JNull by blast
  from names [OF parts(4)] obtain ts where t: "dget_or b ''strict_telemetry_tiers'' (JList [JStr ''PRODUCTION'']) = JList ts"
      "\<forall>x \<in> set ts. tier_member (py_upper (py_strip (py_str x))) \<noteq> None"
    by blast
  have "bounds_ok number b"
    unfolding bounds_ok_def
  proof (intro conjI)
    show "py_strip (py_str (dget_or b ''policy_version'' (JStr []))) \<noteq> []" by (rule parts(1))
    show "\<exists>limits. dget b ''limits'' = Some (JObj limits) \<and>
        (\<forall>k \<in> {''memory_mb'', ''cpu_seconds'', ''wall_seconds''}. \<forall>v. dget limits k = Some v \<longrightarrow> limit_ok number v)"
      using l checked_limit by blast
    show "\<exists>ks. dget b ''allow_env_overrides'' = Some (JList ks) \<and> py_str ` set ks \<subseteq> {''memory_mb'', ''cpu_seconds'', ''wall_seconds''}"
      using k by auto
    show "\<forall>v. dget b ''strict_telemetry_tiers'' = Some v \<longrightarrow>
        (\<exists>ts. v = JList ts \<and> (\<forall>x \<in> set ts. py_upper (py_strip (py_str x)) \<in> {''PRODUCTION'', ''STABLE'', ''SANDBOX''}))"
      using t unfolding tier_member_iff by (auto simp: dget_or_def)
  qed
  with v show ?thesis by blast
qed

lemma checked_document:
  assumes "validate_policy_schema number p = Inr ()"
  obtains tiers required vs where "document_ok number required p" "dget p ''rules'' = Some (JList vs)" "vs \<noteq> []"
    "\<forall>ir \<in> set (enumerate 0 vs). check_rule tiers required ir = Inr ()"
proof -
  obtain tiers required where c: "dget p ''version'' = Some (JStr ''1.0.0'')" "check_tiers (dget_or p ''tiers'' JNull) = Inr tiers"
      "check_severities (dget_or p ''severities'' JNull) = Inr ()"
      "check_required_keys (dget_or p ''immutability_constraints'' JNull) = Inr required"
      "(case dget_or p ''rules'' JNull of
          JList rs \<Rightarrow> ebind (schema (rs \<noteq> []) ''rules'') (\<lambda>u. each (check_rule tiers required) (enumerate 0 rs))
        | _ \<Rightarrow> schema False ''rules'') = Inr ()"
      "check_resource_policy number (dget_or p ''resource_bounds_policy'' JNull) = Inr ()"
    using assms by (auto simp: validate_policy_schema_def simp del: each_Inr)
  obtain vs where vs: "dget p ''rules'' = Some (JList vs)" "vs \<noteq> []" "\<forall>ir \<in> set (enumerate 0 vs). check_rule tiers required ir = Inr ()"
    using c(5) by (cases "dget_or p ''rules'' JNull") (simp_all add: found_JNull)
  have "document_ok number required p"
    unfolding document_ok_def
    using c(1) checked_tiers [OF c(2)] checked_severities [OF c(3)] checked_required [OF c(4)] checked_bounds [OF c(6)]
    unfolding found_JNull by blast
  with vs that show thesis by blast
qed

lemma missing_none:
  assumes "missing_keys ks d = Inr []" "k \<in> set ks"
  shows "\<exists>n v. k = JStr n \<and> dget d n = Some v"
proof -
  obtain ps where ps: "emap (\<lambda>k. ebind (member_of k (keys d)) (\<lambda>b. Inr (b, k))) ks = Inr ps" "filter (\<lambda>p. \<not> fst p) ps = []"
    using assms(1) by (auto simp: missing_keys_def)
  have "map snd ps = ks \<and> (\<forall>p \<in> set ps. member_of (snd p) (keys d) = Inr (fst p))"
    using ps(1) by (induction ks arbitrary: ps) force+
  with ps(2) assms(2) have "member_of k (keys d) = Inr True" by (auto simp: filter_empty_conv)
  then obtain n where "k = JStr n" "n \<in> set (keys d)" unfolding member_of_Inr by blast
  then show ?thesis by (auto simp: keys_def dest: weak_map_of_SomeI)
qed

lemma checked_rule:
  assumes "check_rule tiers required (i, v) = Inr ()"
  obtains d sev validator os where "v = JObj d" "missing_keys required d = Inr []"
    "dget d ''severity'' = Some (JStr sev)" "dget d ''validator'' = Some (JStr validator)" "validator \<in> set (keys VALIDATOR_REGISTRY)"
    "dget d ''tier_overrides'' = Some (JObj os)" "\<forall>p \<in> set os. \<exists>s. snd p = JStr s"
proof -
  obtain d where v: "v = JObj d" using assms by (cases v) (simp_all add: check_rule_def)
  define name where "name = py_str (dget_or d ''name'' (JInt (int i)))"
  obtain missing where c: "missing_keys required d = Inr missing"
      "(if missing = [] then Inr ()
        else ebind (emap (\<lambda>k. case as_str k of Some s \<Rightarrow> Inr s | None \<Rightarrow> Inl TypeError) missing) (\<lambda>ss.
          schema False (''rule_missing_keys:'' @ int_str (int i) @ '':'' @ join '','' ss))) = Inr ()"
      "member_of (dget_or d ''severity'' JNull) allowed_severities = Inr True"
      "member_of (dget_or d ''validator'' JNull) (keys VALIDATOR_REGISTRY) = Inr True"
      "(case dget_or d ''tier_overrides'' JNull of JObj os \<Rightarrow> each (check_override tiers name) os
        | _ \<Rightarrow> schema False (''tier_overrides:'' @ name)) = Inr ()"
    using assms unfolding v check_rule_def Let_def name_def fst_conv snd_conv json.case by (auto simp del: each_Inr)
  have m: "missing = []"
  proof (rule ccontr)
    assume "missing \<noteq> []"
    with c(2) show False by simp
  qed
  obtain os where os: "dget_or d ''tier_overrides'' JNull = JObj os" "\<forall>p \<in> set os. check_override tiers name p = Inr ()"
    using c(5) by (cases "dget_or d ''tier_overrides'' JNull") simp_all
  have "\<forall>p \<in> set os. \<exists>s. snd p = JStr s"
  proof
    fix p
    assume "p \<in> set os"
    with os(2) have "member_of (snd p) allowed_severities = Inr True" by (auto simp: check_override_def)
    then show "\<exists>s. snd p = JStr s" unfolding member_of_Inr by blast
  qed
  with that v c(1,3,4) m os(1) show thesis
    unfolding member_of_Inr found_JNull by blast
qed

lemma loaded_rule:
  assumes "check_rule tiers required (i, v) = Inr ()" "load_rule ix v = Inr r"
  shows "\<exists>d. v = JObj d \<and> rule_of_row required ix d r"
proof -
  obtain d sev validator os where c: "v = JObj d" "missing_keys required d = Inr []"
      "dget d ''severity'' = Some (JStr sev)" "dget d ''validator'' = Some (JStr validator)" "validator \<in> set (keys VALIDATOR_REGISTRY)"
      "dget d ''tier_overrides'' = Some (JObj os)" "\<forall>p \<in> set os. \<exists>s. snd p = JStr s"
    by (rule checked_rule [OF assms(1)])
  have "as_obj (get_or_truthy d ''tier_overrides'' (JObj [])) = Inr os"
    using c(6) by (cases os) (simp_all add: get_or_truthy_def dget_or_def)
  with assms(2) c obtain os' name enabled reason lv where r: "load_overrides [] os = Inr os'" "dget d ''name'' = Some name"
      "dget d ''enabled'' = Some enabled" "severity_of sev = Inr lv" "dget d ''reason'' = Some reason"
      "r = \<lparr>ru_name = py_str name, ru_enabled = truthy enabled, ru_severity = lv, ru_overrides = os',
        ru_reason = py_str reason, ru_validator = validator, ru_applicability = dget_or ix (py_str name) []\<rparr>"
    by (auto simp: load_rule_def)
  obtain f where f: "dget VALIDATOR_REGISTRY validator = Some f"
    using c(5) by (auto simp: keys_def dest: weak_map_of_SomeI)
  have os': "\<forall>n \<in> set (keys os). \<exists>t. n = tier_name t"
      "\<forall>t. map_option (\<lambda>s. JStr (severity_value s)) (dget os' t) = dget (rev os) (tier_name t)"
    using loaded_overrides [OF r(1) c(7)] by (auto split: option.splits)
  have "rule_of_row required ix d r"
    unfolding rule_of_row_def
  proof (intro conjI)
    show "\<forall>k \<in> set required. \<exists>n v. k = JStr n \<and> dget d n = Some v" using missing_none [OF c(2)] by blast
    show "dget d ''severity'' = Some (JStr (severity_value (ru_severity r)))" using c(3) r(4,6) by (simp add: severity_of_iff)
    show "\<exists>os. dget d ''tier_overrides'' = Some (JObj os) \<and> (\<forall>n \<in> set (keys os). \<exists>t. n = tier_name t) \<and>
        (\<forall>t. dget (rev os) (tier_name t) = map_option (\<lambda>s. JStr (severity_value s)) (dget (ru_overrides r) t))"
      using c(6) os' r(6) by simp
    show "ru_applicability r = (case dget ix (ru_name r) of Some e \<Rightarrow> e | None \<Rightarrow> [])" using r(6) by (simp add: dget_or_def)
  qed (use c(4) f r(2,3,5,6) in simp_all)
  with c(1) show ?thesis by blast
qed

text \<open>The rules that are loaded are those of the document, row by row.\<close>

lemma loaded_rows:
  assumes "list_all2 (\<lambda>v r. load_rule ix v = Inr r) vs rules" "\<forall>ir \<in> set (enumerate n vs). check_rule tiers required ir = Inr ()"
  shows "\<exists>ds. vs = map JObj ds \<and> list_all2 (rule_of_row required ix) ds rules"
  using assms
proof (induction vs arbitrary: n rules)
  case (Cons v vs)
  then obtain r rs where r: "rules = r # rs" "load_rule ix v = Inr r" "list_all2 (\<lambda>v r. load_rule ix v = Inr r) vs rs"
    by (auto simp: list_all2_Cons1)
  have "check_rule tiers required (n, v) = Inr ()" "\<forall>ir \<in> set (enumerate (Suc n) vs). check_rule tiers required ir = Inr ()"
    using Cons.prems(2) by simp_all
  then obtain d ds where "v = JObj d" "rule_of_row required ix d r" "vs = map JObj ds" "list_all2 (rule_of_row required ix) ds rs"
    using loaded_rule r(2) Cons.IH [OF r(3)] by blast
  then have "v # vs = map JObj (d # ds) \<and> list_all2 (rule_of_row required ix) (d # ds) rules" using r(1) by simp
  then show ?case by (rule exI [of _ "d # ds"])
qed simp

text \<open>The validators' hashes in the fingerprint.\<close>

lemma hashes_of_rules:
  fixes g :: "rule \<Rightarrow> json"
  shows "set (keys (foldl (\<lambda>d r. dput (ru_name r) (g r) d) d rs)) = set (keys d) \<union> ru_name ` set rs"
    and "dget (foldl (\<lambda>d r. dput (ru_name r) (g r) d) d rs) n = Some v \<Longrightarrow> dget d n = Some v \<or> (\<exists>r \<in> set rs. ru_name r = n \<and> v = g r)"
proof -
  show "set (keys (foldl (\<lambda>d r. dput (ru_name r) (g r) d) d rs)) = set (keys d) \<union> ru_name ` set rs"
    by (induction rs arbitrary: d) (auto simp: keys_def dom_update)
  show "dget (foldl (\<lambda>d r. dput (ru_name r) (g r) d) d rs) n = Some v \<Longrightarrow> dget d n = Some v \<or> (\<exists>r \<in> set rs. ru_name r = n \<and> v = g r)"
  proof (induction rs arbitrary: d)
    case (Cons r rs)
    have "dget (foldl (\<lambda>d r. dput (ru_name r) (g r) d) (dput (ru_name r) (g r) d) rs) n = Some v" using Cons.prems by simp
    from Cons.IH [OF this] show ?case by (auto split: if_splits)
  qed simp
qed

lemma names_of_hashes: "set (keys (validator_hashes source rules)) = ru_name ` set rules"
  unfolding validator_hashes_def by (subst hashes_of_rules(1)) (simp add: keys_def)

lemma hash_of_rule:
  assumes "dget (validator_hashes source rules) n = Some v"
  shows "\<exists>r \<in> set rules. ru_name r = n \<and> v = JStr (source (dget_or VALIDATOR_REGISTRY (ru_validator r) []))"
  using hashes_of_rules(2) [OF assms [unfolded validator_hashes_def]]
  by (simp add: validator_provenance_def Let_def dget_or_def)

lemma find_snoc: "find P (xs @ [x]) = (case find P xs of Some y \<Rightarrow> Some y | None \<Rightarrow> if P x then Some x else None)"
  by (induction xs) auto

lemma applicability_rows:
  assumes "applicability_entries ix (enumerate k vs) = Inr ix'"
  shows "\<exists>es. vs = map JObj es \<and> (\<forall>n. dget ix' n =
    (case find (\<lambda>e. py_strip (py_str (dget_or e ''name'' (JStr []))) = n) (rev es) of None \<Rightarrow> dget ix n | Some e \<Rightarrow> Some e))"
  using assms
proof (induction vs arbitrary: k ix)
  case (Cons v vs)
  define name where "name = (\<lambda>e :: obj. py_strip (py_str (dget_or e ''name'' (JStr []))))"
  from Cons.prems obtain e where e: "v = JObj e" "applicability_entries (dput (name e) e ix) (enumerate (Suc k) vs) = Inr ix'"
    by (cases v) (auto simp: applicability_entry_def Let_def name_def split: if_splits)
  from Cons.IH [OF e(2)] obtain es where es: "vs = map JObj es"
      "\<forall>n. dget ix' n = (case find (\<lambda>e. name e = n) (rev es) of None \<Rightarrow> dget (dput (name e) e ix) n | Some e \<Rightarrow> Some e)"
    unfolding name_def by blast
  have "dget ix' n = (case find (\<lambda>e. name e = n) (rev (e # es)) of None \<Rightarrow> dget ix n | Some e \<Rightarrow> Some e)" for n
    using es(2) by (auto simp: find_snoc split: option.splits)
  moreover have "v # vs = map JObj (e # es)" using e(1) es(1) by simp
  ultimately show ?case unfolding name_def by (intro exI [of _ "e # es"]) blast
qed simp

lemma loaded_applicability:
  assumes "load_rule_applicability f = Inr ix"
  obtains t q es where "f = Some t" "json_loads t = Some (JObj q)" "dget q ''rules'' = Some (JList (map JObj es))"
    "\<forall>n. dget ix n = find (\<lambda>e. py_strip (py_str (dget_or e ''name'' (JStr []))) = n) (rev es)"
proof -
  obtain t q vs where t: "f = Some t" "json_loads t = Some (JObj q)" "dget_or q ''rules'' JNull = JList vs"
      "applicability_entries [] (enumerate 0 vs) = Inr ix"
    using assms by (auto simp: load_rule_applicability_def split: option.splits json.splits)
  from applicability_rows [OF t(4)] obtain es where es: "vs = map JObj es"
      "\<forall>n. dget ix n = (case find (\<lambda>e. py_strip (py_str (dget_or e ''name'' (JStr []))) = n) (rev es) of None \<Rightarrow> dget [] n | Some e \<Rightarrow> Some e)"
    by blast
  have "dget ix n = find (\<lambda>e. py_strip (py_str (dget_or e ''name'' (JStr []))) = n) (rev es)" for n
    using es(2) by (auto split: option.splits)
  with t es(1) that show thesis unfolding found_JNull by blast
qed

lemma loaded_document:
  assumes "load_policy_document sha yaml f = Inr (p, h)"
  obtains t where "cf_text f = Some t" "(if cf_yaml f then yaml t else json_loads t) = Some (JObj p)" "h = sha t"
  using assms by (auto simp: load_policy_document_def split: option.splits json.splits)

section \<open>A policy\<close>

definition demo_raw_rule :: "string \<Rightarrow> string \<Rightarrow> obj" where
  "demo_raw_rule n sev =
     [(''name'', JStr n), (''enabled'', JBool True), (''severity'', JStr sev), (''tier_overrides'', JObj [(''SANDBOX'', JStr ''warning'')]),
      (''reason'', JStr []), (''validator'', JStr n)]"

definition demo_policy :: "int \<Rightarrow> obj list \<Rightarrow> obj" where
  "demo_policy memory rules =
     [(''version'', JStr ''1.0.0''),
      (''tiers'', JObj [(''PRODUCTION'', JInt 0), (''STABLE'', JInt 1), (''SANDBOX'', JInt 2)]),
      (''severities'', JList [JStr ''blocking'', JStr ''warning'', JStr ''advisory'']),
      (''immutability_constraints'', JObj [(''frozen_top_level_keys'', JList [JStr ''tiers'']),
         (''required_rule_keys'', JList [JStr ''name'', JStr ''severity''])]),
      (''rules'', JList (map JObj rules)),
      (''resource_bounds_policy'', JObj [(''policy_version'', JStr ''1''), (''limits'', JObj [(''memory_mb'', JInt memory)]),
         (''allow_env_overrides'', JList [])])]"

abbreviation "demo_file \<equiv> \<lparr>cf_yaml = True, cf_text = Some ''policy''\<rparr>"

abbreviation demo_boot :: "obj list \<Rightarrow> boot_error + constitution" where
  "demo_boot rules \<equiv> boot_constitution (\<lambda>x. []) (\<lambda>x. Some (JObj (demo_policy 2048 rules))) (\<lambda>x. None) (\<lambda>f. f) demo_file
     (Some ''{\"rules\": []}'')"

definition counting_ledgers :: "(unit, nat) ledgers" where
  "counting_ledgers = \<lparr>lg_entry = \<lambda>agent event p s. (Inr (), s + 1), lg_tx = \<lambda>event p s. (Inr p, s + 1)\<rparr>"

definition demo_booted :: "severity \<Rightarrow> constitution" where
  "demo_booted sev =
     \<lparr>cn_rules = [\<lparr>ru_name = ''ast_validity'', ru_enabled = True, ru_severity = sev, ru_overrides = [(SANDBOX, WARNING)],
        ru_reason = [], ru_validator = ''ast_validity'', ru_applicability = []\<rparr>],
      cn_hash = [], cn_document = demo_policy 2048 [demo_raw_rule ''ast_validity'' (severity_value sev)], cn_baseline = []\<rparr>"

lemma demo_boots:
  "demo_boot [demo_raw_rule ''ast_validity'' ''advisory''] = Inr (demo_booted ADVISORY)"
  "demo_boot [demo_raw_rule ''ast_validity'' ''blocking''] = Inr (demo_booted BLOCKING)"
  by code_simp+

section \<open>Properties\<close>

text \<open>
  C21 (type): what boots is the policy. The text of the file is a document with the fixed version, tiers and severities, a list of keys
  that every rule has to have and resource limits that are not negative (\<open>document_ok\<close>), and its hash is that of the text. The rules in
  force are its rules, in their order, each with all required keys and with its name, switch, severity, reason, registered validator, the
  severity of every tier and the entry the applicability file has for it (\<open>rule_of_row\<close>). The baseline is the hash of the version, the two
  files' hashes and, by rule name, the hash of the source of a validator that a rule of that name uses.\<close>

theorem booted_constitution_is_the_policy:
  assumes "boot_constitution sha yaml number source f applicability = Inr c"
  shows "\<exists>t ap q es ix required ds vh.
    cf_text f = Some t \<and> (if cf_yaml f then yaml t else json_loads t) = Some (JObj (cn_document c)) \<and> cn_hash c = sha t \<and>
    document_ok number required (cn_document c) \<and> applicability = Some ap \<and> json_loads ap = Some (JObj q) \<and> dget q ''rules'' = Some (JList (map JObj es)) \<and>
    (\<forall>n. dget ix n = find (\<lambda>e. py_strip (py_str (dget_or e ''name'' (JStr []))) = n) (rev es)) \<and>
    dget (cn_document c) ''rules'' = Some (JList (map JObj ds)) \<and> ds \<noteq> [] \<and> list_all2 (rule_of_row required ix) ds (cn_rules c) \<and>
    set (keys vh) = ru_name ` set (cn_rules c) \<and>
    (\<forall>n v. dget vh n = Some v \<longrightarrow>
       (\<exists>r \<in> set (cn_rules c). \<exists>g. ru_name r = n \<and> dget VALIDATOR_REGISTRY (ru_validator r) = Some g \<and> v = JStr (source g))) \<and>
    cn_baseline c = sha (canonical False (JObj [(''constitution_version'', JStr ''1.0.0''), (''policy_hash'', JStr (sha t)),
      (''applicability_hash'', JStr (sha ap)), (''validator_hashes'', JObj vh)]))"
proof -
  let ?c0 = "\<lparr>cn_rules = [], cn_hash = [], cn_document = [], cn_baseline = []\<rparr>"
  obtain rules h c' where l: "load_constitution_policy sha yaml number f applicability ?c0 = (Inr (rules, h), c')"
      "c = (c'\<lparr>cn_rules := rules, cn_hash := h\<rparr>)\<lparr>cn_baseline := current_governance_fingerprint sha source applicability (c'\<lparr>cn_rules := rules, cn_hash := h\<rparr>)\<rparr>"
    using assms by (auto simp: boot_constitution_def Let_def split: prod.splits sum.splits py_error.splits)
  obtain p ix where p: "load_policy_document sha yaml f = Inr (p, h)" "validate_policy_schema number p = Inr ()"
      "load_rule_applicability applicability = Inr ix" "c' = ?c0\<lparr>cn_document := p\<rparr>"
      "ebind (py_list (dget_or p ''rules'' (JList []))) (emap (load_rule ix)) = Inr rules"
    by (rule load_result [OF l(1)])
  obtain tiers required vs where d: "document_ok number required p" "dget p ''rules'' = Some (JList vs)" "vs \<noteq> []"
      "\<forall>ir \<in> set (enumerate 0 vs). check_rule tiers required ir = Inr ()"
    by (rule checked_document [OF p(2)])
  have "list_all2 (\<lambda>v r. load_rule ix v = Inr r) vs rules" using p(5) d(2) loaded_rules by (simp add: dget_or_def)
  then obtain ds where ds: "vs = map JObj ds" "list_all2 (rule_of_row required ix) ds rules" using loaded_rows d(4) by blast
  obtain t where t: "cf_text f = Some t" "(if cf_yaml f then yaml t else json_loads t) = Some (JObj p)" "h = sha t"
    by (rule loaded_document [OF p(1)])
  obtain ap q es where ap: "applicability = Some ap" and ix: "json_loads ap = Some (JObj q)" "dget q ''rules'' = Some (JList (map JObj es))"
      "\<forall>n. dget ix n = find (\<lambda>e. py_strip (py_str (dget_or e ''name'' (JStr []))) = n) (rev es)"
    by (rule loaded_applicability [OF p(3)])
  have reg: "\<exists>g. dget VALIDATOR_REGISTRY (ru_validator r) = Some g" if "r \<in> set rules" for r
    using ds(2) that by (auto simp: list_all2_conv_all_nth in_set_conv_nth rule_of_row_def)
  have "(\<exists>r \<in> set rules. \<exists>g. ru_name r = n \<and> dget VALIDATOR_REGISTRY (ru_validator r) = Some g \<and> v = JStr (source g))"
    if "dget (validator_hashes source rules) n = Some v" for n v
  proof -
    from hash_of_rule [OF that] obtain r where r: "r \<in> set rules" "ru_name r = n"
      "v = JStr (source (dget_or VALIDATOR_REGISTRY (ru_validator r) []))" by blast
    with reg [OF r(1)] show ?thesis by (auto simp: dget_or_def)
  qed
  moreover have "cn_document c = p" "cn_hash c = sha t" "cn_rules c = rules"
      "cn_baseline c = sha (canonical False (JObj [(''constitution_version'', JStr ''1.0.0''), (''policy_hash'', JStr (sha t)),
        (''applicability_hash'', JStr (sha ap)), (''validator_hashes'', JObj (validator_hashes source rules))]))"
    using l(2) p(4) t(3) ap
    by (simp_all add: current_governance_fingerprint_def canonical_digest_def governance_fingerprint_components_def)
  ultimately show ?thesis
    using t(1,2) ap ix d(1-3) ds names_of_hashes [of source rules] by (intro exI [of _ t] exI [of _ ap] exI [of _ q] exI [of _ es] exI [of _ ix]
      exI [of _ required] exI [of _ ds] exI [of _ "validator_hashes source rules"]) simp
qed

theorem booted_constitution_is_the_policy_witness:
  "(\<exists>required. document_ok (\<lambda>x. None) required (cn_document (demo_booted BLOCKING))) \<and>
   (\<exists>required ix. rule_of_row required ix (demo_raw_rule ''ast_validity'' ''blocking'') (hd (cn_rules (demo_booted BLOCKING))))"
proof -
  obtain required ix ds where w: "document_ok (\<lambda>x. None) required (cn_document (demo_booted BLOCKING))"
      "dget (cn_document (demo_booted BLOCKING)) ''rules'' = Some (JList (map JObj ds))"
      "list_all2 (rule_of_row required ix) ds (cn_rules (demo_booted BLOCKING))"
    using booted_constitution_is_the_policy [OF demo_boots(2)] by blast
  have "map JObj ds = map JObj [demo_raw_rule ''ast_validity'' ''blocking'']"
    using w(2) by (simp add: demo_booted_def demo_policy_def)
  then have "ds = [demo_raw_rule ''ast_validity'' ''blocking'']" by auto
  with w(1,3) show ?thesis by (auto simp: demo_booted_def)
qed

text \<open>
  C23 (error): a reload that fails can leave half of the new policy in force. When the file is read and its schema holds but the
  applicability file is missing or malformed, the exception leaves the rules, their hash and the baseline as they were
  and records no amendment, while the document, from which the resource rule takes its limits, is already the new one.\<close>

theorem failed_reload_keeps_new_document:
  assumes "load_policy_document sha yaml f = Inr (p, h)" "validate_policy_schema number p = Inr ()"
    and "load_rule_applicability applicability = Inl e"
  shows "reload_constitution_policy sha yaml number source lg f applicability (c, s) = (Inl (PolicyRaised e), c\<lparr>cn_document := p\<rparr>, s)"
  using assms by (simp add: reload_constitution_policy_def load_constitution_policy_def)

theorem failed_reload_keeps_new_document_witness:
  "cn_document (fst (snd (reload_constitution_policy (\<lambda>x. []) (\<lambda>x. Some (JObj (demo_policy 65536 [demo_raw_rule ''ast_validity'' ''blocking''])))
     (\<lambda>x. None) (\<lambda>f. f) counting_ledgers demo_file None (demo_booted BLOCKING, 0)))) = demo_policy 65536 [demo_raw_rule ''ast_validity'' ''blocking'']"
proof -
  let ?p = "demo_policy 65536 [demo_raw_rule ''ast_validity'' ''blocking'']"
  have "load_policy_document (\<lambda>x. []) (\<lambda>x. Some (JObj ?p)) demo_file = Inr (?p, [])" by (simp add: load_policy_document_def)
  moreover have "validate_policy_schema (\<lambda>x. None) ?p = Inr ()" by code_simp
  moreover have "load_rule_applicability None = Inl (ValueError ''rule_applicability_missing'')" by code_simp
  ultimately show ?thesis using failed_reload_keeps_new_document by (simp add: failed_reload_keeps_new_document)
qed

end
