(* ===== verification/ConstitutionEval.thy ===== *)
theory ConstitutionEval
  imports ConstitutionPolicy
begin

text \<open>
  The evaluation half of \<open>runtime/constitution.py\<close>: which rules apply to a mutation, in which order and with which
  severity they are run, the domains of its paths, and \<open>evaluate_mutation\<close> with the rows it writes to the two
  ledgers. The functions behind the registry, the debt ledger (sums of floats) and the platform telemetry are
  fields of the record \<open>governor\<close>; so are the state of the process that they read and change, the
  type \<open>'s\<close>, and the texts of the environment variable and of the applicability file.
\<close>

section \<open>Requests\<close>

record mutation_target =
  mt_agent :: string
  mt_path :: string
  mt_type :: string
  mt_ops :: "json list"
  mt_preimage :: string

record mutation_request =
  mr_agent :: string
  mr_generation :: string
  mr_intent :: string
  mr_ops :: "json list"
  mr_signature :: string
  mr_nonce :: string
  mr_targets :: "mutation_target list"
  mr_epoch :: string
  mr_bundle :: string
  mr_seed :: int
  mr_scopes :: "string list"
  mr_authority :: string

definition extract_request_paths :: "mutation_request \<Rightarrow> string list" where
  "extract_request_paths q = filter (\<lambda>p. p \<noteq> []) (map (\<lambda>t. py_strip (mt_path t)) (mr_targets q))"

section \<open>The order of the rules\<close>

definition RULE_DEPENDENCY_GRAPH :: "(string, string list) dict" where
  "RULE_DEPENDENCY_GRAPH =
     [(''max_mutation_rate'', [''lineage_continuity'']),
      (''test_coverage_maintained'', [''resource_bounds'', ''max_complexity_delta''])]"

definition get_rules_for_tier :: "rule list \<Rightarrow> tier \<Rightarrow> (rule \<times> severity) list" where
  "get_rules_for_tier rules t =
     map (\<lambda>r. (r, dget_or (ru_overrides r) t (ru_severity r))) (filter ru_enabled rules)"

text \<open>
  The recursion over the dependencies: \<open>visiting\<close> are the names on the stack, the pair the names already
  visited and the rules put out for them.\<close>

function visit ::
  "(string, string list) dict \<Rightarrow> (string, 'r) dict \<Rightarrow> string list \<Rightarrow> string \<Rightarrow> string list \<times> 'r list \<Rightarrow> string list \<times> 'r list" where
  "visit graph indexed visiting name acc =
     (if name \<in> set (fst acc) \<or> name \<in> set visiting then acc
      else case dget indexed name of
        None \<Rightarrow> acc
      | Some pair \<Rightarrow>
          (case foldl (\<lambda>a dep. visit graph indexed (name # visiting) dep a) acc (dget_or graph name []) of
             (visited, ordered) \<Rightarrow> (visited @ [name], ordered @ [pair])))"
  by pat_completeness auto

termination
proof (relation "measure (\<lambda>(graph, indexed, visiting, name, acc). card (fst ` set indexed - set visiting))", goal_cases)
  case (2 graph indexed visiting name acc pair a dep)
  then have "name \<in> fst ` set indexed - set visiting" by (force dest: map_of_SomeD)
  moreover have "fst ` set indexed - set (name # visiting) = (fst ` set indexed - set visiting) - {name}" by auto
  ultimately show ?case by (simp del: set_simps card_Diff_insert card_Diff_singleton add: card_Diff1_less)
qed simp

declare visit.simps [simp del]

definition indexed_rules :: "(rule \<times> severity) list \<Rightarrow> (string, rule \<times> severity) dict" where
  "indexed_rules rules = foldl (\<lambda>d rs. dput (ru_name (fst rs)) rs d) [] rules"

definition order_rules_with_dependencies :: "(rule \<times> severity) list \<Rightarrow> (rule \<times> severity) list" where
  "order_rules_with_dependencies rules =
     snd (foldl (\<lambda>a rs. visit RULE_DEPENDENCY_GRAPH (indexed_rules rules) [] (ru_name (fst rs)) a) ([], []) rules)"

section \<open>Glob patterns\<close>

text \<open>\<open>fnmatch.fnmatch\<close> on a system with case in its paths.\<close>

datatype glob_item = AnyRun | AnyOne | Exactly char | OneOf bool "(char \<times> char) list"

fun set_ranges :: "string \<Rightarrow> (char \<times> char) list" where
  "set_ranges [] = []"
| "set_ranges [c] = [(c, c)]"
| "set_ranges [c, d] = [(c, c), (d, d)]"
| "set_ranges (c # d # e # s) = (if d = CHR ''-'' then (c, e) # set_ranges s else (c, c) # set_ranges (d # e # s))"

text \<open>The text after an opening bracket up to the closing one, and the rest; a bracket that comes first, or after the mark
  that negates the set, belongs to it.\<close>

definition split_set :: "string \<Rightarrow> (string \<times> string) option" where
  "split_set s =
     (let k = (if startswith s ''!'' then 1 else 0);
          k' = (if startswith (drop k s) '']'' then k + 1 else k);
          r = dropWhile (\<lambda>c. c \<noteq> CHR '']'') (drop k' s)
      in if r = [] then None else Some (take (length s - length r) s, tl r))"

lemma split_set_shorter: "split_set s = Some (a, r) \<Longrightarrow> length r < Suc (length s)"
proof -
  have "length (dropWhile P (drop k s)) \<le> length s" for P :: "char \<Rightarrow> bool" and k
    using length_dropWhile_le [of P "drop k s"] by simp
  then have "length (tl (dropWhile P (drop k s))) < Suc (length s)" for P :: "char \<Rightarrow> bool" and k
    using le_less_trans [of "length (dropWhile P (drop k s)) - 1" "length s" "Suc (length s)"] by (simp add: le_diff_conv le_SucI)
  then show "split_set s = Some (a, r) \<Longrightarrow> length r < Suc (length s)"
    unfolding split_set_def Let_def by (metis option.distinct(1) option.inject prod.inject)
qed

function glob_items :: "string \<Rightarrow> glob_item list" where
  "glob_items [] = []"
| "glob_items (c # s) =
     (if c = CHR ''*'' then AnyRun # glob_items s
      else if c = CHR ''?'' then AnyOne # glob_items s
      else if c = CHR ''['' then
        (case split_set s of
           None \<Rightarrow> Exactly c # glob_items s
         | Some (body, r) \<Rightarrow>
             (if startswith body ''!'' then OneOf False (set_ranges (tl body)) else OneOf True (set_ranges body)) # glob_items r)
      else Exactly c # glob_items s)"
  by pat_completeness auto

termination by (relation "measure length") (auto dest: split_set_shorter)

fun item_matches :: "glob_item \<Rightarrow> char \<Rightarrow> bool" where
  "item_matches AnyRun c = True"
| "item_matches AnyOne c = True"
| "item_matches (Exactly d) c = (c = d)"
| "item_matches (OneOf b rs) c = (list_ex (\<lambda>(lo, hi). lo \<le> c \<and> c \<le> hi) rs = b)"

fun glob_match :: "glob_item list \<Rightarrow> string \<Rightarrow> bool" where
  "glob_match [] s = (s = [])"
| "glob_match (AnyRun # ps) [] = glob_match ps []"
| "glob_match (AnyRun # ps) (c # s) = (glob_match ps (c # s) \<or> glob_match (AnyRun # ps) s)"
| "glob_match (p # ps) [] = False"
| "glob_match (p # ps) (c # s) = (item_matches p c \<and> glob_match ps s)"

definition fnmatch :: "string \<Rightarrow> string \<Rightarrow> bool" where
  "fnmatch s pat = glob_match (glob_items pat) s"

section \<open>The domain of a request\<close>

text \<open>The default domain and the rules, each a domain with its patterns.\<close>

definition domain_rule :: "json \<Rightarrow> (string \<times> string list) list res" where
  "domain_rule v =
     (case v of
        JObj i \<Rightarrow>
          ebind (py_list (get_or_truthy i ''patterns'' (JList []))) (\<lambda>ps.
            let domain = py_strip (text_at i ''domain''); patterns = filter (\<lambda>p. p \<noteq> []) (map (py_strip \<circ> py_str) ps)
            in Inr (if domain = [] \<or> patterns = [] then [] else [(domain, patterns)]))
      | _ \<Rightarrow> Inr [])"

definition domain_classification_config :: "obj \<Rightarrow> (string \<times> (string \<times> string list) list) res" where
  "domain_classification_config doc =
     (case dget_or doc ''domain_classification'' JNull of
        JObj raw \<Rightarrow>
          (let d = py_strip (py_str (get_or_truthy raw ''default_domain'' (JStr ''general'')))
           in ebind (py_list (get_or_truthy raw ''rules'' (JList []))) (\<lambda>items.
              ebind (emap domain_rule items) (\<lambda>rules. Inr (if d = [] then ''general'' else d, concat rules))))
      | _ \<Rightarrow> Inr (''general'', []))"

fun path_domain :: "string \<Rightarrow> (string \<times> string list) list \<Rightarrow> string \<Rightarrow> string \<times> string" where
  "path_domain dflt [] p = (dflt, ''default'')"
| "path_domain dflt ((domain, patterns) # rules) p =
     (case find (fnmatch p) patterns of Some pat \<Rightarrow> (domain, pat) | None \<Rightarrow> path_domain dflt rules p)"

definition classify_paths :: "string \<Rightarrow> (string \<times> string list) list \<Rightarrow> string list \<Rightarrow> obj" where
  "classify_paths dflt rules paths =
     (if paths = [] then
        [(''default_domain'', JStr dflt), (''path_domains'', JList []), (''resolved_domain'', JStr dflt),
         (''domains'', JList [JStr dflt]), (''strategy'', JStr ''default_no_targets'')]
      else
        (let rows = map (\<lambda>p. (p, path_domain dflt rules p)) (sort paths);
             domains = sort (remdups (map (fst \<circ> snd) rows))
         in [(''default_domain'', JStr dflt),
             (''path_domains'', JList (map (\<lambda>(p, d, pat). JObj [(''path'', JStr p), (''domain'', JStr d), (''pattern'', JStr pat)]) rows)),
             (''domains'', JList (map JStr domains)), (''resolved_domain'', JStr (hd domains)),
             (''strategy'', JStr ''first_matching_rule_then_lexical'')]))"

definition classify_request_domains ::
  "(string \<Rightarrow> string) \<Rightarrow> (string \<Rightarrow> json option) \<Rightarrow> string option \<Rightarrow> mutation_request \<Rightarrow> obj res" where
  "classify_request_domains sha yaml applicability q =
     ebind (load_policy_document sha yaml \<lparr>cf_yaml = True, cf_text = applicability\<rparr>) (\<lambda>(doc, h).
     ebind (domain_classification_config doc) (\<lambda>(dflt, rules).
       Inr (classify_paths dflt rules (extract_request_paths q))))"

section \<open>Which rules apply\<close>

definition strip_slashes :: "string \<Rightarrow> string" where
  "strip_slashes s = rev (dropWhile (\<lambda>c. c = CHR ''/'') (rev (dropWhile (\<lambda>c. c = CHR ''/'') s)))"

definition path_in_scope :: "string list \<Rightarrow> string \<Rightarrow> bool" where
  "path_in_scope directories path =
     list_ex (\<lambda>d. strip_slashes d \<noteq> [] \<and>
        (strip_slashes path = strip_slashes d \<or> startswith (strip_slashes path) (strip_slashes d @ ''/''))) directories"

definition obj_at :: "obj \<Rightarrow> string \<Rightarrow> obj" where
  "obj_at d k = (case dget_or d k JNull of JObj x \<Rightarrow> x | _ \<Rightarrow> [])"

definition strings_at :: "obj \<Rightarrow> string \<Rightarrow> string list res" where
  "strings_at d k = ebind (py_list (get_or_truthy d k (JList []))) (\<lambda>xs. Inr (map py_str xs))"

definition request_change_types :: "mutation_request \<Rightarrow> string list" where
  "request_change_types q =
     (let paths = extract_request_paths q
      in [''mutation_request''] @ (if mr_ops q \<noteq> [] then [''code''] else []) @
         (if paths \<noteq> [] \<and> list_all (\<lambda>p. startswith p ''docs/'') paths then [''docs''] else []) @
         (if list_ex (\<lambda>p. startswith p ''tests/'') paths then [''tests''] else []))"

definition evaluate_rule_applicability :: "rule \<Rightarrow> mutation_request \<Rightarrow> tier \<Rightarrow> obj res" where
  "evaluate_rule_applicability r q t =
     (let meta = ru_applicability r; scope = obj_at meta ''scope''; triggers = obj_at meta ''triggers'';
          paths = extract_request_paths q;
          needs_targets = truthy (dget_or triggers ''requires_targets'' JNull);
          needs_signature = truthy (dget_or triggers ''requires_signature'' JNull)
      in ebind (strings_at scope ''directories'') (\<lambda>dirs.
         ebind (strings_at scope ''change_types'') (\<lambda>types.
         ebind (py_int (get_or_truthy triggers ''min_ops'' (JInt 0))) (\<lambda>min_ops.
         ebind (strings_at triggers ''tiers'') (\<lambda>tiers.
           let in_scope = (dirs = [] \<or> (paths \<noteq> [] \<and> list_ex (path_in_scope dirs) paths) \<or> (paths = [] \<and> \<not> needs_targets));
               typed = (types = [] \<or> list_ex (\<lambda>c. c \<in> set types) (request_change_types q));
               results = [(''requires_targets'', \<not> needs_targets \<or> paths \<noteq> []),
                          (''requires_signature'', \<not> needs_signature \<or> mr_signature q \<noteq> []),
                          (''min_ops'', min_ops \<le> int (length (mr_ops q))),
                          (''tiers'', tiers = [] \<or> tier_name t \<in> set tiers)];
               triggered = list_all snd results
           in Inr [(''rule'', JStr (ru_name r)), (''applicable'', JBool (ru_enabled r \<and> in_scope \<and> typed \<and> triggered)),
                   (''enabled'', JBool (ru_enabled r)), (''scope_match'', JBool in_scope), (''change_type_match'', JBool typed),
                   (''trigger_match'', JBool triggered), (''trigger_results'', JObj (map (\<lambda>(k, b). (k, JBool b)) results)),
                   (''scope'', JObj scope), (''triggers'', JObj triggers),
                   (''fail_behavior'', dget_or meta ''fail_behavior'' (JObj [])),
                   (''required_evidence'', dget_or meta ''required_evidence'' (JList []))])))))"

definition applicable :: "obj \<Rightarrow> bool" where
  "applicable row = (dget row ''applicable'' = Some (JBool True))"

section \<open>Escalations\<close>

definition escalation_entry :: "(string, severity) dict \<Rightarrow> string \<times> json \<Rightarrow> (string, severity) dict" where
  "escalation_entry escs p =
     (let key = py_strip (fst p)
      in case severity_member (py_upper (py_strip (py_str (snd p)))) of
           Some sev \<Rightarrow> if key = [] then escs else dput key sev escs
         | None \<Rightarrow> escs)"

definition escalations_from :: "(string, severity) dict \<Rightarrow> json \<Rightarrow> (string, severity) dict" where
  "escalations_from escs v = (case v of JObj d \<Rightarrow> foldl escalation_entry escs d | _ \<Rightarrow> escs)"

text \<open>The text of \<open>ADAAD_SEVERITY_ESCALATIONS\<close> first, the state of the request over it.\<close>

definition parse_severity_escalations :: "string \<Rightarrow> obj \<Rightarrow> (string, severity) dict" where
  "parse_severity_escalations raw st =
     (let t = py_strip raw; env = (if t = [] then JNull else case json_loads t of Some v \<Rightarrow> v | None \<Rightarrow> JNull)
      in escalations_from (escalations_from [] env) (dget_or st ''severity_escalations'' JNull))"

definition resolve_rule_severity :: "string \<Rightarrow> severity \<Rightarrow> (string, severity) dict \<Rightarrow> severity" where
  "resolve_rule_severity name dflt escs =
     (let c = dget_or escs name dflt in if severity_order c < severity_order dflt then dflt else c)"

section \<open>The evaluation\<close>

record ('e, 's) governor =
  gv_sha :: "string \<Rightarrow> string"
  gv_yaml :: "string \<Rightarrow> json option"
  gv_source :: "string \<Rightarrow> string"
  gv_applicability :: "string option"
  gv_escalations :: string
  gv_telemetry :: "obj \<Rightarrow> json"
  gv_call :: "string \<Rightarrow> mutation_request \<Rightarrow> obj \<Rightarrow> 's \<Rightarrow> (string + obj) \<times> 's"
  gv_debt :: "string \<Rightarrow> nat \<Rightarrow> string list \<Rightarrow> string \<Rightarrow> 's \<Rightarrow> ('e + obj) \<times> 's"
  gv_ledgers :: "('e, 's) ledgers"

record rule_verdict =
  vd_rule :: string
  vd_severity :: severity
  vd_base :: "severity option"
  vd_passed :: json
  vd_applicable :: bool
  vd_provenance :: obj
  vd_details :: obj

definition evaluation_state :: "obj \<Rightarrow> json \<Rightarrow> obj \<Rightarrow> mutation_request \<Rightarrow> tier \<Rightarrow> obj" where
  "evaluation_state prior telemetry domains q t =
     foldl (\<lambda>d (k, v). dput k v d) prior
       [(''tier'', JStr (tier_name t)), (''tier_value'', JInt (tier_value t)), (''agent_id'', JStr (mr_agent q)),
        (''epoch_id'', JStr (mr_epoch q)), (''domain_classification'', JObj domains), (''platform_telemetry'', telemetry)]"

text \<open>One turn of the loop; what a validator raises is its verdict.\<close>

definition judge_rule ::
  "('e, 's) governor \<Rightarrow> (string, severity) dict \<Rightarrow> obj \<Rightarrow> mutation_request \<Rightarrow> tier \<Rightarrow> rule \<times> severity \<Rightarrow> 's \<Rightarrow>
   ('e evaluation_error + rule_verdict \<times> obj) \<times> 's" where
  "judge_rule g escs st q t rs s =
     (let r = fst rs; sev = resolve_rule_severity (ru_name r) (snd rs) escs; prov = validator_provenance (gv_source g) r
      in ethen (policy_step (evaluate_rule_applicability r q t) s) (\<lambda>row s.
           if \<not> applicable row then
             (Inr (\<lparr>vd_rule = ru_name r, vd_severity = sev, vd_base = None, vd_passed = JBool True, vd_applicable = False,
                    vd_provenance = prov,
                    vd_details = [(''ok'', JBool True), (''reason'', JStr ''rule_not_applicable''), (''applicability'', JObj row)]\<rparr>, row), s)
           else
             (case gv_call g (ru_validator r) q st s of
                (outcome, s') \<Rightarrow>
                  (let result = (case outcome of
                       Inl x \<Rightarrow> [(''ok'', JBool False), (''reason'', JStr (''validator_error:'' @ x))] | Inr d \<Rightarrow> d)
                   in (Inr (\<lparr>vd_rule = ru_name r, vd_severity = sev, vd_base = Some (snd rs),
                             vd_passed = dget_or result ''ok'' (JBool False), vd_applicable = True,
                             vd_provenance = prov, vd_details = result\<rparr>, row), s')))))"

fun judge_rules ::
  "('e, 's) governor \<Rightarrow> (string, severity) dict \<Rightarrow> obj \<Rightarrow> mutation_request \<Rightarrow> tier \<Rightarrow> (rule \<times> severity) list \<Rightarrow> 's \<Rightarrow>
   ('e evaluation_error + (rule_verdict \<times> obj) list) \<times> 's" where
  "judge_rules g escs st q t [] s = (Inr [], s)"
| "judge_rules g escs st q t (rs # rules) s =
     ethen (judge_rule g escs st q t rs s) (\<lambda>v s.
     ethen (judge_rules g escs st q t rules s) (\<lambda>vs s. (Inr (v # vs), s)))"

definition failing :: "severity \<Rightarrow> rule_verdict list \<Rightarrow> string list" where
  "failing sev vs = map vd_rule (filter (\<lambda>v. \<not> truthy (vd_passed v) \<and> vd_severity v = sev) vs)"

text \<open>What is returned; the fields that repeat the request or the module's variables are left out.\<close>

record evaluation =
  ev_passed :: bool
  ev_verdicts :: "rule_verdict list"
  ev_blocking :: "string list"
  ev_warnings :: "string list"
  ev_matrix :: "obj list"
  ev_domains :: obj
  ev_envelope :: obj
  ev_fingerprint :: string
  ev_drift :: bool
  ev_debt :: obj

definition VOLATILE_DETAIL_KEYS :: "string list" where
  "VOLATILE_DETAIL_KEYS =
     [''window_start_ts'', ''window_end_ts'', ''resource_usage_snapshot'', ''limits_snapshot'', ''platform_telemetry'',
      ''observed_measurements'', ''count'', ''rate_per_hour'', ''entries_considered'', ''entries_scoped'', ''event_types'',
      ''scope'', ''source'']"

definition CANONICAL_DETAIL_WHITELIST :: "string list" where
  "CANONICAL_DETAIL_WHITELIST =
     [''ok'', ''reason'', ''validator'', ''details'', ''proposal_id'', ''strategy_score'', ''critique_score'', ''agent_id'',
      ''proposal_hash'', ''bounds_policy_version'']"

text \<open>\<open>canonicalize_governance_details\<close> of \<open>runtime/governance_surface.py\<close>\<close>

fun canonicalize_details :: "json \<Rightarrow> json" where
  "canonicalize_details (JObj d) =
     JObj (concat (map (\<lambda>(k, v).
       (let c = canonicalize_details v
        in if k \<in> set VOLATILE_DETAIL_KEYS then []
           else if k \<in> set CANONICAL_DETAIL_WHITELIST \<or> startswith k ''detail_'' then [(k, c)]
           else case v of
             JObj x \<Rightarrow> if c = JObj [] then [] else [(k, c)]
           | JList x \<Rightarrow> [(k, c)]
           | _ \<Rightarrow> [])) d))"
| "canonicalize_details (JList xs) = JList (map canonicalize_details xs)"
| "canonicalize_details v = v"

definition envelope_row :: "(string \<Rightarrow> string) \<Rightarrow> rule_verdict \<Rightarrow> json" where
  "envelope_row sha v =
     JObj [(''rule'', JStr (vd_rule v)), (''severity'', JStr (severity_value (vd_severity v))), (''passed'', vd_passed v),
       (''applicable'', JBool (vd_applicable v)),
       (''details_hash'', JStr (canonical_digest sha (canonicalize_details (JObj (vd_details v))))),
       (''provenance_hash'', JStr (canonical_digest sha (JObj (vd_provenance v))))]"

definition governance_envelope :: "(string \<Rightarrow> string) \<Rightarrow> constitution \<Rightarrow> obj \<Rightarrow> mutation_request \<Rightarrow> tier \<Rightarrow> rule_verdict list \<Rightarrow> obj" where
  "governance_envelope sha c st q t vs =
     (let e = [(''constitution_version'', JStr constitution_version), (''policy_hash'', JStr (cn_hash c)),
               (''tier'', JStr (tier_name t)), (''tier_value'', JInt (tier_value t)),
               (''epoch_id'', JStr (py_str (dget_or st ''epoch_id'' (JStr [])))), (''agent_id'', JStr (mr_agent q)),
               (''rules'', JList (map (envelope_row sha) (sort_key vd_rule vs)))]
      in e @ [(''digest'', JStr (canonical_digest sha (JObj e)))])"

text \<open>The number at the end of the epoch's name.\<close>

definition epoch_index :: "string \<Rightarrow> nat" where
  "epoch_index epoch = nat_val (rev (takeWhile is_digit (rev epoch)))"

definition ceiling_event :: "obj \<Rightarrow> rule_verdict \<Rightarrow> json list" where
  "ceiling_event domains v =
     (let d = obj_at (vd_details v) ''details''
      in if \<not> list_ex (\<lambda>k. k = ''applied_ceiling'') (keys d) then []
         else [JObj [(''rule'', JStr (vd_rule v)),
                     (''resolved_domain'', dget_or d ''resolved_domain'' (dget_or domains ''resolved_domain'' JNull)),
                     (''applied_ceiling'', dget_or d ''applied_ceiling'' JNull), (''tier_limit'', dget_or d ''tier_limit'' JNull),
                     (''domain_limit'', dget_or d ''domain_limit'' JNull)]])"

definition ceiling_payload :: "obj \<Rightarrow> string \<Rightarrow> mutation_request \<Rightarrow> tier \<Rightarrow> rule_verdict list \<Rightarrow> bool \<Rightarrow> bool \<Rightarrow> obj" where
  "ceiling_payload domains epoch q t vs passed full =
     [(''agent_id'', JStr (mr_agent q)), (''epoch_id'', JStr epoch), (''tier'', JStr (tier_name t)),
      (''resolved_domain'', dget_or domains ''resolved_domain'' JNull)] @
     (if full then [(''domain_classification'', JObj domains)] else []) @
     [(''applied_ceilings'', JList (concat (map (ceiling_event domains) vs))), (''passed'', JBool passed)]"

definition rejection_payload :: "constitution \<Rightarrow> obj \<Rightarrow> mutation_request \<Rightarrow> tier \<Rightarrow> rule_verdict list \<Rightarrow> string list \<Rightarrow> string list \<Rightarrow> obj" where
  "rejection_payload c st q t vs blocking warnings =
     (let d = (case find (\<lambda>v. vd_rule v = ''resource_bounds'') vs of Some v \<Rightarrow> obj_at (vd_details v) ''details'' | None \<Rightarrow> [])
      in [(''event_schema'', JStr ''governance.rejection.v1''), (''agent_id'', JStr (mr_agent q)),
          (''epoch_id'', JStr (py_str (dget_or st ''epoch_id'' (JStr [])))), (''tier'', JStr (tier_name t)),
          (''blocking_failures'', JList (map JStr blocking)), (''warnings'', JList (map JStr warnings)),
          (''policy_hash'', JStr (cn_hash c)),
          (''bounds_policy_version'', dget_or d ''bounds_policy_version'' (JStr ''unknown'')),
          (''resource_usage_snapshot'', dget_or d ''resource_usage_snapshot'' (JObj []))])"

definition ledger_agent :: "mutation_request \<Rightarrow> string" where
  "ledger_agent q = (if mr_agent q = [] then ''system'' else mr_agent q)"

text \<open>The evaluation up to its verdicts: the domains, the state the validators saw, and what each rule came to.\<close>

definition judge_mutation ::
  "('e, 's) governor \<Rightarrow> constitution \<Rightarrow> obj \<Rightarrow> mutation_request \<Rightarrow> tier \<Rightarrow> 's \<Rightarrow>
   ('e evaluation_error + obj \<times> obj \<times> (rule_verdict \<times> obj) list) \<times> 's" where
  "judge_mutation g c prior q t s =
     ethen (policy_step (classify_request_domains (gv_sha g) (gv_yaml g) (gv_applicability g) q) s) (\<lambda>domains s.
       let st = evaluation_state prior (gv_telemetry g prior) domains q t
       in ethen (judge_rules g (parse_severity_escalations (gv_escalations g) st) st q t
            (order_rules_with_dependencies (get_rules_for_tier (cn_rules c) t)) s) (\<lambda>vs s.
            (Inr (domains, st, vs), s)))"

text \<open>The entropy bits that the replay capsule converts; the metrics themselves are dropped.\<close>

definition capsule_bits :: "obj \<Rightarrow> (int \<times> int) res" where
  "capsule_bits st =
     ebind (py_int (get_or_truthy st ''observed_entropy_bits'' (JInt 0))) (\<lambda>o'.
     ebind (py_int (get_or_truthy st ''epoch_entropy_bits'' (JInt 0))) (\<lambda>e. Inr (o', e)))"

definition evaluate_mutation ::
  "('e, 's) governor \<Rightarrow> constitution \<Rightarrow> obj \<Rightarrow> mutation_request \<Rightarrow> tier \<Rightarrow> 's \<Rightarrow> ('e evaluation_error + evaluation) \<times> 's" where
  "evaluate_mutation g c prior q t s =
     ethen (judge_mutation g c prior q t s) (\<lambda>(domains, st, vrs) s.
       let vs = map fst vrs;
           print = current_governance_fingerprint (gv_sha g) (gv_source g) (gv_applicability g) c;
           drift = (print \<noteq> cn_baseline c);
           blocking = failing BLOCKING vs @ (if drift \<and> t = PRODUCTION then [''governance_drift_detected''] else []);
           warnings = failing WARNING vs @ (if drift \<and> t \<noteq> PRODUCTION then [''governance_drift_detected''] else []);
           passed = (blocking = []);
           epoch = py_strip (py_str (dget_or st ''epoch_id'' (JStr [])))
       in ethen (ledger_step (gv_debt g epoch (epoch_index epoch) warnings (mr_agent q) s)) (\<lambda>debt s.
          ethen (if epoch = [] then (Inr (), s)
                 else record_both (gv_ledgers g) (ledger_agent q) ''constitutional_evaluation_domain_ceiling''
                   (ceiling_payload domains epoch q t vs passed True) (ceiling_payload domains epoch q t vs passed False) s) (\<lambda>u s.
          ethen (policy_step (capsule_bits st) s) (\<lambda>bits s.
          ethen (if passed then (Inr (), s)
                 else let p = rejection_payload c st q t vs blocking warnings
                      in record_both (gv_ledgers g) (ledger_agent q) ''governance_rejection'' p p s) (\<lambda>u s.
            (Inr \<lparr>ev_passed = passed, ev_verdicts = vs, ev_blocking = blocking, ev_warnings = warnings, ev_matrix = map snd vrs,
                  ev_domains = domains, ev_envelope = governance_envelope (gv_sha g) c st q t vs, ev_fingerprint = print,
                  ev_drift = drift, ev_debt = debt\<rparr>, s))))))"

section \<open>Each rule once, after what it depends on\<close>

text \<open>A list in which every name comes after those it depends on that have a rule.\<close>

definition dependencies_first :: "(string, string list) dict \<Rightarrow> string set \<Rightarrow> string list \<Rightarrow> bool" where
  "dependencies_first graph named xs \<longleftrightarrow>
     (\<forall>i < length xs. set (dget_or graph (xs ! i) []) \<inter> named \<subseteq> set (take i xs))"

lemma dependencies_first_snoc:
  "dependencies_first graph named (xs @ [m]) \<longleftrightarrow>
     dependencies_first graph named xs \<and> set (dget_or graph m []) \<inter> named \<subseteq> set xs"
  by (simp add: dependencies_first_def less_Suc_eq nth_append all_conj_distrib imp_conjL disj_imp conj_commute cong: imp_cong)

definition visited_ok :: "(string, string list) dict \<Rightarrow> (string, 'r) dict \<Rightarrow> string list \<times> 'r list \<Rightarrow> bool" where
  "visited_ok graph indexed a \<longleftrightarrow>
     distinct (fst a) \<and> set (fst a) \<subseteq> fst ` set indexed \<and> snd a = map (the \<circ> dget indexed) (fst a) \<and>
     dependencies_first graph (fst ` set indexed) (fst a)"

definition grows :: "string list \<Rightarrow> string list \<times> 'r list \<Rightarrow> string list \<times> 'r list \<Rightarrow> bool" where
  "grows visiting a b \<longleftrightarrow> (\<exists>new. fst b = fst a @ new \<and> set new \<inter> set visiting = {})"

lemma grows_refl [simp]: "grows vs a a"
  by (simp add: grows_def)

lemma grows_trans: "grows vs a b \<Longrightarrow> grows vs b d \<Longrightarrow> grows vs a d"
  by (auto simp: grows_def)

lemma grows_member: "grows vs a b \<Longrightarrow> x \<in> set (fst a) \<Longrightarrow> x \<in> set (fst b)"
  by (auto simp: grows_def)

lemma visits_ok:
  assumes "\<And>d a. d \<in> set ds \<Longrightarrow> visited_ok graph indexed a \<Longrightarrow>
      visited_ok graph indexed (f a d) \<and> grows vs a (f a d) \<and> (d \<in> fst ` set indexed \<longrightarrow> d \<in> set (fst (f a d)))"
    and "visited_ok graph indexed a"
  shows "visited_ok graph indexed (foldl f a ds) \<and> grows vs a (foldl f a ds) \<and>
    set ds \<inter> fst ` set indexed \<subseteq> set (fst (foldl f a ds))"
  using assms
proof (induction ds arbitrary: a)
  case (Cons d ds)
  have d: "visited_ok graph indexed (f a d)" "grows vs a (f a d)" "d \<in> fst ` set indexed \<longrightarrow> d \<in> set (fst (f a d))"
    using Cons.prems(1) [of d a] Cons.prems(2) by auto
  have rest: "visited_ok graph indexed (foldl f (f a d) ds) \<and> grows vs (f a d) (foldl f (f a d) ds) \<and>
      set ds \<inter> fst ` set indexed \<subseteq> set (fst (foldl f (f a d) ds))"
    by (rule Cons.IH) (use Cons.prems(1) d(1) in auto)
  then have "grows vs a (foldl f (f a d) ds)" using grows_trans d(2) by blast
  moreover have "d \<in> fst ` set indexed \<longrightarrow> d \<in> set (fst (foldl f (f a d) ds))"
    using rest d(3) grows_member by blast
  ultimately show ?case using rest by auto
qed simp

lemma visit_ok:
  "\<forall>m. \<forall>d \<in> set (dget_or graph m []). rank d < (rank m :: nat) \<Longrightarrow> visited_ok graph indexed acc \<Longrightarrow> (\<forall>v \<in> set visiting. rank name < rank v) \<Longrightarrow>
    visited_ok graph indexed (visit graph indexed visiting name acc) \<and>
    grows visiting acc (visit graph indexed visiting name acc) \<and>
    (name \<in> fst ` set indexed \<longrightarrow> name \<in> set (fst (visit graph indexed visiting name acc)))"
proof (induction graph indexed visiting name acc rule: visit.induct)
  case (1 graph indexed visiting name acc)
  show ?case
  proof (cases "name \<in> set (fst acc) \<or> name \<in> set visiting \<or> dget indexed name = None")
    case True
    moreover have "name \<notin> set visiting" using "1.prems"(3) by blast
    ultimately have "visit graph indexed visiting name acc = acc" "name \<in> set (fst acc) \<or> dget indexed name = None"
      by (auto simp: visit.simps [of graph indexed visiting name acc])
    then show ?thesis using "1.prems"(2) by (auto simp: map_of_eq_None_iff)
  next
    case False
    then obtain pair where pair: "dget indexed name = Some pair" and new: "name \<notin> set (fst acc)" "name \<notin> set visiting" by auto
    let ?ds = "dget_or graph name []"
    let ?v = "\<lambda>a d. visit graph indexed (name # visiting) d a"
    have step: "visited_ok graph indexed (?v a d) \<and> grows (name # visiting) a (?v a d) \<and>
        (d \<in> fst ` set indexed \<longrightarrow> d \<in> set (fst (?v a d)))"
      if "d \<in> set ?ds" "visited_ok graph indexed a" for a d
    proof (rule "1.IH" [OF _ pair that(1) "1.prems"(1) that(2)])
      show "\<not> (name \<in> set (fst acc) \<or> name \<in> set visiting)" using new by simp
      show "\<forall>v \<in> set (name # visiting). rank d < rank v" using "1.prems"(1,3) that(1) by (auto intro: less_trans)
    qed
    obtain visited ordered where r: "foldl ?v acc ?ds = (visited, ordered)" by fastforce
    have all: "visited_ok graph indexed (visited, ordered)" "grows (name # visiting) acc (visited, ordered)"
        "set ?ds \<inter> fst ` set indexed \<subseteq> set visited"
      using visits_ok [of ?ds graph indexed ?v "name # visiting" acc] step "1.prems"(2) unfolding r by auto
    have "visit graph indexed visiting name acc = (visited @ [name], ordered @ [pair])"
      using new pair r by (simp add: visit.simps [of graph indexed visiting name acc])
    moreover have "name \<notin> set visited" using all(2) new(1) by (auto simp: grows_def)
    moreover have "name \<in> fst ` set indexed" using pair by (force dest: map_of_SomeD)
    ultimately show ?thesis using all pair new
      by (auto simp: visited_ok_def grows_def dependencies_first_snoc)
  qed
qed

section \<open>The rules of an evaluation\<close>

definition dependency_rank :: "string \<Rightarrow> nat" where
  "dependency_rank n = (if dget RULE_DEPENDENCY_GRAPH n = None then 0 else 1)"

lemma graph_ranked: "d \<in> set (dget_or RULE_DEPENDENCY_GRAPH m []) \<Longrightarrow> dependency_rank d < dependency_rank m"
  by (auto simp: dependency_rank_def RULE_DEPENDENCY_GRAPH_def dget_or_def split: if_splits)

abbreviation "named_pairs rules \<equiv> map (\<lambda>rs. (ru_name (fst rs), rs)) rules"

lemma indexed_rules_last: "dget (indexed_rules rules) n = dget (rev (named_pairs rules)) n"
proof -
  have "dget (foldl (\<lambda>d rs. dput (ru_name (fst rs)) rs d) d rules) n =
      (case dget (rev (named_pairs rules)) n of Some rs \<Rightarrow> Some rs | None \<Rightarrow> dget d n)" for d
    by (induction rules arbitrary: d) (auto simp: dget_append split: option.splits)
  then show ?thesis by (simp add: indexed_rules_def split: option.splits)
qed

lemma indexed_names: "fst ` set (indexed_rules rules) = (ru_name \<circ> fst) ` set rules"
proof -
  have "n \<in> fst ` set (indexed_rules rules) \<longleftrightarrow> n \<in> (ru_name \<circ> fst) ` set rules" for n
    using indexed_rules_last [of rules n] map_of_eq_None_iff [of "indexed_rules rules" n]
      map_of_eq_None_iff [of "rev (named_pairs rules)" n] by (auto simp: image_iff)
  then show ?thesis by blast
qed

lemma ordered_rules:
  fixes rules
  defines "names \<equiv> map (ru_name \<circ> fst) (order_rules_with_dependencies rules)"
  shows "distinct names" "set names = (ru_name \<circ> fst) ` set rules"
    "rs \<in> set (order_rules_with_dependencies rules) \<longleftrightarrow> dget (rev (named_pairs rules)) (ru_name (fst rs)) = Some rs"
    "dependencies_first RULE_DEPENDENCY_GRAPH ((ru_name \<circ> fst) ` set rules) names"
proof -
  let ?ix = "indexed_rules rules"
  let ?f = "\<lambda>a rs. visit RULE_DEPENDENCY_GRAPH ?ix [] (ru_name (fst rs)) a"
  have empty: "visited_ok RULE_DEPENDENCY_GRAPH ?ix ([], [])" by (simp add: visited_ok_def dependencies_first_def)
  have "foldl ?f ([], []) rules = foldl (\<lambda>a n. visit RULE_DEPENDENCY_GRAPH ?ix [] n a) ([], []) (map (ru_name \<circ> fst) rules)"
    by (simp add: foldl_map comp_def)
  moreover obtain visited ordered where r:
    "foldl (\<lambda>a n. visit RULE_DEPENDENCY_GRAPH ?ix [] n a) ([], []) (map (ru_name \<circ> fst) rules) = (visited, ordered)" by fastforce
  ultimately have o: "order_rules_with_dependencies rules = ordered" by (simp add: order_rules_with_dependencies_def)
  have all: "visited_ok RULE_DEPENDENCY_GRAPH ?ix (visited, ordered)"
      "set (map (ru_name \<circ> fst) rules) \<inter> fst ` set ?ix \<subseteq> set visited"
    using visits_ok [of "map (ru_name \<circ> fst) rules" RULE_DEPENDENCY_GRAPH ?ix
        "\<lambda>a n. visit RULE_DEPENDENCY_GRAPH ?ix [] n a" "[]" "([], [])"]
      visit_ok [of RULE_DEPENDENCY_GRAPH dependency_rank ?ix _ "[]"] graph_ranked empty unfolding r by auto
  then have set: "set visited = (ru_name \<circ> fst) ` set rules" by (auto simp: visited_ok_def indexed_names)
  have own: "ru_name (fst rs') = n" if "dget ?ix n = Some rs'" for n rs'
    using that map_of_SomeD [of "rev (named_pairs rules)" n rs'] by (auto simp: indexed_rules_last)
  have some: "\<exists>rs'. dget ?ix n = Some rs'" if "n \<in> set visited" for n
    using that set map_of_eq_None_iff [of ?ix n] by (auto simp: indexed_names)
  have "ru_name (fst (the (dget ?ix n))) = n" if "n \<in> set visited" for n
    using some [OF that] own [of n] by auto
  then have names: "names = visited"
    unfolding names_def o using all(1) by (simp add: visited_ok_def comp_def map_idI)
  show "distinct names" "set names = (ru_name \<circ> fst) ` set rules"
      "dependencies_first RULE_DEPENDENCY_GRAPH ((ru_name \<circ> fst) ` set rules) names"
    using all(1) set unfolding names by (simp_all add: visited_ok_def indexed_names)
  have "rs \<in> set ordered \<longleftrightarrow> dget ?ix (ru_name (fst rs)) = Some rs"
  proof
    assume "rs \<in> set ordered"
    then obtain n where n: "n \<in> set visited" "rs = the (dget ?ix n)" using all(1) by (auto simp: visited_ok_def)
    with some own show "dget ?ix (ru_name (fst rs)) = Some rs" by fastforce
  next
    assume some': "dget ?ix (ru_name (fst rs)) = Some rs"
    then have "ru_name (fst rs) \<in> set visited" unfolding set indexed_names [symmetric] by (force dest: map_of_SomeD)
    then have "the (dget ?ix (ru_name (fst rs))) \<in> set ordered" using all(1) by (auto simp: visited_ok_def)
    then show "rs \<in> set ordered" using some' by simp
  qed
  then show "rs \<in> set (order_rules_with_dependencies rules) \<longleftrightarrow> dget (rev (named_pairs rules)) (ru_name (fst rs)) = Some rs"
    by (simp add: o indexed_rules_last)
qed

section \<open>Severities are floors\<close>

lemma severity_order_inj [simp]: "severity_order a = severity_order b \<longleftrightarrow> a = b"
  by (cases a; cases b) simp_all

lemma severity_floor: "severity_order dflt \<le> severity_order (resolve_rule_severity n dflt escs)"
  by (simp add: resolve_rule_severity_def Let_def)

lemma severity_none: "dget escs n = None \<Longrightarrow> resolve_rule_severity n dflt escs = dflt"
  by (simp add: resolve_rule_severity_def dget_or_def)

lemma severity_same: "dget escs n = dget escs' n \<Longrightarrow> resolve_rule_severity n dflt escs = resolve_rule_severity n dflt escs'"
  by (simp add: resolve_rule_severity_def dget_or_def)

lemma blocking_top: "2 \<le> severity_order s \<longleftrightarrow> s = BLOCKING"
  by (cases s) simp_all

lemma escalations_over:
  "dget (escalations_from escs v) n = (case dget (escalations_from [] v) n of Some s \<Rightarrow> Some s | None \<Rightarrow> dget escs n)"
proof -
  have entry: "dget (escalation_entry e p) n =
      (case dget (escalation_entry [] p) n of Some s \<Rightarrow> Some s | None \<Rightarrow> dget e n)" for e p
    by (auto simp: escalation_entry_def Let_def split: option.splits)
  have "dget (foldl escalation_entry escs d) n =
      (case dget (foldl escalation_entry [] d) n of Some s \<Rightarrow> Some s | None \<Rightarrow> dget escs n)" for d
  proof (induction d rule: rev_induct)
    case (snoc p d)
    then show ?case using entry [of "foldl escalation_entry escs d" p] entry [of "foldl escalation_entry [] d" p]
      by (simp split: option.splits)
  qed simp
  then show ?thesis by (cases v) (simp_all add: escalations_from_def)
qed

text \<open>The environment's text only raises what the state of the request leaves.\<close>

lemma environment_raises:
  "severity_order (resolve_rule_severity n dflt (parse_severity_escalations [] st)) \<le>
   severity_order (resolve_rule_severity n dflt (parse_severity_escalations raw st))"
proof -
  let ?st = "escalations_from [] (dget_or st ''severity_escalations'' JNull)"
  have "escalations_from [] JNull = []" by (simp add: escalations_from_def)
  then have none: "parse_severity_escalations [] st = ?st"
    by (simp add: parse_severity_escalations_def Let_def py_strip_def)
  have over: "dget (parse_severity_escalations raw st) n = dget ?st n" if "dget ?st n \<noteq> None"
    using that unfolding parse_severity_escalations_def Let_def by (subst escalations_over) auto
  show ?thesis
  proof (cases "dget ?st n = None")
    case True
    then show ?thesis using severity_floor [of dflt n "parse_severity_escalations raw st"] by (simp add: none severity_none)
  next
    case False
    then show ?thesis using severity_same [OF over [OF False], of dflt] by (simp add: none)
  qed
qed

section \<open>What the loop comes to\<close>

text \<open>What a validator's return or exception counts for.\<close>

definition accepts :: "string + obj \<Rightarrow> bool" where
  "accepts outcome = (case outcome of Inl x \<Rightarrow> False | Inr d \<Rightarrow> truthy (dget_or d ''ok'' (JBool False)))"

definition rule_applies :: "rule \<Rightarrow> mutation_request \<Rightarrow> tier \<Rightarrow> bool" where
  "rule_applies r q t = (case evaluate_rule_applicability r q t of Inl e \<Rightarrow> False | Inr row \<Rightarrow> applicable row)"

text \<open>What a rule came to, when its validator was called in a state of which \<open>P\<close> holds.\<close>

definition judged ::
  "('s \<Rightarrow> bool) \<Rightarrow> ('e, 's) governor \<Rightarrow> (string, severity) dict \<Rightarrow> obj \<Rightarrow> mutation_request \<Rightarrow> tier \<Rightarrow> rule \<times> severity \<Rightarrow>
   rule_verdict \<times> obj \<Rightarrow> bool" where
  "judged P g escs st q t rs vr \<longleftrightarrow>
     evaluate_rule_applicability (fst rs) q t = Inr (snd vr) \<and> vd_rule (fst vr) = ru_name (fst rs) \<and>
     vd_severity (fst vr) = resolve_rule_severity (ru_name (fst rs)) (snd rs) escs \<and>
     (if applicable (snd vr)
      then \<exists>s. P s \<and> truthy (vd_passed (fst vr)) = accepts (fst (gv_call g (ru_validator (fst rs)) q st s))
      else truthy (vd_passed (fst vr)))"

definition kept :: "('s \<Rightarrow> bool) \<Rightarrow> ('e, 's) governor \<Rightarrow> obj \<Rightarrow> mutation_request \<Rightarrow> bool" where
  "kept P g st q \<longleftrightarrow> (\<forall>f s. P s \<longrightarrow> P (snd (gv_call g f q st s)))"

lemma judge_rule_judged:
  assumes "judge_rule g escs st q t rs s = (Inr vr, s')" "P s" "kept P g st q"
  shows "judged P g escs st q t rs vr \<and> P s'"
proof -
  obtain row where row: "evaluate_rule_applicability (fst rs) q t = Inr row"
    using assms(1) by (cases "evaluate_rule_applicability (fst rs) q t") (simp_all add: judge_rule_def Let_def policy_step_def)
  obtain outcome s2 where call: "gv_call g (ru_validator (fst rs)) q st s = (outcome, s2)" by fastforce
  show ?thesis
  proof (cases "applicable row")
    case True
    then have "snd vr = row \<and> vd_rule (fst vr) = ru_name (fst rs) \<and> s' = s2 \<and>
        vd_severity (fst vr) = resolve_rule_severity (ru_name (fst rs)) (snd rs) escs \<and>
        truthy (vd_passed (fst vr)) = accepts outcome"
      using assms(1) row call
      by (cases outcome) (auto simp: judge_rule_def Let_def policy_step_def accepts_def dget_or_def)
    moreover have "P s2" using assms(2,3) call unfolding kept_def by (metis snd_conv)
    ultimately show ?thesis using True row call assms(2) unfolding judged_def by (metis fst_conv)
  next
    case False
    then show ?thesis using assms(1,2) row by (auto simp: judge_rule_def Let_def policy_step_def judged_def)
  qed
qed

lemma judge_rules_judged:
  assumes "kept P g st q"
  shows "judge_rules g escs st q t rules s = (Inr vrs, s') \<Longrightarrow> P s \<Longrightarrow> list_all2 (judged P g escs st q t) rules vrs"
proof (induction rules arbitrary: s vrs)
  case (Cons rs rules)
  then obtain v s1 vs where v: "judge_rule g escs st q t rs s = (Inr v, s1)" "judge_rules g escs st q t rules s1 = (Inr vs, s')" "vrs = v # vs"
    by (auto simp: ethen_Inr)
  from judge_rule_judged [of g escs st q t rs s v s1 P] v(1) Cons.prems(2) assms Cons.IH [OF v(2)] v(3) show ?case by simp
qed simp

text \<open>Escalations change the severities of the verdicts and nothing else.\<close>

definition at_severity :: "(string, severity) dict \<Rightarrow> rule \<times> severity \<Rightarrow> rule_verdict \<times> obj \<Rightarrow> rule_verdict \<times> obj" where
  "at_severity escs rs vr = ((fst vr)\<lparr>vd_severity := resolve_rule_severity (ru_name (fst rs)) (snd rs) escs\<rparr>, snd vr)"

lemma judge_rule_escalated:
  "judge_rule g escs st q t rs s =
     (map_sum id (at_severity escs rs) (fst (judge_rule g [] st q t rs s)), snd (judge_rule g [] st q t rs s))"
  by (auto simp: judge_rule_def Let_def at_severity_def policy_step_def split: sum.splits prod.splits)

lemma judge_rules_escalated:
  "judge_rules g escs st q t rules s =
     (map_sum id (map2 (at_severity escs) rules) (fst (judge_rules g [] st q t rules s)), snd (judge_rules g [] st q t rules s))"
proof (induction rules arbitrary: s)
  case (Cons rs rules)
  obtain r s1 where r: "judge_rule g [] st q t rs s = (r, s1)" by fastforce
  obtain rest s2 where rest: "judge_rules g [] st q t rules s1 = (rest, s2)" by fastforce
  show ?case
    using Cons.IH [of s1] by (cases r; cases rest) (simp_all add: judge_rule_escalated [of g escs] r rest)
qed simp

lemma judge_rule_ledgers [simp]: "judge_rule (g\<lparr>gv_escalations := raw\<rparr>) escs st q t rs s = judge_rule g escs st q t rs s"
  by (simp add: judge_rule_def Let_def cong: if_cong)

lemma judge_rules_ledgers [simp]: "judge_rules (g\<lparr>gv_escalations := raw\<rparr>) escs st q t rules s = judge_rules g escs st q t rules s"
  by (induction rules arbitrary: s) simp_all

section \<open>What an evaluation returns\<close>

definition drifted :: "('e, 's) governor \<Rightarrow> constitution \<Rightarrow> bool" where
  "drifted g c \<longleftrightarrow> current_governance_fingerprint (gv_sha g) (gv_source g) (gv_applicability g) c \<noteq> cn_baseline c"

lemma evaluation_returned:
  assumes "evaluate_mutation g c prior q t s = (Inr ev, s')"
  obtains domains st vrs s1 where
    "judge_mutation g c prior q t s = (Inr (domains, st, vrs), s1)" "ev_verdicts ev = map fst vrs" "ev_domains ev = domains"
    "ev_drift ev = drifted g c"
    "ev_blocking ev = failing BLOCKING (map fst vrs) @ (if drifted g c \<and> t = PRODUCTION then [''governance_drift_detected''] else [])"
    "ev_passed ev = (ev_blocking ev = [])" "is_ok (capsule_bits st)"
proof -
  obtain domains st vrs s1 where j: "judge_mutation g c prior q t s = (Inr (domains, st, vrs), s1)"
    using assms by (auto simp: evaluate_mutation_def ethen_Inr)
  show thesis
  proof (rule that [OF j])
    show "is_ok (capsule_bits st)"
      using assms by (cases "capsule_bits st") (auto simp: evaluate_mutation_def j Let_def ethen_Inr policy_step_def)
  qed (use assms in \<open>auto simp: evaluate_mutation_def j Let_def ethen_Inr drifted_def\<close>)
qed

lemma judge_result:
  assumes "judge_mutation g c prior q t s = (Inr (domains, st, vrs), s1)"
  shows "st = evaluation_state prior (gv_telemetry g prior) domains q t"
    "judge_rules g (parse_severity_escalations (gv_escalations g) st) st q t
       (order_rules_with_dependencies (get_rules_for_tier (cn_rules c) t)) s = (Inr vrs, s1)"
    "classify_request_domains (gv_sha g) (gv_yaml g) (gv_applicability g) q = Inr domains"
  using assms by (auto simp: judge_mutation_def Let_def ethen_Inr policy_step_def split: sum.splits)

lemma failing_iff: "n \<in> set (failing sev vs) \<longleftrightarrow> (\<exists>v \<in> set vs. vd_rule v = n \<and> \<not> truthy (vd_passed v) \<and> vd_severity v = sev)"
  by (auto simp: failing_def)

lemma distinct_named:
  "distinct (map (ru_name \<circ> fst) rules) \<Longrightarrow> set (order_rules_with_dependencies rules) = set rules"
proof -
  assume d: "distinct (map (ru_name \<circ> fst) rules)"
  have "distinct (map fst (rev (named_pairs rules)))" using d by (simp add: rev_map [symmetric] comp_def)
  then have "dget (rev (named_pairs rules)) n = Some rs \<longleftrightarrow> (n, rs) \<in> set (named_pairs rules)" for n rs by simp
  then have "rs \<in> set (order_rules_with_dependencies rules) \<longleftrightarrow> (ru_name (fst rs), rs) \<in> set (named_pairs rules)" for rs
    using ordered_rules(3) [of rs rules] by simp
  then show ?thesis by (force simp: image_iff)
qed

lemma failing_at:
  "n \<in> set (failing sev (map fst (map2 (at_severity escs) rules vs))) \<longleftrightarrow>
     (\<exists>p \<in> set (zip rules vs). vd_rule (fst (snd p)) = n \<and> \<not> truthy (vd_passed (fst (snd p))) \<and>
        resolve_rule_severity (ru_name (fst (fst p))) (snd (fst p)) escs = sev)"
  by (simp add: failing_iff at_severity_def case_prod_beta Bex_def)

lemma judge_rules_base:
  assumes "judge_rules g escs st q t rules s = (Inr vrs, u)"
  shows "\<exists>vs. judge_rules g [] st q t rules s = (Inr vs, u) \<and> length vs = length rules \<and> vrs = map2 (at_severity escs) rules vs"
proof -
  obtain r w where r: "judge_rules g [] st q t rules s = (r, w)" by fastforce
  then have "(map_sum id (map2 (at_severity escs) rules) r, w) = (Inr vrs, u)"
    using judge_rules_escalated [of g escs st q t rules s] assms by simp
  then obtain vs where "r = Inr vs" "vrs = map2 (at_severity escs) rules vs" "w = u" by (cases r) auto
  then show ?thesis using r list_all2_lengthD [OF judge_rules_judged [of "\<lambda>s. True" g st q "[]" t rules s vs u]] by (auto simp: kept_def)
qed





lemma list_all2_member: "list_all2 P xs ys \<Longrightarrow> x \<in> set xs \<Longrightarrow> \<exists>y \<in> set ys. P x y"
  by (induction rule: list_all2_induct) auto

text \<open>A rule that blocks by its policy and is refused in every state it can be called in.\<close>

definition mutation_passes :: "('e + evaluation) \<times> 's \<Rightarrow> bool" where
  "mutation_passes r = (case r of (Inl e, s) \<Rightarrow> False | (Inr ev, s) \<Rightarrow> ev_passed ev)"

lemma refused_rule_blocks:
  assumes "distinct (map ru_name (filter ru_enabled (cn_rules c)))" "r \<in> set (cn_rules c)" "ru_enabled r" "rule_applies r q t"
    and "dget_or (ru_overrides r) t (ru_severity r) = BLOCKING" "P s" "\<And>st. kept P g st q"
    and "\<And>st s. P s \<Longrightarrow> \<not> accepts (fst (gv_call g (ru_validator r) q st s))"
  shows "\<not> mutation_passes (evaluate_mutation g c prior q t s)"
proof
  assume "mutation_passes (evaluate_mutation g c prior q t s)"
  then obtain ev s' where r: "evaluate_mutation g c prior q t s = (Inr ev, s')" "ev_passed ev"
    by (auto simp: mutation_passes_def split: prod.splits sum.splits)
  obtain domains st vrs s1 where j: "judge_mutation g c prior q t s = (Inr (domains, st, vrs), s1)" "failing BLOCKING (map fst vrs) = []"
    by (rule evaluation_returned [OF r(1)]) (use r(2) in auto)
  have "map (ru_name \<circ> fst) (get_rules_for_tier (cn_rules c) t) = map ru_name (filter ru_enabled (cn_rules c))"
    by (simp add: get_rules_for_tier_def)
  then have "set (order_rules_with_dependencies (get_rules_for_tier (cn_rules c) t)) = set (get_rules_for_tier (cn_rules c) t)"
    using distinct_named assms(1) by metis
  then have "(r, BLOCKING) \<in> set (order_rules_with_dependencies (get_rules_for_tier (cn_rules c) t))"
    using assms(2,3,5) by (auto simp: get_rules_for_tier_def)
  from list_all2_member [OF judge_rules_judged [OF assms(7) judge_result(2) [OF j(1)] assms(6)] this]
  obtain vr where vr: "vr \<in> set vrs" "judged P g (parse_severity_escalations (gv_escalations g) st) st q t (r, BLOCKING) vr" by blast
  have "vd_severity (fst vr) = BLOCKING"
    using vr(2) severity_floor [of BLOCKING "ru_name r"] by (simp add: judged_def blocking_top)
  moreover have "\<not> truthy (vd_passed (fst vr))"
    using vr(2) assms(4,8) by (auto simp: judged_def rule_applies_def)
  ultimately show False using vr(1) j(2) by (auto simp: failing_def filter_empty_conv)
qed

lemma capsule_state: "capsule_bits (evaluation_state prior v domains q t) = capsule_bits prior"
  by (simp add: capsule_bits_def evaluation_state_def get_or_truthy_def)

section \<open>An evaluation\<close>

definition demo_rule :: "string \<Rightarrow> string \<Rightarrow> severity \<Rightarrow> rule" where
  "demo_rule n f sev =
     \<lparr>ru_name = n, ru_enabled = True, ru_severity = sev, ru_overrides = [(SANDBOX, WARNING)], ru_reason = [], ru_validator = f,
      ru_applicability = [(''triggers'', JObj [(''requires_signature'', JBool True)])]\<rparr>"

definition demo_mutation :: mutation_request where
  "demo_mutation =
     \<lparr>mr_agent = ''a1'', mr_generation = [], mr_intent = ''refactor'', mr_ops = [JObj []], mr_signature = ''s'', mr_nonce = ''n'',
      mr_targets = [], mr_epoch = ''epoch-7'', mr_bundle = [], mr_seed = 0, mr_scopes = [], mr_authority = ''low-impact''\<rparr>"

text \<open>A validator that accepts all but the syntax check; the state counts the rows written.\<close>

definition demo_outcome :: "string \<Rightarrow> string + obj" where
  "demo_outcome f = (if f = ''ast_validity'' then Inl ''no parser'' else Inr [(''ok'', JBool True)])"

definition demo_governor :: "string \<Rightarrow> (unit, nat) governor" where
  "demo_governor raw =
     \<lparr>gv_sha = \<lambda>x. [], gv_yaml = \<lambda>x. Some (JObj []), gv_source = \<lambda>f. f, gv_applicability = Some ''{}'', gv_escalations = raw,
      gv_telemetry = \<lambda>st. JObj [], gv_call = \<lambda>f q st s. (demo_outcome f, s), gv_debt = \<lambda>epoch i ws agent s. (Inr [], s),
      gv_ledgers = counting_ledgers\<rparr>"

definition demo_constitution :: "severity \<Rightarrow> constitution" where
  "demo_constitution sev =
     \<lparr>cn_rules = [demo_rule ''max_mutation_rate'' ''max_mutation_rate'' BLOCKING, demo_rule ''ast_validity'' ''ast_validity'' sev,
        demo_rule ''lineage_continuity'' ''lineage_continuity'' BLOCKING],
      cn_hash = [], cn_document = [], cn_baseline = []\<rparr>"

abbreviation demo_evaluation :: "string \<Rightarrow> severity \<Rightarrow> tier \<Rightarrow> (unit evaluation_error + evaluation) \<times> nat" where
  "demo_evaluation raw sev t \<equiv> evaluate_mutation (demo_governor raw) (demo_constitution sev) [] demo_mutation t 0"

definition returned :: "('e + 'a) \<times> 's \<Rightarrow> 'a" where
  "returned r = (case r of (Inr x, s) \<Rightarrow> x)"

lemma returned_eq: "is_ok (fst r) \<Longrightarrow> r = (Inr (returned r), snd r)"
  by (cases r; cases "fst r") (simp_all add: returned_def)

lemma demo_evaluations:
  "is_ok (fst (demo_evaluation [] WARNING STABLE))" "is_ok (fst (demo_evaluation [] BLOCKING STABLE))"
  "is_ok (fst (demo_evaluation ''{\"ast_validity\": \"advisory\"}'' BLOCKING STABLE))"
  "ev_blocking (returned (demo_evaluation [] BLOCKING STABLE)) = [''ast_validity'']"
  "ev_warnings (returned (demo_evaluation [] WARNING STABLE)) = [''ast_validity'']"
  by code_simp+

section \<open>Properties\<close>



text \<open>
  C7 (safety): the environment can only tighten the constitution. For one request in one state, a text in
  \<open>ADAAD_SEVERITY_ESCALATIONS\<close> leaves every failure that blocks without it blocking, so what passes with it
  passes without it.\<close>

theorem escalations_only_tighten:
  assumes "evaluate_mutation (g\<lparr>gv_escalations := raw\<rparr>) c prior q t s = (Inr ev, s1)"
    and "evaluate_mutation (g\<lparr>gv_escalations := []\<rparr>) c prior q t s = (Inr ev0, s0)"
  shows "set (ev_blocking ev0) \<subseteq> set (ev_blocking ev) \<and> (ev_passed ev \<longrightarrow> ev_passed ev0)"
proof -
  let ?rules = "order_rules_with_dependencies (get_rules_for_tier (cn_rules c) t)"
  obtain d st vrs u where j: "judge_mutation (g\<lparr>gv_escalations := raw\<rparr>) c prior q t s = (Inr (d, st, vrs), u)"
      "ev_blocking ev = failing BLOCKING (map fst vrs) @ (if drifted g c \<and> t = PRODUCTION then [''governance_drift_detected''] else [])"
      "ev_passed ev = (ev_blocking ev = [])"
    by (rule evaluation_returned [OF assms(1)]) (simp add: drifted_def)
  obtain d0 st0 vrs0 u0 where j0: "judge_mutation (g\<lparr>gv_escalations := []\<rparr>) c prior q t s = (Inr (d0, st0, vrs0), u0)"
      "ev_blocking ev0 = failing BLOCKING (map fst vrs0) @ (if drifted g c \<and> t = PRODUCTION then [''governance_drift_detected''] else [])"
      "ev_passed ev0 = (ev_blocking ev0 = [])"
    by (rule evaluation_returned [OF assms(2)]) (simp add: drifted_def)
  have st: "st0 = st" using judge_result(1,3) [OF j(1)] judge_result(1,3) [OF j0(1)] by simp
  let ?some = "parse_severity_escalations raw st" and ?none = "parse_severity_escalations [] st"
  have "judge_rules g ?some st q t ?rules s = (Inr vrs, u)" using judge_result(2) [OF j(1)] by simp
  moreover have "judge_rules g ?none st q t ?rules s = (Inr vrs0, u0)" using judge_result(2) [OF j0(1)] by (simp add: st)
  ultimately obtain vs where vs: "length vs = length ?rules" "vrs = map2 (at_severity ?some) ?rules vs" "vrs0 = map2 (at_severity ?none) ?rules vs"
    using judge_rules_base [of g ?some st q t ?rules s vrs u] judge_rules_base [of g ?none st q t ?rules s vrs0 u0] by auto
  have "set (failing BLOCKING (map fst vrs0)) \<subseteq> set (failing BLOCKING (map fst vrs))"
  proof
    fix n
    assume "n \<in> set (failing BLOCKING (map fst vrs0))"
    then obtain p where p: "p \<in> set (zip ?rules vs)" "vd_rule (fst (snd p)) = n" "\<not> truthy (vd_passed (fst (snd p)))"
        "resolve_rule_severity (ru_name (fst (fst p))) (snd (fst p)) ?none = BLOCKING"
      unfolding vs(3) failing_at by blast
    then have "resolve_rule_severity (ru_name (fst (fst p))) (snd (fst p)) ?some = BLOCKING"
      using environment_raises [of "ru_name (fst (fst p))" "snd (fst p)" st raw] by (simp add: blocking_top)
    with p show "n \<in> set (failing BLOCKING (map fst vrs))" unfolding vs(2) failing_at by blast
  qed
  then show ?thesis using j(2,3) j0(2,3) by auto
qed

theorem escalations_only_tighten_witness:
  "''ast_validity'' \<in> set (ev_blocking (returned (demo_evaluation ''{\"ast_validity\": \"advisory\"}'' BLOCKING STABLE)))"
proof -
  have "demo_governor raw = (demo_governor [])\<lparr>gv_escalations := raw\<rparr>" for raw by (simp add: demo_governor_def)
  with escalations_only_tighten [where g = "demo_governor []"] returned_eq [OF demo_evaluations(2)] returned_eq [OF demo_evaluations(3)]
  have "set (ev_blocking (returned (demo_evaluation [] BLOCKING STABLE)))
      \<subseteq> set (ev_blocking (returned (demo_evaluation ''{\"ast_validity\": \"advisory\"}'' BLOCKING STABLE)))" by metis
  then show ?thesis using demo_evaluations(4) by simp
qed

text \<open>
  C20 (functional): the order in which the rules are run. No name comes twice; a rule is run exactly when it is the last one
  of its name in the policy; and every rule comes after those that the dependency graph names for it.\<close>

theorem rules_once_dependencies_first:
  "distinct (map (ru_name \<circ> fst) (order_rules_with_dependencies rules)) \<and>
   (rs \<in> set (order_rules_with_dependencies rules) \<longleftrightarrow> dget (rev (named_pairs rules)) (ru_name (fst rs)) = Some rs) \<and>
   dependencies_first RULE_DEPENDENCY_GRAPH ((ru_name \<circ> fst) ` set rules) (map (ru_name \<circ> fst) (order_rules_with_dependencies rules))"
  using ordered_rules by blast

text \<open>
  Entropy bits that are no number end the evaluation in an exception. The entropy rule reports them as a failure, but
  \<open>evaluate_mutation\<close> converts them again for its replay capsule, so it returns no verdict and, the conversion coming
  before the rejection is written, records none.\<close>

theorem malformed_entropy_is_raised:
  assumes "capsule_bits prior = Inl e"
  shows "\<not> is_ok (fst (evaluate_mutation g c prior q t s))"
proof
  assume "is_ok (fst (evaluate_mutation g c prior q t s))"
  then obtain ev s' where r: "evaluate_mutation g c prior q t s = (Inr ev, s')"
    by (cases "evaluate_mutation g c prior q t s"; cases "fst (evaluate_mutation g c prior q t s)") auto
  show False
  proof (rule evaluation_returned [OF r])
    fix domains st vrs s1
    assume "judge_mutation g c prior q t s = (Inr (domains, st, vrs), s1)" "is_ok (capsule_bits st)"
    then show False using assms judge_result(1) by (fastforce simp: capsule_state)
  qed
qed

theorem malformed_entropy_is_raised_witness:
  "\<not> is_ok (fst (evaluate_mutation (demo_governor []) (demo_constitution BLOCKING) [(''observed_entropy_bits'', JStr ''many'')]
     demo_mutation PRODUCTION 0))"
proof -
  have "capsule_bits [(''observed_entropy_bits'', JStr ''many'')] = Inl (ValueError ''int'')" by code_simp
  from malformed_entropy_is_raised [OF this] show ?thesis .
qed

end
