(* ===== verification/ConstitutionRules.thy ===== *)
theory ConstitutionRules
  imports ConstitutionEval LineageEpochs GovernanceGate Signatures
begin

text \<open>
  Validators behind the registry of \<open>runtime/constitution.py\<close>, and the evaluation over them: the lineage rule on the files of
  the journal and of the lineage ledger, the signature rule, the rules that only record, the market rule, and the decision of
  the entropy rule. The others read sources, resources or floats and stay an argument. A validator returns its dictionary
  or raises; the text of a Python exception other than the program's own is its type.
\<close>

section \<open>The state of the process\<close>

text \<open>
  The lineage ledger of \<open>journal.write_entry\<close>, the hash-chained journal with its genesis, the second lineage ledger, the
  modification time of the genesis file, and the cache of the lineage rule with the times and sizes of its two files.\<close>

type_synonym lineage_stamp = "int \<times> int \<times> nat \<times> nat"

record governance_world =
  gw_entries :: "string option"
  gw_journal :: journal_disk
  gw_v2 :: "string option"
  gw_genesis_mtime :: int
  gw_cache :: "(lineage_stamp \<times> obj) option"

definition error_text :: "py_error \<Rightarrow> string" where
  "error_text e =
     (case e of TypeError \<Rightarrow> ''TypeError'' | ValueError t \<Rightarrow> t | KeyError k \<Rightarrow> repr_str k | AttributeError \<Rightarrow> ''AttributeError''
      | JSONDecodeError \<Rightarrow> ''JSONDecodeError'' | OSError \<Rightarrow> ''OSError'')"

section \<open>The lineage rule\<close>

definition canonical_link :: "string \<Rightarrow> bool" where
  "canonical_link s \<longleftrightarrow> length s = 64 \<and> list_all (\<lambda>c. is_digit c \<or> c \<in> {CHR ''a'', CHR ''b'', CHR ''c'', CHR ''d'', CHR ''e'', CHR ''f''}) s"

text \<open>\<open>validate_lineage_continuity\<close> on the chain that \<open>resolve_chain\<close> gives for the agent; its failures are runtime errors.\<close>

definition lineage_continuity :: "string \<Rightarrow> string list option \<Rightarrow> string + unit" where
  "lineage_continuity agent chain =
     (if agent = [] then Inl ''lineage_missing_agent_id''
      else case chain of
        None \<Rightarrow> Inl ''lineage_missing_parent''
      | Some [] \<Rightarrow> Inl ''lineage_missing_parent''
      | Some (l # ls) \<Rightarrow>
          if l \<in> {[], GENESIS_HASH} then Inl ''lineage_missing_genesis''
          else if \<not> list_all canonical_link (l # ls) then Inl ''lineage_tampered_hash'' else Inr ())"

text \<open>A rule that has come to an end before the scan: an exception or a dictionary.\<close>

type_synonym outcome = "string + obj"

text \<open>
  Whether the second lineage ledger resolves the agent; a resolution error, the only one of the lineage errors that
  \<open>resolve_chain\<close> raises, is only logged.\<close>

definition continuity_step :: "(string \<Rightarrow> string) \<Rightarrow> string option \<Rightarrow> mutation_request \<Rightarrow> outcome + unit" where
  "continuity_step sha v2 q =
     (if v2 = None then Inr ()
      else case resolve_chain sha (py_strip (mr_agent q)) v2 of
        None \<Rightarrow> Inr ()
      | Some (Inl (LineagePython x)) \<Rightarrow> Inl (Inl (error_text x))
      | Some (Inl x) \<Rightarrow> Inr ()
      | Some (Inr chain) \<Rightarrow>
          (if chain = None \<or> chain = Some [] then Inr ()
           else case lineage_continuity (py_strip (mr_agent q)) chain of
             Inr u \<Rightarrow> Inr ()
           | Inl t \<Rightarrow> Inl (Inr [(''ok'', JBool False), (''reason'', JStr t),
               (''details'', JObj [(''validator'', JStr ''validate_lineage_continuity'')])])))"

definition refused :: "string \<Rightarrow> obj \<Rightarrow> outcome" where
  "refused reason details = Inr [(''ok'', JBool False), (''reason'', JStr reason), (''details'', JObj details)]"

definition lineage_violation :: "string \<Rightarrow> string \<Rightarrow> string \<Rightarrow> string \<Rightarrow> string \<Rightarrow> obj \<Rightarrow> outcome" where
  "lineage_violation epoch mid link expected observed details =
     Inr [(''ok'', JBool False), (''reason'', JStr ''lineage_violation_detected''), (''event'', JStr ''lineage_violation_detected''),
          (''details'', JObj (details @
             [(''epoch_id'', JStr epoch), (''mutation_or_bundle_id'', JStr mid), (''missing_or_invalid_link'', JStr link),
              (''expected_ancestor'', JStr expected), (''observed_reference'', JStr observed)]))]"

text \<open>The scan of one row: the previous hash, the mutations seen, the links put out.\<close>

record lineage_scan =
  sc_prev :: string
  sc_seen :: "string list"
  sc_chain :: "obj list"

definition rule_row_hash :: "(string \<Rightarrow> string) \<Rightarrow> string \<Rightarrow> obj \<Rightarrow> string" where
  "rule_row_hash sha prev e = sha (prev @ canonical False (JObj (unhashed e)))"

definition ancestry_fault ::
  "(string \<Rightarrow> string + bool) \<Rightarrow> string list \<Rightarrow> ancestor_path \<Rightarrow> obj \<Rightarrow> string + (string \<times> string \<times> string) option" where
  "ancestry_fault signed seen p payload =
     (let parent = ap_parent p; chain = ap_ancestors p; sig = ap_signature p
      in if parent \<noteq> [] \<and> parent \<notin> set seen then Inr (Some (''parent_mutation_id'', ''known_mutation_id'', parent))
         else if parent \<noteq> [] \<and> chain \<noteq> [] \<and> last chain \<noteq> parent then Inr (Some (''ancestor_chain_tail'', parent, last chain))
         else case find (\<lambda>a. a \<notin> set seen) chain of
           Some a \<Rightarrow> Inr (Some (''ancestor_chain'', ''known_mutation_id'', a))
         | None \<Rightarrow>
             if sig \<noteq> [] \<and> truthy (dget_or payload ''lineage_signature_required'' JNull) then
               (case signed sig of
                  Inl x \<Rightarrow> Inl x
                | Inr ok \<Rightarrow> Inr (if ok then None else Some (''cryovant_signature'', ''valid_cryovant_signature'', sig)))
             else Inr None)"

definition scan_row ::
  "(string \<Rightarrow> string) \<Rightarrow> (string \<Rightarrow> string + bool) \<Rightarrow> obj \<Rightarrow> obj \<Rightarrow> lineage_scan \<Rightarrow> outcome + lineage_scan" where
  "scan_row sha signed loc e sc =
     (let prev = text_at e ''prev_hash''; h = text_at e ''hash'' in
      if prev \<noteq> sc_prev sc then
        Inl (refused ''lineage_prev_hash_mismatch'' (loc @ [(''expected_prev_hash'', JStr (sc_prev sc)), (''entry_prev_hash'', JStr prev)]))
      else if h \<noteq> rule_row_hash sha (sc_prev sc) e then
        Inl (refused ''lineage_hash_mismatch'' (loc @ [(''expected_hash'', JStr (rule_row_hash sha (sc_prev sc) e)), (''entry_hash'', JStr h)]))
      else case resolve_certified_ancestor_path e of
        Inl x \<Rightarrow> Inl (Inl (error_text x))
      | Inr p \<Rightarrow>
          (let payload = payload_dict e;
               epoch = (if text_at payload ''epoch_id'' = [] then text_at payload ''epoch'' else text_at payload ''epoch_id'')
           in case ancestry_fault signed (sc_seen sc) p payload of
                Inl x \<Rightarrow> Inl (Inl x)
              | Inr (Some (link, expected, observed)) \<Rightarrow>
                  Inl (lineage_violation epoch (ap_mutation p) link expected observed loc)
              | Inr None \<Rightarrow>
                  Inr \<lparr>sc_prev = h, sc_seen = (if ap_mutation p = [] then sc_seen sc else ap_mutation p # sc_seen sc),
                       sc_chain = sc_chain sc @ [loc @ [(''tx'', JStr (text_at e ''tx'')), (''epoch_id'', JStr epoch),
                         (''mutation_or_bundle_id'', JStr (ap_mutation p)), (''type'', JStr (text_at e ''type'')), (''hash'', JStr h),
                         (''prev_hash'', JStr prev)]]\<rparr>))"

text \<open>The lines of one file; the parser's message is left out of the details.\<close>

fun scan_file ::
  "(string \<Rightarrow> string) \<Rightarrow> (string \<Rightarrow> string + bool) \<Rightarrow> string \<Rightarrow> nat \<Rightarrow> string list \<Rightarrow> lineage_scan \<Rightarrow> outcome + lineage_scan" where
  "scan_file sha signed source n [] sc = Inr sc"
| "scan_file sha signed source n (l # ls) sc =
     (let loc = [(''source'', JStr source), (''line'', JInt (int n))] in
      if py_strip l = [] then scan_file sha signed source (Suc n) ls sc
      else case json_loads (py_strip l) of
        None \<Rightarrow> Inl (refused ''lineage_invalid_json'' loc)
      | Some (JObj e) \<Rightarrow> ebind (scan_row sha signed loc e sc) (scan_file sha signed source (Suc n) ls)
      | Some v \<Rightarrow> Inl (refused ''lineage_malformed_entry'' loc))"

definition lineage_files :: "(string \<Rightarrow> string) \<Rightarrow> (string \<Rightarrow> string + bool) \<Rightarrow> string \<Rightarrow> string \<Rightarrow> outcome + lineage_scan" where
  "lineage_files sha signed genesis journal =
     ebind (scan_file sha signed ''genesis'' 1 (split_on line_break genesis) \<lparr>sc_prev = GENESIS_HASH, sc_seen = [], sc_chain = []\<rparr>)
       (scan_file sha signed ''journal'' 1 (split_on line_break journal))"

definition lineage_scanned ::
  "(string \<Rightarrow> string) \<Rightarrow> (string \<Rightarrow> string + bool) \<Rightarrow> string \<Rightarrow> string \<Rightarrow> lineage_stamp \<Rightarrow> governance_world \<Rightarrow>
   outcome \<times> governance_world" where
  "lineage_scanned sha signed g j stamp w =
     (case lineage_files sha signed g j of
        Inl r \<Rightarrow> (r, w)
      | Inr sc \<Rightarrow>
          if sc_chain sc = [] then (refused ''lineage_empty_chain'' [], w)
          else let d = [(''ok'', JBool True), (''reason'', JStr ''lineage_verified''),
                        (''details'', JObj [(''verified_entries'', JInt (int (length (sc_chain sc)))), (''head_hash'', JStr (sc_prev sc)),
                           (''chain'', JList (map JObj (sc_chain sc)))])]
               in (Inr d, w\<lparr>gw_cache := Some (stamp, d)\<rparr>))"

text \<open>The names of the two files are left out of the details.\<close>

definition validate_lineage ::
  "(string \<Rightarrow> string) \<Rightarrow> (string \<Rightarrow> string + bool) \<Rightarrow> mutation_request \<Rightarrow> governance_world \<Rightarrow> outcome \<times> governance_world" where
  "validate_lineage sha signed q w =
     (case continuity_step sha (gw_v2 w) q of
        Inl r \<Rightarrow> (r, w)
      | Inr u \<Rightarrow>
          (case (jn_genesis (gw_journal w), jn_file (gw_journal w)) of
             (None, _) \<Rightarrow> (refused ''missing_genesis'' [], w)
           | (_, None) \<Rightarrow> (refused ''missing_journal'' [], w)
           | (Some g, Some j) \<Rightarrow>
               (let stamp = (gw_genesis_mtime w, jn_mtime (gw_journal w), utf8_len g, utf8_len j)
                in case gw_cache w of
                     Some (k, d) \<Rightarrow>
                       if k = stamp then (Inr d, w)
                       else lineage_scanned sha signed g j stamp w
                   | None \<Rightarrow> lineage_scanned sha signed g j stamp w)))"

section \<open>Rules that only record\<close>

definition recorded :: "string \<Rightarrow> obj \<Rightarrow> obj" where
  "recorded reason details = [(''ok'', JBool True), (''reason'', JStr reason), (''details'', JObj details)]"

text \<open>\<open>_normalize_advisory_detail_value\<close> sorts the keys at every depth, as \<open>Json.norm\<close> does.\<close>

definition state_value :: "obj \<Rightarrow> string \<Rightarrow> json" where
  "state_value st k = Json.norm (dget_or st k JNull)"

definition validate_deployment_authority_tier :: "obj \<Rightarrow> obj" where
  "validate_deployment_authority_tier st =
     (let v = state_value st ''deployment_authority_tier'';
          t = py_strip (py_str (if truthy v then v else JStr ''unspecified''))
      in recorded ''deployment_authority_tier_recorded''
           [(''deployment_authority_tier'', JStr (if t = [] then ''unspecified'' else t))])"

definition record_presence :: "string \<Rightarrow> obj \<Rightarrow> obj" where
  "record_presence k st =
     recorded (k @ ''_recorded'') [(k, state_value st k), (''present'', JBool (state_value st k \<noteq> JNull))]"

definition validate_revenue_credit_floor :: "obj \<Rightarrow> obj" where
  "validate_revenue_credit_floor st = record_presence ''revenue_credit_floor'' st"

definition validate_reviewer_calibration :: "obj \<Rightarrow> obj" where
  "validate_reviewer_calibration st = record_presence ''reviewer_calibration'' st"

text \<open>The threshold 0.60, a float, is left out of the details; an integer is below it when it is not positive.\<close>

definition validate_governance_health_floor :: "obj \<Rightarrow> obj" where
  "validate_governance_health_floor st =
     (let v = state_value st ''governance_health_score'';
          degraded = (case v of JInt i \<Rightarrow> i \<le> 0 | JBool b \<Rightarrow> \<not> b | _ \<Rightarrow> False)
      in recorded ''governance_health_floor_recorded''
           [(''governance_health_score'', v), (''degraded'', JBool degraded), (''present'', JBool (v \<noteq> JNull))])"

text \<open>The argument is \<open>ADAAD_SOULBOUND_KEY\<close>.\<close>

definition validate_soulbound_privacy_invariant :: "string \<Rightarrow> obj" where
  "validate_soulbound_privacy_invariant key =
     recorded ''soulbound_privacy_invariant_recorded''
       [(''soulbound_key_configured'', JBool (py_strip key \<noteq> [])), (''replay_uses_digest_only'', JBool True),
        (''raw_payload_propagation_blocked'', JBool True), (''phase'', JInt 9)]"

definition phase63_scaffold_details :: "string \<Rightarrow> obj \<Rightarrow> obj" where
  "phase63_scaffold_details rule_id st =
     (let signed = truthy (state_value st ''human_signoff_token'')
      in [(''rule_id'', JStr rule_id), (''phase'', JInt 63), (''scaffold_only'', JBool True),
          (''human_signoff_recorded'', JBool signed), (''human_signoff_token_present'', JBool signed),
          (''enforcement_mode'', JStr ''advisory_until_human_0_signoff'')])"

definition SCAFFOLDS :: "(string, string) dict" where
  "SCAFFOLDS =
     [(''phase63_ast_safe_scaffold'', ''AST-SAFE-0''), (''phase63_ast_import_scaffold'', ''AST-IMPORT-0''),
      (''phase63_ast_complexity_scaffold'', ''AST-COMPLEX-0''), (''phase63_semantic_integrity_scaffold'', ''SEMANTIC-INT-0''),
      (''phase63_exception_scope_scaffold'', ''EXCEP-SCOPE-0'')]"

definition validate_phase63_scaffold :: "string \<Rightarrow> string \<Rightarrow> obj \<Rightarrow> obj" where
  "validate_phase63_scaffold f rule_id st = recorded (f @ ''_advisory_only'') (phase63_scaffold_details rule_id st)"

section \<open>The signature rule and the market rule\<close>

definition validate_signature :: "(string \<Rightarrow> string + bool) \<Rightarrow> (string \<Rightarrow> string + bool) \<Rightarrow> mutation_request \<Rightarrow> outcome" where
  "validate_signature verified dev_allowed q =
     ebind (verified (mr_signature q)) (\<lambda>ok.
       if ok then Inr [(''ok'', JBool True), (''method'', JStr ''verified'')]
       else ebind (dev_allowed (mr_signature q)) (\<lambda>dev.
         if dev then Inr [(''ok'', JBool True), (''method'', JStr ''dev_signature'')]
         else Inr [(''ok'', JBool False), (''reason'', JStr ''invalid_signature'')]))"

text \<open>The synthetic epochs that the last line of the checkpoint chain counts, \<open>None\<close> when that raises.\<close>

definition synthetic_epochs :: "string \<Rightarrow> int option" where
  "synthetic_epochs l =
     (case json_loads l of
        Some (JObj e) \<Rightarrow>
          (case dget_or e ''payload'' (JObj e) of
             JObj p \<Rightarrow> (case py_int (dget_or p ''consecutive_synthetic_market_epochs'' (JInt 0)) of Inr n \<Rightarrow> Some n | Inl x \<Rightarrow> None)
           | _ \<Rightarrow> None)
      | _ \<Rightarrow> None)"

definition market_pass :: "string \<Rightarrow> int \<Rightarrow> obj" where
  "market_pass reason cap =
     recorded reason [(''market_integrator_active'', JBool False), (''phase'', JInt 13), (''max_synthetic_epochs'', JInt cap)]"

text \<open>The first argument is \<open>ADAAD_MARKET_MAX_SYNTHETIC_EPOCHS\<close> or its default, the second the checkpoint chain.\<close>

definition validate_market_signal_integrity :: "string \<Rightarrow> string option \<Rightarrow> outcome" where
  "validate_market_signal_integrity cap_text chain =
     (case parse_int cap_text of
        None \<Rightarrow> Inl ''ValueError''
      | Some cap \<Rightarrow>
          (case chain of
             None \<Rightarrow> Inr (market_pass ''market_signal_integrity_chain_absent_advisory_pass'' cap)
           | Some t \<Rightarrow>
               (let ls = split_on line_break (py_strip t)
                in if ls = [] then Inr (market_pass ''market_signal_integrity_chain_empty_advisory_pass'' cap)
                   else case synthetic_epochs (last ls) of
                     None \<Rightarrow> Inr (market_pass ''market_signal_integrity_chain_unreadable_advisory_pass'' cap)
                   | Some n \<Rightarrow>
                       (let over = n \<noteq> 0 \<and> n > cap
                        in Inr [(''ok'', JBool (\<not> over)),
                             (''reason'', JStr (if over then ''market_signal_integrity_violation_consecutive_synthetic_cap_exceeded''
                                               else ''market_signal_integrity_ok'')),
                             (''details'', JObj [(''market_integrator_active'', JBool True), (''consecutive_synthetic_epochs'', JInt n),
                                (''max_synthetic_epochs'', JInt cap), (''cap_exceeded'', JBool over), (''phase'', JInt 13)])]))))"

section \<open>The registry\<close>

text \<open>What the validators read besides the request, the state and the files.\<close>

record rule_env =
  re_sha :: "string \<Rightarrow> string"
  re_signed :: "string \<Rightarrow> string + bool"
  re_verified :: "string \<Rightarrow> string + bool"
  re_dev :: "string \<Rightarrow> string + bool"
  re_soulbound :: string
  re_market_cap :: string
  re_chain :: "string option"

text \<open>The functions of \<open>security/cryovant_legacy.py\<close> behind the three signature fields.\<close>

definition sig_outcome :: "sig_error + bool \<Rightarrow> string + bool" where
  "sig_outcome r = (case r of Inl x \<Rightarrow> Inl ''signature error'' | Inr b \<Rightarrow> Inr b)"

definition cryovant_env :: "(string \<Rightarrow> string \<Rightarrow> string) \<Rightarrow> environ \<Rightarrow> keys_dir \<Rightarrow> rule_env \<Rightarrow> rule_env" where
  "cryovant_env hm env kd re =
     re\<lparr>re_signed := \<lambda>s. sig_outcome (signature_valid hm env kd s), re_verified := \<lambda>s. sig_outcome (verify_signature hm kd s),
        re_dev := \<lambda>s. sig_outcome (dev_signature_allowed env s)\<rparr>"

definition recording_rule :: "rule_env \<Rightarrow> string \<Rightarrow> obj \<Rightarrow> obj option" where
  "recording_rule re f st =
     (if f = ''deployment_authority_tier'' then Some (validate_deployment_authority_tier st)
      else if f = ''revenue_credit_floor'' then Some (validate_revenue_credit_floor st)
      else if f = ''reviewer_calibration'' then Some (validate_reviewer_calibration st)
      else if f = ''governance_health_floor'' then Some (validate_governance_health_floor st)
      else if f = ''soulbound_privacy_invariant'' then Some (validate_soulbound_privacy_invariant (re_soulbound re))
      else map_option (\<lambda>i. validate_phase63_scaffold f i st) (dget SCAFFOLDS f))"

type_synonym validators = "string \<Rightarrow> mutation_request \<Rightarrow> obj \<Rightarrow> governance_world \<Rightarrow> outcome \<times> governance_world"

definition constitution_call :: "rule_env \<Rightarrow> validators \<Rightarrow> validators" where
  "constitution_call re rest f q st w =
     (if f = ''lineage_continuity'' then validate_lineage (re_sha re) (re_signed re) q w
      else if f = ''signature_required'' then (validate_signature (re_verified re) (re_dev re) q, w)
      else if f = ''market_signal_integrity_invariant'' then (validate_market_signal_integrity (re_market_cap re) (re_chain re), w)
      else case recording_rule re f st of Some d \<Rightarrow> (Inr d, w) | None \<Rightarrow> rest f q st w)"

text \<open>The ledgers of the running system, with the clock of \<open>journal_writer\<close> and a time stamp for the entries.\<close>

definition world_ledgers :: "(string \<Rightarrow> string) \<Rightarrow> tx_clock \<Rightarrow> string \<Rightarrow> (journal_error, governance_world) ledgers" where
  "world_ledgers sha clock ts =
     \<lparr>lg_entry = \<lambda>agent event p w.
        (case write_entry \<lparr>le_agent = agent, le_action = event, le_payload = p, le_tenant = [], le_ts = ts\<rparr> (gw_entries w) of
           (r, f) \<Rightarrow> (map_sum JournalValue id r, w\<lparr>gw_entries := f\<rparr>)),
      lg_tx = \<lambda>event p w.
        (case journal_writer sha clock event p (gw_journal w) of (r, j) \<Rightarrow> (r, w\<lparr>gw_journal := j\<rparr>))\<rparr>"

section \<open>The entropy rule\<close>







text \<open>\<open>EntropyAnomalyThresholds.classify\<close> with its defaults\<close>

definition anomaly_level :: "int \<Rightarrow> string" where
  "anomaly_level observed =
     (let n = max 0 observed
      in if n \<ge> 16 then ''block'' else if n \<ge> 8 then ''investigate'' else if n \<ge> 1 then ''monitor'' else ''none'')"



section \<open>Rows of the journal under the lineage rule\<close>

lemma accepts_simps [simp]:
  "\<not> accepts (Inl x)" "\<not> accepts (refused reason d)" "\<not> accepts (lineage_violation epoch mid link ex ob d)" "accepts (Inr (recorded r d))"
  by (simp_all add: accepts_def refused_def lineage_violation_def recorded_def dget_or_def)

lemma continuity_refuses: "continuity_step sha v2 q = Inl r \<Longrightarrow> \<not> accepts r"
  by (auto simp: continuity_step_def accepts_def dget_or_def split: if_splits option.splits sum.splits lineage_error.splits)

text \<open>The first row of a journal, hashed as the journal hashes it, is refused unless the two texts of the row have one hash.\<close>

lemma scan_first_row:
  assumes "chain_from sha GENESIS_HASH [e]" "py_value (JObj e)" "class_row e" "sha (compact_material e) \<noteq> sha (spaced_material e)"
  shows "\<exists>d. scan_file sha signed source n (split_on line_break (journal_text (e # es))) \<lparr>sc_prev = GENESIS_HASH, sc_seen = [], sc_chain = []\<rparr> =
    Inl (refused ''lineage_hash_mismatch'' d)"
proof -
  have plain: "CHR 0x85 \<notin> set (json_text (JObj e))" using assms(3) by (simp add: class_row_def no_nel_def del: no_nel_obj)
  have "line_break (CHR 0x0A)" by (simp add: line_break_def newline_def)
  then have lines: "split_on line_break (journal_text (e # es)) = json_text (JObj e) # split_on line_break (journal_text es)"
    using split_on_line [OF json_text_no_break [OF plain], of "journal_text es"] by (simp add: json_line_def)
  have parsed: "json_loads (json_text (JObj e)) = Some (JObj e)" using assms(2) by (rule loads_json_text)
  have "text_at e ''hash'' \<noteq> rule_row_hash sha GENESIS_HASH e"
    using assms(1,4) by (simp add: compact_material_def spaced_material_def hash_line_def rule_row_hash_def)
  then show ?thesis unfolding lines using assms(1) by (simp add: parsed scan_row_def Let_def) blast
qed

lemma first_row_differs:
  assumes "chain_from sha GENESIS_HASH [e]"
  shows "compact_material e \<noteq> spaced_material e"
proof -
  have "unhashed e \<noteq> []" using unhashed_nonempty [of e] assms plain_zeros(2) by simp
  then show ?thesis using compact_differs by (simp add: compact_material_def spaced_material_def)
qed

lemma chain_first: "chain_from sha p (e # es) \<Longrightarrow> chain_from sha p [e]"
  by simp

lemma journal_rows_refused:
  assumes "well_chained sha gs" "well_chained sha es" "gs @ es = e # rest" "class_row e"
    and "sha (compact_material e) \<noteq> sha (spaced_material e)"
  shows "\<exists>d. lineage_files sha signed (journal_text gs) (journal_text es) = Inl (refused ''lineage_hash_mismatch'' d)"
proof (cases gs)
  case Nil
  then have "chain_from sha GENESIS_HASH (e # rest)" "py_value (JObj e)" using assms(2,3) by (simp_all add: well_chained_def del: chain_from.simps)
  from scan_first_row [OF chain_first [OF this(1)] this(2) assms(4,5)] show ?thesis using Nil assms(3) by (simp add: lineage_files_def)
next
  case (Cons g gs')
  then have "chain_from sha GENESIS_HASH (e # gs')" "py_value (JObj e)" using assms(1,3) by (simp_all add: well_chained_def del: chain_from.simps)
  from scan_first_row [OF chain_first [OF this(1)] this(2) assms(4,5), of signed "''genesis''" 1 gs'] show ?thesis
    using Cons assms(3) by (auto simp: lineage_files_def simp del: ebind_Inl)
qed

lemma lineage_refuses:
  assumes "jn_genesis (gw_journal w) = Some g" "\<And>j. jn_file (gw_journal w) = Some j \<Longrightarrow> \<exists>r. lineage_files sha signed g j = Inl r \<and> \<not> accepts r"
    and "gw_cache w = None"
  shows "\<not> accepts (fst (validate_lineage sha signed q w)) \<and> snd (validate_lineage sha signed q w) = w"
proof (cases "continuity_step sha (gw_v2 w) q")
  case (Inl r)
  then show ?thesis using continuity_refuses by (simp add: validate_lineage_def)
next
  case (Inr u)
  show ?thesis
  proof (cases "jn_file (gw_journal w)")
    case None
    then show ?thesis using Inr assms(1) by (simp add: validate_lineage_def)
  next
    case (Some j)
    from assms(2) [OF this] obtain r where "lineage_files sha signed g j = Inl r" "\<not> accepts r" by blast
    then show ?thesis using Inr Some assms(1,3) by (simp add: validate_lineage_def Let_def lineage_scanned_def)
  qed
qed

section \<open>Rules that record\<close>



section \<open>Effective limits\<close>




section \<open>A process\<close>

definition demo_rule_env :: rule_env where
  "demo_rule_env = \<lparr>re_sha = grow_sha, re_signed = \<lambda>s. Inr True, re_verified = \<lambda>s. Inr True, re_dev = \<lambda>s. Inr False, re_soulbound = [],
     re_market_cap = ''5'', re_chain = None\<rparr>"

definition accepting_rest :: validators where
  "accepting_rest f q st w = (Inr [(''ok'', JBool True)], w)"

definition demo_world_governor :: "string \<Rightarrow> (journal_error, governance_world) governor" where
  "demo_world_governor raw =
     \<lparr>gv_sha = \<lambda>x. [], gv_yaml = \<lambda>x. Some (JObj []), gv_source = \<lambda>f. f, gv_applicability = Some ''{}'', gv_escalations = raw,
      gv_telemetry = \<lambda>st. JObj [], gv_call = constitution_call demo_rule_env accepting_rest,
      gv_debt = \<lambda>epoch i ws agent w. (Inr [], w), gv_ledgers = world_ledgers grow_sha (\<lambda>ty. ([], [], 0)) []\<rparr>"

abbreviation demo_genesis :: obj where
  "demo_genesis \<equiv> row_alone grow_sha demo_fj ''Note'' [] []"

definition demo_world :: governance_world where
  "demo_world = \<lparr>gw_entries = None,
     gw_journal = \<lparr>jn_file = Some (journal_text [demo_genesis]), jn_genesis = Some (journal_text [demo_genesis]), jn_tail = None, jn_mtime = 0,
       jn_cache = None\<rparr>, gw_v2 = None, gw_genesis_mtime = 0, gw_cache = None\<rparr>"

lemma demo_genesis_ok:
  "well_chained grow_sha [demo_genesis]" "class_row demo_genesis" "grow_sha (compact_material demo_genesis) \<noteq> grow_sha (spaced_material demo_genesis)"
proof -
  have "py_value (JObj [])" "no_nel (JObj [])" "NEL \<notin> set ''Note''" by simp_all
  from row_alone_written [OF grow_plain written_none this, of demo_fj]
  show "well_chained grow_sha [demo_genesis]" "class_row demo_genesis" by simp_all
  show "grow_sha (compact_material demo_genesis) \<noteq> grow_sha (spaced_material demo_genesis)" by code_simp
qed

definition recording_constitution :: constitution where
  "recording_constitution =
     \<lparr>cn_rules = [demo_rule ''governance_health_floor'' ''governance_health_floor'' ADVISORY], cn_hash = [], cn_document = [], cn_baseline = []\<rparr>"

definition quiet_governor :: "(unit, governance_world) governor" where
  "quiet_governor =
     \<lparr>gv_sha = \<lambda>x. [], gv_yaml = \<lambda>x. Some (JObj []), gv_source = \<lambda>f. f, gv_applicability = Some ''{}'',
      gv_escalations = ''{\"governance_health_floor\": \"blocking\"}'', gv_telemetry = \<lambda>st. JObj [],
      gv_call = constitution_call demo_rule_env accepting_rest, gv_debt = \<lambda>epoch i ws agent w. (Inr [], w),
      gv_ledgers = \<lparr>lg_entry = \<lambda>agent event p w. (Inr (), w), lg_tx = \<lambda>event p w. (Inr p, w)\<rparr>\<rparr>"

abbreviation "demo_recording \<equiv>
  evaluate_mutation quiet_governor recording_constitution [(''governance_health_score'', JInt 0)] demo_mutation STABLE demo_world"

section \<open>Properties\<close>

text \<open>
  The lineage rule refuses every journal the program wrote. The rule hashes the compact text of a row, the journal the
  text with blanks. When the genesis file and the journal are chains as \<open>journal.append_tx\<close> writes them and one of them
  has a row, the two texts of the first row differ, and unless they have one SHA-256 the rule refuses, whatever
  the request and the second lineage ledger.\<close>

theorem lineage_rule_rejects_journal:
  assumes "jn_genesis (gw_journal w) = Some (journal_text gs)" "jn_file (gw_journal w) = Some (journal_text es)"
    and "well_chained sha gs" "well_chained sha es" "gs @ es = e # rest" "class_row e" "gw_cache w = None"
  shows "compact_material e \<noteq> spaced_material e \<and>
    (sha (compact_material e) = sha (spaced_material e) \<or> \<not> accepts (fst (validate_lineage sha signed q w)))"
proof
  have "chain_from sha GENESIS_HASH [e]"
    using assms(3-5) by (cases gs) (auto simp: well_chained_def)
  then show "compact_material e \<noteq> spaced_material e" by (rule first_row_differs)
  have "\<not> accepts (fst (validate_lineage sha signed q w))" if "sha (compact_material e) \<noteq> sha (spaced_material e)"
    using lineage_refuses [OF assms(1) _ assms(7)] journal_rows_refused [OF assms(3-6) that] assms(2) by fastforce
  then show "sha (compact_material e) = sha (spaced_material e) \<or> \<not> accepts (fst (validate_lineage sha signed q w))" by blast
qed

theorem lineage_rule_rejects_journal_witness:
  "\<not> accepts (fst (validate_lineage grow_sha (\<lambda>s. Inr True) demo_mutation demo_world))"
proof -
  have "jn_genesis (gw_journal demo_world) = Some (journal_text [demo_genesis])" "jn_file (gw_journal demo_world) = Some (journal_text [demo_genesis])"
      "gw_cache demo_world = None" by (simp_all add: demo_world_def)
  from lineage_rule_rejects_journal [OF this(1,2) demo_genesis_ok(1,1) _ demo_genesis_ok(2) this(3)] demo_genesis_ok(3)
  show ?thesis by auto
qed

text \<open>
  C14 (safety): where the lineage rule blocks, nothing passes. The genesis file starts with a row that is sealed with the
  journal's hash, over the JSON text with blanks, as the row of the repository's file is; the two texts of that row do not collide;
  the rule has nothing cached; and the other validators leave the genesis file and that cache alone. Then no evaluation passes in which
  an enabled rule with the lineage validator applies and blocks, whatever the journal holds. Files whose rows are
  sealed over the compact text, as the tests of the rule write them, are not meant.\<close>

theorem lineage_rule_blocks_all:
  assumes "gv_call g = constitution_call re rest" "jn_genesis (gw_journal w) = Some (journal_text (e # gs))" "gw_cache w = None"
    and "chain_from (re_sha re) GENESIS_HASH [e]" "py_value (JObj e)" "class_row e"
    and "re_sha re (compact_material e) \<noteq> re_sha re (spaced_material e)"
    and "\<And>f st v. jn_genesis (gw_journal (snd (rest f q st v))) = jn_genesis (gw_journal v) \<and> gw_cache (snd (rest f q st v)) = gw_cache v"
    and "distinct (map ru_name (filter ru_enabled (cn_rules c)))" "r \<in> set (cn_rules c)" "ru_enabled r" "rule_applies r q t"
    and "dget_or (ru_overrides r) t (ru_severity r) = BLOCKING" "ru_validator r = ''lineage_continuity''"
  shows "\<not> mutation_passes (evaluate_mutation g c prior q t w)"
proof (rule refused_rule_blocks [OF assms(9-13)])
  let ?P = "\<lambda>v. jn_genesis (gw_journal v) = Some (journal_text (e # gs)) \<and> gw_cache v = None"
  have rule: "\<not> accepts (fst (validate_lineage (re_sha re) (re_signed re) q v)) \<and> snd (validate_lineage (re_sha re) (re_signed re) q v) = v"
    if "?P v" for v
  proof (rule lineage_refuses [of v "journal_text (e # gs)"])
    show "jn_genesis (gw_journal v) = Some (journal_text (e # gs))" "gw_cache v = None" using that by simp_all
    obtain d where "scan_file (re_sha re) (re_signed re) ''genesis'' 1 (split_on line_break (journal_text (e # gs)))
        \<lparr>sc_prev = GENESIS_HASH, sc_seen = [], sc_chain = []\<rparr> = Inl (refused ''lineage_hash_mismatch'' d)"
      using scan_first_row [OF assms(4-7), of "re_signed re" "''genesis''" 1 gs] by blast
    then show "\<exists>o'. lineage_files (re_sha re) (re_signed re) (journal_text (e # gs)) j = Inl o' \<and> \<not> accepts o'" for j
      unfolding lineage_files_def by simp
  qed
  show "?P w" using assms(2,3) by simp
  show "kept ?P g st q" for st
    unfolding kept_def assms(1) using rule assms(8) by (simp add: constitution_call_def split: option.splits)
  show "\<not> accepts (fst (gv_call g (ru_validator r) q st v))" if "?P v" for st v
    using rule [OF that] by (simp add: assms(1,14) constitution_call_def)
qed

theorem lineage_rule_blocks_all_witness:
  "\<not> mutation_passes (evaluate_mutation (demo_world_governor []) (demo_constitution WARNING) [] demo_mutation STABLE demo_world)"
proof -
  let ?r = "demo_rule ''lineage_continuity'' ''lineage_continuity'' BLOCKING"
  have row: "chain_from (re_sha demo_rule_env) GENESIS_HASH [demo_genesis]" "py_value (JObj demo_genesis)"
    using demo_genesis_ok(1) by (simp_all add: well_chained_def demo_rule_env_def del: chain_from.simps py_value.simps)
  have sha: "re_sha demo_rule_env (compact_material demo_genesis) \<noteq> re_sha demo_rule_env (spaced_material demo_genesis)"
    using demo_genesis_ok(3) by (simp add: demo_rule_env_def)
  have applies: "rule_applies ?r demo_mutation STABLE" by code_simp
  have rules: "distinct (map ru_name (filter ru_enabled (cn_rules (demo_constitution WARNING))))" "?r \<in> set (cn_rules (demo_constitution WARNING))"
      "ru_enabled ?r" "dget_or (ru_overrides ?r) STABLE (ru_severity ?r) = BLOCKING" "ru_validator ?r = ''lineage_continuity''"
    by (simp_all add: demo_constitution_def demo_rule_def dget_or_def)
  have world: "gv_call (demo_world_governor []) = constitution_call demo_rule_env accepting_rest"
      "jn_genesis (gw_journal demo_world) = Some (journal_text [demo_genesis])" "gw_cache demo_world = None"
    by (simp_all add: demo_world_governor_def demo_world_def)
  show ?thesis
    by (rule lineage_rule_blocks_all [OF world row demo_genesis_ok(2) sha _ rules(1-3) applies rules(4,5)]) (simp add: accepting_rest_def)
qed





end
