(* ===== verification/CircuitBreaker.thy ===== *)
theory CircuitBreaker
  imports HashChain
begin

text \<open>
  \<open>dorkllm/circuit_breaker.py\<close>: the governance circuit breaker. It counts violations by
  namespace in a rolling window, trips when a threshold is reached, blocks mutations until a reset with the
  HUMAN-0 token, and writes every event to a ledger chained by a keyed HMAC, from which a new process restores
  itself. \<open>mac\<close> is the HMAC under the configured key; the times of the events and what each write does
  are arguments. In the verifier, a snapshot that is a list of lists counts as one that cannot be sorted.
\<close>

section \<open>Errors and events\<close>

datatype gcb_error =
    GCBChainViolation
  | GCBOpenViolation
  | GCBMutationViolation
  | GCBAuthViolation
  | GCBPython py_error

definition CIRCUIT_CLOSED :: string where "CIRCUIT_CLOSED = ''CLOSED''"

definition CIRCUIT_OPEN :: string where "CIRCUIT_OPEN = ''OPEN''"

definition GCB_GENESIS :: string where "GCB_GENESIS = replicate 64 (CHR ''0'')"

text \<open>\<open>hmac.compare_digest\<close> on values: texts of ASCII characters, or an exception.\<close>

fun digest_equal :: "json \<Rightarrow> json \<Rightarrow> gcb_error + bool" where
  "digest_equal (JStr s) (JStr t) = (if plain_text (s @ t) then Inr (s = t) else Inl (GCBPython TypeError))"
| "digest_equal _ _ = Inl (GCBPython TypeError)"

text \<open>The state and the back link can come from a restored ledger, so they are any JSON value.\<close>

record circuit_event =
  ce_id :: string
  ce_type :: string
  ce_namespace :: string
  ce_violation :: string
  ce_state :: json
  ce_window :: "string list"
  ce_prev :: json
  ce_hash :: string
  ce_time :: string

definition event_dict :: "circuit_event \<Rightarrow> obj" where
  "event_dict ev =
     [(''circuit_state'', ce_state ev), (''event_id'', JStr (ce_id ev)), (''event_type'', JStr (ce_type ev)),
      (''namespace'', JStr (ce_namespace ev)), (''prev_hash'', ce_prev ev), (''violation_id'', JStr (ce_violation ev)),
      (''window_snapshot'', JList (map JStr (sort (ce_window ev))))]"

definition event_hash :: "(string \<Rightarrow> string) \<Rightarrow> circuit_event \<Rightarrow> string" where
  "event_hash mac ev = mac (canonical True (JObj (event_dict ev)))"

definition finalise :: "(string \<Rightarrow> string) \<Rightarrow> circuit_event \<Rightarrow> circuit_event" where
  "finalise mac ev = ev\<lparr>ce_hash := event_hash mac ev\<rparr>"

definition event_row :: "circuit_event \<Rightarrow> obj" where
  "event_row ev = event_dict ev @ [(''entry_hash'', JStr (ce_hash ev)), (''timestamp'', JStr (ce_time ev))]"

definition advance :: "(string \<Rightarrow> string) \<Rightarrow> circuit_event \<Rightarrow> json \<Rightarrow> gcb_error + json" where
  "advance mac ev tail =
     ebind (digest_equal (ce_prev ev) tail) (\<lambda>linked.
       if \<not> linked then Inl GCBChainViolation
       else ebind (digest_equal (JStr (ce_hash ev)) (JStr (event_hash mac ev))) (\<lambda>own.
         if \<not> own then Inl GCBChainViolation else Inr (JStr (ce_hash ev))))"

section \<open>The window of violations\<close>

definition window_push :: "int \<Rightarrow> string \<Rightarrow> string list \<Rightarrow> string list" where
  "window_push cap ns w = (if cap < int (length (w @ [ns])) then slice_last cap (w @ [ns]) else w @ [ns])"

definition namespace_counts :: "string list \<Rightarrow> (string, nat) dict" where
  "namespace_counts w = sort_key fst (tally w)"

definition max_single_namespace_count :: "string list \<Rightarrow> nat" where
  "max_single_namespace_count w = foldr max (map snd (namespace_counts w)) 0"

definition distinct_namespace_count :: "string list \<Rightarrow> nat" where
  "distinct_namespace_count w = length (remdups w)"

definition should_trip :: "int \<Rightarrow> int \<Rightarrow> string list \<Rightarrow> bool" where
  "should_trip vt nt w \<longleftrightarrow>
     vt \<le> int (max_single_namespace_count w) \<or> nt \<le> int (distinct_namespace_count w)"

section \<open>The engine\<close>

record breaker =
  cb_violation_threshold :: int
  cb_namespace_threshold :: int
  cb_size :: int
  cb_window :: "string list"
  cb_last :: json
  cb_state :: json
  cb_counter :: nat
  cb_total :: nat
  cb_trips :: nat
  cb_file :: jsonl

fun restore_chain :: "line list \<Rightarrow> breaker \<Rightarrow> breaker res" where
  "restore_chain [] s = Inr s"
| "restore_chain (Garbled # ls) s = restore_chain ls s"
| "restore_chain (Row v # ls) s =
     ebind (as_obj v) (\<lambda>r. restore_chain ls
       (s\<lparr>cb_counter := cb_counter s + 1, cb_state := dget_or r ''circuit_state'' (JStr CIRCUIT_CLOSED),
          cb_last := dget_or r ''entry_hash'' (JStr GCB_GENESIS)\<rparr>))"

definition breaker_new :: "int \<Rightarrow> int \<Rightarrow> int \<Rightarrow> jsonl \<Rightarrow> breaker res" where
  "breaker_new vt nt cap f =
     (if cap < 1 then Inl (ValueError ''window size must be >= 1'')
      else restore_chain (file_lines f)
        \<lparr>cb_violation_threshold = vt, cb_namespace_threshold = nt, cb_size = cap, cb_window = [],
         cb_last = JStr GCB_GENESIS, cb_state = JStr CIRCUIT_CLOSED, cb_counter = 0, cb_total = 0, cb_trips = 0,
         cb_file = f\<rparr>)"

definition is_closed :: "breaker \<Rightarrow> bool" where
  "is_closed s \<longleftrightarrow> cb_state s = JStr CIRCUIT_CLOSED"

definition is_open :: "breaker \<Rightarrow> bool" where
  "is_open s \<longleftrightarrow> cb_state s = JStr CIRCUIT_OPEN"

definition assert_circuit_closed :: "breaker \<Rightarrow> gcb_error + unit" where
  "assert_circuit_closed s = (if cb_state s = JStr CIRCUIT_OPEN then Inl GCBOpenViolation else Inr ())"

text \<open>\<open>f"gcb-{n:06d}"\<close>\<close>

definition event_name :: "nat \<Rightarrow> string" where
  "event_name n = ''gcb-'' @ replicate (6 - length (nat_str n)) (CHR ''0'') @ nat_str n"

definition gcb_build_event ::
  "(string \<Rightarrow> string) \<Rightarrow> string \<Rightarrow> string \<Rightarrow> string \<Rightarrow> string list \<Rightarrow> string \<Rightarrow> breaker \<Rightarrow> (gcb_error + circuit_event) \<times> breaker"
where
  "gcb_build_event mac ty ns vid w now s =
     (let s1 = s\<lparr>cb_counter := cb_counter s + 1\<rparr>;
          ev = finalise mac \<lparr>ce_id = event_name (cb_counter s1), ce_type = ty, ce_namespace = ns, ce_violation = vid,
            ce_state = cb_state s1, ce_window = w, ce_prev = cb_last s1, ce_hash = [], ce_time = now\<rparr>
      in case advance mac ev (cb_last s1) of
           Inl e \<Rightarrow> (Inl e, s1)
         | Inr h \<Rightarrow> (Inr ev, s1\<lparr>cb_last := h\<rparr>))"

definition gcb_append_event :: "io \<Rightarrow> circuit_event \<Rightarrow> breaker \<Rightarrow> (gcb_error + unit) \<times> breaker" where
  "gcb_append_event io ev s =
     (if io = IoOk then Inr () else Inl (GCBPython OSError),
      s\<lparr>cb_file := io_append io (norm (JObj (event_row ev))) (cb_file s)\<rparr>)"

definition gcb_trip :: "(string \<Rightarrow> string) \<Rightarrow> string \<Rightarrow> string \<Rightarrow> io \<Rightarrow> breaker \<Rightarrow> (gcb_error + unit) \<times> breaker" where
  "gcb_trip mac vid now io s =
     (let s1 = s\<lparr>cb_state := JStr CIRCUIT_OPEN, cb_trips := cb_trips s + 1\<rparr>
      in ethen (gcb_build_event mac ''TRIP'' ''GCB'' vid (cb_window s1) now s1) (gcb_append_event io))"

text \<open>The times and the outcomes of the two writes, of the violation and of the trip, come in pairs.\<close>

definition record_violation ::
  "(string \<Rightarrow> string) \<Rightarrow> string \<Rightarrow> string \<Rightarrow> bool \<Rightarrow> string \<times> string \<Rightarrow> io \<times> io \<Rightarrow> breaker \<Rightarrow> (gcb_error + bool) \<times> breaker"
where
  "record_violation mac ns vid guard now ios s =
     (if \<not> guard then (Inl GCBMutationViolation, s)
      else
        (let s1 = s\<lparr>cb_total := cb_total s + 1, cb_window := window_push (cb_size s) ns (cb_window s)\<rparr>
         in ethen (gcb_build_event mac ''VIOLATION'' ns vid (cb_window s1) (fst now) s1) (\<lambda>ev s2.
            ethen (gcb_append_event (fst ios) ev s2) (\<lambda>u s3.
              if is_closed s3 \<and> should_trip (cb_violation_threshold s3) (cb_namespace_threshold s3) (cb_window s3)
              then ethen (gcb_trip mac vid (snd now) (snd ios) s3) (\<lambda>u s4. (Inr True, s4))
              else (Inr False, s3)))))"

definition reset_circuit ::
  "(string \<Rightarrow> string) \<Rightarrow> string \<Rightarrow> string \<Rightarrow> string \<Rightarrow> io \<Rightarrow> breaker \<Rightarrow> (gcb_error + unit) \<times> breaker" where
  "reset_circuit mac human0 token now io s =
     (if token \<noteq> human0 then (Inl GCBAuthViolation, s)
      else ethen (gcb_build_event mac ''RESET'' ''GCB'' [] [] now (s\<lparr>cb_state := JStr CIRCUIT_CLOSED, cb_window := []\<rparr>))
        (gcb_append_event io))"

definition get_status :: "breaker \<Rightarrow> obj" where
  "get_status s =
     [(''circuit_state'', cb_state s), (''total_violations'', JInt (int (cb_total s))), (''trip_count'', JInt (int (cb_trips s))),
      (''window_namespace_counts'', JObj (map (\<lambda>(k, n). (k, JInt (int n))) (namespace_counts (cb_window s)))),
      (''window_distinct_namespaces'', JInt (int (distinct_namespace_count (cb_window s)))),
      (''violation_threshold'', JInt (cb_violation_threshold s)), (''namespace_threshold'', JInt (cb_namespace_threshold s)),
      (''chain_last_hash'', cb_last s)]"

section \<open>Verifying the ledger\<close>

fun numeral_of :: "json \<Rightarrow> int option" where
  "numeral_of (JInt i) = Some i"
| "numeral_of (JBool b) = Some (if b then 1 else 0)"
| "numeral_of _ = None"

text \<open>\<open>sorted(value)\<close>\<close>

definition py_sorted :: "json \<Rightarrow> json list res" where
  "py_sorted v =
     ebind (py_list v) (\<lambda>xs.
       if list_all (\<lambda>x. as_str x \<noteq> None) xs then Inr (sort_key (the \<circ> as_str) xs)
       else if list_all (\<lambda>x. numeral_of x \<noteq> None) xs then Inr (sort_key (the \<circ> numeral_of) xs)
       else if length xs = 1 then Inr xs else Inl TypeError)"

definition gcb_field :: "obj \<Rightarrow> string \<Rightarrow> gcb_error + json" where
  "gcb_field row k = (case dget row k of None \<Rightarrow> Inl (GCBPython (KeyError k)) | Some v \<Rightarrow> Inr v)"

definition row_canonical :: "obj \<Rightarrow> gcb_error + obj" where
  "row_canonical row =
     ebind (emap (\<lambda>k. ebind (gcb_field row k) (\<lambda>v. Inr (k, v)))
       [''circuit_state'', ''event_id'', ''event_type'', ''namespace'', ''prev_hash'', ''violation_id'']) (\<lambda>fs.
     ebind (gcb_field row ''window_snapshot'') (\<lambda>w.
       case py_sorted w of Inl e \<Rightarrow> Inl (GCBPython e) | Inr ws \<Rightarrow> Inr (fs @ [(''window_snapshot'', JList ws)])))"

text \<open>Subscripting anything but a dictionary with a string raises.\<close>

fun verify_events :: "(string \<Rightarrow> string) \<Rightarrow> json \<Rightarrow> nat \<Rightarrow> line list \<Rightarrow> gcb_error + nat" where
  "verify_events mac prev n [] = Inr n"
| "verify_events mac prev n (Garbled # ls) = Inl GCBChainViolation"
| "verify_events mac prev n (Row v # ls) =
     (case v of
        JObj row \<Rightarrow>
          ebind (row_canonical row) (\<lambda>c.
          ebind (gcb_field row ''prev_hash'') (\<lambda>p.
          ebind (digest_equal p prev) (\<lambda>linked.
            if \<not> linked then Inl GCBChainViolation
            else ebind (gcb_field row ''entry_hash'') (\<lambda>h.
                 ebind (digest_equal h (JStr (mac (canonical True (JObj c))))) (\<lambda>own.
                   if \<not> own then Inl GCBChainViolation else verify_events mac h (n + 1) ls)))))
      | _ \<Rightarrow> Inl (GCBPython TypeError))"

definition verify_ledger_chain :: "(string \<Rightarrow> string) \<Rightarrow> jsonl \<Rightarrow> gcb_error + nat" where
  "verify_ledger_chain mac f = verify_events mac (JStr GCB_GENESIS) 0 (file_lines f)"


section \<open>Rows of events\<close>

definition event_line :: "circuit_event \<Rightarrow> line" where
  "event_line ev = Row (norm (JObj (event_row ev)))"

lemma norm_texts [simp]: "map (norm \<circ> JStr) xs = map JStr xs" "map norm (map JStr xs) = map JStr xs"
  by simp_all

lemma event_row_norm:
  obtains r where "norm (JObj (event_row ev)) = JObj r" "\<And>k. dget r k = map_option norm (dget (event_row ev) k)"
proof -
  obtain r where r: "norm (JObj (event_row ev)) = JObj r" by simp
  have "distinct (map fst (event_row ev))" by (simp add: event_row_def event_dict_def)
  from dget_norm_obj [OF this r] r that show ?thesis by blast
qed

lemma py_sorted_texts: "py_sorted (JList (map JStr xs)) = Inr (map JStr (sort xs))"
proof -
  have "sort_key (the \<circ> as_str) (map JStr xs) = map JStr (sort xs)"
  proof (rule properties_for_sort_key)
    show "mset (map JStr (sort xs)) = mset (map JStr xs)" by simp
  next
    fix k assume "k \<in> set (map JStr (sort xs))"
    then obtain s where k: "k = JStr s" by auto
    have "filter (\<lambda>y. s = y) (sort xs) = filter (\<lambda>y. s = y) xs"
      using sort_key_stable [of "\<lambda>x. x" s xs] by (simp add: eq_commute)
    then show "filter (\<lambda>x. (the \<circ> as_str) k = (the \<circ> as_str) x) (map JStr (sort xs)) =
        filter (\<lambda>x. (the \<circ> as_str) k = (the \<circ> as_str) x) (map JStr xs)"
      by (simp add: k filter_map comp_def)
  qed (simp add: comp_def)
  then show ?thesis by (simp add: py_sorted_def list_all_iff)
qed

lemma row_canonical_event:
  assumes "norm (JObj (event_row ev)) = JObj r" "ce_state ev = JStr st" "ce_prev ev = JStr p"
  shows "row_canonical r = Inr (event_dict ev)" "dget r ''prev_hash'' = Some (JStr p)" "dget r ''entry_hash'' = Some (JStr (ce_hash ev))"
    "dget r ''circuit_state'' = Some (JStr st)"
proof -
  have g: "dget r k = map_option norm (dget (event_row ev) k)" for k
    using dget_norm_obj [OF _ assms(1)] by (simp add: event_row_def event_dict_def)
  have sorted: "py_sorted (JList (map JStr (sort (ce_window ev)))) = Inr (map JStr (sort (ce_window ev)))"
    by (simp only: py_sorted_texts) (simp add: sort_key_id_if_sorted)
  show "row_canonical r = Inr (event_dict ev)"
    by (simp add: row_canonical_def gcb_field_def g event_row_def event_dict_def assms(2,3) sorted)
qed (use assms(2,3) in \<open>simp_all add: dget_norm_obj [OF _ assms(1)] event_row_def event_dict_def\<close>)

section \<open>Chains of events\<close>

definition state_text :: "circuit_event \<Rightarrow> string option" where
  "state_text ev = as_str (ce_state ev)"

abbreviation events_linked :: "(string \<Rightarrow> string) \<Rightarrow> string \<Rightarrow> circuit_event list \<Rightarrow> bool" where
  "events_linked mac \<equiv> chain_linked (\<lambda>ev. as_str (ce_prev ev)) (\<lambda>ev. Some (ce_hash ev)) (event_hash mac)"

abbreviation events_head :: "(string \<Rightarrow> string) \<Rightarrow> circuit_event list \<Rightarrow> string" where
  "events_head mac evs \<equiv> chain_head (event_hash mac) GCB_GENESIS evs"

definition mac_plain :: "(string \<Rightarrow> string) \<Rightarrow> bool" where
  "mac_plain mac \<longleftrightarrow> (\<forall>x. plain_text (mac x))"

lemma plain_hash [simp]: "mac_plain mac \<Longrightarrow> plain_text (mac x)" "mac_plain mac \<Longrightarrow> plain_text (event_hash mac ev)"
  by (simp_all add: mac_plain_def event_hash_def)

lemma plain_genesis [simp]: "plain_text GCB_GENESIS"
  by (simp add: plain_text_def GCB_GENESIS_def list_all_iff)

lemma plain_head: "mac_plain mac \<Longrightarrow> plain_text p \<Longrightarrow> plain_text (chain_head (event_hash mac) p evs)"
  by (induction evs arbitrary: p) simp_all

lemma verify_written:
  assumes "mac_plain mac" "plain_text p" "events_linked mac p evs" "list_all (\<lambda>ev. state_text ev \<noteq> None) evs"
  shows "verify_events mac (JStr p) n (map event_line evs) = Inr (n + length evs)"
  using assms(2-)
proof (induction evs arbitrary: p n)
  case (Cons ev evs)
  obtain r where r: "norm (JObj (event_row ev)) = JObj r" by simp
  from Cons.prems obtain st where st: "ce_state ev = JStr st" and p: "ce_prev ev = JStr p"
    and h: "ce_hash ev = event_hash mac ev" by (auto simp: state_text_def)
  note row = row_canonical_event [OF r st p]
  have first: "event_line ev = Row (JObj r)" by (simp only: event_line_def r)
  have "verify_events mac (JStr (event_hash mac ev)) (n + 1) (map event_line evs) = Inr (n + 1 + length evs)"
    by (rule Cons.IH) (use Cons.prems assms(1) in simp_all)
  then show ?case
    using Cons.prems(1) assms(1) by (simp add: first row gcb_field_def h event_hash_def [symmetric])
qed simp

lemma restore_written:
  assumes "list_all (\<lambda>ev. state_text ev \<noteq> None \<and> as_str (ce_prev ev) \<noteq> None) evs"
  shows "restore_chain (map event_line evs) s =
    Inr (if evs = [] then s
         else s\<lparr>cb_counter := cb_counter s + length evs, cb_state := ce_state (last evs), cb_last := JStr (ce_hash (last evs))\<rparr>)"
  using assms
proof (induction evs arbitrary: s)
  case (Cons ev evs)
  obtain r where r: "norm (JObj (event_row ev)) = JObj r" by simp
  from Cons.prems obtain st p where st: "ce_state ev = JStr st" and p: "ce_prev ev = JStr p" by (auto simp: state_text_def)
  note row = row_canonical_event [OF r st p]
  have first: "event_line ev = Row (JObj r)" by (simp only: event_line_def r)
  show ?case
    using Cons.prems by (simp add: first row dget_or_def st Cons.IH)
qed simp

lemma linked_prevs: "events_linked mac p evs \<Longrightarrow> list_all (\<lambda>ev. as_str (ce_prev ev) \<noteq> None) evs"
  by (induction evs arbitrary: p) auto

lemma linked_last: "events_linked mac p evs \<Longrightarrow> evs \<noteq> [] \<Longrightarrow> ce_hash (last evs) = chain_head (event_hash mac) p evs"
  using chain_head_own [of "\<lambda>ev. as_str (ce_prev ev)" "\<lambda>ev. Some (ce_hash ev)" "event_hash mac" p evs] by simp

section \<open>What every operation keeps\<close>

definition gcb_tail :: "(string \<Rightarrow> string) \<Rightarrow> breaker \<Rightarrow> circuit_event list \<Rightarrow> bool" where
  "gcb_tail mac s evs \<longleftrightarrow>
     file_lines (cb_file s) = map event_line evs \<and> events_linked mac GCB_GENESIS evs \<and>
     list_all (\<lambda>ev. state_text ev \<noteq> None) evs \<and> cb_counter s = length evs \<and>
     cb_last s = JStr (events_head mac evs) \<and> 1 \<le> cb_size s \<and>
     map ce_id evs = map event_name [1..<Suc (length evs)]"

definition gcb_inv :: "(string \<Rightarrow> string) \<Rightarrow> breaker \<Rightarrow> circuit_event list \<Rightarrow> bool" where
  "gcb_inv mac s evs \<longleftrightarrow> gcb_tail mac s evs \<and>
     cb_state s = (if evs = [] then JStr CIRCUIT_CLOSED else ce_state (last evs)) \<and> (is_open s \<or> is_closed s)"

text \<open>Building and appending one event, in a state whose text the ledger will record.\<close>

definition beside_ledger :: "breaker \<Rightarrow> json \<times> string list \<times> nat \<times> nat \<times> int \<times> int \<times> int" where
  "beside_ledger s =
     (cb_state s, cb_window s, cb_total s, cb_trips s, cb_violation_threshold s, cb_namespace_threshold s, cb_size s)"

lemma gcb_emit_ok:
  assumes "gcb_tail mac s evs" "mac_plain mac" "cb_state s = JStr st"
  obtains ev s2 s3 where "gcb_build_event mac ty ns vid w now s = (Inr ev, s2)" "gcb_append_event IoOk ev s2 = (Inr (), s3)"
    "ce_state ev = JStr st" "gcb_tail mac s3 (evs @ [ev])" "beside_ledger s3 = beside_ledger s"
proof -
  let ?e = "\<lparr>ce_id = event_name (cb_counter s + 1), ce_type = ty, ce_namespace = ns, ce_violation = vid,
            ce_state = cb_state s, ce_window = w, ce_prev = cb_last s, ce_hash = [], ce_time = now\<rparr>"
  let ?ev = "finalise mac ?e"
  let ?s2 = "s\<lparr>cb_counter := cb_counter s + 1, cb_last := JStr (event_hash mac ?ev)\<rparr>"
  have h: "ce_hash ?ev = event_hash mac ?ev" by (simp add: finalise_def event_hash_def event_dict_def)
  have b: "gcb_build_event mac ty ns vid w now s = (Inr ?ev, ?s2)"
    using assms(1,2) plain_head [of mac GCB_GENESIS evs] h
    by (simp add: gcb_build_event_def Let_def advance_def gcb_tail_def finalise_def)
  have a: "gcb_append_event IoOk ?ev ?s2 = (Inr (), ?s2\<lparr>cb_file := append_line (norm (JObj (event_row ?ev))) (cb_file s)\<rparr>)"
    by (simp add: gcb_append_event_def del: norm.simps)
  show thesis
    by (rule that [OF b a])
      (use assms(1,3) h in \<open>auto simp: gcb_tail_def event_line_def finalise_def state_text_def beside_ledger_def simp del: norm.simps\<close>)
qed

lemma gcb_inv_state: "gcb_inv mac s evs \<Longrightarrow> \<exists>st. cb_state s = JStr st"
  by (metis gcb_inv_def is_open_def is_closed_def)

lemma gcb_tail_more [simp]:
  "gcb_tail mac (s\<lparr>cb_state := v\<rparr>) evs = gcb_tail mac s evs"
  "gcb_tail mac (s\<lparr>cb_window := w\<rparr>) evs = gcb_tail mac s evs"
  "gcb_tail mac (s\<lparr>cb_total := n\<rparr>) evs = gcb_tail mac s evs"
  "gcb_tail mac (s\<lparr>cb_trips := n\<rparr>) evs = gcb_tail mac s evs"
  by (simp_all add: gcb_tail_def)

text \<open>The first half of a violation: its own row is written and the window has moved.\<close>

definition trips :: "breaker \<Rightarrow> string list \<Rightarrow> bool" where
  "trips s w \<longleftrightarrow> is_closed s \<and> should_trip (cb_violation_threshold s) (cb_namespace_threshold s) w"

lemma violation_recorded:
  assumes "gcb_inv mac s evs" "mac_plain mac"
  obtains s3 ev where "gcb_inv mac s3 (evs @ [ev])"
    "beside_ledger s3 = beside_ledger (s\<lparr>cb_total := cb_total s + 1, cb_window := window_push (cb_size s) ns (cb_window s)\<rparr>)"
    "\<forall>io. record_violation mac ns vid True now (IoOk, io) s =
       (if trips s (cb_window s3) then ethen (gcb_trip mac vid (snd now) io s3) (\<lambda>u s4. (Inr True, s4)) else (Inr False, s3))"
proof -
  define s1 where "s1 = s\<lparr>cb_total := cb_total s + 1, cb_window := window_push (cb_size s) ns (cb_window s)\<rparr>"
  from gcb_inv_state [OF assms(1)] obtain st where st: "cb_state s = JStr st" by blast
  have "gcb_tail mac s1 evs" "cb_state s1 = JStr st" using assms(1) st by (simp_all add: gcb_inv_def s1_def)
  from gcb_emit_ok [OF this(1) assms(2) this(2), of "''VIOLATION''" ns vid "cb_window s1" "fst now"]
  obtain ev s2 s3 where e: "gcb_build_event mac ''VIOLATION'' ns vid (cb_window s1) (fst now) s1 = (Inr ev, s2)"
    "gcb_append_event IoOk ev s2 = (Inr (), s3)" "ce_state ev = JStr st" "gcb_tail mac s3 (evs @ [ev])"
    "beside_ledger s3 = beside_ledger s1" .
  note same = e(5) [unfolded beside_ledger_def s1_def, simplified]
  have "record_violation mac ns vid True now (IoOk, io) s =
     (if trips s (cb_window s3) then ethen (gcb_trip mac vid (snd now) io s3) (\<lambda>u s4. (Inr True, s4)) else (Inr False, s3))" for io
    using e(1,2) same unfolding record_violation_def s1_def [symmetric] by (simp add: s1_def is_closed_def trips_def)
  moreover have "st = CIRCUIT_OPEN \<or> st = CIRCUIT_CLOSED"
    using assms(1) st by (metis gcb_inv_def is_closed_def is_open_def json.inject(3))
  moreover have "cb_state s3 = JStr st" using same st by metis
  ultimately show thesis
    using e(3-5) by (intro that [of s3 ev]) (simp_all add: gcb_inv_def is_open_def is_closed_def s1_def)
qed

text \<open>What a violation does when its writes go through.\<close>

lemma violation_ok:
  assumes "gcb_inv mac s evs" "mac_plain mac"
  obtains s' new where "record_violation mac ns vid True now (IoOk, IoOk) s = (Inr (trips s (cb_window s')), s')"
    "gcb_inv mac s' (evs @ new)"
    "cb_window s' = window_push (cb_size s) ns (cb_window s)" "cb_size s' = cb_size s"
    "cb_violation_threshold s' = cb_violation_threshold s" "cb_namespace_threshold s' = cb_namespace_threshold s"
    "is_open s' \<longleftrightarrow> is_open s \<or> trips s (cb_window s')"
proof -
  from violation_recorded [OF assms, of ns vid now] obtain s3 ev where inv3: "gcb_inv mac s3 (evs @ [ev])"
    and b: "beside_ledger s3 = beside_ledger (s\<lparr>cb_total := cb_total s + 1, cb_window := window_push (cb_size s) ns (cb_window s)\<rparr>)"
    and run: "\<forall>io. record_violation mac ns vid True now (IoOk, io) s =
       (if trips s (cb_window s3) then ethen (gcb_trip mac vid (snd now) io s3) (\<lambda>u s4. (Inr True, s4)) else (Inr False, s3))" .
  note same = b [unfolded beside_ledger_def, simplified]
  show thesis
  proof (cases "trips s (cb_window s3)")
    case False
    then show thesis
      using run [rule_format, of IoOk] same by (intro that [of s3 "[ev]"]) (simp_all add: inv3 is_open_def)
  next
    case True
    define s4 where "s4 = s3\<lparr>cb_state := JStr CIRCUIT_OPEN, cb_trips := cb_trips s3 + 1\<rparr>"
    have "gcb_tail mac s4 (evs @ [ev])" "cb_state s4 = JStr CIRCUIT_OPEN" using inv3 by (simp_all add: s4_def gcb_inv_def)
    from gcb_emit_ok [OF this(1) assms(2) this(2), of "''TRIP''" "''GCB''" vid "cb_window s4" "snd now"]
    obtain ev' s5 s6 where t: "gcb_build_event mac ''TRIP'' ''GCB'' vid (cb_window s4) (snd now) s4 = (Inr ev', s5)"
      "gcb_append_event IoOk ev' s5 = (Inr (), s6)" "ce_state ev' = JStr CIRCUIT_OPEN" "gcb_tail mac s6 ((evs @ [ev]) @ [ev'])"
      "beside_ledger s6 = beside_ledger s4" .
    note same' = t(5) [unfolded beside_ledger_def s4_def, simplified]
    have "gcb_trip mac vid (snd now) IoOk s3 = (Inr (), s6)"
      using t(1,2) unfolding gcb_trip_def s4_def [symmetric] Let_def by simp
    then have "record_violation mac ns vid True now (IoOk, IoOk) s = (Inr True, s6)" using run [rule_format, of IoOk] True by simp
    moreover have "gcb_inv mac s6 (evs @ [ev, ev'])" using t(3,4) same' by (simp add: gcb_inv_def is_open_def)
    ultimately show thesis using True by (intro that [of s6 "[ev, ev']"]) (simp_all add: same same' is_open_def)
  qed
qed

lemma reset_ok:
  assumes "gcb_inv mac s evs" "mac_plain mac"
  obtains s' new where "reset_circuit mac human0 human0 now IoOk s = (Inr (), s')" "gcb_inv mac s' (evs @ new)"
    "is_closed s'" "cb_window s' = []"
proof -
  define s1 where "s1 = s\<lparr>cb_state := JStr CIRCUIT_CLOSED, cb_window := []\<rparr>"
  have "gcb_tail mac s1 evs" "cb_state s1 = JStr CIRCUIT_CLOSED" using assms(1) by (simp_all add: gcb_inv_def s1_def)
  from gcb_emit_ok [OF this(1) assms(2) this(2), of "''RESET''" "''GCB''" "[]" "[]" now]
  obtain ev s2 s3 where e: "gcb_build_event mac ''RESET'' ''GCB'' [] [] now s1 = (Inr ev, s2)"
    "gcb_append_event IoOk ev s2 = (Inr (), s3)" "ce_state ev = JStr CIRCUIT_CLOSED" "gcb_tail mac s3 (evs @ [ev])"
    "beside_ledger s3 = beside_ledger s1" .
  note same = e(5) [unfolded beside_ledger_def s1_def, simplified]
  show thesis
    by (rule that [of s3 "[ev]"])
      (use e(1-4) same in \<open>simp_all add: reset_circuit_def s1_def [symmetric] gcb_inv_def is_closed_def\<close>)
qed

lemma restart_inv:
  assumes "gcb_inv mac s evs"
  shows "breaker_new (cb_violation_threshold s) (cb_namespace_threshold s) (cb_size s) (cb_file s) =
    Inr (s\<lparr>cb_window := [], cb_total := 0, cb_trips := 0\<rparr>)"
proof -
  have all: "list_all (\<lambda>ev. state_text ev \<noteq> None \<and> as_str (ce_prev ev) \<noteq> None) evs"
    using assms linked_prevs [of mac GCB_GENESIS evs] by (auto simp: gcb_inv_def gcb_tail_def list_all_iff)
  show ?thesis
    using assms linked_last [of mac GCB_GENESIS evs]
    by (auto simp: breaker_new_def restore_written [OF all] gcb_inv_def gcb_tail_def)
qed

lemma gcb_verifies: "gcb_inv mac s evs \<Longrightarrow> mac_plain mac \<Longrightarrow> verify_ledger_chain mac (cb_file s) = Inr (cb_counter s)"
  using verify_written [of mac GCB_GENESIS evs 0] by (simp add: verify_ledger_chain_def gcb_inv_def gcb_tail_def)

lemma violation_keeps:
  assumes "gcb_inv mac s evs" "mac_plain mac" "record_violation mac ns vid guard now (IoOk, IoOk) s = (r, s')"
  shows "\<exists>evs'. gcb_inv mac s' evs' \<and> (is_open s \<longrightarrow> is_open s')"
proof (cases guard)
  case True
  from violation_ok [OF assms(1,2), of ns vid now] obtain s2 new where
    "record_violation mac ns vid True now (IoOk, IoOk) s = (Inr (trips s (cb_window s2)), s2)"
    "gcb_inv mac s2 (evs @ new)" "is_open s2 \<longleftrightarrow> is_open s \<or> trips s (cb_window s2)" .
  with assms(3) True show ?thesis by auto
qed (use assms in \<open>auto simp: record_violation_def\<close>)

section \<open>Runs\<close>

text \<open>A circuit breaker from the opening of a ledger on, with processes that restart. The last two rules are a process that dies
  in a violation or a reset, at any write: before it, after it, or with an exception from it, and the next process.\<close>

inductive gcb_run :: "(string \<Rightarrow> string) \<Rightarrow> string \<Rightarrow> breaker \<Rightarrow> bool" for mac human0 where
  opened: "breaker_new vt nt cap None = Inr s \<Longrightarrow> gcb_run mac human0 s"
| violated: "gcb_run mac human0 s \<Longrightarrow> record_violation mac ns vid guard now (IoOk, IoOk) s = (r, s') \<Longrightarrow> gcb_run mac human0 s'"
| asked_reset: "gcb_run mac human0 s \<Longrightarrow> reset_circuit mac human0 token now IoOk s = (r', s') \<Longrightarrow> gcb_run mac human0 s'"
| restarted: "gcb_run mac human0 s \<Longrightarrow>
    breaker_new (cb_violation_threshold s) (cb_namespace_threshold s) (cb_size s) (cb_file s) = Inr s' \<Longrightarrow> gcb_run mac human0 s'"
| died_in_violation: "gcb_run mac human0 s \<Longrightarrow> record_violation mac ns vid guard now ios s = (r, t) \<Longrightarrow>
    breaker_new vt nt cap (cb_file t) = Inr s' \<Longrightarrow> gcb_run mac human0 s'"
| died_in_reset: "gcb_run mac human0 s \<Longrightarrow> reset_circuit mac human0 token now io s = (r', t) \<Longrightarrow>
    breaker_new vt nt cap (cb_file t) = Inr s' \<Longrightarrow> gcb_run mac human0 s'"

text \<open>What a death leaves on the ledger is the ledger of a state that some run without one reaches.\<close>

lemma trip_lost [simp]: "cb_file (snd (gcb_trip mac vid now IoLost s)) = cb_file s"
  by (auto simp: gcb_trip_def gcb_build_event_def gcb_append_event_def Let_def split: sum.splits)

lemma trip_written: "cb_file (snd (gcb_trip mac vid now IoWritten s)) = cb_file (snd (gcb_trip mac vid now IoOk s))"
  by (auto simp: gcb_trip_def gcb_build_event_def gcb_append_event_def Let_def split: sum.splits)

lemma then_file: "cb_file (snd (ethen r (\<lambda>u s. (Inr b, s)))) = cb_file (snd r)"
  by (cases r; cases "fst r") auto

lemma violation_files:
  "cb_file (snd (record_violation mac ns vid True now (IoLost, io) s)) = cb_file s"
  "cb_file (snd (record_violation mac ns vid True now (IoWritten, io) s)) = cb_file (snd (record_violation mac ns vid True now (IoOk, IoLost) s))"
  "cb_file (snd (record_violation mac ns vid True now (IoOk, IoWritten) s)) = cb_file (snd (record_violation mac ns vid True now (IoOk, IoOk) s))"
  by (auto simp: record_violation_def gcb_build_event_def gcb_append_event_def then_file trip_written Let_def split: sum.splits simp del: norm.simps)

lemma violation_leaves:
  assumes "gcb_inv mac s evs" "mac_plain mac" "record_violation mac ns vid guard now ios s = (r, t)"
  shows "\<exists>u evs'. gcb_inv mac u evs' \<and> cb_file u = cb_file t"
proof -
  have t: "t = snd (record_violation mac ns vid guard now ios s)" using assms(3) by simp
  have whole: "\<exists>u evs'. gcb_inv mac u evs' \<and> cb_file u = cb_file (snd (record_violation mac ns vid True now (IoOk, IoOk) s))"
    using violation_keeps [OF assms(1,2)] by (metis surjective_pairing)
  have half: "\<exists>u evs'. gcb_inv mac u evs' \<and> cb_file u = cb_file (snd (record_violation mac ns vid True now (IoOk, IoLost) s))"
  proof -
    from violation_recorded [OF assms(1,2), of ns vid now] obtain s3 ev where "gcb_inv mac s3 (evs @ [ev])"
      and run: "\<forall>io. record_violation mac ns vid True now (IoOk, io) s =
         (if trips s (cb_window s3) then ethen (gcb_trip mac vid (snd now) io s3) (\<lambda>u s4. (Inr True, s4)) else (Inr False, s3))" .
    moreover have "cb_file (snd (record_violation mac ns vid True now (IoOk, IoLost) s)) = cb_file s3"
      using run by (simp add: then_file)
    ultimately show ?thesis by metis
  qed
  obtain a b where ios: "ios = (a, b)" by (cases ios) auto
  show ?thesis
  proof (cases guard)
    case True
    then show ?thesis
      unfolding t ios using assms(1) whole half violation_files by (cases a; cases b) metis+
  qed (use assms(1) in \<open>auto simp: t record_violation_def\<close>)
qed

lemma reset_leaves:
  assumes "gcb_inv mac s evs" "mac_plain mac" "reset_circuit mac human0 token now io s = (r, t)"
  shows "\<exists>u evs'. gcb_inv mac u evs' \<and> cb_file u = cb_file t"
proof (cases "token = human0")
  case True
  have "cb_file (snd (reset_circuit mac human0 human0 now io s)) =
      (if io = IoLost then cb_file s else cb_file (snd (reset_circuit mac human0 human0 now IoOk s)))"
    by (cases io) (auto simp: reset_circuit_def gcb_build_event_def gcb_append_event_def Let_def split: sum.splits simp del: norm.simps)
  moreover obtain u new where "reset_circuit mac human0 human0 now IoOk s = (Inr (), u)" "gcb_inv mac u (evs @ new)"
    using reset_ok [OF assms(1,2), of human0 now] by metis
  ultimately show ?thesis using assms(1,3) True by (metis snd_conv)
qed (use assms in \<open>auto simp: reset_circuit_def\<close>)

lemma opened_inv:
  assumes "gcb_inv mac t evs" "breaker_new vt nt cap (cb_file t) = Inr s'"
  shows "gcb_inv mac s' evs"
proof -
  let ?t = "t\<lparr>cb_violation_threshold := vt, cb_namespace_threshold := nt, cb_size := cap\<rparr>"
  have "1 \<le> cap" using assms(2) by (auto simp: breaker_new_def split: if_splits)
  then have inv: "gcb_inv mac ?t evs" using assms(1) by (auto simp: gcb_inv_def gcb_tail_def is_open_def is_closed_def)
  from restart_inv [OF this] assms(2) have "s' = ?t\<lparr>cb_window := [], cb_total := 0, cb_trips := 0\<rparr>" by simp
  with inv show ?thesis by (auto simp: gcb_inv_def is_open_def is_closed_def)
qed

lemma gcb_inv_restarted [simp]:
  "gcb_inv mac (s\<lparr>cb_window := w, cb_total := n, cb_trips := k\<rparr>) evs = gcb_inv mac s evs"
  by (simp add: gcb_inv_def is_open_def is_closed_def)

lemma gcb_run_inv: "gcb_run mac human0 s \<Longrightarrow> mac_plain mac \<Longrightarrow> \<exists>evs. gcb_inv mac s evs"
proof (induction rule: gcb_run.induct)
  case (opened vt nt cap s)
  then have "gcb_inv mac s []"
    by (auto simp: breaker_new_def gcb_inv_def gcb_tail_def is_closed_def split: if_splits)
  then show ?case by blast
next
  case (violated s ns vid guard now r s')
  from violated.IH [OF violated.prems] obtain evs where inv: "gcb_inv mac s evs" ..
  from violation_keeps [OF inv violated.prems violated.hyps(2)] show ?case by blast
next
  case (asked_reset s token now r' s')
  from asked_reset.IH [OF asked_reset.prems] obtain evs where inv: "gcb_inv mac s evs" ..
  show ?case
  proof (cases "token = human0")
    case True
    from reset_ok [OF inv asked_reset.prems, of human0 now] obtain s2 new where
      "reset_circuit mac human0 human0 now IoOk s = (Inr (), s2)" "gcb_inv mac s2 (evs @ new)" .
    with asked_reset.hyps(2) True show ?thesis by auto
  qed (use inv asked_reset.hyps(2) in \<open>auto simp: reset_circuit_def\<close>)
next
  case (restarted s s')
  then obtain evs where inv: "gcb_inv mac s evs" by blast
  with restarted.hyps(2) have "gcb_inv mac s' evs" by (auto simp: restart_inv)
  then show ?case ..
next
  case (died_in_violation s ns vid guard now ios r t vt nt cap s')
  then obtain evs where "gcb_inv mac s evs" by blast
  from violation_leaves [OF this died_in_violation.prems died_in_violation.hyps(2)] obtain u evs'
    where "gcb_inv mac u evs'" "cb_file u = cb_file t" by blast
  with opened_inv died_in_violation.hyps(3) show ?case by metis
next
  case (died_in_reset s token now io r' t vt nt cap s')
  then obtain evs where "gcb_inv mac s evs" by blast
  from reset_leaves [OF this died_in_reset.prems died_in_reset.hyps(2)] obtain u evs'
    where "gcb_inv mac u evs'" "cb_file u = cb_file t" by blast
  with opened_inv died_in_reset.hyps(3) show ?case by metis
qed

text \<open>What can happen without the token of HUMAN-0.\<close>

inductive gcb_unattended :: "(string \<Rightarrow> string) \<Rightarrow> string \<Rightarrow> breaker \<Rightarrow> breaker \<Rightarrow> bool" for mac human0 s where
  start: "gcb_unattended mac human0 s s"
| violation: "gcb_unattended mac human0 s t \<Longrightarrow> record_violation mac ns vid guard now (IoOk, IoOk) t = (r, t') \<Longrightarrow> gcb_unattended mac human0 s t'"
| refused: "gcb_unattended mac human0 s t \<Longrightarrow> token \<noteq> human0 \<Longrightarrow> reset_circuit mac human0 token now io t = (r', t') \<Longrightarrow> gcb_unattended mac human0 s t'"
| restart: "gcb_unattended mac human0 s t \<Longrightarrow>
    breaker_new (cb_violation_threshold t) (cb_namespace_threshold t) (cb_size t) (cb_file t) = Inr t' \<Longrightarrow> gcb_unattended mac human0 s t'"

lemma unattended_open:
  assumes "gcb_unattended mac human0 s t" "gcb_inv mac s evs0" "is_open s" "mac_plain mac"
  shows "\<exists>evs. gcb_inv mac t evs \<and> is_open t"
  using assms
proof (induction rule: gcb_unattended.induct)
  case (violation t ns vid guard now r t')
  then show ?case using violation_keeps by blast
next
  case (refused t token now io r' t')
  then show ?case by (auto simp: reset_circuit_def)
next
  case (restart t t')
  then obtain evs where "gcb_inv mac t evs" "is_open t" by blast
  moreover from this restart.hyps(2) have "t' = t\<lparr>cb_window := [], cb_total := 0, cb_trips := 0\<rparr>" by (simp add: restart_inv)
  ultimately show ?case by (intro exI [of _ evs]) (simp add: is_open_def)
qed auto

section \<open>The window and the reference detection\<close>

text \<open>A cascade in a history of namespaces: the last violations reach one of the thresholds.\<close>

definition cascade :: "int \<Rightarrow> int \<Rightarrow> int \<Rightarrow> string list \<Rightarrow> bool" where
  "cascade vt nt cap history \<longleftrightarrow>
     (let recent = slice_last cap history
      in (\<exists>ns \<in> set recent. vt \<le> int (count_list recent ns)) \<or> nt \<le> int (card (set recent)))"

lemma dget_tally:
  "dget (foldl (\<lambda>d k. bump k d) d ks) k = (if k \<in> set ks then Some (dget_or d k 0 + count_list ks k) else dget d k)"
  by (induction ks arbitrary: d) (auto simp: bump_def dget_or_def count_notin)

lemma distinct_tally: "distinct (map fst d) \<Longrightarrow> distinct (map fst (foldl (\<lambda>d k. bump k d) d ks))"
  by (induction ks arbitrary: d) (simp_all add: bump_def distinct_update)

lemma counts_set: "snd ` set (namespace_counts w) = count_list w ` set w"
proof -
  have d: "distinct (map fst (tally w))" by (simp add: tally_def distinct_tally)
  have "(k, n) \<in> set (tally w) \<longleftrightarrow> k \<in> set w \<and> n = count_list w k" for k n
    using map_of_eq_Some_iff [OF d, of k n, symmetric] by (auto simp: tally_def dget_tally dget_or_def)
  then show ?thesis unfolding namespace_counts_def by (force simp: image_iff)
qed

lemma foldr_max: "v \<le> int (foldr max ns 0) \<longleftrightarrow> v \<le> 0 \<or> (\<exists>n \<in> set ns. v \<le> int n)"
  by (induction ns) (auto simp: max_def)

lemma should_trip_cascade:
  assumes "w \<noteq> []"
  shows "should_trip vt nt w \<longleftrightarrow> (\<exists>ns \<in> set w. vt \<le> int (count_list w ns)) \<or> nt \<le> int (card (set w))"
proof -
  have "vt \<le> int (max_single_namespace_count w) \<longleftrightarrow> vt \<le> 0 \<or> (\<exists>ns \<in> set w. vt \<le> int (count_list w ns))"
    unfolding max_single_namespace_count_def foldr_max by (simp add: counts_set)
  moreover have "hd w \<in> set w" "vt \<le> 0 \<Longrightarrow> vt \<le> int (count_list w (hd w))" using assms by auto
  ultimately show ?thesis
    unfolding should_trip_def distinct_namespace_count_def by (auto simp: length_remdups_card_conv)
qed

lemma window_push_slice: "1 \<le> cap \<Longrightarrow> window_push cap ns (slice_last cap h) = slice_last cap (h @ [ns])"
  by (cases "nat cap \<le> length h") (auto simp: window_push_def slice_last_def Suc_diff_le)

lemma slice_snoc_nonempty [simp]: "1 \<le> cap \<Longrightarrow> slice_last cap (h @ [ns]) \<noteq> []"
  by (auto simp: slice_last_def)

definition run_violations :: "(string \<Rightarrow> string) \<Rightarrow> (string \<times> string \<times> string \<times> string) list \<Rightarrow> breaker \<Rightarrow> breaker" where
  "run_violations mac vs s =
     foldl (\<lambda>s (ns, vid, now). snd (record_violation mac ns vid True now (IoOk, IoOk) s)) s vs"

lemma run_violations_ok:
  assumes "gcb_inv mac s evs" "mac_plain mac" "is_closed s" "cb_window s = []"
  shows "\<exists>new. gcb_inv mac (run_violations mac vs s) (evs @ new) \<and>
    cb_window (run_violations mac vs s) = slice_last (cb_size s) (map fst vs) \<and>
    cb_size (run_violations mac vs s) = cb_size s \<and>
    cb_violation_threshold (run_violations mac vs s) = cb_violation_threshold s \<and>
    cb_namespace_threshold (run_violations mac vs s) = cb_namespace_threshold s \<and>
    (is_open (run_violations mac vs s) \<longleftrightarrow> (\<exists>k \<in> {1..length vs}.
       cascade (cb_violation_threshold s) (cb_namespace_threshold s) (cb_size s) (take k (map fst vs))))"
proof (induction vs rule: rev_induct)
  case Nil
  show ?case
    using assms by (intro exI [of _ "[]"]) (simp add: run_violations_def slice_last_def is_closed_def is_open_def CIRCUIT_OPEN_def CIRCUIT_CLOSED_def)
next
  case (snoc v vs)
  obtain ns vid now where v: "v = (ns, vid, now)" by (cases v)
  let ?s = "run_violations mac vs s" and ?h = "map fst vs"
  from snoc.IH obtain new where IH: "gcb_inv mac ?s (evs @ new)" "cb_window ?s = slice_last (cb_size s) ?h"
    "cb_size ?s = cb_size s" "cb_violation_threshold ?s = cb_violation_threshold s"
    "cb_namespace_threshold ?s = cb_namespace_threshold s"
    "is_open ?s \<longleftrightarrow> (\<exists>k \<in> {1..length vs}.
       cascade (cb_violation_threshold s) (cb_namespace_threshold s) (cb_size s) (take k ?h))" by blast
  have cap: "1 \<le> cb_size s" using assms(1) by (simp add: gcb_inv_def gcb_tail_def)
  from violation_ok [OF IH(1) assms(2), of ns vid now] obtain s' new' where
    r: "record_violation mac ns vid True now (IoOk, IoOk) ?s = (Inr (trips ?s (cb_window s')), s')"
    and s': "gcb_inv mac s' ((evs @ new) @ new')" "cb_window s' = window_push (cb_size ?s) ns (cb_window ?s)"
    "cb_size s' = cb_size ?s" "cb_violation_threshold s' = cb_violation_threshold ?s"
    "cb_namespace_threshold s' = cb_namespace_threshold ?s" "is_open s' \<longleftrightarrow> is_open ?s \<or> trips ?s (cb_window s')" .
  have run: "run_violations mac (vs @ [v]) s = s'" using r by (simp add: run_violations_def v)
  have w: "cb_window s' = slice_last (cb_size s) (?h @ [ns])"
    using s'(2) IH(2,3) window_push_slice [OF cap] by simp
  have "is_closed ?s \<longleftrightarrow> \<not> is_open ?s"
    using IH(1) by (auto simp: gcb_inv_def is_open_def is_closed_def CIRCUIT_OPEN_def CIRCUIT_CLOSED_def)
  then have "is_open s' \<longleftrightarrow> is_open ?s \<or>
      cascade (cb_violation_threshold s) (cb_namespace_threshold s) (cb_size s) (?h @ [ns])"
    using s'(6) by (auto simp: trips_def IH(4,5) w should_trip_cascade cap cascade_def Let_def)
  moreover have "(\<exists>k \<in> {1..length (vs @ [v])}. P (take k (map fst (vs @ [v])))) \<longleftrightarrow>
      (\<exists>k \<in> {1..length vs}. P (take k ?h)) \<or> P (?h @ [ns])" for P
  proof -
    have "{1..length (vs @ [v])} = insert (Suc (length vs)) {1..length vs}" by auto
    then show ?thesis by (auto simp: v)
  qed
  ultimately show ?case using IH(3-6) s'(1,3-5) w unfolding run by (intro exI [of _ "new @ new'"]) (simp add: v)
qed

section \<open>A breaker\<close>

definition demo_breaker :: "int \<Rightarrow> breaker" where
  "demo_breaker vt =
     \<lparr>cb_violation_threshold = vt, cb_namespace_threshold = 2, cb_size = 20, cb_window = [],
      cb_last = JStr GCB_GENESIS, cb_state = JStr CIRCUIT_CLOSED, cb_counter = 0, cb_total = 0, cb_trips = 0, cb_file = None\<rparr>"

definition demo_tripped :: breaker where
  "demo_tripped = snd (record_violation (\<lambda>s. ''h'') ''MXE'' ''v'' True (''t1'', ''t2'') (IoOk, IoOk) (demo_breaker 1))"

lemma demo_plain: "mac_plain (\<lambda>s. ''h'')"
  by (simp add: mac_plain_def plain_text_def)

lemma demo_breaker_run: "gcb_run mac human0 (demo_breaker vt)"
  by (rule gcb_run.opened [of vt 2 20]) (simp add: breaker_new_def demo_breaker_def)

lemma demo_closed: "is_closed (demo_breaker vt)" "cb_window (demo_breaker vt) = []"
  by (simp_all add: demo_breaker_def is_closed_def)

lemma demo_tripped_run: "gcb_run (\<lambda>s. ''h'') human0 demo_tripped"
  by (rule gcb_run.violated [OF demo_breaker_run [of _ _ 1]]) (unfold demo_tripped_def, rule surjective_pairing)

lemma demo_tripped_open: "is_open demo_tripped" "cb_counter demo_tripped = 2"
  by code_simp+

lemma demo_lost:
  "(let s = snd (record_violation (\<lambda>s. ''h'') ''MXE'' ''v'' True (''t1'', ''t2'') (IoOk, IoLost) (demo_breaker 1))
    in cb_violation_threshold s = 1 \<and> cb_namespace_threshold s = 2 \<and> cb_size s = 20)"
  by code_simp

lemma single_no_cascade:
  assumes "1 < vt" "1 < nt" "1 \<le> cap"
  shows "\<not> cascade vt nt cap [ns]"
  using assms by (auto simp: cascade_def Let_def slice_last_def)

section \<open>Properties\<close>

text \<open>
  C8 (invariant): in every run of violations, resets and restarts, in which processes may also die at any write and be
  followed by a new one, the ledger verifies with as many events as the engine counted, the circuit is open or closed,
  and a process that starts on the ledger of a run at rest finds its state, count and chain. What a death between the
  two writes of a trip loses is \<open>gcb_lost_trip_reopens\<close>; a process that goes on after a write has raised is not part of a run.\<close>

theorem gcb_ledger_verifies:
  assumes "gcb_run mac human0 s" "mac_plain mac"
  shows "verify_ledger_chain mac (cb_file s) = Inr (cb_counter s) \<and> is_open s \<noteq> is_closed s \<and>
    breaker_new (cb_violation_threshold s) (cb_namespace_threshold s) (cb_size s) (cb_file s) =
      Inr (s\<lparr>cb_window := [], cb_total := 0, cb_trips := 0\<rparr>)"
proof -
  from gcb_run_inv [OF assms] obtain evs where inv: "gcb_inv mac s evs" ..
  moreover from this have "is_open s \<noteq> is_closed s"
    by (auto simp: gcb_inv_def is_open_def is_closed_def CIRCUIT_OPEN_def CIRCUIT_CLOSED_def)
  ultimately show ?thesis using gcb_verifies [OF inv assms(2)] restart_inv [OF inv] by blast
qed

theorem gcb_ledger_verifies_witness:
  "verify_ledger_chain (\<lambda>s. ''h'') (cb_file demo_tripped) = Inr (cb_counter demo_tripped) \<and> cb_counter demo_tripped = 2"
  using gcb_ledger_verifies [OF demo_tripped_run demo_plain] demo_tripped_open by blast

text \<open>
  C11 (equivalence): the breaker trips exactly on a cascade. Starting closed with an empty window, after any
  violations the circuit is open if and only if after one of them the last window of namespaces held one
  namespace often enough or enough different ones.\<close>

theorem gcb_trips_exactly:
  assumes "gcb_run mac human0 s" "mac_plain mac" "is_closed s" "cb_window s = []"
  shows "is_open (run_violations mac vs s) \<longleftrightarrow> (\<exists>k \<in> {1..length vs}.
    cascade (cb_violation_threshold s) (cb_namespace_threshold s) (cb_size s) (take k (map fst vs)))"
proof -
  from gcb_run_inv [OF assms(1,2)] obtain evs where inv: "gcb_inv mac s evs" ..
  from run_violations_ok [OF inv assms(2-4), of vs] show ?thesis by blast
qed

theorem gcb_trips_exactly_witness:
  "\<not> is_open (run_violations (\<lambda>s. ''h'') [(''MXE'', ''v'', ''t1'', ''t2'')] (demo_breaker 3))"
  using gcb_trips_exactly [OF demo_breaker_run demo_plain demo_closed, of "[(''MXE'', ''v'', ''t1'', ''t2'')]"]
  by (simp add: demo_breaker_def single_no_cascade)

text \<open>
  An open circuit stays open and blocks every mutation until a reset with the token of
  HUMAN-0, whatever violations, wrong tokens and restarts come.\<close>

theorem gcb_open_blocks:
  assumes "gcb_run mac human0 s" "mac_plain mac" "is_open s" "gcb_unattended mac human0 s t"
  shows "is_open t \<and> assert_circuit_closed t = Inl GCBOpenViolation"
proof -
  from gcb_run_inv [OF assms(1,2)] obtain evs where inv: "gcb_inv mac s evs" ..
  from unattended_open [OF assms(4) inv assms(3,2)] show ?thesis
    by (auto simp: assert_circuit_closed_def is_open_def)
qed

theorem gcb_open_blocks_witness:
  "assert_circuit_closed (snd (reset_circuit (\<lambda>s. ''h'') ''secret'' ''guess'' ''t3'' IoOk demo_tripped)) = Inl GCBOpenViolation"
proof -
  have "gcb_unattended (\<lambda>s. ''h'') ''secret'' demo_tripped (snd (reset_circuit (\<lambda>s. ''h'') ''secret'' ''guess'' ''t3'' IoOk demo_tripped))"
    by (rule gcb_unattended.refused [OF gcb_unattended.start, of "''guess''" _ _ "''t3''" IoOk]) (simp, rule surjective_pairing)
  from gcb_open_blocks [OF demo_tripped_run demo_plain _ this] demo_tripped_open show ?thesis by blast
qed

text \<open>A process that restarts after each violation.\<close>

definition violation_then_restart ::
  "(string \<Rightarrow> string) \<Rightarrow> breaker \<Rightarrow> string \<times> string \<times> string \<times> string \<Rightarrow> breaker" where
  "violation_then_restart mac s v =
     (case breaker_new (cb_violation_threshold s) (cb_namespace_threshold s) (cb_size s) (cb_file (run_violations mac [v] s)) of
        Inl e \<Rightarrow> s | Inr s' \<Rightarrow> s')"

lemma restarts_stay_closed:
  assumes "gcb_inv mac s evs" "mac_plain mac" "is_closed s" "cb_window s = []"
    and "1 < cb_violation_threshold s" "1 < cb_namespace_threshold s"
  shows "\<exists>evs'. gcb_inv mac (foldl (violation_then_restart mac) s vs) evs' \<and>
    is_closed (foldl (violation_then_restart mac) s vs) \<and> cb_window (foldl (violation_then_restart mac) s vs) = []"
  using assms
proof (induction vs arbitrary: s evs)
  case (Cons v vs)
  let ?t = "run_violations mac [v] s"
  from run_violations_ok [OF Cons.prems(1-4), of "[v]"] obtain new where t: "gcb_inv mac ?t (evs @ new)"
    "cb_size ?t = cb_size s" "cb_violation_threshold ?t = cb_violation_threshold s" "cb_namespace_threshold ?t = cb_namespace_threshold s"
    and "is_open ?t \<longleftrightarrow> cascade (cb_violation_threshold s) (cb_namespace_threshold s) (cb_size s) [fst v]" by auto
  moreover have "1 \<le> cb_size s" using Cons.prems(1) by (simp add: gcb_inv_def gcb_tail_def)
  ultimately have "\<not> is_open ?t" using single_no_cascade Cons.prems(5,6) by blast
  then have "is_closed ?t" using t(1) by (simp add: gcb_inv_def)
  moreover have "violation_then_restart mac s v = ?t\<lparr>cb_window := [], cb_total := 0, cb_trips := 0\<rparr>"
    using restart_inv [OF t(1)] t(2-4) by (simp add: violation_then_restart_def)
  moreover have "gcb_inv mac (?t\<lparr>cb_window := [], cb_total := 0, cb_trips := 0\<rparr>) (evs @ new)" using t(1) by simp
  ultimately show ?case
    using Cons.IH [of "?t\<lparr>cb_window := [], cb_total := 0, cb_trips := 0\<rparr>" "evs @ new"] Cons.prems t(3,4)
    by (simp add: is_closed_def)
qed auto

lemma count_replicate [simp]: "count_list (replicate n x) x = n"
  by (induction n) simp_all

lemma repeated_cascade: "1 \<le> n \<Longrightarrow> n \<le> cap \<Longrightarrow> vt \<le> n \<Longrightarrow> cascade vt nt cap (replicate (nat n) ns)"
  using count_replicate by (auto simp: cascade_def Let_def slice_last_def)

text \<open>
  Restarts disarm the breaker. When both thresholds are above one and the process restarts
  after each violation, no number of violations trips it, although the same violations of one namespace, as
  many as the threshold and within the window, trip a process that keeps running.\<close>

theorem gcb_restarts_disarm:
  assumes "gcb_run mac human0 s" "mac_plain mac" "is_closed s" "cb_window s = []"
    and "1 < cb_violation_threshold s" "1 < cb_namespace_threshold s"
    and "cb_violation_threshold s \<le> cb_size s" "n = nat (cb_violation_threshold s)"
  shows "assert_circuit_closed (foldl (violation_then_restart mac) s vs) = Inr () \<and>
    is_open (run_violations mac (replicate n (ns, vid, now)) s)"
proof
  from gcb_run_inv [OF assms(1,2)] obtain evs where inv: "gcb_inv mac s evs" ..
  from restarts_stay_closed [OF inv assms(2-6), of vs]
  show "assert_circuit_closed (foldl (violation_then_restart mac) s vs) = Inr ()"
    by (auto simp: is_closed_def assert_circuit_closed_def CIRCUIT_OPEN_def CIRCUIT_CLOSED_def)
  have "cascade (cb_violation_threshold s) (cb_namespace_threshold s) (cb_size s)
      (take n (map fst (replicate n (ns, vid, now))))"
    using assms(5-8) by (simp add: map_replicate repeated_cascade)
  moreover have "n \<in> {1..length (replicate n (ns, vid, now))}" using assms(5,8) by simp
  ultimately show "is_open (run_violations mac (replicate n (ns, vid, now)) s)"
    using run_violations_ok [OF inv assms(2-4), of "replicate n (ns, vid, now)"] by blast
qed

theorem gcb_restarts_disarm_witness:
  "assert_circuit_closed (foldl (violation_then_restart (\<lambda>s. ''h'')) (demo_breaker 3) (replicate 1000 (''MXE'', ''v'', ''t1'', ''t2''))) = Inr ()"
  using gcb_restarts_disarm [OF demo_breaker_run demo_plain demo_closed, of 3 3 "replicate 1000 (''MXE'', ''v'', ''t1'', ''t2'')"]
  by (simp add: demo_breaker_def)

text \<open>
  A trip whose row does not reach the ledger is undone by a restart. The violation that
  should trip the circuit raises, the circuit is open in memory, and the next process finds it closed.\<close>

theorem gcb_lost_trip_reopens:
  assumes "gcb_run mac human0 s" "mac_plain mac" "is_closed s"
    and "should_trip (cb_violation_threshold s) (cb_namespace_threshold s) (window_push (cb_size s) ns (cb_window s))"
  shows "\<exists>s1 s2. record_violation mac ns vid True now (IoOk, IoLost) s = (Inl (GCBPython OSError), s1) \<and> is_open s1 \<and>
    breaker_new (cb_violation_threshold s1) (cb_namespace_threshold s1) (cb_size s1) (cb_file s1) = Inr s2 \<and>
    assert_circuit_closed s2 = Inr ()"
proof -
  from gcb_run_inv [OF assms(1,2)] obtain evs where inv: "gcb_inv mac s evs" ..
  from violation_recorded [OF inv assms(2), of ns vid now] obtain s3 ev where inv3: "gcb_inv mac s3 (evs @ [ev])"
    and b: "beside_ledger s3 = beside_ledger (s\<lparr>cb_total := cb_total s + 1, cb_window := window_push (cb_size s) ns (cb_window s)\<rparr>)"
    and run: "\<forall>io. record_violation mac ns vid True now (IoOk, io) s =
       (if trips s (cb_window s3) then ethen (gcb_trip mac vid (snd now) io s3) (\<lambda>u s4. (Inr True, s4)) else (Inr False, s3))" .
  note same = b [unfolded beside_ledger_def, simplified]
  define s4 where "s4 = s3\<lparr>cb_state := JStr CIRCUIT_OPEN, cb_trips := cb_trips s3 + 1\<rparr>"
  have tail: "gcb_tail mac s4 (evs @ [ev])" "cb_state s4 = JStr CIRCUIT_OPEN" using inv3 by (simp_all add: s4_def gcb_inv_def)
  from gcb_emit_ok [OF tail(1) assms(2) tail(2), of "''TRIP''" "''GCB''" vid "cb_window s4" "snd now"] obtain ev' s5 where
    t: "gcb_build_event mac ''TRIP'' ''GCB'' vid (cb_window s4) (snd now) s4 = (Inr ev', s5)" by metis
  have s5: "beside_ledger s5 = beside_ledger s4" "cb_file s5 = cb_file s3"
    using t by (auto simp: gcb_build_event_def Let_def s4_def beside_ledger_def split: sum.splits)
  have trip: "gcb_trip mac vid (snd now) IoLost s3 = (Inl (GCBPython OSError), s5)"
    using t unfolding gcb_trip_def s4_def [symmetric] Let_def by (simp add: gcb_append_event_def)
  have "record_violation mac ns vid True now (IoOk, IoLost) s = (Inl (GCBPython OSError), s5)"
    using run assms(3,4) same by (simp add: trips_def trip)
  moreover have "is_open s5" "cb_violation_threshold s5 = cb_violation_threshold s3"
    "cb_namespace_threshold s5 = cb_namespace_threshold s3" "cb_size s5 = cb_size s3"
    using s5(1) by (simp_all add: beside_ledger_def s4_def is_open_def)
  moreover have "cb_state s3 = JStr CIRCUIT_CLOSED" using same assms(3) by (simp add: is_closed_def)
  ultimately show ?thesis
    using restart_inv [OF inv3] s5(2)
    by (intro exI [of _ s5] exI [of _ "s3\<lparr>cb_window := [], cb_total := 0, cb_trips := 0\<rparr>"])
      (simp add: assert_circuit_closed_def CIRCUIT_OPEN_def CIRCUIT_CLOSED_def)
qed

theorem gcb_lost_trip_reopens_witness:
  "\<exists>s1 s2. record_violation (\<lambda>s. ''h'') ''MXE'' ''v'' True (''t1'', ''t2'') (IoOk, IoLost) (demo_breaker 1) =
      (Inl (GCBPython OSError), s1) \<and> is_open s1 \<and>
    breaker_new 1 2 20 (cb_file s1) = Inr s2 \<and> assert_circuit_closed s2 = Inr ()"
proof -
  have "should_trip (cb_violation_threshold (demo_breaker 1)) (cb_namespace_threshold (demo_breaker 1))
      (window_push (cb_size (demo_breaker 1)) ''MXE'' (cb_window (demo_breaker 1)))" by code_simp
  from gcb_lost_trip_reopens [OF demo_breaker_run demo_plain demo_closed(1) this, of "''v''" "(''t1'', ''t2'')"]
  obtain s1 s2 where "record_violation (\<lambda>s. ''h'') ''MXE'' ''v'' True (''t1'', ''t2'') (IoOk, IoLost) (demo_breaker 1) =
      (Inl (GCBPython OSError), s1)" "is_open s1"
    "breaker_new (cb_violation_threshold s1) (cb_namespace_threshold s1) (cb_size s1) (cb_file s1) = Inr s2"
    "assert_circuit_closed s2 = Inr ()" by blast
  moreover have "cb_violation_threshold s1 = 1 \<and> cb_namespace_threshold s1 = 2 \<and> cb_size s1 = 20"
    using calculation(1) demo_lost by simp
  ultimately show ?thesis by auto
qed
end
