(* ===== verification/MutationConsensus.thy ===== *)
theory MutationConsensus
  imports HashChain
begin

text \<open>
  \<open>dorkllm/constitutional_mutation_consensus_engine.py\<close>: rounds in which the registered agents vote on a
  mutation, with a veto and an override of HUMAN-0, written to an HMAC-chained ledger that is replayed
  when the engine starts. \<open>hm\<close> is the HMAC under the configured secret; identifiers and clock readings, which the
  engine only stores, are arguments, a reading being any JSON value. Writes succeed. Data of other types than
  the engine writes is read as a type error. The dash of one reason, a character above 255, is a hyphen here.
\<close>

section \<open>Votes and rounds\<close>

definition CMCE_GOVERNOR :: string where "CMCE_GOVERNOR = ''DUSTIN L REID''"

definition REGISTERED_AGENTS :: "string list" where
  "REGISTERED_AGENTS = [''ArchitectAgent'', ''DreamAgent'', ''BeastAgent'', ''AdversarialRedTeam'']"

definition HUMAN0_IDENTIFIERS :: "string list" where
  "HUMAN0_IDENTIFIERS = [''HUMAN-0'', ''DUSTIN L REID'', ''HUMAN0'']"

datatype vote_type = VApprove | VReject | VAbstain | VChallenge

datatype consensus_outcome = Passed | Blocked | Challenged | Pending | Override

datatype round_status = RoundOpen | RoundClosed

fun vote_text :: "vote_type \<Rightarrow> string" where
  "vote_text VApprove = ''APPROVE''"
| "vote_text VReject = ''REJECT''"
| "vote_text VAbstain = ''ABSTAIN''"
| "vote_text VChallenge = ''CHALLENGE''"

fun outcome_text :: "consensus_outcome \<Rightarrow> string" where
  "outcome_text Passed = ''PASSED''"
| "outcome_text Blocked = ''BLOCKED''"
| "outcome_text Challenged = ''CHALLENGED''"
| "outcome_text Pending = ''PENDING''"
| "outcome_text Override = ''OVERRIDE''"

fun status_text :: "round_status \<Rightarrow> string" where
  "status_text RoundOpen = ''OPEN''"
| "status_text RoundClosed = ''CLOSED''"

datatype cmce_error =
    CMCEError
  | CMCEDuplicateVote
  | CMCEUnknownAgent
  | CMCEVoteMissing "string list"
  | CMCEHuman0Bypass
  | CMCEChainBroken
  | CMCEChallengeUnresolved string
  | CMCEScopeImmutabilityViolation
  | CMCERoundNotFound
  | CMCERoundClosed consensus_outcome
  | CMCEPython py_error

record agent_vote =
  av_agent :: string
  av_vote :: vote_type
  av_rationale :: string
  av_time :: json
  av_id :: string

record consensus_round =
  cr_id :: string
  cr_mutation :: string
  cr_intent :: string
  cr_scope :: "string list"
  cr_proposer :: string
  cr_quorum :: int
  cr_opened :: json
  cr_status :: round_status
  cr_votes :: "(string, agent_vote) dict"
  cr_outcome :: consensus_outcome
  cr_reason :: string
  cr_closed :: json
  cr_human0 :: "string option"

definition count_votes :: "vote_type \<Rightarrow> consensus_round \<Rightarrow> nat" where
  "count_votes v r = length (filter (\<lambda>p. av_vote (snd p) = v) (cr_votes r))"

definition evaluate_round :: "consensus_round \<Rightarrow> consensus_outcome \<times> string" where
  "evaluate_round r =
     (if cr_human0 r = Some ''VETO'' then (Blocked, ''HUMAN-0 exercised constitutional veto.'')
      else if cr_human0 r = Some ''OVERRIDE''
        then (Override, ''HUMAN-0 exercised constitutional override - mutation approved unconditionally.'')
      else
        (let approves = count_votes VApprove r; rejects = count_votes VReject r
         in if 0 < count_votes VChallenge r
            then (Challenged, ''Unresolved CHALLENGE from: '' @
              py_repr (JList (map (\<lambda>p. JStr (av_agent (snd p))) (filter (\<lambda>p. av_vote (snd p) = VChallenge) (cr_votes r)))) @
              ''. Escalate to HUMAN-0.'')
            else if cr_quorum r \<le> int approves
            then (Passed, ''Quorum met: '' @ nat_str approves @ ''/'' @ int_str (cr_quorum r) @ '' APPROVE votes ('' @
              nat_str rejects @ '' REJECT, '' @ int_str (int (length (cr_votes r)) - int approves - int rejects) @ '' ABSTAIN).'')
            else (Blocked, ''Quorum not met: '' @ nat_str approves @ ''/'' @ int_str (cr_quorum r) @ '' APPROVE votes ('' @
              nat_str rejects @ '' REJECT).'')))"

section \<open>Their JSON\<close>

definition vote_dict :: "agent_vote \<Rightarrow> obj" where
  "vote_dict v =
     [(''agent'', JStr (av_agent v)), (''vote'', JStr (vote_text (av_vote v))), (''rationale'', JStr (av_rationale v)),
      (''timestamp'', av_time v), (''vote_id'', JStr (av_id v))]"

definition human0_json :: "string option \<Rightarrow> json" where
  "human0_json h = (case h of None \<Rightarrow> JNull | Some s \<Rightarrow> JStr s)"

definition round_dict :: "consensus_round \<Rightarrow> obj" where
  "round_dict r =
     [(''round_id'', JStr (cr_id r)), (''mutation_id'', JStr (cr_mutation r)), (''intent_declaration_id'', JStr (cr_intent r)),
      (''scope_paths'', JList (map JStr (cr_scope r))), (''proposer'', JStr (cr_proposer r)), (''quorum_required'', JInt (cr_quorum r)),
      (''opened_at'', cr_opened r), (''status'', JStr (status_text (cr_status r))),
      (''votes'', JObj (map (\<lambda>(k, v). (k, JObj (vote_dict v))) (cr_votes r))), (''outcome'', JStr (outcome_text (cr_outcome r))),
      (''outcome_reason'', JStr (cr_reason r)), (''closed_at'', cr_closed r), (''human0_action'', human0_json (cr_human0 r))]"

type_synonym 'a cmce_res = "cmce_error + 'a"

definition need :: "obj \<Rightarrow> string \<Rightarrow> json cmce_res" where
  "need d k = (case dget d k of None \<Rightarrow> Inl (CMCEPython (KeyError k)) | Some v \<Rightarrow> Inr v)"

fun text_of :: "json \<Rightarrow> string cmce_res" where
  "text_of (JStr s) = Inr s"
| "text_of _ = Inl (CMCEPython TypeError)"

fun object_of :: "json \<Rightarrow> obj cmce_res" where
  "object_of (JObj d) = Inr d"
| "object_of _ = Inl (CMCEPython TypeError)"

definition need_text :: "obj \<Rightarrow> string \<Rightarrow> string cmce_res" where
  "need_text d k = ebind (need d k) text_of"

definition named :: "string \<Rightarrow> (string \<times> 'a) list \<Rightarrow> 'a cmce_res" where
  "named s table = (case map_of table s of None \<Rightarrow> Inl (CMCEPython (ValueError s)) | Some x \<Rightarrow> Inr x)"

definition vote_of_text :: "string \<Rightarrow> vote_type cmce_res" where
  "vote_of_text s = named s (map (\<lambda>v. (vote_text v, v)) [VApprove, VReject, VAbstain, VChallenge])"

definition outcome_of_text :: "string \<Rightarrow> consensus_outcome cmce_res" where
  "outcome_of_text s = named s (map (\<lambda>v. (outcome_text v, v)) [Passed, Blocked, Challenged, Pending, Override])"

definition status_of_text :: "string \<Rightarrow> round_status cmce_res" where
  "status_of_text s = named s (map (\<lambda>v. (status_text v, v)) [RoundOpen, RoundClosed])"

definition human0_of :: "json \<Rightarrow> string option cmce_res" where
  "human0_of v = (if v = JNull then Inr None else ebind (text_of v) (\<lambda>s. Inr (Some s)))"

definition vote_of_dict :: "obj \<Rightarrow> agent_vote cmce_res" where
  "vote_of_dict d =
     ebind (need_text d ''agent'') (\<lambda>a.
     ebind (ebind (need_text d ''vote'') vote_of_text) (\<lambda>v.
     ebind (need_text d ''rationale'') (\<lambda>w.
     ebind (need d ''timestamp'') (\<lambda>t.
     ebind (need_text d ''vote_id'') (\<lambda>i.
       Inr \<lparr>av_agent = a, av_vote = v, av_rationale = w, av_time = t, av_id = i\<rparr>)))))"

definition round_of_dict :: "obj \<Rightarrow> consensus_round cmce_res" where
  "round_of_dict d =
     ebind (need_text d ''round_id'') (\<lambda>i.
     ebind (need_text d ''mutation_id'') (\<lambda>m.
     ebind (need_text d ''intent_declaration_id'') (\<lambda>n.
     ebind (ebind (need d ''scope_paths'') (\<lambda>v. case v of JList xs \<Rightarrow> emap text_of xs | _ \<Rightarrow> Inl (CMCEPython TypeError))) (\<lambda>sc.
     ebind (need_text d ''proposer'') (\<lambda>p.
     ebind (ebind (need d ''quorum_required'') (\<lambda>v. case v of JInt q \<Rightarrow> Inr q | _ \<Rightarrow> Inl (CMCEPython TypeError))) (\<lambda>q.
     ebind (need d ''opened_at'') (\<lambda>t.
     ebind (ebind (need_text d ''status'') status_of_text) (\<lambda>st.
     ebind (ebind (need_text d ''outcome'') outcome_of_text) (\<lambda>oc.
     ebind (need_text d ''outcome_reason'') (\<lambda>re.
     ebind (human0_of (dget_or d ''human0_action'' JNull)) (\<lambda>h.
     ebind (object_of (dget_or d ''votes'' (JObj []))) (\<lambda>vs.
     ebind (emap (\<lambda>(k, v). ebind (object_of v) (\<lambda>o'. ebind (vote_of_dict o') (\<lambda>w. Inr (k, w)))) vs) (\<lambda>votes.
       Inr \<lparr>cr_id = i, cr_mutation = m, cr_intent = n, cr_scope = sc, cr_proposer = p, cr_quorum = q, cr_opened = t, cr_status = st,
         cr_votes = votes, cr_outcome = oc, cr_reason = re, cr_closed = dget_or d ''closed_at'' JNull, cr_human0 = h\<rparr>)))))))))))))"

section \<open>The chained ledger\<close>

definition compute_hmac :: "(string \<Rightarrow> string) \<Rightarrow> obj \<Rightarrow> string \<Rightarrow> string" where
  "compute_hmac hm data prev = hm (prev @ '':'' @ canonical True (JObj data))"

text \<open>Only the first 24 digits are compared; the data of a record that has none is an empty dictionary.\<close>

definition chain_valid :: "(string \<Rightarrow> string) \<Rightarrow> obj \<Rightarrow> string \<Rightarrow> bool cmce_res" where
  "chain_valid hm rec prev =
     ebind (text_of (dget_or rec ''chain_hmac'' (JStr []))) (\<lambda>stored.
     let expected = hm (prev @ '':'' @ canonical True (dget_or rec ''data'' (JObj [])))
     in if plain_text (take 24 stored @ take 24 expected) then Inr (take 24 stored = take 24 expected)
        else Inl (CMCEPython TypeError))"

definition ledger_record :: "(string \<Rightarrow> string) \<Rightarrow> string \<Rightarrow> obj \<Rightarrow> json \<Rightarrow> string \<Rightarrow> obj" where
  "ledger_record hm ty data now prev =
     [(''event_type'', JStr ty), (''data'', JObj data), (''chain_hmac'', JStr (compute_hmac hm data prev)), (''timestamp'', now)]"

definition read_ledger :: "jsonl \<Rightarrow> obj list cmce_res" where
  "read_ledger f =
     (case emap loads (file_lines f) of
        Inl e \<Rightarrow> Inl (CMCEPython e)
      | Inr vs \<Rightarrow> emap (\<lambda>v. case v of JObj d \<Rightarrow> Inr d | _ \<Rightarrow> Inl (CMCEPython AttributeError)) vs)"

section \<open>The engine\<close>

record cmce =
  ce_quorum :: int
  ce_agents :: "string list"
  ce_rounds :: "(string, consensus_round) dict"
  ce_chain :: string
  ce_ledger :: jsonl

definition update_round :: "string \<Rightarrow> (consensus_round \<Rightarrow> consensus_round) \<Rightarrow> (string, consensus_round) dict \<Rightarrow> (string, consensus_round) dict" where
  "update_round rid f rounds = (case dget rounds rid of None \<Rightarrow> rounds | Some r \<Rightarrow> dput rid (f r) rounds)"

definition set_vote :: "agent_vote \<Rightarrow> consensus_round \<Rightarrow> consensus_round" where
  "set_vote v r = r\<lparr>cr_votes := dput (av_agent v) v (cr_votes r)\<rparr>"

definition apply_event :: "string \<Rightarrow> obj \<Rightarrow> (string, consensus_round) dict \<Rightarrow> (string, consensus_round) dict cmce_res" where
  "apply_event ty data rounds =
     (if ty = ''ROUND_OPENED'' then
        ebind (ebind (need data ''round'') object_of) (\<lambda>d. ebind (round_of_dict d) (\<lambda>r. Inr (dput (cr_id r) r rounds)))
      else if ty = ''VOTE_CAST'' then
        ebind (need_text data ''round_id'') (\<lambda>rid.
          if dget rounds rid = None then Inr rounds
          else ebind (ebind (need data ''vote'') object_of) (\<lambda>d. ebind (vote_of_dict d) (\<lambda>v. Inr (update_round rid (set_vote v) rounds))))
      else if ty = ''ROUND_CLOSED'' then
        ebind (need_text data ''round_id'') (\<lambda>rid.
          if dget rounds rid = None then Inr rounds
          else ebind (ebind (need_text data ''outcome'') outcome_of_text) (\<lambda>oc.
               ebind (need_text data ''outcome_reason'') (\<lambda>re.
               ebind (need data ''closed_at'') (\<lambda>t.
               ebind (human0_of (dget_or data ''human0_action'' JNull)) (\<lambda>h.
                 Inr (update_round rid (\<lambda>r. r\<lparr>cr_outcome := oc, cr_reason := re, cr_status := RoundClosed, cr_closed := t, cr_human0 := h\<rparr>)
                   rounds))))))
      else if ty = ''HUMAN0_ACTION'' then
        ebind (need_text data ''round_id'') (\<lambda>rid.
          if dget rounds rid = None then Inr rounds
          else ebind (need_text data ''action'') (\<lambda>a. Inr (update_round rid (\<lambda>r. r\<lparr>cr_human0 := Some a\<rparr>) rounds)))
      else Inr rounds)"

fun replay_ledger ::
  "(string \<Rightarrow> string) \<Rightarrow> obj list \<Rightarrow> string \<Rightarrow> (string, consensus_round) dict \<Rightarrow> (string \<times> (string, consensus_round) dict) cmce_res" where
  "replay_ledger hm [] prev rounds = Inr (prev, rounds)"
| "replay_ledger hm (rec # recs) prev rounds =
     ebind (chain_valid hm rec prev) (\<lambda>ok.
       if \<not> ok then Inl CMCEChainBroken
       else ebind (need_text rec ''chain_hmac'') (\<lambda>h.
            ebind (need_text rec ''event_type'') (\<lambda>ty.
            ebind (ebind (need rec ''data'') object_of) (\<lambda>data.
            ebind (apply_event ty data rounds) (\<lambda>rounds'. replay_ledger hm recs h rounds')))))"

definition cmce_new :: "(string \<Rightarrow> string) \<Rightarrow> int \<Rightarrow> string list \<Rightarrow> jsonl \<Rightarrow> cmce cmce_res" where
  "cmce_new hm quorum agents f =
     ebind (read_ledger f) (\<lambda>recs.
     ebind (replay_ledger hm recs ''GENESIS'' []) (\<lambda>(chain, rounds).
       Inr \<lparr>ce_quorum = quorum, ce_agents = agents, ce_rounds = rounds, ce_chain = chain, ce_ledger = f\<rparr>))"

definition write_ledger :: "(string \<Rightarrow> string) \<Rightarrow> string \<Rightarrow> obj \<Rightarrow> json \<Rightarrow> cmce \<Rightarrow> cmce" where
  "write_ledger hm ty data now e =
     e\<lparr>ce_ledger := append_line (JObj (ledger_record hm ty data now (ce_chain e))) (ce_ledger e),
       ce_chain := compute_hmac hm data (ce_chain e)\<rparr>"


definition get_round :: "string \<Rightarrow> cmce \<Rightarrow> consensus_round cmce_res" where
  "get_round rid e = (case dget (ce_rounds e) rid of None \<Rightarrow> Inl CMCERoundNotFound | Some r \<Rightarrow> Inr r)"

definition get_open_round :: "string \<Rightarrow> cmce \<Rightarrow> consensus_round cmce_res" where
  "get_open_round rid e =
     ebind (get_round rid e) (\<lambda>r. if cr_status r = RoundClosed then Inl (CMCERoundClosed (cr_outcome r)) else Inr r)"

text \<open>A round object is shared between the caller and the table: storing it back is the assignment to its fields.\<close>

definition put_round :: "string \<Rightarrow> consensus_round \<Rightarrow> cmce \<Rightarrow> cmce" where
  "put_round rid r e = e\<lparr>ce_rounds := dput rid r (ce_rounds e)\<rparr>"

definition opened_data :: "consensus_round \<Rightarrow> obj" where
  "opened_data r = [(''round'', JObj (round_dict r)), (''governor'', JStr CMCE_GOVERNOR), (''innov'', JStr ''INNOV-103'')]"

definition open_round ::
  "(string \<Rightarrow> string) \<Rightarrow> string \<Rightarrow> string \<Rightarrow> string \<Rightarrow> string list \<Rightarrow> string \<Rightarrow> json \<times> json \<Rightarrow> cmce \<Rightarrow> consensus_round cmce_res \<times> cmce" where
  "open_round hm rid mid intent scope proposer now e =
     (if scope = [] then (Inl CMCEScopeImmutabilityViolation, e)
      else
        (let r = \<lparr>cr_id = rid, cr_mutation = mid, cr_intent = intent, cr_scope = scope, cr_proposer = proposer,
             cr_quorum = ce_quorum e, cr_opened = fst now, cr_status = RoundOpen, cr_votes = [], cr_outcome = Pending,
             cr_reason = [], cr_closed = JNull, cr_human0 = None\<rparr>
         in (Inr r, write_ledger hm ''ROUND_OPENED'' (opened_data r) (snd now) (put_round rid r e))))"

definition vote_data :: "string \<Rightarrow> agent_vote \<Rightarrow> obj" where
  "vote_data rid v = [(''round_id'', JStr rid), (''vote'', JObj (vote_dict v)), (''governor'', JStr CMCE_GOVERNOR)]"

text \<open>The clock is read for the vote and for the record, and the vote gets an identifier.\<close>

definition cast_vote ::
  "(string \<Rightarrow> string) \<Rightarrow> string \<Rightarrow> string \<Rightarrow> vote_type \<Rightarrow> string \<Rightarrow> string \<Rightarrow> json \<times> json \<Rightarrow> cmce \<Rightarrow> agent_vote cmce_res \<times> cmce" where
  "cast_vote hm rid agent vote rationale vid now e =
     (if agent \<in> set HUMAN0_IDENTIFIERS then (Inl CMCEHuman0Bypass, e)
      else case get_open_round rid e of
        Inl x \<Rightarrow> (Inl x, e)
      | Inr r \<Rightarrow>
          if agent \<notin> set (ce_agents e) then (Inl CMCEUnknownAgent, e)
          else if dget (cr_votes r) agent \<noteq> None then (Inl CMCEDuplicateVote, e)
          else
            (let v = \<lparr>av_agent = agent, av_vote = vote, av_rationale = rationale, av_time = fst now, av_id = vid\<rparr>
             in (Inr v, write_ledger hm ''VOTE_CAST'' (vote_data rid v) (snd now) (put_round rid (set_vote v r) e))))"

definition closed_data :: "consensus_round \<Rightarrow> obj" where
  "closed_data r =
     [(''round_id'', JStr (cr_id r)), (''mutation_id'', JStr (cr_mutation r)), (''outcome'', JStr (outcome_text (cr_outcome r))),
      (''outcome_reason'', JStr (cr_reason r)), (''closed_at'', cr_closed r), (''human0_action'', human0_json (cr_human0 r)),
      (''governor'', JStr CMCE_GOVERNOR)]"

definition finish_round :: "(string \<Rightarrow> string) \<Rightarrow> string \<Rightarrow> consensus_round \<Rightarrow> json \<times> json \<Rightarrow> cmce \<Rightarrow> consensus_round cmce_res \<times> cmce" where
  "finish_round hm rid r now e =
     (let r' = r\<lparr>cr_outcome := fst (evaluate_round r), cr_reason := snd (evaluate_round r), cr_status := RoundClosed, cr_closed := fst now\<rparr>
      in (Inr r', write_ledger hm ''ROUND_CLOSED'' (closed_data r') (snd now) (put_round rid r' e)))"

definition human0_data :: "string \<Rightarrow> string \<Rightarrow> string \<Rightarrow> obj" where
  "human0_data rid action reason =
     [(''round_id'', JStr rid), (''action'', JStr action), (''reason'', JStr reason), (''governor'', JStr CMCE_GOVERNOR)]"

text \<open>The first write of \<open>human0_veto\<close> and \<open>human0_override\<close>; the second closes the round.\<close>

definition human0_mark :: "(string \<Rightarrow> string) \<Rightarrow> string \<Rightarrow> string \<Rightarrow> string \<Rightarrow> json \<Rightarrow> cmce \<Rightarrow> consensus_round cmce_res \<times> cmce" where
  "human0_mark hm action rid reason now e =
     (case get_open_round rid e of
        Inl x \<Rightarrow> (Inl x, e)
      | Inr r \<Rightarrow>
          (let r' = r\<lparr>cr_human0 := Some action\<rparr>
           in (Inr r', write_ledger hm ''HUMAN0_ACTION'' (human0_data rid action reason) now (put_round rid r' e))))"

definition human0_act ::
  "(string \<Rightarrow> string) \<Rightarrow> string \<Rightarrow> string \<Rightarrow> string \<Rightarrow> json \<times> json \<times> json \<Rightarrow> cmce \<Rightarrow> consensus_round cmce_res \<times> cmce" where
  "human0_act hm action rid reason now e =
     ethen (human0_mark hm action rid reason (fst now) e) (\<lambda>r. finish_round hm rid r (snd now))"

definition human0_veto :: "(string \<Rightarrow> string) \<Rightarrow> string \<Rightarrow> string \<Rightarrow> json \<times> json \<times> json \<Rightarrow> cmce \<Rightarrow> consensus_round cmce_res \<times> cmce" where
  "human0_veto hm = human0_act hm ''VETO''"

definition human0_override :: "(string \<Rightarrow> string) \<Rightarrow> string \<Rightarrow> string \<Rightarrow> json \<times> json \<times> json \<Rightarrow> cmce \<Rightarrow> consensus_round cmce_res \<times> cmce" where
  "human0_override hm = human0_act hm ''OVERRIDE''"

definition missing_votes :: "cmce \<Rightarrow> consensus_round \<Rightarrow> string list" where
  "missing_votes e r = sort (filter (\<lambda>a. dget (cr_votes r) a = None) (ce_agents e))"

definition close_round :: "(string \<Rightarrow> string) \<Rightarrow> string \<Rightarrow> json \<times> json \<Rightarrow> cmce \<Rightarrow> consensus_round cmce_res \<times> cmce" where
  "close_round hm rid now e =
     (case get_open_round rid e of
        Inl x \<Rightarrow> (Inl x, e)
      | Inr r \<Rightarrow>
          if cr_human0 r = Some ''VETO'' \<or> cr_human0 r = Some ''OVERRIDE'' then finish_round hm rid r now e
          else if missing_votes e r \<noteq> [] then (Inl (CMCEVoteMissing (missing_votes e r)), e)
          else if fst (evaluate_round r) = Challenged \<and> (cr_human0 r = None \<or> cr_human0 r = Some [])
            then (Inl (CMCEChallengeUnresolved (snd (evaluate_round r))), e)
          else finish_round hm rid r now e)"

definition resolve_data :: "string \<Rightarrow> agent_vote \<Rightarrow> obj" where
  "resolve_data rid v =
     [(''round_id'', JStr rid), (''vote'', JObj (vote_dict v)), (''governor'', JStr CMCE_GOVERNOR), (''resolution_of_challenge'', JBool True)]"

definition resolve_challenge ::
  "(string \<Rightarrow> string) \<Rightarrow> string \<Rightarrow> string \<Rightarrow> string \<Rightarrow> string \<Rightarrow> json \<times> json \<Rightarrow> cmce \<Rightarrow> agent_vote cmce_res \<times> cmce" where
  "resolve_challenge hm rid agent resolution vid now e =
     (case get_open_round rid e of
        Inl x \<Rightarrow> (Inl x, e)
      | Inr r \<Rightarrow>
          (case dget (cr_votes r) agent of
             None \<Rightarrow> (Inl CMCEUnknownAgent, e)
           | Some old \<Rightarrow>
               if av_vote old \<noteq> VChallenge then (Inl CMCEError, e)
               else if resolution \<notin> {''APPROVE'', ''REJECT''} then (Inl CMCEError, e)
               else
                 (let v = \<lparr>av_agent = agent, av_vote = (if resolution = ''APPROVE'' then VApprove else VReject),
                      av_rationale = ''Challenge resolved: '' @ resolution, av_time = fst now, av_id = vid\<rparr>
                  in (Inr v, write_ledger hm ''VOTE_CAST'' (resolve_data rid v) (snd now) (put_round rid (set_vote v r) e)))))"

text \<open>The result of \<open>verify_chain\<close>: the index and event type of the first broken record, or the length and the tip.\<close>

datatype chain_report = BrokenAt nat json | ChainOk nat string

fun verify_records :: "(string \<Rightarrow> string) \<Rightarrow> nat \<Rightarrow> string \<Rightarrow> obj list \<Rightarrow> chain_report cmce_res" where
  "verify_records hm i prev [] = Inr (ChainOk i (take 24 prev))"
| "verify_records hm i prev (rec # recs) =
     ebind (chain_valid hm rec prev) (\<lambda>ok.
       if \<not> ok then Inr (BrokenAt i (dget_or rec ''event_type'' JNull))
       else ebind (need_text rec ''chain_hmac'') (\<lambda>h. verify_records hm (i + 1) h recs))"

definition cmce_verify_chain :: "(string \<Rightarrow> string) \<Rightarrow> cmce \<Rightarrow> chain_report cmce_res" where
  "cmce_verify_chain hm e = ebind (read_ledger (ce_ledger e)) (verify_records hm 0 ''GENESIS'')"

definition count_rounds :: "(consensus_round \<Rightarrow> bool) \<Rightarrow> cmce \<Rightarrow> json" where
  "count_rounds P e = JInt (int (length (filter (P \<circ> snd) (ce_rounds e))))"

definition export_state :: "cmce \<Rightarrow> obj" where
  "export_state e =
     [(''innov'', JStr ''INNOV-103''), (''version'', JStr ''10.9.0''), (''phase'', JInt 198), (''governor'', JStr CMCE_GOVERNOR),
      (''quorum_required'', JInt (ce_quorum e)), (''registered_agents'', JList (map JStr (sort (ce_agents e)))),
      (''total_rounds'', count_rounds (\<lambda>r. True) e), (''open_rounds'', count_rounds (\<lambda>r. cr_status r = RoundOpen) e),
      (''closed_rounds'', count_rounds (\<lambda>r. cr_status r = RoundClosed) e),
      (''outcomes'', JObj (map (\<lambda>oc. (outcome_text oc, count_rounds (\<lambda>r. cr_outcome r = oc) e)) [Passed, Blocked, Challenged, Pending, Override])),
      (''chain_tip'', JStr (take 24 (ce_chain e)))]"

definition cmce_summary :: "cmce \<Rightarrow> obj list" where
  "cmce_summary e = map (round_dict \<circ> snd) (ce_rounds e)"


section \<open>Reading back what was written\<close>

lemma vote_texts [simp]: "vote_of_text (vote_text v) = Inr v"
  by (cases v) (simp_all add: vote_of_text_def named_def)

lemma outcome_texts [simp]: "outcome_of_text (outcome_text oc) = Inr oc"
  by (cases oc) (simp_all add: outcome_of_text_def named_def)

lemma status_texts [simp]: "status_of_text (status_text st) = Inr st"
  by (cases st) (simp_all add: status_of_text_def named_def)

lemma vote_round_trip [simp]: "vote_of_dict (vote_dict v) = Inr v"
  by (simp add: vote_of_dict_def vote_dict_def need_text_def need_def)

lemma human0_round_trip [simp]: "human0_of (human0_json h) = Inr h"
  by (cases h) (simp_all add: human0_of_def human0_json_def)

lemma texts_round_trip: "emap text_of (map JStr xs) = Inr xs"
  by (induction xs) simp_all

lemma votes_round_trip:
  "emap (\<lambda>(k, v). ebind (object_of v) (\<lambda>o'. ebind (vote_of_dict o') (\<lambda>w. Inr (k, w)))) (map (\<lambda>(k, v). (k, JObj (vote_dict v))) vs) = Inr vs"
  by (induction vs) auto

lemma round_round_trip: "round_of_dict (round_dict r) = Inr r"
  by (simp add: round_of_dict_def round_dict_def need_text_def need_def dget_or_def texts_round_trip votes_round_trip)

section \<open>What the ledger says of the rounds\<close>

definition hmac_ascii :: "(string \<Rightarrow> string) \<Rightarrow> bool" where
  "hmac_ascii hm \<longleftrightarrow> (\<forall>x. plain_text (hm x))"

lemma ascii_take [simp]: "hmac_ascii hm \<Longrightarrow> plain_text (take n (hm x))"
  by (auto simp: hmac_ascii_def plain_text_def list_all_iff dest: in_set_takeD)

lemma record_fields:
  "dget_or (ledger_record hm ty data now prev) ''chain_hmac'' d = JStr (compute_hmac hm data prev)"
  "dget_or (ledger_record hm ty data now prev) ''data'' d = JObj data"
  "need_text (ledger_record hm ty data now prev) ''chain_hmac'' = Inr (compute_hmac hm data prev)"
  "need_text (ledger_record hm ty data now prev) ''event_type'' = Inr ty"
  "need (ledger_record hm ty data now prev) ''data'' = Inr (JObj data)"
  by (simp_all add: ledger_record_def dget_or_def need_text_def need_def)

lemma written_valid: "hmac_ascii hm \<Longrightarrow> chain_valid hm (ledger_record hm ty data now prev) prev = Inr True"
  by (simp add: chain_valid_def record_fields compute_hmac_def Let_def)

lemma ebind_if: "ebind (if c then a else b) f = (if c then ebind a f else ebind b f)"
  by simp

lemma replay_append:
  "replay_ledger hm (recs @ [rec]) prev rounds =
     ebind (replay_ledger hm recs prev rounds) (\<lambda>(p, rs). replay_ledger hm [rec] p rs)"
proof (induction recs arbitrary: prev rounds)
  case (Cons r recs)
  have ih: "replay_ledger hm (recs @ [rec]) p = (\<lambda>rs. ebind (replay_ledger hm recs p rs) (\<lambda>(p, rs). replay_ledger hm [rec] p rs))" for p
    by (rule ext) (rule Cons.IH)
  show ?case by (simp add: ih ebind_assoc ebind_if cong: if_cong)
qed simp

definition replays :: "(string \<Rightarrow> string) \<Rightarrow> cmce \<Rightarrow> bool" where
  "replays hm e \<longleftrightarrow>
     (\<exists>recs. file_lines (ce_ledger e) = map (\<lambda>r. Row (JObj r)) recs \<and>
        replay_ledger hm recs ''GENESIS'' [] = Inr (ce_chain e, ce_rounds e))"

lemma replays_written:
  assumes "replays hm e" "hmac_ascii hm" "apply_event ty data (ce_rounds e) = Inr (ce_rounds e')"
    and "ce_ledger e' = ce_ledger e" "ce_chain e' = ce_chain e"
  shows "replays hm (write_ledger hm ty data now e')"
proof -
  from assms(1) obtain recs where recs: "file_lines (ce_ledger e) = map (\<lambda>r. Row (JObj r)) recs"
    "replay_ledger hm recs ''GENESIS'' [] = Inr (ce_chain e, ce_rounds e)" by (auto simp: replays_def)
  have "replay_ledger hm (recs @ [ledger_record hm ty data now (ce_chain e)]) ''GENESIS'' [] =
      Inr (compute_hmac hm data (ce_chain e), ce_rounds e')"
    using assms(2,3) by (simp add: replay_append recs(2) written_valid record_fields)
  then show ?thesis
    using recs(1) assms(4,5)
    by (auto simp: replays_def write_ledger_def intro!: exI [of _ "recs @ [ledger_record hm ty data now (ce_chain e)]"])
qed

lemma read_rows: "file_lines f = map (\<lambda>r. Row (JObj r)) recs \<Longrightarrow> read_ledger f = Inr recs"
proof -
  assume f: "file_lines f = map (\<lambda>r. Row (JObj r)) recs"
  have "emap loads (map (\<lambda>r. Row (JObj r)) recs) = Inr (map JObj recs)" by (induction recs) simp_all
  moreover have "emap (\<lambda>v. case v of JObj d \<Rightarrow> Inr d | _ \<Rightarrow> Inl (CMCEPython AttributeError)) (map JObj recs) = Inr recs"
    by (induction recs) simp_all
  ultimately show ?thesis unfolding read_ledger_def f by (simp only: sum.case)
qed

lemma replays_restart:
  "replays hm e \<Longrightarrow> cmce_new hm (ce_quorum e) (ce_agents e) (ce_ledger e) = Inr e"
  by (auto simp: replays_def cmce_new_def read_rows)

lemma replay_verifies:
  "replay_ledger hm recs prev rounds = Inr (chain, rounds') \<Longrightarrow> verify_records hm i prev recs = Inr (ChainOk (i + length recs) (take 24 chain))"
  by (induction recs arbitrary: prev rounds i) (auto split: if_splits)

lemma replays_verify: "replays hm e \<Longrightarrow> \<exists>n. cmce_verify_chain hm e = Inr (ChainOk n (take 24 (ce_chain e)))"
  using replay_verifies [of hm _ "''GENESIS''" "[]" _ _ 0] by (auto simp: replays_def cmce_verify_chain_def read_rows)

section \<open>What holds of every round\<close>

definition voters :: "consensus_round \<Rightarrow> string set" where
  "voters r = fst ` set (cr_votes r)"

definition voted :: "vote_type \<Rightarrow> consensus_round \<Rightarrow> string set" where
  "voted v r = {a. \<exists>w. dget (cr_votes r) a = Some w \<and> av_vote w = v}"

text \<open>The outcome a closed round has to have, on the sets of who voted what.\<close>

definition rightly_closed :: "string list \<Rightarrow> consensus_round \<Rightarrow> bool" where
  "rightly_closed agents r \<longleftrightarrow>
     (if cr_human0 r = Some ''VETO'' then cr_outcome r = Blocked
      else if cr_human0 r = Some ''OVERRIDE'' then cr_outcome r = Override
      else set agents \<subseteq> voters r \<and> voted VChallenge r = {} \<and>
        cr_outcome r = (if cr_quorum r \<le> int (card (voted VApprove r)) then Passed else Blocked))"

definition round_ok :: "int \<Rightarrow> string list \<Rightarrow> string \<Rightarrow> consensus_round \<Rightarrow> bool" where
  "round_ok q agents rid r \<longleftrightarrow>
     cr_id r = rid \<and> cr_quorum r = q \<and> distinct (map fst (cr_votes r)) \<and> voters r \<subseteq> set agents \<and>
     cr_human0 r \<in> {None, Some ''VETO'', Some ''OVERRIDE''} \<and>
     (if cr_status r = RoundOpen then cr_outcome r = Pending else rightly_closed agents r)"

definition cmce_inv :: "(string \<Rightarrow> string) \<Rightarrow> int \<Rightarrow> string list \<Rightarrow> cmce \<Rightarrow> bool" where
  "cmce_inv hm q agents e \<longleftrightarrow>
     replays hm e \<and> ce_quorum e = q \<and> ce_agents e = agents \<and>
     (\<forall>rid r. dget (ce_rounds e) rid = Some r \<longrightarrow> round_ok q agents rid r)"

lemma count_votes_card:
  assumes "distinct (map fst (cr_votes r))"
  shows "count_votes v r = card (voted v r)"
proof -
  have "voted v r = fst ` set (filter (\<lambda>p. av_vote (snd p) = v) (cr_votes r))"
    using assms by (force simp: voted_def image_iff)
  moreover have "distinct (map fst (filter (\<lambda>p. av_vote (snd p) = v) (cr_votes r)))"
    using assms by (rule distinct_map_filter)
  then have "card (fst ` set (filter (\<lambda>p. av_vote (snd p) = v) (cr_votes r))) = count_votes v r"
    unfolding count_votes_def by (metis distinct_card length_map list.set_map)
  ultimately show ?thesis by simp
qed

lemma finite_voted: "finite (voted v r)"
proof -
  have "voted v r \<subseteq> fst ` set (cr_votes r)" by (force simp: voted_def dest: map_of_SomeD)
  then show ?thesis using finite_subset by blast
qed

lemma evaluate_outcome:
  assumes "distinct (map fst (cr_votes r))"
  shows "fst (evaluate_round r) =
    (if cr_human0 r = Some ''VETO'' then Blocked else if cr_human0 r = Some ''OVERRIDE'' then Override
     else if voted VChallenge r \<noteq> {} then Challenged
     else if cr_quorum r \<le> int (card (voted VApprove r)) then Passed else Blocked)"
  using count_votes_card [OF assms, of VChallenge] finite_voted [of VChallenge r]
  by (simp add: evaluate_round_def Let_def count_votes_card [OF assms] card_gt_0_iff)

lemma inv_round: "cmce_inv hm q agents e \<Longrightarrow> get_open_round rid e = Inr r \<Longrightarrow>
   dget (ce_rounds e) rid = Some r \<and> round_ok q agents rid r \<and> cr_status r = RoundOpen"
  by (auto simp: cmce_inv_def get_open_round_def get_round_def split: option.splits if_splits) (metis round_status.exhaust)+

text \<open>One write: the round it changes, and the event that says so.\<close>

lemma inv_written:
  assumes "cmce_inv hm q agents e" "hmac_ascii hm" "apply_event ty data (ce_rounds e) = Inr (dput rid r (ce_rounds e))"
    and "round_ok q agents rid r"
  shows "cmce_inv hm q agents (write_ledger hm ty data now (put_round rid r e))"
proof -
  have "replays hm (write_ledger hm ty data now (put_round rid r e))"
    using assms(1-3) by (intro replays_written [of hm e]) (simp_all add: cmce_inv_def put_round_def)
  then show ?thesis
    using assms(1,4) by (auto simp: cmce_inv_def write_ledger_def put_round_def split: if_splits)
qed

lemma apply_opened: "apply_event ''ROUND_OPENED'' (opened_data r) rounds = Inr (dput (cr_id r) r rounds)"
  by (simp add: apply_event_def opened_data_def need_def round_round_trip)

lemma apply_voted:
  "dget rounds rid = Some r \<Longrightarrow> apply_event ''VOTE_CAST'' (vote_data rid v) rounds = Inr (dput rid (set_vote v r) rounds)"
  "dget rounds rid = Some r \<Longrightarrow> apply_event ''VOTE_CAST'' (resolve_data rid v) rounds = Inr (dput rid (set_vote v r) rounds)"
  by (simp_all add: apply_event_def vote_data_def resolve_data_def need_def need_text_def update_round_def)

lemma apply_closed:
  assumes "dget rounds rid = Some r" "cr_id r = rid"
  shows "apply_event ''ROUND_CLOSED'' (closed_data (r\<lparr>cr_outcome := oc, cr_reason := re, cr_status := RoundClosed, cr_closed := t\<rparr>)) rounds =
    Inr (dput rid (r\<lparr>cr_outcome := oc, cr_reason := re, cr_status := RoundClosed, cr_closed := t\<rparr>) rounds)"
  using assms by (cases r) (simp add: apply_event_def closed_data_def need_def need_text_def update_round_def dget_or_def)

lemma apply_human0:
  "dget rounds rid = Some r \<Longrightarrow> apply_event ''HUMAN0_ACTION'' (human0_data rid action reason) rounds = Inr (dput rid (r\<lparr>cr_human0 := Some action\<rparr>) rounds)"
  by (simp add: apply_event_def human0_data_def need_def need_text_def update_round_def)

lemma set_vote_ok:
  assumes "round_ok q agents rid r" "cr_status r = RoundOpen" "av_agent v \<in> set agents"
  shows "round_ok q agents rid (set_vote v r)"
  using assms by (auto simp: round_ok_def set_vote_def voters_def distinct_update dom_update)

lemma finish_ok:
  assumes "cmce_inv hm q agents e" "hmac_ascii hm" "dget (ce_rounds e) rid = Some r" "round_ok q agents rid r"
    and "cr_human0 r = None \<Longrightarrow> set agents \<subseteq> voters r \<and> fst (evaluate_round r) \<noteq> Challenged"
    and "finish_round hm rid r now e = (res, e')"
  shows "cmce_inv hm q agents e'"
proof -
  let ?r = "r\<lparr>cr_outcome := fst (evaluate_round r), cr_reason := snd (evaluate_round r), cr_status := RoundClosed, cr_closed := fst now\<rparr>"
  have e': "e' = write_ledger hm ''ROUND_CLOSED'' (closed_data ?r) (snd now) (put_round rid ?r e)"
    using assms(6) by (simp add: finish_round_def Let_def)
  have same: "voters ?r = voters r" "\<And>v. voted v ?r = voted v r" by (simp_all add: voters_def voted_def)
  have "rightly_closed agents ?r"
    using evaluate_outcome [of r] assms(4,5) unfolding rightly_closed_def same
    by (auto simp: round_ok_def split: if_splits)
  then have "round_ok q agents rid ?r" using assms(4) by (simp add: round_ok_def same)
  moreover have "apply_event ''ROUND_CLOSED'' (closed_data ?r) (ce_rounds e) = Inr (dput rid ?r (ce_rounds e))"
    by (rule apply_closed [OF assms(3)]) (use assms(4) in \<open>simp add: round_ok_def\<close>)
  ultimately show ?thesis unfolding e' by (intro inv_written [OF assms(1,2)])
qed

lemma mark_ok:
  assumes "cmce_inv hm q agents e" "hmac_ascii hm" "action \<in> {''VETO'', ''OVERRIDE''}" "get_open_round rid e = Inr r"
  obtains e' where "human0_mark hm action rid reason now e = (Inr (r\<lparr>cr_human0 := Some action\<rparr>), e')" "cmce_inv hm q agents e'"
    "dget (ce_rounds e') rid = Some (r\<lparr>cr_human0 := Some action\<rparr>)" "round_ok q agents rid (r\<lparr>cr_human0 := Some action\<rparr>)"
    "get_open_round rid e' = Inr (r\<lparr>cr_human0 := Some action\<rparr>)"
proof -
  let ?r = "r\<lparr>cr_human0 := Some action\<rparr>"
  let ?e = "write_ledger hm ''HUMAN0_ACTION'' (human0_data rid action reason) now (put_round rid ?r e)"
  from inv_round [OF assms(1,4)] have r: "dget (ce_rounds e) rid = Some r" "round_ok q agents rid r" "cr_status r = RoundOpen" by auto
  have ok: "round_ok q agents rid ?r" using r(2,3) assms(3) by (auto simp: round_ok_def voters_def)
  have "cmce_inv hm q agents ?e" by (rule inv_written [OF assms(1,2) apply_human0 [OF r(1)] ok])
  moreover have "dget (ce_rounds ?e) rid = Some ?r" by (simp add: write_ledger_def put_round_def)
  moreover from this have "get_open_round rid ?e = Inr ?r" using r(3) by (simp add: get_open_round_def get_round_def)
  ultimately show thesis
    using ok by (intro that [of ?e]) (simp_all add: human0_mark_def assms(4) Let_def)
qed

lemma human0_ok:
  assumes "cmce_inv hm q agents e" "hmac_ascii hm" "action \<in> {''VETO'', ''OVERRIDE''}" "human0_act hm action rid reason now e = (res, e')"
  shows "cmce_inv hm q agents e'"
proof (cases "get_open_round rid e")
  case (Inl x)
  then show ?thesis using assms(1,4) by (simp add: human0_act_def human0_mark_def)
next
  case (Inr r)
  from mark_ok [OF assms(1-3) Inr, of reason "fst now"] obtain e1 where
    e1: "human0_mark hm action rid reason (fst now) e = (Inr (r\<lparr>cr_human0 := Some action\<rparr>), e1)" "cmce_inv hm q agents e1"
    "dget (ce_rounds e1) rid = Some (r\<lparr>cr_human0 := Some action\<rparr>)" "round_ok q agents rid (r\<lparr>cr_human0 := Some action\<rparr>)" .
  have "finish_round hm rid (r\<lparr>cr_human0 := Some action\<rparr>) (snd now) e1 = (res, e')"
    using assms(4) e1(1) by (simp add: human0_act_def)
  then show ?thesis by (intro finish_ok [OF e1(2) assms(2) e1(3,4)]) simp_all
qed

lemma close_ok:
  assumes "cmce_inv hm q agents e" "hmac_ascii hm" "close_round hm rid now e = (res, e')"
  shows "cmce_inv hm q agents e'"
proof (cases "get_open_round rid e")
  case (Inl x)
  then show ?thesis using assms(1,3) by (simp add: close_round_def)
next
  case (Inr r)
  from inv_round [OF assms(1) Inr] have r: "dget (ce_rounds e) rid = Some r" "round_ok q agents rid r" by auto
  have agents: "ce_agents e = agents" using assms(1) by (simp add: cmce_inv_def)
  have all: "set agents \<subseteq> voters r" if "missing_votes e r = []"
  proof
    fix a assume "a \<in> set agents"
    moreover have "filter (\<lambda>a. dget (cr_votes r) a = None) (ce_agents e) = []"
      using that unfolding missing_votes_def by (metis set_empty set_sort)
    ultimately obtain v where "dget (cr_votes r) a = Some v" by (auto simp: agents filter_empty_conv)
    then show "a \<in> voters r" by (force simp: voters_def dest: map_of_SomeD)
  qed
  show ?thesis
  proof (cases "finish_round hm rid r now e = (res, e') \<and>
      (cr_human0 r = None \<longrightarrow> missing_votes e r = [] \<and> fst (evaluate_round r) \<noteq> Challenged)")
    case True
    then show ?thesis using all by (intro finish_ok [OF assms(1,2) r]) auto
  next
    case False
    then have "e' = e" using assms(3) Inr by (auto simp: close_round_def split: if_splits)
    then show ?thesis using assms(1) by simp
  qed
qed

lemma vote_ok:
  assumes "cmce_inv hm q agents e" "hmac_ascii hm" "cast_vote hm rid agent vote rationale vid now e = (res, e')"
  shows "cmce_inv hm q agents e'"
proof (cases "\<exists>v. res = Inr v")
  case True
  then obtain v where v: "res = Inr v" ..
  with assms(3) obtain r where r: "get_open_round rid e = Inr r" "agent \<in> set (ce_agents e)" "av_agent v = agent"
    and e': "e' = write_ledger hm ''VOTE_CAST'' (vote_data rid v) (snd now) (put_round rid (set_vote v r) e)"
    by (auto simp: cast_vote_def Let_def split: sum.splits if_splits)
  from inv_round [OF assms(1) r(1)] have ok: "dget (ce_rounds e) rid = Some r" "round_ok q agents rid r" "cr_status r = RoundOpen" by auto
  have "ce_agents e = agents" using assms(1) by (simp add: cmce_inv_def)
  then show ?thesis
    unfolding e' using r(2,3) by (intro inv_written [OF assms(1,2) apply_voted(1) [OF ok(1)]] set_vote_ok ok(2,3)) simp
next
  case False
  then have "e' = e" using assms(3) by (auto simp: cast_vote_def Let_def split: sum.splits if_splits)
  then show ?thesis using assms(1) by simp
qed

lemma resolve_ok:
  assumes "cmce_inv hm q agents e" "hmac_ascii hm" "resolve_challenge hm rid agent resolution vid now e = (res, e')"
  shows "cmce_inv hm q agents e'"
proof (cases "\<exists>v. res = Inr v")
  case True
  then obtain v where v: "res = Inr v" ..
  with assms(3) obtain r old where r: "get_open_round rid e = Inr r" "dget (cr_votes r) agent = Some old" "av_agent v = agent"
    and e': "e' = write_ledger hm ''VOTE_CAST'' (resolve_data rid v) (snd now) (put_round rid (set_vote v r) e)"
    by (auto simp: resolve_challenge_def Let_def split: sum.splits option.splits if_splits)
  from inv_round [OF assms(1) r(1)] have ok: "dget (ce_rounds e) rid = Some r" "round_ok q agents rid r" "cr_status r = RoundOpen" by auto
  have "agent \<in> voters r" using r(2) by (force simp: voters_def dest: map_of_SomeD)
  then have "agent \<in> set agents" using ok(2) by (auto simp: round_ok_def)
  then show ?thesis
    unfolding e' using r(3) by (intro inv_written [OF assms(1,2) apply_voted(2) [OF ok(1)]] set_vote_ok ok(2,3)) simp
next
  case False
  then have "e' = e" using assms(3) by (auto simp: resolve_challenge_def Let_def split: sum.splits option.splits if_splits)
  then show ?thesis using assms(1) by simp
qed

lemma open_ok:
  assumes "cmce_inv hm q agents e" "hmac_ascii hm" "open_round hm rid mid intent scope proposer now e = (res, e')"
  shows "cmce_inv hm q agents e'"
proof (cases "scope = []")
  case True
  then show ?thesis using assms(1,3) by (simp add: open_round_def)
next
  case False
  let ?r = "\<lparr>cr_id = rid, cr_mutation = mid, cr_intent = intent, cr_scope = scope, cr_proposer = proposer,
             cr_quorum = ce_quorum e, cr_opened = fst now, cr_status = RoundOpen, cr_votes = [], cr_outcome = Pending,
             cr_reason = [], cr_closed = JNull, cr_human0 = None\<rparr>"
  have "e' = write_ledger hm ''ROUND_OPENED'' (opened_data ?r) (snd now) (put_round rid ?r e)"
    using assms(3) False by (simp add: open_round_def Let_def)
  moreover have "round_ok q agents rid ?r" using assms(1) by (simp add: round_ok_def voters_def cmce_inv_def)
  ultimately show ?thesis using inv_written [OF assms(1,2), of "''ROUND_OPENED''" "opened_data ?r" rid ?r] by (simp add: apply_opened)
qed

section \<open>Runs\<close>

text \<open>
  One call on the engine. A new round gets an identifier not used before; \<open>marked\<close> is a process that dies
  after the first write of a veto or an override, \<open>restarted\<close> the next one.
\<close>

inductive cmce_step :: "(string \<Rightarrow> string) \<Rightarrow> int \<Rightarrow> string list \<Rightarrow> cmce \<Rightarrow> cmce \<Rightarrow> bool" for hm q agents where
  opened: "dget (ce_rounds e) rid = None \<Longrightarrow> open_round hm rid mid intent scope proposer now e = (r, e') \<Longrightarrow> cmce_step hm q agents e e'"
| voted: "cast_vote hm rid agent vote rationale vid now e = (r, e') \<Longrightarrow> cmce_step hm q agents e e'"
| vetoed: "human0_veto hm rid reason now3 e = (r, e') \<Longrightarrow> cmce_step hm q agents e e'"
| overridden: "human0_override hm rid reason now3 e = (r, e') \<Longrightarrow> cmce_step hm q agents e e'"
| marked: "action \<in> {''VETO'', ''OVERRIDE''} \<Longrightarrow> human0_mark hm action rid reason now1 e = (r, e') \<Longrightarrow> cmce_step hm q agents e e'"
| closed: "close_round hm rid now e = (r, e') \<Longrightarrow> cmce_step hm q agents e e'"
| resolved: "resolve_challenge hm rid agent resolution vid now e = (r, e') \<Longrightarrow> cmce_step hm q agents e e'"
| restarted: "cmce_new hm q agents (ce_ledger e) = Inr e' \<Longrightarrow> cmce_step hm q agents e e'"

definition cmce_run :: "(string \<Rightarrow> string) \<Rightarrow> int \<Rightarrow> string list \<Rightarrow> cmce \<Rightarrow> bool" where
  "cmce_run hm q agents e \<longleftrightarrow> (\<exists>e0. cmce_new hm q agents None = Inr e0 \<and> (cmce_step hm q agents)\<^sup>*\<^sup>* e0 e)"

lemma inv_restart: "cmce_inv hm q agents e \<Longrightarrow> cmce_new hm q agents (ce_ledger e) = Inr e"
  using replays_restart [of hm e] by (simp add: cmce_inv_def)

lemma step_ok: "cmce_step hm q agents e e' \<Longrightarrow> hmac_ascii hm \<Longrightarrow> cmce_inv hm q agents e \<Longrightarrow> cmce_inv hm q agents e'"
proof (induction rule: cmce_step.induct)
  case (marked action rid reason now1 e r e')
  show ?case
  proof (cases "get_open_round rid e")
    case (Inl x)
    then show ?thesis using marked by (simp add: human0_mark_def)
  next
    case (Inr s)
    from mark_ok [OF marked.prems(2,1) marked.hyps(1) Inr, of reason now1] marked.hyps(2) show ?thesis by (metis snd_conv)
  qed
qed (auto simp: human0_veto_def human0_override_def inv_restart
     intro: open_ok vote_ok human0_ok close_ok resolve_ok)

lemma start_ok: "cmce_new hm q agents None = Inr e0 \<Longrightarrow> cmce_inv hm q agents e0"
  by (auto simp: cmce_new_def read_ledger_def cmce_inv_def replays_def)

lemma run_ok: "cmce_run hm q agents e \<Longrightarrow> hmac_ascii hm \<Longrightarrow> cmce_inv hm q agents e"
proof -
  assume "cmce_run hm q agents e" and hm: "hmac_ascii hm"
  then obtain e0 where "cmce_new hm q agents None = Inr e0" "(cmce_step hm q agents)\<^sup>*\<^sup>* e0 e" by (auto simp: cmce_run_def)
  from this(2,1) show ?thesis by (induction rule: rtranclp_induct) (auto intro: start_ok step_ok hm)
qed

text \<open>A closed round is not touched by a step.\<close>

lemma closed_not_open: "dget (ce_rounds e) rid = Some r \<Longrightarrow> cr_status r = RoundClosed \<Longrightarrow> get_open_round rid e = Inl (CMCERoundClosed (cr_outcome r))"
  by (simp add: get_open_round_def get_round_def)

lemma other_round: "get_open_round rid' e = Inr s \<Longrightarrow> dget (ce_rounds e) rid = Some r \<Longrightarrow> cr_status r = RoundClosed \<Longrightarrow> rid \<noteq> rid'"
  using closed_not_open by fastforce

lemma put_keeps: "rid \<noteq> rid' \<Longrightarrow> dget (ce_rounds (write_ledger hm ty data now (put_round rid' s e))) rid = dget (ce_rounds e) rid"
  by (simp add: write_ledger_def put_round_def)

lemma finish_keeps: "finish_round hm rid' s now e = (res, e') \<Longrightarrow> rid \<noteq> rid' \<Longrightarrow> dget (ce_rounds e') rid = dget (ce_rounds e) rid"
  by (auto simp: finish_round_def Let_def put_keeps)

lemma mark_keeps:
  assumes "human0_mark hm action rid' reason now e = (res, e')" "dget (ce_rounds e) rid = Some r" "cr_status r = RoundClosed"
  shows "dget (ce_rounds e') rid = Some r"
  using assms other_round [OF _ assms(2,3)] by (auto simp: human0_mark_def Let_def put_keeps split: sum.splits)

lemma human0_keeps:
  assumes "human0_act hm action rid' reason now e = (res, e')" "dget (ce_rounds e) rid = Some r" "cr_status r = RoundClosed"
  shows "dget (ce_rounds e') rid = Some r"
proof (cases "get_open_round rid' e")
  case (Inl x)
  then show ?thesis using assms by (simp add: human0_act_def human0_mark_def)
next
  case (Inr s)
  obtain s' e1 where m: "human0_mark hm action rid' reason (fst now) e = (Inr s', e1)"
    using Inr by (simp add: human0_mark_def Let_def)
  then have "finish_round hm rid' s' (snd now) e1 = (res, e')" using assms(1) by (simp add: human0_act_def)
  from finish_keeps [OF this other_round [OF Inr assms(2,3)]] mark_keeps [OF m assms(2,3)] show ?thesis by simp
qed

lemma step_keeps_closed:
  assumes "cmce_step hm q agents e e'" "cmce_inv hm q agents e" "dget (ce_rounds e) rid = Some r" "cr_status r = RoundClosed"
  shows "dget (ce_rounds e') rid = Some r"
  using assms
proof (induction rule: cmce_step.induct)
  case (opened e rid' mid intent scope proposer now r' e')
  then have "rid \<noteq> rid'" by auto
  then show ?case using opened by (auto simp: open_round_def Let_def put_keeps split: if_splits)
next
  case (voted rid' agent vote rationale vid now e r' e')
  then show ?case using other_round [OF _ voted.prems(2,3)]
    by (auto simp: cast_vote_def Let_def put_keeps split: sum.splits if_splits)
next
  case (vetoed rid' reason now3 e r' e')
  then show ?case using human0_keeps by (auto simp: human0_veto_def)
next
  case (overridden rid' reason now3 e r' e')
  then show ?case using human0_keeps by (auto simp: human0_override_def)
next
  case (marked action rid' reason now1 e r' e')
  then show ?case using mark_keeps by blast
next
  case (closed rid' now e r' e')
  then show ?case using other_round [OF _ closed.prems(2,3)] finish_keeps
    by (auto simp: close_round_def split: sum.splits if_splits)
next
  case (resolved rid' agent resolution vid now e r' e')
  then show ?case using other_round [OF _ resolved.prems(2,3)]
    by (auto simp: resolve_challenge_def Let_def put_keeps split: sum.splits option.splits if_splits)
next
  case (restarted e e')
  then show ?case by (simp add: inv_restart)
qed

section \<open>An engine\<close>

definition demo_cmce :: cmce where
  "demo_cmce = \<lparr>ce_quorum = 3, ce_agents = REGISTERED_AGENTS, ce_rounds = [], ce_chain = ''GENESIS'', ce_ledger = None\<rparr>"

definition demo_opened_cmce :: cmce where
  "demo_opened_cmce = snd (open_round (\<lambda>s. ''h'') ''r1'' ''m1'' ''i1'' [''src''] ''p'' (JInt 1, JInt 2) demo_cmce)"

definition demo_vetoed_cmce :: cmce where
  "demo_vetoed_cmce = snd (human0_veto (\<lambda>s. ''h'') ''r1'' ''no'' (JInt 3, JInt 4, JInt 5) demo_opened_cmce)"

lemma demo_hm: "hmac_ascii (\<lambda>s. ''h'')"
  by (simp add: hmac_ascii_def plain_text_def)

lemma demo_start: "cmce_run (\<lambda>s. ''h'') 3 REGISTERED_AGENTS demo_cmce"
  unfolding cmce_run_def
  by (rule exI [of _ demo_cmce]) (simp add: cmce_new_def read_ledger_def demo_cmce_def)

lemma run_step: "cmce_run hm q agents e \<Longrightarrow> cmce_step hm q agents e e' \<Longrightarrow> cmce_run hm q agents e'"
  unfolding cmce_run_def by (meson rtranclp.rtrancl_into_rtrancl)

lemma demo_opened_run: "cmce_run (\<lambda>s. ''h'') 3 REGISTERED_AGENTS demo_opened_cmce"
proof (rule run_step [OF demo_start])
  show "cmce_step (\<lambda>s. ''h'') 3 REGISTERED_AGENTS demo_cmce demo_opened_cmce"
    unfolding demo_opened_cmce_def
    by (rule cmce_step.opened [of demo_cmce "''r1''"]) (simp add: demo_cmce_def, rule surjective_pairing)
qed

lemma demo_vetoed_run: "cmce_run (\<lambda>s. ''h'') 3 REGISTERED_AGENTS demo_vetoed_cmce"
proof (rule run_step [OF demo_opened_run])
  show "cmce_step (\<lambda>s. ''h'') 3 REGISTERED_AGENTS demo_opened_cmce demo_vetoed_cmce"
    unfolding demo_vetoed_cmce_def by (rule cmce_step.vetoed) (rule surjective_pairing)
qed

lemma demo_round:
  "map_option cr_status (dget (ce_rounds demo_opened_cmce) ''r1'') = Some RoundOpen"
  "map_option (\<lambda>r. (cr_status r, cr_outcome r)) (dget (ce_rounds demo_vetoed_cmce) ''r1'') = Some (RoundClosed, Blocked)"
  by code_simp+

lemma demo_written: "ce_ledger demo_vetoed_cmce \<noteq> None"
  by code_simp

section \<open>A ledger with other event types\<close>

definition relabel :: "string \<Rightarrow> obj \<Rightarrow> obj" where
  "relabel ty rec = map (\<lambda>(k, v). (k, if k = ''event_type'' then JStr ty else v)) rec"

fun relabel_line :: "string \<Rightarrow> line \<Rightarrow> line" where
  "relabel_line ty (Row (JObj rec)) = Row (JObj (relabel ty rec))"
| "relabel_line ty l = l"

lemma relabel_get: "dget (relabel ty rec) k = (if k = ''event_type'' then map_option (\<lambda>_. JStr ty) (dget rec k) else dget rec k)"
  by (induction rec) (auto simp: relabel_def)

lemma relabel_keeps:
  "chain_valid hm (relabel ty rec) prev = chain_valid hm rec prev"
  "need_text (relabel ty rec) ''chain_hmac'' = need_text rec ''chain_hmac''"
  "need (relabel ty rec) ''data'' = need rec ''data''"
  by (simp_all add: chain_valid_def need_text_def need_def dget_or_def relabel_get)

lemma relabel_type: "need_text rec ''event_type'' = Inr t \<Longrightarrow> need_text (relabel ty rec) ''event_type'' = Inr ty"
  by (auto simp: need_text_def need_def relabel_get split: option.splits)

lemma note_ignored: "apply_event ''NOTE'' data rounds = Inr rounds"
  by (simp add: apply_event_def)

lemma relabelled_replay:
  "replay_ledger hm recs prev rounds = Inr (chain, rounds') \<Longrightarrow>
   replay_ledger hm (map (relabel ''NOTE'') recs) prev rounds0 = Inr (chain, rounds0)"
proof (induction recs arbitrary: prev rounds)
  case Nil
  then show ?case by simp
next
  case (Cons rec recs)
  then obtain h t d rounds1 where rec: "chain_valid hm rec prev = Inr True" "need_text rec ''chain_hmac'' = Inr h"
    "need_text rec ''event_type'' = Inr t" "ebind (need rec ''data'') object_of = Inr d"
    "replay_ledger hm recs h rounds1 = Inr (chain, rounds')"
    by (auto split: if_splits)
  then show ?case using Cons.IH [OF rec(5)] by (auto simp: relabel_keeps relabel_type note_ignored)
qed

lemma relabelled_rows:
  "ls = map (\<lambda>r. Row (JObj r)) recs \<Longrightarrow> map (relabel_line ty) ls = map (\<lambda>r. Row (JObj r)) (map (relabel ty) recs)"
  by (induction recs arbitrary: ls) auto

section \<open>Properties\<close>

text \<open>
  C10 (refinement): the ledger is the state. After any run of opened, voted, vetoed, overridden, closed and
  resolved rounds, with processes dying between the two writes of HUMAN-0, a new engine on the ledger is the
  engine that wrote it, and the chain verifies to the same tip.\<close>

theorem cmce_replay_restores:
  assumes "cmce_run hm q agents e" "hmac_ascii hm"
  shows "cmce_new hm q agents (ce_ledger e) = Inr e \<and> (\<exists>n. cmce_verify_chain hm e = Inr (ChainOk n (take 24 (ce_chain e))))"
proof -
  from run_ok [OF assms] have inv: "cmce_inv hm q agents e" .
  then have "replays hm e" by (simp add: cmce_inv_def)
  from inv_restart [OF inv] replays_verify [OF this] show ?thesis by blast
qed

theorem cmce_replay_restores_witness:
  "cmce_new (\<lambda>s. ''h'') 3 REGISTERED_AGENTS (ce_ledger demo_vetoed_cmce) = Inr demo_vetoed_cmce"
  using cmce_replay_restores [OF demo_vetoed_run demo_hm] by blast

text \<open>
  C9 (invariant): every outcome is the one the votes call for. In every run an open round is pending, a
  closed one is blocked by a veto, forced by an override, or has the vote of every registered agent, none of
  them a challenge, and passes exactly when the agents who approve are as many as the quorum it was
  opened with; nobody else has voted.\<close>

theorem cmce_outcomes_sound:
  assumes "cmce_run hm q agents e" "hmac_ascii hm" "dget (ce_rounds e) rid = Some r"
  shows "cr_quorum r = q \<and> voters r \<subseteq> set agents \<and>
    (if cr_status r = RoundOpen then cr_outcome r = Pending else rightly_closed agents r)"
  using run_ok [OF assms(1,2)] assms(3) by (auto simp: cmce_inv_def round_ok_def)

theorem cmce_outcomes_sound_witness:
  "\<exists>r. dget (ce_rounds demo_vetoed_cmce) ''r1'' = Some r \<and> cr_quorum r = 3 \<and> rightly_closed REGISTERED_AGENTS r"
proof -
  from demo_round(2) obtain r where r: "dget (ce_rounds demo_vetoed_cmce) ''r1'' = Some r" "cr_status r = RoundClosed" by auto
  from cmce_outcomes_sound [OF demo_vetoed_run demo_hm r(1)] r show ?thesis by auto
qed

text \<open>
  A closed round is final. Whatever happens afterwards, restarts included, it keeps its votes,
  its outcome and its reason.\<close>

theorem cmce_closed_is_final:
  assumes "cmce_run hm q agents e" "hmac_ascii hm" "dget (ce_rounds e) rid = Some r" "cr_status r = RoundClosed"
    and "(cmce_step hm q agents)\<^sup>*\<^sup>* e e'"
  shows "dget (ce_rounds e') rid = Some r"
proof -
  from assms(5) have "cmce_inv hm q agents e' \<and> dget (ce_rounds e') rid = Some r"
  proof (induction rule: rtranclp_induct)
    case base
    then show ?case using run_ok [OF assms(1,2)] assms(3) by blast
  next
    case (step y z)
    then show ?case using step_ok [OF _ assms(2)] step_keeps_closed [OF _ _ _ assms(4)] by blast
  qed
  then show ?thesis by blast
qed

theorem cmce_closed_is_final_witness:
  "map_option cr_outcome (dget (ce_rounds (snd (human0_override (\<lambda>s. ''h'') ''r1'' ''yes'' (JInt 6, JInt 7, JInt 8) demo_vetoed_cmce))) ''r1'')
   = Some Blocked"
proof -
  let ?e = "snd (human0_override (\<lambda>s. ''h'') ''r1'' ''yes'' (JInt 6, JInt 7, JInt 8) demo_vetoed_cmce)"
  from demo_round(2) obtain r where r: "dget (ce_rounds demo_vetoed_cmce) ''r1'' = Some r" "cr_status r = RoundClosed" "cr_outcome r = Blocked" by auto
  have "cmce_step (\<lambda>s. ''h'') 3 REGISTERED_AGENTS demo_vetoed_cmce ?e"
    by (rule cmce_step.overridden) (rule surjective_pairing)
  from cmce_closed_is_final [OF demo_vetoed_run demo_hm r(1,2) r_into_rtranclp [of "cmce_step _ _ _", OF this]] r(3)
  show ?thesis by simp
qed

text \<open>
  A veto is not irrevocable. If the process dies between the two writes of a veto, the next
  one finds the round open, and an override of it succeeds.\<close>

theorem cmce_crash_voids_veto:
  assumes "cmce_run hm q agents e" "hmac_ascii hm" "get_open_round rid e = Inr r"
  shows "\<exists>e1 r2 e2. snd (human0_mark hm ''VETO'' rid reason now e) = e1 \<and> cmce_new hm q agents (ce_ledger e1) = Inr e1 \<and>
    human0_override hm rid reason' now' e1 = (Inr r2, e2) \<and> cr_outcome r2 = Override"
proof -
  from mark_ok [OF run_ok [OF assms(1,2)] assms(2) _ assms(3), of "''VETO''" reason now] obtain e1 where
    e1: "human0_mark hm ''VETO'' rid reason now e = (Inr (r\<lparr>cr_human0 := Some ''VETO''\<rparr>), e1)" "cmce_inv hm q agents e1"
    "get_open_round rid e1 = Inr (r\<lparr>cr_human0 := Some ''VETO''\<rparr>)" by auto
  have "\<exists>r2 e2. human0_override hm rid reason' now' e1 = (Inr r2, e2) \<and> cr_outcome r2 = Override"
    by (simp add: human0_override_def human0_act_def human0_mark_def e1(3) Let_def finish_round_def evaluate_round_def)
  then show ?thesis using e1(1) inv_restart [OF e1(2)] by auto
qed

theorem cmce_crash_voids_veto_witness:
  "\<exists>e1 r2 e2. snd (human0_mark (\<lambda>s. ''h'') ''VETO'' ''r1'' ''no'' (JInt 3) demo_opened_cmce) = e1 \<and>
    human0_override (\<lambda>s. ''h'') ''r1'' ''yes'' (JInt 6, JInt 7, JInt 8) e1 = (Inr r2, e2) \<and> cr_outcome r2 = Override"
proof -
  from demo_round(1) obtain r where "dget (ce_rounds demo_opened_cmce) ''r1'' = Some r" "cr_status r = RoundOpen" by auto
  then have "get_open_round ''r1'' demo_opened_cmce = Inr r" by (simp add: get_open_round_def get_round_def)
  from cmce_crash_voids_veto [OF demo_opened_run demo_hm this, of "''no''" "JInt 3" "''yes''" "(JInt 6, JInt 7, JInt 8)"]
  show ?thesis by blast
qed

text \<open>
  Event types are outside the chain. With every row of its ledger relabelled as a note, no key
  needed, a new engine starts without an error, on the same tip, and has forgotten every round.\<close>

theorem cmce_event_types_unprotected:
  assumes "cmce_run hm q agents e" "hmac_ascii hm" "ce_ledger e = Some rows"
  shows "cmce_new hm q agents (Some (map (relabel_line ''NOTE'') rows)) =
    Inr \<lparr>ce_quorum = q, ce_agents = agents, ce_rounds = [], ce_chain = ce_chain e, ce_ledger = Some (map (relabel_line ''NOTE'') rows)\<rparr>"
proof -
  from run_ok [OF assms(1,2)] have "replays hm e" by (simp add: cmce_inv_def)
  then obtain recs where recs: "rows = map (\<lambda>r. Row (JObj r)) recs" "replay_ledger hm recs ''GENESIS'' [] = Inr (ce_chain e, ce_rounds e)"
    using assms(3) by (auto simp: replays_def)
  have "read_ledger (Some (map (relabel_line ''NOTE'') rows)) = Inr (map (relabel ''NOTE'') recs)"
    using relabelled_rows [OF recs(1)] by (intro read_rows) simp
  then show ?thesis using relabelled_replay [OF recs(2)] by (simp add: cmce_new_def)
qed

theorem cmce_event_types_unprotected_witness:
  "\<exists>e'. cmce_new (\<lambda>s. ''h'') 3 REGISTERED_AGENTS (Some (map (relabel_line ''NOTE'') (file_lines (ce_ledger demo_vetoed_cmce)))) = Inr e' \<and>
    ce_rounds e' = [] \<and> ce_rounds demo_vetoed_cmce \<noteq> []"
proof -
  have ledger: "ce_ledger demo_vetoed_cmce = Some (file_lines (ce_ledger demo_vetoed_cmce))"
    by (cases "ce_ledger demo_vetoed_cmce") (simp_all add: demo_written)
  have "ce_rounds demo_vetoed_cmce \<noteq> []" using demo_round(2) by auto
  with cmce_event_types_unprotected [OF demo_vetoed_run demo_hm ledger] show ?thesis by simp
qed

end
