(* ===== verification/Base64.thy ===== *)
theory Base64
  imports "HOL-Library.Char_ord"
begin

text \<open>
  URL-safe base64 as the tokens of \<open>security/unified_auth.py\<close> use it: \<open>base64.urlsafe_b64encode\<close> and the
  lenient decoder behind \<open>base64.urlsafe_b64decode\<close>, which skips what is not in the alphabet and stops
  at complete padding. A byte is a \<open>char\<close>; a character of a text that is not ASCII, and every byte of its
  UTF-8, is outside the alphabet, so the decoder reads the text itself.
\<close>

section \<open>The alphabet\<close>

definition b64_char :: "nat \<Rightarrow> char" where
  "b64_char n =
     (if n < 26 then char_of (65 + n) else if n < 52 then char_of (71 + n)
      else if n < 62 then char_of (n - 4) else if n = 62 then CHR ''-'' else CHR ''_'')"

text \<open>The two pairs of characters that the alphabets of RFC 4648 use for 62 and 63 are both read.\<close>

definition b64_value :: "char \<Rightarrow> nat option" where
  "b64_value c =
     (let n = (of_char c :: nat)
      in if 65 \<le> n \<and> n \<le> 90 then Some (n - 65)
         else if 97 \<le> n \<and> n \<le> 122 then Some (n - 71)
         else if 48 \<le> n \<and> n \<le> 57 then Some (n + 4)
         else if c = CHR ''-'' \<or> c = CHR ''+'' then Some 62
         else if c = CHR ''_'' \<or> c = CHR ''/'' then Some 63 else None)"

section \<open>Encoding\<close>

definition byte_val :: "char \<Rightarrow> nat" where
  "byte_val c = of_char c"

fun urlsafe_b64encode :: "string \<Rightarrow> string" where
  "urlsafe_b64encode [] = []"
| "urlsafe_b64encode [a] = [b64_char (byte_val a div 4), b64_char (byte_val a mod 4 * 16), CHR ''='', CHR ''='']"
| "urlsafe_b64encode [a, b] =
     [b64_char (byte_val a div 4), b64_char (byte_val a mod 4 * 16 + byte_val b div 16),
      b64_char (byte_val b mod 16 * 4), CHR ''='']"
| "urlsafe_b64encode (a # b # c # bs) =
     [b64_char (byte_val a div 4), b64_char (byte_val a mod 4 * 16 + byte_val b div 16),
      b64_char (byte_val b mod 16 * 4 + byte_val c div 64), b64_char (byte_val c mod 64)] @ urlsafe_b64encode bs"

definition rstrip_pads :: "string \<Rightarrow> string" where
  "rstrip_pads s = rev (dropWhile (\<lambda>c. c = CHR ''='') (rev s))"

section \<open>Decoding\<close>

text \<open>
  \<open>binascii.a2b_base64\<close>: how many characters of the current group were read, what the last of them left
  over, and the padding since; \<open>None\<close> is \<open>binascii.Error\<close>.
\<close>

fun a2b_base64 :: "nat \<Rightarrow> nat \<Rightarrow> nat \<Rightarrow> string \<Rightarrow> string option" where
  "a2b_base64 quad left pads [] = (if quad = 0 then Some [] else None)"
| "a2b_base64 quad left pads (c # cs) =
     (if c = CHR ''='' then
        (if 2 \<le> quad then (if 4 \<le> quad + (pads + 1) then Some [] else a2b_base64 quad left (pads + 1) cs)
         else a2b_base64 quad left pads cs)
      else case b64_value c of
        None \<Rightarrow> a2b_base64 quad left pads cs
      | Some v \<Rightarrow>
          if quad = 0 then a2b_base64 1 v 0 cs
          else if quad = 1 then map_option (Cons (char_of (4 * left + v div 16))) (a2b_base64 2 (v mod 16) 0 cs)
          else if quad = 2 then map_option (Cons (char_of (16 * left + v div 4))) (a2b_base64 3 (v mod 4) 0 cs)
          else map_option (Cons (char_of (64 * left + v))) (a2b_base64 0 0 0 cs))"

text \<open>\<open>_b64url_decode\<close>\<close>

definition b64url_decode :: "string \<Rightarrow> string option" where
  "b64url_decode value = a2b_base64 0 0 0 (value @ replicate (nat ((- int (length value)) mod 4)) (CHR ''=''))"

section \<open>The round trip\<close>

lemma b64_value_char [simp]: "n < 64 \<Longrightarrow> b64_value (b64_char n) = Some n"
  by (auto simp: b64_char_def b64_value_def Let_def)

lemma b64_char_no_pad [simp]: "b64_char n \<noteq> CHR ''=''"
proof
  assume "b64_char n = CHR ''=''"
  then have "(of_char (b64_char n) :: nat) = 61" by simp
  then show False by (auto simp: b64_char_def split: if_splits)
qed

lemma byte_val_bound [simp]: "byte_val c < 256" "char_of (byte_val c) = c"
proof -
  show "byte_val c < 256" unfolding byte_val_def by (metis nat_of_char_less_256)
qed (simp add: byte_val_def)

text \<open>Encoding without the padding.\<close>

fun b64_digits :: "string \<Rightarrow> string" where
  "b64_digits [] = []"
| "b64_digits [a] = [b64_char (byte_val a div 4), b64_char (byte_val a mod 4 * 16)]"
| "b64_digits [a, b] =
     [b64_char (byte_val a div 4), b64_char (byte_val a mod 4 * 16 + byte_val b div 16), b64_char (byte_val b mod 16 * 4)]"
| "b64_digits (a # b # c # bs) =
     [b64_char (byte_val a div 4), b64_char (byte_val a mod 4 * 16 + byte_val b div 16),
      b64_char (byte_val b mod 16 * 4 + byte_val c div 64), b64_char (byte_val c mod 64)] @ b64_digits bs"

lemma encode_digits: "\<exists>n. urlsafe_b64encode bs = b64_digits bs @ replicate n (CHR ''='')"
proof (induction bs rule: b64_digits.induct)
  case (2 a)
  show ?case by (rule exI [of _ 2]) (simp add: numeral_2_eq_2)
next
  case (3 a b)
  show ?case by (rule exI [of _ 1]) simp
qed auto

lemma digits_no_pad: "CHR ''='' \<notin> set (b64_digits bs)"
  using b64_char_no_pad by (induction bs rule: b64_digits.induct) (auto dest: sym)

lemma rstrip_encode: "rstrip_pads (urlsafe_b64encode bs) = b64_digits bs"
proof -
  obtain n where "urlsafe_b64encode bs = b64_digits bs @ replicate n (CHR ''='')" using encode_digits by blast
  moreover have "dropWhile (\<lambda>c. c = CHR ''='') (replicate n (CHR ''='') @ rev (b64_digits bs)) = rev (b64_digits bs)"
    using digits_no_pad [of bs] by (induction n) (auto simp: dropWhile_eq_self_iff hd_rev dest: last_in_set)
  ultimately show ?thesis by (simp add: rstrip_pads_def)
qed

lemma high_bits: "byte_val b div 16 < 16" "byte_val c div 64 < 4"
  using byte_val_bound(1) [of b] byte_val_bound(1) [of c] by (simp_all add: less_mult_imp_div_less)

lemma high_parts [simp]:
  "byte_val b div 16 div 16 = 0" "byte_val b div 16 mod 16 = byte_val b div 16"
  "byte_val c div 64 div 4 = 0" "byte_val c div 64 mod 4 = byte_val c div 64"
  using high_bits by simp_all

lemma parts [simp]:
  "byte_val a div 4 < 64" "x mod 4 * 16 < (64::nat)" "x mod 4 * 16 + byte_val b div 16 < 64"
  "x mod 16 * 4 < (64::nat)" "x mod 16 * 4 + byte_val c div 64 < 64"
proof -
  have m: "x mod 4 < 4" "x mod 16 < 16" by simp_all
  show "byte_val a div 4 < 64" using byte_val_bound(1) [of a] by (simp add: less_mult_imp_div_less)
  show "x mod 4 * 16 < (64::nat)" "x mod 4 * 16 + byte_val b div 16 < 64" using m(1) high_bits(1) [of b] by linarith+
  show "x mod 16 * 4 < (64::nat)" "x mod 16 * 4 + byte_val c div 64 < 64" using m(2) high_bits(2) [of c] by linarith+
qed

lemma decode_digits:
  "a2b_base64 0 0 0 (b64_digits bs @ replicate (nat ((- int (length (b64_digits bs))) mod 4)) (CHR ''='')) = Some bs"
proof (induction bs rule: b64_digits.induct)
  case (4 a b c bs)
  have "(- int (length (b64_digits (a # b # c # bs)))) mod 4 = (- int (length (b64_digits bs))) mod 4" by simp presburger
  with 4 show ?case by (simp add: b64_char_no_pad)
qed (simp_all add: numeral_2_eq_2)

theorem b64url_round_trip: "b64url_decode (rstrip_pads (urlsafe_b64encode bs)) = Some bs"
  by (simp add: b64url_decode_def rstrip_encode decode_digits)

end
