(* ===== verification/UnifiedAuth.thy ===== *)
theory UnifiedAuth
  imports Base64 LedgerAppend Journal Signatures
begin

text \<open>
  \<open>security/unified_auth.py\<close>: bearer tokens. A request is authenticated by a legacy audit token, a service
  account or a signed JWT, and then authorised for an action or for scopes. The environment, the clock,
  the files and the responses a URL gives are arguments; \<open>hm\<close> is HMAC-SHA256 on bytes. JSON in a token is read
  as UTF-8, with the reader of \<open>JsonText\<close>: it has no numbers with a fraction or an exponent, no escapes above 00ff and no
  limit on the digits of an integer. A token outside of it, for instance with \<open>exp\<close> 1893456000.5, is refused by \<open>decode_jwt\<close>
  while the code reads it; what is proved of a JWT is for tokens that \<open>decode_jwt\<close> reads.
\<close>

section \<open>Contexts and errors\<close>

datatype auth_error = HTTPException nat string | AuthPython py_error

record auth_context =
  ac_scheme :: string
  ac_subject :: string
  ac_org :: "string option"
  ac_workspace :: "string option"
  ac_roles :: "string list"
  ac_actions :: "string list"
  ac_scopes :: "string list"
  ac_type :: string
  ac_redaction :: string

fun opt_text :: "string option \<Rightarrow> json" where
  "opt_text None = JNull"
| "opt_text (Some s) = JStr s"

definition context_dict :: "auth_context \<Rightarrow> obj" where
  "context_dict c =
     [(''scheme'', JStr (ac_scheme c)), (''subject'', JStr (ac_subject c)), (''org_id'', opt_text (ac_org c)),
      (''workspace_id'', opt_text (ac_workspace c)), (''roles'', JList (map JStr (ac_roles c))),
      (''actions'', JList (map JStr (ac_actions c))), (''scopes'', JList (map JStr (ac_scopes c))),
      (''scope'', JStr (join '' '' (ac_scopes c))), (''token_type'', JStr (ac_type c)), (''redaction'', JStr (ac_redaction c))]"

definition ROLE_ACTIONS :: "(string, string list) dict" where
  "ROLE_ACTIONS =
     [(''read'', [''read'']), (''write'', [''read'', ''write'']), (''approve'', [''read'', ''write'', ''approve'']),
      (''merge'', [''read'', ''write'', ''approve'', ''merge'']), (''admin'', [''read'', ''write'', ''approve'', ''merge''])]"

text \<open>What reading a file or a URL gives.\<close>

datatype read_outcome = Text string | ReadError | NotUtf8

record auth_world =
  aw_env :: environ
  aw_now :: int
  aw_file :: "string \<Rightarrow> read_outcome"
  aw_url :: "string \<Rightarrow> string option"

definition setting :: "auth_world \<Rightarrow> string \<Rightarrow> string" where
  "setting w k = py_strip (getenv (aw_env w) k)"

abbreviation unauthorized :: "string \<Rightarrow> auth_error" where
  "unauthorized d \<equiv> HTTPException 401 d"

section \<open>Tokens\<close>

definition not_dot :: "char \<Rightarrow> bool" where
  "not_dot c \<longleftrightarrow> c \<noteq> CHR ''.''"

text \<open>\<open>json.loads\<close> of bytes\<close>

definition json_of_bytes :: "string \<Rightarrow> json option" where
  "json_of_bytes bs = Option.bind (utf8_decode bs) json_loads"

definition decode_jwt :: "string \<Rightarrow> auth_error + obj \<times> obj \<times> string" where
  "decode_jwt token =
     (case split_char (CHR ''.'') token of
        [h, p, s] \<Rightarrow>
          (case (Option.bind (b64url_decode h) json_of_bytes, Option.bind (b64url_decode p) json_of_bytes) of
             (Some (JObj header), Some (JObj payload)) \<Rightarrow> Inr (header, payload, s)
           | _ \<Rightarrow> Inl (unauthorized ''invalid_token''))
      | _ \<Rightarrow> Inl (unauthorized ''invalid_token''))"

section \<open>Keys\<close>

text \<open>\<open>_load_json_mapping\<close>; a file that is not UTF-8 raises a \<open>UnicodeDecodeError\<close>.\<close>

definition load_json_mapping :: "auth_world \<Rightarrow> string \<Rightarrow> auth_error + obj option" where
  "load_json_mapping w path =
     (case aw_file w path of
        ReadError \<Rightarrow> Inr None
      | NotUtf8 \<Rightarrow> Inl (AuthPython (ValueError ''utf-8''))
      | Text t \<Rightarrow> Inr (case json_loads t of Some (JObj d) \<Rightarrow> Some d | _ \<Rightarrow> None))"

definition legacy_jwks :: "string \<Rightarrow> obj" where
  "legacy_jwks secret =
     [(''keys'', JList [JObj [(''kty'', JStr ''oct''), (''kid'', JStr ''legacy-hs256''), (''alg'', JStr ''HS256''),
        (''k'', JStr (rstrip_pads (urlsafe_b64encode (utf8_encode secret))))]])]"

definition jwks_from_url :: "auth_world \<Rightarrow> obj" where
  "jwks_from_url w =
     (let url = setting w ''ADAAD_AUTH_JWKS_URL'';
          secret = setting w ''ADAAD_MCP_JWT_SECRET'';
          rest = (if secret \<noteq> [] then legacy_jwks secret else [(''keys'', JList [])])
      in if url = [] then rest
         else case Option.bind (aw_url w url) json_loads of Some (JObj d) \<Rightarrow> d | _ \<Rightarrow> rest)"

definition load_jwks :: "auth_world \<Rightarrow> auth_error + obj" where
  "load_jwks w =
     (let inline = setting w ''ADAAD_AUTH_JWKS_JSON''; path = setting w ''ADAAD_AUTH_JWKS_PATH''
      in case (if inline = [] then None else json_loads inline) of
           Some (JObj d) \<Rightarrow> Inr d
         | _ \<Rightarrow>
             if path = [] then Inr (jwks_from_url w)
             else ebind (load_json_mapping w path) (\<lambda>m. Inr (case m of Some d \<Rightarrow> d | None \<Rightarrow> jwks_from_url w)))"

definition key_with :: "string \<Rightarrow> string \<Rightarrow> json list \<Rightarrow> obj option" where
  "key_with field v ks =
     (if v = [] then None
      else case List.find (\<lambda>k. case k of JObj d \<Rightarrow> text_at d field = v | _ \<Rightarrow> False) ks of Some (JObj d) \<Rightarrow> Some d | _ \<Rightarrow> None)"

definition pick_jwk :: "obj \<Rightarrow> obj \<Rightarrow> auth_error + obj" where
  "pick_jwk header jwks =
     (case dget jwks ''keys'' of
        Some (JList ks) \<Rightarrow>
          (case key_with ''kid'' (text_at header ''kid'') ks of
             Some d \<Rightarrow> Inr d
           | None \<Rightarrow>
               (case key_with ''alg'' (text_at header ''alg'') ks of
                  Some d \<Rightarrow> Inr d
                | None \<Rightarrow> (case ks of [JObj d] \<Rightarrow> Inr d | _ \<Rightarrow> Inl (unauthorized ''invalid_token''))))
      | _ \<Rightarrow> Inl (unauthorized ''invalid_token''))"

text \<open>\<open>token.rsplit(".", 1)[0]\<close>\<close>

definition before_last_dot :: "string \<Rightarrow> string" where
  "before_last_dot s =
     (let r = dropWhile not_dot (rev s) in if r = [] then s else rev (tl r))"

definition verify_jwt_signature :: "(string \<Rightarrow> string \<Rightarrow> string) \<Rightarrow> obj \<Rightarrow> string \<Rightarrow> string \<Rightarrow> obj \<Rightarrow> auth_error + unit" where
  "verify_jwt_signature hm header token sig jwk =
     (if text_at header ''alg'' = ''none'' then Inl (unauthorized ''invalid_token'')
      else case b64url_decode sig of
        None \<Rightarrow> Inl (unauthorized ''invalid_token'')
      | Some signature \<Rightarrow>
          if text_at header ''alg'' = ''HS256'' then
            (case b64url_decode (text_at jwk ''k'') of
               None \<Rightarrow> Inl (AuthPython (ValueError ''base64''))
             | Some secret \<Rightarrow>
                 if hm secret (utf8_encode (before_last_dot token)) \<noteq> signature then Inl (unauthorized ''invalid_token'')
                 else Inr ())
          else Inl (unauthorized ''unsupported_token_algorithm''))"

section \<open>Claims\<close>

definition sorted_set :: "string list \<Rightarrow> string list" where
  "sorted_set xs = sort (remdups xs)"

definition texts_at :: "obj \<Rightarrow> string \<Rightarrow> string list" where
  "texts_at d k = (case dget d k of Some (JList xs) \<Rightarrow> map py_str xs | _ \<Rightarrow> [])"

definition normalized_claim_set :: "obj \<Rightarrow> string list \<times> string list \<times> string list" where
  "normalized_claim_set claims =
     (let scopes = filter (\<lambda>s. s \<noteq> []) (split_char (CHR '' '') (py_strip (text_at claims ''scope''))) @ texts_at claims ''scopes'';
          roles = texts_at claims ''roles'';
          actions = texts_at claims ''actions'' @ concat (map (\<lambda>r. dget_or ROLE_ACTIONS r []) roles) @
            (if ''audit:read'' \<in> set scopes then [''read''] else []) @ (if ''audit:write'' \<in> set scopes then [''write''] else [])
      in (sorted_set scopes, sorted_set roles, sorted_set actions))"

text \<open>\<open>int(d.get(k, 0) or 0)\<close>\<close>

definition int_at :: "obj \<Rightarrow> string \<Rightarrow> auth_error + int" where
  "int_at d k = (case py_int (get_or_truthy d k (JInt 0)) of Inl e \<Rightarrow> Inl (AuthPython e) | Inr i \<Rightarrow> Inr i)"

definition configured_audience :: "auth_world \<Rightarrow> string list" where
  "configured_audience w =
     filter (\<lambda>a. a \<noteq> []) (map py_strip (split_char (CHR '','') (getenv (aw_env w) ''ADAAD_AUTH_OIDC_AUDIENCE'')))"

definition token_audience :: "obj \<Rightarrow> string list" where
  "token_audience claims = (case dget claims ''aud'' of Some (JStr a) \<Rightarrow> [a] | Some (JList xs) \<Rightarrow> map py_str xs | _ \<Rightarrow> [])"

definition validate_standard_claims :: "auth_world \<Rightarrow> obj \<Rightarrow> auth_error + unit" where
  "validate_standard_claims w claims =
     ebind (int_at claims ''exp'') (\<lambda>exp.
       if exp \<le> 0 \<or> exp < aw_now w then Inl (unauthorized ''expired_token'')
       else ebind (int_at claims ''nbf'') (\<lambda>nbf.
         if nbf \<noteq> 0 \<and> aw_now w < nbf then Inl (unauthorized ''invalid_token'')
         else
           (let issuer = setting w ''ADAAD_AUTH_OIDC_ISSUER''; aud = configured_audience w
            in if issuer \<noteq> [] \<and> text_at claims ''iss'' \<noteq> issuer then Inl (unauthorized ''invalid_issuer'')
               else if aud \<noteq> [] \<and> set (token_audience claims) \<inter> set aud = {} then Inl (unauthorized ''invalid_audience'')
               else Inr ())))"

definition text_option :: "string \<Rightarrow> string option" where
  "text_option s = (if s = [] then None else Some s)"

definition claims_context :: "obj \<Rightarrow> string \<Rightarrow> string \<Rightarrow> string list \<times> string list \<times> string list \<Rightarrow> auth_context" where
  "claims_context claims subject ty sra =
     \<lparr>ac_scheme = ''bearer'', ac_subject = subject, ac_org = text_option (text_at claims ''org_id''),
      ac_workspace = text_option (text_at claims ''workspace_id''), ac_roles = fst (snd sra), ac_actions = snd (snd sra),
      ac_scopes = fst sra, ac_type = ty, ac_redaction = ''sensitive''\<rparr>"

section \<open>Authentication\<close>

definition text_equal :: "string \<Rightarrow> string \<Rightarrow> auth_error + bool" where
  "text_equal s t = (case compare_digest s t of Inl e \<Rightarrow> Inl (AuthPython TypeError) | Inr b \<Rightarrow> Inr b)"

definition extract_service_accounts :: "auth_world \<Rightarrow> (string, obj) dict" where
  "extract_service_accounts w =
     (let raw = setting w ''ADAAD_SERVICE_ACCOUNT_CREDENTIALS''
      in case (if raw = [] then None else json_loads raw) of
           Some (JObj d) \<Rightarrow> concat (map (\<lambda>(k, v). case v of JObj r \<Rightarrow> [(k, r)] | _ \<Rightarrow> []) d)
         | _ \<Rightarrow> [])"

definition authenticate_service_account :: "auth_world \<Rightarrow> string \<Rightarrow> auth_error + auth_context" where
  "authenticate_service_account w token =
     (if list_all not_dot token then Inl (unauthorized ''invalid_token'')
      else
        (let cid = takeWhile not_dot token; secret = tl (dropWhile not_dot token)
         in case dget (extract_service_accounts w) cid of
              None \<Rightarrow> Inl (unauthorized ''invalid_token'')
            | Some r \<Rightarrow>
                (let configured = text_at r ''secret''
                 in if configured = [] then Inl (unauthorized ''invalid_token'')
                    else ebind (text_equal secret configured) (\<lambda>same.
                      if \<not> same then Inl (unauthorized ''invalid_token'')
                      else ebind (int_at r ''expires_at'') (\<lambda>expires.
                        if expires \<noteq> 0 \<and> expires < aw_now w then Inl (unauthorized ''expired_token'')
                        else Inr (claims_context r (py_str (get_or_truthy r ''sub'' (JStr (''service-account:'' @ cid))))
                          ''service_account'' (normalized_claim_set r)))))))"

fun matched_scopes :: "string \<Rightarrow> obj \<Rightarrow> auth_error + string list option" where
  "matched_scopes token [] = Inr None"
| "matched_scopes token ((configured, v) # d) =
     ebind (text_equal token configured) (\<lambda>same.
       case v of JList xs \<Rightarrow> if same then Inr (Some (map py_str xs)) else matched_scopes token d | _ \<Rightarrow> matched_scopes token d)"

definition authenticate_legacy_audit_token :: "auth_world \<Rightarrow> string \<Rightarrow> auth_error + auth_context option" where
  "authenticate_legacy_audit_token w token =
     (let raw = setting w ''ADAAD_AUDIT_TOKENS''
      in case (if raw = [] then None else json_loads raw) of
           Some (JObj d) \<Rightarrow>
             ebind (matched_scopes token d) (\<lambda>m.
               Inr (map_option (\<lambda>scopes. claims_context [] ''audit-token'' ''legacy_token''
                 (normalized_claim_set [(''scope'', JStr (join '' '' scopes)), (''sub'', JStr ''audit-token'')])) m))
         | _ \<Rightarrow> Inr None)"

text \<open>The context of a validated token: a token without any claims gets everything that merging needs when the
  legacy secret is configured.\<close>

definition jwt_context :: "auth_world \<Rightarrow> obj \<Rightarrow> auth_context" where
  "jwt_context w claims =
     (case normalized_claim_set claims of
        (scopes, roles, actions) \<Rightarrow>
          claims_context claims (py_str (get_or_truthy claims ''sub'' (JStr ''unknown''))) ''oidc''
            (scopes, roles, if setting w ''ADAAD_MCP_JWT_SECRET'' \<noteq> [] \<and> scopes = [] \<and> roles = [] \<and> actions = []
             then dget_or ROLE_ACTIONS ''merge'' [] else actions))"

definition authenticate_jwt :: "(string \<Rightarrow> string \<Rightarrow> string) \<Rightarrow> auth_world \<Rightarrow> string \<Rightarrow> auth_error + auth_context" where
  "authenticate_jwt hm w token =
     ebind (decode_jwt token) (\<lambda>(header, claims, sig).
     ebind (load_jwks w) (\<lambda>jwks.
     ebind (pick_jwk header jwks) (\<lambda>jwk.
     ebind (verify_jwt_signature hm header token sig jwk) (\<lambda>u.
     ebind (validate_standard_claims w claims) (\<lambda>u. Inr (jwt_context w claims))))))"

definition authenticate_bearer :: "(string \<Rightarrow> string \<Rightarrow> string) \<Rightarrow> auth_world \<Rightarrow> string option \<Rightarrow> auth_error + auth_context" where
  "authenticate_bearer hm w authorization =
     (case authorization of
        None \<Rightarrow> Inl (unauthorized ''missing_authentication'')
      | Some a \<Rightarrow>
          (let scheme = takeWhile (\<lambda>c. c \<noteq> CHR '' '') a; token = tl (dropWhile (\<lambda>c. c \<noteq> CHR '' '') a)
           in if a = [] \<or> py_lower scheme \<noteq> ''bearer'' \<or> token = [] then Inl (unauthorized ''missing_authentication'')
              else ebind (authenticate_legacy_audit_token w token) (\<lambda>legacy.
                case legacy of
                  Some c \<Rightarrow> Inr c
                | None \<Rightarrow>
                    if length (filter (\<lambda>c. c = CHR ''.'') token) = 1 then authenticate_service_account w token
                    else authenticate_jwt hm w token)))"

section \<open>Authorisation\<close>

definition same_scope :: "string option \<Rightarrow> string option \<Rightarrow> string \<Rightarrow> auth_error + unit" where
  "same_scope wanted given detail =
     (case (wanted, given) of
        (Some a, Some b) \<Rightarrow>
          if a = [] \<or> b = [] then Inr ()
          else ebind (text_equal a b) (\<lambda>same. if same then Inr () else Inl (HTTPException 403 detail))
      | _ \<Rightarrow> Inr ())"

definition require_action ::
  "(string \<Rightarrow> string \<Rightarrow> string) \<Rightarrow> auth_world \<Rightarrow> string option \<Rightarrow> string \<Rightarrow> string option \<Rightarrow> string option \<Rightarrow> auth_error + obj" where
  "require_action hm w authorization action org ws =
     ebind (authenticate_bearer hm w authorization) (\<lambda>c.
       if action \<notin> set (ac_actions c) then Inl (HTTPException 403 ''insufficient_scope'')
       else ebind (same_scope org (ac_org c) ''org_scope_mismatch'') (\<lambda>u.
            ebind (same_scope ws (ac_workspace c) ''workspace_scope_mismatch'') (\<lambda>u. Inr (context_dict c))))"

fun any_equal :: "string \<Rightarrow> string list \<Rightarrow> auth_error + bool" where
  "any_equal r [] = Inr False"
| "any_equal r (s # ss) = ebind (text_equal r s) (\<lambda>same. if same then Inr True else any_equal r ss)"

fun scopes_present :: "string list \<Rightarrow> string list \<Rightarrow> auth_error + unit" where
  "scopes_present have [] = Inr ()"
| "scopes_present have (r # rs) =
     ebind (any_equal r have) (\<lambda>found. if found then scopes_present have rs else Inl (HTTPException 403 ''insufficient_scope''))"

definition require_scopes :: "(string \<Rightarrow> string \<Rightarrow> string) \<Rightarrow> auth_world \<Rightarrow> string option \<Rightarrow> string list \<Rightarrow> auth_error + obj" where
  "require_scopes hm w authorization required =
     ebind (authenticate_bearer hm w authorization) (\<lambda>c.
     ebind (scopes_present (ac_scopes c) required) (\<lambda>u. Inr (context_dict c)))"


lemma before_last_dot_append: "list_all not_dot b \<Longrightarrow> before_last_dot (a @ CHR ''.'' # b) = a"
proof -
  assume b: "list_all not_dot b"
  then have "dropWhile not_dot (rev b @ CHR ''.'' # rev a) = CHR ''.'' # rev a"
    by (induction b rule: rev_induct) (simp_all add: not_dot_def)
  then show ?thesis by (simp add: before_last_dot_def)
qed

lemma b64_char_no_dot: "b64_char n \<noteq> CHR ''.''"
proof
  assume "b64_char n = CHR ''.''"
  then have "(of_char (b64_char n) :: nat) = 46" by simp
  then show False by (auto simp: b64_char_def split: if_splits)
qed

lemma digits_no_dot: "list_all not_dot (b64_digits bs)"
  by (induction bs rule: b64_digits.induct) (simp_all add: not_dot_def b64_char_no_dot)

section \<open>What claims grant\<close>

text \<open>The actions of claims, read off the claims without the sorting.\<close>

definition claim_scopes :: "obj \<Rightarrow> string set" where
  "claim_scopes claims =
     set (filter (\<lambda>s. s \<noteq> []) (split_char (CHR '' '') (py_strip (text_at claims ''scope'')))) \<union> set (texts_at claims ''scopes'')"

definition claim_grants :: "obj \<Rightarrow> string \<Rightarrow> bool" where
  "claim_grants claims action \<longleftrightarrow>
     action \<in> set (texts_at claims ''actions'') \<or>
     (\<exists>role \<in> set (texts_at claims ''roles''). action \<in> set (dget_or ROLE_ACTIONS role [])) \<or>
     (action = ''read'' \<and> ''audit:read'' \<in> claim_scopes claims) \<or>
     (action = ''write'' \<and> ''audit:write'' \<in> claim_scopes claims)"

lemma sorted_set [simp]: "set (sorted_set xs) = set xs"
  by (simp add: sorted_set_def)

lemma sorted_set_Nil [simp]: "sorted_set xs = [] \<longleftrightarrow> xs = []"
  using sorted_set [of xs] by (metis set_empty)

lemma normalized_sets:
  assumes "normalized_claim_set claims = (scopes, roles, actions)"
  shows "set scopes = claim_scopes claims" "set roles = set (texts_at claims ''roles'')"
    "action \<in> set actions \<longleftrightarrow> claim_grants claims action"
  using assms by (auto simp: normalized_claim_set_def claim_scopes_def claim_grants_def Let_def)

text \<open>No scope, role or action.\<close>

definition claimless :: "obj \<Rightarrow> bool" where
  "claimless claims \<longleftrightarrow> claim_scopes claims = {} \<and> texts_at claims ''roles'' = [] \<and> texts_at claims ''actions'' = []"

lemma normalized_empty:
  assumes "normalized_claim_set claims = (scopes, roles, actions)"
  shows "scopes = [] \<and> roles = [] \<and> actions = [] \<longleftrightarrow> claimless claims"
proof -
  have "(\<forall>a. \<not> claim_grants claims a) \<longleftrightarrow> actions = []"
    using normalized_sets(3) [OF assms] by (metis ex_in_conv set_empty)
  moreover have "\<not> claim_grants claims a" if "claimless claims" for a
    using that by (auto simp: claimless_def claim_grants_def)
  moreover have "texts_at claims ''actions'' = []" if "\<forall>a. \<not> claim_grants claims a"
    using that by (auto simp: claim_grants_def) (metis list.set_intros(1) neq_Nil_conv)
  moreover have "scopes = [] \<longleftrightarrow> claim_scopes claims = {}" "roles = [] \<longleftrightarrow> texts_at claims ''roles'' = []"
    using normalized_sets(1,2) [OF assms] by (metis set_empty)+
  ultimately show ?thesis unfolding claimless_def by blast
qed

section \<open>Requests with a JWT\<close>

lemma bearer_jwt:
  assumes "setting w ''ADAAD_AUDIT_TOKENS'' = []" "length (filter (\<lambda>c. c = CHR ''.'') token) = 2"
  shows "authenticate_bearer hm w (Some (''Bearer '' @ token)) = authenticate_jwt hm w token"
proof -
  have "py_lower ''Bearer'' = ''bearer''" by code_simp
  then show ?thesis
    using assms by (auto simp: authenticate_bearer_def authenticate_legacy_audit_token_def Let_def)
qed

text \<open>A token whose signature, key and standard claims the code accepts.\<close>

definition valid_jwt :: "(string \<Rightarrow> string \<Rightarrow> string) \<Rightarrow> auth_world \<Rightarrow> string \<Rightarrow> obj \<Rightarrow> bool" where
  "valid_jwt hm w token claims \<longleftrightarrow>
     (\<exists>header sig jwks jwk secret. decode_jwt token = Inr (header, claims, sig) \<and> load_jwks w = Inr jwks \<and>
        pick_jwk header jwks = Inr jwk \<and> text_at header ''alg'' = ''HS256'' \<and>
        b64url_decode (text_at jwk ''k'') = Some secret \<and>
        b64url_decode sig = Some (hm secret (utf8_encode (before_last_dot token))) \<and>
        validate_standard_claims w claims = Inr ())"

lemma verify_jwt_signature_ok:
  "verify_jwt_signature hm header token sig jwk = Inr () \<longleftrightarrow> text_at header ''alg'' = ''HS256'' \<and>
     (\<exists>secret. b64url_decode (text_at jwk ''k'') = Some secret \<and>
        b64url_decode sig = Some (hm secret (utf8_encode (before_last_dot token))))"
  by (auto simp: verify_jwt_signature_def split: option.splits)

lemma authenticate_jwt_ok:
  "authenticate_jwt hm w token = Inr c \<longleftrightarrow> (\<exists>claims. valid_jwt hm w token claims \<and> c = jwt_context w claims)"
  unfolding valid_jwt_def authenticate_jwt_def by (auto simp: verify_jwt_signature_ok)

definition MERGE_ACTIONS :: "string set" where
  "MERGE_ACTIONS = {''read'', ''write'', ''approve'', ''merge''}"

lemma merge_actions: "set (dget_or ROLE_ACTIONS ''merge'' []) = MERGE_ACTIONS"
  by (simp add: ROLE_ACTIONS_def MERGE_ACTIONS_def dget_or_def)

lemma jwt_context_actions:
  "action \<in> set (ac_actions (jwt_context w claims)) \<longleftrightarrow>
     claim_grants claims action \<or> (setting w ''ADAAD_MCP_JWT_SECRET'' \<noteq> [] \<and> claimless claims \<and> action \<in> MERGE_ACTIONS)"
proof -
  obtain scopes roles actions where n: "normalized_claim_set claims = (scopes, roles, actions)" by (cases "normalized_claim_set claims")
  have "\<not> claim_grants claims action" if "claimless claims"
    using that by (auto simp: claimless_def claim_grants_def)
  then show ?thesis
    using normalized_sets(3) [OF n, of action] normalized_empty [OF n] merge_actions
    by (auto simp: jwt_context_def n claims_context_def)
qed

section \<open>Scopes of organisation and workspace\<close>

definition scope_allows :: "string option \<Rightarrow> string \<Rightarrow> bool" where
  "scope_allows wanted given \<longleftrightarrow>
     (case wanted of
        None \<Rightarrow> True
      | Some a \<Rightarrow> a = [] \<or> given = [] \<or> (a = given \<and> list_all (\<lambda>c. (of_char c :: nat) < 128) given))"

lemma same_scope_ok: "same_scope wanted (text_option given) detail = Inr () \<longleftrightarrow> scope_allows wanted given"
  by (auto simp: same_scope_def scope_allows_def text_option_def text_equal_def compare_digest_def split: option.splits)

lemma jwt_context_scopes:
  "ac_org (jwt_context w claims) = text_option (text_at claims ''org_id'')"
  "ac_workspace (jwt_context w claims) = text_option (text_at claims ''workspace_id'')"
  by (simp_all add: jwt_context_def claims_context_def split: prod.splits)

lemma require_action_ok:
  "require_action hm w a action org ws = Inr d \<longleftrightarrow>
     (\<exists>c. authenticate_bearer hm w a = Inr c \<and> action \<in> set (ac_actions c) \<and>
        same_scope org (ac_org c) ''org_scope_mismatch'' = Inr () \<and>
        same_scope ws (ac_workspace c) ''workspace_scope_mismatch'' = Inr () \<and> d = context_dict c)"
  by (auto simp: require_action_def split: if_splits)

definition jwt_allows :: "auth_world \<Rightarrow> obj \<Rightarrow> string \<Rightarrow> string option \<Rightarrow> string option \<Rightarrow> bool" where
  "jwt_allows w claims action org ws \<longleftrightarrow>
     (claim_grants claims action \<or> (setting w ''ADAAD_MCP_JWT_SECRET'' \<noteq> [] \<and> claimless claims \<and> action \<in> MERGE_ACTIONS)) \<and>
     scope_allows org (text_at claims ''org_id'') \<and> scope_allows ws (text_at claims ''workspace_id'')"

lemma jwt_request:
  assumes "setting w ''ADAAD_AUDIT_TOKENS'' = []" "length (filter (\<lambda>c. c = CHR ''.'') token) = 2"
  shows "(\<exists>d. require_action hm w (Some (''Bearer '' @ token)) action org ws = Inr d) \<longleftrightarrow>
    (\<exists>claims. valid_jwt hm w token claims \<and> jwt_allows w claims action org ws)"
  unfolding require_action_ok bearer_jwt [OF assms] authenticate_jwt_ok jwt_allows_def
  by (auto simp: jwt_context_actions jwt_context_scopes same_scope_ok)

section \<open>What the code should accept\<close>

text \<open>A claim that is a number of seconds: zero when it is missing or empty, nothing when it is no number.\<close>

definition seconds :: "obj \<Rightarrow> string \<Rightarrow> int option" where
  "seconds claims k =
     (case dget claims k of
        Some (JInt i) \<Rightarrow> Some i
      | Some (JBool b) \<Rightarrow> Some (if b then 1 else 0)
      | Some (JStr s) \<Rightarrow> if s = [] then Some 0 else parse_int s
      | Some (JList (x # xs)) \<Rightarrow> None
      | Some (JObj (x # xs)) \<Rightarrow> None
      | _ \<Rightarrow> Some 0)"

text \<open>A token is in force now: it has an expiry that has not passed, it does not start later, and the issuer and
  one of the audiences are the configured ones, where they are configured.\<close>

definition in_force :: "auth_world \<Rightarrow> obj \<Rightarrow> bool" where
  "in_force w claims \<longleftrightarrow>
     (\<exists>exp. seconds claims ''exp'' = Some exp \<and> 0 < exp \<and> aw_now w \<le> exp) \<and>
     (\<exists>nbf. seconds claims ''nbf'' = Some nbf \<and> (nbf = 0 \<or> nbf \<le> aw_now w)) \<and>
     (setting w ''ADAAD_AUTH_OIDC_ISSUER'' = [] \<or> text_at claims ''iss'' = setting w ''ADAAD_AUTH_OIDC_ISSUER'') \<and>
     (configured_audience w = [] \<or>
      (\<exists>a \<in> set (configured_audience w). dget claims ''aud'' = Some (JStr a) \<or>
         (\<exists>xs. dget claims ''aud'' = Some (JList xs) \<and> (\<exists>x \<in> set xs. py_str x = a))))"

lemma int_at_seconds: "int_at claims k = Inr i \<longleftrightarrow> seconds claims k = Some i"
proof (cases "dget claims k")
  case None
  then show ?thesis by (auto simp: int_at_def seconds_def get_or_truthy_def)
next
  case (Some v)
  then show ?thesis
    by (cases v) (auto simp: int_at_def seconds_def get_or_truthy_def parse_int_def split: option.splits list.splits)
qed

lemma token_audience_iff:
  "a \<in> set (token_audience claims) \<longleftrightarrow>
     dget claims ''aud'' = Some (JStr a) \<or> (\<exists>xs. dget claims ''aud'' = Some (JList xs) \<and> (\<exists>x \<in> set xs. py_str x = a))"
proof (cases "dget claims ''aud''")
  case (Some v)
  then show ?thesis by (cases v) (auto simp: token_audience_def)
qed (simp add: token_audience_def)

lemma standard_claims_in_force: "validate_standard_claims w claims = Inr () \<longleftrightarrow> in_force w claims"
proof -
  let ?aud = "set (token_audience claims) \<inter> set (configured_audience w) = {}"
  have audience: "?aud \<longleftrightarrow> \<not> (\<exists>a \<in> set (configured_audience w). dget claims ''aud'' = Some (JStr a) \<or>
      (\<exists>xs. dget claims ''aud'' = Some (JList xs) \<and> (\<exists>x \<in> set xs. py_str x = a)))"
    using token_audience_iff [of _ claims] by blast
  have "validate_standard_claims w claims = Inr () \<longleftrightarrow>
      (\<exists>exp. int_at claims ''exp'' = Inr exp \<and> 0 < exp \<and> aw_now w \<le> exp) \<and>
      (\<exists>nbf. int_at claims ''nbf'' = Inr nbf \<and> (nbf = 0 \<or> nbf \<le> aw_now w)) \<and>
      (setting w ''ADAAD_AUTH_OIDC_ISSUER'' = [] \<or> text_at claims ''iss'' = setting w ''ADAAD_AUTH_OIDC_ISSUER'') \<and>
      (configured_audience w = [] \<or> \<not> ?aud)"
    unfolding validate_standard_claims_def Let_def
    by (cases "int_at claims ''exp''"; cases "int_at claims ''nbf''") (auto simp: not_le not_less split: if_splits)
  then show ?thesis unfolding in_force_def audience int_at_seconds by simp
qed

text \<open>A token of three parts has two dots.\<close>

lemma split_char_count: "length (filter (\<lambda>c. c = sep) s) + 1 = length (split_char sep s)"
proof (induction sep s rule: split_char.induct)
  case (1 sep s)
  let ?f = "takeWhile (\<lambda>c. c \<noteq> sep) s" and ?r = "dropWhile (\<lambda>c. c \<noteq> sep) s"
  have s: "filter (\<lambda>c. c = sep) s = filter (\<lambda>c. c = sep) ?r"
    by (metis (mono_tags, lifting) append_Nil filter_append filter_False set_takeWhileD takeWhile_dropWhile_id)
  show ?case
  proof (cases "?r = []")
    case True
    then show ?thesis using s by (subst split_char.simps) (simp add: Let_def)
  next
    case False
    then obtain r where r: "?r = sep # r" using hd_dropWhile [of "\<lambda>c. c \<noteq> sep" s] by (cases ?r) auto
    have "length (filter (\<lambda>c. c = sep) r) + 1 = length (split_char sep r)" using 1 [OF refl refl False] r by simp
    then show ?thesis using s r by (subst split_char.simps) (simp add: Let_def)
  qed
qed

lemma decoded_dots: "decode_jwt token = Inr x \<Longrightarrow> length (filter (\<lambda>c. c = CHR ''.'') token) = 2"
  using split_char_count [of "CHR ''.''" token] by (auto simp: decode_jwt_def split: list.splits)

section \<open>Forging\<close>

definition b64_text :: "string \<Rightarrow> string" where
  "b64_text s = rstrip_pads (urlsafe_b64encode s)"

definition forged_header :: "string \<Rightarrow> obj" where
  "forged_header kid = [(''alg'', JStr ''HS256''), (''kid'', JStr kid)]"

definition forged_content :: "string \<Rightarrow> obj \<Rightarrow> string" where
  "forged_content kid claims =
     b64_text (utf8_encode (json_text (JObj (forged_header kid)))) @ ''.'' @ b64_text (utf8_encode (json_text (JObj claims)))"

text \<open>Signed under the empty secret.\<close>

definition forged_token :: "(string \<Rightarrow> string \<Rightarrow> string) \<Rightarrow> string \<Rightarrow> obj \<Rightarrow> string" where
  "forged_token hm kid claims =
     forged_content kid claims @ ''.'' @ b64_text (hm [] (utf8_encode (forged_content kid claims)))"

lemma b64_text_simps [simp]: "list_all not_dot (b64_text s)" "b64url_decode (b64_text s) = Some s"
  by (simp_all add: b64_text_def rstrip_encode digits_no_dot flip: rstrip_encode) (simp_all add: rstrip_encode digits_no_dot b64url_decode_def decode_digits)

lemma no_dot_set: "list_all not_dot s \<Longrightarrow> CHR ''.'' \<notin> set s"
  by (auto simp: list_all_iff not_dot_def)

lemma no_dot_filter: "list_all not_dot s \<Longrightarrow> filter (\<lambda>c. c = CHR ''.'') s = []"
  by (auto simp: list_all_iff not_dot_def filter_empty_conv)

lemma json_of_text: "py_value v \<Longrightarrow> json_of_bytes (utf8_encode (json_text v)) = Some v"
  by (simp add: json_of_bytes_def)

lemma forged_decodes:
  assumes "py_value (JObj claims)"
  shows "decode_jwt (forged_token hm kid claims) =
    Inr (forged_header kid, claims, b64_text (hm [] (utf8_encode (forged_content kid claims))))"
proof -
  have "py_value (JObj (forged_header kid))" by (simp add: forged_header_def)
  moreover have "split_char (CHR ''.'') (forged_token hm kid claims) =
      [b64_text (utf8_encode (json_text (JObj (forged_header kid)))), b64_text (utf8_encode (json_text (JObj claims))),
       b64_text (hm [] (utf8_encode (forged_content kid claims)))]"
    by (simp add: forged_token_def forged_content_def split_char_cons split_char_last no_dot_set)
  ultimately show ?thesis using assms by (simp add: decode_jwt_def json_of_text)
qed

lemma text_at_header: "text_at (forged_header kid) ''alg'' = ''HS256''" "text_at (forged_header kid) ''kid'' = kid"
  by (cases kid; simp add: forged_header_def text_at_def get_or_truthy_def)+

lemma forged_valid:
  assumes "load_jwks w = Inr jwks" "dget jwks ''keys'' = Some (JList ks)" "key_with ''kid'' kid ks = Some key" "text_at key ''k'' = []"
    and "py_value (JObj claims)" "validate_standard_claims w claims = Inr ()"
  shows "valid_jwt hm w (forged_token hm kid claims) claims"
proof -
  have "before_last_dot (forged_token hm kid claims) = forged_content kid claims"
    unfolding forged_token_def by (simp add: before_last_dot_append)
  moreover have "pick_jwk (forged_header kid) jwks = Inr key" using assms(2,3) by (simp add: pick_jwk_def text_at_header)
  moreover have "b64url_decode [] = Some []" by (simp add: b64url_decode_def)
  ultimately show ?thesis
    unfolding valid_jwt_def
    by (intro exI [of _ "forged_header kid"] exI [of _ "b64_text (hm [] (utf8_encode (forged_content kid claims)))"]
        exI [of _ jwks] exI [of _ key] exI [of _ "[]"])
      (simp add: forged_decodes [OF assms(5)] text_at_header assms(1,4,6))
qed

lemma forged_dots: "length (filter (\<lambda>c. c = CHR ''.'') (forged_token hm kid claims)) = 2"
  by (simp add: forged_token_def forged_content_def no_dot_filter)

section \<open>Failures\<close>

text \<open>All errors of a computation satisfy a predicate; the rules follow the shape of a program.\<close>

definition raises_only :: "('e \<Rightarrow> bool) \<Rightarrow> 'e + 'a \<Rightarrow> bool" where
  "raises_only P m \<longleftrightarrow> (\<forall>e. m = Inl e \<longrightarrow> P e)"

named_theorems raises_intros "rules that take a program apart for the errors it can raise"

lemma raises_simps [simp]: "raises_only P (Inr x)" "raises_only P (Inl e) = P e"
  by (simp_all add: raises_only_def)

lemma raises_ebind [raises_intros]: "raises_only P m \<Longrightarrow> (\<And>x. m = Inr x \<Longrightarrow> raises_only P (f x)) \<Longrightarrow> raises_only P (ebind m f)"
  by (cases m) (simp_all add: raises_only_def)

lemma raises_if [raises_intros]:
  "(c \<Longrightarrow> raises_only P a) \<Longrightarrow> (\<not> c \<Longrightarrow> raises_only P b) \<Longrightarrow> raises_only P (if c then a else b)"
  by simp

lemma raises_option [raises_intros]:
  "(m = None \<Longrightarrow> raises_only P a) \<Longrightarrow> (\<And>x. m = Some x \<Longrightarrow> raises_only P (f x)) \<Longrightarrow> raises_only P (case m of None \<Rightarrow> a | Some x \<Rightarrow> f x)"
  by (cases m) simp_all

lemma raises_json [raises_intros]:
  "raises_only P a \<Longrightarrow> (\<And>b. raises_only P (f1 b)) \<Longrightarrow> (\<And>i. raises_only P (f2 i)) \<Longrightarrow> (\<And>s. raises_only P (f3 s)) \<Longrightarrow>
   (\<And>xs. raises_only P (f4 xs)) \<Longrightarrow> (\<And>d. raises_only P (f5 d)) \<Longrightarrow>
   raises_only P (case v of JNull \<Rightarrow> a | JBool b \<Rightarrow> f1 b | JInt i \<Rightarrow> f2 i | JStr s \<Rightarrow> f3 s | JList xs \<Rightarrow> f4 xs | JObj d \<Rightarrow> f5 d)"
  by (cases v) simp_all

lemma raises_list [raises_intros]:
  "(xs = [] \<Longrightarrow> raises_only P a) \<Longrightarrow> (\<And>y ys. xs = y # ys \<Longrightarrow> raises_only P (f y ys)) \<Longrightarrow>
   raises_only P (case xs of [] \<Rightarrow> a | y # ys \<Rightarrow> f y ys)"
  by (cases xs) simp_all

lemma raises_pair [raises_intros]: "(\<And>x y. p = (x, y) \<Longrightarrow> raises_only P (f x y)) \<Longrightarrow> raises_only P (case p of (x, y) \<Rightarrow> f x y)"
  by (cases p) simp

lemma raises_read [raises_intros]:
  "(\<And>t. raises_only P (f t)) \<Longrightarrow> raises_only P a \<Longrightarrow> raises_only P b \<Longrightarrow>
   raises_only P (case r of Text t \<Rightarrow> f t | ReadError \<Rightarrow> a | NotUtf8 \<Rightarrow> b)"
  by (cases r) simp_all

text \<open>A 401, or a Python exception that no handler turns into a response.\<close>

fun status_in :: "nat set \<Rightarrow> auth_error \<Rightarrow> bool" where
  "status_in ns (HTTPException n d) = (n \<in> ns)"
| "status_in ns (AuthPython e) = True"

lemma raises_text_equal [raises_intros]: "raises_only (status_in ns) (text_equal s t)"
  by (simp add: text_equal_def raises_only_def split: sum.splits)

lemma raises_int_at [raises_intros]: "raises_only (status_in ns) (int_at d k)"
  by (simp add: int_at_def raises_only_def split: sum.splits)

lemma raises_matched [raises_intros]: "raises_only (status_in ns) (matched_scopes token d)"
proof (induction d)
  case (Cons p d)
  obtain configured v where p: "p = (configured, v)" by (cases p)
  show ?case unfolding p matched_scopes.simps by (intro raises_intros Cons.IH) simp_all
qed simp

lemma raises_decode [raises_intros]: "raises_only (status_in {401}) (decode_jwt token)"
  unfolding decode_jwt_def by (intro raises_intros) simp_all

lemma raises_keys [raises_intros]:
  "raises_only (status_in {401}) (load_jwks w)" "raises_only (status_in {401}) (pick_jwk header jwks)"
  "raises_only (status_in {401}) (verify_jwt_signature hm header token sig jwk)"
  "raises_only (status_in {401}) (validate_standard_claims w claims)"
  unfolding load_jwks_def load_json_mapping_def pick_jwk_def verify_jwt_signature_def validate_standard_claims_def Let_def
  by (intro raises_intros; simp)+

lemma raises_bearer [raises_intros]: "raises_only (status_in {401}) (authenticate_bearer hm w a)"
  unfolding authenticate_bearer_def authenticate_legacy_audit_token_def authenticate_service_account_def authenticate_jwt_def Let_def
  by (intro raises_intros) simp_all

lemma raises_same_scope [raises_intros]: "raises_only (status_in {403}) (same_scope wanted given detail)"
  unfolding same_scope_def by (intro raises_intros) simp_all

section \<open>The legacy secret\<close>

lemma legacy_key:
  assumes "dget jwks ''keys'' = Some (JList [JObj d])"
  shows "pick_jwk header jwks = Inr d"
  using assms by (simp add: pick_jwk_def key_with_def split: option.splits)

lemma legacy_jwks_loaded:
  assumes "setting w ''ADAAD_AUTH_JWKS_JSON'' = []" "setting w ''ADAAD_AUTH_JWKS_PATH'' = []" "setting w ''ADAAD_AUTH_JWKS_URL'' = []"
    and "setting w ''ADAAD_MCP_JWT_SECRET'' \<noteq> []"
  shows "load_jwks w = Inr (legacy_jwks (setting w ''ADAAD_MCP_JWT_SECRET''))"
  using assms by (simp add: load_jwks_def jwks_from_url_def Let_def)

lemma text_at_legacy: "text_at [(''kty'', JStr a), (''kid'', JStr b), (''alg'', JStr c), (''k'', JStr s)] ''k'' = s"
  by (cases s) (simp_all add: text_at_def get_or_truthy_def)

section \<open>Worlds\<close>

definition env_of :: "(string \<times> string) list \<Rightarrow> auth_world" where
  "env_of settings = \<lparr>aw_env = map_of settings, aw_now = 100, aw_file = (\<lambda>p. ReadError), aw_url = (\<lambda>u. None)\<rparr>"

definition demo_rsa :: auth_world where
  "demo_rsa = env_of [(''ADAAD_AUTH_JWKS_JSON'',
     [CHR ''{'', CHR 0x22] @ ''keys'' @ [CHR 0x22] @ '':[{'' @ [CHR 0x22] @ ''kid'' @ [CHR 0x22, CHR '':'', CHR 0x22] @ ''r1'' @ [CHR 0x22] @ ''}]}'')]"

definition demo_claims :: obj where
  "demo_claims = [(''exp'', JInt 200), (''actions'', JList [JStr ''merge''])]"

definition demo_hmac :: "string \<Rightarrow> string \<Rightarrow> string" where
  "demo_hmac key msg = key @ ''sig''"

definition demo_legacy :: auth_world where
  "demo_legacy = env_of [(''ADAAD_MCP_JWT_SECRET'', ''k'')]"

lemma demo_rsa_keys: "load_jwks demo_rsa = Inr [(''keys'', JList [JObj [(''kid'', JStr ''r1'')]])]"
  by code_simp

lemma demo_rsa_valid:
  "validate_standard_claims demo_rsa demo_claims = Inr ()" "setting demo_rsa ''ADAAD_AUDIT_TOKENS'' = []"
  "setting demo_rsa ''ADAAD_MCP_JWT_SECRET'' = []"
  "key_with ''kid'' ''r1'' [JObj [(''kid'', JStr ''r1'')]] = Some [(''kid'', JStr ''r1'')]" "text_at [(''kid'', JStr ''r1'')] ''k'' = []"
  "py_value (JObj demo_claims)" "''merge'' \<in> set (texts_at demo_claims ''actions'')"
  "text_at demo_claims ''org_id'' = []" "text_at demo_claims ''workspace_id'' = []"
  by code_simp+

section \<open>Properties\<close>

text \<open>
  C12 (functional): what a JWT is allowed to do. With no audit tokens configured, an action is granted to a
  token that decodes exactly when its algorithm is HS256, its signature is the HMAC of the signed part under the secret of the
  key picked from the key set, it has not expired and is valid already, issuer and audience are the configured ones,
  its claims grant the action by name, role or audit scope (or are empty, with the legacy secret configured), and
  the organisation and workspace it names, if it names any, are the wanted ones.\<close>

theorem auth_action_exactly:
  assumes "setting w ''ADAAD_AUDIT_TOKENS'' = []" "decode_jwt token = Inr (header, claims, sig)"
  shows "(\<exists>d. require_action hm w (Some (''Bearer '' @ token)) action org ws = Inr d) \<longleftrightarrow>
    (\<exists>jwks jwk secret. load_jwks w = Inr jwks \<and> pick_jwk header jwks = Inr jwk \<and> text_at header ''alg'' = ''HS256'' \<and>
       b64url_decode (text_at jwk ''k'') = Some secret \<and>
       b64url_decode sig = Some (hm secret (utf8_encode (before_last_dot token)))) \<and>
    in_force w claims \<and> jwt_allows w claims action org ws"
  unfolding jwt_request [OF assms(1) decoded_dots [OF assms(2)]] valid_jwt_def assms(2) standard_claims_in_force by auto

theorem auth_action_exactly_witness:
  "(\<exists>d. require_action demo_hmac demo_rsa (Some (''Bearer '' @ forged_token demo_hmac ''r1'' demo_claims)) ''merge'' (Some ''org'') None = Inr d) \<and>
   \<not> (\<exists>d. require_action demo_hmac (demo_rsa\<lparr>aw_now := 201\<rparr>) (Some (''Bearer '' @ forged_token demo_hmac ''r1'' demo_claims)) ''merge'' None None = Inr d)"
proof -
  have now: "setting (demo_rsa\<lparr>aw_now := n\<rparr>) k = setting demo_rsa k" for n k by (simp add: setting_def)
  note decoded = forged_decodes [OF demo_rsa_valid(6), of demo_hmac "''r1''"]
  have "valid_jwt demo_hmac demo_rsa (forged_token demo_hmac ''r1'' demo_claims) demo_claims"
    by (rule forged_valid [OF demo_rsa_keys _ demo_rsa_valid(4,5,6,1)]) simp
  moreover have "jwt_allows demo_rsa demo_claims ''merge'' (Some ''org'') None"
    using demo_rsa_valid(7-9) by (simp add: jwt_allows_def claim_grants_def scope_allows_def)
  ultimately have "\<exists>d. require_action demo_hmac demo_rsa (Some (''Bearer '' @ forged_token demo_hmac ''r1'' demo_claims)) ''merge'' (Some ''org'') None = Inr d"
    unfolding auth_action_exactly [OF demo_rsa_valid(2) decoded] by (auto simp: valid_jwt_def decoded standard_claims_in_force)
  moreover have "\<not> in_force (demo_rsa\<lparr>aw_now := 201\<rparr>) demo_claims" by (simp add: in_force_def seconds_def demo_claims_def)
  ultimately show ?thesis
    using auth_action_exactly [OF _ decoded, of "demo_rsa\<lparr>aw_now := 201\<rparr>"] demo_rsa_valid(2) by (simp add: now)
qed

text \<open>
  A key set with a public key can be signed for by anyone. If the configured keys hold one
  with an identifier and no symmetric secret, as every RSA key is, a token that names it, says HS256 and is
  signed under the empty secret gets every action its own claims ask for, in every organisation.\<close>

theorem auth_public_key_forges:
  assumes "load_jwks w = Inr jwks" "dget jwks ''keys'' = Some (JList ks)" "key_with ''kid'' kid ks = Some key" "text_at key ''k'' = []"
    and "setting w ''ADAAD_AUDIT_TOKENS'' = []" "py_value (JObj claims)" "validate_standard_claims w claims = Inr ()"
    and "action \<in> set (texts_at claims ''actions'')" "text_at claims ''org_id'' = []" "text_at claims ''workspace_id'' = []"
  shows "\<exists>d. require_action hm w (Some (''Bearer '' @ forged_token hm kid claims)) action org ws = Inr d"
proof -
  have "jwt_allows w claims action org ws"
    using assms(8-10) by (auto simp: jwt_allows_def claim_grants_def scope_allows_def split: option.splits)
  then show ?thesis
    using forged_valid [OF assms(1-4,6,7), of hm] jwt_request [OF assms(5) forged_dots] by blast
qed

theorem auth_public_key_forges_witness:
  "\<exists>d. require_action demo_hmac demo_rsa (Some (''Bearer '' @ forged_token demo_hmac ''r1'' demo_claims)) ''merge'' (Some ''any'') (Some ''ws'') = Inr d"
  by (rule auth_public_key_forges [OF demo_rsa_keys _ demo_rsa_valid(4,5,2,6,1,7,8,9)]) simp

text \<open>
  A deployment with only the legacy secret accepts exactly the tokens signed under it: the
  key set the code builds by encoding the secret gives the same secret back when a token is checked.\<close>

theorem auth_legacy_secret_signs:
  assumes "setting w ''ADAAD_AUTH_JWKS_JSON'' = []" "setting w ''ADAAD_AUTH_JWKS_PATH'' = []" "setting w ''ADAAD_AUTH_JWKS_URL'' = []"
    and "setting w ''ADAAD_MCP_JWT_SECRET'' = secret" "secret \<noteq> []"
  shows "valid_jwt hm w token claims \<longleftrightarrow>
    (\<exists>header sig. decode_jwt token = Inr (header, claims, sig) \<and> text_at header ''alg'' = ''HS256'' \<and>
       b64url_decode sig = Some (hm (utf8_encode secret) (utf8_encode (before_last_dot token))) \<and>
       validate_standard_claims w claims = Inr ())"
proof -
  have "load_jwks w = Inr (legacy_jwks secret)" using legacy_jwks_loaded assms by metis
  moreover have "pick_jwk header (legacy_jwks secret) =
      Inr [(''kty'', JStr ''oct''), (''kid'', JStr ''legacy-hs256''), (''alg'', JStr ''HS256''), (''k'', JStr (b64_text (utf8_encode secret)))]"
    for header
    by (rule legacy_key) (simp add: legacy_jwks_def b64_text_def)
  ultimately show ?thesis by (simp add: valid_jwt_def text_at_legacy)
qed

theorem auth_legacy_secret_signs_witness:
  "\<not> valid_jwt demo_hmac demo_legacy (forged_token demo_hmac ''r1'' demo_claims) demo_claims"
proof -
  have "setting demo_legacy ''ADAAD_AUTH_JWKS_JSON'' = []" "setting demo_legacy ''ADAAD_AUTH_JWKS_PATH'' = []"
    "setting demo_legacy ''ADAAD_AUTH_JWKS_URL'' = []" "setting demo_legacy ''ADAAD_MCP_JWT_SECRET'' = ''k''" by code_simp+
  from auth_legacy_secret_signs [OF this, of demo_hmac "forged_token demo_hmac ''r1'' demo_claims" demo_claims]
  show ?thesis
    using forged_decodes [OF demo_rsa_valid(6), of demo_hmac "''r1''"] by (simp add: demo_hmac_def utf8_encode_def utf8_char_def)
qed

text \<open>
  A refusal is a 401 when the request was not authenticated and a 403 when it was; the only
  other failures are Python exceptions that leave the handler.\<close>

theorem auth_refusals:
  assumes "require_action hm w a action org ws = Inl (HTTPException n d)"
  shows "n = (if authenticate_bearer hm w a = Inl (HTTPException n d) then 401 else 403)"
proof (cases "authenticate_bearer hm w a")
  case (Inl e)
  then have "e = HTTPException n d" using assms by (simp add: require_action_def)
  then show ?thesis using raises_bearer [of hm w a] Inl by (simp add: raises_only_def)
next
  case (Inr c)
  have "raises_only (status_in {403}) (require_action hm w a action org ws)"
    unfolding require_action_def Inr ebind.simps by (intro raises_intros) simp_all
  then show ?thesis using assms Inr by (simp add: raises_only_def)
qed

theorem auth_refusals_witness:
  "\<exists>n. require_action demo_hmac demo_rsa None ''read'' None None = Inl (HTTPException n ''missing_authentication'') \<and> n = 401"
proof -
  have r: "authenticate_bearer demo_hmac demo_rsa None = Inl (HTTPException 401 ''missing_authentication'')"
    by (simp add: authenticate_bearer_def)
  then have "require_action demo_hmac demo_rsa None ''read'' None None = Inl (HTTPException 401 ''missing_authentication'')"
    by (simp add: require_action_def)
  from this auth_refusals [OF this] r show ?thesis by simp
qed
end
