(* ===== verification/Spec2Isabelle.thy ===== *)
theory Spec2Isabelle
  imports Prelude Json HashChain RowLedger GateLedger CertifierLedger MutationQueue IsoTime HumanApproval Consensus ExceptionTokens GateV2 CreditLedger
    Amendment PhaseGate Signatures RollbackCertificate Lifecycle Promotion RateLimiter
    EventTaxonomy Tenancy JsonText Journal Lineage LedgerAppend LineageV2 LineageEpochs FoundersLaw GovernanceGate ConstitutionPolicy ConstitutionEval ConstitutionRules CircuitBreaker MutationConsensus Base64 UnifiedAuth
begin

text \<open>
  A model of the governance core of ADAAD, a Python runtime in which agents propose mutations of
  code and a constitution decides which of them go through. Every theory names the file it models;
  paths are relative to \<open>src/\<close>.

  \<^bold>\<open>The program's parts.\<close> A proposal comes in through an endpoint behind a rate limiter and is queued
  with a priority. Gates judge it: additive rules on the parsed code, a human decision, an exception
  token or a time-bounded amendment that relaxes one rule, the phase the runtime is in. What is decided is
  signed and written to append-only ledgers, most of them hash chains. An accepted mutation moves through
  the stages of its lifecycle and of promotion, and a rollback is certified. Several nodes agree by
  leader election.

  \<^bold>\<open>Shared theories.\<close>
  \<^item> \<open>Prelude\<close>: Python exceptions as values (\<open>py_error\<close>, \<open>res\<close>, \<open>ebind\<close>, \<open>ethen\<close> for a call that leaves a
    state either way), dictionaries as insertion-ordered association lists, slices, the string methods, and
    the locales \<open>priority_buffer\<close> (a buffer that gives out a first least element drains in the stable order of
    its key) and \<open>ranked_machine\<close> (a machine whose steps raise a rank visits no state twice and stops).
  \<^item> \<open>Json\<close>: \<open>runtime/governance/foundation/canonical.py\<close>. The canonical text determines the value up to
    the order of keys. A JSONL file is there the list of what its lines parse to.
  \<^item> \<open>JsonText\<close>: \<open>json.dumps\<close> with blanks and a \<open>json.loads\<close> on texts, with their round trip; \<open>n\<close> steps are
    enough for a text of length \<open>n\<close>. Used where the code works on bytes and offsets.
  \<^item> \<open>HashChain\<close>: \<open>runtime/governance/foundation/hashing.py\<close> and the locale \<open>hash_chain\<close>: two chains that verify
    and end in the same hash have the same contents, or a collision of SHA-256 is found among their rows.
  \<^item> \<open>RowLedger\<close>: the ledger class that the gate and the certifier ledger both are, and the locale
    \<open>row_ledger_ops\<close> of what the class needs from its record builder, with \<open>hash_chain\<close> as a sublocale.
  \<^item> \<open>Rounding\<close>: \<open>round\<close> on the rational a float denotes.

  \<^bold>\<open>Components.\<close>
  \<^item> \<open>GateLedger\<close>, \<open>CertifierLedger\<close>: \<open>gate_decision_ledger.py\<close> and \<open>certifier_scan_ledger.py\<close> under
    \<open>runtime/governance/\<close>, interpretations of \<open>row_ledger_ops\<close>. Emits keep a file that verifies, and tampering with
    a covered field shows.
  \<^item> \<open>MutationQueue\<close>: \<open>dorkllm/constitutional_mutation_queue.py\<close>, an interpretation of \<open>priority_buffer\<close>.
    Reachable queues are well formed and are drained by priority.
  \<^item> \<open>HumanApproval\<close>: \<open>runtime/governance/human_approval_gate.py\<close>. The index is the replay of the two logs; who
    may decide, and when the gate answers yes.
  \<^item> \<open>Consensus\<close>: \<open>runtime/governance/federation/consensus.py\<close>. A network of engines as a step relation: at
    most one leader in a term, logs only grow.
  \<^item> \<open>ExceptionTokens\<close>, \<open>Amendment\<close>: \<open>exception_tokens.py\<close> and \<open>constitutional_amendment.py\<close>. What an active
    relaxation was checked for, what the ledger gives back, what expires.
  \<^item> \<open>GateV2\<close>: \<open>runtime/governance/gate_v2.py\<close>, with the walk over the syntax tree. The decision on every input.
  \<^item> \<open>FoundersLaw\<close>, \<open>GovernanceGate\<close>: \<open>runtime/founders_law.py\<close>, \<open>runtime/governance/gate.py\<close> and \<open>parallel_gate.py\<close>. Which
    mutations the gate approves under which policy, how the parallel gate differs, and that on the journal of
    \<open>Journal\<close> a decision leaves its rows and nothing else.
  \<^item> \<open>CircuitBreaker\<close>: \<open>dorkllm/circuit_breaker.py\<close>. The breaker trips exactly on a cascade, stays open until HUMAN-0
    resets it, and keeps a ledger that verifies; what a restart and a failed write lose.
  \<^item> \<open>MutationConsensus\<close>: \<open>dorkllm/constitutional_mutation_consensus_engine.py\<close>, rounds of votes on an HMAC-chained ledger. Every
    outcome is the one the votes call for, a closed round is final, and the ledger gives back the engine, also
    when a process dies inside a veto; what that and the uncovered event types allow.
  \<^item> \<open>CreditLedger\<close>: \<open>runtime/evolution/mutation_credit_ledger.py\<close> with its two side files and crashes between
    the writes. Each key is credited once, balances are sums, an append ends.
  \<^item> \<open>PhaseGate\<close>: \<open>runtime/governance/phase_transition_gate.py\<close>. The phase advances by one, exactly when the gate's
    evidence suffices; the state file and its JSON.
  \<^item> \<open>Signatures\<close>, \<open>RollbackCertificate\<close>: \<open>security/cryovant_legacy.py\<close> (signatures, environments, governance tokens),
    \<open>security/token_parsing/governance.py\<close>, \<open>runtime/tools/rollback_certificate.py\<close>. HMAC keyed by a resolved secret;
    tokens and certificates round trip and bind their fields.
  \<^item> \<open>Base64\<close>, \<open>UnifiedAuth\<close>: \<open>security/unified_auth.py\<close>. Which requests are authorised; the base64 round trip
    behind the legacy secret; forging under a key set that holds a public key.
  \<^item> \<open>Lifecycle\<close>, \<open>Promotion\<close>: \<open>runtime/mutation_lifecycle.py\<close> and \<open>runtime/evolution/promotion_state_machine.py\<close>, both
    interpretations of \<open>ranked_machine\<close>.
  \<^item> \<open>RateLimiter\<close>: \<open>runtime/governance/rate_limiter.py\<close>. No window holds more calls than the limit.
  \<^item> \<open>EventTaxonomy\<close>, \<open>Tenancy\<close>, \<open>Journal\<close>, \<open>Lineage\<close>: \<open>runtime/governance/event_taxonomy.py\<close>, \<open>runtime/tenancy.py\<close> and
    \<open>security/ledger/journal.py\<close>, which checks an event with the first, picks a file with the second and appends to a
    hash-chained journal whose verified tail it remembers. Any run of several processes leaves a journal
    that verifies, and what they remember changes nothing in what they write.
  \<^item> \<open>LedgerAppend\<close>: \<open>security/ledger/append.py\<close>. The backward block reader finds the last line.
  \<^item> \<open>LineageV2\<close>, \<open>LineageEpochs\<close>: \<open>runtime/evolution/lineage_v2.py\<close>. Reading the tail backwards is verifying the file; appends
    that race with other processes, which are functions on the text of the file that extend the chain, keep it
    a chain; the digests of an epoch are those of its bundles; what is lost in a race, behind a lock of a dead process, to a
    tenant, and to \<open>resolve_chain\<close>, which rejects every ledger the class wrote.
  \<^item> \<open>ConstitutionPolicy\<close>, \<open>ConstitutionEval\<close>, \<open>ConstitutionRules\<close>: \<open>runtime/constitution.py\<close>. The first loads, boots and
    reloads the policy document and resolves what a rule's severity is for a request (applicability, tier overrides,
    escalations, the floors of \<open>governance_surface.py\<close>); the second puts the rules into the order of their
    dependencies, judges them and writes the ledger rows: what passes, that every rule runs once and after
    its dependencies, that a validator which raises blocks. The third has the validators that decide from data
    (lineage, signature, entropy, market signals, recording), among them a lineage rule that refuses every journal
    that \<open>Journal\<close> writes. The other validators, the debt ledger and telemetry are fields of the record \<open>governor\<close>.

  \<^bold>\<open>Conventions.\<close> A dataclass is a record and an enumeration a datatype. A method takes the object and
  returns its result or exception with the new object. Clock readings, random identifiers and environment
  variables are arguments. SHA-256 and HMAC, which the code takes from its libraries, are parameters; a
  theorem that needs their output to be 64 hexadecimal digits, or ASCII, says so, and none assumes that there are
  no collisions. A float is the rational it denotes. A character is a code point below 256. File writes
  happen whole; where the code handles a failed or interrupted write, the model has that outcome too.

  \<^bold>\<open>Bounds and fuel.\<close> The JSON reader takes a number of steps; \<open>loads_render\<close> shows that the length of
  the text suffices. So does the walk of \<open>resolve_chain\<close>; \<open>walk_returns\<close> shows that one more than the mutations
  suffices. The retries of an append end by a measure. The walk of \<open>GateV2\<close>, the backward
  reader and the rule ordering \<open>visit\<close> of \<open>ConstitutionEval\<close> terminate by a measure.

  \<^bold>\<open>Not modelled.\<close> The user interfaces and servers (\<open>ui/\<close>, \<open>server.py\<close>, \<open>app/\<close>, \<open>android/\<close>) and the scripts are
  input and output around these components. The evolution loops (\<open>runtime/evolution/evolution_loop.py\<close>,
  \<open>constitutional_evolution_loop.py\<close>) call language models and tools. The validators of \<open>runtime/constitution.py\<close> that
  parse sources, run tools or measure the machine (preflight, complexity, coverage, mutation rate, resource bounds)
  and the governance debt ledger are arguments. The rest of \<open>security/cryovant_legacy.py\<close> (identity rings, key rotation, boot checks), the reviewer,
  threat, admission and pressure ledgers, whose verifiers are stricter than the one of \<open>RowLedger\<close>, and the scoring heuristics on
  floats are left out. Metrics and logging are dropped throughout.
\<close>

end
